(* ===== verification/Prelude.thy ===== *)
theory Prelude
  imports Main "HOL-Library.Word" "HOL-Library.Monad_Syntax" "HOL-Library.Multiset"
begin

unbundle bit_operations_syntax

text \<open>
  Shared vocabulary of the development: the machine types of the driver, single-bit
  flag masks, little-endian byte views, intrusive lists as lists of addresses, the
  kernel's sequence-number and jiffies comparisons, and two interfaces that several
  components rely on: circular indices and guarded state machines.

  Conventions used by every theory.
  \<^item> A value of type \<open>'a option\<close> returned by an operation is the C outcome:
    \<open>None\<close> stands for undefined behaviour or a kernel \<open>BUG\<close> (access to a freed object,
    an array index out of range), \<open>Some\<close> for a normal return.
  \<^item> Pointers are natural numbers; a null pointer is \<open>None\<close> of an \<open>addr option\<close>.
  \<^item> C integers whose overflow can matter are words of their width.
\<close>

section \<open>Machine types\<close>

type_synonym u8 = "8 word"
type_synonym u16 = "16 word"
type_synonym u32 = "32 word"
type_synonym u64 = "64 word"
type_synonym addr = nat

text \<open>\<open>enum interface_type\<close> of aml_bus/aml_interface.h: the bus the chip sits on.\<close>

datatype interface_type = SDIO_MODE | USB_MODE | PCIE_MODE

named_theorems wf_intros \<open>preservation of the components' well-formedness invariants\<close>

section \<open>Single-bit masks\<close>

text \<open>The kernel's \<open>BIT(n)\<close>.\<close>

definition BIT :: "nat \<Rightarrow> 'a::len word" where
  "BIT n = push_bit n 1"

lemma BIT_exp: "BIT n = 2 ^ n"
  by (simp add: BIT_def push_bit_eq_mult)

lemma bit_BIT [simp]: "bit (BIT n :: 'a::len word) m \<longleftrightarrow> m = n \<and> n < LENGTH('a)"
  by (auto simp: BIT_exp bit_exp_iff possible_bit_def)

lemma and_BIT_eq_0 [simp]: "w AND BIT n = (0 :: 'a::len word) \<longleftrightarrow> \<not> bit w n"
  by (simp add: BIT_exp and_exp_eq_0_iff_not_bit)

lemma and_or_BIT_eq_0 [simp]:
  "w AND (BIT n OR m) = (0 :: 'a::len word) \<longleftrightarrow> \<not> bit w n \<and> w AND m = 0"
  by (simp add: bit.conj_disj_distrib or_eq_0_iff)

lemma bit_not_word [simp]: "bit (NOT w :: 'a::len word) n \<longleftrightarrow> n < LENGTH('a) \<and> \<not> bit w n"
  by (simp add: bit_not_iff possible_bit_def)

section \<open>Little-endian byte views\<close>

definition le16 :: "u16 \<Rightarrow> u8 list" where
  "le16 w = [ucast w, ucast (drop_bit 8 w)]"

definition rd_le32 :: "u8 list \<Rightarrow> u32 option" where
  "rd_le32 bs = (case bs of
     a # b # c # d # _ \<Rightarrow>
       Some (ucast a OR push_bit 8 (ucast b) OR push_bit 16 (ucast c) OR push_bit 24 (ucast d))
   | _ \<Rightarrow> None)"

definition rd_le16 :: "u8 list \<Rightarrow> nat \<Rightarrow> u16 option" where
  "rd_le16 d i = (if i + 1 < length d then Some (ucast (d ! i) OR push_bit 8 (ucast (d ! (i + 1)))) else None)"

definition rd8 :: "u8 list \<Rightarrow> nat \<Rightarrow> u8 option" where
  "rd8 d i = (if i < length d then Some (d ! i) else None)"

lemma length_le16 [simp]: "length (le16 w) = 2"
  by (simp add: le16_def)

lemma rd_le32_Some: "4 \<le> length bs \<Longrightarrow> \<exists>w. rd_le32 bs = Some w"
  by (auto simp: rd_le32_def Suc_le_length_iff numeral_eq_Suc)

section \<open>Lists\<close>

text \<open>
  The first element that satisfies a test together with the elements behind it: what a
  \<open>list_for_each_entry\<close> that breaks at a hit leaves in its cursor.
\<close>

fun find_from :: "('a \<Rightarrow> bool) \<Rightarrow> 'a list \<Rightarrow> 'a list" where
  "find_from P [] = []"
| "find_from P (x # xs) = (if P x then x # xs else find_from P xs)"

lemma find_from_Nil: "find_from P xs = [] \<longleftrightarrow> (\<forall>x\<in>set xs. \<not> P x)"
  by (induction xs) auto

lemma find_from_Cons:
  "find_from P xs = y # ys \<Longrightarrow> P y \<and> y \<in> set xs \<and> (\<exists>zs. xs = zs @ y # ys \<and> (\<forall>z\<in>set zs. \<not> P z))"
proof (induction xs)
  case (Cons x xs)
  then show ?case
    by (cases "P x") (auto 0 3 intro: exI [of _ "x # _"])
qed simp

lemma set_find_from: "set (find_from P xs) \<subseteq> set xs"
  by (induction xs) auto

lemma distinct_remove1_notin [simp]: "distinct xs \<Longrightarrow> x \<notin> set (remove1 x xs)"
  by simp

lemma length_remove1_mem: "x \<in> set xs \<Longrightarrow> Suc (length (remove1 x xs)) = length xs"
  by (induction xs) auto

text \<open>A store into a C array: \<open>None\<close> when the index is outside of it.\<close>

definition put :: "'a list \<Rightarrow> nat \<Rightarrow> 'a \<Rightarrow> 'a list option" where
  "put xs i x = (if i < length xs then Some (xs[i := x]) else None)"

lemma put_in_range [simp]: "i < length xs \<Longrightarrow> put xs i x = Some (xs[i := x])"
  by (simp add: put_def)

lemma put_Some_iff: "put xs i x = Some ys \<longleftrightarrow> i < length xs \<and> ys = xs[i := x]"
  by (auto simp: put_def)

lemma sum_list_map_update:
  fixes f :: "'a \<Rightarrow> 'b::comm_monoid_add"
  shows "i < length xs \<Longrightarrow> sum_list (map f (xs[i := y])) + f (xs ! i) = sum_list (map f xs) + f y"
proof (induction xs arbitrary: i)
  case (Cons x xs)
  then show ?case
    by (cases i) (simp_all add: ac_simps)
qed simp

section \<open>Jiffies\<close>

text \<open>
  The kernel's \<open>time_after(a, b)\<close>: a signed reading of the difference of two
  \<open>unsigned long\<close> time stamps, so that it survives the wrap of the counter.
\<close>

definition time_after :: "u64 \<Rightarrow> u64 \<Rightarrow> bool" where
  "time_after a b \<longleftrightarrow> bit (b - a) 63"

lemma time_after_irrefl [simp]: "\<not> time_after a a"
  by (simp add: time_after_def)

section \<open>Circular indices\<close>

text \<open>
  Several components keep an index into a fixed array and advance it cyclically. The
  clients need two facts only: an index stays inside the array, and the next \<open>n\<close> indices
  are pairwise different, so a slot is not written twice in one round.
\<close>

locale circular_index =
  fixes next_idx :: "nat \<Rightarrow> nat"
    and ring_size :: nat
  assumes ring_pos: "0 < ring_size"
    and next_mod: "i < ring_size \<Longrightarrow> next_idx i = Suc i mod ring_size"
begin

lemma next_in_range: "i < ring_size \<Longrightarrow> next_idx i < ring_size"
  by (simp add: next_mod ring_pos)

lemma funpow_next: "i < ring_size \<Longrightarrow> (next_idx ^^ k) i = (i + k) mod ring_size"
proof (induction k)
  case (Suc k)
  then have "(next_idx ^^ k) i < ring_size"
    by (simp add: ring_pos)
  with Suc show ?case
    by (simp add: next_mod mod_Suc_eq)
qed simp

lemma round_trip: "i < ring_size \<Longrightarrow> (next_idx ^^ ring_size) i = i"
  by (simp add: funpow_next)

lemma no_reuse_in_round:
  assumes "i < ring_size" and "0 < k" and "k < ring_size"
  shows "(next_idx ^^ k) i \<noteq> i"
proof
  assume "(next_idx ^^ k) i = i"
  with assms have "(i + k) mod ring_size = i mod ring_size"
    by (simp add: funpow_next)
  then have "ring_size dvd k"
    by (metis add_diff_cancel_left' mod_eq_dvd_iff_nat le_add1)
  with assms show False
    by (auto dest: dvd_imp_le)
qed

end

section \<open>Guarded state machines\<close>

text \<open>
  The contract of a component driven by events: \<open>step e s\<close> is \<open>None\<close> when handling \<open>e\<close> in
  \<open>s\<close> faults. The provider shows that its invariant holds initially, that every event
  keeps it; the client gets it for every state the component reaches.
\<close>

fun run :: "('e \<Rightarrow> 's \<Rightarrow> 's option) \<Rightarrow> 'e list \<Rightarrow> 's \<Rightarrow> 's option" where
  "run step [] s = Some s"
| "run step (e # es) s = (case step e s of None \<Rightarrow> None | Some s' \<Rightarrow> run step es s')"

lemma run_append: "run step (es @ fs) s = Option.bind (run step es s) (run step fs)"
  by (induction es arbitrary: s) (auto split: option.splits)

locale guarded_machine =
  fixes step :: "'e \<Rightarrow> 's \<Rightarrow> 's option"
    and inv :: "'s \<Rightarrow> bool"
  assumes inv_step: "inv s \<Longrightarrow> step e s = Some s' \<Longrightarrow> inv s'"
begin

lemma inv_run: "inv s \<Longrightarrow> run step es s = Some s' \<Longrightarrow> inv s'"
  by (induction es arbitrary: s) (auto split: option.splits intro: inv_step)

end

locale total_machine = guarded_machine +
  assumes step_defined: "inv s \<Longrightarrow> \<exists>s'. step e s = Some s'"
begin

lemma run_defined: "inv s \<Longrightarrow> \<exists>s'. run step es s = Some s' \<and> inv s'"
proof (induction es arbitrary: s)
  case (Cons e es)
  then obtain t where "step e s = Some t"
    using step_defined by blast
  with Cons inv_step show ?case
    by simp
qed simp

end

end
