(* ===== verification/Ipc_Host.thy ===== *)
theory Ipc_Host
  imports Prelude
begin

text \<open>
  The host side of the IPC with the firmware (aml_drv/ipc_host.c, ipc_host.h,
  ipc_shared.h and common/fw/dp_tx.h): the table that associates TX buffers with 32-bit
  host ids, the circular arrays through which buffers are handed to the firmware, the
  TX descriptor doorbell, the single A2E message slot and the dispatch of interrupts.
  The build options are those of the repository's Makefiles and defconfig
  (\<open>CONFIG_AML_FULLMAC\<close>, \<open>CONFIG_USER_MAX = 1\<close>, \<open>NX_TXQ_CNT = 5\<close>,
  \<open>CONFIG_AML_RECOVERY\<close>). Debug traces (the \<open>record_push_*\<close> rings, log output, register
  profiling) carry no behaviour and are left out.
\<close>

unbundle bit_operations_syntax

section \<open>Constants (ipc_shared.h)\<close>

definition NX_TXQ_CNT :: nat where "NX_TXQ_CNT = 5"
definition IPC_HOSTID_CNT :: nat where "IPC_HOSTID_CNT = 128 + 128 + 128 + 128 + 8"
definition IPC_TXCFM_CNT :: nat where "IPC_TXCFM_CNT = 64 + 64 + 64 + 64 + 8"
definition IPC_TXDMA_DESC_CNT :: nat where "IPC_TXDMA_DESC_CNT = IPC_TXCFM_CNT + 1"
definition IPC_RXBUF_CNT :: nat where "IPC_RXBUF_CNT = 128"
definition IPC_RXBUF_CNT_EXT :: nat where "IPC_RXBUF_CNT_EXT = 896"
definition IPC_RXDESC_CNT :: nat where "IPC_RXDESC_CNT = 128"
definition IPC_RXDESC_CNT_EXT :: nat where "IPC_RXDESC_CNT_EXT = 128"
definition IPC_RADARBUF_CNT :: nat where "IPC_RADARBUF_CNT = 16"
definition IPC_UNSUPRXVECBUF_CNT :: nat where "IPC_UNSUPRXVECBUF_CNT = 8"
definition IPC_MSGE2A_BUF_CNT :: nat where "IPC_MSGE2A_BUF_CNT = 64"
definition IPC_DBGBUF_CNT :: nat where "IPC_DBGBUF_CNT = 32"
definition A2E_MSG_BYTES :: nat where "A2E_MSG_BYTES = 127 * 4"

lemmas ipc_cnt_defs = NX_TXQ_CNT_def IPC_HOSTID_CNT_def IPC_TXCFM_CNT_def
  IPC_TXDMA_DESC_CNT_def IPC_RXBUF_CNT_def IPC_RXBUF_CNT_EXT_def IPC_RXDESC_CNT_def
  IPC_RXDESC_CNT_EXT_def IPC_RADARBUF_CNT_def IPC_UNSUPRXVECBUF_CNT_def
  IPC_MSGE2A_BUF_CNT_def IPC_DBGBUF_CNT_def A2E_MSG_BYTES_def

section \<open>State\<close>

text \<open>
  \<open>struct aml_ipc_buf\<close>: the buffer's own address, its DMA address, and the host id stored
  in the control block of the socket buffer it carries (\<open>AML_RXBUFF_HOSTID_GET\<close>).
\<close>

record aml_ipc_buf =
  buf_ptr :: addr
  dma_addr :: u32
  skb_hostid :: u32

text \<open>\<open>struct ipc_hostid\<close>; its list link is the membership of its index in a list below.\<close>

record ipc_hostid =
  hostptr :: "addr option"
  hostid :: u32

record ipc_shared_rx_buf =
  rxb_hostid :: u32
  rxb_dma_addr :: u32

text \<open>\<open>struct ipc_shared_env_tag\<close>: the fields the host writes.\<close>

record ipc_shared_env =
  msg_a2e_buf :: "u8 list"
  msg_e2a_hostbuf_addr :: "u32 list"
  dbg_hostbuf_addr :: "u32 list"
  la_dbginfo_addr :: u32
  pattern_addr :: u32
  radarbuf_hostbuf :: "u32 list"
  unsuprxvecbuf_hostbuf :: "u32 list"
  txdmadesc_src :: "u32 list"
  txcfm_hostbuf_addr :: "u32 list"
  host_rxdesc :: "u32 list"
  host_rxbuf :: "ipc_shared_rx_buf list"

text \<open>
  \<open>struct ipc_host_env_tag\<close>, with the globals \<open>g_host_rxbuf\<close>, \<open>g_host_rxdesc\<close> and
  \<open>aml_hw->hostid_prefix\<close>. \<open>tx_hostid\<close> is the table of the bus in use (\<open>tx_hostid\<close> on
  PCIe, \<open>tx_hostid_sdio_usb\<close> otherwise): only that one is ever linked into the two lists,
  whose elements are indices of the table. \<open>a2e_triggers\<close> records the doorbells rung.
\<close>

record ipc_host_env =
  shared :: ipc_shared_env
  g_host_rxbuf :: "ipc_shared_rx_buf list option"
  g_host_rxdesc :: "u32 list option"
  hostid_prefix :: u16
  rxdesc :: "addr option list"
  rxdesc_idx :: nat
  rxdesc_nb :: nat
  rxbuf_idx :: nat
  rxbuf_nb :: nat
  radar :: "addr option list"
  radar_idx :: nat
  unsuprxvec :: "addr option list"
  unsuprxvec_idx :: nat
  txdmadesc_idx :: nat
  tx_hostid :: "ipc_hostid list"
  tx_hostid_available :: "nat list"
  tx_hostid_pushed :: "nat list"
  txcfm :: "addr option list"
  txcfm_idx :: nat
  msgbuf :: "addr option list"
  msgbuf_idx :: nat
  msga2e_cnt :: u8
  msga2e_hostid :: "addr option"
  dbgbuf :: "addr option list"
  dbgbuf_idx :: nat
  a2e_triggers :: "u32 list"

text \<open>
  What the IPC reads of the rest of the driver: the bus, the suspend counter and shutdown
  flag of the PCIe glue, \<open>g_pci_msg_suspend\<close>, \<open>aml_hw->state\<close> and the recovery flag
  \<open>AML_RECY_STATE_ONGOING\<close>.
\<close>

datatype wifi_suspend_state =
  WIFI_SUSPEND_STATE_NONE | WIFI_SUSPEND_STATE_WOW | WIFI_SUSPEND_STATE_DEEPSLEEP

record plat =
  aml_bus_type :: interface_type
  bus_suspend_cnt :: nat
  g_pci_shutdown :: bool
  g_pci_msg_suspend :: bool
  hw_state :: wifi_suspend_state
  recy_state_ongoing :: bool

text \<open>The guard every PCIe entry point starts with.\<close>

definition pci_blocked :: "plat \<Rightarrow> bool" where
  "pci_blocked pl \<longleftrightarrow> aml_bus_type pl = PCIE_MODE \<and> (bus_suspend_cnt pl \<noteq> 0 \<or> g_pci_shutdown pl)"

section \<open>Host ids of TX buffers\<close>

definition COMPACT_HOST_ID_BITS :: nat where "COMPACT_HOST_ID_BITS = 26"

definition COMPACT_HOST_ID_MASK :: u32 where
  "COMPACT_HOST_ID_MASK = push_bit COMPACT_HOST_ID_BITS 1 - 1"

definition aml_compact_tx_host_id :: "u32 \<Rightarrow> u32 \<Rightarrow> u32" where
  "aml_compact_tx_host_id hi host_id =
     (push_bit 16 hi OR (host_id AND 0xFFFF)) AND COMPACT_HOST_ID_MASK"

definition hostid_cnt :: "interface_type \<Rightarrow> nat" where
  "hostid_cnt bus = (if bus = PCIE_MODE then IPC_TXCFM_CNT else IPC_HOSTID_CNT)"

definition init_hostid :: "interface_type \<Rightarrow> nat \<Rightarrow> u32" where
  "init_hostid bus i =
     (if bus = PCIE_MODE then of_nat i else aml_compact_tx_host_id (of_nat i) (of_nat i))"

text \<open>\<open>list_del\<close> of a table entry: it leaves whichever of the two lists holds it.\<close>

definition hostid_list_del :: "nat \<Rightarrow> ipc_host_env \<Rightarrow> ipc_host_env" where
  "hostid_list_del i env = env\<lparr>
     tx_hostid_available := remove1 i (tx_hostid_available env),
     tx_hostid_pushed := remove1 i (tx_hostid_pushed env)\<rparr>"

definition ipc_host_tx_host_ptr_to_id :: "ipc_host_env \<Rightarrow> addr \<Rightarrow> ipc_host_env \<times> u32" where
  "ipc_host_tx_host_ptr_to_id env host_ptr =
     (case tx_hostid_available env of
        [] \<Rightarrow> (env, 0)
      | i # _ \<Rightarrow>
          let env1 = hostid_list_del i env;
              env2 = env1\<lparr>tx_hostid_pushed := tx_hostid_pushed env1 @ [i]\<rparr>;
              e = (tx_hostid env ! i)\<lparr>hostptr := Some host_ptr\<rparr>
          in (env2\<lparr>tx_hostid := (tx_hostid env)[i := e]\<rparr>, hostid e))"

text \<open>The PCIe lookup: \<open>BUG_ON\<close> on any other bus.\<close>

definition ipc_host_tx_host_id_to_ptr ::
    "plat \<Rightarrow> ipc_host_env \<Rightarrow> u32 \<Rightarrow> (ipc_host_env \<times> addr option) option" where
  "ipc_host_tx_host_id_to_ptr pl env h =
     (if h = 0 \<or> IPC_TXCFM_CNT < unat h then Some (env, None)
      else if aml_bus_type pl \<noteq> PCIE_MODE then None
      else let i = unat h - 1;
               env1 = hostid_list_del i env
           in Some (env1\<lparr>tx_hostid_available := tx_hostid_available env1 @ [i]\<rparr>,
                    hostptr (tx_hostid env ! i)))"

definition ipc_host_tx_host_id_to_ptr_for_sdio_usb ::
    "ipc_host_env \<Rightarrow> u32 \<Rightarrow> ipc_host_env \<times> addr option" where
  "ipc_host_tx_host_id_to_ptr_for_sdio_usb env h =
     (if h = 0 \<or> IPC_HOSTID_CNT < unat (h AND 0xFFFF) then (env, None)
      else case find_from (\<lambda>i. hostid (tx_hostid env ! i) = h) (tx_hostid_pushed env) of
        [] \<Rightarrow> (env, None)
      | i # _ \<Rightarrow>
          let env1 = hostid_list_del i env;
              pfx = hostid_prefix env + 1;
              e = tx_hostid env ! i;
              e' = e\<lparr>hostid := aml_compact_tx_host_id (ucast pfx) (hostid e)\<rparr>
          in (env1\<lparr>hostid_prefix := pfx,
                   tx_hostid := (tx_hostid env)[i := e'],
                   tx_hostid_available := tx_hostid_available env1 @ [i]\<rparr>,
              hostptr e))"

definition ipc_host_tx_frames_pending :: "ipc_host_env \<Rightarrow> bool" where
  "ipc_host_tx_frames_pending env \<longleftrightarrow> tx_hostid_pushed env \<noteq> []"

definition ipc_host_tx_flush :: "ipc_host_env \<Rightarrow> ipc_host_env \<times> addr option" where
  "ipc_host_tx_flush env =
     (case tx_hostid_pushed env of
        [] \<Rightarrow> (env, None)
      | i # _ \<Rightarrow>
          let env1 = hostid_list_del i env
          in (env1\<lparr>tx_hostid_available := tx_hostid_available env1 @ [i]\<rparr>,
              hostptr (tx_hostid env ! i)))"

section \<open>Initialisation\<close>

definition zero_shared_env :: ipc_shared_env where
  "zero_shared_env = \<lparr>
     msg_a2e_buf = replicate A2E_MSG_BYTES 0,
     msg_e2a_hostbuf_addr = replicate IPC_MSGE2A_BUF_CNT 0,
     dbg_hostbuf_addr = replicate IPC_DBGBUF_CNT 0,
     la_dbginfo_addr = 0,
     pattern_addr = 0,
     radarbuf_hostbuf = replicate IPC_RADARBUF_CNT 0,
     unsuprxvecbuf_hostbuf = replicate IPC_UNSUPRXVECBUF_CNT 0,
     txdmadesc_src = replicate IPC_TXDMA_DESC_CNT 0,
     txcfm_hostbuf_addr = replicate IPC_TXCFM_CNT 0,
     host_rxdesc = replicate IPC_RXDESC_CNT 0,
     host_rxbuf = replicate IPC_RXBUF_CNT \<lparr>rxb_hostid = 0, rxb_dma_addr = 0\<rparr>\<rparr>"

text \<open>
  The extension arrays in PCIe memory: \<open>ipc_host_rxbuf_ext_init\<close> and
  \<open>ipc_host_rxdesc_ext_init\<close> clear them and publish the pointer, a null pointer changes
  nothing (the old global stays).
\<close>

definition ipc_host_rxbuf_ext_init ::
    "bool \<Rightarrow> ipc_shared_rx_buf list option \<Rightarrow> ipc_shared_rx_buf list option" where
  "ipc_host_rxbuf_ext_init present old =
     (if present then Some (replicate (IPC_RXBUF_CNT_EXT + IPC_RXBUF_CNT)
                              \<lparr>rxb_hostid = 0, rxb_dma_addr = 0\<rparr>)
      else old)"

definition ipc_host_rxdesc_ext_init :: "bool \<Rightarrow> u32 list option \<Rightarrow> u32 list option" where
  "ipc_host_rxdesc_ext_init present old =
     (if present then Some (replicate IPC_RXDESC_CNT_EXT 0) else old)"

definition ipc_host_init ::
    "interface_type \<Rightarrow> ipc_shared_env \<Rightarrow> bool \<Rightarrow> bool \<Rightarrow> ipc_host_env \<Rightarrow> ipc_host_env" where
  "ipc_host_init bus sh rxbuf_present rxdesc_present old = \<lparr>
     shared = (if bus = PCIE_MODE then zero_shared_env else sh),
     g_host_rxbuf = ipc_host_rxbuf_ext_init rxbuf_present (g_host_rxbuf old),
     g_host_rxdesc = ipc_host_rxdesc_ext_init rxdesc_present (g_host_rxdesc old),
     hostid_prefix = (if bus = PCIE_MODE then hostid_prefix old else of_nat (IPC_HOSTID_CNT + 1)),
     rxdesc = replicate (IPC_RXDESC_CNT + IPC_RXDESC_CNT_EXT) None,
     rxdesc_idx = 0,
     rxdesc_nb = (if bus = PCIE_MODE then IPC_RXDESC_CNT + IPC_RXDESC_CNT_EXT else IPC_RXDESC_CNT),
     rxbuf_idx = 0,
     rxbuf_nb = (if bus = PCIE_MODE then IPC_RXBUF_CNT + IPC_RXBUF_CNT_EXT else IPC_RXBUF_CNT),
     radar = replicate IPC_RADARBUF_CNT None,
     radar_idx = 0,
     unsuprxvec = replicate IPC_UNSUPRXVECBUF_CNT None,
     unsuprxvec_idx = 0,
     txdmadesc_idx = 0,
     tx_hostid = map (\<lambda>i. \<lparr>hostptr = None, hostid = init_hostid bus i\<rparr>) [1..<Suc (hostid_cnt bus)],
     tx_hostid_available = [0..<hostid_cnt bus],
     tx_hostid_pushed = [],
     txcfm = replicate IPC_TXCFM_CNT None,
     txcfm_idx = 0,
     msgbuf = replicate IPC_MSGE2A_BUF_CNT None,
     msgbuf_idx = 0,
     msga2e_cnt = 0,
     msga2e_hostid = None,
     dbgbuf = replicate IPC_DBGBUF_CNT None,
     dbgbuf_idx = 0,
     a2e_triggers = a2e_triggers old\<rparr>"

section \<open>Buffers handed to the firmware\<close>

text \<open>
  Each push writes the buffer's DMA address into the slot of shared memory the index
  names, remembers the buffer, and advances the index cyclically. On PCIe nothing is
  pushed while the bus is suspended or shut down (result \<open>-1\<close>).
\<close>

definition ipc_host_pattern_push :: "ipc_host_env \<Rightarrow> aml_ipc_buf \<Rightarrow> ipc_host_env" where
  "ipc_host_pattern_push env buf =
     env\<lparr>shared := (shared env)\<lparr>pattern_addr := dma_addr buf\<rparr>\<rparr>"

definition rxbuf_next :: "interface_type \<Rightarrow> nat \<Rightarrow> nat" where
  "rxbuf_next bus i =
     (if bus = PCIE_MODE then (i + 1) mod (IPC_RXBUF_CNT + IPC_RXBUF_CNT_EXT)
      else (i + 1) mod IPC_RXBUF_CNT)"

definition ipc_host_rxbuf_push ::
    "plat \<Rightarrow> ipc_host_env \<Rightarrow> aml_ipc_buf \<Rightarrow> (ipc_host_env \<times> int) option" where
  "ipc_host_rxbuf_push pl env buf =
     (if pci_blocked pl then Some (env, -1)
      else
        let slot = \<lparr>rxb_hostid = skb_hostid buf, rxb_dma_addr = dma_addr buf\<rparr>;
            nxt = rxbuf_next (aml_bus_type pl) (rxbuf_idx env)
        in if aml_bus_type pl = PCIE_MODE then do {
             ext \<leftarrow> g_host_rxbuf env;
             ext' \<leftarrow> put ext (rxbuf_idx env) slot;
             Some (env\<lparr>g_host_rxbuf := Some ext', rxbuf_idx := nxt\<rparr>, 0)
           } else do {
             a \<leftarrow> put (host_rxbuf (shared env)) (rxbuf_idx env) slot;
             Some (env\<lparr>shared := (shared env)\<lparr>host_rxbuf := a\<rparr>, rxbuf_idx := nxt\<rparr>, 0)
           })"

definition rxdesc_next :: "interface_type \<Rightarrow> nat \<Rightarrow> nat" where
  "rxdesc_next bus i =
     (if bus = PCIE_MODE then (i + 1) mod (IPC_RXDESC_CNT + IPC_RXDESC_CNT_EXT)
      else (i + 1) mod IPC_RXDESC_CNT)"

definition rxdesc_store :: "ipc_host_env \<Rightarrow> aml_ipc_buf \<Rightarrow> nat \<Rightarrow> (ipc_host_env \<times> int) option" where
  "rxdesc_store env buf nxt = do {
     r \<leftarrow> put (rxdesc env) (rxdesc_idx env) (Some (buf_ptr buf));
     Some (env\<lparr>rxdesc := r, rxdesc_idx := nxt\<rparr>, 0)
   }"

definition ipc_host_rxdesc_push ::
    "plat \<Rightarrow> ipc_host_env \<Rightarrow> aml_ipc_buf \<Rightarrow> (ipc_host_env \<times> int) option" where
  "ipc_host_rxdesc_push pl env buf =
     (if pci_blocked pl then Some (env, -1)
      else
        let nxt = rxdesc_next (aml_bus_type pl) (rxdesc_idx env)
        in if rxdesc_idx env < IPC_RXDESC_CNT then do {
             a \<leftarrow> put (host_rxdesc (shared env)) (rxdesc_idx env) (dma_addr buf);
             rxdesc_store (env\<lparr>shared := (shared env)\<lparr>host_rxdesc := a\<rparr>\<rparr>) buf nxt
           } else (case g_host_rxdesc env of
             None \<Rightarrow> Some (env, -1)
           | Some ext \<Rightarrow>
               if rxdesc_idx env < IPC_RXDESC_CNT + IPC_RXDESC_CNT_EXT then do {
                 ext' \<leftarrow> put ext (rxdesc_idx env - IPC_RXDESC_CNT) (dma_addr buf);
                 rxdesc_store (env\<lparr>g_host_rxdesc := Some ext'\<rparr>) buf nxt
               } else Some (env, -1)))"

definition radar_next :: "nat \<Rightarrow> nat" where
  "radar_next i = (i + 1) mod IPC_RADARBUF_CNT"

definition ipc_host_radar_push ::
    "plat \<Rightarrow> ipc_host_env \<Rightarrow> aml_ipc_buf \<Rightarrow> (ipc_host_env \<times> int) option" where
  "ipc_host_radar_push pl env buf =
     (if pci_blocked pl then Some (env, -1)
      else do {
        a \<leftarrow> put (radarbuf_hostbuf (shared env)) (radar_idx env) (dma_addr buf);
        b \<leftarrow> put (radar env) (radar_idx env) (Some (buf_ptr buf));
        Some (env\<lparr>shared := (shared env)\<lparr>radarbuf_hostbuf := a\<rparr>, radar := b,
                  radar_idx := radar_next (radar_idx env)\<rparr>, 0)
      })"

definition unsuprxvec_next :: "nat \<Rightarrow> nat" where
  "unsuprxvec_next i = (i + 1) mod IPC_UNSUPRXVECBUF_CNT"

definition ipc_host_unsuprxvec_push ::
    "plat \<Rightarrow> ipc_host_env \<Rightarrow> aml_ipc_buf \<Rightarrow> (ipc_host_env \<times> int) option" where
  "ipc_host_unsuprxvec_push pl env buf =
     (if pci_blocked pl then Some (env, -1)
      else do {
        a \<leftarrow> put (unsuprxvecbuf_hostbuf (shared env)) (unsuprxvec_idx env) (dma_addr buf);
        b \<leftarrow> put (unsuprxvec env) (unsuprxvec_idx env) (Some (buf_ptr buf));
        Some (env\<lparr>shared := (shared env)\<lparr>unsuprxvecbuf_hostbuf := a\<rparr>, unsuprxvec := b,
                  unsuprxvec_idx := unsuprxvec_next (unsuprxvec_idx env)\<rparr>, 0)
      })"

definition msgbuf_next :: "nat \<Rightarrow> nat" where
  "msgbuf_next i = (i + 1) mod IPC_MSGE2A_BUF_CNT"

definition ipc_host_msgbuf_push ::
    "plat \<Rightarrow> ipc_host_env \<Rightarrow> aml_ipc_buf \<Rightarrow> (ipc_host_env \<times> int) option" where
  "ipc_host_msgbuf_push pl env buf =
     (if pci_blocked pl then Some (env, -1)
      else do {
        a \<leftarrow> put (msg_e2a_hostbuf_addr (shared env)) (msgbuf_idx env) (dma_addr buf);
        b \<leftarrow> put (msgbuf env) (msgbuf_idx env) (Some (buf_ptr buf));
        Some (env\<lparr>shared := (shared env)\<lparr>msg_e2a_hostbuf_addr := a\<rparr>, msgbuf := b,
                  msgbuf_idx := msgbuf_next (msgbuf_idx env)\<rparr>, 0)
      })"

definition dbgbuf_next :: "nat \<Rightarrow> nat" where
  "dbgbuf_next i = (i + 1) mod IPC_DBGBUF_CNT"

definition ipc_host_dbgbuf_push ::
    "plat \<Rightarrow> ipc_host_env \<Rightarrow> aml_ipc_buf \<Rightarrow> (ipc_host_env \<times> int) option" where
  "ipc_host_dbgbuf_push pl env buf =
     (if pci_blocked pl then Some (env, -1)
      else do {
        a \<leftarrow> put (dbg_hostbuf_addr (shared env)) (dbgbuf_idx env) (dma_addr buf);
        b \<leftarrow> put (dbgbuf env) (dbgbuf_idx env) (Some (buf_ptr buf));
        Some (env\<lparr>shared := (shared env)\<lparr>dbg_hostbuf_addr := a\<rparr>, dbgbuf := b,
                  dbgbuf_idx := dbgbuf_next (dbgbuf_idx env)\<rparr>, 0)
      })"

text \<open>The TX confirmation index is advanced by an increment and a comparison.\<close>

definition txcfm_next :: "nat \<Rightarrow> nat" where
  "txcfm_next i = (if i + 1 = IPC_TXCFM_CNT then 0 else i + 1)"

definition ipc_host_txcfm_push ::
    "plat \<Rightarrow> ipc_host_env \<Rightarrow> aml_ipc_buf \<Rightarrow> (ipc_host_env \<times> int) option" where
  "ipc_host_txcfm_push pl env buf =
     (if pci_blocked pl then Some (env, -1)
      else do {
        a \<leftarrow> put (txcfm_hostbuf_addr (shared env)) (txcfm_idx env) (dma_addr buf);
        b \<leftarrow> put (txcfm env) (txcfm_idx env) (Some (buf_ptr buf));
        Some (env\<lparr>shared := (shared env)\<lparr>txcfm_hostbuf_addr := a\<rparr>, txcfm := b,
                  txcfm_idx := txcfm_next (txcfm_idx env)\<rparr>, 0)
      })"

text \<open>On PCIe the debug-information address is never published: the early return is
  outside of the suspend check.\<close>

definition ipc_host_dbginfo_push :: "plat \<Rightarrow> ipc_host_env \<Rightarrow> aml_ipc_buf \<Rightarrow> ipc_host_env" where
  "ipc_host_dbginfo_push pl env buf =
     (if aml_bus_type pl = PCIE_MODE then env
      else env\<lparr>shared := (shared env)\<lparr>la_dbginfo_addr := dma_addr buf\<rparr>\<rparr>)"

section \<open>TX descriptors and their doorbell\<close>

text \<open>\<open>struct aml_txdesc_trigger\<close>: the doorbell is rung once per batch of descriptors.\<close>

record aml_txdesc_trigger =
  txdesc_cnt :: int
  ths_enable :: u8
  dynamic_cnt :: u8
  tx_pcie_ths :: u8

definition TXDESC_TRIGGER_THS :: u8 where "TXDESC_TRIGGER_THS = 18"
definition TXDESC_DYNAMIC_THS :: u8 where "TXDESC_DYNAMIC_THS = 6"
definition IPC_IRQ_A2E_TXDESC :: u32 where "IPC_IRQ_A2E_TXDESC = BIT 7"
definition IPC_IRQ_A2E_MSG :: u32 where "IPC_IRQ_A2E_MSG = BIT 1"

definition ipc_app2emb_trigger :: "u32 \<Rightarrow> ipc_host_env \<Rightarrow> ipc_host_env" where
  "ipc_app2emb_trigger v env = env\<lparr>a2e_triggers := a2e_triggers env @ [v]\<rparr>"

definition txdesc_trigger_step :: "aml_txdesc_trigger \<Rightarrow> aml_txdesc_trigger \<times> bool" where
  "txdesc_trigger_step t =
     (if 0 < ths_enable t then
        let t1 = t\<lparr>txdesc_cnt := txdesc_cnt t + 1\<rparr>
        in if txdesc_cnt t1 > uint (tx_pcie_ths t1) then
             let t2 = t1\<lparr>txdesc_cnt := 0, dynamic_cnt := dynamic_cnt t1 + 1\<rparr>;
                 t3 = (if dynamic_cnt t2 = TXDESC_DYNAMIC_THS
                       then t2\<lparr>tx_pcie_ths := tx_pcie_ths t2 + 1, dynamic_cnt := 0\<rparr> else t2);
                 t4 = (if TXDESC_TRIGGER_THS < tx_pcie_ths t3
                       then t3\<lparr>tx_pcie_ths := TXDESC_TRIGGER_THS\<rparr> else t3)
             in (t4, True)
           else (t1, False)
      else (t, True))"

definition ipc_host_txdesc_push ::
    "plat \<Rightarrow> ipc_host_env \<Rightarrow> aml_txdesc_trigger \<Rightarrow> aml_ipc_buf
       \<Rightarrow> (ipc_host_env \<times> aml_txdesc_trigger) option" where
  "ipc_host_txdesc_push pl env trg buf = do {
     env1 \<leftarrow> (if aml_bus_type pl = PCIE_MODE then do {
                a \<leftarrow> put (txdmadesc_src (shared env)) (txdmadesc_idx env) (dma_addr buf);
                Some (env\<lparr>shared := (shared env)\<lparr>txdmadesc_src := a\<rparr>,
                          txdmadesc_idx := (if txdmadesc_idx env + 1 = IPC_TXDMA_DESC_CNT then 0
                                            else txdmadesc_idx env + 1)\<rparr>)
              } else Some env);
     (let (trg', ring) = txdesc_trigger_step trg
      in Some (if ring then ipc_app2emb_trigger IPC_IRQ_A2E_TXDESC env1 else env1, trg'))
   }"

section \<open>The A2E message slot\<close>

text \<open>
  \<open>struct lmac_msg\<close>. The parameters are the bytes that follow the header in memory; the
  first parameter word is read little-endian (\<open>*(msg->param)\<close>).
\<close>

record lmac_msg =
  msg_id :: u16
  msg_dest_id :: u16
  msg_src_id :: u16
  msg_param_len :: u16
  msg_param :: "u8 list"

definition lmac_msg_bytes :: "lmac_msg \<Rightarrow> u8 list" where
  "lmac_msg_bytes m = le16 (msg_id m) @ le16 (msg_dest_id m) @ le16 (msg_src_id m)
     @ le16 (msg_param_len m) @ msg_param m"

text \<open>\<open>AML_CMD_A2EMSG_LEN\<close>: header and parameters, truncated to 16 bits.\<close>

definition AML_CMD_A2EMSG_LEN :: "lmac_msg \<Rightarrow> u16" where
  "AML_CMD_A2EMSG_LEN m = 8 + msg_param_len m"

definition MM_OTHER_REQ :: u16 where "MM_OTHER_REQ = 105"
definition ME_SET_PS_MODE_REQ :: u16 where "ME_SET_PS_MODE_REQ = 5139"
definition MM_SCAN_HANG :: u32 where "MM_SCAN_HANG = 2"
definition MM_SUB_SET_SUSPEND_REQ :: u32 where "MM_SUB_SET_SUSPEND_REQ = 3"
definition MM_SUB_SCANU_CANCEL_REQ :: u32 where "MM_SUB_SCANU_CANCEL_REQ = 5"
definition MM_SUB_ARP_AGENT_REQ :: u32 where "MM_SUB_ARP_AGENT_REQ = 6"
definition MM_SUB_TKO_ACTIVATE_REQ :: u32 where "MM_SUB_TKO_ACTIVATE_REQ = 9"
definition MM_SUB_DHCP_REQ :: u32 where "MM_SUB_DHCP_REQ = 34"
definition MM_SUB_SET_DYNAMIC_BUF_STATE :: u32 where "MM_SUB_SET_DYNAMIC_BUF_STATE = 40"
definition MM_SUB_SHUTDOWN :: u32 where "MM_SUB_SHUTDOWN = 43"

lemmas msg_id_defs = MM_OTHER_REQ_def ME_SET_PS_MODE_REQ_def MM_SCAN_HANG_def
  MM_SUB_SET_SUSPEND_REQ_def MM_SUB_SCANU_CANCEL_REQ_def MM_SUB_ARP_AGENT_REQ_def
  MM_SUB_TKO_ACTIVATE_REQ_def MM_SUB_DHCP_REQ_def MM_SUB_SET_DYNAMIC_BUF_STATE_def
  MM_SUB_SHUTDOWN_def

text \<open>Which messages may pass while the chip is in a suspend state (aml_msg_tx.c).\<close>

definition aml_check_suspend_resume_msg :: "wifi_suspend_state \<Rightarrow> lmac_msg \<Rightarrow> bool option" where
  "aml_check_suspend_resume_msg state m =
     (if state \<noteq> WIFI_SUSPEND_STATE_NONE \<and> msg_param_len m \<noteq> 0 then
        if msg_id m = MM_OTHER_REQ then do {
          p \<leftarrow> rd_le32 (msg_param m);
          Some (p = MM_SUB_SET_SUSPEND_REQ
             \<or> p = MM_SUB_SCANU_CANCEL_REQ
             \<or> p = MM_SUB_ARP_AGENT_REQ
             \<or> p = MM_SUB_TKO_ACTIVATE_REQ
             \<or> p = MM_SUB_DHCP_REQ
             \<or> p = MM_SUB_SET_DYNAMIC_BUF_STATE
             \<or> p = ucast ME_SET_PS_MODE_REQ
             \<or> p = MM_SCAN_HANG)
        }
        else Some (msg_id m = ME_SET_PS_MODE_REQ)
      else Some True)"

text \<open>
  The suspend test of \<open>ipc_host_msg_push\<close>: the message is refused with \<open>-EBUSY\<close>. The first
  parameter word is only read when the earlier conjuncts hold.
\<close>

definition msg_push_refused :: "plat \<Rightarrow> lmac_msg \<Rightarrow> bool option" where
  "msg_push_refused pl m = do {
     ok \<leftarrow> aml_check_suspend_resume_msg (hw_state pl) m;
     if (g_pci_msg_suspend pl \<or> \<not> ok) \<and> msg_param_len m \<noteq> 0 then do {
       p \<leftarrow> rd_le32 (msg_param m);
       Some (p \<noteq> MM_SUB_SHUTDOWN \<and> \<not> recy_state_ongoing pl)
     } else Some False
   }"

definition EBUSY :: int where "EBUSY = 16"

text \<open>
  Copy of \<open>len\<close> bytes into the shared message buffer. The check of the length against the
  buffer is an \<open>ASSERT_ERR\<close>, which only logs: a longer message reads or writes outside of
  the objects, \<open>None\<close> here.
\<close>

definition copy_msg :: "u8 list \<Rightarrow> nat \<Rightarrow> u8 list \<Rightarrow> u8 list option" where
  "copy_msg src len dst =
     (if len \<le> length src \<and> len \<le> length dst then Some (take len src @ drop len dst) else None)"

definition ipc_host_msg_push ::
    "plat \<Rightarrow> ipc_host_env \<Rightarrow> addr \<Rightarrow> lmac_msg option \<Rightarrow> u16 \<Rightarrow> (ipc_host_env \<times> int) option" where
  "ipc_host_msg_push pl env msg_buf a2e_msg len =
     (case a2e_msg of
        None \<Rightarrow> Some (env, -1)
      | Some m \<Rightarrow>
          if pci_blocked pl then Some (env, -1)
          else do {
            refused \<leftarrow> msg_push_refused pl m;
            if refused then Some (env, - EBUSY)
            else do {
              b \<leftarrow> copy_msg (lmac_msg_bytes m) (unat len) (msg_a2e_buf (shared env));
              Some (ipc_app2emb_trigger IPC_IRQ_A2E_MSG
                      (env\<lparr>shared := (shared env)\<lparr>msg_a2e_buf := b\<rparr>,
                           msga2e_hostid := Some msg_buf\<rparr>), 0)
            }
          })"

text \<open>
  Acknowledgement of the message in the slot. The three bus variants read the message back
  (USB, SDIO) or a few registers (PCIe) for their diagnostics only; the state they reach
  is the same: the slot is emptied, the counter advances, and the command is handed to
  \<open>recv_msgack_ind\<close>.
\<close>

definition ipc_host_msgack_handler :: "ipc_host_env \<Rightarrow> ipc_host_env \<times> addr option" where
  "ipc_host_msgack_handler env =
     (case msga2e_hostid env of
        None \<Rightarrow> (env, None)
      | Some h \<Rightarrow> (env\<lparr>msga2e_hostid := None, msga2e_cnt := msga2e_cnt env + 1\<rparr>, Some h))"

section \<open>Interrupt dispatch\<close>

datatype irq_handler =
    H_msgack | H_msg | H_rxdesc | H_tx_cfm | H_radar | H_unsup_rx_vec
  | H_chan_switch_ind | H_dbg | H_trace | H_extend_irq

definition IPC_IRQ_E2A_TXCFM_POS :: nat where "IPC_IRQ_E2A_TXCFM_POS = 7"

definition IPC_IRQ_E2A_TXCFM :: u32 where
  "IPC_IRQ_E2A_TXCFM = push_bit IPC_IRQ_E2A_TXCFM_POS (push_bit NX_TXQ_CNT 1 - 1)"

abbreviation (input) "IPC_IRQ_E2A_DBG \<equiv> (BIT 0 :: u32)"
abbreviation (input) "IPC_IRQ_E2A_MSG \<equiv> (BIT 1 :: u32)"
abbreviation (input) "IPC_IRQ_E2A_MSG_ACK \<equiv> (BIT 2 :: u32)"
abbreviation (input) "IPC_IRQ_E2A_RXDESC \<equiv> (BIT 3 :: u32)"
abbreviation (input) "IPC_IRQ_E2A_RADAR \<equiv> (BIT 4 :: u32)"
abbreviation (input) "IPC_IRQ_E2A_UNSUP_RX_VEC \<equiv> (BIT 5 :: u32)"
abbreviation (input) "SDIO_IRQ_E2A_DBG \<equiv> (BIT 12 :: u32)"
abbreviation (input) "SDIO_IRQ_E2A_MSG \<equiv> (BIT 13 :: u32)"
abbreviation (input) "IPC_IRQ_E2A_TRACE \<equiv> (BIT 14 :: u32)"
abbreviation (input) "SDIO_IRQ_E2A_CHAN_SWITCH_IND_MSG \<equiv> (BIT 15 :: u32)"

text \<open>The handlers \<open>ipc_host_irq\<close> runs for a status word, in its order; \<open>None\<close> is one of its
  \<open>BUG_ON\<close>s (an RX descriptor or TX confirmation interrupt off PCIe, or a channel-switch
  indication on PCIe).\<close>

definition ipc_host_irq :: "interface_type \<Rightarrow> u32 \<Rightarrow> irq_handler list option" where
  "ipc_host_irq bus status =
     (if (status AND IPC_IRQ_E2A_RXDESC \<noteq> 0 \<or> status AND IPC_IRQ_E2A_TXCFM \<noteq> 0) \<and> bus \<noteq> PCIE_MODE
         \<or> status AND SDIO_IRQ_E2A_CHAN_SWITCH_IND_MSG \<noteq> 0 \<and> bus = PCIE_MODE
      then None
      else Some (
        (if status AND IPC_IRQ_E2A_MSG_ACK \<noteq> 0 then [H_msgack] else []) @
        (if status AND IPC_IRQ_E2A_MSG \<noteq> 0 \<and> bus = PCIE_MODE
            \<or> status AND SDIO_IRQ_E2A_MSG \<noteq> 0 \<and> bus \<noteq> PCIE_MODE then [H_msg] else []) @
        (if status AND IPC_IRQ_E2A_RXDESC \<noteq> 0 then [H_rxdesc] else []) @
        (if status AND IPC_IRQ_E2A_TXCFM \<noteq> 0 then [H_tx_cfm] else []) @
        (if status AND IPC_IRQ_E2A_RADAR \<noteq> 0 then [H_radar] else []) @
        (if status AND IPC_IRQ_E2A_UNSUP_RX_VEC \<noteq> 0 \<and> bus = PCIE_MODE then [H_unsup_rx_vec] else []) @
        (if status AND SDIO_IRQ_E2A_CHAN_SWITCH_IND_MSG \<noteq> 0 then [H_chan_switch_ind] else []) @
        (if status AND IPC_IRQ_E2A_DBG \<noteq> 0 \<and> bus = PCIE_MODE
            \<or> status AND SDIO_IRQ_E2A_DBG \<noteq> 0 \<and> bus \<noteq> PCIE_MODE then [H_dbg] else []) @
        (if status AND IPC_IRQ_E2A_TRACE \<noteq> 0 then [H_trace] else []) @
        (if status AND IPC_IRQ_E2A_UNSUP_RX_VEC \<noteq> 0 \<and> bus \<noteq> PCIE_MODE then [H_extend_irq] else [])))"

section \<open>The host id table as a partial map\<close>

text \<open>
  Well-formedness: the two lists partition the table, the low half of every id is the
  entry's position (so ids of different entries differ, whatever their generation prefix),
  and a pushed entry holds a pointer.
\<close>

definition hostids_ok :: "nat list \<Rightarrow> nat list \<Rightarrow> ipc_hostid list \<Rightarrow> bool" where
  "hostids_ok avail pushed tab \<longleftrightarrow>
     distinct (avail @ pushed)
   \<and> set (avail @ pushed) = {..<length tab}
   \<and> (\<forall>i<length tab. unat (take_bit 16 (hostid (tab ! i))) = Suc i)
   \<and> (\<forall>i\<in>set pushed. hostptr (tab ! i) \<noteq> None)"

definition hostid_wf :: "ipc_host_env \<Rightarrow> bool" where
  "hostid_wf env \<longleftrightarrow>
     hostids_ok (tx_hostid_available env) (tx_hostid_pushed env) (tx_hostid env)"

lemmas hostid_wf_defs = hostid_wf_def hostids_ok_def

lemma hostids_ok_push:
  assumes "hostids_ok (i # avail) pushed tab" and "hostptr e \<noteq> None"
    and "hostid e = hostid (tab ! i)"
  shows "hostids_ok avail (pushed @ [i]) (tab[i := e])"
proof -
  have "i < length tab" "i \<notin> set pushed"
    using assms(1) by (auto simp: hostids_ok_def)
  with assms show ?thesis
    by (auto simp: hostids_ok_def nth_list_update)
qed

lemma hostids_ok_release:
  "hostids_ok avail pushed tab \<Longrightarrow> i < length tab \<Longrightarrow>
   take_bit 16 (hostid e) = take_bit 16 (hostid (tab ! i)) \<Longrightarrow>
   hostids_ok (remove1 i avail @ [i]) (remove1 i pushed) (tab[i := e])"
  by (auto simp: hostids_ok_def nth_list_update)

text \<open>The abstract contract: which pointer an outstanding id stands for.\<close>

definition outstanding :: "ipc_host_env \<Rightarrow> u32 \<Rightarrow> addr option" where
  "outstanding env h =
     (case find_from (\<lambda>i. hostid (tx_hostid env ! i) = h) (tx_hostid_pushed env) of
        [] \<Rightarrow> None
      | i # _ \<Rightarrow> hostptr (tx_hostid env ! i))"

lemma take_bit_compact: "take_bit 16 (aml_compact_tx_host_id hi h) = take_bit 16 h"
proof -
  have m: "(0xFFFF :: u32) = mask 16" "COMPACT_HOST_ID_MASK = mask 26"
    by (simp_all add: COMPACT_HOST_ID_MASK_def COMPACT_HOST_ID_BITS_def mask_eq_exp_minus_1)
  show ?thesis
    unfolding aml_compact_tx_host_id_def m
    by (rule bit_word_eqI) (auto simp: bit_simps)
qed

lemma unat_take_bit_of_nat: "n < 2 ^ 16 \<Longrightarrow> unat (take_bit 16 (of_nat n :: u32)) = n"
  by (simp add: unsigned_take_bit_eq unsigned_of_nat take_bit_nat_eq_self)

lemma init_hostid_low: "n \<le> hostid_cnt bus \<Longrightarrow> unat (take_bit 16 (init_hostid bus n)) = n"
  by (auto simp: init_hostid_def take_bit_compact unat_take_bit_of_nat hostid_cnt_def
      ipc_cnt_defs split: if_splits)

lemma hostid_wf_init [wf_intros]: "hostid_wf (ipc_host_init bus sh a b old)"
  by (auto simp: hostid_wf_defs ipc_host_init_def init_hostid_low simp del: upt_Suc)

lemma hostid_inj:
  assumes "hostid_wf env" and "i < length (tx_hostid env)" and "j < length (tx_hostid env)"
    and "hostid (tx_hostid env ! i) = hostid (tx_hostid env ! j)"
  shows "i = j"
  using assms unfolding hostid_wf_defs by (metis Suc_inject)

lemma hostid_nonzero:
  "hostid_wf env \<Longrightarrow> i < length (tx_hostid env) \<Longrightarrow> hostid (tx_hostid env ! i) \<noteq> 0"
  unfolding hostid_wf_defs by (metis Zero_not_Suc take_bit_of_0 unsigned_0)

lemma pushed_bound: "hostid_wf env \<Longrightarrow> i \<in> set (tx_hostid_pushed env) \<Longrightarrow> i < length (tx_hostid env)"
  by (auto simp: hostid_wf_defs)

lemma avail_bound: "hostid_wf env \<Longrightarrow> i \<in> set (tx_hostid_available env) \<Longrightarrow> i < length (tx_hostid env)"
  by (auto simp: hostid_wf_defs)

lemma outstanding_entry:
  assumes "hostid_wf env" and "i \<in> set (tx_hostid_pushed env)"
  shows "outstanding env (hostid (tx_hostid env ! i)) = hostptr (tx_hostid env ! i)"
proof -
  let ?P = "\<lambda>j. hostid (tx_hostid env ! j) = hostid (tx_hostid env ! i)"
  have "find_from ?P (tx_hostid_pushed env) \<noteq> []"
    using assms(2) by (auto simp: find_from_Nil)
  then obtain j js where f: "find_from ?P (tx_hostid_pushed env) = j # js"
    by (cases "find_from ?P (tx_hostid_pushed env)") auto
  then have "?P j" "j \<in> set (tx_hostid_pushed env)"
    by (auto dest: find_from_Cons)
  with assms have "j = i"
    by (meson hostid_inj pushed_bound)
  with f show ?thesis
    by (simp add: outstanding_def)
qed

lemma outstanding_None:
  "(\<And>i. i \<in> set (tx_hostid_pushed env) \<Longrightarrow> hostid (tx_hostid env ! i) \<noteq> h) \<Longrightarrow> outstanding env h = None"
  by (simp add: outstanding_def find_from_Nil [THEN iffD2])

text \<open>One statement per id covers both cases: it is the id of a pushed entry or of none.\<close>

lemma outstanding_eqI:
  assumes wf: "hostid_wf env"
    and "\<And>i. i \<in> set (tx_hostid_pushed env) \<Longrightarrow> M (hostid (tx_hostid env ! i)) = hostptr (tx_hostid env ! i)"
    and "\<And>h. (\<forall>i\<in>set (tx_hostid_pushed env). hostid (tx_hostid env ! i) \<noteq> h) \<Longrightarrow> M h = None"
  shows "outstanding env = M"
proof
  fix h
  show "outstanding env h = M h"
  proof (cases "\<exists>i\<in>set (tx_hostid_pushed env). hostid (tx_hostid env ! i) = h")
    case True
    then show ?thesis
      using assms(2) outstanding_entry [OF wf] by auto
  next
    case False
    then show ?thesis
      using assms(3) by (auto intro: outstanding_None)
  qed
qed

subsection \<open>Operations keep the table well formed\<close>

lemma hostid_list_del_simps [simp]:
  "tx_hostid (hostid_list_del i env) = tx_hostid env"
  "tx_hostid_available (hostid_list_del i env) = remove1 i (tx_hostid_available env)"
  "tx_hostid_pushed (hostid_list_del i env) = remove1 i (tx_hostid_pushed env)"
  "hostid_prefix (hostid_list_del i env) = hostid_prefix env"
  by (simp_all add: hostid_list_del_def)

lemma hostid_wf_ptr_to_id [wf_intros]:
  assumes wf: "hostid_wf env"
  shows "hostid_wf (fst (ipc_host_tx_host_ptr_to_id env p))"
proof (cases "tx_hostid_available env")
  case (Cons i rest)
  with wf have "i \<notin> set (tx_hostid_pushed env)"
    by (auto simp: hostid_wf_defs)
  with wf Cons show ?thesis
    by (auto simp: ipc_host_tx_host_ptr_to_id_def hostid_wf_def Let_def remove1_idem
        intro!: hostids_ok_push)
qed (use wf in \<open>simp add: ipc_host_tx_host_ptr_to_id_def\<close>)

lemma hostids_ok_release_same:
  "hostids_ok avail pushed tab \<Longrightarrow> i < length tab \<Longrightarrow>
   hostids_ok (remove1 i avail @ [i]) (remove1 i pushed) tab"
  using hostids_ok_release [of avail pushed tab i "tab ! i"] by simp

lemma hostid_wf_flush [wf_intros]:
  assumes wf: "hostid_wf env"
  shows "hostid_wf (fst (ipc_host_tx_flush env))"
proof (cases "tx_hostid_pushed env")
  case (Cons i rest)
  with wf have "hostids_ok (remove1 i (tx_hostid_available env) @ [i])
      (remove1 i (tx_hostid_pushed env)) (tx_hostid env)"
    by (intro hostids_ok_release_same) (auto simp: hostid_wf_defs)
  with Cons show ?thesis
    by (simp add: ipc_host_tx_flush_def hostid_wf_def Let_def)
qed (use wf in \<open>simp add: ipc_host_tx_flush_def\<close>)

lemma hostid_wf_id_to_ptr [wf_intros]:
  assumes "hostid_wf env" and "length (tx_hostid env) = IPC_TXCFM_CNT"
    and "ipc_host_tx_host_id_to_ptr pl env h = Some (env', p)"
  shows "hostid_wf env'"
proof (cases "h = 0 \<or> IPC_TXCFM_CNT < unat h")
  case False
  then have "unat h - 1 < length (tx_hostid env)"
    using assms(2) by (auto simp: ipc_cnt_defs)
  from hostids_ok_release_same [OF assms(1) [unfolded hostid_wf_def] this] False assms(3)
  show ?thesis
    by (auto simp: ipc_host_tx_host_id_to_ptr_def hostid_wf_def Let_def split: if_splits)
qed (use assms in \<open>auto simp: ipc_host_tx_host_id_to_ptr_def\<close>)

lemma hostid_wf_id_to_ptr_sdio_usb [wf_intros]:
  assumes wf: "hostid_wf env"
  shows "hostid_wf (fst (ipc_host_tx_host_id_to_ptr_for_sdio_usb env h))"
proof (cases "find_from (\<lambda>i. hostid (tx_hostid env ! i) = h) (tx_hostid_pushed env)")
  case (Cons i js)
  then have "i < length (tx_hostid env)"
    using wf pushed_bound by (auto dest: find_from_Cons)
  with wf Cons show ?thesis
    by (auto simp: ipc_host_tx_host_id_to_ptr_for_sdio_usb_def hostid_wf_def Let_def
        intro!: hostids_ok_release simp: take_bit_compact)
qed (use wf in \<open>simp add: ipc_host_tx_host_id_to_ptr_for_sdio_usb_def\<close>)

subsection \<open>The table driven by events\<close>

datatype hostid_event = Tx_push addr | Tx_confirm u32 | Tx_flush

fun hostid_step :: "plat \<Rightarrow> hostid_event \<Rightarrow> ipc_host_env \<Rightarrow> ipc_host_env option" where
  "hostid_step pl (Tx_push p) env = Some (fst (ipc_host_tx_host_ptr_to_id env p))"
| "hostid_step pl (Tx_confirm h) env =
     (if aml_bus_type pl = PCIE_MODE then map_option fst (ipc_host_tx_host_id_to_ptr pl env h)
      else Some (fst (ipc_host_tx_host_id_to_ptr_for_sdio_usb env h)))"
| "hostid_step pl Tx_flush env = Some (fst (ipc_host_tx_flush env))"

definition hostid_inv :: "plat \<Rightarrow> ipc_host_env \<Rightarrow> bool" where
  "hostid_inv pl env \<longleftrightarrow> hostid_wf env \<and> length (tx_hostid env) = hostid_cnt (aml_bus_type pl)"

lemma table_length_const [simp]:
  "length (tx_hostid (fst (ipc_host_tx_host_ptr_to_id env p))) = length (tx_hostid env)"
  "length (tx_hostid (fst (ipc_host_tx_host_id_to_ptr_for_sdio_usb env h))) = length (tx_hostid env)"
  "length (tx_hostid (fst (ipc_host_tx_flush env))) = length (tx_hostid env)"
  by (auto simp: ipc_host_tx_host_ptr_to_id_def ipc_host_tx_host_id_to_ptr_for_sdio_usb_def
      ipc_host_tx_flush_def Let_def split: list.split)

lemma table_length_pcie:
  "ipc_host_tx_host_id_to_ptr pl env h = Some (env', p) \<Longrightarrow> length (tx_hostid env') = length (tx_hostid env)"
  by (auto simp: ipc_host_tx_host_id_to_ptr_def Let_def split: if_splits)

lemma hostid_step_inv:
  assumes "hostid_inv pl env"
  shows "\<exists>env'. hostid_step pl ev env = Some env' \<and> hostid_inv pl env'"
proof (cases "\<exists>h. ev = Tx_confirm h \<and> aml_bus_type pl = PCIE_MODE")
  case True
  then obtain h where ev: "ev = Tx_confirm h" and bus: "aml_bus_type pl = PCIE_MODE"
    by blast
  then have "ipc_host_tx_host_id_to_ptr pl env h \<noteq> None"
    by (simp add: ipc_host_tx_host_id_to_ptr_def Let_def)
  then obtain env' p where r: "ipc_host_tx_host_id_to_ptr pl env h = Some (env', p)"
    by auto
  with assms bus ev show ?thesis
    using hostid_wf_id_to_ptr [OF _ _ r] table_length_pcie [OF r]
    by (simp add: hostid_inv_def hostid_cnt_def)
next
  case False
  with assms show ?thesis
    by (cases ev) (auto simp: hostid_inv_def intro: wf_intros)
qed

interpretation hostids: total_machine "hostid_step pl" "hostid_inv pl"
  by unfold_locales (metis hostid_step_inv option.inject)+

lemma hostid_inv_init: "hostid_inv pl (ipc_host_init (aml_bus_type pl) sh a b old)"
  by (simp add: hostid_inv_def hostid_wf_init) (simp add: ipc_host_init_def)

lemma hostid_wf_count:
  assumes "hostid_wf env"
  shows "length (tx_hostid_available env) + length (tx_hostid_pushed env) = length (tx_hostid env)"
proof -
  let ?xs = "tx_hostid_available env @ tx_hostid_pushed env"
  have "card (set ?xs) = length ?xs"
    using assms by (intro distinct_card) (simp add: hostid_wf_defs)
  then show ?thesis
    using assms by (simp add: hostid_wf_defs)
qed

text \<open>Property C12. From initialisation, any sequence of buffer pushes, confirmations (of any
  host id the firmware may report, known or not) and flushes runs without a fault, keeps the
  host id table well formed, and loses no entry: every entry is either available or pushed.\<close>

theorem hostid_table_safe:
  "\<exists>env'. run (hostid_step pl) es (ipc_host_init (aml_bus_type pl) sh a b old) = Some env'
     \<and> hostid_wf env'
     \<and> length (tx_hostid_available env') + length (tx_hostid_pushed env')
         = hostid_cnt (aml_bus_type pl)"
proof -
  obtain env' where "run (hostid_step pl) es (ipc_host_init (aml_bus_type pl) sh a b old) = Some env'"
    and "hostid_inv pl env'"
    using hostids.run_defined [OF hostid_inv_init] by blast
  then show ?thesis
    using hostid_wf_count by (auto simp: hostid_inv_def)
qed

subsection \<open>Refinement of the partial map\<close>

lemma outstanding_fresh:
  assumes "hostid_wf env" and "tx_hostid_available env = i # rest"
  shows "outstanding env (hostid (tx_hostid env ! i)) = None"
proof (rule outstanding_None)
  fix j
  assume j: "j \<in> set (tx_hostid_pushed env)"
  with assms have "j \<noteq> i" "i < length (tx_hostid env)" "j < length (tx_hostid env)"
    by (auto simp: hostid_wf_defs)
  with assms(1) show "hostid (tx_hostid env ! j) \<noteq> hostid (tx_hostid env ! i)"
    by (meson hostid_inj)
qed

text \<open>Pushing a TX buffer while an entry is free returns a host id that is not
  zero and not outstanding, and adds exactly the association of that id with the buffer.\<close>

theorem ptr_to_id_refines:
  assumes wf: "hostid_wf env" and free: "tx_hostid_available env \<noteq> []"
  shows "case ipc_host_tx_host_ptr_to_id env p of (env', h) \<Rightarrow>
           h \<noteq> 0 \<and> outstanding env h = None \<and> outstanding env' = (outstanding env)(h \<mapsto> p)"
proof -
  obtain i rest where c: "tx_hostid_available env = i # rest"
    using free by (cases "tx_hostid_available env") auto
  define h where "h = hostid (tx_hostid env ! i)"
  define env' where "env' = fst (ipc_host_tx_host_ptr_to_id env p)"
  have i: "i < length (tx_hostid env)" "i \<notin> set (tx_hostid_pushed env)"
    using wf c by (auto simp: hostid_wf_defs)
  have wf': "hostid_wf env'"
    unfolding env'_def using wf by (rule hostid_wf_ptr_to_id)
  have env': "tx_hostid_pushed env' = tx_hostid_pushed env @ [i]"
    "tx_hostid env' = (tx_hostid env)[i := (tx_hostid env ! i)\<lparr>hostptr := Some p\<rparr>]"
    using c i by (simp_all add: env'_def ipc_host_tx_host_ptr_to_id_def Let_def remove1_idem)
  have keep: "hostid (tx_hostid env' ! j) = hostid (tx_hostid env ! j)" for j
    using i by (cases "j = i") (auto simp: env')
  have "outstanding env' = (outstanding env)(h \<mapsto> p)"
  proof (rule outstanding_eqI [OF wf'])
    fix j
    assume j: "j \<in> set (tx_hostid_pushed env')"
    show "((outstanding env)(h \<mapsto> p)) (hostid (tx_hostid env' ! j)) = hostptr (tx_hostid env' ! j)"
    proof (cases "j = i")
      case True
      with i show ?thesis
        by (simp add: env' h_def)
    next
      case False
      with j have j: "j \<in> set (tx_hostid_pushed env)"
        by (simp add: env')
      then have "hostid (tx_hostid env ! j) \<noteq> h"
        using wf i False hostid_inj pushed_bound unfolding h_def by meson
      with False j wf show ?thesis
        by (simp add: keep outstanding_entry) (simp add: env')
    qed
  next
    fix k
    assume "\<forall>j\<in>set (tx_hostid_pushed env'). hostid (tx_hostid env' ! j) \<noteq> k"
    then show "((outstanding env)(h \<mapsto> p)) k = None"
      by (auto simp: keep env'(1) h_def intro!: outstanding_None)
  qed
  moreover have "snd (ipc_host_tx_host_ptr_to_id env p) = h"
    using c i by (simp add: ipc_host_tx_host_ptr_to_id_def Let_def h_def)
  ultimately show ?thesis
    using hostid_nonzero [OF wf i(1)] outstanding_fresh [OF wf c]
    by (simp add: case_prod_beta env'_def h_def)
qed

definition ipc_env0 :: ipc_host_env where
  "ipc_env0 = \<lparr>shared = zero_shared_env, g_host_rxbuf = None, g_host_rxdesc = None,
     hostid_prefix = 0, rxdesc = [], rxdesc_idx = 0, rxdesc_nb = 0, rxbuf_idx = 0, rxbuf_nb = 0,
     radar = [], radar_idx = 0, unsuprxvec = [], unsuprxvec_idx = 0, txdmadesc_idx = 0,
     tx_hostid = [], tx_hostid_available = [], tx_hostid_pushed = [], txcfm = [], txcfm_idx = 0,
     msgbuf = [], msgbuf_idx = 0, msga2e_cnt = 0, msga2e_hostid = None, dbgbuf = [],
     dbgbuf_idx = 0, a2e_triggers = []\<rparr>"

text \<open>The environment of a freshly probed USB device, for concrete instances.\<close>

definition ipc_env_usb :: ipc_host_env where
  "ipc_env_usb = ipc_host_init USB_MODE zero_shared_env False False ipc_env0"

lemma ipc_env_usb_wf: "hostid_wf ipc_env_usb"
  by (simp add: ipc_env_usb_def hostid_wf_init)

theorem ptr_to_id_refines_witness:
  "case ipc_host_tx_host_ptr_to_id ipc_env_usb 7 of
     (env', h) \<Rightarrow> h \<noteq> 0 \<and> outstanding ipc_env_usb h = None
       \<and> outstanding env' = (outstanding ipc_env_usb)(h \<mapsto> 7)"
  by (rule ptr_to_id_refines [OF ipc_env_usb_wf])
    (simp add: ipc_env_usb_def ipc_host_init_def hostid_cnt_def IPC_HOSTID_CNT_def)

lemma id_to_ptr_outstanding:
  assumes wf: "hostid_wf env" and len: "length (tx_hostid env) = IPC_HOSTID_CNT"
  shows "case ipc_host_tx_host_id_to_ptr_for_sdio_usb env h of (env', r) \<Rightarrow>
           r = outstanding env h \<and> outstanding env' = (outstanding env)(h := None)"
proof (cases "find_from (\<lambda>i. hostid (tx_hostid env ! i) = h) (tx_hostid_pushed env)")
  case Nil
  then have "outstanding env h = None"
    by (simp add: outstanding_def)
  with Nil show ?thesis
    by (auto simp: ipc_host_tx_host_id_to_ptr_for_sdio_usb_def fun_eq_iff)
next
  case (Cons i js)
  then have h: "hostid (tx_hostid env ! i) = h" and ip: "i \<in> set (tx_hostid_pushed env)"
    by (auto dest: find_from_Cons)
  then have i: "i < length (tx_hostid env)"
    using wf pushed_bound by blast
  define env' where "env' = fst (ipc_host_tx_host_id_to_ptr_for_sdio_usb env h)"
  have "unat (h AND 0xFFFF) = Suc i"
    using wf i h by (auto simp: hostid_wf_defs take_bit_eq_mask mask_eq_exp_minus_1)
  then have valid: "h \<noteq> 0 \<and> \<not> IPC_HOSTID_CNT < unat (h AND 0xFFFF)"
    using i len hostid_nonzero [OF wf i] h by auto
  have env': "tx_hostid_pushed env' = remove1 i (tx_hostid_pushed env)"
    "\<And>j. j \<noteq> i \<Longrightarrow> tx_hostid env' ! j = tx_hostid env ! j"
    using Cons valid
    by (simp_all add: env'_def ipc_host_tx_host_id_to_ptr_for_sdio_usb_def Let_def)
  have rest: "set (tx_hostid_pushed env') = set (tx_hostid_pushed env) - {i}"
    using wf by (simp add: env'(1) hostid_wf_defs)
  have "outstanding env' = (outstanding env)(h := None)"
  proof (rule outstanding_eqI)
    show "hostid_wf env'"
      unfolding env'_def using wf by (rule hostid_wf_id_to_ptr_sdio_usb)
  next
    fix j
    assume "j \<in> set (tx_hostid_pushed env')"
    then have j: "j \<in> set (tx_hostid_pushed env)" "j \<noteq> i"
      using rest by auto
    then have "hostid (tx_hostid env ! j) \<noteq> h"
      using wf i h hostid_inj pushed_bound by blast
    with j wf show "((outstanding env)(h := None)) (hostid (tx_hostid env' ! j)) = hostptr (tx_hostid env' ! j)"
      by (simp add: env'(2) outstanding_entry)
  next
    fix k
    assume "\<forall>j\<in>set (tx_hostid_pushed env'). hostid (tx_hostid env' ! j) \<noteq> k"
    then show "((outstanding env)(h := None)) k = None"
      using rest h by (auto simp: env'(2) intro!: outstanding_None)
  qed
  moreover have "snd (ipc_host_tx_host_id_to_ptr_for_sdio_usb env h) = outstanding env h"
    using Cons valid h
    by (simp add: ipc_host_tx_host_id_to_ptr_for_sdio_usb_def Let_def outstanding_def)
  ultimately show ?thesis
    by (simp add: case_prod_beta env'_def)
qed

text \<open>A confirmation on SDIO/USB returns exactly the buffer outstanding under the
  reported id, or nothing when there is none, and removes that association only.\<close>

theorem id_to_ptr_refines:
  assumes wf: "hostid_wf env" and len: "length (tx_hostid env) = IPC_HOSTID_CNT"
  shows "case ipc_host_tx_host_id_to_ptr_for_sdio_usb env h of (env', r) \<Rightarrow>
           r = outstanding env h \<and> outstanding env' = (outstanding env)(h := None)"
  by (rule id_to_ptr_outstanding [OF assms])

theorem id_to_ptr_refines_witness:
  "case ipc_host_tx_host_id_to_ptr_for_sdio_usb (fst (ipc_host_tx_host_ptr_to_id ipc_env_usb 7)) 0x10001 of
     (env', r) \<Rightarrow>
       r = outstanding (fst (ipc_host_tx_host_ptr_to_id ipc_env_usb 7)) 0x10001
     \<and> outstanding env' = (outstanding (fst (ipc_host_tx_host_ptr_to_id ipc_env_usb 7)))(0x10001 := None)"
  by (rule id_to_ptr_refines [OF hostid_wf_ptr_to_id [OF ipc_env_usb_wf]])
    (simp add: ipc_env_usb_def ipc_host_init_def hostid_cnt_def)

text \<open>A repeated confirmation is recognised on SDIO/USB: once an id has been
  confirmed, reporting it again yields no buffer and changes nothing, because the entry is
  re-issued under the next generation prefix and no other entry can carry the id.\<close>

theorem stale_confirm_rejected:
  assumes wf: "hostid_wf env" and len: "length (tx_hostid env) = IPC_HOSTID_CNT"
    and conf: "ipc_host_tx_host_id_to_ptr_for_sdio_usb env h = (env', Some p)"
  shows "ipc_host_tx_host_id_to_ptr_for_sdio_usb env' h = (env', None)"
proof -
  have wf': "hostid_wf env'"
    using hostid_wf_id_to_ptr_sdio_usb [OF wf, of h] conf by simp
  have none: "outstanding env' h = None"
    using id_to_ptr_outstanding [OF wf len, of h] conf by simp
  have "find_from (\<lambda>i. hostid (tx_hostid env' ! i) = h) (tx_hostid_pushed env') = []"
  proof (rule ccontr)
    assume "find_from (\<lambda>i. hostid (tx_hostid env' ! i) = h) (tx_hostid_pushed env') \<noteq> []"
    then obtain i where "i \<in> set (tx_hostid_pushed env')" "hostid (tx_hostid env' ! i) = h"
      by (auto simp: find_from_Nil)
    with wf' none show False
      using outstanding_entry [OF wf'] by (auto simp: hostid_wf_defs)
  qed
  then show ?thesis
    by (simp add: ipc_host_tx_host_id_to_ptr_for_sdio_usb_def)
qed

lemma ipc_env_usb_facts:
  "length (tx_hostid ipc_env_usb) = IPC_HOSTID_CNT"
  "tx_hostid_available ipc_env_usb = 0 # [1..<IPC_HOSTID_CNT]"
  "tx_hostid_pushed ipc_env_usb = []"
  "hostid (tx_hostid ipc_env_usb ! 0) = 0x10001"
proof -
  have pos: "0 < IPC_HOSTID_CNT"
    by (simp add: IPC_HOSTID_CNT_def)
  then have "[0..<IPC_HOSTID_CNT] = 0 # [1..<IPC_HOSTID_CNT]"
    by (simp add: upt_conv_Cons del: upt_Suc)
  then show "tx_hostid_available ipc_env_usb = 0 # [1..<IPC_HOSTID_CNT]"
    by (simp add: ipc_env_usb_def ipc_host_init_def hostid_cnt_def)
  have "init_hostid USB_MODE 1 = 0x10001"
    by (simp add: init_hostid_def aml_compact_tx_host_id_def COMPACT_HOST_ID_MASK_def
        COMPACT_HOST_ID_BITS_def)
  with pos show "hostid (tx_hostid ipc_env_usb ! 0) = 0x10001"
    by (simp add: ipc_env_usb_def ipc_host_init_def hostid_cnt_def nth_map del: upt_Suc)
qed (simp_all add: ipc_env_usb_def ipc_host_init_def hostid_cnt_def del: upt_Suc)

theorem stale_confirm_rejected_witness:
  "\<exists>env'. ipc_host_tx_host_id_to_ptr_for_sdio_usb (fst (ipc_host_tx_host_ptr_to_id ipc_env_usb 7)) 0x10001
           = (env', Some 7)
        \<and> ipc_host_tx_host_id_to_ptr_for_sdio_usb env' 0x10001 = (env', None)"
proof -
  let ?env = "fst (ipc_host_tx_host_ptr_to_id ipc_env_usb 7)"
  have len: "length (tx_hostid ?env) = IPC_HOSTID_CNT"
    by (simp add: ipc_env_usb_def ipc_host_init_def hostid_cnt_def)
  have "snd (ipc_host_tx_host_id_to_ptr_for_sdio_usb ?env 0x10001) = Some 7"
    using IPC_HOSTID_CNT_def
    by (simp add: ipc_env_usb_facts ipc_host_tx_host_ptr_to_id_def Let_def
        ipc_host_tx_host_id_to_ptr_for_sdio_usb_def del: upt_Suc)
  then obtain env' where r: "ipc_host_tx_host_id_to_ptr_for_sdio_usb ?env 0x10001 = (env', Some 7)"
    by (metis prod.collapse)
  show ?thesis
    using r stale_confirm_rejected [OF hostid_wf_ptr_to_id [OF ipc_env_usb_wf] len r] by blast
qed

text \<open>The PCIe lookup has no such protection: for an id in range it returns the
  pointer last stored in the entry whether or not the entry is outstanding, so a second
  confirmation of the same id hands out the same buffer again.\<close>

theorem pcie_confirm_repeats:
  assumes "aml_bus_type pl = PCIE_MODE" and "h \<noteq> 0" and "unat h \<le> IPC_TXCFM_CNT"
    and "ipc_host_tx_host_id_to_ptr pl env h = Some (env', r)"
  shows "\<exists>env''. ipc_host_tx_host_id_to_ptr pl env' h = Some (env'', r)"
  using assms by (auto simp: ipc_host_tx_host_id_to_ptr_def Let_def split: if_splits)

definition plat_pcie :: plat where
  "plat_pcie = \<lparr>aml_bus_type = PCIE_MODE, bus_suspend_cnt = 0, g_pci_shutdown = False,
     g_pci_msg_suspend = False, hw_state = WIFI_SUSPEND_STATE_NONE, recy_state_ongoing = False\<rparr>"

theorem pcie_confirm_repeats_witness:
  "\<exists>env' r. ipc_host_tx_host_id_to_ptr plat_pcie ipc_env0 1 = Some (env', r)
     \<and> (\<exists>env''. ipc_host_tx_host_id_to_ptr plat_pcie env' 1 = Some (env'', r))"
proof -
  obtain env' r where e: "ipc_host_tx_host_id_to_ptr plat_pcie ipc_env0 1 = Some (env', r)"
    by (simp add: ipc_host_tx_host_id_to_ptr_def plat_pcie_def IPC_TXCFM_CNT_def Let_def)
  then show ?thesis
    using pcie_confirm_repeats [OF _ _ _ e] by (auto simp: plat_pcie_def IPC_TXCFM_CNT_def)
qed

section \<open>The circular arrays\<close>

interpretation radar_ring: circular_index radar_next IPC_RADARBUF_CNT
  by unfold_locales (simp_all add: radar_next_def IPC_RADARBUF_CNT_def)

interpretation unsuprxvec_ring: circular_index unsuprxvec_next IPC_UNSUPRXVECBUF_CNT
  by unfold_locales (simp_all add: unsuprxvec_next_def IPC_UNSUPRXVECBUF_CNT_def)

interpretation msgbuf_ring: circular_index msgbuf_next IPC_MSGE2A_BUF_CNT
  by unfold_locales (simp_all add: msgbuf_next_def IPC_MSGE2A_BUF_CNT_def)

interpretation dbgbuf_ring: circular_index dbgbuf_next IPC_DBGBUF_CNT
  by unfold_locales (simp_all add: dbgbuf_next_def IPC_DBGBUF_CNT_def)

interpretation txcfm_ring: circular_index txcfm_next IPC_TXCFM_CNT
  by unfold_locales (auto simp: txcfm_next_def IPC_TXCFM_CNT_def mod_Suc)

interpretation rxdesc_ring: circular_index "rxdesc_next PCIE_MODE" "IPC_RXDESC_CNT + IPC_RXDESC_CNT_EXT"
  by unfold_locales (simp_all add: rxdesc_next_def IPC_RXDESC_CNT_def)

interpretation rxbuf_ring: circular_index "rxbuf_next PCIE_MODE" "IPC_RXBUF_CNT + IPC_RXBUF_CNT_EXT"
  by unfold_locales (simp_all add: rxbuf_next_def IPC_RXBUF_CNT_def)

text \<open>The message ring: index in range and arrays of the ring's size.\<close>

definition msg_ring_ok :: "ipc_host_env \<Rightarrow> bool" where
  "msg_ring_ok env \<longleftrightarrow> msgbuf_idx env < IPC_MSGE2A_BUF_CNT
     \<and> length (msgbuf env) = IPC_MSGE2A_BUF_CNT
     \<and> length (msg_e2a_hostbuf_addr (shared env)) = IPC_MSGE2A_BUF_CNT"

fun msgbuf_push_all :: "plat \<Rightarrow> ipc_host_env \<Rightarrow> aml_ipc_buf list \<Rightarrow> ipc_host_env option" where
  "msgbuf_push_all pl env [] = Some env"
| "msgbuf_push_all pl env (b # bs) =
     Option.bind (ipc_host_msgbuf_push pl env b) (\<lambda>(env', r). msgbuf_push_all pl env' bs)"

lemma msgbuf_push_ok:
  assumes "\<not> pci_blocked pl" and "msg_ring_ok env"
  shows "\<exists>env'. ipc_host_msgbuf_push pl env b = Some (env', 0) \<and> msg_ring_ok env'
     \<and> msgbuf_idx env' = msgbuf_next (msgbuf_idx env)
     \<and> msgbuf env' = (msgbuf env)[msgbuf_idx env := Some (buf_ptr b)]"
  using assms msgbuf_ring.next_in_range by (auto simp: ipc_host_msgbuf_push_def msg_ring_ok_def)

text \<open>Handing at most one round of message buffers to the firmware stores the
  \<open>k\<close>-th buffer in the \<open>k\<close>-th slot behind the index, wrapping at the end of the array, and
  overwrites none of the buffers of the same round.\<close>

theorem msgbuf_round:
  assumes "\<not> pci_blocked pl" and "msg_ring_ok env" and "length bs \<le> IPC_MSGE2A_BUF_CNT"
  shows "\<exists>env'. msgbuf_push_all pl env bs = Some env' \<and> msg_ring_ok env'
     \<and> msgbuf_idx env' = (msgbuf_idx env + length bs) mod IPC_MSGE2A_BUF_CNT
     \<and> (\<forall>k<length bs. msgbuf env' ! ((msgbuf_idx env + k) mod IPC_MSGE2A_BUF_CNT)
                        = Some (buf_ptr (bs ! k)))"
  using assms(3)
proof (induction bs rule: rev_induct)
  case Nil
  with assms show ?case
    by (simp add: msg_ring_ok_def)
next
  case (snoc b bs)
  let ?n = "IPC_MSGE2A_BUF_CNT" and ?i = "msgbuf_idx env"
  have all_snoc: "msgbuf_push_all pl e (cs @ [b]) =
      Option.bind (msgbuf_push_all pl e cs) (\<lambda>e'. map_option fst (ipc_host_msgbuf_push pl e' b))" for e cs
    by (induction cs arbitrary: e) (auto split: Option.bind_split)
  from snoc obtain e1 where e1: "msgbuf_push_all pl env bs = Some e1" "msg_ring_ok e1"
      "msgbuf_idx e1 = (?i + length bs) mod ?n"
      "\<And>k. k < length bs \<Longrightarrow> msgbuf e1 ! ((?i + k) mod ?n) = Some (buf_ptr (bs ! k))"
    by auto
  obtain e2 where e2: "ipc_host_msgbuf_push pl e1 b = Some (e2, 0)" "msg_ring_ok e2"
      "msgbuf_idx e2 = msgbuf_next (msgbuf_idx e1)"
      "msgbuf e2 = (msgbuf e1)[msgbuf_idx e1 := Some (buf_ptr b)]"
    using msgbuf_push_ok [OF assms(1) e1(2)] by blast
  have i: "?i < ?n"
    using assms(2) by (simp add: msg_ring_ok_def)
  have other: "(?i + k) mod ?n \<noteq> (?i + length bs) mod ?n" if "k < length bs" for k
  proof
    assume "(?i + k) mod ?n = (?i + length bs) mod ?n"
    then have "?n dvd length bs - k"
      using that by (metis add_diff_cancel_left diff_add_inverse less_imp_le mod_eq_dvd_iff_nat nat_add_left_cancel_le)
    with that snoc.prems show False
      by (auto dest: dvd_imp_le)
  qed
  have "msgbuf e2 ! ((?i + k) mod ?n) = Some (buf_ptr ((bs @ [b]) ! k))" if "k < Suc (length bs)" for k
    using that e1(2-4) e2(4) other [of k]
    by (cases "k = length bs") (auto simp: msg_ring_ok_def nth_append nth_list_update)
  moreover have "msgbuf_idx e2 = (?i + Suc (length bs)) mod ?n"
    using e1(3) e2(3) by (simp add: msgbuf_next_def mod_Suc_eq)
  ultimately show ?case
    using e1(1) e2(1,2) by (simp add: all_snoc)
qed

theorem msgbuf_round_witness:
  "\<exists>env'. msgbuf_push_all plat_pcie ipc_env_usb
       [\<lparr>buf_ptr = 11, dma_addr = 0, skb_hostid = 0\<rparr>, \<lparr>buf_ptr = 12, dma_addr = 4, skb_hostid = 0\<rparr>] = Some env'
     \<and> msgbuf_idx env' = 2 \<and> msgbuf env' ! 1 = Some 12"
  using msgbuf_round [of plat_pcie ipc_env_usb
      "[\<lparr>buf_ptr = 11, dma_addr = 0, skb_hostid = 0\<rparr>, \<lparr>buf_ptr = 12, dma_addr = 4, skb_hostid = 0\<rparr>]"]
  by (auto simp: pci_blocked_def plat_pcie_def msg_ring_ok_def ipc_env_usb_def ipc_host_init_def
      zero_shared_env_def IPC_MSGE2A_BUF_CNT_def less_Suc_eq numeral_2_eq_2)

section \<open>The doorbell\<close>

definition trigger_ok :: "aml_txdesc_trigger \<Rightarrow> bool" where
  "trigger_ok t \<longleftrightarrow> 0 < ths_enable t \<and> 0 \<le> txdesc_cnt t \<and> txdesc_cnt t \<le> uint (tx_pcie_ths t)
     \<and> tx_pcie_ths t \<le> TXDESC_TRIGGER_THS"

fun trigger_run :: "nat \<Rightarrow> aml_txdesc_trigger \<Rightarrow> aml_txdesc_trigger \<times> bool list" where
  "trigger_run 0 t = (t, [])"
| "trigger_run (Suc n) t =
     (let (t1, r) = txdesc_trigger_step t; (t2, rs) = trigger_run n t1 in (t2, r # rs))"

lemma trigger_step_ok [wf_intros]: "trigger_ok t \<Longrightarrow> trigger_ok (fst (txdesc_trigger_step t))"
  by (auto simp: trigger_ok_def txdesc_trigger_step_def Let_def not_less)

lemma trigger_step_silent:
  "trigger_ok t \<Longrightarrow> \<not> snd (txdesc_trigger_step t) \<Longrightarrow>
   tx_pcie_ths (fst (txdesc_trigger_step t)) = tx_pcie_ths t
   \<and> txdesc_cnt (fst (txdesc_trigger_step t)) = txdesc_cnt t + 1"
  by (auto simp: trigger_ok_def txdesc_trigger_step_def Let_def split: if_splits)

lemma trigger_run_ok: "trigger_ok t \<Longrightarrow> trigger_ok (fst (trigger_run n t))"
  by (induction n arbitrary: t) (auto simp: Let_def case_prod_beta intro: wf_intros)

lemma trigger_run_silent:
  "trigger_ok t \<Longrightarrow> True \<notin> set (snd (trigger_run n t)) \<Longrightarrow> txdesc_cnt t + int n \<le> uint (tx_pcie_ths t)"
proof (induction n arbitrary: t)
  case (Suc n)
  let ?t1 = "fst (txdesc_trigger_step t)"
  have silent: "\<not> snd (txdesc_trigger_step t)" "True \<notin> set (snd (trigger_run n ?t1))"
    using Suc.prems(2) by (auto simp: Let_def case_prod_beta)
  with Suc trigger_step_ok trigger_step_silent [of t] show ?case
    by fastforce
qed (simp add: trigger_ok_def)

text \<open>Batching never starves the firmware: while the threshold mode is enabled
  the adaptive threshold stays at most 18, and among any 19 consecutive TX descriptors at least
  one rings the doorbell.\<close>

theorem doorbell_not_starved:
  assumes "trigger_ok t"
  shows "True \<in> set (snd (trigger_run 19 t)) \<and> trigger_ok (fst (trigger_run 19 t))"
proof -
  have "uint (tx_pcie_ths t) \<le> 18"
    using assms by (simp add: trigger_ok_def TXDESC_TRIGGER_THS_def word_le_def)
  moreover have "0 \<le> txdesc_cnt t"
    using assms by (simp add: trigger_ok_def)
  ultimately show ?thesis
    using trigger_run_silent [OF assms, of 19] trigger_run_ok [OF assms] by auto
qed

theorem doorbell_not_starved_witness:
  "True \<in> set (snd (trigger_run 19
     \<lparr>txdesc_cnt = 0, ths_enable = 1, dynamic_cnt = 5, tx_pcie_ths = 18\<rparr>))"
  using doorbell_not_starved [of "\<lparr>txdesc_cnt = 0, ths_enable = 1, dynamic_cnt = 5, tx_pcie_ths = 18\<rparr>"]
  by (simp add: trigger_ok_def TXDESC_TRIGGER_THS_def)

section \<open>The message slot\<close>

text \<open>A message as \<open>aml_msg_zalloc\<close> allocates it: as many parameter bytes as announced, in
  whole words.\<close>

definition lmac_msg_ok :: "lmac_msg \<Rightarrow> bool" where
  "lmac_msg_ok m \<longleftrightarrow> length (msg_param m) = unat (msg_param_len m) \<and> 4 dvd length (msg_param m)
     \<and> unat (msg_param_len m) + 8 < 2 ^ 16"

lemma length_lmac_msg_bytes [simp]: "length (lmac_msg_bytes m) = 8 + length (msg_param m)"
  by (simp add: lmac_msg_bytes_def)

lemma lmac_msg_len: "lmac_msg_ok m \<Longrightarrow> unat (AML_CMD_A2EMSG_LEN m) = length (lmac_msg_bytes m)"
  by (simp add: lmac_msg_ok_def AML_CMD_A2EMSG_LEN_def unat_word_ariths)

lemma param_word: "lmac_msg_ok m \<Longrightarrow> msg_param_len m \<noteq> 0 \<Longrightarrow> \<exists>p. rd_le32 (msg_param m) = Some p"
  by (rule rd_le32_Some) (auto simp: lmac_msg_ok_def unat_eq_0 dest: dvd_imp_le)

lemma refused_defined:
  assumes "lmac_msg_ok m"
  shows "\<exists>b. msg_push_refused pl m = Some b"
proof -
  have p: "rd_le32 (msg_param m) \<noteq> None" if "msg_param_len m \<noteq> 0"
    using param_word [OF assms that] by auto
  then have "aml_check_suspend_resume_msg (hw_state pl) m \<noteq> None"
    by (auto simp: aml_check_suspend_resume_msg_def)
  then obtain ok where "aml_check_suspend_resume_msg (hw_state pl) m = Some ok"
    by blast
  with p have "msg_push_refused pl m \<noteq> None"
    by (auto simp: msg_push_refused_def)
  then show ?thesis
    by blast
qed

lemma msg_push_cases:
  assumes "ipc_host_msg_push pl env c m len = Some (env', r)"
  shows "(r = 0 \<and> (\<exists>msg. m = Some msg) \<and> msga2e_hostid env' = Some c) \<or> (r \<noteq> 0 \<and> env' = env)"
  using assms
  by (auto simp: ipc_host_msg_push_def ipc_app2emb_trigger_def EBUSY_def
      split: option.splits if_splits Option.bind_splits)

section \<open>The message channel\<close>

text \<open>
  What the command manager relies on: a push of a message that fits either takes the slot or
  changes nothing, and an acknowledgement returns what the slot holds and empties it.
\<close>

definition msg_fits :: "lmac_msg \<Rightarrow> bool" where
  "msg_fits m \<longleftrightarrow> lmac_msg_ok m \<and> length (lmac_msg_bytes m) \<le> A2E_MSG_BYTES"

definition slot_ok :: "ipc_host_env \<Rightarrow> bool" where
  "slot_ok env \<longleftrightarrow> length (msg_a2e_buf (shared env)) = A2E_MSG_BYTES"

locale msg_channel =
  fixes push :: "plat \<Rightarrow> 'env \<Rightarrow> addr \<Rightarrow> lmac_msg option \<Rightarrow> u16 \<Rightarrow> ('env \<times> int) option"
    and ack :: "'env \<Rightarrow> 'env \<times> addr option"
    and slot :: "'env \<Rightarrow> addr option"
    and ok :: "'env \<Rightarrow> bool"
  assumes push_defined: "ok env \<Longrightarrow> msg_fits m \<Longrightarrow>
      \<exists>env' r. push pl env c (Some m) (AML_CMD_A2EMSG_LEN m) = Some (env', r) \<and> ok env'"
    and push_taken: "push pl env c mo len = Some (env', 0) \<Longrightarrow> slot env' = Some c"
    and push_refused: "push pl env c mo len = Some (env', r) \<Longrightarrow> r \<noteq> 0 \<Longrightarrow> env' = env"
    and ack_taken: "slot env = Some c \<Longrightarrow>
      \<exists>env'. ack env = (env', Some c) \<and> slot env' = None \<and> ok env' = ok env"
    and ack_empty: "slot env = None \<Longrightarrow> ack env = (env, None)"
begin

lemma push_result:
  assumes "ok env" and "msg_fits m"
  shows "\<exists>env' r. push pl env c (Some m) (AML_CMD_A2EMSG_LEN m) = Some (env', r) \<and> ok env'
     \<and> (if r = 0 then slot env' = Some c else env' = env)"
proof -
  obtain env' r where e: "push pl env c (Some m) (AML_CMD_A2EMSG_LEN m) = Some (env', r)" "ok env'"
    using push_defined [OF assms] by blast
  then have "if r = 0 then slot env' = Some c else env' = env"
    by (cases "r = 0") (auto dest: push_taken push_refused)
  with e show ?thesis
    by blast
qed

lemma acked_once: "slot env = Some c \<Longrightarrow> snd (ack env) = Some c \<and> snd (ack (fst (ack env))) = None"
  by (metis ack_taken ack_empty fst_conv snd_conv)

end

lemma push_slot_ok:
  assumes "slot_ok env" and "msg_fits m"
  shows "\<exists>env' r. ipc_host_msg_push pl env c (Some m) (AML_CMD_A2EMSG_LEN m) = Some (env', r) \<and> slot_ok env'"
proof -
  have ok: "lmac_msg_ok m" and len: "length (lmac_msg_bytes m) \<le> length (msg_a2e_buf (shared env))"
    using assms by (simp_all add: msg_fits_def slot_ok_def)
  obtain b where "msg_push_refused pl m = Some b"
    using refused_defined [OF ok] by blast
  with assms(1) len show ?thesis
    unfolding ipc_host_msg_push_def copy_msg_def lmac_msg_len [OF ok]
    by (auto simp: slot_ok_def ipc_app2emb_trigger_def)
qed

lemma push_accepted:
  assumes "slot_ok env" and "msg_fits m" and "\<not> pci_blocked pl" and "msg_push_refused pl m = Some False"
  shows "\<exists>env'. ipc_host_msg_push pl env c (Some m) (AML_CMD_A2EMSG_LEN m) = Some (env', 0)"
proof -
  have ok: "lmac_msg_ok m" and len: "length (lmac_msg_bytes m) \<le> length (msg_a2e_buf (shared env))"
    using assms by (simp_all add: msg_fits_def slot_ok_def)
  show ?thesis
    unfolding ipc_host_msg_push_def copy_msg_def lmac_msg_len [OF ok]
    using assms(3,4) len by simp
qed

interpretation a2e_channel: msg_channel ipc_host_msg_push ipc_host_msgack_handler msga2e_hostid slot_ok
proof
  fix pl env c m len env' r
  assume "ipc_host_msg_push pl env c m len = Some (env', 0)"
  then show "msga2e_hostid env' = Some c"
    using msg_push_cases by blast
next
  fix pl env c m len env' r
  assume "ipc_host_msg_push pl env c m len = Some (env', r)" "r \<noteq> 0"
  then show "env' = env"
    using msg_push_cases by blast
next
  fix env m pl c
  assume "slot_ok env" "msg_fits m"
  then show "\<exists>env' r. ipc_host_msg_push pl env c (Some m) (AML_CMD_A2EMSG_LEN m) = Some (env', r) \<and> slot_ok env'"
    by (rule push_slot_ok)
qed (auto simp: ipc_host_msgack_handler_def slot_ok_def)

text \<open>Property C28. For a message as the driver allocates it the push faults in exactly one
  case: the bus is up, the suspend rules let the message pass, and header plus parameters do not
  fit the 508-byte slot. The length assertion in front of the copy only logs.\<close>

theorem msg_push_fault_iff:
  assumes "lmac_msg_ok m"
  shows "ipc_host_msg_push pl env c (Some m) (AML_CMD_A2EMSG_LEN m) = None
     \<longleftrightarrow> \<not> pci_blocked pl \<and> msg_push_refused pl m = Some False
        \<and> length (msg_a2e_buf (shared env)) < 8 + length (msg_param m)"
proof -
  obtain b where b: "msg_push_refused pl m = Some b"
    using refused_defined [OF assms] by blast
  show ?thesis
    unfolding ipc_host_msg_push_def copy_msg_def lmac_msg_len [OF assms]
    by (auto simp: b)
qed

definition big_msg :: lmac_msg where
  "big_msg = \<lparr>msg_id = 0, msg_dest_id = 0, msg_src_id = 100, msg_param_len = 504,
     msg_param = replicate 504 0\<rparr>"

theorem msg_push_fault_iff_witness:
  "ipc_host_msg_push plat_pcie ipc_env_usb 7 (Some big_msg) (AML_CMD_A2EMSG_LEN big_msg) = None"
proof -
  have ok: "lmac_msg_ok big_msg"
    by (simp add: lmac_msg_ok_def big_msg_def)
  have "msg_push_refused plat_pcie big_msg = Some False"
    by (simp add: msg_push_refused_def aml_check_suspend_resume_msg_def plat_pcie_def)
  moreover have "length (msg_a2e_buf (shared ipc_env_usb)) = 508"
    by (simp add: ipc_env_usb_def ipc_host_init_def zero_shared_env_def A2E_MSG_BYTES_def)
  ultimately show ?thesis
    using msg_push_fault_iff [OF ok, of plat_pcie ipc_env_usb 7]
    by (simp add: pci_blocked_def plat_pcie_def) (simp add: big_msg_def)
qed

text \<open>Property C29. The slot is a one-place mailbox: a successful push stores the message bytes
  and the command, the acknowledgement hands that command back exactly once and counts it.\<close>

theorem msg_push_ack_roundtrip:
  assumes "ipc_host_msg_push pl env c (Some m) len = Some (env', 0)"
  shows "take (unat len) (msg_a2e_buf (shared env')) = take (unat len) (lmac_msg_bytes m)
     \<and> (\<exists>env''. ipc_host_msgack_handler env' = (env'', Some c)
          \<and> msga2e_cnt env'' = msga2e_cnt env + 1
          \<and> ipc_host_msgack_handler env'' = (env'', None))"
  using assms
  by (auto simp: ipc_host_msg_push_def ipc_app2emb_trigger_def EBUSY_def copy_msg_def
      ipc_host_msgack_handler_def split: if_splits Option.bind_splits)

theorem msg_push_ack_roundtrip_witness:
  "\<exists>env' env''. ipc_host_msg_push plat_pcie ipc_env_usb 7
        (Some \<lparr>msg_id = 2, msg_dest_id = 0, msg_src_id = 100, msg_param_len = 0, msg_param = []\<rparr>) 8
        = Some (env', 0)
     \<and> ipc_host_msgack_handler env' = (env'', Some 7)"
proof -
  let ?m = "\<lparr>msg_id = 2, msg_dest_id = 0, msg_src_id = 100, msg_param_len = 0, msg_param = []\<rparr> :: lmac_msg"
  have "length (msg_a2e_buf (shared ipc_env_usb)) = 508"
    by (simp add: ipc_env_usb_def ipc_host_init_def zero_shared_env_def A2E_MSG_BYTES_def)
  then obtain env' where "ipc_host_msg_push plat_pcie ipc_env_usb 7 (Some ?m) 8 = Some (env', 0)"
    by (auto simp: ipc_host_msg_push_def pci_blocked_def plat_pcie_def msg_push_refused_def
        aml_check_suspend_resume_msg_def copy_msg_def)
  then show ?thesis
    using msg_push_ack_roundtrip by blast
qed

end
