(* ===== verification/Cmds.thy ===== *)
theory Cmds
  imports Ipc_Host
begin

text \<open>
  The command manager (aml_drv/aml_cmds.c, aml_cmds.h, and the acknowledgement entry
  \<open>aml_msgackind\<close> of aml_utils.c): commands for the firmware wait in one list; the
  command in flight is acknowledged through the IPC slot and, when it asked for one, gets a
  confirmation message; the rest wait for their push.

  Commands are heap objects reached through pointers from the list, from the IPC slot and
  from the calling thread at once, so the model keeps an explicit store \<open>heap\<close>; \<open>kfree\<close>
  removes the object and every later access to it is undefined behaviour (\<open>None\<close>).
  Between two lock regions of one function other contexts may run: the operations that drop
  the lock take a parameter \<open>irq\<close>, what the rest of the system does at the numbered
  unlocked point. Log output is left out.
\<close>

unbundle bit_operations_syntax

section \<open>Constants\<close>

abbreviation "AML_CMD_FLAG_NONBLOCK \<equiv> (BIT 0 :: u16)"
abbreviation "AML_CMD_FLAG_REQ_CFM \<equiv> (BIT 1 :: u16)"
abbreviation "AML_CMD_FLAG_WAIT_PUSH \<equiv> (BIT 2 :: u16)"
abbreviation "AML_CMD_FLAG_WAIT_ACK \<equiv> (BIT 3 :: u16)"
abbreviation "AML_CMD_FLAG_WAIT_CFM \<equiv> (BIT 4 :: u16)"
abbreviation "AML_CMD_FLAG_DONE \<equiv> (BIT 5 :: u16)"
abbreviation "AML_CMD_FLAG_CALL_THREAD \<equiv> (BIT 6 :: u16)"

definition AML_CMD_MAX_QUEUED :: u32 where "AML_CMD_MAX_QUEUED = 8"
definition AML_CMD_E2AMSG_LEN_MAX :: u16 where "AML_CMD_E2AMSG_LEN_MAX = 256 * 4"
definition MM_START_REQ :: u16 where "MM_START_REQ = 2"
definition MM_START_CFM :: u16 where "MM_START_CFM = 3"
definition MM_CSA_FINISH_IND :: u16 where "MM_CSA_FINISH_IND = 88"
definition EINTR :: int where "EINTR = 4"
definition ENOMEM :: int where "ENOMEM = 12"
definition EPIPE :: int where "EPIPE = 32"
definition ETIMEDOUT :: int where "ETIMEDOUT = 110"

definition AML_CMD_WAIT_COMPLETE :: "u16 \<Rightarrow> bool" where
  "AML_CMD_WAIT_COMPLETE fl \<longleftrightarrow> fl AND (AML_CMD_FLAG_WAIT_ACK OR AML_CMD_FLAG_WAIT_CFM) = 0"

lemma WAIT_COMPLETE_bits [simp]: "AML_CMD_WAIT_COMPLETE fl \<longleftrightarrow> \<not> bit fl 3 \<and> \<not> bit fl 4"
  by (simp add: AML_CMD_WAIT_COMPLETE_def)

section \<open>State\<close>

datatype aml_cmd_mgr_state =
  AML_CMD_MGR_STATE_DEINIT | AML_CMD_MGR_STATE_INITED | AML_CMD_MGR_STATE_CRASHED

text \<open>\<open>struct aml_cmd\<close>; \<open>complete\<close> counts the \<open>complete()\<close> calls not yet consumed by a waiter,
  \<open>e2a_msg\<close> is the caller's buffer for the confirmation.\<close>

record aml_cmd =
  cmd_id :: u16
  reqid :: u16
  a2e_msg :: "lmac_msg option"
  e2a_msg :: "u8 list option"
  tkn :: u32
  flags :: u16
  complete :: nat
  result :: u32

record aml_cmd_mgr =
  state :: aml_cmd_mgr_state
  next_tkn :: u32
  queue_sz :: u32
  max_queue_sz :: u32
  cmds :: "addr list"

text \<open>What the command manager touches of \<open>struct aml_hw\<close>.\<close>

record aml_hw =
  cmd_mgr :: aml_cmd_mgr
  heap :: "addr \<Rightarrow> aml_cmd option"
  ipc_env :: ipc_host_env
  aml_msg_sem :: nat
  dev_started :: bool

text \<open>\<open>struct ipc_e2a_msg\<close>: the message a firmware confirmation or indication carries.\<close>

record ipc_e2a_msg =
  e2a_id :: u16
  e2a_param_len :: u16
  e2a_param :: "u8 list"

abbreviation upd_mgr :: "(aml_cmd_mgr \<Rightarrow> aml_cmd_mgr) \<Rightarrow> aml_hw \<Rightarrow> aml_hw" where
  "upd_mgr f hw \<equiv> hw\<lparr>cmd_mgr := f (cmd_mgr hw)\<rparr>"

definition upd_cmd :: "addr \<Rightarrow> (aml_cmd \<Rightarrow> aml_cmd) \<Rightarrow> aml_hw \<Rightarrow> aml_hw option" where
  "upd_cmd a f hw = do {
     c \<leftarrow> heap hw a;
     Some (hw\<lparr>heap := (heap hw)(a \<mapsto> f c)\<rparr>)
   }"

definition kfree_cmd :: "addr \<Rightarrow> aml_hw \<Rightarrow> aml_hw option" where
  "kfree_cmd a hw = do {
     _ \<leftarrow> heap hw a;
     Some (hw\<lparr>heap := (heap hw)(a := None)\<rparr>)
   }"

text \<open>\<open>list_del(&cmd->list)\<close>: deleting an entry that is not linked is undefined.\<close>

definition cmd_list_del :: "addr \<Rightarrow> aml_hw \<Rightarrow> aml_hw option" where
  "cmd_list_del a hw = do {
     _ \<leftarrow> heap hw a;
     if a \<in> set (cmds (cmd_mgr hw))
     then Some (upd_mgr (\<lambda>m. m\<lparr>cmds := remove1 a (cmds m)\<rparr>) hw) else None
   }"

section \<open>Operations under the lock\<close>

definition cmd_complete :: "aml_hw \<Rightarrow> addr \<Rightarrow> aml_hw option" where
  "cmd_complete hw a = do {
     hw \<leftarrow> cmd_list_del a hw;
     let hw = upd_mgr (\<lambda>m. m\<lparr>queue_sz := queue_sz m - 1\<rparr>) hw;
     c \<leftarrow> heap hw a;
     let hw = (if cmd_id c = MM_START_REQ \<and> reqid c = MM_START_CFM
               then hw\<lparr>dev_started := True\<rparr> else hw);
     hw \<leftarrow> upd_cmd a (\<lambda>c. c\<lparr>flags := flags c OR AML_CMD_FLAG_DONE\<rparr>) hw;
     c \<leftarrow> heap hw a;
     if flags c AND AML_CMD_FLAG_NONBLOCK \<noteq> 0 then kfree_cmd a hw
     else if AML_CMD_WAIT_COMPLETE (flags c) then
       upd_cmd a (\<lambda>c. c\<lparr>result := 0, complete := complete c + 1\<rparr>) hw
     else Some hw
   }"

text \<open>\<open>aml_ipc_msg_push\<close> for a command (default build, no power-save option), its length
  argument included: the command and its message are dereferenced.\<close>

definition aml_ipc_msg_push :: "plat \<Rightarrow> aml_hw \<Rightarrow> addr \<Rightarrow> (aml_hw \<times> int) option" where
  "aml_ipc_msg_push pl hw a = do {
     c \<leftarrow> heap hw a;
     m \<leftarrow> a2e_msg c;
     (env, r) \<leftarrow> ipc_host_msg_push pl (ipc_env hw) a (a2e_msg c) (AML_CMD_A2EMSG_LEN m);
     Some (hw\<lparr>ipc_env := env\<rparr>, r)
   }"

definition free_a2e :: "addr \<Rightarrow> aml_hw \<Rightarrow> aml_hw option" where
  "free_a2e a hw = upd_cmd a (\<lambda>c. c\<lparr>a2e_msg := None\<rparr>) hw"

definition clear_flags :: "u16 \<Rightarrow> addr \<Rightarrow> aml_hw \<Rightarrow> aml_hw option" where
  "clear_flags m a hw = upd_cmd a (\<lambda>c. c\<lparr>flags := flags c AND NOT m\<rparr>) hw"

definition set_flags :: "u16 \<Rightarrow> addr \<Rightarrow> aml_hw \<Rightarrow> aml_hw option" where
  "set_flags m a hw = upd_cmd a (\<lambda>c. c\<lparr>flags := flags c OR m\<rparr>) hw"

definition up :: "aml_hw \<Rightarrow> aml_hw" where
  "up hw = hw\<lparr>aml_msg_sem := aml_msg_sem hw + 1\<rparr>"

text \<open>What follows a failed push: both waits are cleared and the command is completed.\<close>

definition cmd_push_failed :: "aml_hw \<Rightarrow> addr \<Rightarrow> aml_hw option" where
  "cmd_push_failed hw a = do {
     hw \<leftarrow> clear_flags (AML_CMD_FLAG_WAIT_ACK OR AML_CMD_FLAG_WAIT_CFM) a hw;
     cmd_complete hw a
   }"

text \<open>
  \<open>cmd_mgr_next_cmd\<close> (PCIe): push the command; when that fails complete it and look at the
  first entry left, which is taken only if it is not also the last one. Each round but the
  last removes a list entry, so a fuel of one more than the queue length suffices
  (\<open>next_cmd_defined\<close> below).
\<close>

fun next_cmd_loop :: "nat \<Rightarrow> plat \<Rightarrow> aml_hw \<Rightarrow> addr \<Rightarrow> aml_hw option" where
  "next_cmd_loop 0 pl hw a = None"
| "next_cmd_loop (Suc fuel) pl hw a = do {
     hw \<leftarrow> clear_flags AML_CMD_FLAG_WAIT_PUSH a hw;
     c \<leftarrow> heap hw a;
     (hw, ret) \<leftarrow> (if a2e_msg c \<noteq> None then do {
                     (hw, r) \<leftarrow> aml_ipc_msg_push pl hw a;
                     hw \<leftarrow> free_a2e a hw;
                     Some (hw, r)
                   } else Some (hw, -1));
     if ret \<noteq> 0 then do {
       hw \<leftarrow> cmd_push_failed hw a;
       (case cmds (cmd_mgr hw) of
          [] \<Rightarrow> Some hw
        | cur # rest \<Rightarrow> do {
            cc \<leftarrow> heap hw cur;
            if rest \<noteq> [] \<and> flags cc AND AML_CMD_FLAG_WAIT_PUSH \<noteq> 0
            then next_cmd_loop fuel pl hw cur else Some hw
          })
     } else Some hw
   }"

definition cmd_mgr_next_cmd :: "plat \<Rightarrow> aml_hw \<Rightarrow> addr \<Rightarrow> aml_hw option" where
  "cmd_mgr_next_cmd pl hw a = next_cmd_loop (Suc (length (cmds (cmd_mgr hw)))) pl hw a"

text \<open>
  The scan of \<open>cmd_mgr_llind\<close>: the first entry with the acknowledged token, and the first
  entry waiting for its push; an entry waiting for its push in front of the acknowledged one
  ends the scan.
\<close>

fun llind_scan :: "(addr \<Rightarrow> aml_cmd option) \<Rightarrow> u32 \<Rightarrow> addr option \<Rightarrow> addr list
    \<Rightarrow> (addr option \<times> addr option) option" where
  "llind_scan h t acked [] = Some (acked, None)"
| "llind_scan h t acked (a # as) = do {
     c \<leftarrow> h a;
     if acked = None \<and> tkn c = t then llind_scan h t (Some a) as
     else if flags c AND AML_CMD_FLAG_WAIT_PUSH \<noteq> 0 then Some (acked, Some a)
     else llind_scan h t acked as
   }"

definition kick_next :: "plat \<Rightarrow> aml_hw \<Rightarrow> addr \<Rightarrow> aml_hw option" where
  "kick_next pl hw nxt =
     (if aml_bus_type pl \<noteq> PCIE_MODE then Some (up hw) else cmd_mgr_next_cmd pl hw nxt)"

definition cmd_mgr_llind :: "plat \<Rightarrow> aml_hw \<Rightarrow> addr \<Rightarrow> aml_hw option" where
  "cmd_mgr_llind pl hw a = do {
     c \<leftarrow> heap hw a;
     (acked, nxt) \<leftarrow> llind_scan (heap hw) (tkn c) None (cmds (cmd_mgr hw));
     (hw, defer_push) \<leftarrow>
       (if acked = None then Some (hw, True)
        else do {
          hw \<leftarrow> clear_flags AML_CMD_FLAG_WAIT_ACK a hw;
          c \<leftarrow> heap hw a;
          if AML_CMD_WAIT_COMPLETE (flags c) then do {
            hw \<leftarrow> cmd_complete hw a;
            Some (hw, False)
          } else Some (hw, True)
        });
     (case nxt of
        Some n \<Rightarrow> if \<not> defer_push then kick_next pl hw n else Some hw
      | None \<Rightarrow> Some hw)
   }"

text \<open>\<open>aml_msgackind\<close>: what the IPC slot's acknowledgement handler calls with the pointer it
  stored; the command is dereferenced before the list is looked at.\<close>

definition aml_msgackind :: "plat \<Rightarrow> aml_hw \<Rightarrow> addr \<Rightarrow> (aml_hw \<times> bool) option" where
  "aml_msgackind pl hw a =
     (if state (cmd_mgr hw) = AML_CMD_MGR_STATE_DEINIT then Some (hw, False)
      else do {
        _ \<leftarrow> heap hw a;
        hw \<leftarrow> cmd_mgr_llind pl hw a;
        Some (hw, True)
      })"

text \<open>A copy of \<open>n\<close> bytes into a caller's buffer: \<open>None\<close> when either side is shorter.\<close>

definition copy_into :: "u8 list \<Rightarrow> u8 list \<Rightarrow> nat \<Rightarrow> u8 list option" where
  "copy_into buf src n =
     (if n \<le> length src \<and> n \<le> length buf then Some (take n src @ drop n buf) else None)"

text \<open>
  \<open>cmd_mgr_msgind\<close>: a message from the firmware. The first queued command that waits for this
  confirmation and whose callback (if any) returns 0 consumes it. The results are the new
  state, whether a command was found (if not the callback runs once more without a command),
  and whether the channel-switch notification follows.
\<close>

definition cmd_mgr_run_callback ::
    "(addr option \<Rightarrow> ipc_e2a_msg \<Rightarrow> int) option \<Rightarrow> addr option \<Rightarrow> ipc_e2a_msg \<Rightarrow> int" where
  "cmd_mgr_run_callback cb c msg = (case cb of None \<Rightarrow> 0 | Some f \<Rightarrow> f c msg)"

fun msgind_scan :: "(addr \<Rightarrow> aml_cmd option) \<Rightarrow> (addr option \<Rightarrow> ipc_e2a_msg \<Rightarrow> int) option
    \<Rightarrow> ipc_e2a_msg \<Rightarrow> addr list \<Rightarrow> addr list option" where
  "msgind_scan h cb msg [] = Some []"
| "msgind_scan h cb msg (a # as) = do {
     c \<leftarrow> h a;
     if reqid c = e2a_id msg \<and> flags c AND AML_CMD_FLAG_WAIT_CFM \<noteq> 0
        \<and> cmd_mgr_run_callback cb (Some a) msg = 0
     then Some (a # as) else msgind_scan h cb msg as
   }"

definition clamp_len :: "ipc_e2a_msg \<Rightarrow> ipc_e2a_msg" where
  "clamp_len msg = (if AML_CMD_E2AMSG_LEN_MAX < e2a_param_len msg
     then msg\<lparr>e2a_param_len := AML_CMD_E2AMSG_LEN_MAX\<rparr> else msg)"

definition store_cfm :: "ipc_e2a_msg \<Rightarrow> addr \<Rightarrow> aml_hw \<Rightarrow> aml_hw option" where
  "store_cfm msg a hw = do {
     c \<leftarrow> heap hw a;
     (case e2a_msg c of
        None \<Rightarrow> Some hw
      | Some buf \<Rightarrow>
          if e2a_param_len msg = 0 then Some hw
          else do {
            buf \<leftarrow> copy_into buf (e2a_param msg) (unat (e2a_param_len msg));
            upd_cmd a (\<lambda>c. c\<lparr>e2a_msg := Some buf\<rparr>) hw
          })
   }"

definition cmd_mgr_msgind :: "plat \<Rightarrow> (addr option \<Rightarrow> ipc_e2a_msg \<Rightarrow> int) option \<Rightarrow> aml_hw
    \<Rightarrow> ipc_e2a_msg \<Rightarrow> (aml_hw \<times> bool \<times> bool) option" where
  "cmd_mgr_msgind pl cb hw msg = do {
     hit \<leftarrow> msgind_scan (heap hw) cb msg (cmds (cmd_mgr hw));
     (case hit of
        [] \<Rightarrow> Some (hw, False, e2a_id msg = MM_CSA_FINISH_IND)
      | a # rest \<Rightarrow> do {
          hw \<leftarrow> clear_flags AML_CMD_FLAG_WAIT_CFM a hw;
          hw \<leftarrow> store_cfm (clamp_len msg) a hw;
          c \<leftarrow> heap hw a;
          hw \<leftarrow> (if AML_CMD_WAIT_COMPLETE (flags c) then do {
                   hw \<leftarrow> cmd_complete hw a;
                   (case rest of
                      [] \<Rightarrow> Some hw
                    | n # _ \<Rightarrow> do {
                        cn \<leftarrow> heap hw n;
                        if flags cn AND AML_CMD_FLAG_WAIT_PUSH \<noteq> 0 then kick_next pl hw n
                        else Some hw
                      })
                 } else Some hw);
          Some (hw, True, e2a_id msg = MM_CSA_FINISH_IND)
        })
   }"

text \<open>
  \<open>cmd_mgr_drain\<close>: every command is unlinked; one with a waiter gets its \<open>complete()\<close>, and
  its wait flags are cleared afterwards.
\<close>

definition drain_one :: "addr \<Rightarrow> aml_hw \<Rightarrow> aml_hw option" where
  "drain_one a hw = do {
     hw \<leftarrow> cmd_list_del a hw;
     let hw = upd_mgr (\<lambda>m. m\<lparr>queue_sz := queue_sz m - 1\<rparr>) hw;
     c \<leftarrow> heap hw a;
     hw \<leftarrow> (if flags c AND AML_CMD_FLAG_WAIT_PUSH \<noteq> 0 then do {
              hw \<leftarrow> free_a2e a hw;
              clear_flags AML_CMD_FLAG_WAIT_PUSH a hw
            } else Some hw);
     c \<leftarrow> heap hw a;
     if flags c AND AML_CMD_FLAG_NONBLOCK \<noteq> 0 then kfree_cmd a hw
     else do {
       hw \<leftarrow> upd_cmd a (\<lambda>c. c\<lparr>complete := complete c + 1\<rparr>) hw;
       clear_flags (AML_CMD_FLAG_WAIT_ACK OR AML_CMD_FLAG_WAIT_CFM) a hw
     }
   }"

fun drain_all :: "addr list \<Rightarrow> aml_hw \<Rightarrow> aml_hw option" where
  "drain_all [] hw = Some hw"
| "drain_all (a # as) hw = Option.bind (drain_one a hw) (drain_all as)"

definition cmd_mgr_drain :: "aml_hw \<Rightarrow> aml_hw option" where
  "cmd_mgr_drain hw = drain_all (cmds (cmd_mgr hw)) hw"

text \<open>\<open>aml_cmd_mgr_init\<close> leaves \<open>next_tkn\<close> and \<open>queue_sz\<close> as they are (the containing object is
  zeroed at allocation and by \<open>aml_cmd_mgr_deinit\<close>).\<close>

definition aml_cmd_mgr_init :: "aml_hw \<Rightarrow> aml_hw" where
  "aml_cmd_mgr_init = upd_mgr (\<lambda>m. m\<lparr>cmds := [], state := AML_CMD_MGR_STATE_INITED,
     max_queue_sz := AML_CMD_MAX_QUEUED\<rparr>)"

definition aml_cmd_mgr_deinit :: "aml_hw \<Rightarrow> aml_hw option" where
  "aml_cmd_mgr_deinit hw = do {
     let hw = upd_mgr (\<lambda>m. m\<lparr>state := AML_CMD_MGR_STATE_DEINIT\<rparr>) hw;
     hw \<leftarrow> cmd_mgr_drain hw;
     Some (upd_mgr (\<lambda>m. \<lparr>state = AML_CMD_MGR_STATE_DEINIT, next_tkn = 0, queue_sz = 0,
       max_queue_sz = 0, cmds = []\<rparr>) hw)
   }"

section \<open>Operations that drop the lock\<close>

text \<open>
  One iteration of \<open>aml_msg_task\<close> after its semaphore was taken. Interference points: 0 between
  finding the command and clearing its flag, 1 and 2 before the push, 3 after it.
\<close>

type_synonym interference = "nat \<Rightarrow> aml_hw \<Rightarrow> aml_hw option"

fun find_wait_push :: "(addr \<Rightarrow> aml_cmd option) \<Rightarrow> addr list \<Rightarrow> addr option option" where
  "find_wait_push h [] = Some None"
| "find_wait_push h (a # as) = do {
     c \<leftarrow> h a;
     if flags c AND AML_CMD_FLAG_WAIT_PUSH \<noteq> 0 then Some (Some a) else find_wait_push h as
   }"

text \<open>The lock region after an unlocked push with result \<open>ret\<close>.\<close>

definition task_finish :: "bool \<Rightarrow> int \<Rightarrow> addr \<Rightarrow> aml_hw \<Rightarrow> aml_hw option" where
  "task_finish pushed ret a hw = do {
     hw \<leftarrow> (if pushed then free_a2e a hw else Some hw);
     if ret \<noteq> 0 then do {
       hw \<leftarrow> cmd_push_failed hw a;
       Some (if 0 < queue_sz (cmd_mgr hw) then up hw else hw)
     } else Some hw
   }"

definition aml_msg_task :: "plat \<Rightarrow> interference \<Rightarrow> aml_hw \<Rightarrow> aml_hw option" where
  "aml_msg_task pl irq hw = do {
     found \<leftarrow> find_wait_push (heap hw) (cmds (cmd_mgr hw));
     (case found of
        None \<Rightarrow> Some hw
      | Some a \<Rightarrow> do {
          hw \<leftarrow> irq 0 hw;
          hw \<leftarrow> clear_flags AML_CMD_FLAG_WAIT_PUSH a hw;
          hw \<leftarrow> irq 1 hw;
          c \<leftarrow> heap hw a;
          if a2e_msg c \<noteq> None then do {
            hw \<leftarrow> irq 2 hw;
            (hw, ret) \<leftarrow> aml_ipc_msg_push pl hw a;
            hw \<leftarrow> irq 3 hw;
            task_finish True ret a hw
          } else task_finish False (-1) a hw
        })
   }"

text \<open>
  The three parts of \<open>cmd_mgr_queue\<close>. \<open>queue_enqueue\<close> is its first lock region: the early
  returns for a crashed manager and a full queue, the decision to defer the push, and the
  insertion. The result is \<open>Inl\<close> of the error returned or \<open>Inr (defer_push, cmd_flags)\<close>.
\<close>

definition refuse_cmd :: "int \<Rightarrow> addr \<Rightarrow> aml_hw \<Rightarrow> aml_hw option" where
  "refuse_cmd err a hw = do {
     hw \<leftarrow> upd_cmd a (\<lambda>c. c\<lparr>result := of_int (- err), a2e_msg := None\<rparr>) hw;
     c \<leftarrow> heap hw a;
     if flags c AND AML_CMD_FLAG_NONBLOCK \<noteq> 0 then kfree_cmd a hw else Some hw
   }"

definition mark_queued :: "bool \<Rightarrow> addr \<Rightarrow> aml_hw \<Rightarrow> aml_hw option" where
  "mark_queued defer a hw = do {
     hw \<leftarrow> (if defer then set_flags AML_CMD_FLAG_WAIT_PUSH a hw else Some hw);
     hw \<leftarrow> set_flags AML_CMD_FLAG_WAIT_ACK a hw;
     c \<leftarrow> heap hw a;
     hw \<leftarrow> (if flags c AND AML_CMD_FLAG_REQ_CFM \<noteq> 0
            then set_flags AML_CMD_FLAG_WAIT_CFM a hw else Some hw);
     hw \<leftarrow> upd_cmd a (\<lambda>c. c\<lparr>tkn := next_tkn (cmd_mgr hw), result := of_int (- EINTR)\<rparr>) hw;
     (if flags c AND AML_CMD_FLAG_NONBLOCK = 0
      then upd_cmd a (\<lambda>c. c\<lparr>complete := 0\<rparr>) hw else Some hw)
   }"

definition AML_CMD_FLAG_BUSY :: u16 where
  "AML_CMD_FLAG_BUSY = AML_CMD_FLAG_WAIT_ACK OR AML_CMD_FLAG_WAIT_PUSH OR AML_CMD_FLAG_WAIT_CFM"

definition queue_enqueue :: "addr \<Rightarrow> aml_hw \<Rightarrow> (aml_hw \<times> (int + bool \<times> u16)) option" where
  "queue_enqueue a hw =
     (if state (cmd_mgr hw) = AML_CMD_MGR_STATE_CRASHED then do {
        hw \<leftarrow> refuse_cmd EPIPE a hw;
        Some (hw, Inl (- EPIPE))
      }
      else if cmds (cmd_mgr hw) \<noteq> [] \<and> queue_sz (cmd_mgr hw) = max_queue_sz (cmd_mgr hw) then do {
        hw \<leftarrow> refuse_cmd ENOMEM a hw;
        Some (hw, Inl (- ENOMEM))
      }
      else do {
        defer \<leftarrow> (if cmds (cmd_mgr hw) = [] then Some False
                  else do {
                    l \<leftarrow> heap hw (last (cmds (cmd_mgr hw)));
                    Some (flags l AND AML_CMD_FLAG_BUSY \<noteq> 0)
                  });
        hw \<leftarrow> mark_queued defer a hw;
        let hw = upd_mgr (\<lambda>m. m\<lparr>next_tkn := next_tkn m + 1, cmds := cmds m @ [a],
                   queue_sz := queue_sz m + 1\<rparr>) hw;
        c \<leftarrow> heap hw a;
        Some (hw, Inr (defer, flags c))
      })"

text \<open>\<open>queue_start\<close>: the push of a command that is not deferred, either handed to the message
  task or done here with the lock released (interference points 0 to 2). \<open>Some ret\<close> is an
  early return.\<close>

definition queue_start :: "plat \<Rightarrow> interference \<Rightarrow> addr \<Rightarrow> aml_hw \<Rightarrow> (aml_hw \<times> int option) option" where
  "queue_start pl irq a hw = do {
     hw \<leftarrow> irq 0 hw;
     c \<leftarrow> heap hw a;
     if aml_bus_type pl \<noteq> PCIE_MODE \<and> flags c AND AML_CMD_FLAG_CALL_THREAD \<noteq> 0 then do {
       hw \<leftarrow> set_flags AML_CMD_FLAG_WAIT_PUSH a hw;
       Some (up hw, None)
     } else do {
       (hw, ret) \<leftarrow> (if a2e_msg c \<noteq> None then do {
                       hw \<leftarrow> irq 1 hw;
                       (hw, ret) \<leftarrow> aml_ipc_msg_push pl hw a;
                       hw \<leftarrow> irq 2 hw;
                       hw \<leftarrow> free_a2e a hw;
                       Some (hw, ret)
                     } else Some (hw, -1));
       if ret \<noteq> 0 then do {
         hw \<leftarrow> cmd_push_failed hw a;
         Some (hw, Some ret)
       } else Some (hw, None)
     }
   }"

text \<open>
  \<open>queue_wait\<close>: the wait for completion. The kernel's
  \<open>wait_for_completion_killable_timeout\<close> returns because of the completion, the timeout or a
  fatal signal (\<open>wait_result\<close>, chosen by the environment). After a signal the command is
  polled until it is done or the time budget \<open>tout\<close> is used up; interference point \<open>5 + k\<close> is
  the sleep of the \<open>k\<close>-th poll, 3 the wait, 4 the gap in the timeout branch.
\<close>

datatype wait_result = Wait_done | Wait_timeout | Wait_signal

function poll_done :: "interference \<Rightarrow> nat \<Rightarrow> addr \<Rightarrow> nat \<Rightarrow> aml_hw \<Rightarrow> (aml_hw \<times> nat) option" where
  "poll_done irq k a tout hw = do {
     c \<leftarrow> heap hw a;
     if flags c AND AML_CMD_FLAG_DONE \<noteq> 0 \<or> tout div 5 = 0 then Some (hw, tout)
     else do {
       hw \<leftarrow> irq (5 + k) hw;
       poll_done irq (Suc k) a (tout - 5) hw
     }
   }"
  by pat_completeness auto
termination
  by (relation "measure (\<lambda>(irq, k, a, tout, hw). tout)") auto

definition queue_wait :: "interference \<Rightarrow> wait_result \<Rightarrow> nat \<Rightarrow> addr \<Rightarrow> aml_hw
    \<Rightarrow> (aml_hw \<times> int) option" where
  "queue_wait irq w tout a hw = do {
     hw \<leftarrow> irq 3 hw;
     (hw, tout) \<leftarrow> (if w = Wait_signal then poll_done irq 0 a tout hw else Some (hw, tout));
     if w = Wait_timeout \<or> tout div 5 = 0 then
       if cmds (cmd_mgr hw) = [] then Some (hw, 0)
       else do {
         hw \<leftarrow> irq 4 hw;
         c \<leftarrow> heap hw a;
         let hw = upd_mgr (\<lambda>m. m\<lparr>state := AML_CMD_MGR_STATE_CRASHED\<rparr>) hw;
         if flags c AND AML_CMD_FLAG_DONE = 0 then do {
           hw \<leftarrow> upd_cmd a (\<lambda>c. c\<lparr>result := of_int (- ETIMEDOUT)\<rparr>) hw;
           hw \<leftarrow> cmd_complete hw a;
           Some (hw, 0)
         } else Some (hw, 0)
       }
     else Some (hw, 0)
   }"

text \<open>The time budget, computed before the lock is taken; \<open>jif\<close> is \<open>msecs_to_jiffies\<close>, which
  depends on the kernel's tick rate.\<close>

definition queue_tout :: "(nat \<Rightarrow> nat) \<Rightarrow> aml_hw \<Rightarrow> nat" where
  "queue_tout jif hw =
     (if 2 < queue_sz (cmd_mgr hw) + 1 then jif (6000 * 2)
      else jif (6000 * unat (queue_sz (cmd_mgr hw) + 1)))"

definition cmd_mgr_queue :: "plat \<Rightarrow> (nat \<Rightarrow> nat) \<Rightarrow> interference \<Rightarrow> wait_result \<Rightarrow> addr \<Rightarrow> aml_hw
    \<Rightarrow> (aml_hw \<times> int) option" where
  "cmd_mgr_queue pl jif irq w a hw = do {
     let tout = queue_tout jif hw;
     _ \<leftarrow> heap hw a;
     (hw, r) \<leftarrow> queue_enqueue a hw;
     (case r of
        Inl err \<Rightarrow> Some (hw, err)
      | Inr (defer, fl) \<Rightarrow> do {
          (hw, early) \<leftarrow> (if defer then Some (hw, None) else queue_start pl irq a hw);
          (case early of
             Some ret \<Rightarrow> Some (hw, ret)
           | None \<Rightarrow> if fl AND AML_CMD_FLAG_NONBLOCK = 0 then queue_wait irq w tout a hw
                     else Some (hw, 0))
        })
   }"

section \<open>Serialization\<close>

text \<open>
  On SDIO and USB one command at a time is in flight. \<open>serial h q slot sem\<close> is the state
  between events: \<open>h\<close> the live commands, \<open>q\<close> the list, \<open>slot\<close> the command the IPC slot holds,
  \<open>sem\<close> the count of the message task's semaphore. Every live command is queued and not
  completed, or it has left the queue, is completed exactly once and has a waiter that will
  release it. Behind the head all wait for their push. The head waits for its push (then the
  semaphore is up), for its acknowledgement (then the slot holds it) or for its confirmation.
\<close>

definition fl :: "(addr \<Rightarrow> aml_cmd option) \<Rightarrow> addr \<Rightarrow> u16" where
  "fl h a = (case h a of None \<Rightarrow> 0 | Some c \<Rightarrow> flags c)"

lemma fl_Some [simp]: "h a = Some c \<Longrightarrow> fl h a = flags c"
  by (simp add: fl_def)

lemma fl_upd [simp]: "fl (h(a := x)) b = (if b = a then case x of None \<Rightarrow> 0 | Some c \<Rightarrow> flags c else fl h b)"
  by (simp add: fl_def)

definition queued_ok :: "aml_cmd \<Rightarrow> bool" where
  "queued_ok c \<longleftrightarrow> \<not> bit (flags c) 5 \<and> complete c = 0
     \<and> (bit (flags c) 2 \<longrightarrow> (\<exists>m. a2e_msg c = Some m \<and> msg_fits m))"

definition finished :: "aml_cmd \<Rightarrow> bool" where
  "finished c \<longleftrightarrow> bit (flags c) 5 \<and> complete c = 1 \<and> \<not> bit (flags c) 0"

definition head_ok :: "u16 \<Rightarrow> addr \<Rightarrow> addr option \<Rightarrow> nat \<Rightarrow> bool" where
  "head_ok f a slot sem \<longleftrightarrow>
     (if bit f 2 then bit f 3 \<and> slot = None \<and> sem = 1
      else if bit f 3 then slot = Some a \<and> sem = 0
      else bit f 4 \<and> slot = None \<and> sem = 0)"

definition serial :: "(addr \<Rightarrow> aml_cmd option) \<Rightarrow> addr list \<Rightarrow> addr option \<Rightarrow> nat \<Rightarrow> bool" where
  "serial h q slot sem \<longleftrightarrow>
     distinct q
     \<and> (\<forall>a\<in>set q. \<exists>c. h a = Some c \<and> queued_ok c)
     \<and> (\<forall>a c. h a = Some c \<longrightarrow> a \<notin> set q \<longrightarrow> finished c)
     \<and> (\<forall>a\<in>set (tl q). bit (fl h a) 2 \<and> bit (fl h a) 3)
     \<and> (case q of [] \<Rightarrow> slot = None \<and> sem = 0 | a # _ \<Rightarrow> head_ok (fl h a) a slot sem)"

lemma serial_Nil_iff: "serial h [] slot sem \<longleftrightarrow>
    (\<forall>a c. h a = Some c \<longrightarrow> finished c) \<and> slot = None \<and> sem = 0"
  by (auto simp: serial_def)

lemma serial_head: "serial h (a # q) slot sem \<Longrightarrow>
    \<exists>c. h a = Some c \<and> queued_ok c \<and> head_ok (flags c) a slot sem"
  by (auto simp: serial_def)


lemma serial_second: "serial h (a # b # q) slot sem \<Longrightarrow>
    \<exists>c. h b = Some c \<and> bit (flags c) 2 \<and> bit (flags c) 3 \<and> a \<noteq> b"
  by (auto simp: serial_def)

lemma serial_pop:
  assumes s: "serial h (a # q) slot sem" and h': "h' = h(a := x)" and x: "\<forall>c. x = Some c \<longrightarrow> finished c"
  shows "serial h' q None (if q = [] then 0 else 1)"
proof (cases q)
  case Nil
  with s x show ?thesis
    unfolding h' by (auto simp: serial_def split: if_splits)
next
  case (Cons b r)
  with s have "b \<noteq> a" "a \<notin> set r" "bit (fl h b) 2" "bit (fl h b) 3"
    by (auto simp: serial_def)
  with s x Cons show ?thesis
    unfolding h' serial_def
    by (auto simp: head_ok_def split: if_splits)
qed

lemma serial_head_upd:
  assumes s: "serial h (a # q) slot sem" and "queued_ok c'" and "head_ok (flags c') a slot' sem'"
  shows "serial (h(a \<mapsto> c')) (a # q) slot' sem'"
  using assms unfolding serial_def by auto





definition mgr_ok :: "aml_hw \<Rightarrow> bool" where
  "mgr_ok hw \<longleftrightarrow> state (cmd_mgr hw) = AML_CMD_MGR_STATE_INITED
     \<and> max_queue_sz (cmd_mgr hw) = AML_CMD_MAX_QUEUED
     \<and> unat (queue_sz (cmd_mgr hw)) = length (cmds (cmd_mgr hw))
     \<and> length (cmds (cmd_mgr hw)) \<le> 8
     \<and> slot_ok (ipc_env hw)"

definition serial_inv :: "aml_hw \<Rightarrow> bool" where
  "serial_inv hw \<longleftrightarrow> mgr_ok hw
     \<and> serial (heap hw) (cmds (cmd_mgr hw)) (msga2e_hostid (ipc_env hw)) (aml_msg_sem hw)"

text \<open>What \<open>cmd_complete\<close> leaves behind for a command that waits for nothing any more.\<close>

definition after_complete :: "aml_hw \<Rightarrow> addr \<Rightarrow> aml_hw \<Rightarrow> bool" where
  "after_complete hw a hw' \<longleftrightarrow>
     cmd_mgr hw' = (cmd_mgr hw)\<lparr>cmds := remove1 a (cmds (cmd_mgr hw)), queue_sz := queue_sz (cmd_mgr hw) - 1\<rparr>
     \<and> ipc_env hw' = ipc_env hw \<and> aml_msg_sem hw' = aml_msg_sem hw
     \<and> (\<exists>x. heap hw' = (heap hw)(a := x) \<and> (\<forall>c. x = Some c \<longrightarrow> finished c)
         \<and> (x = None \<longleftrightarrow> bit (fl (heap hw) a) 0))"

lemma cmd_complete_ok:
  assumes "heap hw a = Some c" and "complete c = 0" and "\<not> bit (flags c) 3" and "\<not> bit (flags c) 4"
    and "a \<in> set (cmds (cmd_mgr hw))"
  shows "\<exists>hw'. cmd_complete hw a = Some hw' \<and> after_complete hw a hw'"
  using assms
  by (auto simp: cmd_complete_def cmd_list_del_def upd_cmd_def kfree_cmd_def after_complete_def
      Let_def finished_def bit_or_iff)

lemma clear_flags_Some:
  "heap hw a = Some c \<Longrightarrow>
     clear_flags m a hw = Some (hw\<lparr>heap := (heap hw)(a \<mapsto> c\<lparr>flags := flags c AND NOT m\<rparr>)\<rparr>)"
  by (simp add: clear_flags_def upd_cmd_def)

lemma set_flags_Some:
  "heap hw a = Some c \<Longrightarrow>
     set_flags m a hw = Some (hw\<lparr>heap := (heap hw)(a \<mapsto> c\<lparr>flags := flags c OR m\<rparr>)\<rparr>)"
  by (simp add: set_flags_def upd_cmd_def)

lemma free_a2e_Some:
  "heap hw a = Some c \<Longrightarrow> free_a2e a hw = Some (hw\<lparr>heap := (heap hw)(a \<mapsto> c\<lparr>a2e_msg := None\<rparr>)\<rparr>)"
  by (simp add: free_a2e_def upd_cmd_def)

lemmas cmd_step_simps = clear_flags_Some set_flags_Some free_a2e_Some

lemma unat_minus_1: "unat (w :: u32) = Suc n \<Longrightarrow> unat (w - 1) = n"
  by (metis diff_Suc_1 unat_minus_one nat.distinct(1) unat_0)

text \<open>Completing the head: the rest of the queue is serial, its semaphore still to be raised.\<close>

lemma complete_head:
  assumes "mgr_ok hw" and "cmds (cmd_mgr hw) = a # q" and "serial h (a # q) slot sem"
    and "heap hw = h(a := y)" and "after_complete hw a hw'"
  shows "mgr_ok hw' \<and> cmds (cmd_mgr hw') = q \<and> ipc_env hw' = ipc_env hw
     \<and> aml_msg_sem hw' = aml_msg_sem hw \<and> serial (heap hw') q None (if q = [] then 0 else 1)"
proof -
  obtain x where x: "heap hw' = h(a := x)" "\<forall>c. x = Some c \<longrightarrow> finished c"
    using assms by (auto simp: after_complete_def)
  have "unat (queue_sz (cmd_mgr hw) - 1) = length q"
    using assms by (intro unat_minus_1) (simp add: mgr_ok_def)
  then show ?thesis
    using assms x serial_pop [OF assms(3) refl x(2)]
    by (auto simp: after_complete_def mgr_ok_def)
qed

lemma serial_scan:
  assumes "serial h (a # q) slot sem" and "h a = Some c"
  shows "llind_scan h (tkn c) None (a # q) = Some (Some a, case q of [] \<Rightarrow> None | b # _ \<Rightarrow> Some b)"
  using assms by (cases q) (auto dest: serial_second)

lemma up_simps [simp]: "cmd_mgr (up hw) = cmd_mgr hw" "heap (up hw) = heap hw"
  "ipc_env (up hw) = ipc_env hw" "aml_msg_sem (up hw) = Suc (aml_msg_sem hw)" "mgr_ok (up hw) = mgr_ok hw"
  by (simp_all add: up_def mgr_ok_def)

lemma mgr_ok_heap [simp]: "mgr_ok (hw\<lparr>heap := h\<rparr>) = mgr_ok hw"
  by (simp add: mgr_ok_def)

text \<open>The acknowledgement interrupt: slot handler, then the command manager.\<close>

definition ack_step :: "plat \<Rightarrow> aml_hw \<Rightarrow> aml_hw option" where
  "ack_step pl hw =
     (case ipc_host_msgack_handler (ipc_env hw) of
        (env, None) \<Rightarrow> Some (hw\<lparr>ipc_env := env\<rparr>)
      | (env, Some a) \<Rightarrow> map_option fst (aml_msgackind pl (hw\<lparr>ipc_env := env\<rparr>) a))"

lemma head_in_flight: "head_ok f a (Some b) sem \<Longrightarrow> \<not> bit f 2 \<and> bit f 3 \<and> b = a \<and> sem = 0"
  by (cases "bit f 2"; cases "bit f 3") (simp_all add: head_ok_def)

lemma queued_okD: "queued_ok c \<Longrightarrow> complete c = 0 \<and> \<not> bit (flags c) 5"
  by (simp only: queued_ok_def simp_thms)



text \<open>A confirmation that respects the buffers of the commands it may match (the firmware's side
  of the contract: a confirmation is as long as the structure the caller asked for).\<close>

definition cfm_fits :: "(addr \<Rightarrow> aml_cmd option) \<Rightarrow> addr list \<Rightarrow> ipc_e2a_msg \<Rightarrow> bool" where
  "cfm_fits h q msg \<longleftrightarrow> list_all (\<lambda>a. case h a of None \<Rightarrow> True | Some c \<Rightarrow>
     (reqid c = e2a_id msg \<longrightarrow> (case e2a_msg c of None \<Rightarrow> True | Some buf \<Rightarrow>
        unat (e2a_param_len (clamp_len msg)) \<le> min (length buf) (length (e2a_param msg))))) q"






lemma push_failed_ok:
  assumes "heap hw a = Some c" and "complete c = 0" and "a \<in> set (cmds (cmd_mgr hw))"
  shows "\<exists>hw'. cmd_push_failed hw a = Some hw' \<and>
     (\<exists>c'. flags c' = flags c AND NOT (AML_CMD_FLAG_WAIT_ACK OR AML_CMD_FLAG_WAIT_CFM)
        \<and> after_complete (hw\<lparr>heap := (heap hw)(a \<mapsto> c')\<rparr>) a hw')"
proof -
  let ?c = "c\<lparr>flags := flags c AND NOT (AML_CMD_FLAG_WAIT_ACK OR AML_CMD_FLAG_WAIT_CFM)\<rparr>"
  let ?hw = "hw\<lparr>heap := (heap hw)(a \<mapsto> ?c)\<rparr>"
  obtain hw' where "cmd_complete ?hw a = Some hw'" "after_complete ?hw a hw'"
    using cmd_complete_ok [of ?hw a ?c] assms by (auto simp: bit_and_iff bit_or_iff)
  then show ?thesis
    using assms(1)
    by (intro exI [of _ hw'] conjI exI [of _ ?c])
       (simp_all add: cmd_push_failed_def clear_flags_Some del: bit.de_Morgan_disj)
qed

lemma mgr_ok_env': "mgr_ok hw \<Longrightarrow> slot_ok env \<Longrightarrow> mgr_ok (hw\<lparr>ipc_env := env\<rparr>)"
  by (simp add: mgr_ok_def)

abbreviation no_irq :: interference where
  "no_irq \<equiv> \<lambda>_ hw. Some hw"

text \<open>A wake-up of the message task: the semaphore is taken first.\<close>

definition task_step :: "plat \<Rightarrow> aml_hw \<Rightarrow> aml_hw option" where
  "task_step pl hw = (case aml_msg_sem hw of 0 \<Rightarrow> Some hw
     | Suc n \<Rightarrow> aml_msg_task pl no_irq (hw\<lparr>aml_msg_sem := n\<rparr>))"


text \<open>
  A caller of \<open>cmd_mgr_queue\<close> up to its wait (\<open>aml_send_msg\<close>): the command is allocated; when
  queueing fails the caller frees a blocking command at once.
\<close>

definition new_cmd_ok :: "aml_cmd \<Rightarrow> bool" where
  "new_cmd_ok c \<longleftrightarrow> \<not> bit (flags c) 2 \<and> \<not> bit (flags c) 3 \<and> \<not> bit (flags c) 4 \<and> \<not> bit (flags c) 5
     \<and> complete c = 0 \<and> (case a2e_msg c of None \<Rightarrow> False | Some m \<Rightarrow> msg_fits m)"

definition drop_refused :: "aml_cmd \<Rightarrow> addr \<Rightarrow> aml_hw \<Rightarrow> aml_hw option" where
  "drop_refused c a hw = (if flags c AND AML_CMD_FLAG_NONBLOCK \<noteq> 0 then Some hw else kfree_cmd a hw)"

definition send_step :: "plat \<Rightarrow> addr \<Rightarrow> aml_cmd \<Rightarrow> aml_hw \<Rightarrow> aml_hw option" where
  "send_step pl a c hw = do {
     (hw, r) \<leftarrow> queue_enqueue a (hw\<lparr>heap := (heap hw)(a \<mapsto> c)\<rparr>);
     (case r of
        Inl err \<Rightarrow> drop_refused c a hw
      | Inr (defer, _) \<Rightarrow>
          if defer then Some hw
          else do {
            (hw, early) \<leftarrow> queue_start pl no_irq a hw;
            (case early of None \<Rightarrow> Some hw | Some _ \<Rightarrow> drop_refused c a hw)
          })
   }"

definition enqueued :: "bool \<Rightarrow> aml_cmd \<Rightarrow> aml_cmd \<Rightarrow> bool" where
  "enqueued defer c c' \<longleftrightarrow> a2e_msg c' = a2e_msg c \<and> complete c' = 0
     \<and> bit (flags c') 3 \<and> (bit (flags c') 2 \<longleftrightarrow> defer) \<and> \<not> bit (flags c') 5
     \<and> (bit (flags c') 4 \<longleftrightarrow> bit (flags c) 1)
     \<and> (bit (flags c') 0 \<longleftrightarrow> bit (flags c) 0) \<and> (bit (flags c') 6 \<longleftrightarrow> bit (flags c) 6)"

lemma mark_queued_ok:
  assumes "heap hw a = Some c" and "new_cmd_ok c"
  shows "\<exists>c'. mark_queued d a hw = Some (hw\<lparr>heap := (heap hw)(a \<mapsto> c')\<rparr>) \<and> enqueued d c c'"
  using assms
  by (cases d; cases "bit (flags c) 1"; cases "bit (flags c) 0")
     (simp_all add: mark_queued_def set_flags_Some upd_cmd_def bit_or_iff;
      (rule exI, rule conjI, rule refl, simp add: enqueued_def new_cmd_ok_def bit_or_iff))+

lemma enqueue_ok:
  assumes ok: "mgr_ok hw" and room: "length (cmds (cmd_mgr hw)) < 8"
    and c: "heap hw a = Some c" "new_cmd_ok c"
    and df: "if cmds (cmd_mgr hw) = [] then \<not> d
        else \<exists>l. heap hw (last (cmds (cmd_mgr hw))) = Some l \<and> (flags l AND AML_CMD_FLAG_BUSY \<noteq> 0 \<longleftrightarrow> d)"
  shows "\<exists>hw' c' f. queue_enqueue a hw = Some (hw', Inr (d, f)) \<and> mgr_ok hw'
     \<and> cmds (cmd_mgr hw') = cmds (cmd_mgr hw) @ [a] \<and> heap hw' = (heap hw)(a \<mapsto> c')
     \<and> ipc_env hw' = ipc_env hw \<and> aml_msg_sem hw' = aml_msg_sem hw \<and> enqueued d c c'"
proof -
  have sz: "queue_sz (cmd_mgr hw) \<noteq> max_queue_sz (cmd_mgr hw)"
    using ok room by (auto simp: mgr_ok_def AML_CMD_MAX_QUEUED_def)
  have inc: "unat (queue_sz (cmd_mgr hw) + 1) = Suc (length (cmds (cmd_mgr hw)))"
    using ok room by (simp add: mgr_ok_def unat_word_ariths)
  obtain c' where mq: "mark_queued d a hw = Some (hw\<lparr>heap := (heap hw)(a \<mapsto> c')\<rparr>)" "enqueued d c c'"
    using mark_queued_ok [OF c] by blast
  have st: "state (cmd_mgr hw) \<noteq> AML_CMD_MGR_STATE_CRASHED"
    using ok by (simp add: mgr_ok_def)
  have "(if cmds (cmd_mgr hw) = [] then Some False else do {
           l \<leftarrow> heap hw (last (cmds (cmd_mgr hw)));
           Some (flags l AND AML_CMD_FLAG_BUSY \<noteq> 0)}) = Some d"
    using df by (auto split: if_splits)
  then show ?thesis
    using ok room sz st inc mq
    by (auto simp: queue_enqueue_def Let_def mgr_ok_def)
qed







section \<open>The command manager as a state machine\<close>

datatype cmd_event =
    Send plat addr aml_cmd
  | Ack plat
  | Cfm plat "(addr option \<Rightarrow> ipc_e2a_msg \<Rightarrow> int) option" ipc_e2a_msg
  | Task plat
  | Release addr

text \<open>
  An event that cannot occur in a state leaves it unchanged: sending reuses no live command
  and comes with a message of the driver that fits the slot, a confirmation fits the buffers
  of the commands it may match, and a waiter releases its command only after \<open>complete()\<close>.
\<close>

fun cmd_step :: "cmd_event \<Rightarrow> aml_hw \<Rightarrow> aml_hw option" where
  "cmd_step (Send pl a c) hw =
     (if heap hw a = None \<and> new_cmd_ok c then send_step pl a c hw else Some hw)"
| "cmd_step (Ack pl) hw = (if aml_bus_type pl \<noteq> PCIE_MODE then ack_step pl hw else Some hw)"
| "cmd_step (Cfm pl cb msg) hw =
     (if aml_bus_type pl \<noteq> PCIE_MODE \<and> cfm_fits (heap hw) (cmds (cmd_mgr hw)) msg
      then map_option fst (cmd_mgr_msgind pl cb hw msg) else Some hw)"
| "cmd_step (Task pl) hw = task_step pl hw"
| "cmd_step (Release a) hw =
     (case heap hw a of
        None \<Rightarrow> Some hw
      | Some c \<Rightarrow> if complete c \<noteq> 0 then kfree_cmd a hw else Some hw)"




text \<open>The manager of a device that was just probed on SDIO or USB.\<close>

definition cmds_boot :: "ipc_host_env \<Rightarrow> aml_hw" where
  "cmds_boot env = aml_cmd_mgr_init
     \<lparr>cmd_mgr = \<lparr>state = AML_CMD_MGR_STATE_DEINIT, next_tkn = 0, queue_sz = 0, max_queue_sz = 0, cmds = []\<rparr>,
      heap = (\<lambda>_. None), ipc_env = ipc_host_init USB_MODE zero_shared_env False False env,
      aml_msg_sem = 0, dev_started = False\<rparr>"

lemma cmds_boot_inv: "serial_inv (cmds_boot env)"
  by (simp add: cmds_boot_def aml_cmd_mgr_init_def serial_inv_def mgr_ok_def serial_Nil_iff
      slot_ok_def ipc_host_init_def zero_shared_env_def)


definition plat_usb :: plat where
  "plat_usb = plat_pcie\<lparr>aml_bus_type := USB_MODE\<rparr>"

definition small_msg :: lmac_msg where
  "small_msg = \<lparr>msg_id = 4, msg_dest_id = 0, msg_src_id = 100, msg_param_len = 0, msg_param = []\<rparr>"

definition small_cmd :: "u16 \<Rightarrow> aml_cmd" where
  "small_cmd f = \<lparr>cmd_id = 4, reqid = 5, a2e_msg = Some small_msg, e2a_msg = None, tkn = 0,
     flags = f, complete = 0, result = 0\<rparr>"


section \<open>Error paths\<close>

text \<open>A crashed manager takes no command: the call returns \<open>-EPIPE\<close> without
  touching the queue, the command's result is \<open>-EPIPE\<close>, its message is freed, and a
  non-blocking command, which has no waiter, is freed itself.\<close>

theorem crashed_rejects:
  assumes "state (cmd_mgr hw) = AML_CMD_MGR_STATE_CRASHED" and "heap hw a = Some c"
  shows "cmd_mgr_queue pl jif irq w a hw =
     Some (hw\<lparr>heap := (heap hw)(a := if bit (flags c) 0 then None
             else Some (c\<lparr>result := of_int (- EPIPE), a2e_msg := None\<rparr>))\<rparr>, - EPIPE)"
  using assms
  by (simp add: cmd_mgr_queue_def queue_enqueue_def refuse_cmd_def upd_cmd_def kfree_cmd_def)

theorem crashed_rejects_witness:
  "map_option snd (cmd_mgr_queue plat_usb id no_irq Wait_done 1
     ((upd_mgr (\<lambda>m. m\<lparr>state := AML_CMD_MGR_STATE_CRASHED\<rparr>) (cmds_boot ipc_env0))
        \<lparr>heap := (\<lambda>_. None)(1 \<mapsto> small_cmd 0)\<rparr>)) = Some (-32)"
  by (subst crashed_rejects [where c = "small_cmd 0"]) (simp_all add: EPIPE_def)

text \<open>What draining does to one command.\<close>

definition drained :: "aml_cmd \<Rightarrow> aml_cmd option" where
  "drained c = (if bit (flags c) 0 then None
     else Some (c\<lparr>a2e_msg := (if bit (flags c) 2 then None else a2e_msg c),
       complete := complete c + 1, flags := flags c AND NOT AML_CMD_FLAG_BUSY\<rparr>))"

lemma clear_busy_bits: "f AND NOT (AML_CMD_FLAG_WAIT_ACK OR AML_CMD_FLAG_WAIT_CFM) = f AND NOT AML_CMD_FLAG_BUSY"
  if "\<not> bit f 2" for f :: u16
  using that by (intro bit_word_eqI) (auto simp: bit_and_iff bit_or_iff AML_CMD_FLAG_BUSY_def)

lemma clear_push_busy: "(f AND NOT AML_CMD_FLAG_WAIT_PUSH) AND NOT (AML_CMD_FLAG_WAIT_ACK OR AML_CMD_FLAG_WAIT_CFM)
    = f AND NOT AML_CMD_FLAG_BUSY" for f :: u16
  by (intro bit_word_eqI) (auto simp: bit_and_iff bit_or_iff AML_CMD_FLAG_BUSY_def)

lemma drain_one_ok:
  assumes "heap hw a = Some c" and "cmds (cmd_mgr hw) = a # q"
  shows "drain_one a hw = Some ((upd_mgr (\<lambda>m. m\<lparr>cmds := q, queue_sz := queue_sz m - 1\<rparr>) hw)
     \<lparr>heap := (heap hw)(a := drained c)\<rparr>)"
proof (cases "bit (flags c) 2")
  case True
  with assms show ?thesis
    by (cases "bit (flags c) 0")
       (simp_all add: drain_one_def cmd_list_del_def Let_def cmd_step_simps kfree_cmd_def upd_cmd_def
          drained_def bit_and_iff clear_push_busy del: bit.de_Morgan_disj)
next
  case False
  with assms show ?thesis
    by (cases "bit (flags c) 0")
       (simp_all add: drain_one_def cmd_list_del_def Let_def cmd_step_simps kfree_cmd_def upd_cmd_def
          drained_def bit_and_iff clear_busy_bits del: bit.de_Morgan_disj)
qed


lemma drain_all_ok:
  assumes "distinct q" and "\<forall>a\<in>set q. heap hw a \<noteq> None" and "cmds (cmd_mgr hw) = q"
  shows "\<exists>hw'. drain_all q hw = Some hw' \<and> cmds (cmd_mgr hw') = []
     \<and> queue_sz (cmd_mgr hw') = queue_sz (cmd_mgr hw) - of_nat (length q)
     \<and> state (cmd_mgr hw') = state (cmd_mgr hw)
     \<and> heap hw' = (\<lambda>a. if a \<in> set q then Option.bind (heap hw a) drained else heap hw a)"
  using assms
proof (induction q arbitrary: hw)
  case (Cons a q)
  then obtain c where c: "heap hw a = Some c"
    by auto
  let ?hw = "(upd_mgr (\<lambda>m. m\<lparr>cmds := q, queue_sz := queue_sz m - 1\<rparr>) hw)
     \<lparr>heap := (heap hw)(a := drained c)\<rparr>"
  have one: "drain_one a hw = Some ?hw"
    using drain_one_ok [OF c] Cons.prems by simp
  have "\<forall>b\<in>set q. heap ?hw b \<noteq> None"
    using Cons.prems by auto
  with Cons.IH [of ?hw] Cons.prems obtain hw' where hw': "drain_all q ?hw = Some hw'"
      "cmds (cmd_mgr hw') = []" "queue_sz (cmd_mgr hw') = queue_sz (cmd_mgr ?hw) - of_nat (length q)"
      "state (cmd_mgr hw') = state (cmd_mgr hw)"
      "heap hw' = (\<lambda>b. if b \<in> set q then Option.bind (heap ?hw b) drained else heap ?hw b)"
    by auto
  have "heap hw' = (\<lambda>b. if b \<in> set (a # q) then Option.bind (heap hw b) drained else heap hw b)"
    unfolding hw'(5) using Cons.prems(1) c by (auto simp: fun_eq_iff)
  with hw' one show ?case
    by (intro exI [of _ hw']) simp
qed (auto simp: fun_eq_iff)

text \<open>Property C25. Draining leaves no one behind: when the queue's commands are live the list
  ends up empty with size 0, every blocking command has had exactly one more \<open>complete()\<close> and
  waits for nothing, every non-blocking one is freed, and no other command is touched.\<close>

theorem drain_leaves_no_waiter:
  assumes "distinct (cmds (cmd_mgr hw))" and "\<forall>a\<in>set (cmds (cmd_mgr hw)). heap hw a \<noteq> None"
    and "unat (queue_sz (cmd_mgr hw)) = length (cmds (cmd_mgr hw))"
  shows "\<exists>hw'. cmd_mgr_drain hw = Some hw' \<and> cmds (cmd_mgr hw') = [] \<and> queue_sz (cmd_mgr hw') = 0
     \<and> (\<forall>a\<in>set (cmds (cmd_mgr hw)). \<forall>c. heap hw a = Some c \<longrightarrow>
          (if bit (flags c) 0 then heap hw' a = None
           else \<exists>c'. heap hw' a = Some c' \<and> complete c' = complete c + 1
                  \<and> flags c' AND AML_CMD_FLAG_BUSY = 0))
     \<and> (\<forall>a. a \<notin> set (cmds (cmd_mgr hw)) \<longrightarrow> heap hw' a = heap hw a)"
proof -
  have "queue_sz (cmd_mgr hw) - of_nat (length (cmds (cmd_mgr hw))) = 0"
    unfolding assms(3) [symmetric] by simp
  with drain_all_ok [OF assms(1,2) refl] show ?thesis
    by (auto simp: cmd_mgr_drain_def drained_def AML_CMD_FLAG_BUSY_def bit_and_iff bit_or_iff)
qed

theorem drain_leaves_no_waiter_witness:
  "let hw = (upd_mgr (\<lambda>m. m\<lparr>cmds := [1, 2], queue_sz := 2\<rparr>) (cmds_boot ipc_env0))
        \<lparr>heap := (\<lambda>_. None)(1 \<mapsto> small_cmd AML_CMD_FLAG_NONBLOCK, 2 \<mapsto> small_cmd AML_CMD_FLAG_WAIT_PUSH)\<rparr>
   in \<exists>hw'. cmd_mgr_drain hw = Some hw' \<and> heap hw' 1 = None \<and> (\<exists>c. heap hw' 2 = Some c \<and> complete c = 1)"
proof -
  let ?hw = "(upd_mgr (\<lambda>m. m\<lparr>cmds := [1, 2], queue_sz := 2\<rparr>) (cmds_boot ipc_env0))
        \<lparr>heap := (\<lambda>_. None)(1 \<mapsto> small_cmd AML_CMD_FLAG_NONBLOCK, 2 \<mapsto> small_cmd AML_CMD_FLAG_WAIT_PUSH)\<rparr>"
  have "\<exists>hw'. cmd_mgr_drain ?hw = Some hw' \<and> heap hw' 1 = None \<and> (\<exists>c. heap hw' 2 = Some c \<and> complete c = 1)"
    using drain_leaves_no_waiter [of ?hw] by (auto simp: small_cmd_def)
  then show ?thesis
    unfolding Let_def .
qed

text \<open>A timed-out command leaves its address in the IPC slot: the manager is
  marked crashed and the waiter gets \<open>-ETIMEDOUT\<close>, but when the firmware's acknowledgement
  arrives after the waiter freed the command, the acknowledgement path accesses freed memory.\<close>

theorem late_ack_after_timeout:
  assumes "serial_inv hw" and "msga2e_hostid (ipc_env hw) = Some a"
    and "heap hw a = Some c" and "\<not> bit (flags c) 0"
  shows "\<exists>hw' hw''. queue_wait no_irq Wait_timeout tout a hw = Some (hw', 0)
     \<and> state (cmd_mgr hw') = AML_CMD_MGR_STATE_CRASHED
     \<and> (\<exists>c'. heap hw' a = Some c' \<and> result c' = (if bit (flags c) 3 \<or> bit (flags c) 4 then of_int (- ETIMEDOUT) else 0))
     \<and> kfree_cmd a hw' = Some hw'' \<and> ack_step pl hw'' = None"
proof -
  obtain q where q: "cmds (cmd_mgr hw) = a # q"
    using assms(1,2) by (auto simp: serial_inv_def serial_def head_ok_def split: list.splits if_splits)
  have s: "serial (heap hw) (a # q) (Some a) (aml_msg_sem hw)" and ok: "mgr_ok hw"
    using assms(1,2) q by (simp_all add: serial_inv_def)
  obtain d where d: "queued_ok c" "head_ok (flags c) a (Some a) (aml_msg_sem hw)"
    using serial_head [OF s] assms(3) by auto
  note f = head_in_flight [OF d(2)] queued_okD [OF d(1)]
  let ?c = "c\<lparr>result := - word_of_int ETIMEDOUT, flags := flags c OR AML_CMD_FLAG_DONE\<rparr>"
  have "queue_wait no_irq Wait_timeout tout a hw =
      Some ((if cmd_id c = MM_START_REQ \<and> reqid c = MM_START_CFM then hw\<lparr>dev_started := True\<rparr> else hw)
        \<lparr>cmd_mgr := (cmd_mgr hw)\<lparr>state := AML_CMD_MGR_STATE_CRASHED, cmds := q, queue_sz := queue_sz (cmd_mgr hw) - 1\<rparr>,
         heap := (heap hw)(a \<mapsto> ?c)\<rparr>, 0)"
    using assms(3,4) f q
    by (simp add: queue_wait_def Let_def upd_cmd_def cmd_complete_def cmd_list_del_def bit_or_iff)
  moreover have "ipc_host_msgack_handler (ipc_env hw)
      = ((ipc_env hw)\<lparr>msga2e_hostid := None, msga2e_cnt := msga2e_cnt (ipc_env hw) + 1\<rparr>, Some a)"
    using assms(2) by (simp add: ipc_host_msgack_handler_def)
  ultimately show ?thesis
    using f by (simp add: kfree_cmd_def ack_step_def aml_msgackind_def)
qed

lemma serial_inv_sent:
  assumes "msga2e_hostid (ipc_env hw) = Some 1" and "mgr_ok hw" and "cmds (cmd_mgr hw) = [1]"
    and "heap hw = (\<lambda>_. None)(1 \<mapsto> small_cmd AML_CMD_FLAG_WAIT_ACK)" and "aml_msg_sem hw = 0"
  shows "serial_inv hw"
  using assms
  by (auto simp: serial_inv_def serial_def head_ok_def queued_ok_def small_cmd_def fl_def)

definition hw_sent :: aml_hw where
  "hw_sent = (upd_mgr (\<lambda>m. m\<lparr>cmds := [1], queue_sz := 1\<rparr>) (cmds_boot ipc_env0))
     \<lparr>heap := (\<lambda>_. None)(1 \<mapsto> small_cmd AML_CMD_FLAG_WAIT_ACK),
      ipc_env := (ipc_env (cmds_boot ipc_env0))\<lparr>msga2e_hostid := Some 1\<rparr>\<rparr>"

lemma hw_sent_inv: "serial_inv hw_sent"
  using cmds_boot_inv [of ipc_env0]
  by (intro serial_inv_sent)
     (auto simp: hw_sent_def serial_inv_def mgr_ok_def slot_ok_def cmds_boot_def aml_cmd_mgr_init_def)

theorem late_ack_after_timeout_witness:
  "\<exists>hw' hw''. queue_wait no_irq Wait_timeout 7 1 hw_sent = Some (hw', 0)
     \<and> kfree_cmd 1 hw' = Some hw'' \<and> ack_step plat_usb hw'' = None"
  using late_ack_after_timeout [OF hw_sent_inv, of 1 "small_cmd AML_CMD_FLAG_WAIT_ACK" 7 plat_usb]
  by (auto simp: hw_sent_def small_cmd_def)

lemma ack_frees_nonblock:
  assumes "heap hw a = Some c" and "msga2e_hostid (ipc_env hw) = Some a" and "cmds (cmd_mgr hw) = [a]"
    and "state (cmd_mgr hw) \<noteq> AML_CMD_MGR_STATE_DEINIT" and "bit (flags c) 0" and "\<not> bit (flags c) 4"
  shows "\<exists>hw'. ack_step pl hw = Some hw' \<and> heap hw' a = None"
  using assms
  by (auto simp: ack_step_def ipc_host_msgack_handler_def aml_msgackind_def cmd_mgr_llind_def
      clear_flags_Some cmd_complete_def cmd_list_del_def Let_def upd_cmd_def kfree_cmd_def
      bit_and_iff bit_or_iff)

definition ack_after_push :: "plat \<Rightarrow> interference" where
  "ack_after_push pl k hw = (if k = 2 then ack_step pl hw else Some hw)"

text \<open>Property C27. A non-blocking command without confirmation is freed by its acknowledgement.
  \<open>cmd_mgr_queue\<close> pushes with the lock released and touches the command again afterwards: if the
  acknowledgement interrupt arrives in between, that access is to freed memory.\<close>

theorem nonblock_ack_race:
  assumes "mgr_ok hw" and "cmds (cmd_mgr hw) = []" and "heap hw a = Some c" and "new_cmd_ok c"
    and nb: "bit (flags c) 0" "\<not> bit (flags c) 1" "\<not> bit (flags c) 6"
    and m: "a2e_msg c = Some m" "\<not> pci_blocked pl" "msg_push_refused pl m = Some False"
  shows "cmd_mgr_queue pl jif (ack_after_push pl) w a hw = None"
proof -
  have fits: "msg_fits m"
    using assms(4) m by (simp add: new_cmd_ok_def)
  obtain hw1 c1 f where e: "queue_enqueue a hw = Some (hw1, Inr (False, f))" "mgr_ok hw1"
      "cmds (cmd_mgr hw1) = [a]" "heap hw1 = (heap hw)(a \<mapsto> c1)" "enqueued False c c1"
    using enqueue_ok [of hw a c False] assms(1-4) by auto
  have c1: "a2e_msg c1 = Some m" "\<not> bit (flags c1) 6" "bit (flags c1) 0" "\<not> bit (flags c1) 4"
    using e(5) nb m by (simp_all add: enqueued_def)
  have "slot_ok (ipc_env hw1)"
    using e(2) by (simp add: mgr_ok_def)
  from push_accepted [OF this fits m(2,3), of a] obtain env
    where env: "ipc_host_msg_push pl (ipc_env hw1) a (Some m) (AML_CMD_A2EMSG_LEN m) = Some (env, 0)"
    by blast
  let ?hw = "hw1\<lparr>ipc_env := env\<rparr>"
  have "aml_ipc_msg_push pl hw1 a = Some (?hw, 0)"
    using env e(4) c1 by (simp add: aml_ipc_msg_push_def)
  moreover have "state (cmd_mgr ?hw) \<noteq> AML_CMD_MGR_STATE_DEINIT"
    using e(2) by (simp add: mgr_ok_def)
  then obtain hw2 where "ack_step pl ?hw = Some hw2" "heap hw2 a = None"
    using ack_frees_nonblock [of ?hw a c1 pl] e(3,4) c1 a2e_channel.push_taken [OF env] by auto
  ultimately have "queue_start pl (ack_after_push pl) a hw1 = None"
    using e(4) c1 by (simp add: queue_start_def ack_after_push_def free_a2e_def upd_cmd_def)
  with e(1) assms(3) show ?thesis
    by (simp add: cmd_mgr_queue_def)
qed

theorem nonblock_ack_race_witness:
  "cmd_mgr_queue plat_usb id (ack_after_push plat_usb) Wait_done 1
     ((cmds_boot ipc_env0)\<lparr>heap := (\<lambda>_. None)(1 \<mapsto> small_cmd AML_CMD_FLAG_NONBLOCK)\<rparr>) = None"
proof -
  have "mgr_ok (cmds_boot ipc_env0)" "cmds (cmd_mgr (cmds_boot ipc_env0)) = []"
    using cmds_boot_inv [of ipc_env0] by (auto simp: serial_inv_def cmds_boot_def aml_cmd_mgr_init_def)
  moreover have "msg_push_refused plat_usb small_msg = Some False" "\<not> pci_blocked plat_usb"
    by (simp_all add: msg_push_refused_def aml_check_suspend_resume_msg_def plat_usb_def plat_pcie_def
        small_msg_def pci_blocked_def)
  moreover have "new_cmd_ok (small_cmd AML_CMD_FLAG_NONBLOCK)"
    by (simp add: new_cmd_ok_def small_cmd_def small_msg_def msg_fits_def lmac_msg_ok_def A2E_MSG_BYTES_def)
  ultimately show ?thesis
    by (intro nonblock_ack_race [where c = "small_cmd AML_CMD_FLAG_NONBLOCK" and m = small_msg])
       (simp_all add: small_cmd_def)
qed

section \<open>Acknowledgement and confirmation\<close>

definition cfm_buf :: "ipc_e2a_msg \<Rightarrow> u8 list option \<Rightarrow> u8 list option" where
  "cfm_buf msg b = map_option (\<lambda>buf. let n = unat (e2a_param_len (clamp_len msg))
     in if n = 0 then buf else take n (e2a_param msg) @ drop n buf) b"

lemma store_cfm_eq:
  assumes "heap hw a = Some c"
    and "\<And>buf. e2a_msg c = Some buf \<Longrightarrow>
           unat (e2a_param_len (clamp_len msg)) \<le> min (length buf) (length (e2a_param msg))"
  shows "store_cfm (clamp_len msg) a hw
     = Some (hw\<lparr>heap := (heap hw)(a \<mapsto> c\<lparr>e2a_msg := cfm_buf msg (e2a_msg c)\<rparr>)\<rparr>)"
proof -
  have p: "e2a_param (clamp_len msg) = e2a_param msg"
    by (simp add: clamp_len_def)
  have same: "c\<lparr>e2a_msg := e2a_msg c\<rparr> = c"
    by simp
  show ?thesis
    using assms p same
    by (cases "e2a_msg c"; cases "e2a_param_len (clamp_len msg) = 0")
       (auto simp: store_cfm_def cfm_buf_def copy_into_def upd_cmd_def fun_upd_idem unat_eq_0 Let_def)
qed

lemma cmd_complete_eq:
  assumes "heap hw a = Some c" and "complete c = 0" and "\<not> bit (flags c) 3" and "\<not> bit (flags c) 4"
    and "\<not> bit (flags c) 0" and "a \<in> set (cmds (cmd_mgr hw))"
  shows "\<exists>hw'. cmd_complete hw a = Some hw' \<and> after_complete hw a hw'
     \<and> heap hw' a = Some (c\<lparr>flags := flags c OR AML_CMD_FLAG_DONE, result := 0, complete := 1\<rparr>)"
  using assms
  by (auto simp: cmd_complete_def cmd_list_del_def upd_cmd_def kfree_cmd_def after_complete_def
      Let_def finished_def bit_or_iff)

text \<open>Property C21. For a blocking command in flight that waits for both, acknowledgement and
  confirmation commute: either order ends in the same state, in which the command has left the
  queue, is completed once with result 0 and has the confirmation in its buffer, and the next
  command, if any, is signalled to the message task exactly once.\<close>

theorem ack_cfm_commute:
  assumes bus: "aml_bus_type pl \<noteq> PCIE_MODE" and inv: "serial_inv hw"
    and q: "cmds (cmd_mgr hw) = a # q" and c: "heap hw a = Some c"
    and fl: "\<not> bit (flags c) 0" "\<not> bit (flags c) 2" "bit (flags c) 3" "bit (flags c) 4"
    and fits: "cfm_fits (heap hw) (cmds (cmd_mgr hw)) msg" and id: "reqid c = e2a_id msg"
  shows "\<exists>hw' c'. run cmd_step [Ack pl, Cfm pl None msg] hw = Some hw'
     \<and> run cmd_step [Cfm pl None msg, Ack pl] hw = Some hw'
     \<and> cmds (cmd_mgr hw') = q \<and> aml_msg_sem hw' = (if q = [] then 0 else 1)
     \<and> heap hw' a = Some c' \<and> complete c' = 1 \<and> result c' = 0
     \<and> e2a_msg c' = cfm_buf msg (e2a_msg c)"
proof -
  have s: "serial (heap hw) (a # q) (msga2e_hostid (ipc_env hw)) (aml_msg_sem hw)" and ok: "mgr_ok hw"
    using inv q by (simp_all add: serial_inv_def)
  have k: "queued_ok c" "msga2e_hostid (ipc_env hw) = Some a" "aml_msg_sem hw = 0"
    using serial_head [OF s] c fl by (auto simp: head_ok_def)
  have b: "unat (e2a_param_len (clamp_len msg)) \<le> min (length buf) (length (e2a_param msg))"
    if "e2a_msg c = Some buf" for buf
    using fits q c id that by (simp add: cfm_fits_def)
  let ?env = "(ipc_env hw)\<lparr>msga2e_hostid := None, msga2e_cnt := msga2e_cnt (ipc_env hw) + 1\<rparr>"
  let ?f1 = "flags c AND NOT AML_CMD_FLAG_WAIT_ACK"
  let ?f2 = "flags c AND NOT AML_CMD_FLAG_WAIT_CFM"
  let ?f = "?f1 AND NOT AML_CMD_FLAG_WAIT_CFM"
  have f: "?f2 AND NOT AML_CMD_FLAG_WAIT_ACK = ?f"
    by (intro bit_word_eqI) (auto simp: bit_and_iff)
  let ?buf = "cfm_buf msg (e2a_msg c)"
  let ?A = "hw\<lparr>ipc_env := ?env, heap := (heap hw)(a \<mapsto> c\<lparr>flags := ?f1\<rparr>)\<rparr>"
  let ?C = "hw\<lparr>heap := (heap hw)(a \<mapsto> c\<lparr>flags := ?f2, e2a_msg := ?buf\<rparr>)\<rparr>"
  have st: "state (cmd_mgr hw) \<noteq> AML_CMD_MGR_STATE_DEINIT"
    using ok by (simp add: mgr_ok_def)
  have ack: "ipc_host_msgack_handler (ipc_env hw) = (?env, Some a)"
    using k(2) by (simp add: ipc_host_msgack_handler_def)
  have A: "cmd_step (Ack pl) hw = Some ?A"
    using bus q c fl st ack serial_scan [OF s c]
    by (auto simp: ack_step_def aml_msgackind_def cmd_mgr_llind_def clear_flags_Some bit_and_iff
        split: list.split)
  have fitsA: "cfm_fits (heap ?A) (cmds (cmd_mgr ?A)) msg"
    using fits c by (auto simp: cfm_fits_def list_all_iff)
  have C: "cmd_step (Cfm pl None msg) hw = Some ?C"
    using bus q c fl fits id store_cfm_eq [of "hw\<lparr>heap := (heap hw)(a \<mapsto> c\<lparr>flags := ?f2\<rparr>)\<rparr>" a "c\<lparr>flags := ?f2\<rparr>" msg] b
    by (simp add: cmd_mgr_msgind_def cmd_mgr_run_callback_def clear_flags_Some bit_and_iff)
  let ?d = "c\<lparr>flags := ?f, e2a_msg := ?buf\<rparr>"
  let ?D = "hw\<lparr>ipc_env := ?env, heap := (heap hw)(a \<mapsto> ?d)\<rparr>"
  obtain hw' where D: "cmd_complete ?D a = Some hw'" "after_complete ?D a hw'"
      "heap hw' a = Some (?d\<lparr>flags := ?f OR AML_CMD_FLAG_DONE, result := 0, complete := 1\<rparr>)"
    using cmd_complete_eq [of ?D a ?d] queued_okD [OF k(1)] q fl by (auto simp: bit_and_iff)
  have okD: "mgr_ok ?D"
    using ok a2e_channel.ack_taken [OF k(2)] ack by (auto simp: mgr_ok_def)
  have p: "mgr_ok hw' \<and> cmds (cmd_mgr hw') = q \<and> ipc_env hw' = ?env \<and> aml_msg_sem hw' = 0
      \<and> serial (heap hw') q None (if q = [] then 0 else 1)"
    using complete_head [OF okD _ s _ D(2)] q k(3) by simp
  have nx: "\<exists>cn. heap hw' n = Some cn \<and> bit (flags cn) 2" if "q = n # r" for n r
    using p that by (auto simp: serial_def head_ok_def split: if_splits)
  let ?E = "if q = [] then hw' else up hw'"
  have "store_cfm (clamp_len msg) a (hw\<lparr>ipc_env := ?env, heap := (heap hw)(a \<mapsto> c\<lparr>flags := ?f\<rparr>)\<rparr>) = Some ?D"
    using store_cfm_eq [of "hw\<lparr>ipc_env := ?env, heap := (heap hw)(a \<mapsto> c\<lparr>flags := ?f\<rparr>)\<rparr>" a "c\<lparr>flags := ?f\<rparr>" msg] b
    by simp
  then have B: "cmd_step (Cfm pl None msg) ?A = Some ?E"
    using bus q c fl fitsA id D(1) nx
    by (auto simp: cmd_mgr_msgind_def cmd_mgr_run_callback_def clear_flags_Some bit_and_iff kick_next_def
        ex_bool_eq split: list.split)
  have "queued_ok (c\<lparr>flags := ?f2, e2a_msg := ?buf\<rparr>)" "head_ok ?f2 a (Some a) 0"
    using k(1) fl by (auto simp: queued_ok_def head_ok_def bit_and_iff)
  then have sC: "serial (heap ?C) (a # q) (Some a) 0"
    using serial_head_upd [OF s, of "c\<lparr>flags := ?f2, e2a_msg := ?buf\<rparr>" "Some a" 0] by simp
  have r: "d\<lparr>e2a_msg := b, flags := g\<rparr> = d\<lparr>flags := g, e2a_msg := b\<rparr>" for d :: aml_cmd and b g
    by simp
  have F: "cmd_step (Ack pl) ?C = Some ?E"
    using bus q fl st ack serial_scan [OF sC, of "c\<lparr>flags := ?f2, e2a_msg := ?buf\<rparr>"] D(1) f
    by (auto simp: ack_step_def aml_msgackind_def cmd_mgr_llind_def clear_flags_Some bit_and_iff
        kick_next_def r ex_bool_eq split: list.split)
  have "run cmd_step [Ack pl, Cfm pl None msg] hw = Some ?E" "run cmd_step [Cfm pl None msg, Ack pl] hw = Some ?E"
    by (simp_all only: run.simps A B C F option.simps)
  with p D(3) show ?thesis
    by (intro exI [of _ ?E] exI) (auto simp del: run.simps)
qed

definition cmd_both :: aml_cmd where
  "cmd_both = (small_cmd (AML_CMD_FLAG_WAIT_ACK OR AML_CMD_FLAG_WAIT_CFM))\<lparr>e2a_msg := Some [0, 0]\<rparr>"

definition hw_both :: aml_hw where
  "hw_both = hw_sent\<lparr>heap := (\<lambda>_. None)(1 \<mapsto> cmd_both)\<rparr>"

lemma hw_both_inv: "serial_inv hw_both"
proof -
  have "mgr_ok hw_both"
    using hw_sent_inv by (simp add: hw_both_def serial_inv_def)
  moreover have "aml_msg_sem hw_both = 0" "msga2e_hostid (ipc_env hw_both) = Some 1" "cmds (cmd_mgr hw_both) = [1]"
    by (simp_all add: hw_both_def hw_sent_def cmds_boot_def aml_cmd_mgr_init_def)
  moreover have "heap hw_both = (\<lambda>_. None)(1 \<mapsto> cmd_both)"
    by (simp add: hw_both_def)
  ultimately show ?thesis
    by (auto simp: serial_inv_def serial_def head_ok_def queued_ok_def small_cmd_def fl_def
        cmd_both_def bit_or_iff)
qed

theorem ack_cfm_commute_witness:
  "\<exists>hw'. run cmd_step [Cfm plat_usb None \<lparr>e2a_id = 5, e2a_param_len = 2, e2a_param = [7, 8]\<rparr>, Ack plat_usb] hw_both = Some hw'
     \<and> cmds (cmd_mgr hw') = []"
proof -
  let ?m = "\<lparr>e2a_id = 5, e2a_param_len = 2, e2a_param = [7, 8]\<rparr> :: ipc_e2a_msg"
  have "aml_bus_type plat_usb \<noteq> PCIE_MODE" "cmds (cmd_mgr hw_both) = [1]"
    by (simp_all add: plat_usb_def hw_both_def hw_sent_def)
  moreover have "heap hw_both 1 = Some cmd_both" "reqid cmd_both = 5"
    by (simp_all add: hw_both_def cmd_both_def small_cmd_def)
  moreover have "cfm_fits (heap hw_both) (cmds (cmd_mgr hw_both)) ?m"
    by (simp add: hw_both_def hw_sent_def cfm_fits_def cmd_both_def small_cmd_def clamp_len_def
        AML_CMD_E2AMSG_LEN_MAX_def)
  ultimately show ?thesis
    using ack_cfm_commute [OF _ hw_both_inv, of plat_usb 1 "[]" cmd_both ?m]
    by (auto simp: cmd_both_def small_cmd_def bit_or_iff simp del: run.simps)
qed

section \<open>The PCIe push loop\<close>

definition pushable :: "aml_cmd \<Rightarrow> bool" where
  "pushable c \<longleftrightarrow> complete c = 0 \<and> (case a2e_msg c of None \<Rightarrow> True | Some m \<Rightarrow> msg_fits m)"

definition pcie_queue_ok :: "aml_hw \<Rightarrow> bool" where
  "pcie_queue_ok hw \<longleftrightarrow> distinct (cmds (cmd_mgr hw)) \<and> slot_ok (ipc_env hw)
     \<and> (\<forall>a\<in>set (cmds (cmd_mgr hw)). \<exists>c. heap hw a = Some c \<and> pushable c)"

lemma ipc_push_slot:
  assumes "slot_ok (ipc_env hw)" and "heap hw a = Some c" and "a2e_msg c = Some m" and "msg_fits m"
  shows "\<exists>env r. aml_ipc_msg_push pl hw a = Some (hw\<lparr>ipc_env := env\<rparr>, r) \<and> slot_ok env"
proof -
  from a2e_channel.push_result [OF assms(1,4), of pl a] obtain env r
    where "ipc_host_msg_push pl (ipc_env hw) a (Some m) (AML_CMD_A2EMSG_LEN m) = Some (env, r)" "slot_ok env"
    by blast
  with assms show ?thesis
    by (auto simp: aml_ipc_msg_push_def)
qed

text \<open>One round: the command is pushed, or completed and unlinked with the rest still in order.\<close>

lemma next_cmd_round:
  assumes ok: "pcie_queue_ok hw" and a: "a \<in> set (cmds (cmd_mgr hw))"
  shows "(\<exists>hw'. next_cmd_loop (Suc n) pl hw a = Some hw' \<and> cmds (cmd_mgr hw') = cmds (cmd_mgr hw))
    \<or> (\<exists>hw'. pcie_queue_ok hw' \<and> cmds (cmd_mgr hw') = remove1 a (cmds (cmd_mgr hw)) \<and>
         next_cmd_loop (Suc n) pl hw a =
           (case cmds (cmd_mgr hw') of [] \<Rightarrow> Some hw'
            | b # r \<Rightarrow> if r \<noteq> [] \<and> bit (fl (heap hw') b) 2 then next_cmd_loop n pl hw' b else Some hw'))"
proof -
  obtain c where c: "heap hw a = Some c" "pushable c"
    using ok a by (auto simp: pcie_queue_ok_def)
  let ?c = "c\<lparr>flags := flags c AND NOT AML_CMD_FLAG_WAIT_PUSH\<rparr>"
  let ?hw = "hw\<lparr>heap := (heap hw)(a \<mapsto> ?c)\<rparr>"
  obtain hw1 ret d where h: "(if a2e_msg ?c \<noteq> None then do {
                     (hw, r) \<leftarrow> aml_ipc_msg_push pl ?hw a;
                     hw \<leftarrow> free_a2e a hw;
                     Some (hw, r)
                   } else Some (?hw, -1)) = Some (hw1, ret)"
      "cmd_mgr hw1 = cmd_mgr hw" "heap hw1 = (heap hw)(a \<mapsto> d)" "pushable d" "slot_ok (ipc_env hw1)"
  proof (cases "a2e_msg c")
    case None
    then show ?thesis
      using that [of ?hw "-1" ?c] ok c(2) by (simp add: pcie_queue_ok_def pushable_def)
  next
    case (Some m)
    then obtain env r where r: "aml_ipc_msg_push pl ?hw a = Some (?hw\<lparr>ipc_env := env\<rparr>, r)" "slot_ok env"
      using ipc_push_slot [of ?hw a ?c m pl] ok c by (auto simp: pcie_queue_ok_def pushable_def)
    then show ?thesis
      using that [of "?hw\<lparr>ipc_env := env, heap := (heap hw)(a \<mapsto> ?c\<lparr>a2e_msg := None\<rparr>)\<rparr>" r "?c\<lparr>a2e_msg := None\<rparr>"]
        Some c(2) by (simp add: free_a2e_Some pushable_def)
  qed
  have loop: "next_cmd_loop (Suc n) pl hw a = (if ret \<noteq> 0 then do {
       hw \<leftarrow> cmd_push_failed hw1 a;
       (case cmds (cmd_mgr hw) of
          [] \<Rightarrow> Some hw
        | cur # rest \<Rightarrow> do {
            cc \<leftarrow> heap hw cur;
            if rest \<noteq> [] \<and> flags cc AND AML_CMD_FLAG_WAIT_PUSH \<noteq> 0
            then next_cmd_loop n pl hw cur else Some hw
          })
     } else Some hw1)"
    using c h(1) by (simp add: clear_flags_Some)
  show ?thesis
  proof (cases "ret = 0")
    case True
    with loop h(2) show ?thesis
      by auto
  next
    case False
    obtain hw' c' where hw': "cmd_push_failed hw1 a = Some hw'"
        "after_complete (hw1\<lparr>heap := (heap hw1)(a \<mapsto> c')\<rparr>) a hw'"
      using push_failed_ok [of hw1 a d] h a by (auto simp: pushable_def)
    have q: "cmds (cmd_mgr hw') = remove1 a (cmds (cmd_mgr hw))"
      using hw'(2) h(2) by (simp add: after_complete_def)
    have "heap hw' b = heap hw b" if "b \<noteq> a" for b
      using hw'(2) h(3) that by (auto simp: after_complete_def)
    then have ok': "pcie_queue_ok hw'"
      using ok q hw'(2) h(5) by (auto simp: pcie_queue_ok_def after_complete_def)
    then have "next_cmd_loop (Suc n) pl hw a =
        (case cmds (cmd_mgr hw') of [] \<Rightarrow> Some hw'
         | b # r \<Rightarrow> if r \<noteq> [] \<and> bit (fl (heap hw') b) 2 then next_cmd_loop n pl hw' b else Some hw')"
      using loop False hw'(1) by (auto simp: pcie_queue_ok_def split: list.split)
    with ok' q show ?thesis
      by blast
  qed
qed

lemma next_cmd_fuel:
  assumes "pcie_queue_ok hw" and "a \<in> set (cmds (cmd_mgr hw))" and "length (cmds (cmd_mgr hw)) < n"
  shows "\<exists>hw'. next_cmd_loop n pl hw a = Some hw' \<and> set (cmds (cmd_mgr hw')) \<subseteq> set (cmds (cmd_mgr hw))"
  using assms
proof (induction n arbitrary: hw a)
  case (Suc n)
  from next_cmd_round [OF Suc.prems(1,2), of n pl] show ?case
  proof (elim disjE exE conjE)
    fix hw'
    assume hw': "pcie_queue_ok hw'" "cmds (cmd_mgr hw') = remove1 a (cmds (cmd_mgr hw))"
      and l: "next_cmd_loop (Suc n) pl hw a =
           (case cmds (cmd_mgr hw') of [] \<Rightarrow> Some hw'
            | b # r \<Rightarrow> if r \<noteq> [] \<and> bit (fl (heap hw') b) 2 then next_cmd_loop n pl hw' b else Some hw')"
    have sub: "set (cmds (cmd_mgr hw')) \<subseteq> set (cmds (cmd_mgr hw))"
      using hw'(2) set_remove1_subset by simp
    have len: "length (cmds (cmd_mgr hw')) < n"
      using Suc.prems(2,3) hw'(2) length_remove1_mem [OF Suc.prems(2)] by simp
    show ?thesis
    proof (cases "cmds (cmd_mgr hw')")
      case Nil
      with l show ?thesis
        by simp
    next
      case (Cons b r)
      with Suc.IH [OF hw'(1) _ len, of b] l sub show ?thesis
        by (cases "r \<noteq> [] \<and> bit (fl (heap hw') b) 2") auto
    qed
  qed auto
qed simp

text \<open>Property C26. On PCIe the push loop always returns: however many pushes fail, it needs no
  more rounds than there are queued commands, accesses no freed memory, and only removes
  commands from the queue.\<close>

theorem next_cmd_returns:
  assumes "pcie_queue_ok hw" and "a \<in> set (cmds (cmd_mgr hw))"
  shows "\<exists>hw'. cmd_mgr_next_cmd pl hw a = Some hw' \<and> set (cmds (cmd_mgr hw')) \<subseteq> set (cmds (cmd_mgr hw))"
  unfolding cmd_mgr_next_cmd_def using next_cmd_fuel [OF assms] by blast

definition hw_two :: aml_hw where
  "hw_two = (upd_mgr (\<lambda>m. m\<lparr>cmds := [1, 2], queue_sz := 2\<rparr>) (cmds_boot ipc_env0))
     \<lparr>heap := (\<lambda>_. None)(1 \<mapsto> small_cmd AML_CMD_FLAG_WAIT_PUSH, 2 \<mapsto> small_cmd AML_CMD_FLAG_WAIT_PUSH)\<rparr>"

lemma hw_two_ok: "pcie_queue_ok hw_two"
  using cmds_boot_inv [of ipc_env0]
  by (auto simp: pcie_queue_ok_def hw_two_def serial_inv_def mgr_ok_def small_cmd_def pushable_def
      small_msg_def msg_fits_def lmac_msg_ok_def A2E_MSG_BYTES_def)

theorem next_cmd_returns_witness:
  "\<exists>hw'. cmd_mgr_next_cmd plat_pcie hw_two 1 = Some hw'"
  using next_cmd_returns [OF hw_two_ok, of 1 plat_pcie] by (auto simp: hw_two_def)

text \<open>When the bus refuses the push of the head and one more command waits behind
  it, the loop stops without trying that command: it stays alone in the queue, marked as waiting
  for its push, with nothing in flight whose acknowledgement would ever push it.\<close>

theorem next_cmd_strands_last:
  assumes ok: "pcie_queue_ok hw" and q: "cmds (cmd_mgr hw) = [a, b]" and "bit (fl (heap hw) b) 2"
    and "pci_blocked pl" and "msga2e_hostid (ipc_env hw) = None"
  shows "\<exists>hw'. cmd_mgr_next_cmd pl hw a = Some hw' \<and> cmds (cmd_mgr hw') = [b]
     \<and> bit (fl (heap hw') b) 2 \<and> msga2e_hostid (ipc_env hw') = None"
proof -
  obtain c where c: "heap hw a = Some c" "pushable c"
    using ok q by (auto simp: pcie_queue_ok_def)
  have ne: "a \<noteq> b" "\<exists>d. heap hw b = Some d"
    using ok q by (auto simp: pcie_queue_ok_def)
  let ?c = "c\<lparr>flags := flags c AND NOT AML_CMD_FLAG_WAIT_PUSH, a2e_msg := None\<rparr>"
  let ?hw = "hw\<lparr>heap := (heap hw)(a \<mapsto> ?c)\<rparr>"
  have same: "c\<lparr>flags := f, a2e_msg := None\<rparr> = c\<lparr>flags := f\<rparr>" if "a2e_msg c = None" for f
    using that by (metis aml_cmd.surjective aml_cmd.update_convs(3,6) aml_cmd.select_convs(3))
  obtain hw' c' where hw': "cmd_push_failed ?hw a = Some hw'"
      "after_complete (?hw\<lparr>heap := (heap hw)(a \<mapsto> c')\<rparr>) a hw'"
    using push_failed_ok [of ?hw a ?c] c q by (auto simp: pushable_def)
  have "heap hw' b = heap hw b" "cmds (cmd_mgr hw') = [b]" "ipc_env hw' = ipc_env hw"
    using hw'(2) ne q by (auto simp: after_complete_def)
  moreover have "next_cmd_loop (Suc (Suc (Suc 0))) pl hw a = Some hw'"
    using c(1) hw'(1) assms(4) calculation(2) calculation(1) ne
    by (cases "a2e_msg c")
       (auto simp: clear_flags_Some aml_ipc_msg_push_def ipc_host_msg_push_def free_a2e_Some same)
  then have "cmd_mgr_next_cmd pl hw a = Some hw'"
    by (simp add: cmd_mgr_next_cmd_def q del: next_cmd_loop.simps)
  ultimately show ?thesis
    using assms by (simp add: fl_def)
qed


theorem next_cmd_strands_last_witness:
  "\<exists>hw'. cmd_mgr_next_cmd (plat_pcie\<lparr>g_pci_shutdown := True\<rparr>) hw_two 1 = Some hw' \<and> cmds (cmd_mgr hw') = [2]"
proof -
  have "msga2e_hostid (ipc_env hw_two) = None" "cmds (cmd_mgr hw_two) = [1, 2]" "bit (fl (heap hw_two) 2) 2"
    by (simp_all add: hw_two_def cmds_boot_def aml_cmd_mgr_init_def ipc_host_init_def small_cmd_def fl_def)
  then show ?thesis
    using next_cmd_strands_last [OF hw_two_ok, of 1 2 "plat_pcie\<lparr>g_pci_shutdown := True\<rparr>"]
    by (auto simp: pci_blocked_def plat_pcie_def)
qed

end
