(* ===== verification/Reorder.thy ===== *)
theory Reorder
  imports Prelude
begin

text \<open>
  The receive reorder buffer (aml_drv/aml_reorder.c, aml_reorder.h): per station and
  traffic class, frames sent under a block-ack agreement are put back into sequence
  order. A session keeps a window of \<open>win_size\<close> slots (a power of two) addressed by the
  low bits of the 12-bit sequence number, the next expected number \<open>ssn\<close> and the last
  buffered one \<open>lsn\<close>.

  \<open>BUG_ON\<close> and slots outside of the array give \<open>None\<close>. The frames handed up and the frames
  freed are two output lists. \<open>jiffies\<close> is the argument \<open>now\<close>; the locks are left out: the
  operations are the code's critical sections. Log output is left out, the statistics are
  kept.
\<close>

unbundle bit_operations_syntax

section \<open>Sequence numbers\<close>

text \<open>The kernel's 12-bit sequence-number arithmetic (linux/ieee80211.h).\<close>

definition ieee80211_sn_less :: "u16 \<Rightarrow> u16 \<Rightarrow> bool" where
  "ieee80211_sn_less a b \<longleftrightarrow> 2048 < (a - b) AND 0xFFF"

definition ieee80211_sn_add :: "u16 \<Rightarrow> u16 \<Rightarrow> u16" where
  "ieee80211_sn_add a b = (a + b) AND 0xFFF"

definition ieee80211_sn_inc :: "u16 \<Rightarrow> u16" where
  "ieee80211_sn_inc a = ieee80211_sn_add a 1"

definition ieee80211_sn_sub :: "u16 \<Rightarrow> u16 \<Rightarrow> u16" where
  "ieee80211_sn_sub a b = (a - b) AND 0xFFF"

section \<open>State\<close>

text \<open>A received MPDU with the fields of \<open>struct aml_rhd_ext\<close> the reordering uses.\<close>

record mpdu =
  mpdu_id :: nat
  sn :: u16
  pn_present :: bool
  pn0 :: u64

record aml_reo_entry =
  deadline :: u64
  skb :: "mpdu option"

record aml_reo_evt_record =
  evt_sn :: int
  evt_ts :: u32

record aml_reo_session =
  tid :: nat
  buf_size :: u16
  win_size :: u16
  timeout_tu :: u16
  timeout_ticks :: u64
  ssn :: u16
  lsn :: u16
  reset :: bool
  pn_check :: bool
  pn :: u64
  on_aging_list :: bool
  last_rx :: u64
  last_aging :: u64
  last_bar :: aml_reo_evt_record
  last_out_win :: aml_reo_evt_record
  last_timeout :: aml_reo_evt_record
  in_buffer :: int
  st_rx :: u32
  st_dup :: u32
  st_miss :: u32
  st_stale :: u32
  st_out_win :: u32
  st_pn_err :: u32
  st_timeout :: u32
  delivered :: "bool list"
  buf :: "aml_reo_entry list"

text \<open>A session together with the frames it has handed up and freed so far.\<close>

record reo_io =
  reo :: aml_reo_session
  frames :: "mpdu list"
  freed :: "mpdu list"

abbreviation upd_reo :: "(aml_reo_session \<Rightarrow> aml_reo_session) \<Rightarrow> reo_io \<Rightarrow> reo_io" where
  "upd_reo f c \<equiv> c\<lparr>reo := f (reo c)\<rparr>"

definition aml_mpdu_free :: "mpdu \<Rightarrow> reo_io \<Rightarrow> reo_io" where
  "aml_mpdu_free f c = c\<lparr>freed := freed c @ [f]\<rparr>"

definition aml_reo_evt_set :: "u64 \<Rightarrow> int \<Rightarrow> aml_reo_evt_record" where
  "aml_reo_evt_set now s = \<lparr>evt_sn = s, evt_ts = ucast now\<rparr>"

definition aml_reo_has_buffer :: "aml_reo_session \<Rightarrow> bool" where
  "aml_reo_has_buffer r \<longleftrightarrow> lsn r \<noteq> ssn r"

definition aml_reo_entry_index :: "aml_reo_session \<Rightarrow> u16 \<Rightarrow> nat" where
  "aml_reo_entry_index r s = unat (s AND (win_size r - 1))"

definition slot :: "aml_reo_session \<Rightarrow> nat \<Rightarrow> mpdu option option" where
  "slot r i = (if i < length (buf r) then Some (skb (buf r ! i)) else None)"

definition aml_reo_entry_skb_set :: "u64 \<Rightarrow> nat \<Rightarrow> mpdu \<Rightarrow> aml_reo_session \<Rightarrow> aml_reo_session option" where
  "aml_reo_entry_skb_set now i f r = do {
     b \<leftarrow> put (buf r) i \<lparr>deadline = now + timeout_ticks r, skb = Some f\<rparr>;
     Some (r\<lparr>buf := b\<rparr>)
   }"

definition entry_clear :: "nat \<Rightarrow> aml_reo_session \<Rightarrow> aml_reo_session option" where
  "entry_clear i r =
     (if i < length (buf r) then Some (r\<lparr>buf := (buf r)[i := (buf r ! i)\<lparr>skb := None\<rparr>]\<rparr>) else None)"

definition set_delivered :: "nat \<Rightarrow> bool \<Rightarrow> aml_reo_session \<Rightarrow> aml_reo_session option" where
  "set_delivered i v r = do {
     d \<leftarrow> put (delivered r) i v;
     Some (r\<lparr>delivered := d\<rparr>)
   }"

section \<open>Delivery\<close>

text \<open>\<open>aml_reo_pn_check\<close>: once a frame carried a packet number every frame has to, and the
  numbers have to grow. The flag is the C result 0.\<close>

definition aml_reo_pn_check :: "mpdu \<Rightarrow> aml_reo_session \<Rightarrow> aml_reo_session \<times> bool" where
  "aml_reo_pn_check f r =
     (let r = (if pn_present f then r\<lparr>pn_check := True\<rparr> else r)
      in if pn_check r then
           if \<not> pn_present f \<or> pn0 f \<le> pn r then (r\<lparr>st_pn_err := st_pn_err r + 1\<rparr>, False)
           else (r\<lparr>pn := pn0 f\<rparr>, True)
         else (r, True))"

definition aml_reo_dequeue :: "mpdu \<Rightarrow> nat \<Rightarrow> reo_io \<Rightarrow> (reo_io \<times> bool) option" where
  "aml_reo_dequeue f i c =
     (case aml_reo_pn_check f (reo c) of
        (r, False) \<Rightarrow> Some (aml_mpdu_free f (c\<lparr>reo := r\<rparr>), False)
      | (r, True) \<Rightarrow> do {
          r \<leftarrow> set_delivered i True r;
          Some (c\<lparr>reo := r, frames := frames c @ [f]\<rparr>, True)
        })"

text \<open>The frame in a slot is taken out and delivered, or freed when its packet number is wrong;
  the flag tells whether one was delivered.\<close>

definition pop_slot :: "nat \<Rightarrow> reo_io \<Rightarrow> (reo_io \<times> bool) option" where
  "pop_slot i c = do {
     f \<leftarrow> slot (reo c) i;
     (case f of
        None \<Rightarrow> Some (c, False)
      | Some m \<Rightarrow> do {
          r \<leftarrow> entry_clear i ((reo c)\<lparr>in_buffer := in_buffer (reo c) - 1\<rparr>);
          aml_reo_dequeue m i (c\<lparr>reo := r\<rparr>)
        })
   }"

text \<open>
  The loop of \<open>aml_reo_shift_to\<close>; its result is the number it stops at. Every number is
  visited at most once, so \<open>4097\<close> rounds suffice (\<open>shift_loop_spec\<close>).
\<close>

fun shift_loop :: "nat \<Rightarrow> u16 \<Rightarrow> u16 \<Rightarrow> reo_io \<Rightarrow> (reo_io \<times> u16) option" where
  "shift_loop 0 t s c = None"
| "shift_loop (Suc n) t s c = do {
     let i = aml_reo_entry_index (reo c) s;
     (c, popped) \<leftarrow> pop_slot i c;
     if popped then shift_loop n t (ieee80211_sn_inc s) c
     else if \<not> ieee80211_sn_less s t then Some (c, s)
     else do {
       r \<leftarrow> set_delivered i False ((reo c)\<lparr>st_miss := st_miss (reo c) + 1\<rparr>);
       shift_loop n t (ieee80211_sn_inc s) (c\<lparr>reo := r\<rparr>)
     }
   }"

definition shift_fuel :: nat where "shift_fuel = 4097"

definition aml_reo_shift_to :: "u16 \<Rightarrow> reo_io \<Rightarrow> reo_io option" where
  "aml_reo_shift_to t c = do {
     (c, s) \<leftarrow> shift_loop shift_fuel t (ssn (reo c)) c;
     let r = (reo c)\<lparr>ssn := s\<rparr>;
     let r = (if ieee80211_sn_less (lsn r) s then r\<lparr>lsn := s\<rparr> else r);
     let r = (if \<not> aml_reo_has_buffer r then r\<lparr>on_aging_list := False\<rparr> else r);
     Some (c\<lparr>reo := r\<rparr>)
   }"

section \<open>Ageing\<close>

definition aml_reo_entry_expired :: "nat \<Rightarrow> u64 \<Rightarrow> aml_reo_session \<Rightarrow> bool option" where
  "aml_reo_entry_expired i now r =
     (if i < length (buf r)
      then Some (skb (buf r ! i) \<noteq> None \<and> time_after now (deadline (buf r ! i))) else None)"

text \<open>
  The two downward scans of \<open>aml_reo_entry_expired_lsn\<close>: \<open>expired_scan lo n\<close> looks at the
  \<open>n\<close> indices from \<open>lo + n - 1\<close> down to \<open>lo\<close>.
\<close>

fun expired_scan :: "nat \<Rightarrow> nat \<Rightarrow> u64 \<Rightarrow> aml_reo_session \<Rightarrow> nat option option" where
  "expired_scan lo 0 now r = Some None"
| "expired_scan lo (Suc n) now r = do {
     e \<leftarrow> aml_reo_entry_expired (lo + n) now r;
     if e then Some (Some (lo + n)) else expired_scan lo n now r
   }"

definition expired_hit :: "aml_reo_session \<Rightarrow> nat \<Rightarrow> aml_reo_session \<times> u16 option" where
  "expired_hit r d = (r\<lparr>st_timeout := st_timeout r + 1\<rparr>,
     Some (ieee80211_sn_add (ssn r) (of_nat d + 1)))"

definition aml_reo_entry_expired_lsn :: "u64 \<Rightarrow> aml_reo_session \<Rightarrow> (aml_reo_session \<times> u16 option) option" where
  "aml_reo_entry_expired_lsn now r = do {
     let head = aml_reo_entry_index r (ssn r);
     let index = aml_reo_entry_index r (lsn r);
     if index < head then do {
       lo \<leftarrow> expired_scan 0 (index + 1) now r;
       (case lo of
          Some i \<Rightarrow> Some (expired_hit r (unat (win_size r) + i - head))
        | None \<Rightarrow> do {
            hi \<leftarrow> expired_scan (head + 1) (unat (win_size r) - 1 - head) now r;
            Some (case hi of Some i \<Rightarrow> expired_hit r (i - head) | None \<Rightarrow> (r, None))
          })
     } else do {
       hi \<leftarrow> expired_scan (head + 1) (index - head) now r;
       Some (case hi of Some i \<Rightarrow> expired_hit r (i - head) | None \<Rightarrow> (r, None))
     }
   }"

definition aml_reo_entry_aging :: "u64 \<Rightarrow> reo_io \<Rightarrow> reo_io option" where
  "aml_reo_entry_aging now c =
     (if \<not> aml_reo_has_buffer (reo c) then None
      else if last_aging (reo c) = now then Some c
      else do {
        (r, e) \<leftarrow> aml_reo_entry_expired_lsn now (reo c);
        c \<leftarrow> (case e of
               None \<Rightarrow> Some (c\<lparr>reo := r\<rparr>)
             | Some s \<Rightarrow>
                 if s = ssn r then None
                 else aml_reo_shift_to s (c\<lparr>reo := r\<lparr>last_timeout := aml_reo_evt_set now (uint s)\<rparr>\<rparr>));
        Some (upd_reo (\<lambda>r. r\<lparr>last_aging := now\<rparr>) c)
      })"

section \<open>Receiving a frame\<close>

definition aml_reo_session_add_to_aging_list :: "aml_reo_session \<Rightarrow> aml_reo_session" where
  "aml_reo_session_add_to_aging_list r = r\<lparr>on_aging_list := True\<rparr>"

text \<open>The first frame after a reset restarts the window at its own number.\<close>

definition reset_first :: "u16 \<Rightarrow> aml_reo_session \<Rightarrow> aml_reo_session option" where
  "reset_first s r =
     (if reset r then
        (if aml_reo_has_buffer r then None
         else Some (r\<lparr>reset := False, ssn := s, lsn := s\<rparr>))
      else Some r)"

definition drop_old :: "mpdu \<Rightarrow> nat \<Rightarrow> reo_io \<Rightarrow> reo_io option" where
  "drop_old f i c =
     (if i < length (delivered (reo c)) then
        let r = reo c;
            dup = delivered r ! i \<and> ieee80211_sn_sub (ssn r) (sn f) \<le> win_size r;
            r = (if dup then r\<lparr>st_dup := st_dup r + 1\<rparr> else r\<lparr>st_stale := st_stale r + 1\<rparr>)
        in Some (aml_mpdu_free f (c\<lparr>reo := r\<rparr>))
      else None)"

definition make_room :: "u64 \<Rightarrow> u16 \<Rightarrow> reo_io \<Rightarrow> reo_io option" where
  "make_room now s c =
     (if \<not> ieee80211_sn_less s (ssn (reo c) + buf_size (reo c)) then
        aml_reo_shift_to (ieee80211_sn_sub s (buf_size (reo c) - 1))
          (upd_reo (\<lambda>r. r\<lparr>st_out_win := st_out_win r + 1, last_out_win := aml_reo_evt_set now (uint s)\<rparr>) c)
      else Some c)"

definition keep_newer :: "u64 \<Rightarrow> nat \<Rightarrow> mpdu \<Rightarrow> mpdu \<Rightarrow> reo_io \<Rightarrow> reo_io option" where
  "keep_newer now i f f0 c =
     (let c = upd_reo (\<lambda>r. r\<lparr>st_dup := st_dup r + 1\<rparr>) c
      in if (pn_check (reo c) \<or> pn_present f) \<and> (\<not> pn_present f0 \<or> pn0 f0 < pn0 f) then do {
           r \<leftarrow> aml_reo_entry_skb_set now i f (reo c);
           Some (aml_mpdu_free f0 (c\<lparr>reo := r\<rparr>))
         } else Some (aml_mpdu_free f c))"

definition deliver_in_order :: "mpdu \<Rightarrow> nat \<Rightarrow> reo_io \<Rightarrow> reo_io option" where
  "deliver_in_order f i c = do {
     (c, popped) \<leftarrow> aml_reo_dequeue f i c;
     if popped then
       (let s = ieee80211_sn_inc (sn f) in aml_reo_shift_to s (upd_reo (\<lambda>r. r\<lparr>ssn := s\<rparr>) c))
     else Some c
   }"

definition store_frame :: "u64 \<Rightarrow> nat \<Rightarrow> mpdu \<Rightarrow> reo_io \<Rightarrow> reo_io option" where
  "store_frame now i f c = do {
     r \<leftarrow> aml_reo_entry_skb_set now i f ((reo c)\<lparr>in_buffer := in_buffer (reo c) + 1\<rparr>);
     let r = (if ieee80211_sn_less (lsn r) (sn f) then r\<lparr>lsn := sn f\<rparr> else r);
     let r = (if in_buffer r = 1 then aml_reo_session_add_to_aging_list r else r);
     Some (c\<lparr>reo := r\<rparr>)
   }"

definition aml_reo_enqueue :: "u64 \<Rightarrow> mpdu \<Rightarrow> reo_io \<Rightarrow> reo_io option" where
  "aml_reo_enqueue now f c = do {
     let i = aml_reo_entry_index (reo c) (sn f);
     r \<leftarrow> reset_first (sn f) ((reo c)\<lparr>st_rx := st_rx (reo c) + 1, last_rx := now\<rparr>);
     let c = c\<lparr>reo := r\<rparr>;
     if ieee80211_sn_less (sn f) (ssn (reo c)) then drop_old f i c
     else do {
       c \<leftarrow> make_room now (sn f) c;
       stored \<leftarrow> slot (reo c) i;
       (case stored of
          Some f0 \<Rightarrow> keep_newer now i f f0 c
        | None \<Rightarrow> if sn f = ssn (reo c) then deliver_in_order f i c else store_frame now i f c)
     }
   }"

section \<open>Moving the window on request\<close>

definition bitmap_clear :: "nat \<Rightarrow> nat \<Rightarrow> aml_reo_session \<Rightarrow> aml_reo_session option" where
  "bitmap_clear start n r =
     (if start + n \<le> length (delivered r)
      then Some (r\<lparr>delivered := take start (delivered r) @ replicate n False @ drop (start + n) (delivered r)\<rparr>)
      else None)"

definition aml_reo_reset_ssn :: "u16 \<Rightarrow> aml_reo_session \<Rightarrow> aml_reo_session option" where
  "aml_reo_reset_ssn s r = do {
     r \<leftarrow> (if win_size r \<le> ieee80211_sn_sub s (lsn r) then bitmap_clear 0 (unat (win_size r)) r
           else do {
             let start = aml_reo_entry_index r (lsn r);
             let stop = aml_reo_entry_index r s;
             r \<leftarrow> (if stop < start then bitmap_clear start (unat (win_size r) - start) r else Some r);
             let start = (if stop < start then 0 else start);
             if start < stop then bitmap_clear start (stop - start) r else Some r
           });
     Some (r\<lparr>ssn := s, lsn := s\<rparr>)
   }"

definition aml_reo_forward_to :: "u64 \<Rightarrow> u16 \<Rightarrow> reo_io \<Rightarrow> reo_io option" where
  "aml_reo_forward_to now s c = do {
     let c = upd_reo (\<lambda>r. r\<lparr>last_bar := aml_reo_evt_set now (uint s)\<rparr>) c;
     let r = reo c;
     if s = ssn r then Some c
     else if \<not> aml_reo_has_buffer r then do {
       r \<leftarrow> aml_reo_reset_ssn s r;
       Some (c\<lparr>reo := r\<rparr>)
     }
     else if \<not> ieee80211_sn_less (ssn r) s \<and> \<not> ieee80211_sn_less (lsn r) s then aml_reo_shift_to s c
     else do {
       c \<leftarrow> aml_reo_shift_to (ieee80211_sn_inc (lsn r)) c;
       r \<leftarrow> aml_reo_reset_ssn s (reo c);
       Some (c\<lparr>reo := r\<rparr>)
     }
   }"

definition aml_reo_forward_all :: "u64 \<Rightarrow> reo_io \<Rightarrow> reo_io option" where
  "aml_reo_forward_all now c = aml_reo_forward_to now (lsn (reo c)) c"

section \<open>Sessions of a station\<close>

definition IEEE80211_NUM_UPS :: nat where "IEEE80211_NUM_UPS = 8"
definition IEEE80211_MAX_AMPDU_BUF :: u16 where "IEEE80211_MAX_AMPDU_BUF = 0x100"
definition IEEE80211_MAX_AMPDU_BUF_HT :: u16 where "IEEE80211_MAX_AMPDU_BUF_HT = 0x40"
definition AML_REO_TIMEOUT_TU_MIN :: u16 where "AML_REO_TIMEOUT_TU_MIN = 1"
definition AML_REO_TIMEOUT_TU_MAX :: u16 where "AML_REO_TIMEOUT_TU_MAX = 1000"
definition AML_REO_TIMEOUT_TU_DEFAULT :: u16 where "AML_REO_TIMEOUT_TU_DEFAULT = 200"

record aml_sta =
  sta_valid :: bool
  he :: bool
  reos :: "aml_reo_session option list"

text \<open>An operation on a station's sessions: the station, the frames handed up, the frames freed.\<close>

type_synonym sta_io = "aml_sta \<times> mpdu list \<times> mpdu list"

definition aml_reo_session_get :: "aml_sta option \<Rightarrow> nat \<Rightarrow> aml_reo_session option" where
  "aml_reo_session_get sta t = do {
     s \<leftarrow> sta;
     if length (reos s) \<le> t then None else reos s ! t
   }"

text \<open>The session is read from the table before the index is checked.\<close>

definition aml_reo_session_release :: "u64 \<Rightarrow> nat \<Rightarrow> aml_sta \<Rightarrow> sta_io option" where
  "aml_reo_session_release now t sta =
     (if length (reos sta) \<le> t then None
      else case reos sta ! t of
        None \<Rightarrow> Some (sta, [], [])
      | Some r \<Rightarrow> do {
          let sta = sta\<lparr>reos := (reos sta)[t := None]\<rparr>;
          c \<leftarrow> aml_reo_forward_all now \<lparr>reo = r\<lparr>on_aging_list := False\<rparr>, frames = [], freed = []\<rparr>;
          Some (sta, frames c, freed c)
        })"

definition aml_reo_session_delete :: "u64 \<Rightarrow> aml_sta option \<Rightarrow> nat \<Rightarrow> (sta_io option \<times> int) option" where
  "aml_reo_session_delete now sta t =
     (case sta of
        None \<Rightarrow> Some (None, -1)
      | Some s \<Rightarrow> do {
          io \<leftarrow> aml_reo_session_release now t s;
          Some (Some io, 0)
        })"

fun release_all :: "u64 \<Rightarrow> nat list \<Rightarrow> aml_sta \<Rightarrow> sta_io option" where
  "release_all now [] sta = Some (sta, [], [])"
| "release_all now (t # ts) sta = do {
     (sta, up, dn) \<leftarrow> aml_reo_session_release now t sta;
     (sta, up', dn') \<leftarrow> release_all now ts sta;
     Some (sta, up @ up', dn @ dn')
   }"

definition aml_reo_sta_deinit :: "u64 \<Rightarrow> aml_sta \<Rightarrow> sta_io option" where
  "aml_reo_sta_deinit now sta = release_all now [0..<length (reos sta)] sta"

definition aml_reo_session_timeout_set :: "(nat \<Rightarrow> u64) \<Rightarrow> u16 \<Rightarrow> aml_reo_session \<Rightarrow> aml_reo_session \<times> int" where
  "aml_reo_session_timeout_set usecs_to_jiffies tu r =
     (if tu < AML_REO_TIMEOUT_TU_MIN \<or> AML_REO_TIMEOUT_TU_MAX < tu then (r, -1)
      else let ticks = usecs_to_jiffies (unat tu * 1024)
           in (r\<lparr>timeout_tu := tu, timeout_ticks := (if ticks = 0 then 1 else ticks)\<rparr>, 0))"

text \<open>The window size: the doubling loop on a 16-bit variable ends only when it reaches \<open>sz\<close>
  before it wraps to 0.\<close>

partial_function (option) grow_win :: "u16 \<Rightarrow> u16 \<Rightarrow> u16 option" where
  "grow_win w sz = (if w < sz then grow_win (push_bit 1 w) sz else Some w)"

definition new_session :: "(nat \<Rightarrow> u64) \<Rightarrow> u64 \<Rightarrow> nat \<Rightarrow> u16 \<Rightarrow> u16 \<Rightarrow> u16 \<Rightarrow> aml_reo_session" where
  "new_session jif now t sz w s =
     fst (aml_reo_session_timeout_set jif AML_REO_TIMEOUT_TU_DEFAULT
       \<lparr>tid = t, buf_size = sz, win_size = w, timeout_tu = 0, timeout_ticks = 0, ssn = s, lsn = s,
        reset = False, pn_check = False, pn = 0, on_aging_list = False,
        last_rx = now, last_aging = now, last_bar = aml_reo_evt_set now (-1),
        last_out_win = aml_reo_evt_set now (-1), last_timeout = aml_reo_evt_set now (-1),
        in_buffer = 0, st_rx = 0, st_dup = 0, st_miss = 0, st_stale = 0, st_out_win = 0,
        st_pn_err = 0, st_timeout = 0, delivered = replicate (unat w) False,
        buf = replicate (unat w) \<lparr>deadline = 0, skb = None\<rparr>\<rparr>)"

text \<open>\<open>alloc\<close> is the success of \<open>kzalloc\<close>. An agreement of the same size only moves the window
  of the existing session.\<close>

definition aml_reo_session_create ::
    "(nat \<Rightarrow> u64) \<Rightarrow> bool \<Rightarrow> u64 \<Rightarrow> aml_sta option \<Rightarrow> nat \<Rightarrow> u16 \<Rightarrow> u16 \<Rightarrow> (sta_io option \<times> int) option" where
  "aml_reo_session_create jif alloc now sta t sz s = do {
     w \<leftarrow> grow_win 1 sz;
     if sz \<le> drop_bit 1 w \<or> 4096 < w then None
     else case sta of
       None \<Rightarrow> Some (None, -1)
     | Some st \<Rightarrow>
         if length (reos st) \<le> t \<or> 4095 < s then Some (Some (st, [], []), -1)
         else do {
           let max_sz = (if he st then IEEE80211_MAX_AMPDU_BUF else IEEE80211_MAX_AMPDU_BUF_HT);
           let sz = (if sz < 1 then 1 else if max_sz < sz then max_sz else sz);
           (case reos st ! t of
              Some r \<Rightarrow>
                if buf_size r = sz then do {
                  c \<leftarrow> aml_reo_forward_to now s \<lparr>reo = r, frames = [], freed = []\<rparr>;
                  Some (Some (st\<lparr>reos := (reos st)[t := Some (reo c)]\<rparr>, frames c, freed c), 0)
                } else do {
                  (st, up, dn) \<leftarrow> aml_reo_session_release now t st;
                  Some (if alloc then (Some (st\<lparr>reos := (reos st)[t := Some (new_session jif now t sz w s)]\<rparr>, up, dn), 0)
                        else (Some (st, up, dn), -1))
                }
            | None \<Rightarrow>
                Some (if alloc then (Some (st\<lparr>reos := (reos st)[t := Some (new_session jif now t sz w s)]\<rparr>, [], []), 0)
                      else (Some (st, [], []), -1)))
         }
   }"

text \<open>\<open>aml_reo_reset_all\<close> for one station; the whole loop runs it over the valid stations.\<close>

fun reset_sessions :: "u64 \<Rightarrow> aml_reo_session option list
    \<Rightarrow> (aml_reo_session option list \<times> mpdu list \<times> mpdu list) option" where
  "reset_sessions now [] = Some ([], [], [])"
| "reset_sessions now (None # rs) = do {
     (rs, up, dn) \<leftarrow> reset_sessions now rs;
     Some (None # rs, up, dn)
   }"
| "reset_sessions now (Some r # rs) = do {
     c \<leftarrow> aml_reo_forward_all now \<lparr>reo = r\<lparr>reset := True\<rparr>, frames = [], freed = []\<rparr>;
     (rs, up, dn) \<leftarrow> reset_sessions now rs;
     Some (Some (reo c) # rs, frames c @ up, freed c @ dn)
   }"

fun aml_reo_reset_all :: "u64 \<Rightarrow> aml_sta list \<Rightarrow> (aml_sta list \<times> mpdu list \<times> mpdu list) option" where
  "aml_reo_reset_all now [] = Some ([], [], [])"
| "aml_reo_reset_all now (st # sts) = do {
     (st, up, dn) \<leftarrow> (if sta_valid st then do {
         (rs, up, dn) \<leftarrow> reset_sessions now (reos st);
         Some (st\<lparr>reos := rs\<rparr>, up, dn)
       } else Some (st, [], []));
     (sts, up', dn') \<leftarrow> aml_reo_reset_all now sts;
     Some (st # sts, up @ up', dn @ dn')
   }"

definition aml_reo_sta_addkey :: "aml_sta \<Rightarrow> aml_sta" where
  "aml_reo_sta_addkey st = st\<lparr>reos := map (map_option (\<lambda>r. r\<lparr>pn := 0, pn_check := True\<rparr>)) (reos st)\<rparr>"

text \<open>\<open>aml_reo_aging\<close>: the sessions on the ageing list, in its order; each may leave the list.\<close>

fun aml_reo_aging :: "u64 \<Rightarrow> aml_reo_session list \<Rightarrow> (aml_reo_session list \<times> mpdu list \<times> mpdu list) option" where
  "aml_reo_aging now [] = Some ([], [], [])"
| "aml_reo_aging now (r # rs) = do {
     c \<leftarrow> aml_reo_entry_aging now \<lparr>reo = r, frames = [], freed = []\<rparr>;
     (rs, up, dn) \<leftarrow> aml_reo_aging now rs;
     Some (reo c # rs, frames c @ up, freed c @ dn)
   }"

section \<open>Block-ack requests\<close>

definition IEEE80211_BAR_CTRL_MULTI_TID :: u16 where "IEEE80211_BAR_CTRL_MULTI_TID = 2"
definition IEEE80211_BAR_CTRL_CBMTID_COMPRESSED_BA :: u16 where "IEEE80211_BAR_CTRL_CBMTID_COMPRESSED_BA = 4"
definition IEEE80211_BAR_CTRL_TID_INFO_MASK :: u16 where "IEEE80211_BAR_CTRL_TID_INFO_MASK = 0xF000"

text \<open>The loop over the per-TID records from offset \<open>per\<close>; the calls it makes are \<open>(tid, ssn)\<close>
  pairs, the flag tells a malformed end.\<close>

fun bar_records :: "nat \<Rightarrow> u8 list \<Rightarrow> nat \<Rightarrow> ((nat \<times> u16) list \<times> bool) option" where
  "bar_records 0 d per = (if per < length d then None else Some ([], True))"
| "bar_records (Suc n) d per =
     (if per < length d then do {
        info \<leftarrow> rd_le16 d per;
        let t = unat (drop_bit 12 (info AND IEEE80211_BAR_CTRL_TID_INFO_MASK));
        if IEEE80211_NUM_UPS \<le> t then Some ([], False)
        else do {
          start \<leftarrow> rd_le16 d (per + 2);
          (calls, ok) \<leftarrow> bar_records n d (per + 4);
          Some ((t, drop_bit 4 start) # calls, ok)
        }
      } else Some ([], True))"

text \<open>
  \<open>aml_reo_bar_process\<close> up to the calls of \<open>aml_reo_forward_to\<close>. The length test compares an
  \<open>int\<close> with a \<open>size_t\<close>: a frame shorter than 18 bytes gives a negative length, which the
  comparison converts to a huge one. \<open>start_seq_num\<close> is at offset 18 of the 20-byte frame.
\<close>

definition aml_reo_bar_process :: "bool \<Rightarrow> u8 list \<Rightarrow> ((nat \<times> u16) list \<times> int) option" where
  "aml_reo_bar_process has_sta d =
     (let len = (of_nat (length d) - 18 :: u64)
      in if has_sta \<and> 2 \<le> len then do {
           control \<leftarrow> rd_le16 d 16;
           if control AND (BIT 4 OR BIT 3) \<noteq> 0 then Some ([], -1)
           else do {
             let ty = control AND (IEEE80211_BAR_CTRL_MULTI_TID OR IEEE80211_BAR_CTRL_CBMTID_COMPRESSED_BA);
             if ty = 0 then Some ([], -1)
             else if ty = IEEE80211_BAR_CTRL_CBMTID_COMPRESSED_BA \<or> ty = IEEE80211_BAR_CTRL_MULTI_TID then
               if length d \<noteq> 20 then Some ([], -1)
               else do {
                 (calls, ok) \<leftarrow> bar_records 1 d 16;
                 Some (calls, if ok then 0 else -1)
               }
             else if len mod 4 \<noteq> 0 \<or> 4 * of_nat IEEE80211_NUM_UPS < len then Some ([], -1)
             else do {
               (calls, ok) \<leftarrow> bar_records IEEE80211_NUM_UPS d 18;
               Some (calls, if ok then 0 else -1)
             }
           }
         }
         else Some ([], -1))"

section \<open>Offsets\<close>

text \<open>The distance of a sequence number from a base, going upwards modulo 4096.\<close>

definition off :: "u16 \<Rightarrow> u16 \<Rightarrow> int" where
  "off b s = (uint s - uint b) mod 4096"

lemma off_range: "0 \<le> off b s" "off b s < 4096"
  by (simp_all add: off_def)

lemma uint_take: "uint (take_bit k (x :: u16)) = uint x mod 2 ^ k"
proof -
  have "uint (take_bit k x) = take_bit k (uint x)"
    by (rule unsigned_take_bit_eq)
  also have "\<dots> = uint x mod 2 ^ k"
    by (simp add: take_bit_eq_mod)
  finally show ?thesis .
qed

lemma uint_two_power: "k \<le> 12 \<Longrightarrow> uint ((2 :: u16) ^ k) = 2 ^ k"
proof -
  assume "k \<le> 12"
  then have "take_bit 16 ((2 :: int) ^ k) = 2 ^ k"
    by (simp add: take_bit_int_eq_self)
  moreover have "uint (push_bit k (1 :: u16)) = take_bit LENGTH(16) (push_bit k (uint (1 :: u16)))"
    by (rule unsigned_push_bit_eq)
  then have "uint ((2 :: u16) ^ k) = take_bit 16 (2 ^ k)"
    unfolding push_bit_of_1 unsigned_1 by simp
  ultimately show ?thesis
    by simp
qed

lemma uint_and_FFF: "uint ((x :: u16) AND 0xFFF) = uint x mod 4096"
proof -
  have "x AND 0xFFF = take_bit 12 x"
    by (simp add: take_bit_eq_mask mask_eq_exp_minus_1)
  then show ?thesis
    using uint_take [of 12 x] by simp
qed

lemma mod_65536_4096: "(x :: int) mod 65536 mod 4096 = x mod 4096"
  by (simp add: mod_mod_cancel)

lemma uint_diff_mod: "uint ((a :: u16) - b) mod 4096 = (uint a - uint b) mod 4096"
  by (simp add: uint_word_ariths mod_65536_4096)

lemma uint_add_mod: "uint ((a :: u16) + b) mod 4096 = (uint a + uint b) mod 4096"
  by (simp add: uint_word_ariths mod_65536_4096)

lemma off_self [simp]: "off b b = 0"
  by (simp add: off_def)

lemma off_diff: "(uint a - uint c) mod 4096 = (off b a - off b c) mod 4096"
  by (simp add: off_def mod_diff_eq)

lemma sn_less_off: "ieee80211_sn_less a c \<longleftrightarrow> 2048 < (off b a - off b c) mod 4096"
  by (simp add: ieee80211_sn_less_def word_less_def uint_and_FFF uint_diff_mod off_diff [of a c b])

lemma mod_4096_cases: "-4096 < d \<Longrightarrow> d < 4096 \<Longrightarrow> d mod 4096 = (if 0 \<le> d then d else d + 4096)" for d :: int
proof -
  assume d: "-4096 < d" "d < 4096"
  show ?thesis
  proof (cases "0 \<le> d")
    case False
    have "d mod 4096 = (d + 4096) mod 4096"
      by simp
    also have "\<dots> = d + 4096"
      using d False by (intro mod_pos_pos_trivial) linarith+
    finally show ?thesis
      using False by simp
  qed (use d in \<open>simp add: mod_pos_pos_trivial\<close>)
qed

lemma sn_less_iff: "ieee80211_sn_less a c \<longleftrightarrow>
    (if off b a < off b c then off b c - off b a < 2048 else 2048 < off b a - off b c)"
proof -
  have "-4096 < off b a - off b c" "off b a - off b c < 4096"
    using off_range [of b a] off_range [of b c] by linarith+
  from mod_4096_cases [OF this] show ?thesis
    unfolding sn_less_off [of a c b] by auto
qed

lemma sn_range: "ieee80211_sn_add a c \<le> 0xFFF" "ieee80211_sn_inc a \<le> 0xFFF" "ieee80211_sn_sub a c \<le> 0xFFF"
  by (simp_all add: ieee80211_sn_inc_def ieee80211_sn_add_def ieee80211_sn_sub_def word_le_def uint_and_FFF)

lemma off_add: "off b (ieee80211_sn_add a c) = (off b a + uint c) mod 4096"
proof -
  have "off b (ieee80211_sn_add a c) = (uint a + uint c - uint b) mod 4096"
    by (simp add: off_def ieee80211_sn_add_def uint_and_FFF uint_add_mod mod_diff_left_eq)
  also have "\<dots> = (uint a - uint b + uint c) mod 4096"
    by (simp add: algebra_simps)
  finally show ?thesis
    by (simp add: off_def mod_add_left_eq)
qed

lemma off_inc: "off b (ieee80211_sn_inc a) = (off b a + 1) mod 4096"
  by (simp add: ieee80211_sn_inc_def off_add)

lemma off_inc_less: "off b a < 4095 \<Longrightarrow> off b (ieee80211_sn_inc a) = off b a + 1"
  using off_range [of b a] by (simp add: off_inc mod_pos_pos_trivial)

lemma uint_sub: "uint (ieee80211_sn_sub a c) = (uint a - uint c) mod 4096"
  by (simp add: ieee80211_sn_sub_def uint_and_FFF uint_diff_mod)

lemma off_sub: "off b (ieee80211_sn_sub a c) = (off b a - uint c) mod 4096"
proof -
  have "off b (ieee80211_sn_sub a c) = (uint a - uint c - uint b) mod 4096"
    by (simp add: off_def uint_sub mod_diff_left_eq)
  also have "\<dots> = (uint a - uint b - uint c) mod 4096"
    by (simp add: algebra_simps)
  finally show ?thesis
    by (simp add: off_def mod_diff_left_eq)
qed

lemma off_inj: "off b s = off b t \<Longrightarrow> s \<le> 0xFFF \<Longrightarrow> t \<le> 0xFFF \<Longrightarrow> s = t"
proof -
  assume eq: "off b s = off b t" and r: "s \<le> 0xFFF" "t \<le> 0xFFF"
  have "(uint s - uint b) mod 4096 = (uint t - uint b) mod 4096"
    using eq by (simp add: off_def)
  then have "(uint s - uint b + uint b) mod 4096 = (uint t - uint b + uint b) mod 4096"
    by (metis mod_add_left_eq)
  moreover have "uint s < 4096" "uint t < 4096"
    using r by (simp_all add: word_le_def)
  ultimately have "uint s = uint t"
    by (simp add: mod_pos_pos_trivial)
  then show "s = t"
    by (simp add: word_uint_eq_iff)
qed

text \<open>Offsets from another base.\<close>

lemma off_rebase: "off c s = (off b s - off b c) mod 4096"
  by (simp add: off_def mod_diff_eq)

lemma off_rebase_ge: "off b c \<le> off b s \<Longrightarrow> off c s = off b s - off b c"
  using off_range [of b s] off_range [of b c]
  by (subst off_rebase [of c s b]) (rule mod_pos_pos_trivial; linarith)

section \<open>Window slots\<close>

definition win_ok :: "aml_reo_session \<Rightarrow> bool" where
  "win_ok r \<longleftrightarrow> (\<exists>k\<le>12. win_size r = 2 ^ k) \<and> 0 < buf_size r \<and> buf_size r \<le> win_size r
     \<and> buf_size r \<le> 256
     \<and> length (buf r) = unat (win_size r) \<and> length (delivered r) = unat (win_size r)"

lemma win_pow: "win_ok r \<Longrightarrow> \<exists>k\<le>12. win_size r = 2 ^ k \<and> uint (win_size r) = 2 ^ k"
proof -
  assume "win_ok r"
  then obtain k where k: "k \<le> 12" "win_size r = 2 ^ k"
    by (auto simp: win_ok_def)
  then have "uint (win_size r) = 2 ^ k"
    by (simp add: uint_two_power)
  with k show ?thesis
    by blast
qed

lemma uint_index:
  assumes "win_ok r"
  shows "int (aml_reo_entry_index r s) = uint s mod uint (win_size r)"
proof -
  obtain k where k: "k \<le> 12" "win_size r = 2 ^ k" "uint (win_size r) = 2 ^ k"
    using win_pow [OF assms] by blast
  have "s AND (win_size r - 1) = take_bit k s"
    by (simp add: k(2) take_bit_eq_mask mask_eq_exp_minus_1)
  then have "int (aml_reo_entry_index r s) = uint (take_bit k s)"
    by (simp add: aml_reo_entry_index_def)
  then show ?thesis
    by (simp add: k(3) uint_take)
qed

lemma index_range:
  assumes "win_ok r"
  shows "aml_reo_entry_index r s < length (buf r)"
proof -
  obtain k where k: "uint (win_size r) = 2 ^ k"
    using win_pow [OF assms] by blast
  have "int (aml_reo_entry_index r s) < uint (win_size r)"
    using uint_index [OF assms, of s] k by simp
  moreover have "length (buf r) = unat (win_size r)"
    using assms by (simp add: win_ok_def)
  moreover have "int (unat (win_size r)) = uint (win_size r)"
    by simp
  ultimately show ?thesis
    by (metis of_nat_less_iff)
qed

lemma index_range_delivered: "win_ok r \<Longrightarrow> aml_reo_entry_index r s < length (delivered r)"
  using index_range [of r s] by (simp add: win_ok_def)

lemma win_dvd: "win_ok r \<Longrightarrow> uint (win_size r) dvd 4096"
proof -
  assume "win_ok r"
  then obtain k where k: "k \<le> 12" "uint (win_size r) = 2 ^ k"
    using win_pow by blast
  have "(2::int) ^ k dvd 2 ^ 12"
    using k(1) by (rule le_imp_power_dvd)
  with k show ?thesis
    by simp
qed

text \<open>Two numbers less than a window apart share a slot only when they are equal.\<close>

lemma index_off:
  assumes "win_ok r"
  shows "aml_reo_entry_index r s = aml_reo_entry_index r t
     \<longleftrightarrow> off b s mod uint (win_size r) = off b t mod uint (win_size r)"
proof -
  note d = win_dvd [OF assms]
  have "off b x mod uint (win_size r) = (uint x - uint b) mod uint (win_size r)" for x
    using d by (simp add: off_def mod_mod_cancel)
  moreover have "(uint s - uint b) mod uint (win_size r) = (uint t - uint b) mod uint (win_size r)
      \<longleftrightarrow> uint s mod uint (win_size r) = uint t mod uint (win_size r)"
    by (metis (no_types, opaque_lifting) diff_add_cancel mod_add_left_eq mod_diff_left_eq)
  ultimately show ?thesis
    using uint_index [OF assms] by (metis of_nat_eq_iff)
qed

lemma index_same:
  assumes "win_ok r" and "aml_reo_entry_index r s = aml_reo_entry_index r t"
    and "off b s < uint (win_size r)" and "off b t < uint (win_size r)"
    and "s \<le> 0xFFF" and "t \<le> 0xFFF"
  shows "s = t"
proof -
  have "off b s mod uint (win_size r) = off b t mod uint (win_size r)"
    using index_off [OF assms(1)] assms(2) by blast
  with assms(3,4) have "off b s = off b t"
    by (simp add: mod_pos_pos_trivial off_range)
  then show ?thesis
    using assms(5,6) off_inj by blast
qed

section \<open>What a shift does\<close>

definition slots :: "aml_reo_session \<Rightarrow> mpdu option list" where
  "slots r = map skb (buf r)"

definition opt_mset :: "'a option \<Rightarrow> 'a multiset" where
  "opt_mset x = (case x of None \<Rightarrow> {#} | Some f \<Rightarrow> {#f#})"

lemma opt_mset_simps [simp]: "opt_mset None = {#}" "opt_mset (Some f) = {#f#}"
  by (simp_all add: opt_mset_def)

primrec held :: "'a option list \<Rightarrow> 'a multiset" where
  "held [] = {#}"
| "held (x # xs) = opt_mset x + held xs"

lemma held_update: "i < length xs \<Longrightarrow> held (xs[i := y]) + opt_mset (xs ! i) = held xs + opt_mset y"
proof (induction xs arbitrary: i)
  case (Cons x xs)
  show ?case
  proof (cases i)
    case (Suc j)
    with Cons.IH [of j] Cons.prems show ?thesis
      by (simp add: add.assoc)
  qed simp
qed simp

lemma held_mem: "f \<in># held xs \<longleftrightarrow> Some f \<in> set xs"
  by (induction xs) (auto simp: opt_mset_def split: option.splits)

lemma length_slots [simp]: "length (slots r) = length (buf r)"
  by (simp add: slots_def)

lemma nth_slots [simp]: "i < length (buf r) \<Longrightarrow> slots r ! i = skb (buf r ! i)"
  by (simp add: slots_def)

text \<open>What the operations on slots keep.\<close>

definition same_window :: "aml_reo_session \<Rightarrow> aml_reo_session \<Rightarrow> bool" where
  "same_window r r' \<longleftrightarrow> win_size r' = win_size r \<and> buf_size r' = buf_size r
     \<and> ssn r' = ssn r \<and> lsn r' = lsn r \<and> reset r' = reset r \<and> on_aging_list r' = on_aging_list r
     \<and> timeout_ticks r' = timeout_ticks r \<and> last_aging r' = last_aging r
     \<and> length (buf r') = length (buf r) \<and> length (delivered r') = length (delivered r)"

lemma same_window_refl [simp]: "same_window r r"
  by (simp add: same_window_def)

lemma same_window_trans: "same_window r s \<Longrightarrow> same_window s t \<Longrightarrow> same_window r t"
  by (simp add: same_window_def)

lemma same_window_ok: "same_window r r' \<Longrightarrow> win_ok r \<Longrightarrow> win_ok r'"
  by (simp add: same_window_def win_ok_def)

lemma same_window_index: "same_window r r' \<Longrightarrow> aml_reo_entry_index r' s = aml_reo_entry_index r s"
  by (simp add: same_window_def aml_reo_entry_index_def)

text \<open>The packet numbers of delivered frames.\<close>

definition pn_step :: "aml_reo_session \<Rightarrow> mpdu list \<Rightarrow> aml_reo_session \<Rightarrow> bool" where
  "pn_step r fs r' \<longleftrightarrow> (pn_check r \<longrightarrow> pn_check r' \<and> pn r \<le> pn r' \<and> sorted_wrt (<) (map pn0 fs)
     \<and> (\<forall>f\<in>set fs. pn_present f \<and> pn r < pn0 f \<and> pn0 f \<le> pn r'))"

lemma pn_step_refl [simp]: "pn_step r [] r"
  by (simp add: pn_step_def)

lemma pn_step_trans: "pn_step r fs s \<Longrightarrow> pn_step s gs t \<Longrightarrow> pn_step r (fs @ gs) t"
  unfolding pn_step_def
  by (auto simp: sorted_wrt_append intro: order.trans order.strict_trans1 order.strict_trans2)

lemma pop_slot_cases:
  assumes "pop_slot i c = Some (c', p)"
  shows "i < length (buf (reo c)) \<and>
     (case skb (buf (reo c) ! i) of
        None \<Rightarrow> c' = c \<and> \<not> p
      | Some m \<Rightarrow> same_window (reo c) (reo c') \<and> slots (reo c') = (slots (reo c))[i := None]
          \<and> in_buffer (reo c') = in_buffer (reo c) - 1
          \<and> frames c' = frames c @ (if p then [m] else []) \<and> freed c' = freed c @ (if p then [] else [m])
          \<and> pn_step (reo c) (if p then [m] else []) (reo c')
          \<and> (\<not> pn_check (reo c) \<longrightarrow> \<not> pn_present m \<longrightarrow> p \<and> \<not> pn_check (reo c')))"
  using assms
  by (auto simp: pop_slot_def slot_def entry_clear_def aml_reo_dequeue_def aml_reo_pn_check_def Let_def
      aml_mpdu_free_def set_delivered_def put_def same_window_def slots_def map_update pn_step_def not_le
      split: if_splits option.splits Option.bind_splits)

lemma pop_slot_defined:
  assumes "i < length (buf (reo c))" and "length (delivered (reo c)) = length (buf (reo c))"
  shows "\<exists>c' p. pop_slot i c = Some (c', p)"
  using assms
  by (auto simp: pop_slot_def slot_def entry_clear_def aml_reo_dequeue_def aml_reo_pn_check_def Let_def
      set_delivered_def split: option.splits)

text \<open>A round of the loop: the pop, then stop, or note a missing frame and go on.\<close>

lemma shift_loop_round:
  assumes "shift_loop (Suc n) t s c = Some (c', s')"
  shows "\<exists>c1 p. pop_slot (aml_reo_entry_index (reo c) s) c = Some (c1, p) \<and>
     (if p then shift_loop n t (ieee80211_sn_inc s) c1 = Some (c', s')
      else if \<not> ieee80211_sn_less s t then c' = c1 \<and> s' = s
      else \<exists>r2. same_window (reo c1) r2 \<and> slots r2 = slots (reo c1) \<and> in_buffer r2 = in_buffer (reo c1)
             \<and> pn_check r2 = pn_check (reo c1) \<and> pn r2 = pn (reo c1)
             \<and> shift_loop n t (ieee80211_sn_inc s) (c1\<lparr>reo := r2\<rparr>) = Some (c', s'))"
proof -
  let ?i = "aml_reo_entry_index (reo c) s"
  obtain c1 p where pop: "pop_slot ?i c = Some (c1, p)"
    using assms by (cases "pop_slot ?i c") (auto simp: Let_def)
  show ?thesis
  proof (cases "p \<or> \<not> ieee80211_sn_less s t")
    case True
    with assms pop show ?thesis
      by (cases p) (auto simp: Let_def ex_bool_eq)
  next
    case False
    let ?r = "(reo c1)\<lparr>st_miss := st_miss (reo c1) + 1\<rparr>"
    have l: "Option.bind (set_delivered ?i False ?r)
        (\<lambda>r. shift_loop n t (ieee80211_sn_inc s) (c1\<lparr>reo := r\<rparr>)) = Some (c', s')"
      using assms pop False by (simp add: Let_def)
    then obtain r2 where r2: "set_delivered ?i False ?r = Some r2"
        "shift_loop n t (ieee80211_sn_inc s) (c1\<lparr>reo := r2\<rparr>) = Some (c', s')"
      by (cases "set_delivered ?i False ?r") auto
    have "same_window (reo c1) r2 \<and> slots r2 = slots (reo c1) \<and> in_buffer r2 = in_buffer (reo c1)
        \<and> pn_check r2 = pn_check (reo c1) \<and> pn r2 = pn (reo c1)"
      using r2(1) by (auto simp: set_delivered_def put_def same_window_def slots_def split: if_splits)
    with False pop r2(2) show ?thesis
      by auto
  qed
qed

definition counted :: "aml_reo_session \<Rightarrow> bool" where
  "counted r \<longleftrightarrow> in_buffer r = int (size (held (slots r)))"

definition all_frames :: "reo_io \<Rightarrow> mpdu multiset" where
  "all_frames c = held (slots (reo c)) + mset (frames c) + mset (freed c)"

lemma held_pop:
  assumes "i < length xs" and "xs ! i = Some m"
  shows "held xs = add_mset m (held (xs[i := None]))"
  using held_update [OF assms(1), of None] assms(2) by simp

lemma pop_slot_conserves:
  assumes "pop_slot i c = Some (c', p)"
  shows "all_frames c' = all_frames c \<and> (counted (reo c) \<longrightarrow> counted (reo c'))
     \<and> held (slots (reo c')) \<subseteq># held (slots (reo c))"
proof (cases "skb (buf (reo c) ! i)")
  case None
  with pop_slot_cases [OF assms] show ?thesis
    by simp
next
  case (Some m)
  then have "held (slots (reo c)) = add_mset m (held (slots (reo c')))"
    using pop_slot_cases [OF assms] held_pop [of i "slots (reo c)" m] by simp
  with Some pop_slot_cases [OF assms] show ?thesis
    by (auto simp: all_frames_def counted_def)
qed

lemma shift_loop_conserves:
  assumes "shift_loop n t s c = Some (c', s')"
  shows "all_frames c' = all_frames c \<and> (counted (reo c) \<longrightarrow> counted (reo c')) \<and> same_window (reo c) (reo c')"
  using assms
proof (induction n arbitrary: s c)
  case (Suc n)
  from shift_loop_round [OF Suc.prems] obtain c1 p where
    pop: "pop_slot (aml_reo_entry_index (reo c) s) c = Some (c1, p)" and
    nxt: "if p then shift_loop n t (ieee80211_sn_inc s) c1 = Some (c', s')
      else if \<not> ieee80211_sn_less s t then c' = c1 \<and> s' = s
      else \<exists>r2. same_window (reo c1) r2 \<and> slots r2 = slots (reo c1) \<and> in_buffer r2 = in_buffer (reo c1)
             \<and> pn_check r2 = pn_check (reo c1) \<and> pn r2 = pn (reo c1)
             \<and> shift_loop n t (ieee80211_sn_inc s) (c1\<lparr>reo := r2\<rparr>) = Some (c', s')"
    by blast
  have same: "same_window (reo c) (reo c1)"
    using pop_slot_cases [OF pop] by (auto split: option.splits)
  show ?case
  proof (cases p)
    case True
    then have "shift_loop n t (ieee80211_sn_inc s) c1 = Some (c', s')"
      using nxt by simp
    from Suc.IH [OF this] show ?thesis
      using same pop_slot_conserves [OF pop] same_window_trans by metis
  next
    case False
    show ?thesis
    proof (cases "ieee80211_sn_less s t")
      case True
      then obtain r2 where r2: "same_window (reo c1) r2" "slots r2 = slots (reo c1)"
          "in_buffer r2 = in_buffer (reo c1)"
          "shift_loop n t (ieee80211_sn_inc s) (c1\<lparr>reo := r2\<rparr>) = Some (c', s')"
        using False nxt by auto
      have "all_frames (c1\<lparr>reo := r2\<rparr>) = all_frames c1" "counted r2 = counted (reo c1)"
        using r2 by (simp_all add: all_frames_def counted_def)
      moreover have "same_window (reo c) r2"
        using same r2(1) same_window_trans by blast
      ultimately show ?thesis
        using Suc.IH [OF r2(4)] pop_slot_conserves [OF pop] same_window_trans by simp
    qed (use False nxt same pop_slot_conserves [OF pop] in auto)
  qed
qed simp


lemma shift_loop_pn:
  assumes "shift_loop n t s c = Some (c', s')"
  shows "\<exists>new. frames c' = frames c @ new \<and> pn_step (reo c) new (reo c')"
  using assms
proof (induction n arbitrary: s c)
  case (Suc n)
  from shift_loop_round [OF Suc.prems] obtain c1 p where
    pop: "pop_slot (aml_reo_entry_index (reo c) s) c = Some (c1, p)" and
    nxt: "if p then shift_loop n t (ieee80211_sn_inc s) c1 = Some (c', s')
      else if \<not> ieee80211_sn_less s t then c' = c1 \<and> s' = s
      else \<exists>r2. same_window (reo c1) r2 \<and> slots r2 = slots (reo c1) \<and> in_buffer r2 = in_buffer (reo c1)
             \<and> pn_check r2 = pn_check (reo c1) \<and> pn r2 = pn (reo c1)
             \<and> shift_loop n t (ieee80211_sn_inc s) (c1\<lparr>reo := r2\<rparr>) = Some (c', s')"
    by blast
  have one: "\<exists>fs. frames c1 = frames c @ fs \<and> pn_step (reo c) fs (reo c1)"
    using pop_slot_cases [OF pop] by (auto split: option.splits)
  have more: ?case
    if "frames c1 = frames d" and "shift_loop n t (ieee80211_sn_inc s) d = Some (c', s')"
      and "pn_check (reo d) = pn_check (reo c1)" and "pn (reo d) = pn (reo c1)" for d
  proof -
    note h = that
    obtain fs where fs: "frames c1 = frames c @ fs" "pn_step (reo c) fs (reo c1)"
      using one by blast
    obtain gs where gs: "frames c' = frames d @ gs" "pn_step (reo d) gs (reo c')"
      using Suc.IH [OF h(2)] by blast
    have "pn_step (reo c1) gs (reo c')"
      using gs(2) h by (simp add: pn_step_def)
    then have "pn_step (reo c) (fs @ gs) (reo c')"
      using fs(2) pn_step_trans by blast
    with fs(1) gs(1) h(1) show ?thesis
      by (intro exI [of _ "fs @ gs"]) simp
  qed
  show ?case
  proof (cases p)
    case True
    with nxt more [of c1] show ?thesis
      by simp
  next
    case False
    show ?thesis
    proof (cases "ieee80211_sn_less s t")
      case True
      then obtain r2 where "pn_check r2 = pn_check (reo c1)" "pn r2 = pn (reo c1)"
          "shift_loop n t (ieee80211_sn_inc s) (c1\<lparr>reo := r2\<rparr>) = Some (c', s')"
        using False nxt by auto
      with more [of "c1\<lparr>reo := r2\<rparr>"] show ?thesis
        by simp
    qed (use False nxt one in auto)
  qed
qed simp

text \<open>The frames of a window: each sits in its own slot, at an offset from the base between a
  lower bound and the buffer size.\<close>

definition frames_ok :: "u16 \<Rightarrow> int \<Rightarrow> aml_reo_session \<Rightarrow> bool" where
  "frames_ok b k r \<longleftrightarrow> (\<forall>i<length (buf r). \<forall>f. slots r ! i = Some f \<longrightarrow>
     sn f \<le> 0xFFF \<and> aml_reo_entry_index r (sn f) = i \<and> k \<le> off b (sn f) \<and> off b (sn f) < uint (buf_size r))"

definition keep :: "u16 \<Rightarrow> int \<Rightarrow> mpdu option \<Rightarrow> mpdu option" where
  "keep b k x = (case x of None \<Rightarrow> None | Some f \<Rightarrow> if k < off b (sn f) then Some f else None)"

lemma buf_size_win: "win_ok r \<Longrightarrow> uint (buf_size r) \<le> uint (win_size r)"
  by (simp add: win_ok_def word_le_def)

lemma frames_ok_at:
  assumes ok: "win_ok r" and fr: "frames_ok b k r" and "off b s = k" and "s \<le> 0xFFF"
    and f: "slots r ! aml_reo_entry_index r s = Some f"
  shows "sn f = s"
proof -
  have i: "aml_reo_entry_index r s < length (buf r)"
    using index_range [OF ok] .
  have g: "sn f \<le> 0xFFF" "aml_reo_entry_index r (sn f) = aml_reo_entry_index r s"
      "k \<le> off b (sn f)" "off b (sn f) < uint (buf_size r)"
    using fr i f unfolding frames_ok_def by blast+
  then have "off b (sn f) < uint (win_size r)" "off b s < uint (win_size r)"
    using buf_size_win [OF ok] assms(3) by linarith+
  with index_same [OF ok g(2), of b] g(1) assms(4) show ?thesis
    by blast
qed

lemma frames_ok_clear:
  assumes ok: "win_ok r" and fr: "frames_ok b k r" and s: "off b s = k" "s \<le> 0xFFF"
    and r': "same_window r r'" "slots r' = (slots r)[aml_reo_entry_index r s := None]"
  shows "frames_ok b (k + 1) r' \<and> slots r' = map (keep b k) (slots r)"
proof -
  let ?i = "aml_reo_entry_index r s"
  have i: "?i < length (buf r)"
    using index_range [OF ok] .
  have bound: "k < off b (sn f)" if "j < length (buf r)" "slots r ! j = Some f" "j \<noteq> ?i" for j f
  proof -
    have g: "sn f \<le> 0xFFF" "aml_reo_entry_index r (sn f) = j" "k \<le> off b (sn f)"
      using fr that unfolding frames_ok_def by blast+
    have "off b (sn f) \<noteq> k"
      using g s that(3) off_inj by metis
    with g show ?thesis
      by simp
  qed
  have drop: "keep b k (slots r ! ?i) = None"
    using frames_ok_at [OF ok fr s] s(1) by (auto simp: keep_def split: option.splits)
  have "slots r' = map (keep b k) (slots r)"
  proof (rule nth_equalityI)
    fix j
    assume "j < length (slots r')"
    then have j: "j < length (buf r)"
      using r'(2) by simp
    show "slots r' ! j = map (keep b k) (slots r) ! j"
    proof (cases "j = ?i")
      case True
      with j i drop show ?thesis
        unfolding r'(2) by simp
    next
      case False
      with j bound [OF j] show ?thesis
        unfolding r'(2) by (auto simp: keep_def simp del: nth_slots split: option.splits)
    qed
  qed (simp add: r'(2))
  moreover have "frames_ok b (k + 1) r'"
    unfolding frames_ok_def
  proof (intro allI impI)
    fix j f
    assume "j < length (buf r')" and f: "slots r' ! j = Some f"
    then have j: "j < length (buf r)" "j \<noteq> ?i" "slots r ! j = Some f"
      using r' i by (auto simp: same_window_def nth_list_update simp del: nth_slots split: if_splits)
    with bound [OF j(1,3,2)] fr r'(1) show "sn f \<le> 0xFFF \<and> aml_reo_entry_index r' (sn f) = j
        \<and> k + 1 \<le> off b (sn f) \<and> off b (sn f) < uint (buf_size r')"
      unfolding frames_ok_def same_window_index [OF r'(1)] by (auto simp: same_window_def)
  qed
  ultimately show ?thesis
    by blast
qed

lemma keep_keep: "k \<le> k' \<Longrightarrow> map (keep b k') (map (keep b k) xs) = map (keep b k') xs"
  by (auto simp: keep_def split: option.splits)

lemma frames_ok_same:
  "same_window r r' \<Longrightarrow> slots r' = slots r \<Longrightarrow> frames_ok b k r' = frames_ok b k r"
proof -
  assume a: "same_window r r'" and b: "slots r' = slots r"
  have "length (buf r') = length (buf r)" "buf_size r' = buf_size r"
    using a by (simp_all add: same_window_def)
  then show ?thesis
    unfolding frames_ok_def b same_window_index [OF a] by simp
qed

definition shift_result :: "u16 \<Rightarrow> int \<Rightarrow> int \<Rightarrow> reo_io \<Rightarrow> reo_io \<Rightarrow> u16 \<Rightarrow> bool" where
  "shift_result b k D c c' s' \<longleftrightarrow> s' \<le> 0xFFF \<and> k \<le> off b s' \<and> D \<le> off b s'
     \<and> off b s' \<le> max D (uint (buf_size (reo c)))
     \<and> frames_ok b (off b s' + 1) (reo c')
     \<and> slots (reo c') = map (keep b (off b s')) (slots (reo c))
     \<and> (\<exists>new. frames c' = frames c @ new \<and> sorted_wrt (<) (map (\<lambda>f. off b (sn f)) new)
          \<and> (\<forall>f\<in>set new. k \<le> off b (sn f) \<and> off b (sn f) < off b s'))"

lemma shift_result_step:
  assumes r: "shift_result b (k + 1) D c1 c' s'"
    and slots: "slots (reo c1) = map (keep b k) (slots (reo c))" and sz: "buf_size (reo c1) = buf_size (reo c)"
    and fs: "frames c1 = frames c @ fs" "fs = [] \<or> (\<exists>f. fs = [f] \<and> off b (sn f) = k)"
  shows "shift_result b k D c c' s'"
proof -
  obtain new where new: "frames c' = frames c1 @ new" "sorted_wrt (<) (map (\<lambda>f. off b (sn f)) new)"
      "\<forall>f\<in>set new. k + 1 \<le> off b (sn f) \<and> off b (sn f) < off b s'"
    using r unfolding shift_result_def by blast
  have lt: "\<forall>f\<in>set new. k < off b (sn f)"
    using new(3) by auto
  have k: "k + 1 \<le> off b s'" and sl: "slots (reo c') = map (keep b (off b s')) (slots (reo c1))"
    using r unfolding shift_result_def by blast+
  have "sorted_wrt (<) (map (\<lambda>f. off b (sn f)) (fs @ new))"
    using fs(2) new(2) lt by auto
  moreover have "\<forall>f\<in>set (fs @ new). k \<le> off b (sn f) \<and> off b (sn f) < off b s'"
    using fs(2) new(3) k by auto
  moreover have "slots (reo c') = map (keep b (off b s')) (slots (reo c))"
    unfolding sl slots using k by (intro keep_keep) simp
  ultimately show ?thesis
    using r k sz fs(1) new(1) unfolding shift_result_def by auto
qed

lemma shift_loop_spec:
  assumes "win_ok (reo c)" and "frames_ok b k (reo c)" and "off b s = k" and "s \<le> 0xFFF"
    and "off b t = D" and "D < 2048" and "k \<le> max D (uint (buf_size (reo c)))"
    and "max D (uint (buf_size (reo c))) - k < int n"
  shows "\<exists>c' s'. shift_loop n t s c = Some (c', s') \<and> shift_result b k D c c' s'"
  using assms
proof (induction n arbitrary: k s c)
  case (Suc n)
  let ?i = "aml_reo_entry_index (reo c) s"
  have bs: "uint (buf_size (reo c)) \<le> 256"
    using Suc.prems(1) by (simp add: win_ok_def word_le_def)
  have less: "ieee80211_sn_less s t \<longleftrightarrow> k < D"
    using Suc.prems(3,5,6,7) bs off_range [of b s] off_range [of b t]
    by (subst sn_less_iff [of s t b]) (auto simp: max_def split: if_splits)
  have i: "?i < length (buf (reo c))" "length (delivered (reo c)) = length (buf (reo c))"
    using Suc.prems(1) index_range by (auto simp: win_ok_def)
  obtain c1 p where pop: "pop_slot ?i c = Some (c1, p)"
    using pop_slot_defined [of ?i c] i by blast
  note cases = pop_slot_cases [OF pop]
  have same: "same_window (reo c) (reo c1)"
    using cases by (auto split: option.splits)
  have sl: "slots (reo c1) = (slots (reo c))[?i := None]"
  proof (cases "skb (buf (reo c) ! ?i)")
    case None
    then have "slots (reo c) ! ?i = None" and c1: "c1 = c"
      using i cases by simp_all
    moreover have "(slots (reo c))[?i := slots (reo c) ! ?i] = slots (reo c)"
      by (rule list_update_id)
    ultimately show ?thesis
      unfolding c1 by (simp only:)
  next
    case (Some m)
    with cases show ?thesis
      by simp
  qed
  note clear = frames_ok_clear [OF Suc.prems(1-4) same sl]
  obtain fs where fs: "frames c1 = frames c @ fs" "fs = [] \<or> (\<exists>f. fs = [f] \<and> off b (sn f) = k)"
      "p \<longrightarrow> fs \<noteq> []" "\<not> p \<longrightarrow> fs = []"
  proof (cases "skb (buf (reo c) ! ?i)")
    case None
    with cases have "c1 = c" "\<not> p"
      by simp_all
    with that [of "[]"] show ?thesis
      by simp
  next
    case (Some m)
    then have "sn m = s"
      using frames_ok_at [OF Suc.prems(1-4)] i by simp
    moreover have "frames c1 = frames c @ (if p then [m] else [])"
      using Some cases by simp
    ultimately show ?thesis
      using that [of "if p then [m] else []"] Suc.prems(3) by (cases p) auto
  qed
  have next_k: "k < uint (buf_size (reo c))" if pt: p
  proof -
    obtain m where "skb (buf (reo c) ! ?i) = Some m"
      using cases pt by (auto split: option.splits)
    then have "sn m = s" "off b (sn m) < uint (buf_size (reo c))"
      using frames_ok_at [OF Suc.prems(1-4)] Suc.prems(2) i unfolding frames_ok_def by auto
    with Suc.prems(3) show ?thesis
      by simp
  qed
  have go: "\<exists>c' s'. shift_loop n t (ieee80211_sn_inc s) d = Some (c', s') \<and> shift_result b k D c c' s'"
    if d: "same_window (reo c1) (reo d)" "slots (reo d) = slots (reo c1)" "frames d = frames c1"
      and k: "k < max D (uint (buf_size (reo c)))" for d
  proof -
    have w: "win_ok (reo d)" "buf_size (reo d) = buf_size (reo c)"
      using same_window_ok same_window_trans [OF same d(1)] Suc.prems(1) by (auto simp: same_window_def)
    have f: "frames_ok b (k + 1) (reo d)"
      using clear frames_ok_same [OF d(1,2)] by blast
    have o: "off b (ieee80211_sn_inc s) = k + 1"
      using Suc.prems(3,6) k bs by (subst off_inc_less) auto
    have "\<exists>c' s'. shift_loop n t (ieee80211_sn_inc s) d = Some (c', s') \<and> shift_result b (k + 1) D d c' s'"
      using Suc.IH [OF w(1) f o sn_range(2) Suc.prems(5,6)] k w(2) Suc.prems(8) by simp
    then show ?thesis
      using shift_result_step [of b k D d _ _ c fs] d clear w(2) fs by auto
  qed
  show ?case
  proof (cases p)
    case True
    with go [of c1] next_k pop show ?thesis
      by (auto simp: Let_def)
  next
    case False
    show ?thesis
    proof (cases "ieee80211_sn_less s t")
      case True
      let ?r = "(reo c1)\<lparr>st_miss := st_miss (reo c1) + 1\<rparr>"
      have "length (delivered (reo c1)) = length (delivered (reo c))"
        using same by (simp add: same_window_def)
      then have set: "set_delivered ?i False ?r = Some (?r\<lparr>delivered := (delivered (reo c1))[?i := False]\<rparr>)"
        using i by (simp add: set_delivered_def)
      let ?d = "c1\<lparr>reo := ?r\<lparr>delivered := (delivered (reo c1))[?i := False]\<rparr>\<rparr>"
      have "same_window (reo c1) (reo ?d)" "slots (reo ?d) = slots (reo c1)" "frames ?d = frames c1"
        by (simp_all add: same_window_def slots_def)
      then obtain c' s' where "shift_loop n t (ieee80211_sn_inc s) ?d = Some (c', s')" "shift_result b k D c c' s'"
        using go [of ?d] True less by (auto simp: less_max_iff_disj)
      with False True pop set show ?thesis
        by (auto simp: Let_def)
    next
      case stop: False
      have "shift_result b k D c c1 s"
        using Suc.prems clear fs False stop less unfolding shift_result_def by auto
      with False stop pop show ?thesis
        by (auto simp: Let_def)
    qed
  qed
qed simp

section \<open>The session invariant\<close>

text \<open>
  Every buffered frame sits in its slot, ahead of \<open>ssn\<close>, within the buffer size and not
  behind \<open>lsn\<close>; \<open>lsn\<close> names a buffered frame unless nothing is buffered; the session is on
  the ageing list exactly when something is buffered; a pending reset has an empty window.
\<close>

definition reo_inv :: "aml_reo_session \<Rightarrow> bool" where
  "reo_inv r \<longleftrightarrow> win_ok r \<and> 2 \<le> buf_size r \<and> ssn r \<le> 0xFFF \<and> lsn r \<le> 0xFFF
     \<and> frames_ok (ssn r) 1 r \<and> counted r
     \<and> off (ssn r) (lsn r) < uint (buf_size r)
     \<and> (\<forall>f. f \<in># held (slots r) \<longrightarrow> off (ssn r) (sn f) \<le> off (ssn r) (lsn r))
     \<and> (lsn r \<noteq> ssn r \<longrightarrow> slots r ! aml_reo_entry_index r (lsn r) \<noteq> None)
     \<and> (on_aging_list r \<longleftrightarrow> lsn r \<noteq> ssn r)
     \<and> (reset r \<longrightarrow> lsn r = ssn r)"

lemma off_zero_iff: "s \<le> 0xFFF \<Longrightarrow> b \<le> 0xFFF \<Longrightarrow> off b s = 0 \<longleftrightarrow> s = b"
  using off_inj [of b s b] by auto

lemma frames_ok_held:
  "frames_ok b k r \<Longrightarrow> f \<in># held (slots r) \<Longrightarrow> sn f \<le> 0xFFF \<and> k \<le> off b (sn f) \<and> off b (sn f) < uint (buf_size r)"
  by (auto simp: held_mem in_set_conv_nth frames_ok_def simp del: nth_slots)

lemma held_keep: "f \<in># held (map (keep b k) xs) \<longleftrightarrow> f \<in># held xs \<and> k < off b (sn f)"
  by (auto simp: held_mem keep_def image_iff split: option.splits intro: bexI [of _ "Some f"])

lemma held_Nil_iff: "held xs = {#} \<longleftrightarrow> (\<forall>i<length xs. xs ! i = None)"
proof -
  have "held xs = {#} \<longleftrightarrow> (\<forall>f. Some f \<notin> set xs)"
    by (metis held_mem multiset_nonemptyE count_empty not_in_iff)
  also have "\<dots> \<longleftrightarrow> (\<forall>i<length xs. xs ! i = None)"
    by (metis in_set_conv_nth not_None_eq nth_mem option.distinct(1))
  finally show ?thesis .
qed

lemma sn_less_small:
  assumes "off b a < 2048" and "off b c < 2048"
  shows "ieee80211_sn_less a c \<longleftrightarrow> off b a < off b c"
proof -
  have "0 \<le> off b a" "0 \<le> off b c"
    by (simp_all add: off_range)
  with assms have "\<not> 2048 < off b a - off b c" "off b c - off b a < 2048"
    by linarith+
  then show ?thesis
    by (simp add: sn_less_iff [of a c b])
qed

text \<open>Deliveries of one operation: strictly increasing offsets from the base, below the new start.\<close>

definition in_order :: "u16 \<Rightarrow> mpdu list \<Rightarrow> aml_reo_session \<Rightarrow> bool" where
  "in_order b fs r' \<longleftrightarrow> sorted_wrt (<) (map (\<lambda>f. off b (sn f)) fs)
     \<and> (\<forall>f\<in>set fs. off b (sn f) < off b (ssn r'))"

definition shift_pre :: "u16 \<Rightarrow> int \<Rightarrow> aml_reo_session \<Rightarrow> bool" where
  "shift_pre b k r \<longleftrightarrow> win_ok r \<and> 2 \<le> buf_size r \<and> frames_ok b k r \<and> counted r
     \<and> off b (ssn r) = k \<and> ssn r \<le> 0xFFF \<and> lsn r \<le> 0xFFF
     \<and> off b (lsn r) < uint (buf_size r)
     \<and> (\<forall>f. f \<in># held (slots r) \<longrightarrow> off b (sn f) \<le> off b (lsn r))
     \<and> (k < off b (lsn r) \<longrightarrow> slots r ! aml_reo_entry_index r (lsn r) \<noteq> None \<and> on_aging_list r)
     \<and> \<not> reset r"

lemma shift_pre_start: "reo_inv r \<Longrightarrow> \<not> reset r \<Longrightarrow> shift_pre (ssn r) 0 r"
  unfolding reo_inv_def shift_pre_def
  by (auto simp: off_zero_iff frames_ok_def simp del: nth_slots) 

lemma aml_reo_shift_to_spec:
  assumes pre: "shift_pre b k (reo c)" and t: "off b t = D" "D < 2048"
    and k: "k \<le> max D (uint (buf_size (reo c)))"
  shows "\<exists>c' new. aml_reo_shift_to t c = Some c' \<and> reo_inv (reo c') \<and> \<not> reset (reo c')
     \<and> all_frames c' = all_frames c \<and> frames c' = frames c @ new \<and> in_order b new (reo c')
     \<and> (\<forall>f\<in>set new. k \<le> off b (sn f)) \<and> pn_step (reo c) new (reo c')
     \<and> k \<le> off b (ssn (reo c')) \<and> D \<le> off b (ssn (reo c'))
     \<and> off b (ssn (reo c')) \<le> max D (uint (buf_size (reo c)))
     \<and> slots (reo c') = map (keep b (off b (ssn (reo c')))) (slots (reo c))
     \<and> buf_size (reo c') = buf_size (reo c) \<and> win_size (reo c') = win_size (reo c)"
proof -
  let ?r = "reo c" and ?L = "off b (lsn (reo c))"
  have win: "win_ok ?r" and two: "2 \<le> buf_size ?r" and fr: "frames_ok b k ?r" and cnt: "counted ?r"
    and s0: "off b (ssn ?r) = k" "ssn ?r \<le> 0xFFF" and l0: "lsn ?r \<le> 0xFFF" "?L < uint (buf_size ?r)"
    and held: "\<And>f. f \<in># held (slots ?r) \<Longrightarrow> off b (sn f) \<le> ?L"
    and last: "k < ?L \<Longrightarrow> slots ?r ! aml_reo_entry_index ?r (lsn ?r) \<noteq> None \<and> on_aging_list ?r"
    and nores: "\<not> reset ?r"
    using pre unfolding shift_pre_def by blast+
  have bs: "uint (buf_size ?r) \<le> 256"
    using win by (simp add: win_ok_def word_le_def)
  have "max D (uint (buf_size ?r)) - k < int shift_fuel"
    using t bs off_range [of b "ssn ?r"] s0 by (auto simp: shift_fuel_def)
  then obtain c1 s' where c1: "shift_loop shift_fuel t (ssn ?r) c = Some (c1, s')" "shift_result b k D c c1 s'"
    using shift_loop_spec [OF win fr s0 t k] by blast
  have same: "same_window ?r (reo c1)" and cons: "all_frames c1 = all_frames c" and cnt1: "counted (reo c1)"
    using shift_loop_conserves [OF c1(1)] cnt by blast+
  have pos: "s' \<le> 0xFFF" "k \<le> off b s'" "D \<le> off b s'" "off b s' \<le> max D (uint (buf_size ?r))"
    and fr1: "frames_ok b (off b s' + 1) (reo c1)" and sl: "slots (reo c1) = map (keep b (off b s')) (slots ?r)"
    using c1(2) unfolding shift_result_def by blast+
  obtain new where new: "frames c1 = frames c @ new" "sorted_wrt (<) (map (\<lambda>f. off b (sn f)) new)"
      "\<forall>f\<in>set new. k \<le> off b (sn f) \<and> off b (sn f) < off b s'"
    using c1(2) unfolding shift_result_def by blast
  obtain new' where "frames c1 = frames c @ new'" "pn_step ?r new' (reo c1)"
    using shift_loop_pn [OF c1(1)] by blast
  then have pn: "pn_step ?r new (reo c1)"
    using new(1) by simp
  have f1: "lsn (reo c1) = lsn ?r" "on_aging_list (reo c1) = on_aging_list ?r" "\<not> reset (reo c1)"
      "buf_size (reo c1) = buf_size ?r" "win_size (reo c1) = win_size ?r"
    using same nores by (simp_all add: same_window_def)
  have less: "ieee80211_sn_less (lsn ?r) s' \<longleftrightarrow> ?L < off b s'"
    using pos(4) l0(2) t(2) bs by (intro sn_less_small) auto
  define r2 where "r2 = (let r = (reo c1)\<lparr>ssn := s'\<rparr>;
      r = (if ieee80211_sn_less (lsn r) s' then r\<lparr>lsn := s'\<rparr> else r)
      in if \<not> aml_reo_has_buffer r then r\<lparr>on_aging_list := False\<rparr> else r)"
  have run: "aml_reo_shift_to t c = Some (c1\<lparr>reo := r2\<rparr>)"
    using c1(1) by (simp add: aml_reo_shift_to_def r2_def Let_def)
  have r2: "ssn r2 = s'" "lsn r2 = (if ?L < off b s' then s' else lsn ?r)" "slots r2 = slots (reo c1)"
      "win_size r2 = win_size ?r" "buf_size r2 = buf_size ?r" "\<not> reset r2" "in_buffer r2 = in_buffer (reo c1)"
      "length (buf r2) = length (buf (reo c1))" "length (delivered r2) = length (delivered (reo c1))"
      "pn_check r2 = pn_check (reo c1)" "pn r2 = pn (reo c1)"
      "on_aging_list r2 = (on_aging_list ?r \<and> lsn r2 \<noteq> s')"
    using f1 less by (auto simp: r2_def Let_def aml_reo_has_buffer_def slots_def)
  have idx: "aml_reo_entry_index r2 s = aml_reo_entry_index ?r s" for s
    using r2(4) by (simp add: aml_reo_entry_index_def)
  have win2: "win_ok r2"
    using same_window_ok [OF same win] r2 f1 by (simp add: win_ok_def)
  have l2: "lsn r2 \<le> 0xFFF"
    using r2(2) pos(1) l0(1) by simp
  have rebase: "off s' x = off b x - off b s'" if "off b s' \<le> off b x" for x
    using off_rebase_ge that by blast
  have lsn_off: "off s' (lsn r2) = (if ?L < off b s' then 0 else ?L - off b s')"
    using r2(2) rebase by simp
  have "frames_ok s' 1 r2"
    unfolding frames_ok_def
  proof (intro allI impI)
    fix i f
    assume i: "i < length (buf r2)" and f: "slots r2 ! i = Some f"
    then have "sn f \<le> 0xFFF \<and> aml_reo_entry_index (reo c1) (sn f) = i \<and> off b s' + 1 \<le> off b (sn f)
        \<and> off b (sn f) < uint (buf_size (reo c1))"
      using fr1 r2(3,8) unfolding frames_ok_def by simp
    moreover from this have "off s' (sn f) = off b (sn f) - off b s'"
      using rebase by simp
    ultimately show "sn f \<le> 0xFFF \<and> aml_reo_entry_index r2 (sn f) = i \<and> 1 \<le> off s' (sn f)
        \<and> off s' (sn f) < uint (buf_size r2)"
      using idx same_window_index [OF same] r2(5) f1(4) off_range [of b s'] by simp
  qed
  moreover have "counted r2"
    using cnt1 r2 by (simp add: counted_def)
  moreover have "off s' (lsn r2) < uint (buf_size r2)"
    using lsn_off l0(2) r2(5) two off_range [of b s'] by (auto simp: word_le_def)
  moreover have "off s' (sn f) \<le> off s' (lsn r2)" if "f \<in># held (slots r2)" for f
  proof -
    have f: "f \<in># held (slots ?r)" "off b s' < off b (sn f)"
      using that sl r2(3) held_keep by auto
    with held [OF f(1)] lsn_off rebase [of "sn f"] show ?thesis
      by simp
  qed
  moreover have "slots r2 ! aml_reo_entry_index r2 (lsn r2) \<noteq> None \<and> on_aging_list r2" if ne: "lsn r2 \<noteq> s'"
  proof -
    have L: "off b s' \<le> ?L" "lsn r2 = lsn ?r"
      using ne r2(2) by (auto split: if_splits)
    moreover have "off b s' \<noteq> ?L"
      using ne L(2) off_inj pos(1) l0(1) by metis
    ultimately have gt: "off b s' < ?L"
      by simp
    then have la: "slots ?r ! aml_reo_entry_index ?r (lsn ?r) \<noteq> None" "on_aging_list ?r"
      using last pos(2) by auto
    then obtain f where f: "slots ?r ! aml_reo_entry_index ?r (lsn ?r) = Some f"
      by blast
    have i: "aml_reo_entry_index ?r (lsn ?r) < length (buf ?r)"
      using index_range [OF win] .
    then have "sn f \<le> 0xFFF" "aml_reo_entry_index ?r (sn f) = aml_reo_entry_index ?r (lsn ?r)"
        "off b (sn f) < uint (buf_size ?r)"
      using fr f unfolding frames_ok_def by blast+
    then have "sn f = lsn ?r"
      using index_same [OF win, of "sn f" "lsn ?r" b] l0 buf_size_win [OF win] by auto
    then have "keep b (off b s') (slots ?r ! aml_reo_entry_index ?r (lsn ?r)) = Some f"
      using f gt by (simp add: keep_def)
    then have "slots r2 ! aml_reo_entry_index r2 (lsn r2) = Some f"
      using sl r2(3) idx i L(2) by (simp del: nth_slots)
    with la r2(12) ne show ?thesis
      by simp
  qed
  ultimately have "reo_inv r2"
    using win2 two pos(1) l2 r2 unfolding reo_inv_def by auto
  moreover have "in_order b new r2"
    using new r2(1) by (auto simp: in_order_def)
  moreover have "pn_step ?r new r2"
    using pn r2 by (simp add: pn_step_def)
  moreover have "all_frames (c1\<lparr>reo := r2\<rparr>) = all_frames c"
    using cons r2(3) by (simp add: all_frames_def)
  ultimately show ?thesis
    using run new pos r2 sl by (intro exI [of _ "c1\<lparr>reo := r2\<rparr>"] exI [of _ new]) auto
qed

text \<open>The invariant does not look at statistics, packet numbers, times and delivery marks.\<close>

definition window_eq :: "aml_reo_session \<Rightarrow> aml_reo_session \<Rightarrow> bool" where
  "window_eq r r' \<longleftrightarrow> win_size r' = win_size r \<and> buf_size r' = buf_size r \<and> ssn r' = ssn r \<and> lsn r' = lsn r
     \<and> reset r' = reset r \<and> on_aging_list r' = on_aging_list r \<and> slots r' = slots r
     \<and> length (delivered r') = length (delivered r) \<and> in_buffer r' = in_buffer r"

lemma window_eq_same: "window_eq r r' \<Longrightarrow>
    win_ok r' = win_ok r \<and> frames_ok b k r' = frames_ok b k r \<and> counted r' = counted r
    \<and> aml_reo_entry_index r' s = aml_reo_entry_index r s"
proof -
  assume e: "window_eq r r'"
  then have l: "length (buf r') = length (buf r)"
    unfolding window_eq_def by (metis length_slots)
  have i: "aml_reo_entry_index r' x = aml_reo_entry_index r x" for x
    using e by (simp add: window_eq_def aml_reo_entry_index_def)
  have "frames_ok b k r' = frames_ok b k r"
    using e l unfolding frames_ok_def i by (simp add: window_eq_def)
  with e l i show ?thesis
    by (simp add: window_eq_def win_ok_def counted_def)
qed

lemma reo_inv_window_eq: "window_eq r r' \<Longrightarrow> reo_inv r' = reo_inv r"
  using window_eq_same [of r r'] unfolding reo_inv_def
  by (simp add: window_eq_def)

text \<open>What one operation does to the frames: it keeps the invariant, neither loses nor invents
  a frame, and hands frames up in order.\<close>

definition reo_effect :: "mpdu multiset \<Rightarrow> reo_io \<Rightarrow> reo_io \<Rightarrow> bool" where
  "reo_effect extra c c' \<longleftrightarrow> reo_inv (reo c') \<and> all_frames c' = extra + all_frames c
     \<and> (\<exists>new. frames c' = frames c @ new \<and> in_order (ssn (reo c)) new (reo c') \<and> pn_step (reo c) new (reo c'))"

lemma in_order_Nil [simp]: "in_order b [] r"
  by (simp add: in_order_def)

lemma reo_effect_quiet:
  assumes "reo_inv (reo c')" and "all_frames c' = extra + all_frames c" and "frames c' = frames c"
    and "pn_step (reo c) [] (reo c')"
  shows "reo_effect extra c c'"
  using assms unfolding reo_effect_def by auto

lemma reo_inv_at:
  assumes inv: "reo_inv r" and s: "s \<le> 0xFFF" "off (ssn r) s < uint (buf_size r)"
    and f: "slots r ! aml_reo_entry_index r s = Some f0"
  shows "sn f0 = s \<and> 1 \<le> off (ssn r) s"
proof -
  have win: "win_ok r" and fr: "frames_ok (ssn r) 1 r"
    using inv by (simp_all add: reo_inv_def)
  have i: "aml_reo_entry_index r s < length (buf r)"
    using index_range [OF win] .
  have g: "sn f0 \<le> 0xFFF" "aml_reo_entry_index r (sn f0) = aml_reo_entry_index r s"
      "1 \<le> off (ssn r) (sn f0)" "off (ssn r) (sn f0) < uint (buf_size r)"
    using fr i f unfolding frames_ok_def by blast+
  then have "sn f0 = s"
    using index_same [OF win g(2), of "ssn r"] s g buf_size_win [OF win] by simp
  with g show ?thesis
    by simp
qed

lemma drop_old_spec:
  assumes inv: "reo_inv (reo c)" and i: "i < length (delivered (reo c))"
  shows "\<exists>c'. drop_old f i c = Some c' \<and> reo_effect {#f#} c c' \<and> frames c' = frames c
     \<and> freed c' = freed c @ [f] \<and> window_eq (reo c) (reo c')"
proof -
  define r where "r = (if delivered (reo c) ! i \<and> ieee80211_sn_sub (ssn (reo c)) (sn f) \<le> win_size (reo c)
      then (reo c)\<lparr>st_dup := st_dup (reo c) + 1\<rparr> else (reo c)\<lparr>st_stale := st_stale (reo c) + 1\<rparr>)"
  have eq: "window_eq (reo c) r" "pn_check r = pn_check (reo c)" "pn r = pn (reo c)"
    by (simp_all add: r_def window_eq_def slots_def)
  have run: "drop_old f i c = Some (aml_mpdu_free f (c\<lparr>reo := r\<rparr>))"
    using i by (simp add: drop_old_def r_def Let_def)
  have "reo_effect {#f#} c (aml_mpdu_free f (c\<lparr>reo := r\<rparr>))"
    using inv eq reo_inv_window_eq [OF eq(1)]
    by (intro reo_effect_quiet) (auto simp: aml_mpdu_free_def all_frames_def window_eq_def pn_step_def)
  with run eq(1) show ?thesis
    by (simp add: aml_mpdu_free_def)
qed

lemma make_room_spec:
  assumes inv: "reo_inv (reo c)" and nores: "\<not> reset (reo c)" and s: "s \<le> 0xFFF"
    and ns: "\<not> ieee80211_sn_less s (ssn (reo c))"
  shows "\<exists>c' new. make_room now s c = Some c' \<and> reo_inv (reo c') \<and> \<not> reset (reo c')
     \<and> all_frames c' = all_frames c \<and> frames c' = frames c @ new
     \<and> in_order (ssn (reo c)) new (reo c') \<and> pn_step (reo c) new (reo c')
     \<and> off (ssn (reo c)) (ssn (reo c')) \<le> off (ssn (reo c)) s
     \<and> off (ssn (reo c')) s < uint (buf_size (reo c')) 
     \<and> buf_size (reo c') = buf_size (reo c) \<and> win_size (reo c') = win_size (reo c)"
proof -
  let ?r = "reo c" and ?b = "ssn (reo c)"
  let ?d = "off ?b s" and ?n = "uint (buf_size ?r)"
  have win: "win_ok ?r" and two: "2 \<le> ?n"
    using inv by (simp_all add: reo_inv_def word_le_def)
  have n: "?n \<le> 256" "?b \<le> 0xFFF"
    using inv by (simp_all add: reo_inv_def win_ok_def word_le_def)
  have d: "0 \<le> ?d" "?d \<le> 2048"
    using ns off_range [of ?b s] by (auto simp: sn_less_iff [of s ?b ?b] split: if_splits)
  have o: "off ?b (?b + buf_size ?r) = ?n"
  proof -
    have "uint ?b < 4096"
      using n(2) by (simp add: word_le_def)
    then have "uint (?b + buf_size ?r) = uint ?b + ?n"
      using n(1) by (simp add: uint_word_ariths mod_pos_pos_trivial)
    then show ?thesis
      using n(1) two by (simp add: off_def mod_pos_pos_trivial)
  qed
  have less: "ieee80211_sn_less s (?b + buf_size ?r) \<longleftrightarrow> ?d < ?n"
    using d n two by (auto simp: sn_less_iff [of s "?b + buf_size ?r" ?b] o)
  show ?thesis
  proof (cases "?d < ?n")
    case True
    then show ?thesis
      using inv nores less d(1) by (intro exI [of _ c] exI [of _ "[]"]) (simp add: make_room_def)
  next
    case False
    let ?t = "ieee80211_sn_sub s (buf_size ?r - 1)" and ?D = "?d - (?n - 1)"
    let ?c = "upd_reo (\<lambda>r. r\<lparr>st_out_win := st_out_win r + 1, last_out_win := aml_reo_evt_set now (uint s)\<rparr>) c"
    have one: "uint (buf_size ?r - 1) = ?n - 1"
      using two n by (simp add: uint_word_ariths mod_pos_pos_trivial)
    have t: "off ?b ?t = ?D"
      unfolding off_sub one using False d n two by (intro mod_pos_pos_trivial) auto
    have D: "?D < 2048" "1 \<le> ?D"
      using False d two by auto
    have eq: "window_eq ?r (reo ?c)"
      by (simp add: window_eq_def slots_def)
    have inv': "reo_inv (reo ?c)" "\<not> reset (reo ?c)"
      using inv nores reo_inv_window_eq [OF eq] by simp_all
    have "shift_pre ?b 0 (reo ?c)"
      using shift_pre_start [OF inv'] by simp
    moreover have "0 \<le> max ?D (uint (buf_size (reo ?c)))"
      using D by auto
    ultimately obtain c' new where c':
      "aml_reo_shift_to ?t ?c = Some c'" "reo_inv (reo c')" "\<not> reset (reo c')"
      "all_frames c' = all_frames ?c" "frames c' = frames ?c @ new" "in_order ?b new (reo c')"
      "pn_step (reo ?c) new (reo c')" "?D \<le> off ?b (ssn (reo c'))" "off ?b (ssn (reo c')) \<le> max ?D ?n"
      "buf_size (reo c') = buf_size ?r" "win_size (reo c') = win_size ?r"
      using aml_reo_shift_to_spec [OF _ t D(1), of 0 ?c] by auto
    have le: "off ?b (ssn (reo c')) \<le> ?d"
      using c'(9) False two by auto
    then have "off (ssn (reo c')) s = ?d - off ?b (ssn (reo c'))"
      by (rule off_rebase_ge)
    then have "off (ssn (reo c')) s < uint (buf_size (reo c'))"
      using c'(8,10) by simp
    moreover have "all_frames ?c = all_frames c" "pn_step ?r new (reo c')"
      using c'(7) by (simp_all add: all_frames_def slots_def pn_step_def)
    moreover have "make_room now s c = Some c'"
      using False less c'(1) by (simp add: make_room_def)
    ultimately show ?thesis
      using c' le by (intro exI [of _ c'] exI [of _ new]) simp
  qed
qed


lemma entry_set_slots:
  assumes "i < length (buf r)"
  shows "\<exists>b. aml_reo_entry_skb_set now i f r = Some (r\<lparr>buf := b\<rparr>) \<and> map skb b = (slots r)[i := Some f]
     \<and> length b = length (buf r)"
  using assms by (auto simp: aml_reo_entry_skb_set_def slots_def map_update)

lemma frames_ok_set:
  assumes fr: "frames_ok b k r" and r': "slots r' = (slots r)[i := Some f]"
    and w: "win_size r' = win_size r" "buf_size r' = buf_size r"
    and f: "sn f \<le> 0xFFF" "aml_reo_entry_index r (sn f) = i" "k \<le> off b (sn f)" "off b (sn f) < uint (buf_size r)"
  shows "frames_ok b k r'"
  unfolding frames_ok_def
proof (intro allI impI)
  fix j g
  have idx: "aml_reo_entry_index r' x = aml_reo_entry_index r x" for x
    using w by (simp add: aml_reo_entry_index_def)
  have len: "length (buf r') = length (buf r)"
    using r' by (metis length_slots length_list_update)
  assume j: "j < length (buf r')" and g: "slots r' ! j = Some g"
  show "sn g \<le> 0xFFF \<and> aml_reo_entry_index r' (sn g) = j \<and> k \<le> off b (sn g) \<and> off b (sn g) < uint (buf_size r')"
  proof (cases "j = i")
    case True
    with j g r' len have "g = f"
      by simp
    with f True w idx show ?thesis
      by simp
  next
    case False
    then have "slots r ! j = Some g"
      using g r' by simp
    with fr j len w idx show ?thesis
      unfolding frames_ok_def by simp
  qed
qed

lemma held_set:
  assumes "i < length xs"
  shows "held (xs[i := Some f]) + opt_mset (xs ! i) = add_mset f (held xs)"
  using held_update [OF assms, of "Some f"] by simp

lemma keep_newer_spec:
  assumes inv: "reo_inv (reo c)" and f: "sn f \<le> 0xFFF" "off (ssn (reo c)) (sn f) < uint (buf_size (reo c))"
    and i: "i = aml_reo_entry_index (reo c) (sn f)" and f0: "slots (reo c) ! i = Some f0"
  shows "\<exists>c'. keep_newer now i f f0 c = Some c' \<and> reo_effect {#f#} c c'
     \<and> ssn (reo c') = ssn (reo c) \<and> frames c' = frames c"
proof -
  let ?c = "upd_reo (\<lambda>r. r\<lparr>st_dup := st_dup r + 1\<rparr>) c"
  have eq: "window_eq (reo c) (reo ?c)" and pns: "pn_step (reo c) [] (reo ?c)"
    by (simp_all add: window_eq_def slots_def pn_step_def)
  have inv0: "reo_inv (reo ?c)"
    using inv reo_inv_window_eq [OF eq] by simp
  have ilen: "i < length (buf (reo c))"
    using inv i index_range by (simp add: reo_inv_def)
  have same: "sn f0 = sn f" "1 \<le> off (ssn (reo c)) (sn f)"
    using reo_inv_at [OF inv f, of f0] f0 unfolding i by blast+
  show ?thesis
  proof (cases "(pn_check (reo ?c) \<or> pn_present f) \<and> (\<not> pn_present f0 \<or> pn0 f0 < pn0 f)")
    case False
    have "reo_effect {#f#} c (aml_mpdu_free f ?c)"
      using inv0 pns by (intro reo_effect_quiet) (auto simp: aml_mpdu_free_def all_frames_def slots_def)
    with False show ?thesis
      by (auto simp: keep_newer_def Let_def aml_mpdu_free_def)
  next
    case True
    obtain bs where bs: "aml_reo_entry_skb_set now i f (reo ?c) = Some ((reo ?c)\<lparr>buf := bs\<rparr>)"
        "map skb bs = (slots (reo ?c))[i := Some f]" "length bs = length (buf (reo ?c))"
      using entry_set_slots [of i "reo ?c" now f] ilen by auto
    define r' where "r' = (reo ?c)\<lparr>buf := bs\<rparr>"
    have r': "aml_reo_entry_skb_set now i f (reo ?c) = Some r'" "length (buf r') = length (buf (reo c))"
      using bs by (simp_all add: r'_def)
    have sl: "slots r' = (slots (reo c))[i := Some f]"
      using bs(2) by (simp add: r'_def slots_def)
    have fld: "win_size r' = win_size (reo c)" "buf_size r' = buf_size (reo c)" "ssn r' = ssn (reo c)"
        "lsn r' = lsn (reo c)" "reset r' = reset (reo c)" "on_aging_list r' = on_aging_list (reo c)"
        "in_buffer r' = in_buffer (reo c)" "delivered r' = delivered (reo c)"
        "pn_check r' = pn_check (reo c)" "pn r' = pn (reo c)"
      by (simp_all add: r'_def)
    have idx: "aml_reo_entry_index r' x = aml_reo_entry_index (reo c) x" for x
      using fld by (simp add: aml_reo_entry_index_def)
    have hd: "add_mset f0 (held (slots r')) = add_mset f (held (slots (reo c)))"
      using held_set [of i "slots (reo c)" f] ilen f0 sl by simp
    then have sz: "size (held (slots r')) = size (held (slots (reo c)))"
      by (metis size_add_mset old.nat.inject)
    have fr: "frames_ok (ssn (reo c)) 1 r'"
    proof (rule frames_ok_set [OF _ sl fld(1,2) f(1) i [symmetric] same(2) f(2)])
      show "frames_ok (ssn (reo c)) 1 (reo c)"
        using inv by (simp add: reo_inv_def)
    qed
    have mem: "g = f \<or> g \<in># held (slots (reo c))" if "g \<in># held (slots r')" for g
      using that arg_cong [OF hd, of "\<lambda>M. g \<in># M"] by auto
    have f0in: "f0 \<in># held (slots (reo c))"
      using ilen f0 by (metis held_mem length_slots nth_mem)
    have le: "off (ssn r') (sn g) \<le> off (ssn r') (lsn r')" if "g \<in># held (slots r')" for g
      using mem [OF that] inv f0in same(1) fld unfolding reo_inv_def by metis
    have last: "slots r' ! aml_reo_entry_index r' (lsn r') \<noteq> None" if "lsn r' \<noteq> ssn r'"
    proof (cases "aml_reo_entry_index (reo c) (lsn (reo c)) = i")
      case True
      then show ?thesis
        using ilen sl idx fld by simp
    next
      case False
      then show ?thesis
        using inv that sl idx fld by (simp add: reo_inv_def)
    qed
    have "reo_inv r'"
      using inv fr le last fld sz r'(2) by (simp add: reo_inv_def win_ok_def counted_def)
    then have "reo_effect {#f#} c (aml_mpdu_free f0 (c\<lparr>reo := r'\<rparr>))"
      using hd fld by (intro reo_effect_quiet) (auto simp: aml_mpdu_free_def all_frames_def pn_step_def)
    with True r'(1) fld show ?thesis
      by (auto simp: keep_newer_def Let_def aml_mpdu_free_def)
  qed
qed

lemma pn_check_cases:
  assumes "aml_reo_pn_check f r = (r', p)"
  shows "window_eq r r' \<and> delivered r' = delivered r \<and> pn_step r (if p then [f] else []) r'
     \<and> (\<not> pn_check r \<longrightarrow> \<not> pn_present f \<longrightarrow> p \<and> \<not> pn_check r')"
  using assms
  by (auto simp: aml_reo_pn_check_def Let_def window_eq_def slots_def pn_step_def not_le split: if_splits)

lemma dequeue_cases:
  assumes "i < length (delivered (reo c))"
  shows "\<exists>c' p. aml_reo_dequeue f i c = Some (c', p) \<and> window_eq (reo c) (reo c')
     \<and> frames c' = frames c @ (if p then [f] else []) \<and> freed c' = freed c @ (if p then [] else [f])
     \<and> pn_step (reo c) (if p then [f] else []) (reo c')
     \<and> (\<not> pn_check (reo c) \<longrightarrow> \<not> pn_present f \<longrightarrow> p \<and> \<not> pn_check (reo c'))"
proof -
  obtain r p where r: "aml_reo_pn_check f (reo c) = (r, p)"
    by fastforce
  note k = pn_check_cases [OF r]
  show ?thesis
  proof (cases p)
    case True
    let ?c = "c\<lparr>reo := r\<lparr>delivered := (delivered r)[i := True]\<rparr>, frames := frames c @ [f]\<rparr>"
    have "aml_reo_dequeue f i c = Some (?c, True)"
      using r True assms k by (simp add: aml_reo_dequeue_def set_delivered_def)
    then show ?thesis
      using True k by (intro exI [of _ ?c] exI [of _ True]) (simp add: window_eq_def slots_def pn_step_def)
  next
    case False
    let ?c = "aml_mpdu_free f (c\<lparr>reo := r\<rparr>)"
    have "aml_reo_dequeue f i c = Some (?c, False)"
      using r False by (simp add: aml_reo_dequeue_def)
    then show ?thesis
      using False k by (intro exI [of _ ?c] exI [of _ False]) (simp add: aml_mpdu_free_def)
  qed
qed

lemma off_inc_self: "b \<le> 0xFFF \<Longrightarrow> off b (ieee80211_sn_inc b) = 1"
  by (simp add: off_inc)

lemma deliver_in_order_spec:
  assumes inv: "reo_inv (reo c)" and nores: "\<not> reset (reo c)" and f: "sn f = ssn (reo c)"
    and i: "i = aml_reo_entry_index (reo c) (sn f)"
  shows "\<exists>c'. deliver_in_order f i c = Some c' \<and> reo_effect {#f#} c c'
     \<and> off (ssn (reo c)) (ssn (reo c')) \<le> 256"
proof -
  let ?b = "ssn (reo c)"
  have win: "win_ok (reo c)" and bb: "?b \<le> 0xFFF" and bs: "2 \<le> buf_size (reo c)"
    using inv by (simp_all add: reo_inv_def)
  have "i < length (delivered (reo c))"
    unfolding i by (rule index_range_delivered [OF win])
  from dequeue_cases [OF this, of f] obtain c1 p where c1: "aml_reo_dequeue f i c = Some (c1, p)"
      "window_eq (reo c) (reo c1)" "frames c1 = frames c @ (if p then [f] else [])"
      "freed c1 = freed c @ (if p then [] else [f])" "pn_step (reo c) (if p then [f] else []) (reo c1)"
    by blast
  have af: "all_frames c1 = {#f#} + all_frames c"
    using c1(2,3,4) by (cases p) (auto simp: all_frames_def window_eq_def)
  have inv1: "reo_inv (reo c1)"
    using inv reo_inv_window_eq [OF c1(2)] by simp
  show ?thesis
  proof (cases p)
    case False
    have "reo_effect {#f#} c c1"
      using inv1 af c1(3,5) False by (intro reo_effect_quiet) simp_all
    moreover have "ssn (reo c1) = ?b"
      using c1(2) by (simp add: window_eq_def)
    ultimately show ?thesis
      using c1(1) False by (simp add: deliver_in_order_def)
  next
    case True
    let ?s = "ieee80211_sn_inc (sn f)"
    let ?c = "upd_reo (\<lambda>r. r\<lparr>ssn := ?s\<rparr>) c1"
    have o: "off ?b ?s = 1"
      using f bb off_inc_self by simp
    have fld: "ssn (reo c1) = ?b" "lsn (reo c1) = lsn (reo c)" "buf_size (reo c1) = buf_size (reo c)"
        "\<not> reset (reo c1)"
      using c1(2) nores by (simp_all add: window_eq_def)
    have k: "win_ok (reo ?c) = win_ok (reo c1)" "frames_ok ?b 1 (reo ?c) = frames_ok ?b 1 (reo c1)"
        "counted (reo ?c) = counted (reo c1)" "slots (reo ?c) = slots (reo c1)"
        "aml_reo_entry_index (reo ?c) x = aml_reo_entry_index (reo c1) x" for x
      by (simp_all add: win_ok_def frames_ok_def counted_def slots_def aml_reo_entry_index_def)
    have "lsn (reo c1) \<noteq> ?b" if "1 < off ?b (lsn (reo c1))"
      using that by auto
    then have pre: "shift_pre ?b 1 (reo ?c)"
      using inv1 o k fld sn_range(2) [of "sn f"] unfolding shift_pre_def reo_inv_def by auto
    have m: "1 \<le> max 1 (uint (buf_size (reo ?c)))"
      by simp
    obtain c' new where c': "aml_reo_shift_to ?s ?c = Some c'" "reo_inv (reo c')" "all_frames c' = all_frames ?c"
        "frames c' = frames ?c @ new" "in_order ?b new (reo c')" "\<forall>g\<in>set new. 1 \<le> off ?b (sn g)"
        "pn_step (reo ?c) new (reo c')" "1 \<le> off ?b (ssn (reo c'))"
        "off ?b (ssn (reo c')) \<le> max 1 (uint (buf_size (reo ?c)))"
      using aml_reo_shift_to_spec [OF pre o _ m] by auto
    have "uint (buf_size (reo ?c)) \<le> 256"
      using inv fld(3) by (simp add: reo_inv_def win_ok_def word_le_def)
    then have top: "off ?b (ssn (reo c')) \<le> 256"
      using c'(9) by simp
    have "\<forall>g\<in>set new. 0 < off ?b (sn g)"
      using c'(6) by auto
    then have "in_order ?b ([f] @ new) (reo c')"
      using c'(5,8) f by (auto simp: in_order_def)
    moreover have "pn_step (reo c) ([f] @ new) (reo c')"
      using c1(5) c'(7) True by (intro pn_step_trans [of _ _ "reo c1"]) (auto simp: pn_step_def)
    moreover have "frames c' = frames c @ ([f] @ new)"
      using c'(4) c1(3) True by simp
    moreover have "all_frames c' = {#f#} + all_frames c"
      using c'(3) af by (simp add: all_frames_def slots_def)
    ultimately have "reo_effect {#f#} c c'"
      using c'(2) unfolding reo_effect_def by blast
    with c1(1) c'(1) True top show ?thesis
      by (auto simp: deliver_in_order_def Let_def)
  qed
qed

lemma reo_inv_empty_iff:
  assumes "reo_inv r"
  shows "held (slots r) = {#} \<longleftrightarrow> lsn r = ssn r"
proof
  assume e: "held (slots r) = {#}"
  have "aml_reo_entry_index r (lsn r) < length (slots r)"
    using assms index_range by (simp add: reo_inv_def)
  with e have "slots r ! aml_reo_entry_index r (lsn r) = None"
    unfolding held_Nil_iff by blast
  with assms show "lsn r = ssn r"
    by (auto simp: reo_inv_def)
next
  assume e: "lsn r = ssn r"
  have "False" if "f \<in># held (slots r)" for f
  proof -
    have fr: "frames_ok (ssn r) 1 r" and le: "off (ssn r) (sn f) \<le> off (ssn r) (lsn r)"
      using assms that by (simp_all add: reo_inv_def)
    then show False
      using frames_ok_held [OF fr that] e by simp
  qed
  then show "held (slots r) = {#}"
    by (meson multiset_nonemptyE)
qed

lemma store_frame_spec:
  assumes inv: "reo_inv (reo c)" and nores: "\<not> reset (reo c)"
    and f: "sn f \<le> 0xFFF" "off (ssn (reo c)) (sn f) < uint (buf_size (reo c))" "sn f \<noteq> ssn (reo c)"
    and i: "i = aml_reo_entry_index (reo c) (sn f)" and free: "slots (reo c) ! i = None"
  shows "\<exists>c'. store_frame now i f c = Some c' \<and> reo_effect {#f#} c c' \<and> frames c' = frames c
     \<and> ssn (reo c') = ssn (reo c) \<and> slots (reo c') = (slots (reo c))[i := Some f]"
proof -
  let ?b = "ssn (reo c)" and ?r0 = "(reo c)\<lparr>in_buffer := in_buffer (reo c) + 1\<rparr>"
  let ?e = "off ?b (sn f)" and ?L = "off ?b (lsn (reo c))"
  have win: "win_ok (reo c)" and bb: "?b \<le> 0xFFF" and L: "?L < uint (buf_size (reo c))" "lsn (reo c) \<le> 0xFFF"
    and bs: "uint (buf_size (reo c)) \<le> 256" and fr: "frames_ok ?b 1 (reo c)" and cnt: "counted (reo c)"
    using inv by (simp_all add: reo_inv_def win_ok_def word_le_def)
  have e: "1 \<le> ?e"
    using f(1,3) bb off_zero_iff off_range [of ?b "sn f"] by fastforce
  have ilen: "i < length (buf (reo c))"
    unfolding i by (rule index_range [OF win])
  obtain bs' where b': "aml_reo_entry_skb_set now i f ?r0 = Some (?r0\<lparr>buf := bs'\<rparr>)"
      "map skb bs' = (slots ?r0)[i := Some f]" "length bs' = length (buf ?r0)"
    using entry_set_slots [of i ?r0 now f] ilen by auto
  have less: "ieee80211_sn_less (lsn (reo c)) (sn f) \<longleftrightarrow> ?L < ?e"
    using f(2) L bs by (intro sn_less_small) auto
  define r' where "r' = (let r = ?r0\<lparr>buf := bs'\<rparr>;
      r = (if ieee80211_sn_less (lsn r) (sn f) then r\<lparr>lsn := sn f\<rparr> else r)
      in if in_buffer r = 1 then aml_reo_session_add_to_aging_list r else r)"
  have run: "store_frame now i f c = Some (c\<lparr>reo := r'\<rparr>)"
    using b'(1) by (simp add: store_frame_def r'_def Let_def)
  have sl: "slots r' = (slots (reo c))[i := Some f]"
    using b'(2) by (auto simp: r'_def Let_def slots_def aml_reo_session_add_to_aging_list_def)
  have fld: "win_size r' = win_size (reo c)" "buf_size r' = buf_size (reo c)" "ssn r' = ?b"
      "lsn r' = (if ?L < ?e then sn f else lsn (reo c))" "reset r' = reset (reo c)"
      "delivered r' = delivered (reo c)" "in_buffer r' = in_buffer (reo c) + 1"
      "length (buf r') = length (buf (reo c))" "pn_check r' = pn_check (reo c)" "pn r' = pn (reo c)"
      "on_aging_list r' = (on_aging_list (reo c) \<or> in_buffer (reo c) = 0)"
    using less b'(3) by (auto simp: r'_def Let_def aml_reo_session_add_to_aging_list_def)
  have idx: "aml_reo_entry_index r' x = aml_reo_entry_index (reo c) x" for x
    using fld by (simp add: aml_reo_entry_index_def)
  have hd: "held (slots r') = add_mset f (held (slots (reo c)))"
    using held_set [of i "slots (reo c)" f] ilen free sl by simp
  have fr': "frames_ok ?b 1 r'"
    by (rule frames_ok_set [OF fr sl fld(1,2) f(1) i [symmetric] e f(2)])
  have Lnew: "off ?b (lsn r') = max ?L ?e"
    using fld(4) by (simp add: max_def)
  have le: "off ?b (sn g) \<le> off ?b (lsn r')" if "g \<in># held (slots r')" for g
  proof -
    have "g = f \<or> off ?b (sn g) \<le> ?L"
      using that hd inv by (auto simp: reo_inv_def)
    then show ?thesis
      using Lnew by auto
  qed
  have ne: "lsn r' \<noteq> ?b"
    using Lnew e by auto
  have last: "slots r' ! aml_reo_entry_index r' (lsn r') \<noteq> None"
  proof (cases "aml_reo_entry_index (reo c) (lsn r') = i")
    case True
    then show ?thesis
      using ilen sl idx by simp
  next
    case False
    then have "lsn r' = lsn (reo c)"
      using fld(4) i by (simp split: if_splits)
    with ne False inv sl idx show ?thesis
      by (simp add: reo_inv_def)
  qed
  have "in_buffer (reo c) = 0 \<longleftrightarrow> lsn (reo c) = ?b"
    using cnt reo_inv_empty_iff [OF inv] by (simp add: counted_def)
  then have ag: "on_aging_list r'"
    using fld(11) inv by (auto simp: reo_inv_def)
  have "counted r'"
    using cnt hd fld(7) by (simp add: counted_def)
  then have "reo_inv r'"
    using inv fr' le ne last ag fld Lnew f L nores unfolding reo_inv_def win_ok_def by auto
  then have "reo_effect {#f#} c (c\<lparr>reo := r'\<rparr>)"
    using hd fld by (intro reo_effect_quiet) (simp_all add: all_frames_def pn_step_def)
  with run sl fld show ?thesis
    by simp
qed

lemma reo_inv_restart:
  assumes inv: "reo_inv r" and e: "lsn r = ssn r" and s: "s \<le> 0xFFF"
    and r': "win_size r' = win_size r" "buf_size r' = buf_size r" "slots r' = slots r"
      "length (delivered r') = length (delivered r)" "in_buffer r' = in_buffer r"
      "on_aging_list r' = on_aging_list r" "ssn r' = s" "lsn r' = s"
  shows "reo_inv r'"
proof -
  have h: "held (slots r') = {#}"
    using reo_inv_empty_iff [OF inv] e r'(3) by simp
  then have "slots r' ! i = None" if "i < length (buf r')" for i
    using that unfolding held_Nil_iff by (simp del: nth_slots)
  then have "frames_ok s 1 r'"
    unfolding frames_ok_def by simp
  moreover have "length (buf r') = length (buf r)"
    using r'(3) by (metis length_slots)
  moreover have "0 < uint (buf_size r)"
    using inv by (simp add: reo_inv_def word_le_def)
  ultimately show ?thesis
    using inv e s h r' by (simp add: reo_inv_def win_ok_def counted_def)
qed

lemma off_compose: "off b c + off c x < 4096 \<Longrightarrow> off b x = off b c + off c x"
proof -
  assume lt: "off b c + off c x < 4096"
  have "(off b c + off c x) mod 4096 = (uint c - uint b + (uint x - uint c)) mod 4096"
    unfolding off_def by (rule mod_add_eq)
  also have "\<dots> = off b x"
    by (simp add: off_def)
  finally show ?thesis
    using lt off_range [of b c] off_range [of c x] by (simp add: mod_pos_pos_trivial)
qed

lemma in_order_append:
  assumes "in_order b fs r" and "in_order (ssn r) gs r'" and "off b (ssn r) + off (ssn r) (ssn r') < 4096"
  shows "in_order b (fs @ gs) r'"
proof -
  have s: "off b (ssn r') = off b (ssn r) + off (ssn r) (ssn r')"
    using off_compose assms(3) by blast
  have lt: "off (ssn r) (sn g) < off (ssn r) (ssn r')" if "g \<in> set gs" for g
    using assms(2) that by (simp add: in_order_def)
  then have g: "off b (sn g) = off b (ssn r) + off (ssn r) (sn g)" if "g \<in> set gs" for g
    using that assms(3) by (intro off_compose) fastforce
  have eq: "map (\<lambda>g. off b (sn g)) gs = map (\<lambda>g. off b (ssn r) + off (ssn r) (sn g)) gs"
    using g by simp
  have "sorted_wrt (<) (map (\<lambda>g. off b (sn g)) gs)"
    unfolding eq using assms(2) by (simp add: in_order_def sorted_wrt_map)
  moreover have "off b (sn f) < off b (sn g)" if "f \<in> set fs" "g \<in> set gs" for f g
    using assms(1) that g [OF that(2)] off_range [of "ssn r" "sn g"] by (fastforce simp: in_order_def)
  moreover have "off b (sn f) < off b (ssn r')" if "f \<in> set fs" for f
    using assms(1) that s off_range [of "ssn r" "ssn r'"] by (fastforce simp: in_order_def)
  moreover have "off b (sn g) < off b (ssn r')" if "g \<in> set gs" for g
    using that g lt s by simp
  ultimately show ?thesis
    using assms(1) by (auto simp: in_order_def sorted_wrt_append)
qed

lemma enqueue_spec:
  assumes inv: "reo_inv (reo c)" and f: "sn f \<le> 0xFFF"
  shows "\<exists>c' new. aml_reo_enqueue now f c = Some c' \<and> reo_inv (reo c') \<and> all_frames c' = {#f#} + all_frames c
     \<and> frames c' = frames c @ new
     \<and> in_order (if reset (reo c) then sn f else ssn (reo c)) new (reo c') \<and> pn_step (reo c) new (reo c')"
proof -
  let ?r0 = "(reo c)\<lparr>st_rx := st_rx (reo c) + 1, last_rx := now\<rparr>"
  let ?b = "if reset (reo c) then sn f else ssn (reo c)"
  have eq0: "window_eq (reo c) ?r0"
    by (simp add: window_eq_def slots_def)
  have inv0: "reo_inv ?r0"
    using inv reo_inv_window_eq [OF eq0] by simp
  obtain r1 where r1: "reset_first (sn f) ?r0 = Some r1" "reo_inv r1" "\<not> reset r1" "ssn r1 = ?b"
      "slots r1 = slots (reo c)" "pn_check r1 = pn_check (reo c)" "pn r1 = pn (reo c)" "win_size r1 = win_size (reo c)"
  proof (cases "reset (reo c)")
    case True
    let ?r1 = "?r0\<lparr>reset := False, ssn := sn f, lsn := sn f\<rparr>"
    have e: "lsn ?r0 = ssn ?r0"
      using inv True by (simp add: reo_inv_def)
    have "reo_inv ?r1"
      by (rule reo_inv_restart [OF inv0 e f]) (simp_all add: slots_def)
    with True e that [of ?r1] show ?thesis
      by (simp add: reset_first_def aml_reo_has_buffer_def slots_def)
  next
    case False
    with inv0 that [of ?r0] show ?thesis
      by (simp add: reset_first_def slots_def)
  qed
  let ?c1 = "c\<lparr>reo := r1\<rparr>" and ?i = "aml_reo_entry_index (reo c) (sn f)"
  have idx: "?i = aml_reo_entry_index r1 (sn f)"
    using r1(8) by (simp add: aml_reo_entry_index_def)
  have af: "all_frames ?c1 = all_frames c" and pn1: "pn_step (reo c) fs r = pn_step r1 fs r" for fs r
    using r1 by (simp_all add: all_frames_def pn_step_def)
  have key: ?thesis if "aml_reo_enqueue now f c = Some c'" and "reo_effect {#f#} ?c1 c'" for c'
    using that af pn1 r1(4) unfolding reo_effect_def by auto
  show ?thesis
  proof (cases "ieee80211_sn_less (sn f) (ssn r1)")
    case True
    have "?i < length (delivered (reo ?c1))"
      using idx index_range_delivered r1(2) by (simp add: reo_inv_def)
    then obtain c' where "drop_old f ?i ?c1 = Some c'" "reo_effect {#f#} ?c1 c'"
      using drop_old_spec [of ?c1 ?i f] r1(2) by auto
    moreover have "aml_reo_enqueue now f c = drop_old f ?i ?c1"
      using r1(1) True by (simp add: aml_reo_enqueue_def Let_def)
    ultimately show ?thesis
      using key by simp
  next
    case False
    then obtain c2 new where c2: "make_room now (sn f) ?c1 = Some c2" "reo_inv (reo c2)" "\<not> reset (reo c2)"
        "all_frames c2 = all_frames ?c1" "frames c2 = frames ?c1 @ new" "in_order (ssn r1) new (reo c2)"
        "pn_step r1 new (reo c2)" "off (ssn r1) (ssn (reo c2)) \<le> off (ssn r1) (sn f)"
        "off (ssn (reo c2)) (sn f) < uint (buf_size (reo c2))" "win_size (reo c2) = win_size r1"
      using make_room_spec [of ?c1 "sn f" now] r1(2,3) f by auto
    have i2: "?i = aml_reo_entry_index (reo c2) (sn f)"
      using idx c2(10) by (simp add: aml_reo_entry_index_def)
    have ilen: "?i < length (buf (reo c2))"
      unfolding i2 using index_range c2(2) by (simp add: reo_inv_def)
    have run: "aml_reo_enqueue now f c = (case slots (reo c2) ! ?i of
        Some f0 \<Rightarrow> keep_newer now ?i f f0 c2
      | None \<Rightarrow> if sn f = ssn (reo c2) then deliver_in_order f ?i c2 else store_frame now ?i f c2)"
      using r1(1) False c2(1) ilen by (simp add: aml_reo_enqueue_def Let_def slot_def)
    have last: "\<exists>c'. aml_reo_enqueue now f c = Some c' \<and> reo_effect {#f#} c2 c'
        \<and> off (ssn (reo c2)) (ssn (reo c')) \<le> 256"
    proof (cases "slots (reo c2) ! ?i")
      case (Some f0)
      then obtain c' where "keep_newer now ?i f f0 c2 = Some c'" "reo_effect {#f#} c2 c'"
          "ssn (reo c') = ssn (reo c2)" "frames c' = frames c2"
        using keep_newer_spec [OF c2(2) f c2(9) i2] by blast
      with run Some show ?thesis
        by auto
    next
      case None
      show ?thesis
      proof (cases "sn f = ssn (reo c2)")
        case True
        then obtain c' where "deliver_in_order f ?i c2 = Some c'" "reo_effect {#f#} c2 c'"
          "off (ssn (reo c2)) (ssn (reo c')) \<le> 256"
          using deliver_in_order_spec [OF c2(2,3) _ i2] by blast
        with run None True show ?thesis
          by auto
      next
        case ne: False
        then obtain c' where "store_frame now ?i f c2 = Some c'" "reo_effect {#f#} c2 c'"
            "ssn (reo c') = ssn (reo c2)" "frames c' = frames c2"
          using store_frame_spec [OF c2(2,3) f c2(9) _ i2 None] by blast
        with run None ne show ?thesis
          by auto
      qed
    qed
    then obtain c' where c': "aml_reo_enqueue now f c = Some c'" "reo_effect {#f#} c2 c'"
        "off (ssn (reo c2)) (ssn (reo c')) \<le> 256"
      by blast
    obtain new' where n': "frames c' = frames c2 @ new'" "in_order (ssn (reo c2)) new' (reo c')"
        "pn_step (reo c2) new' (reo c')"
      using c'(2) unfolding reo_effect_def by blast
    have "off (ssn r1) (sn f) \<le> 2048"
      using False off_range [of "ssn r1" "sn f"] by (auto simp: sn_less_iff [of _ _ "ssn r1"] split: if_splits)
    then have "in_order (ssn r1) (new @ new') (reo c')"
      using c2(6,8) c'(3) n'(2) by (intro in_order_append [of _ _ "reo c2"]) auto
    moreover have "pn_step r1 (new @ new') (reo c')"
      using c2(7) n'(3) by (rule pn_step_trans)
    ultimately have "reo_effect {#f#} ?c1 c'"
      using c'(2) c2(4,5) n'(1) unfolding reo_effect_def by auto
    with c'(1) key show ?thesis
      by blast
  qed
qed

section \<open>Ageing flushes what is overdue\<close>

definition overdue :: "u64 \<Rightarrow> aml_reo_session \<Rightarrow> nat \<Rightarrow> bool" where
  "overdue now r i \<longleftrightarrow> i < length (buf r) \<and> slots r ! i \<noteq> None \<and> time_after now (deadline (buf r ! i))"

lemma expired_scan_spec:
  assumes "lo + n \<le> length (buf r)"
  shows "\<exists>res. expired_scan lo n now r = Some res \<and> (case res of
       None \<Rightarrow> \<forall>j. lo \<le> j \<longrightarrow> j < lo + n \<longrightarrow> \<not> overdue now r j
     | Some i \<Rightarrow> lo \<le> i \<and> i < lo + n \<and> overdue now r i \<and> (\<forall>j. i < j \<longrightarrow> j < lo + n \<longrightarrow> \<not> overdue now r j))"
  using assms
proof (induction n)
  case (Suc n)
  have e: "aml_reo_entry_expired (lo + n) now r = Some (overdue now r (lo + n))"
    using Suc.prems by (simp add: aml_reo_entry_expired_def overdue_def)
  show ?case
  proof (cases "overdue now r (lo + n)")
    case True
    with e show ?thesis
      by simp
  next
    case False
    obtain res where res: "expired_scan lo n now r = Some res" "case res of
       None \<Rightarrow> \<forall>j. lo \<le> j \<longrightarrow> j < lo + n \<longrightarrow> \<not> overdue now r j
     | Some i \<Rightarrow> lo \<le> i \<and> i < lo + n \<and> overdue now r i \<and> (\<forall>j. i < j \<longrightarrow> j < lo + n \<longrightarrow> \<not> overdue now r j)"
      using Suc by auto
    with e False show ?thesis
      by (auto simp: less_Suc_eq split: option.splits)
  qed
qed simp

text \<open>A buffered frame lies as many slots behind the head as its number is ahead of \<open>ssn\<close>.\<close>

lemma slot_offset:
  assumes inv: "reo_inv r" and i: "i < length (buf r)" and f: "slots r ! i = Some f"
  shows "off (ssn r) (sn f) = (int i - int (aml_reo_entry_index r (ssn r))) mod uint (win_size r)"
proof -
  have win: "win_ok r" and fr: "frames_ok (ssn r) 1 r"
    using inv by (simp_all add: reo_inv_def)
  have g: "aml_reo_entry_index r (sn f) = i" "off (ssn r) (sn f) < uint (buf_size r)"
    using fr i f unfolding frames_ok_def by blast+
  have "int i = uint (sn f) mod uint (win_size r)"
    using uint_index [OF win, of "sn f"] g(1) by simp
  then have "(int i - int (aml_reo_entry_index r (ssn r))) mod uint (win_size r)
      = (uint (sn f) - uint (ssn r)) mod uint (win_size r)"
    by (simp add: uint_index [OF win] mod_diff_eq)
  also have "\<dots> = off (ssn r) (sn f) mod uint (win_size r)"
    using win_dvd [OF win] by (simp add: off_def mod_mod_cancel)
  also have "\<dots> = off (ssn r) (sn f)"
    using g(2) buf_size_win [OF win] off_range by (intro mod_pos_pos_trivial) auto
  finally show ?thesis
    by simp
qed

lemma mod_window:
  fixes i h w :: int
  assumes "0 \<le> i" "i < w" "0 \<le> h" "h < w"
  shows "(i - h) mod w = (if h \<le> i then i - h else w + i - h)"
proof (cases "h \<le> i")
  case False
  then have "(i - h) mod w = (i - h + w) mod w"
    by simp
  also have "\<dots> = i - h + w"
    using assms False by (intro mod_pos_pos_trivial) auto
  finally show ?thesis
    using False by simp
qed (use assms in \<open>simp add: mod_pos_pos_trivial\<close>)

text \<open>The number the expiry scan reports lies behind every overdue frame.\<close>

definition expiry :: "u64 \<Rightarrow> aml_reo_session \<Rightarrow> aml_reo_session \<times> u16 option \<Rightarrow> bool" where
  "expiry now r res \<longleftrightarrow> window_eq r (fst res) \<and> pn (fst res) = pn r \<and> pn_check (fst res) = pn_check r \<and> (case snd res of
       None \<Rightarrow> \<forall>i. \<not> overdue now r i
     | Some s \<Rightarrow> 2 \<le> off (ssn r) s \<and> off (ssn r) s \<le> uint (buf_size r) \<and>
         (\<forall>i f. overdue now r i \<longrightarrow> slots r ! i = Some f \<longrightarrow> off (ssn r) (sn f) < off (ssn r) s))"

lemma expired_hit_expiry:
  assumes inv: "reo_inv r" and i: "overdue now r i"
    and d: "int d = (int i - int (aml_reo_entry_index r (ssn r))) mod uint (win_size r)"
    and max: "\<And>j. overdue now r j \<Longrightarrow>
       (int j - int (aml_reo_entry_index r (ssn r))) mod uint (win_size r) \<le> int d"
  shows "expiry now r (expired_hit r d)"
proof -
  have win: "win_ok r" and fr: "frames_ok (ssn r) 1 r"
    using inv by (simp_all add: reo_inv_def)
  obtain f where f: "i < length (buf r)" "slots r ! i = Some f"
    using i unfolding overdue_def by blast
  have o: "off (ssn r) (sn f) = int d"
    using slot_offset [OF inv f] d by simp
  have b: "1 \<le> int d" "int d < uint (buf_size r)"
    using fr f o unfolding frames_ok_def by metis+
  have bs: "uint (buf_size r) \<le> 256"
    using win by (simp add: win_ok_def word_le_def)
  have "uint (of_nat d + 1 :: u16) = (int d + 1) mod 65536"
    by (simp add: uint_word_ariths unsigned_of_nat take_bit_eq_mod mod_add_left_eq of_nat_mod)
  then have "uint (of_nat d + 1 :: u16) = int d + 1"
    using b bs by (simp add: mod_pos_pos_trivial)
  then have s: "off (ssn r) (ieee80211_sn_add (ssn r) (of_nat d + 1)) = int d + 1"
    using b bs by (simp add: off_add mod_pos_pos_trivial)
  have "off (ssn r) (sn g) < int d + 1" if "overdue now r j" "slots r ! j = Some g" for j g
    using slot_offset [OF inv _ that(2)] max [OF that(1)] that(1) unfolding overdue_def by auto
  with s b show ?thesis
    unfolding expiry_def expired_hit_def by (auto simp: window_eq_def slots_def simp del: nth_slots)
qed

lemma expired_lsn_spec:
  assumes inv: "reo_inv r"
  shows "\<exists>res. aml_reo_entry_expired_lsn now r = Some res \<and> expiry now r res"
proof -
  let ?h = "aml_reo_entry_index r (ssn r)" and ?l = "aml_reo_entry_index r (lsn r)" and ?w = "unat (win_size r)"
  have win: "win_ok r"
    using inv by (simp add: reo_inv_def)
  have len: "length (buf r) = ?w" and h: "?h < ?w" and l: "?l < ?w"
    using win index_range [OF win] by (simp_all add: win_ok_def)
  have lt: "int k < uint (win_size r)" if "k < ?w" for k
  proof -
    have "int k < int ?w"
      using that by (simp only: of_nat_less_iff)
    then show ?thesis
      by simp
  qed
  have dist: "(int j - int ?h) mod uint (win_size r) = (if ?h \<le> j then int (j - ?h) else int (?w + j - ?h))"
    if "j < ?w" for j
  proof -
    have "(int j - int ?h) mod uint (win_size r)
        = (if int ?h \<le> int j then int j - int ?h else uint (win_size r) + int j - int ?h)"
      using lt [OF that] lt [OF h] by (intro mod_window) auto
    with h show ?thesis
      by (auto simp: of_nat_diff)
  qed
  have "1 \<le> off (ssn r) (sn f) \<and> off (ssn r) (sn f) \<le> off (ssn r) (lsn r)"
    if "j < ?w" "slots r ! j = Some f" for j f
  proof -
    have "f \<in># held (slots r)"
      using that len by (auto simp: held_mem in_set_conv_nth simp del: nth_slots)
    with inv frames_ok_held show ?thesis
      unfolding reo_inv_def by blast
  qed
  moreover have "off (ssn r) (lsn r) = (int ?l - int ?h) mod uint (win_size r)"
  proof -
    have "(int ?l - int ?h) mod uint (win_size r) = (uint (lsn r) - uint (ssn r)) mod uint (win_size r)"
      by (simp add: uint_index [OF win] mod_diff_eq)
    also have "\<dots> = off (ssn r) (lsn r) mod uint (win_size r)"
      using win_dvd [OF win] by (simp add: off_def mod_mod_cancel)
    also have "\<dots> = off (ssn r) (lsn r)"
      using inv buf_size_win [OF win] off_range by (intro mod_pos_pos_trivial) (auto simp: reo_inv_def)
    finally show ?thesis
      by simp
  qed
  ultimately have place: "1 \<le> (int j - int ?h) mod uint (win_size r)
      \<and> (int j - int ?h) mod uint (win_size r) \<le> (int ?l - int ?h) mod uint (win_size r) \<and> j < ?w"
    if "overdue now r j" for j
    using that slot_offset [OF inv] len unfolding overdue_def by fastforce
  have reach: "if ?l < ?h then j \<le> ?l \<or> ?h < j \<and> j < ?w else ?h < j \<and> j \<le> ?l" if "overdue now r j" for j
    using place [OF that] dist [of j] dist [OF l] lt [OF h] lt [OF l] h l by (auto split: if_splits)
  have quiet: "expiry now r (r, None)" if "\<And>j. \<not> overdue now r j"
    using that by (simp add: expiry_def window_eq_def)
  show ?thesis
  proof (cases "?l < ?h")
    case True
    obtain lo where lo: "expired_scan 0 (?l + 1) now r = Some lo" "case lo of
         None \<Rightarrow> \<forall>j. 0 \<le> j \<longrightarrow> j < 0 + (?l + 1) \<longrightarrow> \<not> overdue now r j
       | Some i \<Rightarrow> 0 \<le> i \<and> i < 0 + (?l + 1) \<and> overdue now r i \<and> (\<forall>j. i < j \<longrightarrow> j < 0 + (?l + 1) \<longrightarrow> \<not> overdue now r j)"
      using expired_scan_spec [of 0 "?l + 1" r now] l len by auto
    obtain hi where hi: "expired_scan (?h + 1) (?w - 1 - ?h) now r = Some hi" "case hi of
         None \<Rightarrow> \<forall>j. ?h + 1 \<le> j \<longrightarrow> j < ?h + 1 + (?w - 1 - ?h) \<longrightarrow> \<not> overdue now r j
       | Some i \<Rightarrow> ?h + 1 \<le> i \<and> i < ?h + 1 + (?w - 1 - ?h) \<and> overdue now r i
           \<and> (\<forall>j. i < j \<longrightarrow> j < ?h + 1 + (?w - 1 - ?h) \<longrightarrow> \<not> overdue now r j)"
      using expired_scan_spec [of "?h + 1" "?w - 1 - ?h" r now] h len by auto
    show ?thesis
    proof (cases lo)
      case (Some i)
      then have i: "i \<le> ?l" "overdue now r i" "\<And>j. i < j \<Longrightarrow> j \<le> ?l \<Longrightarrow> \<not> overdue now r j"
        using lo(2) by auto
      have "expiry now r (expired_hit r (?w + i - ?h))"
      proof (rule expired_hit_expiry [OF inv i(2)])
        show "int (?w + i - ?h) = (int i - int ?h) mod uint (win_size r)"
          using dist [of i] i(1) True l by simp
        show "(int j - int ?h) mod uint (win_size r) \<le> int (?w + i - ?h)" if j: "overdue now r j" for j
          using reach [OF j] place [OF j] dist [of j] lt [of j] i(1,3) j True h by (cases "i < j") (auto split: if_splits)
      qed
      with True lo(1) Some show ?thesis
        by (simp add: aml_reo_entry_expired_lsn_def Let_def)
    next
      case lon: None
      show ?thesis
      proof (cases hi)
        case (Some i)
        then have i: "?h < i" "i < ?w" "overdue now r i" "\<And>j. i < j \<Longrightarrow> j < ?w \<Longrightarrow> \<not> overdue now r j"
          using hi(2) h by auto
        have "expiry now r (expired_hit r (i - ?h))"
        proof (rule expired_hit_expiry [OF inv i(3)])
          show "int (i - ?h) = (int i - int ?h) mod uint (win_size r)"
            using dist [of i] i(1,2) by simp
          show "(int j - int ?h) mod uint (win_size r) \<le> int (i - ?h)" if j: "overdue now r j" for j
          proof -
            have "\<not> j \<le> ?l"
              using lo(2) lon j by auto
            with reach [OF j] True have "?h < j" "j < ?w"
              by auto
            with i(4) [of j] j dist [of j] show ?thesis
              by (cases "i < j") auto
          qed
        qed
        with True lo(1) hi(1) lon Some show ?thesis
          by (simp add: aml_reo_entry_expired_lsn_def Let_def)
      next
        case None
        have "expiry now r (r, None)"
          using lo(2) hi(2) lon None reach True h by (intro quiet) fastforce
        with True lo(1) hi(1) lon None show ?thesis
          by (simp add: aml_reo_entry_expired_lsn_def Let_def)
      qed
    qed
  next
    case False
    obtain hi where hi: "expired_scan (?h + 1) (?l - ?h) now r = Some hi" "case hi of
         None \<Rightarrow> \<forall>j. ?h + 1 \<le> j \<longrightarrow> j < ?h + 1 + (?l - ?h) \<longrightarrow> \<not> overdue now r j
       | Some i \<Rightarrow> ?h + 1 \<le> i \<and> i < ?h + 1 + (?l - ?h) \<and> overdue now r i
           \<and> (\<forall>j. i < j \<longrightarrow> j < ?h + 1 + (?l - ?h) \<longrightarrow> \<not> overdue now r j)"
      using expired_scan_spec [of "?h + 1" "?l - ?h" r now] l False len by auto
    show ?thesis
    proof (cases hi)
      case (Some i)
      then have i: "?h < i" "i \<le> ?l" "overdue now r i" "\<And>j. i < j \<Longrightarrow> j \<le> ?l \<Longrightarrow> \<not> overdue now r j"
        using hi(2) False by auto
      have "expiry now r (expired_hit r (i - ?h))"
      proof (rule expired_hit_expiry [OF inv i(3)])
        show "int (i - ?h) = (int i - int ?h) mod uint (win_size r)"
          using dist [of i] i(1,2) l by simp
        show "(int j - int ?h) mod uint (win_size r) \<le> int (i - ?h)" if j: "overdue now r j" for j
        proof -
          have "?h < j" "j \<le> ?l"
            using reach [OF j] False by auto
          with i(4) [of j] j dist [of j] l show ?thesis
            by (cases "i < j") auto
        qed
      qed
      with False hi(1) Some show ?thesis
        by (simp add: aml_reo_entry_expired_lsn_def Let_def)
    next
      case None
      have "expiry now r (r, None)"
        using hi(2) None reach False by (intro quiet) fastforce
      with False hi(1) None show ?thesis
        by (simp add: aml_reo_entry_expired_lsn_def Let_def)
    qed
  qed
qed

lemma reo_effect_then:
  assumes "reo_effect extra c c'" and "window_eq (reo c') (reo c'')" and "pn (reo c'') = pn (reo c')"
    and "pn_check (reo c'') = pn_check (reo c')" and "frames c'' = frames c'" and "freed c'' = freed c'"
  shows "reo_effect extra c c''"
proof -
  have "reo_inv (reo c'')"
    using assms(1) reo_inv_window_eq [OF assms(2)] by (simp add: reo_effect_def)
  moreover have "ssn (reo c'') = ssn (reo c')" "slots (reo c'') = slots (reo c')"
    using assms(2) by (simp_all add: window_eq_def)
  ultimately show ?thesis
    using assms(1,3-) by (simp add: reo_effect_def all_frames_def in_order_def pn_step_def)
qed

text \<open>What \<open>window_eq\<close> states and equal packet-number fields carry over from the start.\<close>

lemma reo_effect_from:
  assumes "reo_effect extra c0 c'" and "window_eq (reo c) (reo c0)" and "pn (reo c0) = pn (reo c)"
    and "pn_check (reo c0) = pn_check (reo c)" and "frames c0 = frames c" and "freed c0 = freed c"
  shows "reo_effect extra c c'"
proof -
  have "ssn (reo c0) = ssn (reo c)" "slots (reo c0) = slots (reo c)"
    using assms(2) by (simp_all add: window_eq_def)
  then show ?thesis
    using assms(1,3-) by (simp add: reo_effect_def all_frames_def pn_step_def)
qed

lemma reo_inv_has_buffer: "reo_inv r \<Longrightarrow> on_aging_list r = aml_reo_has_buffer r"
  by (simp add: reo_inv_def aml_reo_has_buffer_def)

lemma entry_aging_spec:
  assumes inv: "reo_inv (reo c)" and list: "on_aging_list (reo c)"
  shows "\<exists>c'. aml_reo_entry_aging now c = Some c' \<and> reo_effect {#} c c'
     \<and> (last_aging (reo c) \<noteq> now \<longrightarrow> (\<forall>i. overdue now (reo c) i \<longrightarrow> slots (reo c') ! i = None))"
proof (cases "last_aging (reo c) = now")
  case True
  moreover have "reo_effect {#} c c"
    by (rule reo_effect_quiet) (simp_all add: inv)
  ultimately show ?thesis
    using inv list by (simp add: aml_reo_entry_aging_def reo_inv_has_buffer)
next
  case False
  have buffer: "aml_reo_has_buffer (reo c)" and nores: "\<not> reset (reo c)"
    using inv list by (auto simp: reo_inv_has_buffer aml_reo_has_buffer_def reo_inv_def)
  obtain r e where e: "aml_reo_entry_expired_lsn now (reo c) = Some (r, e)" "expiry now (reo c) (r, e)"
    using expired_lsn_spec [OF inv, of now] by (metis prod.collapse)
  have w: "window_eq (reo c) r" "pn r = pn (reo c)" "pn_check r = pn_check (reo c)"
    using e(2) by (simp_all add: expiry_def)
  show ?thesis
  proof (cases e)
    case None
    let ?c' = "c\<lparr>reo := r\<lparr>last_aging := now\<rparr>\<rparr>"
    have eq: "window_eq (reo c) (reo ?c')"
      using w(1) by (simp add: window_eq_def slots_def)
    have "reo_effect {#} c c"
      by (rule reo_effect_quiet) (simp_all add: inv)
    then have "reo_effect {#} c ?c'"
      using reo_effect_then [OF _ eq] w by simp
    moreover have "aml_reo_entry_aging now c = Some ?c'"
      using e(1) buffer False None by (simp add: aml_reo_entry_aging_def)
    moreover have "\<not> overdue now (reo c) i" for i
      using e(2) None by (simp add: expiry_def)
    ultimately show ?thesis
      by blast
  next
    case (Some s)
    let ?c0 = "c\<lparr>reo := r\<lparr>last_timeout := aml_reo_evt_set now (uint s)\<rparr>\<rparr>"
    let ?b = "ssn (reo c)"
    have eq: "window_eq (reo c) (reo ?c0)"
      using w(1) by (simp add: window_eq_def slots_def)
    have b0: "ssn (reo ?c0) = ?b" "slots (reo ?c0) = slots (reo c)" "buf_size (reo ?c0) = buf_size (reo c)"
        "\<not> reset (reo ?c0)"
      using eq nores unfolding window_eq_def by metis+
    have s: "2 \<le> off ?b s" "off ?b s \<le> uint (buf_size (reo c))"
      using e(2) Some by (simp_all add: expiry_def)
    have bs: "uint (buf_size (reo c)) \<le> 256"
      using inv by (simp add: reo_inv_def win_ok_def word_le_def)
    have small: "off ?b s < 2048" "0 \<le> max (off ?b s) (uint (buf_size (reo ?c0)))"
      using s bs by linarith (simp add: le_max_iff_disj)
    have "shift_pre ?b 0 (reo ?c0)"
      using shift_pre_start [of "reo ?c0"] reo_inv_window_eq [OF eq] inv b0 by simp
    then obtain c1 new where c1: "aml_reo_shift_to s ?c0 = Some c1" "reo_inv (reo c1)"
        "all_frames c1 = all_frames ?c0" "frames c1 = frames ?c0 @ new" "in_order ?b new (reo c1)"
        "pn_step (reo ?c0) new (reo c1)" "off ?b s \<le> off ?b (ssn (reo c1))"
        "slots (reo c1) = map (keep ?b (off ?b (ssn (reo c1)))) (slots (reo ?c0))"
      using aml_reo_shift_to_spec [OF _ refl small] by blast
    let ?c' = "upd_reo (\<lambda>r. r\<lparr>last_aging := now\<rparr>) c1"
    have "reo_effect {#} ?c0 c1"
      using c1 b0(1) by (simp add: reo_effect_def)
    then have "reo_effect {#} c c1"
      using reo_effect_from [OF _ eq] w by simp
    then have "reo_effect {#} c ?c'"
      by (rule reo_effect_then) (simp_all add: window_eq_def slots_def)
    moreover have "s \<noteq> ssn r"
      using s(1) b0(1) by auto
    then have "aml_reo_entry_aging now c = Some ?c'"
      using e(1) buffer False Some c1(1) by (simp add: aml_reo_entry_aging_def)
    moreover have "slots (reo ?c') ! i = None" if i: "overdue now (reo c) i" for i
    proof -
      obtain f where f: "slots (reo c) ! i = Some f" "i < length (slots (reo c))"
        using i unfolding overdue_def by auto
      then have "off ?b (sn f) < off ?b s"
        using e(2) Some i by (simp add: expiry_def del: nth_slots)
      moreover have "slots (reo c1) ! i = keep ?b (off ?b (ssn (reo c1))) (slots (reo c) ! i)"
        using c1(8) b0(2) f(2) by (metis nth_map)
      moreover have "slots (reo ?c') = slots (reo c1)"
        by (simp add: slots_def)
      ultimately show ?thesis
        using c1(7) f(1) by (simp add: keep_def del: nth_slots)
    qed
    ultimately show ?thesis
      by blast
  qed
qed

section \<open>Window moves\<close>

lemma bitmap_clear_defined:
  "start + n \<le> length (delivered r) \<Longrightarrow>
     \<exists>d. bitmap_clear start n r = Some (r\<lparr>delivered := d\<rparr>) \<and> length d = length (delivered r)"
  by (intro exI [of _ "take start (delivered r) @ replicate n False @ drop (start + n) (delivered r)"])
    (simp add: bitmap_clear_def)

lemma bitmap_clear_when:
  assumes "P \<Longrightarrow> start + n \<le> length (delivered r)"
  shows "\<exists>d. (if P then bitmap_clear start n r else Some r) = Some (r\<lparr>delivered := d\<rparr>)
     \<and> length d = length (delivered r)"
proof (cases P)
  case True
  with bitmap_clear_defined assms show ?thesis
    by simp
next
  case False
  have "r = r\<lparr>delivered := delivered r\<rparr>"
    by simp
  with False show ?thesis
    by (metis (full_types))
qed

lemma aml_reo_reset_ssn_spec:
  assumes win: "win_ok r"
  shows "\<exists>d. aml_reo_reset_ssn s r = Some (r\<lparr>delivered := d, ssn := s, lsn := s\<rparr>) \<and> length d = length (delivered r)"
proof -
  let ?start = "aml_reo_entry_index r (lsn r)" and ?stop = "aml_reo_entry_index r s"
  have len: "length (delivered r) = unat (win_size r)" and i: "?start < unat (win_size r)" "?stop < unat (win_size r)"
    using win index_range_delivered [OF win] by (simp_all add: win_ok_def)
  show ?thesis
  proof (cases "win_size r \<le> ieee80211_sn_sub s (lsn r)")
    case True
    obtain d where "bitmap_clear 0 (unat (win_size r)) r = Some (r\<lparr>delivered := d\<rparr>)"
        "length d = length (delivered r)"
      using bitmap_clear_defined [of 0 "unat (win_size r)" r] len by auto
    with True show ?thesis
      by (intro exI [of _ d]) (simp add: aml_reo_reset_ssn_def)
  next
    case near: False
    obtain d where d: "(if ?stop < ?start then bitmap_clear ?start (unat (win_size r) - ?start) r else Some r)
          = Some (r\<lparr>delivered := d\<rparr>)" "length d = length (delivered r)"
      using bitmap_clear_when [of "?stop < ?start" ?start "unat (win_size r) - ?start" r] len i by force
    let ?from = "if ?stop < ?start then 0 else ?start" and ?r1 = "r\<lparr>delivered := d\<rparr>"
    have "?from + (?stop - ?from) \<le> length (delivered ?r1)" if "?from < ?stop"
      using that i d(2) len by simp
    from bitmap_clear_when [OF this] obtain d'
      where "(if ?from < ?stop then bitmap_clear ?from (?stop - ?from) ?r1 else Some ?r1)
          = Some (?r1\<lparr>delivered := d'\<rparr>)" "length d' = length (delivered ?r1)"
      by blast
    moreover have "?r1\<lparr>delivered := d'\<rparr> = r\<lparr>delivered := d'\<rparr>" and "delivered ?r1 = d"
      by simp_all
    ultimately have d': "(if ?from < ?stop then bitmap_clear ?from (?stop - ?from) ?r1 else Some ?r1)
          = Some (r\<lparr>delivered := d'\<rparr>)" "length d' = length (delivered r)"
      using d(2) by (simp_all only:)
    have "aml_reo_reset_ssn s r = do {
        r1 \<leftarrow> (if ?stop < ?start then bitmap_clear ?start (unat (win_size r) - ?start) r else Some r);
        r2 \<leftarrow> (if ?from < ?stop then bitmap_clear ?from (?stop - ?from) r1 else Some r1);
        Some (r2\<lparr>ssn := s, lsn := s\<rparr>) }"
      using near by (simp only: aml_reo_reset_ssn_def Let_def bind_assoc if_False)
    also have "\<dots> = Some (r\<lparr>delivered := d', ssn := s, lsn := s\<rparr>)"
      unfolding d(1) by (simp only: bind.bind_lunit d'(1))
    finally show ?thesis
      using d'(2) by blast
  qed
qed

text \<open>A target at or behind the start of the window does not move it.\<close>

lemma shift_to_behind:
  assumes inv: "reo_inv (reo c)" and t: "\<not> ieee80211_sn_less (ssn (reo c)) t"
  shows "aml_reo_shift_to t c = Some c"
proof -
  let ?r = "reo c"
  have win: "win_ok ?r" and s: "ssn ?r \<le> 0xFFF"
    using inv by (simp_all add: reo_inv_def)
  have i: "aml_reo_entry_index ?r (ssn ?r) < length (buf ?r)"
    using index_range [OF win] .
  have "slots ?r ! aml_reo_entry_index ?r (ssn ?r) = None"
  proof (rule ccontr)
    assume "slots ?r ! aml_reo_entry_index ?r (ssn ?r) \<noteq> None"
    then obtain f where "slots ?r ! aml_reo_entry_index ?r (ssn ?r) = Some f"
      by blast
    moreover have "off (ssn ?r) (ssn ?r) < uint (buf_size ?r)"
      using inv by (simp add: reo_inv_def word_le_def)
    ultimately show False
      using reo_inv_at [OF inv s] by fastforce
  qed
  with i have "pop_slot (aml_reo_entry_index ?r (ssn ?r)) c = Some (c, False)"
    by (simp add: pop_slot_def slot_def)
  then have round: "shift_loop (Suc n) t (ssn ?r) c = Some (c, ssn ?r)" for n
    using t by (simp add: Let_def)
  have "shift_fuel = Suc 4096"
    by (simp add: shift_fuel_def)
  then have loop: "shift_loop shift_fuel t (ssn ?r) c = Some (c, ssn ?r)"
    using round [of 4096] by argo
  have l: "off (ssn ?r) (lsn ?r) < 2048"
    using inv by (auto simp: reo_inv_def win_ok_def word_le_def)
  have "\<not> ieee80211_sn_less (lsn ?r) (ssn ?r)"
    using sn_less_small [OF l, of "ssn ?r"] off_range [of "ssn ?r" "lsn ?r"] by simp
  moreover have "on_aging_list ?r = aml_reo_has_buffer ?r"
    using reo_inv_has_buffer [OF inv] .
  ultimately show ?thesis
    using loop by (cases "aml_reo_has_buffer ?r") (simp_all add: aml_reo_shift_to_def Let_def)
qed

lemma held_empty_clean: "held (slots r) = {#} \<Longrightarrow> slots r' = slots r \<Longrightarrow> held (slots r') = {#}"
  by simp

lemma forward_to_spec:
  assumes inv: "reo_inv (reo c)" and s: "s \<le> 0xFFF"
  defines "b \<equiv> ssn (reo c)"
  shows "\<exists>c' new. aml_reo_forward_to now s c = Some c' \<and> reo_inv (reo c') \<and> all_frames c' = all_frames c
     \<and> frames c' = frames c @ new \<and> sorted_wrt (<) (map (\<lambda>f. off b (sn f)) new) \<and> pn_step (reo c) new (reo c')
     \<and> (if s = b \<or> aml_reo_has_buffer (reo c) \<and> \<not> ieee80211_sn_less b s \<and> \<not> ieee80211_sn_less (lsn (reo c)) s
        then new = [] \<and> window_eq (reo c) (reo c')
        else ssn (reo c') = s \<and> lsn (reo c') = s \<and> held (slots (reo c')) = {#})"
proof -
  let ?c0 = "upd_reo (\<lambda>r. r\<lparr>last_bar := aml_reo_evt_set now (uint s)\<rparr>) c"
  have eq: "window_eq (reo c) (reo ?c0)"
    by (simp add: window_eq_def slots_def)
  have inv0: "reo_inv (reo ?c0)"
    using inv reo_inv_window_eq [OF eq] by simp
  have c0: "ssn (reo ?c0) = b" "lsn (reo ?c0) = lsn (reo c)" "slots (reo ?c0) = slots (reo c)"
      "aml_reo_has_buffer (reo ?c0) = aml_reo_has_buffer (reo c)" "all_frames ?c0 = all_frames c"
      "frames ?c0 = frames c"
    by (simp_all add: b_def slots_def aml_reo_has_buffer_def all_frames_def)
  have pn0: "pn_step (reo ?c0) fs r = pn_step (reo c) fs r" for fs r
    by (simp add: pn_step_def)
  let ?quiet = "s = b \<or> aml_reo_has_buffer (reo c) \<and> \<not> ieee80211_sn_less b s \<and> \<not> ieee80211_sn_less (lsn (reo c)) s"
  show ?thesis
  proof (cases ?quiet)
    case True
    have "aml_reo_forward_to now s c = Some ?c0"
    proof (cases "s = b")
      case False
      with True have "\<not> ieee80211_sn_less (ssn (reo ?c0)) s"
        using c0(1) by simp
      from shift_to_behind [OF inv0 this] show ?thesis
        using True False by (simp add: aml_reo_forward_to_def Let_def aml_reo_has_buffer_def b_def)
    qed (simp add: aml_reo_forward_to_def Let_def b_def)
    with True inv0 c0 eq show ?thesis
      by (intro exI [of _ ?c0] exI [of _ "[]"]) (simp add: pn_step_def)
  next
    case False
    show ?thesis
    proof (cases "aml_reo_has_buffer (reo c)")
      case nobuf: False
      then have e: "lsn (reo ?c0) = ssn (reo ?c0)"
        by (simp add: aml_reo_has_buffer_def)
      have win: "win_ok (reo ?c0)"
        using inv0 by (simp add: reo_inv_def)
      obtain d where d: "aml_reo_reset_ssn s (reo ?c0) = Some ((reo ?c0)\<lparr>delivered := d, ssn := s, lsn := s\<rparr>)"
          "length d = length (delivered (reo ?c0))"
        using aml_reo_reset_ssn_spec [OF win] by blast
      let ?r' = "(reo ?c0)\<lparr>delivered := d, ssn := s, lsn := s\<rparr>"
      have "reo_inv ?r'"
        by (rule reo_inv_restart [OF inv0 e s]) (use d(2) in \<open>simp_all add: slots_def\<close>)
      moreover have "aml_reo_forward_to now s c = Some (c\<lparr>reo := ?r'\<rparr>)"
        using False nobuf d(1) by (simp add: aml_reo_forward_to_def Let_def aml_reo_has_buffer_def b_def)
      moreover have "slots ?r' = slots (reo c)"
        by (simp add: slots_def)
      moreover have "held (slots (reo c)) = {#}"
        using reo_inv_empty_iff [OF inv] nobuf by (simp add: aml_reo_has_buffer_def)
      ultimately show ?thesis
        unfolding if_not_P [OF False]
        by (intro exI [of _ "c\<lparr>reo := ?r'\<rparr>"] exI [of _ "[]"]) (simp add: pn_step_def all_frames_def)
    next
      case buf: True
      let ?L = "off b (lsn (reo c))" and ?t = "ieee80211_sn_inc (lsn (reo c))"
      have nores: "\<not> reset (reo ?c0)"
        using inv buf by (auto simp: reo_inv_def aml_reo_has_buffer_def)
      have L: "?L < uint (buf_size (reo c))" "uint (buf_size (reo c)) \<le> 256"
        using inv unfolding b_def by (auto simp: reo_inv_def win_ok_def word_le_def)
      then have t: "off b ?t = ?L + 1"
        using off_inc_less by simp
      have pre: "shift_pre b 0 (reo ?c0)"
        using shift_pre_start [OF inv0 nores] c0(1) by simp
      have small: "off b ?t < 2048" "0 \<le> max (off b ?t) (uint (buf_size (reo ?c0)))"
        using t L off_range [of b ?t] by (simp_all add: le_max_iff_disj)
      obtain c1 new where c1: "aml_reo_shift_to ?t ?c0 = Some c1" "reo_inv (reo c1)"
          "all_frames c1 = all_frames ?c0" "frames c1 = frames ?c0 @ new" "in_order b new (reo c1)"
          "pn_step (reo ?c0) new (reo c1)" "off b ?t \<le> off b (ssn (reo c1))"
          "slots (reo c1) = map (keep b (off b (ssn (reo c1)))) (slots (reo ?c0))"
        using aml_reo_shift_to_spec [OF pre refl small] by blast
      have "off b (sn f) \<le> ?L" if "f \<in># held (slots (reo c))" for f
        using inv that unfolding reo_inv_def b_def by blast
      then have "f \<notin># held (slots (reo c1))" for f
        using c1(7,8) t c0(3) held_keep by fastforce
      then have h: "held (slots (reo c1)) = {#}"
        by (simp add: multiset_eq_iff not_in_iff)
      have e: "lsn (reo c1) = ssn (reo c1)" and win: "win_ok (reo c1)"
        using reo_inv_empty_iff [OF c1(2)] h c1(2) by (simp_all add: reo_inv_def)
      obtain d where d: "aml_reo_reset_ssn s (reo c1) = Some ((reo c1)\<lparr>delivered := d, ssn := s, lsn := s\<rparr>)"
          "length d = length (delivered (reo c1))"
        using aml_reo_reset_ssn_spec [OF win] by blast
      let ?r' = "(reo c1)\<lparr>delivered := d, ssn := s, lsn := s\<rparr>"
      have "reo_inv ?r'"
        by (rule reo_inv_restart [OF c1(2) e s]) (use d(2) in \<open>simp_all add: slots_def\<close>)
      moreover have "slots ?r' = slots (reo c1)"
        by (simp add: slots_def)
      moreover have "aml_reo_forward_to now s c = Some (c1\<lparr>reo := ?r'\<rparr>)"
        using False buf d(1) c1(1) by (auto simp: aml_reo_forward_to_def Let_def aml_reo_has_buffer_def b_def)
      moreover have "sorted_wrt (<) (map (\<lambda>f. off b (sn f)) new)"
        using c1(5) by (simp add: in_order_def)
      moreover have "pn_step (reo c) new ?r'"
        using c1(6) by (simp add: pn_step_def)
      ultimately show ?thesis
        unfolding if_not_P [OF False] using c1(3,4) c0 h
        by (intro exI [of _ "c1\<lparr>reo := ?r'\<rparr>"] exI [of _ new]) (simp add: all_frames_def)
    qed
  qed
qed

text \<open>A window move neither reads the reset flag nor the membership in the ageing list, which it
  only ends: setting the one or ending the other beforehand commutes with it.\<close>

definition mark :: "(bool \<Rightarrow> bool) \<Rightarrow> (bool \<Rightarrow> bool) \<Rightarrow> aml_reo_session \<Rightarrow> aml_reo_session" where
  "mark p q r = r\<lparr>reset := p (reset r), on_aging_list := q (on_aging_list r)\<rparr>"

abbreviation mark_io :: "(bool \<Rightarrow> bool) \<Rightarrow> (bool \<Rightarrow> bool) \<Rightarrow> reo_io \<Rightarrow> reo_io" where
  "mark_io p q c \<equiv> c\<lparr>reo := mark p q (reo c)\<rparr>"

lemma mark_simps [simp]:
  "buf (mark p q r) = buf r" "ssn (mark p q r) = ssn r" "lsn (mark p q r) = lsn r" "slots (mark p q r) = slots r"
  "win_size (mark p q r) = win_size r" "aml_reo_has_buffer (mark p q r) = aml_reo_has_buffer r"
  "buf_size (mark p q r) = buf_size r"
  "st_miss (mark p q r) = st_miss r" "in_buffer (mark p q r) = in_buffer r" "delivered (mark p q r) = delivered r"
  "pn_check (mark p q r) = pn_check r" "pn (mark p q r) = pn r" "st_pn_err (mark p q r) = st_pn_err r"
  "on_aging_list (mark p q r) = q (on_aging_list r)" "reset (mark p q r) = p (reset r)"
  "slot (mark p q r) i = slot r i" "aml_reo_entry_index (mark p q r) s = aml_reo_entry_index r s"
  by (simp_all add: mark_def slots_def aml_reo_has_buffer_def slot_def aml_reo_entry_index_def)

lemma mark_push:
  "(mark p q r)\<lparr>in_buffer := x\<rparr> = mark p q (r\<lparr>in_buffer := x\<rparr>)"
  "(mark p q r)\<lparr>st_miss := y\<rparr> = mark p q (r\<lparr>st_miss := y\<rparr>)"
  "(mark p q r)\<lparr>st_pn_err := y\<rparr> = mark p q (r\<lparr>st_pn_err := y\<rparr>)"
  "(mark p q r)\<lparr>pn_check := b\<rparr> = mark p q (r\<lparr>pn_check := b\<rparr>)"
  "(mark p q r)\<lparr>pn := n\<rparr> = mark p q (r\<lparr>pn := n\<rparr>)"
  "(mark p q r)\<lparr>last_bar := e\<rparr> = mark p q (r\<lparr>last_bar := e\<rparr>)"
  "(mark p q r)\<lparr>ssn := s\<rparr> = mark p q (r\<lparr>ssn := s\<rparr>)"
  "(mark p q r)\<lparr>lsn := s\<rparr> = mark p q (r\<lparr>lsn := s\<rparr>)"
  "(mark p q r)\<lparr>delivered := d\<rparr> = mark p q (r\<lparr>delivered := d\<rparr>)"
  "(mark p q r)\<lparr>buf := es\<rparr> = mark p q (r\<lparr>buf := es\<rparr>)"
  by (simp_all add: mark_def)

lemma mark_unlist: "\<not> q False \<Longrightarrow> (mark p q r)\<lparr>on_aging_list := False\<rparr> = mark p q (r\<lparr>on_aging_list := False\<rparr>)"
  by (simp add: mark_def)

lemma bind_map_option:
  "(\<And>x. f (h x) = map_option k (g x)) \<Longrightarrow> Option.bind (map_option h x) f = map_option k (Option.bind x g)"
  by (cases x) simp_all

lemma set_delivered_mark: "set_delivered i v (mark p q r) = map_option (mark p q) (set_delivered i v r)"
  by (simp add: set_delivered_def put_def mark_push)

lemma entry_clear_mark: "entry_clear i (mark p q r) = map_option (mark p q) (entry_clear i r)"
  by (simp add: entry_clear_def mark_push)

lemma aml_reo_dequeue_mark:
  "aml_reo_dequeue m i (c\<lparr>reo := mark p q r\<rparr>)
     = map_option (\<lambda>(c, popped). (mark_io p q c, popped)) (aml_reo_dequeue m i (c\<lparr>reo := r\<rparr>))"
  by (simp add: aml_reo_dequeue_def aml_reo_pn_check_def Let_def aml_mpdu_free_def set_delivered_def put_def mark_push)

lemma pop_slot_mark:
  "pop_slot i (mark_io p q c) = map_option (\<lambda>(c, popped). (mark_io p q c, popped)) (pop_slot i c)"
proof (cases "slot (reo c) i")
  case (Some x)
  show ?thesis
  proof (cases x)
    case None
    with Some show ?thesis
      by (simp add: pop_slot_def)
  next
    case (Some m)
    with \<open>slot (reo c) i = Some x\<close> show ?thesis
      by (simp add: pop_slot_def mark_push entry_clear_mark bind_map_option [where k = "\<lambda>(c, popped). (mark_io p q c, popped)"]
          aml_reo_dequeue_mark)
  qed
qed (simp add: pop_slot_def)

lemma shift_loop_mark:
  "shift_loop n t s (mark_io p q c) = map_option (\<lambda>(c, s). (mark_io p q c, s)) (shift_loop n t s c)"
proof (induction n arbitrary: s c)
  case (Suc n)
  let ?i = "aml_reo_entry_index (reo c) s"
  show ?case
  proof (cases "pop_slot ?i c")
    case None
    then show ?thesis
      by (simp add: Let_def pop_slot_mark)
  next
    case (Some x)
    obtain c1 popped where x: "x = (c1, popped)"
      by fastforce
    have ih: "shift_loop n t s' (c1\<lparr>reo := mark p q r\<rparr>)
        = map_option (\<lambda>(c, s). (mark_io p q c, s)) (shift_loop n t s' (c1\<lparr>reo := r\<rparr>))" for s' r
      using Suc.IH [of s' "c1\<lparr>reo := r\<rparr>"] by simp
    from Some x show ?thesis
      by (cases "set_delivered ?i False ((reo c1)\<lparr>st_miss := st_miss (reo c1) + 1\<rparr>)")
        (simp_all add: Let_def pop_slot_mark mark_push set_delivered_mark ih Suc.IH)
  qed
qed simp

lemma aml_reo_shift_to_mark:
  assumes q: "\<not> q False"
  shows "aml_reo_shift_to t (mark_io p q c) = map_option (mark_io p q) (aml_reo_shift_to t c)"
  by (cases "shift_loop shift_fuel t (ssn (reo c)) c")
    (auto simp: aml_reo_shift_to_def Let_def shift_loop_mark mark_push mark_unlist q)

lemma aml_reo_reset_ssn_mark: "aml_reo_reset_ssn s (mark p q r) = map_option (mark p q) (aml_reo_reset_ssn s r)"
proof -
  have b: "bitmap_clear i n (mark p q r) = map_option (mark p q) (bitmap_clear i n r)" for i n r
    by (simp add: bitmap_clear_def mark_push)
  show ?thesis
  proof (cases "win_size r \<le> ieee80211_sn_sub s (lsn r)")
    case True
    then show ?thesis
      by (simp add: aml_reo_reset_ssn_def b bind_map_option [where k = "mark p q"] mark_push)
  next
    case False
    then show ?thesis
      by (cases "aml_reo_entry_index r s < aml_reo_entry_index r (lsn r)")
        (simp_all add: aml_reo_reset_ssn_def Let_def b bind_map_option [where k = "mark p q"] mark_push)
  qed
qed

lemma aml_reo_forward_to_mark:
  assumes q: "\<not> q False"
  shows "aml_reo_forward_to now s (mark_io p q c) = map_option (mark_io p q) (aml_reo_forward_to now s c)"
proof -
  let ?c0 = "upd_reo (\<lambda>r. r\<lparr>last_bar := aml_reo_evt_set now (uint s)\<rparr>) c"
  have sh: "aml_reo_shift_to t (c\<lparr>reo := mark p q ((reo c)\<lparr>last_bar := aml_reo_evt_set now (uint s)\<rparr>)\<rparr>)
      = map_option (mark_io p q) (aml_reo_shift_to t ?c0)" for t
    using aml_reo_shift_to_mark [of q t p ?c0, OF q] by simp
  have rs: "Option.bind (map_option (mark_io p q) x)
        (\<lambda>c. Option.bind (aml_reo_reset_ssn s (reo c)) (\<lambda>r. Some (c\<lparr>reo := r\<rparr>)))
      = map_option (mark_io p q) (Option.bind x (\<lambda>c. Option.bind (aml_reo_reset_ssn s (reo c)) (\<lambda>r. Some (c\<lparr>reo := r\<rparr>))))" for x
  proof (cases x)
    case (Some c1)
    then show ?thesis
      by (cases "aml_reo_reset_ssn s (reo c1)") (simp_all add: aml_reo_reset_ssn_mark)
  qed simp
  have rs': "Option.bind (map_option (mark p q) x) (\<lambda>r. Some (c\<lparr>reo := r\<rparr>))
      = map_option (mark_io p q) (Option.bind x (\<lambda>r. Some (c\<lparr>reo := r\<rparr>)))" for x
    by (cases x) simp_all
  show ?thesis
    by (simp add: aml_reo_forward_to_def Let_def aml_reo_has_buffer_def sh rs rs' mark_push aml_reo_reset_ssn_mark)
qed

lemma forward_all_spec:
  assumes inv: "reo_inv (reo c)"
  shows "\<exists>c' new. aml_reo_forward_all now c = Some c' \<and> reo_inv (reo c') \<and> all_frames c' = all_frames c
     \<and> frames c' = frames c @ new \<and> sorted_wrt (<) (map (\<lambda>f. off (ssn (reo c)) (sn f)) new)
     \<and> pn_step (reo c) new (reo c') \<and> held (slots (reo c')) = {#}"
proof -
  let ?b = "ssn (reo c)" and ?s = "lsn (reo c)"
  have s: "?s \<le> 0xFFF" "?b \<le> 0xFFF" "off ?b ?s < 2048"
    using inv by (auto simp: reo_inv_def win_ok_def word_le_def)
  have less: "ieee80211_sn_less ?b ?s" if "?s \<noteq> ?b"
    using that s off_range [of ?b ?s] off_zero_iff [OF s(1,2)] sn_less_small [of ?b ?b ?s] by simp
  obtain c' new where c': "aml_reo_forward_to now ?s c = Some c'" "reo_inv (reo c')" "all_frames c' = all_frames c"
     "frames c' = frames c @ new" "sorted_wrt (<) (map (\<lambda>f. off ?b (sn f)) new)" "pn_step (reo c) new (reo c')"
     "if ?s = ?b \<or> aml_reo_has_buffer (reo c) \<and> \<not> ieee80211_sn_less ?b ?s \<and> \<not> ieee80211_sn_less ?s ?s
        then new = [] \<and> window_eq (reo c) (reo c')
        else ssn (reo c') = ?s \<and> lsn (reo c') = ?s \<and> held (slots (reo c')) = {#}"
    using forward_to_spec [OF inv s(1), of now] by blast
  have "held (slots (reo c')) = {#}"
  proof (cases "?s = ?b")
    case True
    then have "slots (reo c') = slots (reo c)"
      using c'(7) by (simp add: window_eq_def)
    with True reo_inv_empty_iff [OF inv] show ?thesis
      by simp
  next
    case False
    with c'(7) less show ?thesis
      by simp
  qed
  with c' show ?thesis
    by (auto simp: aml_reo_forward_all_def)
qed

text \<open>Handing up everything after such a change leaves an empty window, which any flag fits.\<close>

lemma forward_all_mark:
  assumes inv: "reo_inv (reo c)" and q: "\<not> q False"
  shows "\<exists>c1 c' new. c' = mark_io p q c1 \<and> aml_reo_forward_all now (mark_io p q c) = Some c' \<and> reo_inv (reo c')
     \<and> all_frames c' = all_frames c \<and> frames c' = frames c @ new \<and> pn_step (reo c) new (reo c')
     \<and> held (slots (reo c')) = {#}"
proof -
  obtain c1 new where c1: "aml_reo_forward_all now c = Some c1" "reo_inv (reo c1)" "all_frames c1 = all_frames c"
     "frames c1 = frames c @ new" "pn_step (reo c) new (reo c1)" "held (slots (reo c1)) = {#}"
    using forward_all_spec [OF inv] by blast
  have "aml_reo_forward_all now (mark_io p q c) = Some (mark_io p q c1)"
    using aml_reo_forward_to_mark [of q now "lsn (reo c)" p c, OF q] c1(1) by (simp add: aml_reo_forward_all_def)
  moreover have e: "lsn (reo c1) = ssn (reo c1)"
    using reo_inv_empty_iff [OF c1(2)] c1(6) by simp
  have "frames_ok b k (mark p q (reo c1)) = frames_ok b k (reo c1)" for b k
    unfolding frames_ok_def by simp
  then have "reo_inv (mark p q (reo c1))"
    using c1(2) e q by (simp add: reo_inv_def win_ok_def counted_def)
  ultimately show ?thesis
    using c1 by (intro exI [of _ c1] exI [of _ "mark_io p q c1"] exI [of _ new]) (simp add: all_frames_def pn_step_def)
qed

abbreviation set_reset :: "reo_io \<Rightarrow> reo_io" where
  "set_reset c \<equiv> c\<lparr>reo := (reo c)\<lparr>reset := True\<rparr>\<rparr>"

lemma mark_reset: "mark (\<lambda>_. True) (\<lambda>x. x) r = r\<lparr>reset := True\<rparr>" and
  mark_off_list: "mark (\<lambda>x. x) (\<lambda>_. False) r = r\<lparr>on_aging_list := False\<rparr>"
  by (simp_all add: mark_def)

lemma reset_forward_spec:
  assumes inv: "reo_inv (reo c)"
  shows "\<exists>c' new. aml_reo_forward_all now (set_reset c) = Some c' \<and> reo_inv (reo c') \<and> reset (reo c')
     \<and> all_frames c' = all_frames c \<and> frames c' = frames c @ new \<and> pn_step (reo c) new (reo c')
     \<and> held (slots (reo c')) = {#}"
  using forward_all_mark [OF inv, of "\<lambda>x. x" "\<lambda>_. True" now] by (auto simp: mark_reset)

section \<open>The session as a machine\<close>

text \<open>
  The events of a session: a received frame, a tick of the ageing timer while the session is
  on the ageing list, a window move asked for by a block-ack request, a reset after the
  firmware recovered, a new key. Sequence numbers are the 12-bit field of the frame header.
\<close>

datatype reo_event = Frame u64 mpdu | Tick u64 | Bar u64 u16 | Restart u64 | New_Key

definition new_key :: "aml_reo_session \<Rightarrow> aml_reo_session" where
  "new_key r = r\<lparr>pn := 0, pn_check := True\<rparr>"

fun reo_step :: "reo_event \<Rightarrow> reo_io \<Rightarrow> reo_io option" where
  "reo_step (Frame now f) c = (if sn f \<le> 0xFFF then aml_reo_enqueue now f c else Some c)"
| "reo_step (Tick now) c = (if on_aging_list (reo c) then aml_reo_entry_aging now c else Some c)"
| "reo_step (Bar now s) c = (if s \<le> 0xFFF then aml_reo_forward_to now s c else Some c)"
| "reo_step (Restart now) c = aml_reo_forward_all now (set_reset c)"
| "reo_step New_Key c = Some (upd_reo new_key c)"

fun arrived :: "reo_event \<Rightarrow> mpdu multiset" where
  "arrived (Frame now f) = (if sn f \<le> 0xFFF then {#f#} else {#})"
| "arrived e = {#}"

lemma reo_step_quiet:
  "reo_inv (reo c) \<Longrightarrow> \<exists>c' new. Some c = Some c' \<and> reo_inv (reo c') \<and> all_frames c' = {#} + all_frames c
     \<and> frames c' = frames c @ new \<and> (P \<longrightarrow> pn_step (reo c) new (reo c'))"
  by (intro exI [of _ c] exI [of _ "[]"]) simp

lemma reo_step_spec:
  assumes inv: "reo_inv (reo c)"
  shows "\<exists>c' new. reo_step e c = Some c' \<and> reo_inv (reo c') \<and> all_frames c' = arrived e + all_frames c
     \<and> frames c' = frames c @ new \<and> (e \<noteq> New_Key \<longrightarrow> pn_step (reo c) new (reo c'))"
proof (cases e)
  case (Frame now f)
  show ?thesis
  proof (cases "sn f \<le> 0xFFF")
    case True
    with enqueue_spec [OF inv True, of now] Frame show ?thesis
      by auto
  next
    case False
    with Frame reo_step_quiet [OF inv] show ?thesis
      by simp
  qed
next
  case (Tick now)
  show ?thesis
  proof (cases "on_aging_list (reo c)")
    case True
    from entry_aging_spec [OF inv True, of now] obtain c'
      where "aml_reo_entry_aging now c = Some c'" "reo_effect {#} c c'"
      by blast
    with Tick True show ?thesis
      by (auto simp: reo_effect_def)
  next
    case False
    with Tick reo_step_quiet [OF inv] show ?thesis
      by simp
  qed
next
  case (Bar now s)
  show ?thesis
  proof (cases "s \<le> 0xFFF")
    case True
    with forward_to_spec [OF inv True, of now] Bar show ?thesis
      by auto
  next
    case False
    with Bar reo_step_quiet [OF inv] show ?thesis
      by simp
  qed
next
  case (Restart now)
  with reset_forward_spec [OF inv, of now] show ?thesis
    by auto
next
  case New_Key
  have eq: "window_eq (reo c) (new_key (reo c))"
    by (simp add: window_eq_def new_key_def slots_def)
  have "slots (new_key (reo c)) = slots (reo c)"
    by (simp add: new_key_def slots_def)
  with New_Key inv reo_inv_window_eq [OF eq] show ?thesis
    by (intro exI [of _ "upd_reo new_key c"] exI [of _ "[]"]) (simp add: all_frames_def)
qed

interpretation reordering: total_machine reo_step "\<lambda>c. reo_inv (reo c)"
proof unfold_locales
  show "reo_inv (reo s')" if "reo_inv (reo s)" "reo_step e s = Some s'" for e s s'
    using reo_step_spec [OF that(1), of e] that(2) by auto
  show "\<exists>s'. reo_step e s = Some s'" if "reo_inv (reo s)" for e s
    using reo_step_spec [OF that, of e] by auto
qed

lemma run_conserves:
  "reo_inv (reo c) \<Longrightarrow> run reo_step es c = Some c' \<Longrightarrow> all_frames c' = sum_list (map arrived es) + all_frames c"
proof (induction es arbitrary: c)
  case (Cons e es)
  obtain c1 where c1: "reo_step e c = Some c1" "reo_inv (reo c1)" "all_frames c1 = arrived e + all_frames c"
    using reo_step_spec [OF Cons.prems(1), of e] by blast
  then have "all_frames c' = sum_list (map arrived es) + all_frames c1"
    using Cons by simp
  then show ?case
    using c1(3) by (simp add: ac_simps)
qed simp

lemma run_pn:
  "reo_inv (reo c) \<Longrightarrow> New_Key \<notin> set es \<Longrightarrow> run reo_step es c = Some c' \<Longrightarrow>
     \<exists>new. frames c' = frames c @ new \<and> pn_step (reo c) new (reo c')"
proof (induction es arbitrary: c)
  case (Cons e es)
  obtain c1 new where c1: "reo_step e c = Some c1" "reo_inv (reo c1)" "frames c1 = frames c @ new"
      "pn_step (reo c) new (reo c1)"
    using reo_step_spec [OF Cons.prems(1), of e] Cons.prems(2) by auto
  moreover have "run reo_step es c1 = Some c'" and "New_Key \<notin> set es"
    using Cons.prems c1(1) by simp_all
  ultimately obtain new' where "frames c' = frames c1 @ new'" "pn_step (reo c1) new' (reo c')"
    using Cons.IH [of c1] by blast
  with c1(3,4) pn_step_trans show ?case
    by fastforce
qed simp

end
