(* ===== verification/Reorder_Sta.thy ===== *)
theory Reorder_Sta
  imports Reorder
begin

text \<open>
  The reorder sessions of a station: release, creation and reset over the table of
  sessions, the growth of the window on creation, and the properties of the reorder buffer.
\<close>

unbundle bit_operations_syntax

section \<open>Sessions of a station\<close>

definition sta_inv :: "aml_sta \<Rightarrow> bool" where
  "sta_inv st \<longleftrightarrow> (\<forall>r. Some r \<in> set (reos st) \<longrightarrow> reo_inv r)"

definition session_held :: "aml_reo_session option \<Rightarrow> mpdu multiset" where
  "session_held x = (case x of None \<Rightarrow> {#} | Some r \<Rightarrow> held (slots r))"

definition sta_held :: "aml_sta \<Rightarrow> mpdu multiset" where
  "sta_held st = sum_list (map session_held (reos st))"

lemma sta_inv_update:
  "sta_inv st \<Longrightarrow> (\<And>r. x = Some r \<Longrightarrow> reo_inv r) \<Longrightarrow> sta_inv (st\<lparr>reos := (reos st)[t := x]\<rparr>)"
  by (auto simp: sta_inv_def dest!: set_update_subset_insert [THEN subsetD])

lemma sta_inv_nth: "sta_inv st \<Longrightarrow> t < length (reos st) \<Longrightarrow> reos st ! t = Some r \<Longrightarrow> reo_inv r"
  unfolding sta_inv_def by (metis nth_mem)


lemma session_release_spec:
  assumes inv: "sta_inv st" and t: "t < length (reos st)"
  shows "\<exists>up dn. aml_reo_session_release now t st = Some (st\<lparr>reos := (reos st)[t := None]\<rparr>, up, dn)
     \<and> sta_inv (st\<lparr>reos := (reos st)[t := None]\<rparr>) \<and> mset up + mset dn = session_held (reos st ! t)"
proof (cases "reos st ! t")
  case None
  then have "(reos st)[t := None] = reos st"
    by (metis list_update_id)
  with None t inv show ?thesis
    by (simp add: aml_reo_session_release_def session_held_def)
next
  case (Some r)
  have r: "reo_inv r"
    using sta_inv_nth [OF inv t Some] .
  let ?c = "\<lparr>reo = r, frames = [], freed = []\<rparr>"
  obtain c' where c': "aml_reo_forward_all now (mark_io (\<lambda>x. x) (\<lambda>_. False) ?c) = Some c'" "all_frames c' = all_frames ?c"
      "held (slots (reo c')) = {#}"
    using forward_all_mark [of ?c "\<lambda>_. False" "\<lambda>x. x" now] r by auto
  have "sta_inv (st\<lparr>reos := (reos st)[t := None]\<rparr>)"
    using sta_inv_update [OF inv, of None] by simp
  with c' Some t show ?thesis
    by (simp add: aml_reo_session_release_def mark_off_list all_frames_def session_held_def)
qed

lemma sta_held_update:
  "t < length (reos st) \<Longrightarrow>
     sta_held (st\<lparr>reos := (reos st)[t := x]\<rparr>) + session_held (reos st ! t) = sta_held st + session_held x"
  by (simp add: sta_held_def sum_list_map_update)

lemma session_held_None [simp]: "session_held None = {#}"
  by (simp add: session_held_def)

lemma release_all_spec:
  assumes "sta_inv st" and "\<forall>t\<in>set ts. t < length (reos st)"
  shows "\<exists>st' up dn. release_all now ts st = Some (st', up, dn) \<and> sta_inv st' \<and> length (reos st') = length (reos st)
     \<and> mset up + mset dn + sta_held st' = sta_held st
     \<and> (\<forall>t<length (reos st). (t \<in> set ts \<or> reos st ! t = None) \<longrightarrow> reos st' ! t = None)"
  using assms
proof (induction ts arbitrary: st)
  case (Cons t ts)
  let ?st = "st\<lparr>reos := (reos st)[t := None]\<rparr>"
  obtain up dn where rel: "aml_reo_session_release now t st = Some (?st, up, dn)" "sta_inv ?st"
      "mset up + mset dn = session_held (reos st ! t)"
    using session_release_spec [of st t now] Cons.prems by auto
  obtain st' up' dn' where rest: "release_all now ts ?st = Some (st', up', dn')" "sta_inv st'"
      "length (reos st') = length (reos st)" "mset up' + mset dn' + sta_held st' = sta_held ?st"
      "\<forall>u<length (reos st). (u \<in> set ts \<or> reos ?st ! u = None) \<longrightarrow> reos st' ! u = None"
    using Cons.IH [OF rel(2)] Cons.prems by auto
  have "sta_held ?st + session_held (reos st ! t) = sta_held st"
    using sta_held_update [of t st None] Cons.prems by simp
  then have "mset (up @ up') + mset (dn @ dn') + sta_held st' = sta_held st"
    using rest(4) rel(3) by (metis (no_types, lifting) add.assoc add.commute add.left_commute mset_append)
  moreover have "\<forall>u<length (reos st). (u \<in> set (t # ts) \<or> reos st ! u = None) \<longrightarrow> reos st' ! u = None"
  proof (intro allI impI)
    fix u
    assume u: "u < length (reos st)" "u \<in> set (t # ts) \<or> reos st ! u = None"
    then have "u \<in> set ts \<or> reos ?st ! u = None"
      by (cases "u = t") auto
    with rest(5) u(1) show "reos st' ! u = None"
      by blast
  qed
  ultimately show ?case
    using rel(1) rest(1-3) by simp
qed simp

section \<open>Creating a session\<close>

lemma grow_win_step: "grow_win w sz = (if w < sz then grow_win (push_bit 1 w) sz else Some w)"
  by (rule grow_win.simps)

lemma uint_two_power_16: "k < 16 \<Longrightarrow> uint ((2 :: u16) ^ k) = 2 ^ k"
proof -
  assume "k < 16"
  then have "take_bit 16 ((2 :: int) ^ k) = 2 ^ k"
    by (simp add: take_bit_int_eq_self)
  moreover have "uint (push_bit k (1 :: u16)) = take_bit LENGTH(16) (push_bit k (uint (1 :: u16)))"
    by (rule unsigned_push_bit_eq)
  then have "uint ((2 :: u16) ^ k) = take_bit 16 (2 ^ k)"
    unfolding push_bit_of_1 unsigned_1 by simp
  ultimately show ?thesis
    by simp
qed

lemma grow_win_from:
  "k + n = 15 \<Longrightarrow> sz \<le> 0x8000 \<Longrightarrow> (0 < k \<longrightarrow> 2 ^ (k - 1) < sz) \<Longrightarrow>
     \<exists>m\<le>15. grow_win (2 ^ k) sz = Some (2 ^ m) \<and> sz \<le> 2 ^ m \<and> (0 < m \<longrightarrow> 2 ^ (m - 1) < sz)"
proof (induction n arbitrary: k)
  case 0
  then have k: "k = 15"
    by simp
  have "\<not> (2 :: u16) ^ 15 < sz"
    using 0 by (simp add: not_less)
  then have "grow_win (2 ^ k) sz = Some (2 ^ k)"
    using grow_win_step [of "2 ^ k" sz] k by simp
  with k 0 show ?case
    by (intro exI [of _ 15]) simp
next
  case (Suc n)
  show ?case
  proof (cases "(2 :: u16) ^ k < sz")
    case True
    have "push_bit 1 ((2 :: u16) ^ k) = 2 ^ Suc k"
      by (simp add: push_bit_eq_mult mult.commute)
    then have "grow_win (2 ^ k) sz = grow_win (2 ^ Suc k) sz"
      using grow_win_step [of "2 ^ k" sz] True by (simp only: if_True)
    with Suc.IH [of "Suc k"] Suc.prems True show ?thesis
      by simp
  next
    case False
    then have "grow_win (2 ^ k) sz = Some (2 ^ k)"
      using grow_win_step [of "2 ^ k" sz] by simp
    with False Suc.prems show ?thesis
      by (intro exI [of _ k]) (simp add: not_less)
  qed
qed

text \<open>For a size above 32768 the doubling reaches 0 and stays there.\<close>

lemma grow_win_range:
  assumes "grow_win w sz = Some y"
  shows "sz \<le> y \<and> (\<exists>k. y = w * 2 ^ k)"
proof (rule grow_win.raw_induct [OF _ assms, of "\<lambda>w sz y. sz \<le> y \<and> (\<exists>k. y = w * 2 ^ k)"])
  fix f and w sz y :: u16
  assume ih: "\<And>w sz y. f w sz = Some y \<Longrightarrow> sz \<le> y \<and> (\<exists>k. y = w * 2 ^ k)"
    and e: "(if w < sz then f (push_bit 1 w) sz else Some w) = Some y"
  show "sz \<le> y \<and> (\<exists>k. y = w * 2 ^ k)"
  proof (cases "w < sz")
    case True
    with e ih obtain k where "sz \<le> y" "y = push_bit 1 w * 2 ^ k"
      by fastforce
    moreover have "push_bit 1 w * 2 ^ k = w * 2 ^ Suc k"
      by (simp add: push_bit_eq_mult mult.assoc)
    ultimately show ?thesis
      by blast
  next
    case False
    with e show ?thesis
      by (auto simp: not_less intro: exI [of _ 0])
  qed
qed

lemma two_power_16_bound: "(2 :: u16) ^ k \<le> 0x8000"
proof (cases "k < 16")
  case True
  then have "uint ((2 :: u16) ^ k) \<le> 2 ^ 15"
    using uint_two_power_16 [OF True] power_increasing [of k 15 "2 :: int"] by simp
  then show ?thesis
    by (simp add: word_le_def)
next
  case False
  then have z: "(2 :: u16) ^ k = 0"
    by (simp add: exp_eq_zero_iff)
  show ?thesis
    unfolding z by simp
qed

lemma grow_win_diverges: "0x8000 < sz \<Longrightarrow> grow_win 1 sz = None"
proof (cases "grow_win 1 sz")
  case (Some y)
  assume "0x8000 < sz"
  obtain k where "sz \<le> 2 ^ k"
    using grow_win_range [OF Some] by auto
  then have "sz \<le> 0x8000"
    using two_power_16_bound [of k] by (rule order.trans)
  with \<open>0x8000 < sz\<close> show ?thesis
    by simp
qed simp

lemma grow_win_ends: "sz \<le> 0x8000 \<Longrightarrow> \<exists>m\<le>15. grow_win 1 sz = Some (2 ^ m) \<and> sz \<le> 2 ^ m \<and> (0 < m \<longrightarrow> 2 ^ (m - 1) < sz)"
  using grow_win_from [of 0 15 sz] by simp

lemma held_replicate [simp]: "held (replicate n None) = {#}"
  by (simp add: held_Nil_iff)

lemma new_session_inv:
  assumes "k \<le> 12" and "2 \<le> sz" and "sz \<le> 2 ^ k" and "sz \<le> 256" and "s \<le> 0xFFF"
  shows "reo_inv (new_session jif now t sz (2 ^ k) s)" (is "reo_inv ?r")
proof -
  have f: "buf_size ?r = sz" "win_size ?r = 2 ^ k" "ssn ?r = s" "lsn ?r = s" "in_buffer ?r = 0"
      "\<not> on_aging_list ?r" "\<not> reset ?r" "length (delivered ?r) = unat ((2 :: u16) ^ k)"
      "buf ?r = replicate (unat ((2 :: u16) ^ k)) \<lparr>deadline = 0, skb = None\<rparr>"
    by (simp_all add: new_session_def aml_reo_session_timeout_set_def AML_REO_TIMEOUT_TU_DEFAULT_def
        AML_REO_TIMEOUT_TU_MIN_def AML_REO_TIMEOUT_TU_MAX_def Let_def)
  then have sl: "slots ?r = replicate (unat ((2 :: u16) ^ k)) None"
    by (simp add: slots_def)
  have "0 < sz"
    using assms(2) by (simp add: word_le_def word_less_def)
  moreover have "0 < uint sz"
    using assms(2) by (simp add: word_le_def)
  ultimately show ?thesis
    using f sl assms by (auto simp: reo_inv_def win_ok_def counted_def frames_ok_def simp del: nth_slots)
qed

lemma two_power_mono_16: "k < 16 \<Longrightarrow> m < 16 \<Longrightarrow> (2 :: u16) ^ k < 2 ^ m \<longleftrightarrow> k < m"
  by (simp add: word_less_def uint_two_power_16)

lemma grow_win_small:
  assumes "1 \<le> sz" and "sz \<le> 4096"
  shows "\<exists>m\<le>12. grow_win 1 sz = Some (2 ^ m) \<and> sz \<le> 2 ^ m \<and> \<not> (sz \<le> drop_bit 1 (2 ^ m) \<or> 4096 < (2 :: u16) ^ m)"
proof -
  have sz: "sz \<le> 0x8000" "sz \<le> 2 ^ 12"
    using assms(2) by (simp_all add: word_le_def)
  obtain m where m: "m \<le> 15" "grow_win 1 sz = Some (2 ^ m)" "sz \<le> 2 ^ m" "0 < m \<longrightarrow> 2 ^ (m - 1) < sz"
    using grow_win_ends [OF sz(1)] by blast
  have m12: "m \<le> 12"
  proof (rule ccontr)
    assume "\<not> m \<le> 12"
    then have "(2 :: u16) ^ (m - 1) < 2 ^ 12"
      using m(4) sz(2) order.strict_trans2 by auto
    then show False
      using two_power_mono_16 [of "m - 1" 12] m(1) \<open>\<not> m \<le> 12\<close> by (simp; linarith)
  qed
  have half: "drop_bit 1 ((2 :: u16) ^ m) < sz"
  proof (cases m)
    case 0
    with assms(1) show ?thesis
      by (simp add: word_le_def word_less_def)
  next
    case (Suc n)
    have v: "uint ((2 :: u16) ^ m) = 2 ^ m"
      using uint_two_power_16 m(1) by simp
    have "uint (drop_bit 1 ((2 :: u16) ^ m)) = drop_bit 1 (take_bit LENGTH(16) (uint ((2 :: u16) ^ m)))"
      by (rule unsigned_drop_bit_eq)
    also have "take_bit LENGTH(16) (uint ((2 :: u16) ^ m)) = uint ((2 :: u16) ^ m)"
      unfolding v by (rule take_bit_int_eq_self) (use m(1) power_strict_increasing [of m 16 "2 :: int"] in simp_all)
    also have "uint ((2 :: u16) ^ m) = 2 ^ Suc n"
      using uint_two_power_16 [of m] m(1) Suc by simp
    also have "drop_bit 1 (2 ^ Suc n) = uint ((2 :: u16) ^ n)"
      using uint_two_power_16 [of n] m(1) Suc by (simp add: drop_bit_eq_div)
    finally have "uint (drop_bit 1 ((2 :: u16) ^ m)) = uint ((2 :: u16) ^ n)" .
    with m(4) Suc show ?thesis
      by (simp add: word_less_def)
  qed
  have "\<not> (4096 :: u16) < 2 ^ m"
    using two_power_mono_16 [of 12 m] m12 m(1) by simp
  with m m12 half show ?thesis
    by (meson leD)
qed

text \<open>The body of the creation after the window size is settled.\<close>

definition clip_buf :: "bool \<Rightarrow> u16 \<Rightarrow> u16" where
  "clip_buf h sz = (let max_sz = (if h then IEEE80211_MAX_AMPDU_BUF else IEEE80211_MAX_AMPDU_BUF_HT)
     in if sz < 1 then 1 else if max_sz < sz then max_sz else sz)"

lemma clip_buf_bounds: "1 \<le> sz \<Longrightarrow> clip_buf h sz \<le> sz" "clip_buf h sz \<le> 256" "2 \<le> sz \<Longrightarrow> 2 \<le> clip_buf h sz"
  by (auto simp: clip_buf_def Let_def IEEE80211_MAX_AMPDU_BUF_def IEEE80211_MAX_AMPDU_BUF_HT_def word_le_def word_less_def)

lemma session_create_cases:
  assumes sz: "1 \<le> sz" "sz \<le> 4096" and inv: "sta_inv st"
  shows "\<exists>st' up dn ret m. aml_reo_session_create jif alloc now (Some st) t sz s = Some (Some (st', up, dn), ret)
     \<and> m \<le> 12 \<and> sz \<le> 2 ^ m \<and> mset up + mset dn + sta_held st' = sta_held st
     \<and> (ret = 0 \<longrightarrow> t < length (reos st) \<and> s \<le> 0xFFF)
     \<and> (sta_inv st' \<or> t < length (reos st) \<and> s \<le> 0xFFF
          \<and> reos st' = (reos st)[t := Some (new_session jif now t (clip_buf (he st) sz) (2 ^ m) s)])"
proof -
  obtain m where m: "m \<le> 12" "grow_win 1 sz = Some (2 ^ m)" "sz \<le> 2 ^ m"
      "\<not> (sz \<le> drop_bit 1 (2 ^ m) \<or> 4096 < (2 :: u16) ^ m)"
    using grow_win_small [OF sz] by blast
  let ?sz = "clip_buf (he st) sz" and ?new = "new_session jif now t (clip_buf (he st) sz) (2 ^ m) s"
  have held_new: "session_held (Some ?new) = {#}"
    by (simp add: session_held_def new_session_def aml_reo_session_timeout_set_def Let_def slots_def)
  show ?thesis
  proof (cases "length (reos st) \<le> t \<or> 4095 < s")
    case True
    with m inv show ?thesis
      by (auto simp: aml_reo_session_create_def)
  next
    case False
    then have t: "t < length (reos st)" and s: "s \<le> 0xFFF"
      by auto
    have run: "aml_reo_session_create jif alloc now (Some st) t sz s = (case reos st ! t of
        Some r \<Rightarrow> if buf_size r = ?sz then do {
            c \<leftarrow> aml_reo_forward_to now s \<lparr>reo = r, frames = [], freed = []\<rparr>;
            Some (Some (st\<lparr>reos := (reos st)[t := Some (reo c)]\<rparr>, frames c, freed c), 0)
          } else do {
            (st, up, dn) \<leftarrow> aml_reo_session_release now t st;
            Some (if alloc then (Some (st\<lparr>reos := (reos st)[t := Some ?new]\<rparr>, up, dn), 0) else (Some (st, up, dn), -1))
          }
      | None \<Rightarrow> Some (if alloc then (Some (st\<lparr>reos := (reos st)[t := Some ?new]\<rparr>, [], []), 0) else (Some (st, [], []), -1)))"
      by (simp only: aml_reo_session_create_def m(2) bind.bind_lunit if_not_P [OF m(4)] if_not_P [OF False]
          option.case clip_buf_def Let_def)
    show ?thesis
    proof (cases "reos st ! t")
      case None
      have "sta_held (st\<lparr>reos := (reos st)[t := Some ?new]\<rparr>) = sta_held st"
        using sta_held_update [OF t, of "Some ?new"] held_new None by simp
      with run None m t s inv show ?thesis
        by (cases alloc) auto
    next
      case (Some r)
      have r: "reo_inv r"
        using sta_inv_nth [OF inv t Some] .
      show ?thesis
      proof (cases "buf_size r = ?sz")
        case True
        let ?c = "\<lparr>reo = r, frames = [], freed = []\<rparr>"
        obtain c' where c': "aml_reo_forward_to now s ?c = Some c'" "reo_inv (reo c')" "all_frames c' = all_frames ?c"
          using forward_to_spec [of ?c s now] r s by auto
        let ?st = "st\<lparr>reos := (reos st)[t := Some (reo c')]\<rparr>"
        have "sta_inv ?st"
          using sta_inv_update [OF inv, of "Some (reo c')" t] c'(2) by simp
        moreover have "mset (frames c') + mset (freed c') + sta_held ?st = sta_held st"
        proof -
          have "sta_held ?st + held (slots r) = sta_held st + held (slots (reo c'))"
            using sta_held_update [OF t, of "Some (reo c')"] Some by (simp add: session_held_def)
          moreover have "held (slots (reo c')) + (mset (frames c') + mset (freed c')) = held (slots r)"
            using c'(3) by (simp add: all_frames_def add.assoc)
          ultimately have "sta_held ?st + (held (slots (reo c')) + (mset (frames c') + mset (freed c')))
              = sta_held st + held (slots (reo c'))"
            by simp
          then show ?thesis
            by (simp add: ac_simps)
        qed
        ultimately show ?thesis
          using run Some True c'(1) m t s by auto
      next
        case False
        let ?st = "st\<lparr>reos := (reos st)[t := None]\<rparr>"
        obtain up dn where rel: "aml_reo_session_release now t st = Some (?st, up, dn)" "sta_inv ?st"
            "mset up + mset dn = session_held (reos st ! t)"
          using session_release_spec [OF inv t, of now] by blast
        have held: "sta_held ?st + session_held (reos st ! t) = sta_held st"
          using sta_held_update [OF t, of None] by simp
        have "sta_held (st\<lparr>reos := (reos st)[t := Some ?new]\<rparr>) = sta_held ?st"
          using sta_held_update [OF t, of "Some ?new"] held held_new by (metis add.right_neutral add_right_imp_eq)
        moreover have "mset up + mset dn + sta_held ?st = sta_held st"
          using rel(3) held by (metis add.commute)
        ultimately show ?thesis
          using rel(1,2) run Some False m t s by (cases alloc) auto
      qed
    qed
  qed
qed

lemma session_create_spec:
  assumes sz: "2 \<le> sz" "sz \<le> 4096" and inv: "sta_inv st"
  shows "\<exists>st' up dn ret. aml_reo_session_create jif alloc now (Some st) t sz s = Some (Some (st', up, dn), ret)
     \<and> sta_inv st' \<and> mset up + mset dn + sta_held st' = sta_held st"
proof -
  have one: "1 \<le> sz"
    using sz(1) by (simp add: word_le_def)
  obtain st' up dn ret m where c: "aml_reo_session_create jif alloc now (Some st) t sz s = Some (Some (st', up, dn), ret)"
     "m \<le> 12" "sz \<le> 2 ^ m" "mset up + mset dn + sta_held st' = sta_held st"
     "sta_inv st' \<or> t < length (reos st) \<and> s \<le> 0xFFF
          \<and> reos st' = (reos st)[t := Some (new_session jif now t (clip_buf (he st) sz) (2 ^ m) s)]"
    using session_create_cases [OF one sz(2) inv, of jif alloc now t s] by blast
  have "sta_inv st'"
  proof (rule disjE [OF c(5)])
    assume a: "t < length (reos st) \<and> s \<le> 0xFFF
          \<and> reos st' = (reos st)[t := Some (new_session jif now t (clip_buf (he st) sz) (2 ^ m) s)]"
    have "clip_buf (he st) sz \<le> 2 ^ m"
      using clip_buf_bounds(1) [OF one] c(3) by (rule order.trans)
    then have "reo_inv (new_session jif now t (clip_buf (he st) sz) (2 ^ m) s)"
      using a c(2) clip_buf_bounds(2) clip_buf_bounds(3) [OF sz(1)] by (intro new_session_inv) auto
    with a sta_inv_update [OF inv, of "reos st' ! t" t] show "sta_inv st'"
      by (simp add: sta_inv_def)
  qed
  with c show ?thesis
    by blast
qed

section \<open>Resetting every session\<close>

lemma reset_sessions_spec:
  "\<forall>r. Some r \<in> set rs \<longrightarrow> reo_inv r \<Longrightarrow> \<exists>rs' up dn. reset_sessions now rs = Some (rs', up, dn)
     \<and> length rs' = length rs \<and> (\<forall>r. Some r \<in> set rs' \<longrightarrow> reo_inv r \<and> reset r \<and> held (slots r) = {#})
     \<and> mset up + mset dn = sum_list (map session_held rs)"
proof (induction now rs rule: reset_sessions.induct)
  case (3 now r rs)
  let ?c = "\<lparr>reo = r, frames = [], freed = []\<rparr>"
  obtain c' where c': "aml_reo_forward_all now (set_reset ?c) = Some c'" "reo_inv (reo c')" "reset (reo c')"
      "all_frames c' = all_frames ?c" "held (slots (reo c')) = {#}"
    using reset_forward_spec [of ?c now] 3(2) by auto
  have up: "mset (frames c') + mset (freed c') = held (slots r)"
    using c'(4,5) by (simp add: all_frames_def)
  obtain rs' up' dn' where rest: "reset_sessions now rs = Some (rs', up', dn')" "length rs' = length rs"
      "\<forall>r. Some r \<in> set rs' \<longrightarrow> reo_inv r \<and> reset r \<and> held (slots r) = {#}"
      "mset up' + mset dn' = sum_list (map session_held rs)"
    using 3 c'(1) by auto
  have "mset (frames c' @ up') + mset (freed c' @ dn') = sum_list (map session_held (Some r # rs))"
    using up rest(4) by (simp add: session_held_def ac_simps)
  with c' rest show ?case
    by auto
qed auto

section \<open>Parsing a block-ack request\<close>

lemma drop_bit_4_bound: "drop_bit 4 (w :: u16) \<le> 0xFFF"
proof -
  have "uint (drop_bit 4 w) = drop_bit 4 (take_bit LENGTH(16) (uint w))"
    by (rule unsigned_drop_bit_eq)
  also have "\<dots> \<le> 0xFFF"
    by (simp add: drop_bit_eq_div take_bit_eq_mod zdiv_mono1 [of _ "65535" 16, simplified])
  finally show ?thesis
    by (simp add: word_le_def)
qed

lemma rd_le16_defined: "i + 1 < length d \<Longrightarrow> \<exists>w. rd_le16 d i = Some w"
  by (simp add: rd_le16_def)

lemma bar_records_spec:
  "(length d - per) mod 4 = 0 \<Longrightarrow> length d \<le> per + 4 * n \<Longrightarrow> per \<le> length d \<Longrightarrow>
     \<exists>calls ok. bar_records n d per = Some (calls, ok)
     \<and> (\<forall>(t, s)\<in>set calls. t < IEEE80211_NUM_UPS \<and> s \<le> 0xFFF)"
proof (induction n arbitrary: per)
  case (Suc n)
  show ?case
  proof (cases "per < length d")
    case True
    then have room: "per + 4 \<le> length d" "(length d - (per + 4)) mod 4 = 0"
      using Suc.prems(1) by presburger+
    obtain info start where rd: "rd_le16 d per = Some info" "rd_le16 d (per + 2) = Some start"
      using rd_le16_defined [of per d] rd_le16_defined [of "per + 2" d] room by auto
    obtain calls ok where "bar_records n d (per + 4) = Some (calls, ok)"
        "\<forall>(t, s)\<in>set calls. t < IEEE80211_NUM_UPS \<and> s \<le> 0xFFF"
      using Suc.IH [of "per + 4"] room Suc.prems by auto
    with True rd drop_bit_4_bound show ?thesis
      by (auto simp: Let_def)
  next
    case False
    then show ?thesis
      by (simp add: ex_bool_eq)
  qed
qed (simp add: ex_bool_eq)

lemma bar_len:
  assumes "18 \<le> L" and "L < 2 ^ 32"
  shows "unat (of_nat L - 18 :: u64) = L - 18"
proof -
  have "(of_nat L - 18 :: u64) = of_nat (L - 18)"
    using assms(1) by (simp add: of_nat_diff)
  then show ?thesis
    using assms(2) by (simp add: unsigned_of_nat take_bit_nat_eq_self)
qed

lemma bar_process_long:
  assumes L: "18 \<le> length d" "length d < 2 ^ 32"
  shows "\<exists>calls ret. aml_reo_bar_process b d = Some (calls, ret)
     \<and> (\<forall>(t, s)\<in>set calls. t < IEEE80211_NUM_UPS \<and> s \<le> 0xFFF)"
proof -
  let ?len = "of_nat (length d) - 18 :: u64"
  have len: "unat ?len = length d - 18"
    using bar_len [OF L] .
  define P where "P \<longleftrightarrow> ?len mod 4 = 0"
  show ?thesis
  proof (cases "b \<and> 2 \<le> ?len")
    case False
    then show ?thesis
      by (auto simp: aml_reo_bar_process_def Let_def)
  next
    case True
    then have "unat (2 :: u64) \<le> unat ?len"
      by (simp only: word_le_nat_alt)
    then have L20: "20 \<le> length d"
      using len by simp
    obtain control where control: "rd_le16 d 16 = Some control"
      using rd_le16_defined [of 16 d] L20 by auto
    have one: "\<exists>calls ok. bar_records 1 d 16 = Some (calls, ok)
        \<and> (\<forall>(t, s)\<in>set calls. t < IEEE80211_NUM_UPS \<and> s \<le> 0xFFF)" if "length d = 20"
      using bar_records_spec [of d 16 1] that by simp
    have many: "\<exists>calls ok. bar_records IEEE80211_NUM_UPS d 18 = Some (calls, ok)
        \<and> (\<forall>(t, s)\<in>set calls. t < IEEE80211_NUM_UPS \<and> s \<le> 0xFFF)"
      if "P" "\<not> 4 * of_nat IEEE80211_NUM_UPS < ?len"
    proof -
      have m: "unat (?len mod 4) = unat ?len mod unat (4 :: u64)"
        by (rule unat_mod_distrib)
      have z: "?len mod 4 = 0"
        using that(1) unfolding P_def .
      have "(length d - 18) mod 4 = 0"
        using m unfolding z len by simp
      moreover have "unat ?len \<le> unat (4 * of_nat IEEE80211_NUM_UPS :: u64)"
        using that(2) by (simp only: word_less_nat_alt not_less)
      then have "length d \<le> 18 + 4 * IEEE80211_NUM_UPS"
        using len by (simp add: IEEE80211_NUM_UPS_def)
      ultimately show ?thesis
        using bar_records_spec [of d 18 IEEE80211_NUM_UPS] L by simp
    qed
    let ?ty = "control AND (IEEE80211_BAR_CTRL_MULTI_TID OR IEEE80211_BAR_CTRL_CBMTID_COMPRESSED_BA)"
    let ?done = "\<lambda>x. Option.bind x (\<lambda>(calls, ok). Some (calls, if ok then 0 else -1))"
    have run: "aml_reo_bar_process b d =
        (if control AND (BIT 4 OR BIT 3) \<noteq> 0 then Some ([], -1)
         else if ?ty = 0 then Some ([], -1)
         else if ?ty = IEEE80211_BAR_CTRL_CBMTID_COMPRESSED_BA \<or> ?ty = IEEE80211_BAR_CTRL_MULTI_TID then
           if length d \<noteq> 20 then Some ([], -1) else ?done (bar_records 1 d 16)
         else if \<not> P \<or> 4 * of_nat IEEE80211_NUM_UPS < ?len then Some ([], -1)
         else ?done (bar_records IEEE80211_NUM_UPS d 18))"
      by (simp only: aml_reo_bar_process_def Let_def if_P [OF True] control bind.bind_lunit P_def)
    define good where "good x \<longleftrightarrow> (\<exists>calls ret. x = Some (calls, ret)
        \<and> (\<forall>(t, s)\<in>set calls. t < IEEE80211_NUM_UPS \<and> s \<le> 0xFFF))" for x :: "((nat \<times> u16) list \<times> int) option"
    have err: "good (Some ([], -1))"
      by (simp add: good_def)
    have close: "good (?done x)"
      if "\<exists>calls ok. x = Some (calls, ok) \<and> (\<forall>(t, s)\<in>set calls. t < IEEE80211_NUM_UPS \<and> s \<le> 0xFFF)" for x
      using that unfolding good_def by auto
    have fin: "good (?done (bar_records 1 d 16))" if "length d = 20"
      by (rule close [OF one [OF that]])
    have fin': "good (?done (bar_records IEEE80211_NUM_UPS d 18))" if "P" "\<not> 4 * of_nat IEEE80211_NUM_UPS < ?len"
      by (rule close [OF many [OF that]])
    have "good (aml_reo_bar_process b d)"
      unfolding run using err fin fin' by (simp only: split: if_split) blast
    then show ?thesis
      unfolding good_def .
  qed
qed

lemma bar_process_short: "length d < 18 \<Longrightarrow> aml_reo_bar_process True d = None"
proof -
  assume L: "length d < 18"
  have "rd_le16 d 16 = None"
    using L by (simp add: rd_le16_def)
  moreover have "(2 :: u64) \<le> of_nat (length d) - 18"
  proof -
    have "\<forall>n\<in>set [0..<18]. (2 :: u64) \<le> of_nat n - 18"
      by (simp add: upt_rec word_le_def unsigned_minus_1_eq_mask mask_eq_exp_minus_1)
    with L show ?thesis
      by simp
  qed
  ultimately show ?thesis
    by (simp add: aml_reo_bar_process_def Let_def)
qed

section \<open>Properties\<close>

abbreviation idle_io :: "aml_reo_session \<Rightarrow> reo_io" where
  "idle_io r \<equiv> \<lparr>reo = r, frames = [], freed = []\<rparr>"

lemma sum_list_all_empty: "\<forall>x\<in>set xs. f x = {#} \<Longrightarrow> sum_list (map f xs) = {#}"
  by (induction xs) auto

definition demo_session :: aml_reo_session where
  "demo_session = new_session (\<lambda>_. 1) 0 0 64 (2 ^ 6) 0"


definition demo_frame :: "u16 \<Rightarrow> mpdu" where
  "demo_frame s = \<lparr>mpdu_id = unat s, sn = s, pn_present = True, pn0 = ucast s + 1\<rparr>"

lemma demo_session_inv: "reo_inv demo_session"
  unfolding demo_session_def by (rule new_session_inv) (simp_all add: word_le_def)

lemma demo_frame_sn [simp]: "sn (demo_frame s) = s"
  by (simp add: demo_frame_def)

lemma demo_session_empty: "held (slots demo_session) = {#}" "ssn demo_session = 0" "reset demo_session = False"
  by (simp_all add: demo_session_def new_session_def aml_reo_session_timeout_set_def Let_def slots_def)

text \<open>Property C24. Enqueueing a received frame into a well-formed session never faults, keeps the
  session well formed, and neither loses nor duplicates a frame: what was buffered and the new
  frame are afterwards buffered, handed up or freed. The frames handed up are in strictly
  increasing sequence order, all behind the new start of the window, and, once packet numbers
  are checked, their packet numbers strictly increase.\<close>

theorem enqueue_correct:
  assumes "reo_inv (reo c)" and "sn f \<le> 0xFFF"
  shows "\<exists>c' new. aml_reo_enqueue now f c = Some c' \<and> reo_inv (reo c')
     \<and> held (slots (reo c')) + mset (frames c') + mset (freed c')
         = {#f#} + held (slots (reo c)) + mset (frames c) + mset (freed c)
     \<and> frames c' = frames c @ new
     \<and> in_order (if reset (reo c) then sn f else ssn (reo c)) new (reo c') \<and> pn_step (reo c) new (reo c')"
  using enqueue_spec [OF assms, of now] by (simp add: all_frames_def add.assoc)

theorem enqueue_correct_witness:
  "\<exists>c'. aml_reo_enqueue 5 (demo_frame 3) (idle_io demo_session) = Some c' \<and> reo_inv (reo c')
     \<and> held (slots (reo c')) + mset (frames c') + mset (freed c') = {#demo_frame 3#}"
  using enqueue_correct [of "idle_io demo_session" "demo_frame 3" 5]
  by (auto simp: demo_session_inv demo_session_empty)



text \<open>Property C6. No replay: once a session checks packet numbers, the frames it hands up over any
  run without a new key all carry one, larger than the last accepted one before, and strictly
  increasing, whatever the order of arrival, the requests and the resets.\<close>

theorem no_replay:
  assumes "reo_inv (reo c)" and "pn_check (reo c)" and "New_Key \<notin> set es"
  shows "\<exists>c' new. run reo_step es c = Some c' \<and> frames c' = frames c @ new \<and> sorted_wrt (<) (map pn0 new)
     \<and> (\<forall>f\<in>set new. pn_present f \<and> pn (reo c) < pn0 f)"
proof -
  obtain c' where c': "run reo_step es c = Some c'"
    using reordering.run_defined [of c es] assms(1) by auto
  obtain new where "frames c' = frames c @ new" "pn_step (reo c) new (reo c')"
    using run_pn [OF assms(1,3) c'] by blast
  with c' assms(2) show ?thesis
    by (auto simp: pn_step_def)
qed

theorem no_replay_witness:
  "\<exists>c' new. run reo_step [Frame 1 (demo_frame 0), Frame 2 (demo_frame 0)] (idle_io (new_key demo_session)) = Some c'
     \<and> frames c' = new \<and> sorted_wrt (<) (map pn0 new)"
proof -
  have eq: "window_eq demo_session (new_key demo_session)"
    by (simp add: window_eq_def new_key_def slots_def)
  have "reo_inv (new_key demo_session)"
    using demo_session_inv reo_inv_window_eq [OF eq] by simp
  then show ?thesis
    using no_replay [of "idle_io (new_key demo_session)" "[Frame 1 (demo_frame 0), Frame 2 (demo_frame 0)]"]
    by (auto simp: new_key_def)
qed






text \<open>A block-ack request for a number ahead of the window's start empties the window
  while something is buffered: also the frames from the requested number on are handed up at
  once, across the gaps, and the window restarts empty at that number.\<close>

theorem bar_flushes_whole_window:
  assumes "reo_inv (reo c)" and "s \<le> 0xFFF" and "s \<noteq> ssn (reo c)" and "ieee80211_sn_less (ssn (reo c)) s"
  shows "\<exists>c'. aml_reo_forward_to now s c = Some c' \<and> ssn (reo c') = s \<and> lsn (reo c') = s
     \<and> held (slots (reo c')) = {#} \<and> mset (frames c') + mset (freed c') = all_frames c"
  using forward_to_spec [OF assms(1,2), of now] assms(3,4) by (auto simp: all_frames_def)

theorem bar_flushes_whole_window_witness:
  "\<exists>c'. aml_reo_forward_to 9 5 (idle_io demo_session) = Some c' \<and> ssn (reo c') = 5"
  using bar_flushes_whole_window [of "idle_io demo_session" 5 9]
  by (auto simp: demo_session_inv demo_session_empty ieee80211_sn_less_def word_le_def)



text \<open>Property C33. Taking down a station's sessions hands up or frees every buffered frame exactly
  once and leaves no session.\<close>

theorem sta_deinit_releases_all:
  assumes "sta_inv st"
  shows "\<exists>st' up dn. aml_reo_sta_deinit now st = Some (st', up, dn)
     \<and> mset up + mset dn = sta_held st \<and> (\<forall>t<length (reos st). reos st' ! t = None) \<and> length (reos st') = length (reos st)"
proof -
  obtain st' up dn where r: "release_all now [0..<length (reos st)] st = Some (st', up, dn)"
      "length (reos st') = length (reos st)" "mset up + mset dn + sta_held st' = sta_held st"
      "\<forall>t<length (reos st). t \<in> set [0..<length (reos st)] \<or> reos st ! t = None \<longrightarrow> reos st' ! t = None"
    using release_all_spec [OF assms, of "[0..<length (reos st)]" now] by auto
  then have none: "\<forall>t<length (reos st'). reos st' ! t = None"
    by simp
  have "\<forall>x\<in>set (reos st'). session_held x = {#}"
    using none by (metis in_set_conv_nth session_held_None)
  then have "sta_held st' = {#}"
    unfolding sta_held_def by (rule sum_list_all_empty)
  with r none show ?thesis
    by (simp add: aml_reo_sta_deinit_def)
qed

definition demo_sta :: aml_sta where
  "demo_sta = \<lparr>sta_valid = True, he = False, reos = [Some demo_session, None]\<rparr>"

lemma demo_sta_inv: "sta_inv demo_sta"
  by (simp add: demo_sta_def sta_inv_def demo_session_inv)

theorem sta_deinit_releases_all_witness:
  "\<exists>st' up dn. aml_reo_sta_deinit 7 demo_sta = Some (st', up, dn) \<and> mset up + mset dn = sta_held demo_sta"
  using sta_deinit_releases_all [OF demo_sta_inv, of 7] by blast

text \<open>Property C34. Setting up a block-ack agreement of any size from 2 to 4096 is total for a
  well-formed station: it returns, keeps every session well formed, and the frames buffered
  in a session it replaces are handed up or freed, none is lost.\<close>

theorem session_create_correct:
  assumes "2 \<le> sz" and "sz \<le> 4096" and "sta_inv st"
  shows "\<exists>st' up dn ret. aml_reo_session_create jif alloc now (Some st) t sz s = Some (Some (st', up, dn), ret)
     \<and> sta_inv st' \<and> mset up + mset dn + sta_held st' = sta_held st"
  using session_create_spec [OF assms] .

theorem session_create_correct_witness:
  "\<exists>st' up dn ret. aml_reo_session_create (\<lambda>_. 1) True 3 (Some demo_sta) 1 32 7 = Some (Some (st', up, dn), ret)
     \<and> sta_inv st'"
  using session_create_correct [of 32 demo_sta "\<lambda>_. 1" True 3 1 7] by (auto simp: demo_sta_inv word_le_def)

text \<open>The creation faults exactly for the sizes 0 and above 4096: an agreement of size 0
  hits the \<open>BUG_ON\<close> (size 0 is what the 8-bit field of the message gives for 256), one above
  32768 never leaves the doubling loop, and those between hit the \<open>BUG_ON\<close> as well.\<close>

theorem session_create_faults_iff:
  assumes "sta_inv st"
  shows "aml_reo_session_create jif alloc now (Some st) t sz s = None \<longleftrightarrow> sz = 0 \<or> 4096 < sz"
proof (cases "sz = 0 \<or> 4096 < sz")
  case True
  have "aml_reo_session_create jif alloc now (Some st) t sz s = None"
  proof (cases "grow_win 1 sz")
    case None
    then show ?thesis
      by (simp add: aml_reo_session_create_def)
  next
    case (Some w)
    have "sz \<le> w"
      using grow_win_range [OF Some] by simp
    moreover have "4096 < w" if "4096 < sz"
      using that \<open>sz \<le> w\<close> by (rule order.strict_trans2)
    ultimately show ?thesis
      using True Some by (auto simp: aml_reo_session_create_def)
  qed
  with True show ?thesis
    by simp
next
  case False
  then have "0 < uint sz"
    by (metis uint_0_iff unsigned_greater_eq order.not_eq_order_implies_strict)
  then have "1 \<le> sz" "sz \<le> 4096"
    using False by (simp_all add: word_le_def word_less_def not_less)
  with session_create_cases [OF _ _ assms, of sz jif alloc now t s] False show ?thesis
    by auto
qed

theorem session_create_faults_iff_witness:
  "aml_reo_session_create (\<lambda>_. 1) True 3 (Some demo_sta) 1 0 7 = None"
  using session_create_faults_iff [OF demo_sta_inv, of "\<lambda>_. 1" True 3 1 0 7] by simp

text \<open>The loop that sizes the window returns exactly for sizes up to 32768, then with
  the least power of two that holds the size.\<close>

theorem grow_win_returns_iff:
  "(\<exists>w. grow_win 1 sz = Some w) \<longleftrightarrow> sz \<le> 0x8000"
  using grow_win_ends [of sz] grow_win_diverges [of sz] by (cases "sz \<le> 0x8000") (auto simp: not_le)

text \<open>A block-ack request reads only inside of the frame, and asks only for moves of one
  of the eight sessions to a 12-bit number, exactly when the frame has at least 18 bytes; a
  shorter one passes the length test, whose subtraction wraps, and is read beyond its end.\<close>

theorem bar_process_reads_in_bounds_iff:
  assumes "length d < 2 ^ 32"
  shows "(\<exists>calls ret. aml_reo_bar_process True d = Some (calls, ret)
     \<and> (\<forall>(t, s)\<in>set calls. t < IEEE80211_NUM_UPS \<and> s \<le> 0xFFF)) \<longleftrightarrow> 18 \<le> length d"
  using bar_process_long [of d True] bar_process_short [of d] assms by (cases "18 \<le> length d") (auto simp: not_le)

theorem bar_process_reads_in_bounds_iff_witness:
  "\<exists>calls ret. aml_reo_bar_process True (replicate 20 0) = Some (calls, ret)"
  using bar_process_reads_in_bounds_iff [of "replicate 20 0"] by auto

end
