(* ===== verification/Tcp_Ack.thy ===== *)
theory Tcp_Ack
  imports Prelude
begin

text \<open>
  The suppression of TCP acknowledgements on transmit (aml_drv/aml_tcp_ack.c, aml_tcp_ack.h
  and its settings in aml_iwpriv_cmds.c): pure ACKs of a connection are held back for some
  milliseconds so that a newer one can replace them. A table of 128 sessions holds, per
  connection, the pending ACK and a timer.

  Packets are byte lists; a read outside of the packet gives \<open>None\<close>. Multi-byte fields are
  loaded in the little-endian order of the CPU and converted with \<open>ntohs\<close>, \<open>ntohl\<close> as in
  the code. \<open>jiffies\<close> is the argument \<open>now\<close>, \<open>msecs_to_jiffies\<close> the argument \<open>jif\<close>.
  \<open>CONFIG_TCP_WIN_SCALE\<close> is off, as in the Makefile. Transmitting a held ACK
  (\<open>aml_send_tcp_ack\<close>) is an output of the timer.
\<close>

unbundle bit_operations_syntax

section \<open>Constants\<close>

definition AML_TCP_SESS_NUM :: nat where "AML_TCP_SESS_NUM = 128"
definition MAX_TCP_ACK_LEN :: nat where "MAX_TCP_ACK_LEN = 200"
definition MAX_DROP_TCP_ACK_CNT :: int where "MAX_DROP_TCP_ACK_CNT = 8"
definition MAX_DROP_TCP_ACK_CNT_USB :: int where "MAX_DROP_TCP_ACK_CNT_USB = 5"
definition TCK_SESS_TIMEOUT_TIME :: int where "TCK_SESS_TIMEOUT_TIME = 1000"
definition MAX_TCP_ACK_TIMEOUT :: int where "MAX_TCP_ACK_TIMEOUT = 30"
definition MAX_TCP_SESS_LEVEL1 :: int where "MAX_TCP_SESS_LEVEL1 = 5"
definition MAX_TCP_SESS_LEVEL2 :: int where "MAX_TCP_SESS_LEVEL2 = 10"
definition MIN_WIN :: u32 where "MIN_WIN = 96"
definition SIZE_KB :: u32 where "SIZE_KB = 1024"
definition FORCE_DELAY_ACK_AUTO :: int where "FORCE_DELAY_ACK_AUTO = 0"

text \<open>\<open>linux/tcp.h\<close>, \<open>linux/if_ether.h\<close>, \<open>linux/in.h\<close>: protocol numbers.\<close>

definition ETH_P_IP :: u16 where "ETH_P_IP = 0x0800"
definition IPPROTO_TCP :: u8 where "IPPROTO_TCP = 6"
definition TCPOPT_EOL :: u8 where "TCPOPT_EOL = 0"
definition TCPOPT_NOP :: u8 where "TCPOPT_NOP = 1"
definition TCPOPT_WINDOW :: u8 where "TCPOPT_WINDOW = 3"
definition TCPOPT_TIMESTAMP :: u8 where "TCPOPT_TIMESTAMP = 8"

lemmas tcp_const_defs = AML_TCP_SESS_NUM_def MAX_TCP_ACK_LEN_def MAX_DROP_TCP_ACK_CNT_def
  MAX_DROP_TCP_ACK_CNT_USB_def TCK_SESS_TIMEOUT_TIME_def MAX_TCP_ACK_TIMEOUT_def
  MAX_TCP_SESS_LEVEL1_def MAX_TCP_SESS_LEVEL2_def MIN_WIN_def SIZE_KB_def
  ETH_P_IP_def IPPROTO_TCP_def TCPOPT_EOL_def TCPOPT_NOP_def TCPOPT_WINDOW_def TCPOPT_TIMESTAMP_def

section \<open>State\<close>

record tcp_skb =
  skb_id :: nat
  skb_data :: "u8 list"

record aml_pkt_info =
  source :: u16
  dest :: u16
  saddr :: u32
  daddr :: u32
  seq :: u32
  win :: u16

definition no_pkt :: aml_pkt_info where
  "no_pkt = \<lparr>source = 0, dest = 0, saddr = 0, daddr = 0, seq = 0, win = 0\<rparr>"

text \<open>The timer of a session is its expiry time while it is pending.\<close>

record aml_tcp_sess_info =
  sess_index :: nat
  busy :: bool
  drop_cnt :: u8
  sess_scale :: u16
  sess_last :: u64
  sess_timeout :: u64
  timer :: "u64 option"
  held_skb :: "tcp_skb option"
  sess_sta :: nat
  sess_vif :: nat
  pkt_info :: aml_pkt_info

record aml_tcp_sess_mgr =
  enable :: int
  force_delay_ack :: int
  dynamic_adjust :: int
  used_num :: int
  free_index :: int
  total_drop_cnt :: u32
  mgr_last :: u64
  mgr_timeout :: u64
  max_drop_cnt :: int
  max_timeout :: int
  tcp_info :: "aml_tcp_sess_info list"
  ack_winsize :: u32
  win_scale :: u16
  rssi_l_thr :: int
  rssi_h_thr :: int

abbreviation upd_sess :: "nat \<Rightarrow> (aml_tcp_sess_info \<Rightarrow> aml_tcp_sess_info) \<Rightarrow> aml_tcp_sess_mgr \<Rightarrow> aml_tcp_sess_mgr" where
  "upd_sess i f m \<equiv> m\<lparr>tcp_info := (tcp_info m)[i := f (tcp_info m ! i)]\<rparr>"


section \<open>Reading a packet\<close>








text \<open>
  The option loop of \<open>aml_get_tcp_ack_info\<close>: the code's \<open>break\<close> on an end-of-list option, on a
  size below 2 and on a size beyond the header leaves the \<open>switch\<close> only, so the loop goes on
  behind the bytes read with \<open>len\<close> unchanged.
\<close>

function opt_loop :: "u8 list \<Rightarrow> nat \<Rightarrow> int \<Rightarrow> int \<Rightarrow> u16 \<Rightarrow> (int \<times> u16) option" where
  "opt_loop d p len ty ws =
     (if len \<le> 0 then Some (ty, ws)
      else if length d \<le> p then None
      else if d ! p = TCPOPT_EOL then opt_loop d (p + 1) len ty ws
      else if d ! p = TCPOPT_NOP then opt_loop d (p + 1) (len - 1) ty ws
      else if length d \<le> p + 1 then None
      else let opsize = unat (d ! (p + 1)) in
        if opsize < 2 \<or> len < int opsize then opt_loop d (p + 2) len ty ws
        else if d ! p = TCPOPT_TIMESTAMP then opt_loop d (p + opsize) (len - int opsize) ty ws
        else if d ! p = TCPOPT_WINDOW then
          (if length d \<le> p + 2 then None
           else opt_loop d (p + opsize) (len - int opsize) ty
             (if d ! (p + 2) < 15 then push_bit (unat (d ! (p + 2))) 1 else ws))
        else opt_loop d (p + opsize) (len - int opsize) 2 ws)"
  by pat_completeness auto
termination
  by (relation "measure (\<lambda>(d, p, len, ty, ws). length d - p)") auto

declare opt_loop.simps [simp del]




section \<open>Sessions\<close>

definition default_drop_cnt :: "interface_type \<Rightarrow> int" where
  "default_drop_cnt bus = (if bus = USB_MODE then MAX_DROP_TCP_ACK_CNT_USB else MAX_DROP_TCP_ACK_CNT)"

text \<open>The dynamic adjustment of the number of suppressed ACKs, which is off on USB.\<close>

definition adjusted_drop_cnt :: "interface_type \<Rightarrow> aml_tcp_sess_mgr \<Rightarrow> u8" where
  "adjusted_drop_cnt bus m =
     (if dynamic_adjust m \<noteq> 0 \<and> bus \<noteq> USB_MODE then
        (if used_num m < MAX_TCP_SESS_LEVEL1 then 1
         else if used_num m < MAX_TCP_SESS_LEVEL2 then word_of_int (used_num m div 2)
         else word_of_int (default_drop_cnt bus))
      else word_of_int (default_drop_cnt bus))"

definition adjust_max_drop :: "interface_type \<Rightarrow> aml_tcp_sess_mgr \<Rightarrow> aml_tcp_sess_mgr" where
  "adjust_max_drop bus m =
     (if dynamic_adjust m \<noteq> 0 then m\<lparr>max_drop_cnt := uint (adjusted_drop_cnt bus m)\<rparr> else m)"

text \<open>The loop of \<open>aml_tcp_sess_ageout\<close> over the sessions \<open>n - 1\<close> down to \<open>0\<close>.\<close>

fun ageout_scan :: "u64 \<Rightarrow> nat \<Rightarrow> aml_tcp_sess_mgr \<Rightarrow> aml_tcp_sess_mgr" where
  "ageout_scan now 0 m = m"
| "ageout_scan now (Suc i) m =
     (let s = tcp_info m ! i in
      ageout_scan now i
        (if busy s \<and> time_after now (sess_last s + sess_timeout s)
         then upd_sess i (\<lambda>s. s\<lparr>busy := False\<rparr>) (m\<lparr>free_index := int i, used_num := used_num m - 1\<rparr>)
         else m))"

definition aml_tcp_sess_ageout :: "interface_type \<Rightarrow> u64 \<Rightarrow> aml_tcp_sess_mgr \<Rightarrow> aml_tcp_sess_mgr" where
  "aml_tcp_sess_ageout bus now m =
     (if time_after now (mgr_last m + mgr_timeout m)
      then adjust_max_drop bus (ageout_scan now AML_TCP_SESS_NUM (m\<lparr>mgr_last := now\<rparr>))
      else m)"






text \<open>The timer of a session: the ACK handed to \<open>aml_send_tcp_ack\<close>, with its station.\<close>

definition aml_tcp_ack_timeout :: "aml_tcp_sess_info \<Rightarrow> aml_tcp_sess_info \<times> (tcp_skb \<times> nat) option" where
  "aml_tcp_ack_timeout s =
     (case held_skb s of
        Some k \<Rightarrow> if busy s then (s\<lparr>held_skb := None, drop_cnt := 0\<rparr>, Some (k, sess_sta s)) else (s, None)
      | None \<Rightarrow> (s, None))"

definition aml_tcp_delay_ack_init :: "(int \<Rightarrow> u64) \<Rightarrow> interface_type \<Rightarrow> u64 \<Rightarrow> aml_tcp_sess_mgr" where
  "aml_tcp_delay_ack_init jif bus now =
     \<lparr>enable = 0, force_delay_ack = FORCE_DELAY_ACK_AUTO,
      dynamic_adjust = (if bus = USB_MODE then 0 else 1), used_num = 0, free_index = 0,
      total_drop_cnt = 0, mgr_last = now, mgr_timeout = jif TCK_SESS_TIMEOUT_TIME,
      max_drop_cnt = default_drop_cnt bus, max_timeout = MAX_TCP_ACK_TIMEOUT,
      tcp_info = map (\<lambda>i. \<lparr>sess_index = i, busy = False, drop_cnt = 0, sess_scale = 0, sess_last = now,
          sess_timeout = jif TCK_SESS_TIMEOUT_TIME, timer = None, held_skb = None,
          sess_sta = 0, sess_vif = 0, pkt_info = no_pkt\<rparr>) [0..<AML_TCP_SESS_NUM],
      ack_winsize = MIN_WIN, win_scale = 1, rssi_l_thr = -66, rssi_h_thr = -63\<rparr>"

text \<open>The ACKs freed on the way down, in the order of the sessions.\<close>

definition aml_tcp_delay_ack_deinit :: "aml_tcp_sess_mgr \<Rightarrow> aml_tcp_sess_mgr \<times> tcp_skb list" where
  "aml_tcp_delay_ack_deinit m =
     (m\<lparr>enable := 0, tcp_info := map (\<lambda>s. s\<lparr>timer := None, held_skb := None\<rparr>) (tcp_info m)\<rparr>,
      List.map_filter held_skb (tcp_info m))"

section \<open>Holding an ACK back\<close>

text \<open>Arming the timer when it is not pending.\<close>

definition arm_timer :: "(int \<Rightarrow> u64) \<Rightarrow> u64 \<Rightarrow> aml_tcp_sess_mgr \<Rightarrow> aml_tcp_sess_info \<Rightarrow> aml_tcp_sess_info" where
  "arm_timer jif now m s = (if timer s = None then s\<lparr>timer := Some (now + jif (max_timeout m))\<rparr> else s)"








section \<open>Settings (aml_iwpriv_cmds.c)\<close>


definition aml_set_tcp_delay_ack_rssi_thr :: "int \<Rightarrow> int \<Rightarrow> aml_tcp_sess_mgr \<Rightarrow> aml_tcp_sess_mgr" where
  "aml_set_tcp_delay_ack_rssi_thr l h m = (if h \<le> l then m else m\<lparr>rssi_l_thr := l, rssi_h_thr := h\<rparr>)"



section \<open>The checksum\<close>












section \<open>The invariant of the table\<close>
















lemma adjust_max_drop_fields [simp]:
  "tcp_info (adjust_max_drop bus m) = tcp_info m" "used_num (adjust_max_drop bus m) = used_num m"
  "free_index (adjust_max_drop bus m) = free_index m" "max_timeout (adjust_max_drop bus m) = max_timeout m"
  "enable (adjust_max_drop bus m) = enable m" "win_scale (adjust_max_drop bus m) = win_scale m"
  by (simp_all add: adjust_max_drop_def)





section \<open>What an operation does to the ACKs\<close>

definition ids :: "tcp_skb option \<Rightarrow> nat multiset" where
  "ids x = (case x of None \<Rightarrow> {#} | Some k \<Rightarrow> {#skb_id k#})"

lemma ids_simps [simp]: "ids None = {#}" "ids (Some k) = {#skb_id k#}"
  by (simp_all add: ids_def)


lemma arm_timer_fields [simp]:
  "busy (arm_timer jif now m s) = busy s" "held_skb (arm_timer jif now m s) = held_skb s"
  "pkt_info (arm_timer jif now m s) = pkt_info s" "timer (arm_timer jif now m s) \<noteq> None"
  by (simp_all add: arm_timer_def)







section \<open>The filter as a machine\<close>



definition opt_ids :: "tcp_skb option \<Rightarrow> nat list" where
  "opt_ids x = (case x of None \<Rightarrow> [] | Some k \<Rightarrow> [skb_id k])"

lemma mset_opt_ids [simp]: "mset (opt_ids x) = ids x"
  by (simp add: opt_ids_def ids_def split: option.split)











section \<open>Runs of ACKs of one connection\<close>




lemma ageout_scan_nth:
  "j < length (tcp_info m) \<Longrightarrow> n \<le> length (tcp_info m) \<Longrightarrow>
     length (tcp_info (ageout_scan now n m)) = length (tcp_info m) \<and>
     tcp_info (ageout_scan now n m) ! j =
       (let s = tcp_info m ! j in
        if j < n \<and> busy s \<and> time_after now (sess_last s + sess_timeout s) then s\<lparr>busy := False\<rparr> else s)"
proof (induction n arbitrary: m)
  case (Suc i)
  let ?m = "upd_sess i (\<lambda>s. s\<lparr>busy := False\<rparr>) (m\<lparr>free_index := int i, used_num := used_num m - 1\<rparr>)"
  show ?case
  proof (cases "busy (tcp_info m ! i) \<and> time_after now (sess_last (tcp_info m ! i) + sess_timeout (tcp_info m ! i))")
    case True
    then have "ageout_scan now (Suc i) m = ageout_scan now i ?m"
      by simp
    with True Suc.IH [of ?m] Suc.prems show ?thesis
      by (cases "j = i") (auto simp: Let_def less_Suc_eq)
  next
    case False
    then have "ageout_scan now (Suc i) m = ageout_scan now i m"
      by auto
    with False Suc.IH [of m] Suc.prems show ?thesis
      by (cases "j = i") (auto simp: Let_def less_Suc_eq)
  qed
qed (simp add: Let_def)

section \<open>Properties\<close>










text \<open>Property C37. The option scan does not stop at an end-of-list option: when options end with one
  and only padding zeros follow in the buffer, the scan reads beyond the end of the packet.\<close>

theorem option_scan_overruns:
  assumes "0 < len" and "\<forall>i. p \<le> i \<longrightarrow> i < length d \<longrightarrow> d ! i = TCPOPT_EOL"
  shows "opt_loop d p len ty ws = None"
  using assms
proof (induction "length d - p" arbitrary: p)
  case 0
  then show ?case
    by (simp add: opt_loop.simps)
next
  case (Suc n)
  then have "opt_loop d (p + 1) len ty ws = None"
    by (intro Suc.hyps(1)) auto
  with Suc show ?case
    by (simp add: opt_loop.simps [of d p])
qed

theorem option_scan_overruns_witness: "opt_loop (replicate 60 0) 54 4 1 0 = None"
  by (rule option_scan_overruns) (auto simp: TCPOPT_EOL_def)

text \<open>A session that is aged out while it holds an ACK strands it: the session is no longer
  in use but keeps the ACK, and its timer then does not send it.\<close>

theorem aged_session_strands_ack:
  assumes "length (tcp_info m) = AML_TCP_SESS_NUM" and "i < AML_TCP_SESS_NUM"
    and "time_after now (mgr_last m + mgr_timeout m)"
    and "busy (tcp_info m ! i)" and "time_after now (sess_last (tcp_info m ! i) + sess_timeout (tcp_info m ! i))"
    and "held_skb (tcp_info m ! i) = Some k"
  shows "\<exists>s. tcp_info (aml_tcp_sess_ageout bus now m) ! i = s \<and> \<not> busy s \<and> held_skb s = Some k
     \<and> aml_tcp_ack_timeout s = (s, None)"
  using ageout_scan_nth [of i "m\<lparr>mgr_last := now\<rparr>" AML_TCP_SESS_NUM now] assms
  by (simp add: aml_tcp_sess_ageout_def aml_tcp_ack_timeout_def Let_def)

definition stale_mgr :: aml_tcp_sess_mgr where
  "stale_mgr = upd_sess 0 (\<lambda>s. s\<lparr>busy := True, held_skb := Some \<lparr>skb_id = 9, skb_data = []\<rparr>, timer := Some 5000\<rparr>)
     ((aml_tcp_delay_ack_init (\<lambda>_. 100) SDIO_MODE 0)\<lparr>max_timeout := 5000, used_num := 1\<rparr>)"

theorem aged_session_strands_ack_witness:
  "\<exists>s. tcp_info (aml_tcp_sess_ageout SDIO_MODE 400 stale_mgr) ! 0 = s \<and> \<not> busy s \<and> aml_tcp_ack_timeout s = (s, None)"
proof -
  have t: "length (tcp_info stale_mgr) = AML_TCP_SESS_NUM"
    "tcp_info stale_mgr ! 0 = \<lparr>sess_index = 0, busy = True, drop_cnt = 0, sess_scale = 0, sess_last = 0,
       sess_timeout = 100, timer = Some 5000, held_skb = Some \<lparr>skb_id = 9, skb_data = []\<rparr>, sess_sta = 0, sess_vif = 0, pkt_info = no_pkt\<rparr>"
    by (simp_all add: stale_mgr_def aml_tcp_delay_ack_init_def AML_TCP_SESS_NUM_def)
  have a: "time_after 400 100"
    by code_simp
  have l: "mgr_last stale_mgr = 0" "mgr_timeout stale_mgr = 100"
    by (simp_all add: stale_mgr_def aml_tcp_delay_ack_init_def)
  show ?thesis
    using aged_session_strands_ack [of stale_mgr 0 400 "\<lparr>skb_id = 9, skb_data = []\<rparr>" SDIO_MODE] t a l
    by (simp add: AML_TCP_SESS_NUM_def)
qed

end
