(* ===== verification/Radar_Pde.thy ===== *)
theory Radar_Pde
  imports Prelude
begin

text \<open>
  The pulse-pattern detectors of the DFS radar detection (aml_drv/aml_radar.c): the
  waveform tables of the three regulatory domains, the shared pools of list elements, the
  queue of pulses of a detector, and the detection of short and of long waveforms.

  The list \<open>pulses\<close> of a detector is kept newest first, as \<open>list_add\<close> builds it. Time
  stamps are 64-bit microseconds, differences are truncated to 32 bits where the code
  stores them in a \<open>u32\<close>. Every \<open>kmalloc\<close> takes its outcome from the list \<open>kmallocs\<close> of
  the pool state: \<open>None\<close> (or the end of the list) is a failed allocation, \<open>Some\<close> carries
  the contents the uninitialised memory happens to have.
\<close>

unbundle bit_operations_syntax

section \<open>Waveform tables\<close>

definition PRI_TOLERANCE :: nat where "PRI_TOLERANCE = 16"
definition MIN_PPB_THRESH :: nat where "MIN_PPB_THRESH = 50"
definition LONG_RADAR_DURATION :: u32 where "LONG_RADAR_DURATION = 12000000"
definition LONG_RADAR_BURST_MIN_DURATION :: u32 where "LONG_RADAR_BURST_MIN_DURATION = 12000000 div 20"
definition LONG_RADAR_MAX_BURST :: u32 where "LONG_RADAR_MAX_BURST = 20"

datatype radar_waveform_type =
  RADAR_WAVEFORM_SHORT | RADAR_WAVEFORM_WEATHER | RADAR_WAVEFORM_INTERLEAVED | RADAR_WAVEFORM_LONG

text \<open>\<open>linux/nl80211.h\<close>\<close>

datatype nl80211_dfs_regions = NL80211_DFS_UNSET | NL80211_DFS_FCC | NL80211_DFS_ETSI | NL80211_DFS_JP

datatype aml_radar_chain = AML_RADAR_RIU | AML_RADAR_FCU

record radar_detector_specs =
  type_id :: u8
  width_min :: u8
  width_max :: u8
  pri_min :: u16
  pri_max :: u16
  num_pri :: u8
  ppb :: u8
  ppb_thresh :: u8
  max_pri_tolerance :: u8
  wtype :: radar_waveform_type

definition PPB_THRESH :: "nat \<Rightarrow> nat" where
  "PPB_THRESH n = (n * MIN_PPB_THRESH + 50) div 100"

definition PRF2PRI :: "nat \<Rightarrow> nat" where
  "PRF2PRI prf = (1000000 + prf div 2) div prf"

definition ETSI_PATTERN_SHORT :: "nat \<Rightarrow> nat \<Rightarrow> nat \<Rightarrow> nat \<Rightarrow> nat \<Rightarrow> nat \<Rightarrow> radar_detector_specs" where
  "ETSI_PATTERN_SHORT i wmin wmax pmin pmax n =
     \<lparr>type_id = of_nat i, width_min = of_nat wmin, width_max = of_nat wmax,
      pri_min = of_nat (PRF2PRI pmax - PRI_TOLERANCE),
      pri_max = of_nat (PRF2PRI pmin + PRI_TOLERANCE), num_pri = 1, ppb = of_nat n,
      ppb_thresh = of_nat (PPB_THRESH n), max_pri_tolerance = of_nat PRI_TOLERANCE,
      wtype = RADAR_WAVEFORM_SHORT\<rparr>"

definition ETSI_PATTERN_INTERLEAVED ::
  "nat \<Rightarrow> nat \<Rightarrow> nat \<Rightarrow> nat \<Rightarrow> nat \<Rightarrow> nat \<Rightarrow> nat \<Rightarrow> nat \<Rightarrow> radar_detector_specs" where
  "ETSI_PATTERN_INTERLEAVED i wmin wmax pmin pmax prfmin prfmax n =
     \<lparr>type_id = of_nat i, width_min = of_nat wmin, width_max = of_nat wmax,
      pri_min = of_nat (PRF2PRI pmax * prfmin - PRI_TOLERANCE),
      pri_max = of_nat (PRF2PRI pmin * prfmax + PRI_TOLERANCE),
      num_pri = of_nat prfmax, ppb = of_nat (n * prfmax),
      ppb_thresh = of_nat (PPB_THRESH n), max_pri_tolerance = of_nat PRI_TOLERANCE,
      wtype = RADAR_WAVEFORM_INTERLEAVED\<rparr>"

definition FCC_PATTERN ::
  "nat \<Rightarrow> nat \<Rightarrow> nat \<Rightarrow> nat \<Rightarrow> nat \<Rightarrow> nat \<Rightarrow> nat \<Rightarrow> radar_waveform_type \<Rightarrow> radar_detector_specs" where
  "FCC_PATTERN i wmin wmax pmin pmax prf n ty =
     \<lparr>type_id = of_nat i, width_min = of_nat wmin, width_max = of_nat wmax,
      pri_min = of_nat (pmin - PRI_TOLERANCE),
      pri_max = of_nat (pmax * prf + PRI_TOLERANCE), num_pri = of_nat prf,
      ppb = of_nat (n * prf), ppb_thresh = of_nat (PPB_THRESH n),
      max_pri_tolerance = of_nat PRI_TOLERANCE, wtype = ty\<rparr>"

abbreviation JP_PATTERN where "JP_PATTERN \<equiv> FCC_PATTERN"

definition etsi_radar_ref_types_v17_riu :: "radar_detector_specs list" where
  "etsi_radar_ref_types_v17_riu = [
    ETSI_PATTERN_SHORT 0  0  8  700  700 18,
    ETSI_PATTERN_SHORT 1  0 10  200 1000 10,
    ETSI_PATTERN_SHORT 2  0 22  200 1600 15,
    ETSI_PATTERN_SHORT 3  0 22 2300 4000 25,
    ETSI_PATTERN_SHORT 4 20 38 2000 4000 20,
    ETSI_PATTERN_INTERLEAVED 5  0  8  300  400 2 3 10,
    ETSI_PATTERN_INTERLEAVED 6  0  8  400 1200 2 3 15]"

definition etsi_radar_ref_types_v17_fcu :: "radar_detector_specs list" where
  "etsi_radar_ref_types_v17_fcu = [
    ETSI_PATTERN_SHORT 0  0  8  700  700 18,
    ETSI_PATTERN_SHORT 1  0  8  200 1000 10,
    ETSI_PATTERN_SHORT 2  0 16  200 1600 15,
    ETSI_PATTERN_SHORT 3  0 16 2300 4000 25,
    ETSI_PATTERN_SHORT 4 20 34 2000 4000 20,
    ETSI_PATTERN_INTERLEAVED 5  0  8  300  400 2 3 10,
    ETSI_PATTERN_INTERLEAVED 6  0  8  400 1200 2 3 15]"

definition fcc_radar_ref_types_riu :: "radar_detector_specs list" where
  "fcc_radar_ref_types_riu = [
    FCC_PATTERN 0  0   8 1428 1428 1  18 RADAR_WAVEFORM_SHORT,
    FCC_PATTERN 1  0   8  518 3066 1 102 RADAR_WAVEFORM_WEATHER,
    FCC_PATTERN 2  0   8  150  230 1  23 RADAR_WAVEFORM_SHORT,
    FCC_PATTERN 3  6  20  200  500 1  16 RADAR_WAVEFORM_SHORT,
    FCC_PATTERN 4 10  28  200  500 1  12 RADAR_WAVEFORM_SHORT,
    FCC_PATTERN 5 50 110 1000 2000 1   8 RADAR_WAVEFORM_LONG,
    FCC_PATTERN 6  0   8  333  333 1   9 RADAR_WAVEFORM_SHORT]"

definition fcc_radar_ref_types_fcu :: "radar_detector_specs list" where
  "fcc_radar_ref_types_fcu = [
    FCC_PATTERN 0  0   8 1428 1428 1  18 RADAR_WAVEFORM_SHORT,
    FCC_PATTERN 1  0   8  518 3066 1 102 RADAR_WAVEFORM_WEATHER,
    FCC_PATTERN 2  0   8  150  230 1  23 RADAR_WAVEFORM_SHORT,
    FCC_PATTERN 3  6  12  200  500 1  16 RADAR_WAVEFORM_SHORT,
    FCC_PATTERN 4 10  22  200  500 1  12 RADAR_WAVEFORM_SHORT,
    FCC_PATTERN 5 50 104 1000 2000 1   8 RADAR_WAVEFORM_LONG,
    FCC_PATTERN 6  0   8  333  333 1   9 RADAR_WAVEFORM_SHORT]"

definition jp_radar_ref_types_riu :: "radar_detector_specs list" where
  "jp_radar_ref_types_riu = [
    JP_PATTERN 0  0   8 1428 1428 1 18 RADAR_WAVEFORM_SHORT,
    JP_PATTERN 1  2   8 3846 3846 1 18 RADAR_WAVEFORM_SHORT,
    JP_PATTERN 2  0   8 1388 1388 1 18 RADAR_WAVEFORM_SHORT,
    JP_PATTERN 3  0   8 4000 4000 1 18 RADAR_WAVEFORM_SHORT,
    JP_PATTERN 4  0   8  150  230 1 23 RADAR_WAVEFORM_SHORT,
    JP_PATTERN 5  6  20  200  500 1 16 RADAR_WAVEFORM_SHORT,
    JP_PATTERN 6 10  28  200  500 1 12 RADAR_WAVEFORM_SHORT,
    JP_PATTERN 7 50 110 1000 2000 1  8 RADAR_WAVEFORM_LONG,
    JP_PATTERN 8  0   8  333  333 1  9 RADAR_WAVEFORM_SHORT]"

definition jp_radar_ref_types_fcu :: "radar_detector_specs list" where
  "jp_radar_ref_types_fcu = [
    JP_PATTERN 0  0   8 1428 1428 1 18 RADAR_WAVEFORM_SHORT,
    JP_PATTERN 1  2   6 3846 3846 1 18 RADAR_WAVEFORM_SHORT,
    JP_PATTERN 2  0   8 1388 1388 1 18 RADAR_WAVEFORM_SHORT,
    JP_PATTERN 3  2   2 4000 4000 1 18 RADAR_WAVEFORM_SHORT,
    JP_PATTERN 4  0   8  150  230 1 23 RADAR_WAVEFORM_SHORT,
    JP_PATTERN 5  6  12  200  500 1 16 RADAR_WAVEFORM_SHORT,
    JP_PATTERN 6 10  22  200  500 1 12 RADAR_WAVEFORM_SHORT,
    JP_PATTERN 7 50 104 1000 2000 1  8 RADAR_WAVEFORM_LONG,
    JP_PATTERN 8  0   8  333  333 1  9 RADAR_WAVEFORM_SHORT]"

record radar_types =
  rt_region :: nl80211_dfs_regions
  rt_num_radar_types :: u32
  spec_riu :: "radar_detector_specs list"
  spec_fcu :: "radar_detector_specs list"

definition etsi_radar_types_v17 :: radar_types where
  "etsi_radar_types_v17 = \<lparr>rt_region = NL80211_DFS_ETSI,
     rt_num_radar_types = of_nat (length etsi_radar_ref_types_v17_riu),
     spec_riu = etsi_radar_ref_types_v17_riu, spec_fcu = etsi_radar_ref_types_v17_fcu\<rparr>"

definition fcc_radar_types :: radar_types where
  "fcc_radar_types = \<lparr>rt_region = NL80211_DFS_FCC,
     rt_num_radar_types = of_nat (length fcc_radar_ref_types_riu),
     spec_riu = fcc_radar_ref_types_riu, spec_fcu = fcc_radar_ref_types_fcu\<rparr>"

definition jp_radar_types :: radar_types where
  "jp_radar_types = \<lparr>rt_region = NL80211_DFS_JP,
     rt_num_radar_types = of_nat (length jp_radar_ref_types_riu),
     spec_riu = jp_radar_ref_types_riu, spec_fcu = jp_radar_ref_types_fcu\<rparr>"

definition dfs_domains :: "radar_types list" where
  "dfs_domains = [etsi_radar_types_v17, fcc_radar_types, jp_radar_types]"

lemmas spec_table_defs = etsi_radar_ref_types_v17_riu_def etsi_radar_ref_types_v17_fcu_def
  fcc_radar_ref_types_riu_def fcc_radar_ref_types_fcu_def
  jp_radar_ref_types_riu_def jp_radar_ref_types_fcu_def
  etsi_radar_types_v17_def fcc_radar_types_def jp_radar_types_def dfs_domains_def

lemmas spec_macro_defs = ETSI_PATTERN_SHORT_def ETSI_PATTERN_INTERLEAVED_def FCC_PATTERN_def
  PPB_THRESH_def PRF2PRI_def PRI_TOLERANCE_def MIN_PPB_THRESH_def

section \<open>Detectors and pools\<close>

record pri_sequence =
  pri :: u32
  dur :: u32
  ps_count :: u32
  count_falses :: u32
  first_ts :: u64
  ps_last_ts :: u64
  deadline_ts :: u64
  ps_ppb_thresh :: u8

record pri_detector =
  rs :: radar_detector_specs
  last_ts :: u64
  sequences :: "pri_sequence list"
  pulses :: "u64 list"
  pcount :: u32
  max_count :: u32
  window_size :: u32
  freq :: u16

text \<open>
  The singleton pools. A free pulse element holds nothing that is read again, so the pool
  of pulse elements is their number; a free sequence keeps its stale contents. The fields
  \<open>pulse_objs\<close> and \<open>pseq_objs\<close> count the elements obtained from \<open>kmalloc\<close> and not freed.
\<close>

record pools =
  pool_refs :: u32
  pulse_pool :: nat
  pseq_pool :: "pri_sequence list"
  kmallocs :: "pri_sequence option list"
  pulse_objs :: nat
  pseq_objs :: nat

definition kmalloc :: "pools \<Rightarrow> pri_sequence option \<times> pools" where
  "kmalloc P = (case kmallocs P of [] \<Rightarrow> (None, P) | r # rest \<Rightarrow> (r, P\<lparr>kmallocs := rest\<rparr>))"

definition pool_register_ref :: "pools \<Rightarrow> pools" where
  "pool_register_ref P = P\<lparr>pool_refs := pool_refs P + 1\<rparr>"

definition pool_deregister_ref :: "pools \<Rightarrow> pools" where
  "pool_deregister_ref P =
     (let P = P\<lparr>pool_refs := pool_refs P - 1\<rparr>
      in if pool_refs P = 0
         then P\<lparr>pulse_pool := 0, pseq_pool := [],
                pulse_objs := pulse_objs P - pulse_pool P,
                pseq_objs := pseq_objs P - length (pseq_pool P)\<rparr>
         else P)"

definition pool_put_pulse_elem :: "pools \<Rightarrow> pools" where
  "pool_put_pulse_elem P = P\<lparr>pulse_pool := Suc (pulse_pool P)\<rparr>"

definition pool_put_pseq_elem :: "pri_sequence \<Rightarrow> pools \<Rightarrow> pools" where
  "pool_put_pseq_elem ps P = P\<lparr>pseq_pool := ps # pseq_pool P\<rparr>"

definition pool_get_pseq_elem :: "pools \<Rightarrow> pri_sequence option \<times> pools" where
  "pool_get_pseq_elem P =
     (case pseq_pool P of
        ps # rest \<Rightarrow> (Some ps, P\<lparr>pseq_pool := rest\<rparr>)
      | [] \<Rightarrow>
          (case kmalloc P of
             (None, P) \<Rightarrow> (None, P)
           | (Some junk, P) \<Rightarrow> (Some junk, P\<lparr>pseq_objs := Suc (pseq_objs P)\<rparr>)))"

text \<open>\<open>pool_get_pulse_elem\<close> says whether the pool had an element.\<close>

definition pool_get_pulse_elem :: "pools \<Rightarrow> bool \<times> pools" where
  "pool_get_pulse_elem P =
     (case pulse_pool P of 0 \<Rightarrow> (False, P) | Suc n \<Rightarrow> (True, P\<lparr>pulse_pool := n\<rparr>))"

section \<open>The pulse queue\<close>

definition pulse_queue_get_tail :: "pri_detector \<Rightarrow> u64 option" where
  "pulse_queue_get_tail pde = (if pulses pde = [] then None else Some (last (pulses pde)))"

definition pulse_queue_dequeue :: "pri_detector \<Rightarrow> pools \<Rightarrow> bool \<times> pri_detector \<times> pools" where
  "pulse_queue_dequeue pde P =
     (case pulse_queue_get_tail pde of
        None \<Rightarrow> (0 < pcount pde, pde, P)
      | Some p \<Rightarrow>
          let pde = pde\<lparr>pulses := butlast (pulses pde), pcount := pcount pde - 1\<rparr>
          in (0 < pcount pde, pde, pool_put_pulse_elem P))"

lemma get_tail_Some: "pulse_queue_get_tail pde = Some p \<longleftrightarrow> pulses pde \<noteq> [] \<and> p = last (pulses pde)"
  by (auto simp: pulse_queue_get_tail_def)

lemma get_tail_None: "pulse_queue_get_tail pde = None \<longleftrightarrow> pulses pde = []"
  by (auto simp: pulse_queue_get_tail_def)

lemma dequeue_ne:
  "pulses pde \<noteq> [] \<Longrightarrow>
   pulse_queue_dequeue pde P =
     (0 < pcount pde - 1, pde\<lparr>pulses := butlast (pulses pde), pcount := pcount pde - 1\<rparr>,
      pool_put_pulse_elem P)"
  by (simp add: pulse_queue_dequeue_def pulse_queue_get_tail_def)

text \<open>The loop of \<open>pulse_queue_check_window\<close>.\<close>

function drop_old :: "u64 \<Rightarrow> pri_detector \<Rightarrow> pools \<Rightarrow> pri_detector \<times> pools" where
  "drop_old min_valid_ts pde P =
     (case pulse_queue_get_tail pde of
        None \<Rightarrow> (pde, P)
      | Some ts \<Rightarrow>
          if min_valid_ts \<le> ts then (pde, P)
          else (case pulse_queue_dequeue pde P of (_, pde, P) \<Rightarrow> drop_old min_valid_ts pde P))"
  by pat_completeness auto
termination
  by (relation "measure (\<lambda>(_, pde, _). length (pulses pde))")
    (auto simp: get_tail_Some dequeue_ne)

declare drop_old.simps [simp del]

definition pulse_queue_check_window :: "pri_detector \<Rightarrow> pools \<Rightarrow> pri_detector \<times> pools" where
  "pulse_queue_check_window pde P =
     (if pcount pde < 2 then (pde, P)
      else if last_ts pde \<le> ucast (window_size pde) then (pde, P)
      else drop_old (last_ts pde - ucast (window_size pde)) pde P)"

definition pulse_queue_enqueue :: "pri_detector \<Rightarrow> u64 \<Rightarrow> pools \<Rightarrow> bool \<times> pri_detector \<times> pools" where
  "pulse_queue_enqueue pde ts P =
     (let (got, P) =
        (case pool_get_pulse_elem P of
           (True, P) \<Rightarrow> (True, P)
         | (False, P) \<Rightarrow>
             (case kmalloc P of
                (None, P) \<Rightarrow> (False, P)
              | (Some _, P) \<Rightarrow> (True, P\<lparr>pulse_objs := Suc (pulse_objs P)\<rparr>)))
      in if \<not> got then (False, pde, P)
         else
           let pde = pde\<lparr>pulses := ts # pulses pde, pcount := pcount pde + 1, last_ts := ts\<rparr>;
               (pde, P) = pulse_queue_check_window pde P
           in if max_count pde \<le> pcount pde
              then (case pulse_queue_dequeue pde P of (_, pde, P) \<Rightarrow> (True, pde, P))
              else (True, pde, P))"

section \<open>Short, weather and interleaved waveforms\<close>

definition pde_get_multiple :: "u32 \<Rightarrow> u32 \<Rightarrow> u32 \<Rightarrow> u32" where
  "pde_get_multiple val fraction tolerance =
     (if fraction = 0 then 0
      else
        let delta = (if val < fraction then fraction - val else val - fraction)
        in if delta \<le> tolerance then 1
           else
             let factor = val div fraction; remainder = val mod fraction
             in if tolerance < remainder
                then if fraction - remainder \<le> tolerance then factor + 1 else 0
                else factor)"

text \<open>The inner loop of \<open>pde_short_create_sequences\<close> over the pulses older than \<open>p\<close>.\<close>

fun match_past :: "radar_detector_specs \<Rightarrow> u64 \<Rightarrow> u64 list \<Rightarrow> pri_sequence \<Rightarrow> u32 \<Rightarrow> pri_sequence" where
  "match_past sp min_valid_ts [] ps tmp_false_count = ps"
| "match_past sp min_valid_ts (t # older) ps tmp_false_count =
     (if t < min_valid_ts then ps
      else
        let factor = pde_get_multiple (ucast (ps_last_ts ps - t)) (pri ps) (ucast (max_pri_tolerance sp))
        in if 0 < factor
           then match_past sp min_valid_ts older
                  (ps\<lparr>ps_count := ps_count ps + 1, first_ts := t,
                      count_falses := count_falses ps + tmp_false_count\<rparr>) 0
           else match_past sp min_valid_ts older ps (tmp_false_count + 1))"

definition seq_thresh :: "radar_detector_specs \<Rightarrow> u32 \<Rightarrow> u8" where
  "seq_thresh sp p =
     (if wtype sp = RADAR_WAVEFORM_WEATHER
      then let n = ucast (19000000 div (360 * p)) :: u8
           in of_nat (PPB_THRESH (unat n))
      else ppb_thresh sp)"

text \<open>The candidate sequence for the pulse \<open>t\<close>, the pulses behind it being \<open>older\<close>.\<close>

definition new_seq :: "radar_detector_specs \<Rightarrow> u64 \<Rightarrow> u16 \<Rightarrow> u64 \<Rightarrow> u64 list \<Rightarrow> pri_sequence" where
  "new_seq sp ts pulse_idx t older =
     (let p = ucast (ts - t) :: u32;
          d = p * (ucast (ppb sp) - 1) + 2 * ucast (max_pri_tolerance sp);
          min_valid_ts = (if ts < ucast d then 0 else ts - ucast d);
          ps = match_past sp min_valid_ts older
                 \<lparr>pri = p, dur = d, ps_count = 2, count_falses = ucast pulse_idx - 1,
                  first_ts = t, ps_last_ts = ts, deadline_ts = 0, ps_ppb_thresh = 0\<rparr> 0
      in ps\<lparr>deadline_ts := first_ts ps + ucast (dur ps), ps_ppb_thresh := seq_thresh sp (pri ps)\<rparr>)"

fun create_loop ::
  "radar_detector_specs \<Rightarrow> u64 \<Rightarrow> u32 \<Rightarrow> u16 \<Rightarrow> u64 list \<Rightarrow> pri_sequence list \<Rightarrow> pools
   \<Rightarrow> bool \<times> pri_sequence list \<times> pools" where
  "create_loop sp ts min_count pulse_idx [] seqs P = (True, seqs, P)"
| "create_loop sp ts min_count pulse_idx (t # older) seqs P =
     (let delta_ts = ucast (ts - t) :: u32; pulse_idx = pulse_idx + 1
      in if delta_ts < ucast (pri_min sp) then create_loop sp ts min_count pulse_idx older seqs P
         else if ucast (pri_max sp) < delta_ts then (True, seqs, P)
         else
           let ps = new_seq sp ts pulse_idx t older
           in if ps_count ps \<le> min_count then create_loop sp ts min_count pulse_idx older seqs P
              else
                (case pool_get_pseq_elem P of
                   (None, P) \<Rightarrow> (False, seqs, P)
                 | (Some _, P) \<Rightarrow> create_loop sp ts min_count pulse_idx older (ps # seqs) P))"

definition pde_short_create_sequences ::
  "pri_detector \<Rightarrow> u64 \<Rightarrow> u32 \<Rightarrow> pools \<Rightarrow> bool \<times> pri_detector \<times> pools" where
  "pde_short_create_sequences pde ts min_count P =
     (case create_loop (rs pde) ts min_count 0 (pulses pde) (sequences pde) P of
        (ok, seqs, P) \<Rightarrow> (ok, pde\<lparr>sequences := seqs\<rparr>, P))"

fun existing_loop ::
  "radar_detector_specs \<Rightarrow> u64 \<Rightarrow> pri_sequence list \<Rightarrow> u32 \<Rightarrow> pools \<Rightarrow> u32 \<times> pri_sequence list \<times> pools" where
  "existing_loop sp ts [] mx P = (mx, [], P)"
| "existing_loop sp ts (ps # seqs) mx P =
     (if deadline_ts ps < ts then existing_loop sp ts seqs mx (pool_put_pseq_elem ps P)
      else
        let delta_ts = ucast (ts - ps_last_ts ps) :: u32;
            factor = pde_get_multiple delta_ts (pri ps) (ucast (max_pri_tolerance sp));
            (ps, mx) =
              (if 0 < factor
               then let ps = ps\<lparr>ps_last_ts := ts, ps_count := ps_count ps + 1\<rparr>
                    in (ps, if mx < ps_count ps then ps_count ps else mx)
               else (ps\<lparr>count_falses := count_falses ps + 1\<rparr>, mx));
            (mx, seqs, P) = existing_loop sp ts seqs mx P
        in (mx, ps # seqs, P))"

definition pde_short_add_to_existing_seqs ::
  "pri_detector \<Rightarrow> u64 \<Rightarrow> pools \<Rightarrow> u32 \<times> pri_detector \<times> pools" where
  "pde_short_add_to_existing_seqs pde ts P =
     (case existing_loop (rs pde) ts (sequences pde) 0 P of
        (mx, seqs, P) \<Rightarrow> (mx, pde\<lparr>sequences := seqs\<rparr>, P))"

definition complete_seq :: "radar_detector_specs \<Rightarrow> pri_sequence \<Rightarrow> bool" where
  "complete_seq sp ps \<longleftrightarrow>
     ucast (ps_ppb_thresh ps) \<le> ps_count ps \<and> count_falses ps < ps_count ps * ucast (num_pri sp)"

definition pde_short_check_detection :: "pri_detector \<Rightarrow> pri_sequence option" where
  "pde_short_check_detection pde = List.find (complete_seq (rs pde)) (sequences pde)"

definition pde_short_init :: "pri_detector \<Rightarrow> pri_detector" where
  "pde_short_init pde =
     pde\<lparr>window_size := ucast (pri_max (rs pde)) * ucast (ppb (rs pde)) * ucast (num_pri (rs pde)),
         max_count := ucast (ppb (rs pde)) * 2\<rparr>"

definition pri_detector_reset :: "pri_detector \<Rightarrow> u64 \<Rightarrow> pools \<Rightarrow> pri_detector \<times> pools" where
  "pri_detector_reset pde ts P =
     (let P = fold pool_put_pseq_elem (sequences pde) P;
          P = fold (\<lambda>_. pool_put_pulse_elem) (pulses pde) P
      in (pde\<lparr>sequences := [], pulses := [], pcount := 0, last_ts := ts\<rparr>, P))"

definition pde_short_add_pulse ::
  "pri_detector \<Rightarrow> u64 \<Rightarrow> pools \<Rightarrow> pri_sequence option \<times> pri_detector \<times> pools" where
  "pde_short_add_pulse pde ts P =
     (if pcount pde = 0
      then (case pulse_queue_enqueue pde ts P of (_, pde, P) \<Rightarrow> (None, pde, P))
      else if ts - last_ts pde < ucast (max_pri_tolerance (rs pde)) then (None, pde, P)
      else
        let (max_updated_seq, pde, P) = pde_short_add_to_existing_seqs pde ts P;
            (ok, pde, P) = pde_short_create_sequences pde ts max_updated_seq P
        in if \<not> ok then (case pri_detector_reset pde ts P of (pde, P) \<Rightarrow> (None, pde, P))
           else
             (case pde_short_check_detection pde of
                None \<Rightarrow> (case pulse_queue_enqueue pde ts P of (_, pde, P) \<Rightarrow> (None, pde, P))
              | Some ps \<Rightarrow> (Some ps, pde, P)))"

section \<open>Long waveforms\<close>

definition pde_long_init :: "pri_detector \<Rightarrow> pri_detector" where
  "pde_long_init pde = pde\<lparr>window_size := LONG_RADAR_DURATION, max_count := LONG_RADAR_MAX_BURST\<rparr>"

text \<open>The loop that moves the start of the sequence to the oldest burst of the window.\<close>

function advance_start :: "u64 \<Rightarrow> pri_sequence \<Rightarrow> pri_detector \<Rightarrow> pools \<Rightarrow> pri_sequence \<times> pri_detector \<times> pools" where
  "advance_start min_valid_ts ps pde P =
     (case pulse_queue_get_tail pde of
        None \<Rightarrow> (ps, pde, P)
      | Some ts \<Rightarrow>
          if min_valid_ts \<le> ts
          then (ps\<lparr>first_ts := ts, deadline_ts := ts + ucast (window_size pde)\<rparr>, pde, P)
          else (case pulse_queue_dequeue pde P of
                  (_, pde, P) \<Rightarrow> advance_start min_valid_ts (ps\<lparr>ps_count := ps_count ps - 1\<rparr>) pde P))"
  by pat_completeness auto
termination
  by (relation "measure (\<lambda>(_, _, pde, _). length (pulses pde))")
    (auto simp: get_tail_Some dequeue_ne)

declare advance_start.simps [simp del]

definition pde_long_add_pulse ::
  "pri_detector \<Rightarrow> u64 \<Rightarrow> pools \<Rightarrow> pri_sequence option \<times> pri_detector \<times> pools" where
  "pde_long_add_pulse pde ts P =
     (case sequences pde of
        [] \<Rightarrow>
          (case pool_get_pseq_elem P of
             (None, P) \<Rightarrow> (None, pde, P)
           | (Some ps, P) \<Rightarrow>
               let ps = ps\<lparr>ps_count := 1, count_falses := 1, first_ts := ts, ps_last_ts := ts,
                           deadline_ts := ts + ucast (window_size pde), pri := 0\<rparr>;
                   pde = pde\<lparr>sequences := [ps]\<rparr>
               in (case pulse_queue_enqueue pde ts P of (_, pde, P) \<Rightarrow> (None, pde, P)))
      | ps # seqs \<Rightarrow>
          let delta_ts = ucast (ts - ps_last_ts ps) :: u32;
              ps = ps\<lparr>ps_last_ts := ts\<rparr>
          in if delta_ts < ucast (pri_max (rs pde)) then (None, pde\<lparr>sequences := ps # seqs\<rparr>, P)
             else if ucast (pri_min (rs pde)) \<le> delta_ts \<and> delta_ts \<le> ucast (pri_max (rs pde))
             then (None, pde\<lparr>sequences := ps\<lparr>count_falses := count_falses ps + 1\<rparr> # seqs\<rparr>, P)
             else if 2 < ps_count ps \<and> dur ps + delta_ts < LONG_RADAR_BURST_MIN_DURATION
             then (None, pde\<lparr>sequences := ps # seqs\<rparr>, P)
             else
               let ps = ps\<lparr>ps_count := ps_count ps + 1, count_falses := 1\<rparr>;
                   (ps, pde, P) =
                     (if deadline_ts ps < ts
                      then advance_start (ts - ucast (window_size pde)) ps pde P
                      else (ps, pde, P))
               in if ucast (ppb_thresh (rs pde)) < ps_count ps \<and>
                     ucast (window_size pde div 2) < ts - first_ts ps
                  then (Some ps, pde\<lparr>sequences := ps # seqs\<rparr>, P)
                  else
                    (case pulse_queue_enqueue pde ts P of
                       (_, pde, P) \<Rightarrow> (None, pde\<lparr>sequences := ps\<lparr>dur := delta_ts\<rparr> # seqs\<rparr>, P)))"

section \<open>Dispatch on the waveform\<close>

text \<open>The operations table of a detector follows the type of its waveform.\<close>

definition ops_init :: "pri_detector \<Rightarrow> pri_detector" where
  "ops_init pde =
     (if wtype (rs pde) = RADAR_WAVEFORM_LONG then pde_long_init pde else pde_short_init pde)"

definition ops_add_pulse ::
  "pri_detector \<Rightarrow> u64 \<Rightarrow> pools \<Rightarrow> pri_sequence option \<times> pri_detector \<times> pools" where
  "ops_add_pulse pde ts P =
     (if wtype (rs pde) = RADAR_WAVEFORM_LONG
      then pde_long_add_pulse pde ts P else pde_short_add_pulse pde ts P)"

definition reset_on_pri_overflow :: "pri_detector \<Rightarrow> bool" where
  "reset_on_pri_overflow pde \<longleftrightarrow> wtype (rs pde) \<noteq> RADAR_WAVEFORM_LONG"

text \<open>The detector built by \<open>pri_detector_init\<close>.\<close>

definition fresh_pde :: "radar_detector_specs \<Rightarrow> u16 \<Rightarrow> pri_detector" where
  "fresh_pde sp f =
     ops_init \<lparr>rs = sp, last_ts = 0, sequences = [], pulses = [], pcount = 0, max_count = 0,
               window_size = 0, freq = f\<rparr>"


section \<open>The multiple of a period\<close>

text \<open>Every case of \<open>pde_get_multiple\<close>, over the integers.\<close>

lemma get_multiple_unat:
  fixes v n t :: u32
  assumes "n \<noteq> 0"
  shows "uint (pde_get_multiple v n t) =
    (if \<bar>uint v - uint n\<bar> \<le> uint t then 1
     else if uint v mod uint n \<le> uint t then uint v div uint n
     else if uint n - uint v mod uint n \<le> uint t then uint v div uint n + 1 else 0)"
proof -
  have n: "0 < uint n"
    using assms by (simp add: word_neq_0_conv word_less_def)
  have r: "uint v mod uint n < uint n"
    using n by simp
  have sub: "uint (a - b) = uint a - uint b" if "b \<le> a" for a b :: u32
    using that by (simp add: uint_sub_if' word_le_def)
  have delta: "(if v < n then n - v else v - n) \<le> t \<longleftrightarrow> \<bar>uint v - uint n\<bar> \<le> uint t"
    using sub [of v n] sub [of n v] by (auto simp: word_le_def word_less_def abs_if)
  have inc: "uint (v div n + 1) = uint v div uint n + 1" if "\<not> uint v mod uint n \<le> uint t"
  proof -
    have "0 \<le> uint t"
      by simp
    then have "uint n \<noteq> 1"
      using that by auto
    then have "uint v div uint n \<le> uint v div 2"
      using n by (intro zdiv_mono2) auto
    moreover have "uint v div 2 < 4294967295"
      using uint_lt2p [of v] by (simp add: div_less_iff_less_mult)
    ultimately have "uint v div uint n + 1 < 4294967296"
      by linarith
    moreover have "0 \<le> uint v div uint n"
      using n by (simp add: pos_imp_zdiv_nonneg_iff)
    ultimately show ?thesis
      by (simp add: uint_word_ariths(1) uint_div)
  qed
  have le: "t < v mod n \<longleftrightarrow> \<not> uint v mod uint n \<le> uint t"
    by (simp add: word_less_def uint_mod not_le)
  have comp: "n - v mod n \<le> t \<longleftrightarrow> uint n - uint v mod uint n \<le> uint t"
    using r by (simp add: word_le_def sub uint_mod)
  show ?thesis
    using assms inc by (simp add: pde_get_multiple_def Let_def delta le comp uint_div split: if_splits)
qed

lemma get_multiple_correct:
  fixes v n t :: u32
  assumes "n \<noteq> 0"
  shows "(0 < pde_get_multiple v n t \<longrightarrow>
            \<bar>uint v - uint (pde_get_multiple v n t) * uint n\<bar> \<le> uint t) \<and>
         (pde_get_multiple v n t = 0 \<longleftrightarrow> (\<forall>k>0. uint t < \<bar>uint v - k * uint n\<bar>))"
proof -
  define V N T q r where "V = uint v" and "N = uint n" and "T = uint t"
    and "q = V div N" and "r = V mod N"
  have N: "0 < N"
    using assms by (simp add: N_def word_neq_0_conv word_less_def)
  have V: "V = q * N + r" "0 \<le> r" "r < N" "0 \<le> q"
    using N by (simp_all add: q_def r_def V_def pos_imp_zdiv_nonneg_iff)
  define f where "f = uint (pde_get_multiple v n t)"
  have f: "f = (if \<bar>V - N\<bar> \<le> T then 1 else if r \<le> T then q else if N - r \<le> T then q + 1 else 0)"
    using get_multiple_unat [OF assms, of v t] by (simp add: f_def V_def N_def T_def q_def r_def)
  have T: "0 \<le> T"
    by (simp add: T_def)
  have pos: "0 < f \<longrightarrow> \<bar>V - f * N\<bar> \<le> T"
    using V by (auto simp: f algebra_simps)
  have none: "T < \<bar>V - k * N\<bar>" if "f = 0" "0 < k" for k
  proof (cases "k \<le> q")
    case True
    then have "k * N \<le> q * N"
      using N by (simp add: mult_right_mono)
    moreover have "\<not> r \<le> T"
      using that True V by (auto simp: f split: if_splits)
    ultimately show ?thesis
      using V(1,2) by linarith
  next
    case False
    then have "(q + 1) * N \<le> k * N"
      using N by (intro mult_right_mono) auto
    then have far: "N - r \<le> k * N - V"
      using V by (simp add: algebra_simps)
    have "T < N - r"
    proof (cases "q = 0")
      case True
      then show ?thesis
        using that(1) V by (auto simp: f split: if_splits)
    next
      case False
      then show ?thesis
        using that(1) V by (auto simp: f split: if_splits)
    qed
    then show ?thesis
      using far by linarith
  qed
  have ge: "0 \<le> f"
    by (simp add: f_def)
  have "f = 0 \<longleftrightarrow> (\<forall>k>0. T < \<bar>V - k * N\<bar>)"
  proof
    assume all: "\<forall>k>0. T < \<bar>V - k * N\<bar>"
    show "f = 0"
    proof (rule ccontr)
      assume "f \<noteq> 0"
      then have "0 < f"
        using ge by simp
      then show False
        using pos all by force
    qed
  qed (use none in auto)
  then have "pde_get_multiple v n t = 0 \<longleftrightarrow> (\<forall>k>0. T < \<bar>V - k * N\<bar>)"
    by (simp add: f_def uint_0_iff)
  moreover have "0 < pde_get_multiple v n t \<longleftrightarrow> 0 < f"
    by (simp add: f_def word_less_def)
  ultimately show ?thesis
    using pos by (simp add: V_def N_def T_def f_def)
qed


section \<open>Accounting of the pools\<close>

text \<open>
  What an operation on one detector leaves unchanged: the elements in use that belong to
  other detectors, the number of references to the pools, and the constant fields of the
  detector.
\<close>

definition pulses_out :: "pools \<Rightarrow> int" where
  "pulses_out P = int (pulse_objs P) - int (pulse_pool P)"

definition pseqs_out :: "pools \<Rightarrow> int" where
  "pseqs_out P = int (pseq_objs P) - int (length (pseq_pool P))"

definition spare :: "pri_detector \<Rightarrow> pools \<Rightarrow> int \<times> int \<times> u32" where
  "spare pde P = (pulses_out P - int (length (pulses pde)),
                  pseqs_out P - int (length (sequences pde)), pool_refs P)"

definition consts_of :: "pri_detector \<Rightarrow> radar_detector_specs \<times> u32 \<times> u32 \<times> u16" where
  "consts_of pde = (rs pde, max_count pde, window_size pde, freq pde)"

definition keeps :: "pri_detector \<Rightarrow> pools \<Rightarrow> pri_detector \<Rightarrow> pools \<Rightarrow> bool" where
  "keeps pde P pde' P' \<longleftrightarrow> spare pde' P' = spare pde P \<and> consts_of pde' = consts_of pde"

lemma keeps_refl [simp]: "keeps pde P pde P"
  by (simp add: keeps_def)

lemma keeps_trans [trans]: "keeps a P b Q \<Longrightarrow> keeps b Q c R \<Longrightarrow> keeps a P c R"
  by (simp add: keeps_def)

lemma keeps_consts:
  "keeps pde P pde' P' \<Longrightarrow>
   rs pde' = rs pde \<and> max_count pde' = max_count pde \<and> window_size pde' = window_size pde \<and>
   freq pde' = freq pde \<and> pool_refs P' = pool_refs P"
  by (simp add: keeps_def consts_of_def spare_def)

lemmas acct_defs = keeps_def spare_def consts_of_def pulses_out_def pseqs_out_def

text \<open>A detector whose queue agrees with its counter and is not full.\<close>

definition pde_wf :: "pri_detector \<Rightarrow> bool" where
  "pde_wf pde \<longleftrightarrow> unat (pcount pde) = length (pulses pde) \<and> pcount pde < max_count pde"

lemma kmalloc_cases:
  "kmalloc P = (r, P') \<Longrightarrow> \<exists>ks. P' = P\<lparr>kmallocs := ks\<rparr>"
  by (cases P) (auto simp: kmalloc_def split: list.splits)

lemma dequeue_keeps:
  "pulse_queue_dequeue pde P = (b, pde', P') \<Longrightarrow>
   keeps pde P pde' P' \<and> pulses pde' = butlast (pulses pde) \<and> sequences pde' = sequences pde \<and>
   last_ts pde' = last_ts pde \<and> pcount pde' = pcount pde - (if pulses pde = [] then 0 else 1)"
  by (cases "pulses pde" rule: rev_cases)
    (auto simp: pulse_queue_dequeue_def pulse_queue_get_tail_def acct_defs pool_put_pulse_elem_def)

text \<open>The part of a queue the loop keeps: everything newer than the first stale pulse from
  the end.\<close>

definition in_window :: "u64 \<Rightarrow> u64 list \<Rightarrow> u64 list" where
  "in_window m ts = rev (dropWhile (\<lambda>t. t < m) (rev ts))"

lemma in_window_Nil [simp]: "in_window m [] = []"
  by (simp add: in_window_def)

lemma in_window_butlast: "ts \<noteq> [] \<Longrightarrow> last ts < m \<Longrightarrow> in_window m (butlast ts) = in_window m ts"
  by (cases ts rule: rev_cases) (simp_all add: in_window_def)

lemma in_window_all: "ts \<noteq> [] \<Longrightarrow> m \<le> last ts \<Longrightarrow> in_window m ts = ts"
  by (cases ts rule: rev_cases) (simp_all add: in_window_def)

lemma length_in_window [simp]: "length (in_window m ts) \<le> length ts"
  by (metis in_window_def length_dropWhile_le length_rev)

lemma in_window_prefix: "\<exists>old. ts = in_window m ts @ old"
  by (rule exI [of _ "rev (takeWhile (\<lambda>t. t < m) (rev ts))"])
    (simp add: in_window_def rev_append [symmetric] del: rev_append)

lemma drop_old_stop: "pulses pde = [] \<or> m \<le> last (pulses pde) \<Longrightarrow> drop_old m pde P = (pde, P)"
  by (subst drop_old.simps) (auto simp: pulse_queue_get_tail_def)

lemma drop_old_step:
  assumes "pulses pde \<noteq> []" and "last (pulses pde) < m"
    and "pulse_queue_dequeue pde P = (b, q, Q)"
  shows "drop_old m pde P = drop_old m q Q"
  using assms by (subst drop_old.simps) (auto simp: pulse_queue_get_tail_def)

lemma pde_drop_old_spec:
  "drop_old m pde P = (pde', P') \<Longrightarrow> unat (pcount pde) = length (pulses pde) \<Longrightarrow>
   keeps pde P pde' P' \<and> pulses pde' = in_window m (pulses pde) \<and> sequences pde' = sequences pde \<and>
   last_ts pde' = last_ts pde \<and> unat (pcount pde') = length (pulses pde')"
proof (induction "length (pulses pde)" arbitrary: pde P)
  case 0
  then show ?case
    by (auto simp: drop_old_stop)
next
  case (Suc n)
  then have ne: "pulses pde \<noteq> []"
    by auto
  show ?case
  proof (cases "m \<le> last (pulses pde)")
    case True
    then show ?thesis
      using Suc.prems ne by (auto simp: drop_old_stop in_window_all)
  next
    case False
    obtain b q Q where d: "pulse_queue_dequeue pde P = (b, q, Q)"
      by (cases "pulse_queue_dequeue pde P")
    note k = dequeue_keeps [OF d]
    have "pcount pde \<noteq> 0"
      using Suc.prems(2) ne by auto
    then have cnt: "unat (pcount q) = length (pulses q)"
      using k ne Suc.prems(2) by (simp add: unat_minus_one)
    have "drop_old m q Q = (pde', P')"
      using Suc.prems(1) drop_old_step [OF ne _ d] False by simp
    from Suc.hyps(1) [OF _ this cnt] have
      "keeps q Q pde' P' \<and> pulses pde' = in_window m (pulses q) \<and> sequences pde' = sequences q \<and>
        last_ts pde' = last_ts q \<and> unat (pcount pde') = length (pulses pde')"
      using Suc.hyps(2) k by simp
    then show ?thesis
      using k ne False by (auto simp: in_window_butlast intro: keeps_trans)
  qed
qed

lemma check_window_spec:
  assumes "pulse_queue_check_window pde P = (pde', P')" and "unat (pcount pde) = length (pulses pde)"
  shows "keeps pde P pde' P' \<and> sequences pde' = sequences pde \<and> last_ts pde' = last_ts pde \<and>
         unat (pcount pde') = length (pulses pde') \<and> (\<exists>old. pulses pde = pulses pde' @ old)"
proof (cases "pcount pde < 2 \<or> last_ts pde \<le> ucast (window_size pde)")
  case True
  then show ?thesis
    using assms by (auto simp: pulse_queue_check_window_def split: if_splits)
next
  case False
  then have "drop_old (last_ts pde - ucast (window_size pde)) pde P = (pde', P')"
    using assms(1) by (auto simp: pulse_queue_check_window_def)
  from pde_drop_old_spec [OF this assms(2)] show ?thesis
    using in_window_prefix [of "pulses pde"] by auto
qed


lemma enqueue_cases:
  assumes "pulse_queue_enqueue pde ts P = (ok, pde', P')"
  obtains (failed) "\<not> ok" "pde' = pde" "keeps pde P pde P'"
  | (stored) Q q Q' b where "ok" "spare (pde\<lparr>pulses := ts # pulses pde\<rparr>) Q = spare pde P"
      "pulse_queue_check_window
         (pde\<lparr>pulses := ts # pulses pde, pcount := pcount pde + 1, last_ts := ts\<rparr>) Q = (q, Q')"
      "if max_count q \<le> pcount q then pulse_queue_dequeue q Q' = (b, pde', P') else pde' = q \<and> P' = Q'"
proof -
  define E where "E = (case pool_get_pulse_elem P of
           (True, P) \<Rightarrow> (True, P)
         | (False, P) \<Rightarrow>
             (case kmalloc P of
                (None, P) \<Rightarrow> (False, P)
              | (Some _, P) \<Rightarrow> (True, P\<lparr>pulse_objs := Suc (pulse_objs P)\<rparr>)))"
  obtain got Q where E: "E = (got, Q)"
    by (cases E)
  have sp: "spare (if got then pde\<lparr>pulses := ts # pulses pde\<rparr> else pde) Q = spare pde P"
    using E by (auto simp: E_def pool_get_pulse_elem_def acct_defs dest!: kmalloc_cases
        split: nat.splits prod.splits option.splits bool.splits)
  show ?thesis
  proof (cases got)
    case False
    then show ?thesis
      using assms E sp failed by (simp add: pulse_queue_enqueue_def E_def [symmetric] keeps_def)
  next
    case True
    obtain q Q' where w: "pulse_queue_check_window
         (pde\<lparr>pulses := ts # pulses pde, pcount := pcount pde + 1, last_ts := ts\<rparr>) Q = (q, Q')"
      by fastforce
    show ?thesis
      using assms E True sp w
      by (cases "pulse_queue_dequeue q Q'", intro stored [of Q q Q'])
        (auto simp: pulse_queue_enqueue_def E_def [symmetric] split: if_splits)
  qed
qed


lemma length_sequences_spare:
  "keeps pde P pde' P' \<Longrightarrow> keeps (pde\<lparr>sequences := ss\<rparr>) Q (pde'\<lparr>sequences := ss\<rparr>) Q' \<longleftrightarrow>
   pulses_out Q' - int (length (pulses pde')) = pulses_out Q - int (length (pulses pde)) \<and>
   pseqs_out Q' = pseqs_out Q \<and> pool_refs Q' = pool_refs Q"
  by (auto simp: keeps_def spare_def consts_of_def)

lemma pde_enqueue_spec:
  assumes "pulse_queue_enqueue pde ts P = (ok, pde', P')" and wf: "pde_wf pde"
  shows "keeps pde P pde' P' \<and> pde_wf pde' \<and> sequences pde' = sequences pde \<and>
    (if ok then last_ts pde' = ts \<and> (\<exists>old. ts # pulses pde = pulses pde' @ old) else pde' = pde)"
  using assms(1)
proof (cases rule: enqueue_cases)
  case failed
  then show ?thesis
    using wf by auto
next
  case (stored Q q Q' b)
  define e where "e = pde\<lparr>pulses := ts # pulses pde, pcount := pcount pde + 1, last_ts := ts\<rparr>"
  have inc: "unat (pcount pde + 1) = Suc (unat (pcount pde))"
    using wf unsigned_less [of "max_count pde", where ?'a = nat]
    by (simp add: pde_wf_def word_less_nat_alt unat_word_ariths)
  have "unat (pcount e) = length (pulses e)"
    using wf inc by (simp add: e_def pde_wf_def)
  from check_window_spec [OF stored(3) [folded e_def] this] obtain old where
    w: "keeps e Q q Q'" "sequences q = sequences pde" "last_ts q = ts"
      "unat (pcount q) = length (pulses q)" "ts # pulses pde = pulses q @ old"
    by (auto simp: e_def)
  have k: "keeps pde P q Q'"
    using w(1) stored(2) by (simp add: keeps_def spare_def consts_of_def e_def)
  have len: "length (pulses q) \<le> Suc (length (pulses pde))"
    by (metis length_append length_Cons le_add1 w(5))
  have mx: "max_count q = max_count pde"
    using keeps_consts [OF k] by simp
  show ?thesis
  proof (cases "max_count q \<le> pcount q")
    case True
    then have d: "pulse_queue_dequeue q Q' = (b, pde', P')"
      using stored(4) by simp
    note kd = dequeue_keeps [OF d]
    have pos: "pulses q \<noteq> []"
      using True wf w(4) mx by (auto simp: pde_wf_def word_le_nat_alt word_less_nat_alt)
    then have nz: "pcount q \<noteq> 0"
      using w(4) by auto
    have "unat (pcount q) - 1 < unat (max_count pde)"
      using wf w(4) len by (cases "pulses q") (auto simp: pde_wf_def word_less_nat_alt)
    then have "pcount q - 1 < max_count pde"
      using nz by (simp add: word_less_nat_alt unat_minus_one)
    then have "pde_wf pde'"
      using kd pos w(4) nz mx keeps_consts [of q Q' pde' P'] by (simp add: pde_wf_def unat_minus_one)
    moreover have "\<exists>old'. ts # pulses pde = pulses pde' @ old'"
      using kd pos w(5) by (intro exI [of _ "last (pulses q) # old"]) simp
    ultimately show ?thesis
      using kd k w stored(1) by (auto intro: keeps_trans)
  next
    case False
    then show ?thesis
      using stored(1,4) k w mx by (auto simp: pde_wf_def)
  qed
qed

lemma fold_put_pulse: "fold (\<lambda>_. pool_put_pulse_elem) ts P = P\<lparr>pulse_pool := length ts + pulse_pool P\<rparr>"
  by (induction ts arbitrary: P) (simp_all add: pool_put_pulse_elem_def)

lemma fold_put_pseq: "fold pool_put_pseq_elem ss P = P\<lparr>pseq_pool := rev ss @ pseq_pool P\<rparr>"
  by (induction ss arbitrary: P) (simp_all add: pool_put_pseq_elem_def)

lemma reset_spec:
  "pri_detector_reset pde ts P = (pde', P') \<Longrightarrow>
   keeps pde P pde' P' \<and> pulses pde' = [] \<and> sequences pde' = [] \<and> pcount pde' = 0 \<and> last_ts pde' = ts"
  by (auto simp: pri_detector_reset_def Let_def fold_put_pulse fold_put_pseq acct_defs)

lemma reset_wf: "pri_detector_reset pde ts P = (pde', P') \<Longrightarrow> pde_wf pde \<Longrightarrow> pde_wf pde'"
  using reset_spec [of pde ts P pde' P'] keeps_consts [of pde P pde' P']
  by (auto simp: pde_wf_def word_less_nat_alt)

lemma existing_loop_acct:
  "existing_loop sp ts seqs mx P = (mx', seqs', P') \<Longrightarrow>
   pseqs_out P' - int (length seqs') = pseqs_out P - int (length seqs) \<and>
   pulses_out P' = pulses_out P \<and> pool_refs P' = pool_refs P"
proof (induction sp ts seqs mx P arbitrary: mx' seqs' P' rule: existing_loop.induct)
  case (2 sp ts ps seqs mx P)
  then show ?case
    by (cases "deadline_ts ps < ts")
      (force simp: Let_def pool_put_pseq_elem_def pseqs_out_def pulses_out_def split: prod.splits if_splits)+
qed simp

lemma get_pseq_acct:
  "pool_get_pseq_elem P = (r, P') \<Longrightarrow>
   pseqs_out P' = pseqs_out P + (if r = None then 0 else 1) \<and> pulses_out P' = pulses_out P \<and>
   pool_refs P' = pool_refs P"
  by (auto simp: pool_get_pseq_elem_def pseqs_out_def pulses_out_def dest!: kmalloc_cases
      split: list.splits prod.splits option.splits)

lemma create_loop_acct:
  "create_loop sp ts mn i older seqs P = (ok, seqs', P') \<Longrightarrow>
   pseqs_out P' - int (length seqs') = pseqs_out P - int (length seqs) \<and>
   pulses_out P' = pulses_out P \<and> pool_refs P' = pool_refs P"
proof (induction older arbitrary: i seqs P)
  case (Cons t older)
  define d where "d = (ucast (ts - t) :: u32)"
  define n where "n = new_seq sp ts (i + 1) t older"
  note loop = Cons.prems [simplified, folded d_def n_def, unfolded Let_def, folded d_def n_def]
  consider (small) "d < ucast (pri_min sp)" | (large) "\<not> d < ucast (pri_min sp)" "ucast (pri_max sp) < d"
    | (low) "\<not> d < ucast (pri_min sp)" "\<not> ucast (pri_max sp) < d" "ps_count n \<le> mn"
    | (new) "\<not> d < ucast (pri_min sp)" "\<not> ucast (pri_max sp) < d" "\<not> ps_count n \<le> mn"
    by blast
  then show ?case
  proof cases
    case new
    obtain r Q where g: "pool_get_pseq_elem P = (r, Q)"
      by (cases "pool_get_pseq_elem P")
    note acct = get_pseq_acct [OF g]
    show ?thesis
    proof (cases r)
      case None
      then show ?thesis
        using loop new acct g by simp
    next
      case (Some junk)
      then have "create_loop sp ts mn (i + 1) older (n # seqs) Q = (ok, seqs', P')"
        using loop new g by simp
      from Cons.IH [OF this] show ?thesis
        using acct Some by simp
    qed
  qed (use loop Cons.IH in simp_all)
qed simp


lemma keeps_seqs:
  "pseqs_out P' - int (length ss) = pseqs_out P - int (length (sequences pde)) \<Longrightarrow>
   pulses_out P' = pulses_out P \<Longrightarrow> pool_refs P' = pool_refs P \<Longrightarrow>
   keeps pde P (pde\<lparr>sequences := ss\<rparr>) P'"
  by (simp add: keeps_def spare_def consts_of_def)

lemma pde_wf_seqs [simp]: "pde_wf (pde\<lparr>sequences := ss\<rparr>) \<longleftrightarrow> pde_wf pde"
  by (simp add: pde_wf_def)

lemma add_existing_spec:
  assumes "pde_short_add_to_existing_seqs pde ts P = (mx, pde', P')"
  shows "keeps pde P pde' P' \<and> (pde_wf pde' \<longleftrightarrow> pde_wf pde) \<and> pulses pde' = pulses pde \<and>
    existing_loop (rs pde) ts (sequences pde) 0 P = (mx, sequences pde', P') \<and>
    pde' = pde\<lparr>sequences := sequences pde'\<rparr>"
proof -
  obtain ss Q where l: "existing_loop (rs pde) ts (sequences pde) 0 P = (mx, ss, Q)" "pde' = pde\<lparr>sequences := ss\<rparr>" "P' = Q"
    using assms by (auto simp: pde_short_add_to_existing_seqs_def split: prod.splits)
  show ?thesis
    using existing_loop_acct [OF l(1)] l by (auto intro: keeps_seqs)
qed

lemma create_spec:
  assumes "pde_short_create_sequences pde ts mn P = (ok, pde', P')"
  shows "keeps pde P pde' P' \<and> (pde_wf pde' \<longleftrightarrow> pde_wf pde) \<and> pulses pde' = pulses pde \<and>
    create_loop (rs pde) ts mn 0 (pulses pde) (sequences pde) P = (ok, sequences pde', P') \<and>
    pde' = pde\<lparr>sequences := sequences pde'\<rparr>"
proof -
  obtain ss Q where l: "create_loop (rs pde) ts mn 0 (pulses pde) (sequences pde) P = (ok, ss, Q)"
      "pde' = pde\<lparr>sequences := ss\<rparr>" "P' = Q"
    using assms by (auto simp: pde_short_create_sequences_def split: prod.splits)
  show ?thesis
    using create_loop_acct [OF l(1)] l by (auto intro: keeps_seqs)
qed

text \<open>The ways a pulse goes through a short detector.\<close>

lemma short_add_cases:
  assumes "pde_short_add_pulse pde ts P = (r, pde', P')"
  obtains (first) ok where "pcount pde = 0" "pulse_queue_enqueue pde ts P = (ok, pde', P')" "r = None"
  | (close) "pcount pde \<noteq> 0" "ts - last_ts pde < ucast (max_pri_tolerance (rs pde))" "r = None" "pde' = pde" "P' = P"
  | (nomem) mx q Q q' Q' where "pcount pde \<noteq> 0" "\<not> ts - last_ts pde < ucast (max_pri_tolerance (rs pde))"
      "pde_short_add_to_existing_seqs pde ts P = (mx, q, Q)"
      "pde_short_create_sequences q ts mx Q = (False, q', Q')"
      "pri_detector_reset q' ts Q' = (pde', P')" "r = None"
  | (queued) mx q Q q' Q' ok where "pcount pde \<noteq> 0" "\<not> ts - last_ts pde < ucast (max_pri_tolerance (rs pde))"
      "pde_short_add_to_existing_seqs pde ts P = (mx, q, Q)"
      "pde_short_create_sequences q ts mx Q = (True, q', Q')"
      "pde_short_check_detection q' = None" "pulse_queue_enqueue q' ts Q' = (ok, pde', P')" "r = None"
  | (detected) mx q Q ps where "pcount pde \<noteq> 0" "\<not> ts - last_ts pde < ucast (max_pri_tolerance (rs pde))"
      "pde_short_add_to_existing_seqs pde ts P = (mx, q, Q)"
      "pde_short_create_sequences q ts mx Q = (True, pde', P')"
      "pde_short_check_detection pde' = Some ps" "r = Some ps"
proof -
  obtain mx q Q where a: "pde_short_add_to_existing_seqs pde ts P = (mx, q, Q)"
    by (metis prod_cases3)
  obtain c q' Q' where c: "pde_short_create_sequences q ts mx Q = (c, q', Q')"
    by (metis prod_cases3)
  note eq = assms [unfolded pde_short_add_pulse_def a Let_def prod.case c]
  consider "pcount pde = 0" | "pcount pde \<noteq> 0" "ts - last_ts pde < ucast (max_pri_tolerance (rs pde))"
    | "pcount pde \<noteq> 0" "\<not> ts - last_ts pde < ucast (max_pri_tolerance (rs pde))"
    by blast
  then show ?thesis
  proof cases
    case 1
    moreover from 1 obtain ok where "pulse_queue_enqueue pde ts P = (ok, pde', P')" "r = None"
      using eq by (cases "pulse_queue_enqueue pde ts P") simp
    ultimately show ?thesis
      by (rule first)
  next
    case 2
    moreover from 2 have "r = None" "pde' = pde" "P' = P"
      using eq by simp_all
    ultimately show ?thesis
      by (rule close)
  next
    case 3
    show ?thesis
    proof (cases "c")
      case False
      then have "pri_detector_reset q' ts Q' = (pde', P')" "r = None"
        using eq 3 by (cases "pri_detector_reset q' ts Q'", simp)+
      with False show ?thesis
        using nomem [OF 3 a] c by simp
    next
      case True
      show ?thesis
      proof (cases "pde_short_check_detection q'")
        case None
        obtain ok where "pulse_queue_enqueue q' ts Q' = (ok, pde', P')" "r = None"
          using eq 3 True None by (cases "pulse_queue_enqueue q' ts Q'") simp
        with None True show ?thesis
          using queued [OF 3 a] c by simp
      next
        case (Some ps)
        then have "q' = pde'" "Q' = P'" "r = Some ps"
          using eq 3 True by simp_all
        with Some True show ?thesis
          using detected [OF 3 a] c by simp
      qed
    qed
  qed
qed

lemma short_add_keeps:
  assumes "pde_short_add_pulse pde ts P = (r, pde', P')" and wf: "pde_wf pde"
  shows "keeps pde P pde' P' \<and> pde_wf pde'"
  using assms(1)
proof (cases rule: short_add_cases)
  case first
  then show ?thesis
    using pde_enqueue_spec wf by blast
next
  case close
  then show ?thesis
    using wf by simp
next
  case (nomem mx q Q q' Q')
  note a = add_existing_spec [OF nomem(3)] and c = create_spec [OF nomem(4)] and r = reset_spec [OF nomem(5)]
  have "keeps pde P pde' P'"
    using a c r by (meson keeps_trans)
  then show ?thesis
    using wf a c reset_wf [OF nomem(5)] by simp
next
  case (queued mx q Q q' Q' ok)
  note a = add_existing_spec [OF queued(3)] and c = create_spec [OF queued(4)]
  note e = pde_enqueue_spec [OF queued(6)]
  have "keeps pde P pde' P'"
    using a c e wf by (meson keeps_trans)
  then show ?thesis
    using wf a c e by simp
next
  case (detected mx q Q ps)
  note a = add_existing_spec [OF detected(3)] and c = create_spec [OF detected(4)]
  have "keeps pde P pde' P'"
    using a c by (meson keeps_trans)
  then show ?thesis
    using wf a c by simp
qed

text \<open>A short detector never fails to hand over a sequence that meets its threshold.\<close>

lemma short_add_complete:
  assumes "pde_short_add_pulse pde ts P = (Some ps, pde', P')"
  shows "ps \<in> set (sequences pde') \<and> complete_seq (rs pde') ps"
  using assms
  by (cases rule: short_add_cases)
    (auto simp: pde_short_check_detection_def find_Some_iff)

lemma advance_start_stop:
  "pulses pde = [] \<Longrightarrow> advance_start m ps pde P = (ps, pde, P)"
  by (subst advance_start.simps) (simp add: pulse_queue_get_tail_def)

lemma advance_start_hit:
  "pulses pde \<noteq> [] \<Longrightarrow> m \<le> last (pulses pde) \<Longrightarrow>
   advance_start m ps pde P =
     (ps\<lparr>first_ts := last (pulses pde), deadline_ts := last (pulses pde) + ucast (window_size pde)\<rparr>, pde, P)"
  by (subst advance_start.simps) (simp add: pulse_queue_get_tail_def)

lemma advance_start_step:
  assumes "pulses pde \<noteq> []" and "last (pulses pde) < m" and "pulse_queue_dequeue pde P = (b, q, Q)"
  shows "advance_start m ps pde P = advance_start m (ps\<lparr>ps_count := ps_count ps - 1\<rparr>) q Q"
  using assms by (subst advance_start.simps) (auto simp: pulse_queue_get_tail_def)

lemma advance_start_spec:
  "advance_start m ps pde P = (ps', pde', P') \<Longrightarrow> unat (pcount pde) = length (pulses pde) \<Longrightarrow>
   keeps pde P pde' P' \<and> sequences pde' = sequences pde \<and> unat (pcount pde') = length (pulses pde') \<and>
   (\<exists>old. pulses pde = pulses pde' @ old)"
proof (induction "length (pulses pde)" arbitrary: ps pde P)
  case 0
  then show ?case
    by (auto simp: advance_start_stop)
next
  case (Suc n)
  then have ne: "pulses pde \<noteq> []"
    by auto
  show ?case
  proof (cases "m \<le> last (pulses pde)")
    case True
    then show ?thesis
      using Suc.prems ne by (auto simp: advance_start_hit)
  next
    case False
    obtain b q Q where d: "pulse_queue_dequeue pde P = (b, q, Q)"
      by (cases "pulse_queue_dequeue pde P")
    note k = dequeue_keeps [OF d]
    have "pcount pde \<noteq> 0"
      using Suc.prems(2) ne by auto
    then have cnt: "unat (pcount q) = length (pulses q)"
      using k ne Suc.prems(2) by (simp add: unat_minus_one)
    have "advance_start m (ps\<lparr>ps_count := ps_count ps - 1\<rparr>) q Q = (ps', pde', P')"
      using Suc.prems(1) advance_start_step [OF ne _ d] False by simp
    moreover have "n = length (pulses q)"
      using Suc.hyps(2) k by simp
    ultimately obtain old where
      r: "keeps q Q pde' P'" "sequences pde' = sequences q" "unat (pcount pde') = length (pulses pde')"
        "pulses q = pulses pde' @ old"
      using Suc.hyps(1) cnt by blast
    have "pulses pde = pulses pde' @ old @ [last (pulses pde)]"
      using k ne r(4) by (metis append.assoc append_butlast_last_id)
    then show ?thesis
      using k r by (auto intro: keeps_trans)
  qed
qed


lemma keeps_head:
  "sequences q = s # ss \<Longrightarrow> keeps pde P q Q \<Longrightarrow> keeps pde P (q\<lparr>sequences := s' # ss\<rparr>) Q"
  by (simp add: keeps_def spare_def consts_of_def)

lemma long_add_keeps:
  assumes "pde_long_add_pulse pde ts P = (r, pde', P')" and wf: "pde_wf pde"
  shows "keeps pde P pde' P' \<and> pde_wf pde'"
proof (cases "sequences pde")
  case Nil
  obtain ro Q where g: "pool_get_pseq_elem P = (ro, Q)"
    by (cases "pool_get_pseq_elem P")
  note acct = get_pseq_acct [OF g]
  show ?thesis
  proof (cases ro)
    case None
    then show ?thesis
      using assms Nil g acct by (auto simp: pde_long_add_pulse_def keeps_def spare_def)
  next
    case (Some junk)
    define s where "s = junk\<lparr>ps_count := 1, count_falses := 1, first_ts := ts, ps_last_ts := ts,
                           deadline_ts := ts + ucast (window_size pde), pri := 0\<rparr>"
    obtain ok where e: "pulse_queue_enqueue (pde\<lparr>sequences := [s]\<rparr>) ts Q = (ok, pde', P')"
      using assms(1) Nil g Some
      by (auto simp: pde_long_add_pulse_def Let_def s_def split: prod.splits)
    have "keeps pde P (pde\<lparr>sequences := [s]\<rparr>) Q"
      using acct Some Nil by (intro keeps_seqs) auto
    then show ?thesis
      using pde_enqueue_spec [OF e] wf by (auto intro: keeps_trans)
  qed
next
  case (Cons ps seqs)
  have head: "keeps pde P (pde\<lparr>sequences := s # seqs\<rparr>) P" for s
    using Cons by (auto intro: keeps_head)
  define d where "d = (ucast (ts - ps_last_ts ps) :: u32)"
  define s where "s = ps\<lparr>ps_last_ts := ts\<rparr>"
  define s1 where "s1 = s\<lparr>ps_count := ps_count s + 1, count_falses := 1\<rparr>"
  obtain s2 q Q where adv: "(if deadline_ts s1 < ts
      then advance_start (ts - ucast (window_size pde)) s1 pde P else (s1, pde, P)) = (s2, q, Q)"
    by (metis prod_cases3)
  have q: "keeps pde P q Q" "sequences q = ps # seqs" "unat (pcount q) = length (pulses q)"
    "\<exists>old. pulses pde = pulses q @ old"
    using adv advance_start_spec [of "ts - ucast (window_size pde)" s1 pde P s2 q Q] wf Cons
    by (auto simp: pde_wf_def split: if_splits)
  have "length (pulses q) \<le> length (pulses pde)"
    using q(4) by auto
  then have wq: "pde_wf q"
    using q wf keeps_consts [OF q(1)] by (auto simp: pde_wf_def word_less_nat_alt)
  have eq: "(r, pde', P') =
    (if d < ucast (pri_max (rs pde)) then (None, pde\<lparr>sequences := s # seqs\<rparr>, P)
     else if ucast (pri_min (rs pde)) \<le> d \<and> d \<le> ucast (pri_max (rs pde))
     then (None, pde\<lparr>sequences := s\<lparr>count_falses := count_falses s + 1\<rparr> # seqs\<rparr>, P)
     else if 2 < ps_count s \<and> dur s + d < LONG_RADAR_BURST_MIN_DURATION
     then (None, pde\<lparr>sequences := s # seqs\<rparr>, P)
     else if ucast (ppb_thresh (rs q)) < ps_count s2 \<and> ucast (window_size q div 2) < ts - first_ts s2
     then (Some s2, q\<lparr>sequences := s2 # seqs\<rparr>, Q)
     else (case pulse_queue_enqueue q ts Q of
             (_, pde, P) \<Rightarrow> (None, pde\<lparr>sequences := s2\<lparr>dur := d\<rparr> # seqs\<rparr>, P)))"
    by (rule assms(1) [symmetric, unfolded pde_long_add_pulse_def Cons list.case Let_def,
        folded d_def, folded s_def, folded s1_def, unfolded adv prod.case])
  show ?thesis
  proof (cases "d < ucast (pri_max (rs pde)) \<or> d \<le> ucast (pri_max (rs pde)) \<and> ucast (pri_min (rs pde)) \<le> d \<or>
      2 < ps_count s \<and> dur s + d < LONG_RADAR_BURST_MIN_DURATION")
    case True
    then have "P' = P \<and> (\<exists>s'. pde' = pde\<lparr>sequences := s' # seqs\<rparr>)"
      using eq by (auto split: if_splits)
    then show ?thesis
      using head wf by auto
  next
    case False
    show ?thesis
    proof (cases "ucast (ppb_thresh (rs q)) < ps_count s2 \<and> ucast (window_size q div 2) < ts - first_ts s2")
      case True
      then have "P' = Q \<and> pde' = q\<lparr>sequences := s2 # seqs\<rparr>"
        using eq False by auto
      then show ?thesis
        using q wq keeps_head [OF q(2,1)] by simp
    next
      case le: False
      obtain ok e R where e: "pulse_queue_enqueue q ts Q = (ok, e, R)"
        by (metis prod_cases3)
      have "P' = R \<and> pde' = e\<lparr>sequences := s2\<lparr>dur := d\<rparr> # seqs\<rparr>"
        using eq False le e by auto
      moreover have "keeps pde P e R" "sequences e = ps # seqs" "pde_wf e"
        using pde_enqueue_spec [OF e wq] q by (auto intro: keeps_trans)
      ultimately show ?thesis
        using keeps_head [of e ps seqs pde P R] by simp
    qed
  qed
qed

lemma ops_add_keeps:
  "ops_add_pulse pde ts P = (r, pde', P') \<Longrightarrow> pde_wf pde \<Longrightarrow> keeps pde P pde' P' \<and> pde_wf pde'"
  using short_add_keeps long_add_keeps by (auto simp: ops_add_pulse_def split: if_splits)


text \<open>The comment of \<open>pde_get_multiple\<close>: a result that is not 0 is a factor that
  brings the value within the tolerance, and the result is 0 only when no positive multiple
  of the period is that close.\<close>

theorem multiple_within_tolerance:
  fixes v n t :: u32
  assumes "n \<noteq> 0"
  shows "(0 < pde_get_multiple v n t \<longrightarrow>
            \<bar>uint v - uint (pde_get_multiple v n t) * uint n\<bar> \<le> uint t) \<and>
         (pde_get_multiple v n t = 0 \<longleftrightarrow> (\<forall>k>0. uint t < \<bar>uint v - k * uint n\<bar>))"
  using get_multiple_correct [OF assms] .

theorem multiple_within_tolerance_witness:
  "pde_get_multiple 1010 333 16 = 3 \<and> \<bar>uint (1010 :: u32) - uint (pde_get_multiple 1010 333 16) * uint (333 :: u32)\<bar> \<le> uint (16 :: u32) \<and>
   pde_get_multiple 1100 333 16 = 0 \<and> uint (16 :: u32) < \<bar>uint (1100 :: u32) - 3 * uint (333 :: u32)\<bar>"
proof -
  have m: "pde_get_multiple 1010 333 16 = 3" "pde_get_multiple 1100 333 16 = 0"
    by (simp_all add: pde_get_multiple_def)
  moreover have "\<bar>uint (1010 :: u32) - uint (pde_get_multiple 1010 333 16) * uint (333 :: u32)\<bar> \<le> uint (16 :: u32)"
    using multiple_within_tolerance [of 333 1010 16] m(1) by simp
  moreover have "uint (16 :: u32) < \<bar>uint (1100 :: u32) - 3 * uint (333 :: u32)\<bar>"
    using conjunct2 [OF multiple_within_tolerance [of 333 1100 16]] m(2) by (auto dest: spec [where x = 3])
  ultimately show ?thesis
    by blast
qed

end
