(* ===== verification/Radar_Burst.thy ===== *)
theory Radar_Burst
  imports Radar_Pde "HOL-Library.Sublist"
begin

text \<open>
  What a detector for short waveforms promises about a train of pulses (aml_drv/aml_radar.c):
  a burst with a constant period inside of the limits of its table entry is detected by
  exactly the pulse that completes the threshold, and nothing is detected from fewer pulses
  than the threshold.
\<close>

unbundle bit_operations_syntax

section \<open>Feeding pulses to a detector\<close>

text \<open>The pulses are handed over until one of them completes a sequence.\<close>

fun feed :: "u64 list \<Rightarrow> pri_detector \<Rightarrow> pools \<Rightarrow> pri_sequence option \<times> pri_detector \<times> pools" where
  "feed [] pde P = (None, pde, P)"
| "feed (t # ts) pde P =
     (case pde_short_add_pulse pde t P of
        (None, pde, P) \<Rightarrow> feed ts pde P
      | (Some ps, pde, P) \<Rightarrow> (Some ps, pde, P))"

lemma feed_append:
  "feed (xs @ ys) pde P =
     (case feed xs pde P of (None, pde, P) \<Rightarrow> feed ys pde P | (Some ps, pde, P) \<Rightarrow> (Some ps, pde, P))"
  by (induction xs arbitrary: pde P) (auto split: prod.splits option.splits)

definition burst :: "u64 \<Rightarrow> nat \<Rightarrow> nat \<Rightarrow> u64 list" where
  "burst t0 p n = map (\<lambda>i. t0 + of_nat (i * p)) [0..<n]"

lemma burst_Suc: "burst t0 p (Suc n) = burst t0 p n @ [t0 + of_nat (n * p)]"
  by (simp add: burst_def)

text \<open>The next \<open>n\<close> allocations succeed.\<close>

definition mem_avail :: "nat \<Rightarrow> pools \<Rightarrow> bool" where
  "mem_avail n P \<longleftrightarrow> n \<le> length (takeWhile (\<lambda>r. r \<noteq> None) (kmallocs P))"

section \<open>Arithmetic of a burst\<close>

lemma unat_ucast_up:
  assumes "LENGTH('a::len) \<le> LENGTH('b::len)"
  shows "unat (ucast (w :: 'a word) :: 'b word) = unat w"
proof -
  have "unat w < 2 ^ LENGTH('b)"
    by (rule order.strict_trans2 [OF unsigned_less [of w, where ?'a = nat]]) (simp add: assms)
  then show ?thesis
    by (simp add: unsigned_ucast_eq take_bit_nat_eq_self)
qed

lemma ucast_of_nat_small: "x < 2 ^ 64 \<Longrightarrow> ucast (of_nat x :: u64) = (of_nat x :: u32)"
  by (simp add: word_eq_iff_unsigned take_bit_nat_eq_self unsigned_of_nat)

lemma burst_diff:
  "i \<le> j \<Longrightarrow> (t0 + of_nat (j * p)) - (t0 + of_nat (i * p)) = (of_nat ((j - i) * p) :: u64)"
  by (simp add: of_nat_diff algebra_simps)

lemma unat_burst:
  assumes "unat t0 < 2 ^ 63" and "x < 2 ^ 63"
  shows "unat (t0 + of_nat x :: u64) = unat t0 + x"
  using assms by (simp add: unat_word_ariths unsigned_of_nat take_bit_nat_eq_self)

lemma unat_of_nat_u64: "x < 2 ^ 64 \<Longrightarrow> unat (of_nat x :: u64) = x"
  by (simp add: unsigned_of_nat take_bit_nat_eq_self)

lemma unat_of_nat_u32: "x < 2 ^ 32 \<Longrightarrow> unat (of_nat x :: u32) = x"
  by (simp add: unsigned_of_nat take_bit_nat_eq_self)

lemma get_multiple_self [simp]: "p \<noteq> 0 \<Longrightarrow> pde_get_multiple p p t = 1"
  by (simp add: pde_get_multiple_def)

section \<open>Sequences that cannot beat the current one are not created\<close>

lemma match_past_count:
  "unat (ps_count ps) + length older < 2 ^ 32 \<Longrightarrow>
   unat (ps_count (match_past sp m older ps f)) \<le> unat (ps_count ps) + length older"
proof (induction sp m older ps f rule: match_past.induct)
  case (2 sp m t older ps f)
  define c where "c = pde_get_multiple (ucast (ps_last_ts ps - t)) (pri ps) (ucast (max_pri_tolerance sp))"
  have inc: "unat (ps_count ps + 1) = Suc (unat (ps_count ps))"
    using 2(3) by (simp add: unat_word_ariths)
  consider "t < m" | "\<not> t < m" "0 < c" | "\<not> t < m" "\<not> 0 < c"
    by blast
  then show ?case
  proof cases
    case 2
    then show ?thesis
      using "2.IH"(1) [OF _ c_def] "2.prems" inc by (simp add: c_def [symmetric])
  next
    case 3
    then show ?thesis
      using "2.IH"(2) [OF _ c_def] "2.prems" by (simp add: c_def [symmetric])
  qed simp
qed simp

lemma new_seq_unfold:
  obtains ps0 m where "new_seq sp ts i t older =
      (let ps = match_past sp m older ps0 0
       in ps\<lparr>deadline_ts := first_ts ps + ucast (dur ps), ps_ppb_thresh := seq_thresh sp (pri ps)\<rparr>)"
    and "ps_count ps0 = 2" "pri ps0 = ucast (ts - t)" "first_ts ps0 = t" "ps_last_ts ps0 = ts"
    "dur ps0 = ucast (ts - t) * (ucast (ppb sp) - 1) + 2 * ucast (max_pri_tolerance sp)"
    "count_falses ps0 = ucast i - 1"
  by (rule that, unfold new_seq_def Let_def, rule refl) simp_all

lemma new_seq_count:
  assumes "length older < 2 ^ 32 - 2"
  shows "unat (ps_count (new_seq sp ts i t older)) \<le> length older + 2"
proof -
  obtain ps0 m where n: "new_seq sp ts i t older =
      (let ps = match_past sp m older ps0 0
       in ps\<lparr>deadline_ts := first_ts ps + ucast (dur ps), ps_ppb_thresh := seq_thresh sp (pri ps)\<rparr>)"
    and "ps_count ps0 = 2"
    by (rule new_seq_unfold)
  then have "unat (ps_count (match_past sp m older ps0 0)) \<le> 2 + length older"
    using match_past_count [of ps0 older sp m 0] assms by simp
  then show ?thesis
    by (simp add: n Let_def)
qed

lemma create_loop_none:
  "length older + 1 \<le> unat mn \<Longrightarrow> length older < 2 ^ 32 - 2 \<Longrightarrow>
   create_loop sp ts mn i older seqs P = (True, seqs, P)"
proof (induction older arbitrary: i)
  case (Cons t older)
  have "ps_count (new_seq sp ts (i + 1) t older) \<le> mn"
    using new_seq_count [of older sp ts "i + 1" t] Cons.prems by (simp add: word_le_nat_alt)
  then show ?case
    using Cons by (simp add: Let_def)
qed simp


section \<open>One step of a burst\<close>

lemma mem_avail_mono: "mem_avail n P \<Longrightarrow> m \<le> n \<Longrightarrow> mem_avail m P"
  by (simp add: mem_avail_def)

lemma kmalloc_avail: "mem_avail (Suc k) P \<Longrightarrow> \<exists>x P'. kmalloc P = (Some x, P') \<and> mem_avail k P'"
  by (cases "kmallocs P") (auto simp: mem_avail_def kmalloc_def split: if_splits)

lemma get_pseq_avail:
  assumes "mem_avail (Suc k) P"
  shows "\<exists>x P'. pool_get_pseq_elem P = (Some x, P') \<and> mem_avail k P'"
proof (cases "pseq_pool P")
  case Nil
  with kmalloc_avail [OF assms] show ?thesis
    by (auto simp: pool_get_pseq_elem_def mem_avail_def)
next
  case (Cons s ss)
  then show ?thesis
    using mem_avail_mono [OF assms, of k] by (simp add: pool_get_pseq_elem_def mem_avail_def)
qed

lemma enqueue_plain:
  assumes mem: "mem_avail (Suc k) P"
    and cnt: "Suc (unat (pcount pde)) < unat (max_count pde)"
    and win: "pulses pde \<noteq> [] \<longrightarrow> unat ts \<le> unat (last (pulses pde)) + unat (window_size pde)"
  shows "\<exists>P'. pulse_queue_enqueue pde ts P =
      (True, pde\<lparr>pulses := ts # pulses pde, pcount := pcount pde + 1, last_ts := ts\<rparr>, P') \<and> mem_avail k P'"
proof -
  define e where "e = pde\<lparr>pulses := ts # pulses pde, pcount := pcount pde + 1, last_ts := ts\<rparr>"
  have stop: "pulse_queue_check_window e Q = (e, Q)" for Q
  proof -
    have "ts - ucast (window_size pde) \<le> last (ts # pulses pde)" if "\<not> ts \<le> ucast (window_size pde)"
    proof -
      have "unat (ts - ucast (window_size pde)) = unat ts - unat (window_size pde)"
        using that by (simp add: unat_sub not_le word_le_nat_alt word_less_nat_alt unat_ucast_up)
      then show ?thesis
        using win by (auto simp: word_le_nat_alt)
    qed
    then show ?thesis
      by (auto simp: pulse_queue_check_window_def e_def intro!: drop_old_stop)
  qed
  have "unat (pcount pde + 1) = Suc (unat (pcount pde))"
    using cnt unsigned_less [of "max_count pde", where ?'a = nat] by (simp add: unat_word_ariths)
  then have room: "\<not> max_count pde \<le> pcount pde + 1"
    using cnt by (simp add: word_le_nat_alt)
  obtain Q where "(case pool_get_pulse_elem P of
           (True, P) \<Rightarrow> (True, P)
         | (False, P) \<Rightarrow>
             (case kmalloc P of
                (None, P) \<Rightarrow> (False, P)
              | (Some _, P) \<Rightarrow> (True, P\<lparr>pulse_objs := Suc (pulse_objs P)\<rparr>))) = (True, Q)" and "mem_avail k Q"
  proof (cases "pulse_pool P")
    case 0
    obtain x P' where "kmalloc P = (Some x, P')" "mem_avail k P'"
      using kmalloc_avail [OF mem] by blast
    with 0 show ?thesis
      using that [of "P'\<lparr>pulse_objs := Suc (pulse_objs P')\<rparr>"] by (simp add: pool_get_pulse_elem_def mem_avail_def)
  next
    case (Suc n)
    then show ?thesis
      using that [of "P\<lparr>pulse_pool := n\<rparr>"] mem_avail_mono [OF mem, of k]
      by (simp add: pool_get_pulse_elem_def mem_avail_def)
  qed
  then show ?thesis
    using room by (intro exI [of _ Q]) (simp add: pulse_queue_enqueue_def stop [unfolded e_def])
qed

text \<open>The table entries the following lemmas apply to, and the periods inside their limits.\<close>

definition burst_ok :: "radar_detector_specs \<Rightarrow> nat \<Rightarrow> bool" where
  "burst_ok sp p \<longleftrightarrow> unat (pri_min sp) \<le> p \<and> p \<le> unat (pri_max sp) \<and>
     unat (max_pri_tolerance sp) \<le> p \<and> 0 < p \<and> 0 < num_pri sp \<and>
     2 < unat (seq_thresh sp (of_nat p)) \<and> seq_thresh sp (of_nat p) \<le> ppb sp"

definition burst_seq :: "radar_detector_specs \<Rightarrow> u64 \<Rightarrow> nat \<Rightarrow> nat \<Rightarrow> pri_sequence" where
  "burst_seq sp t0 p m =
     (let d = of_nat p * (ucast (ppb sp) - 1) + 2 * ucast (max_pri_tolerance sp)
      in \<lparr>pri = of_nat p, dur = d, ps_count = of_nat m, count_falses = 0, first_ts = t0,
          ps_last_ts = t0 + of_nat ((m - 1) * p), deadline_ts = t0 + ucast d,
          ps_ppb_thresh = seq_thresh sp (of_nat p)\<rparr>)"

definition burst_state :: "radar_detector_specs \<Rightarrow> u64 \<Rightarrow> nat \<Rightarrow> nat \<Rightarrow> pri_detector \<Rightarrow> bool" where
  "burst_state sp t0 p m pde \<longleftrightarrow>
     rs pde = sp \<and> max_count pde = ucast (ppb sp) * 2 \<and>
     window_size pde = ucast (pri_max sp) * ucast (ppb sp) * ucast (num_pri sp) \<and>
     pulses pde = rev (burst t0 p m) \<and> pcount pde = of_nat m \<and>
     (0 < m \<longrightarrow> last_ts pde = t0 + of_nat ((m - 1) * p)) \<and>
     sequences pde = (if m \<le> 1 then [] else [burst_seq sp t0 p m])"

lemma fresh_burst_state:
  "wtype sp \<noteq> RADAR_WAVEFORM_LONG \<Longrightarrow> burst_state sp t0 p 0 (fresh_pde sp f)"
  by (simp add: burst_state_def fresh_pde_def ops_init_def pde_short_init_def burst_def)

lemma unat_window:
  "unat (ucast (a :: u16) * ucast (b :: u8) * ucast (c :: u8) :: u32) = unat a * unat b * unat c"
proof -
  have "unat a * unat b * unat c \<le> 65535 * 255 * 255"
    using unsigned_less [of a, where ?'a = nat] unsigned_less [of b, where ?'a = nat]
      unsigned_less [of c, where ?'a = nat] by (intro mult_le_mono) simp_all
  then show ?thesis
    by (simp add: unat_word_ariths unat_ucast_up mod_mult_left_eq)
qed

lemma unat_max_count: "unat (ucast (b :: u8) * 2 :: u32) = 2 * unat b"
  using unsigned_less [of b, where ?'a = nat]
  by (simp add: unat_word_ariths unat_ucast_up)


lemma u8_bound: "unat (x :: u8) \<le> 255"
  using unsigned_less [of x, where ?'a = nat] by simp

lemma u16_bound: "unat (x :: u16) \<le> 65535"
  using unsigned_less [of x, where ?'a = nat] by simp

text \<open>What the arithmetic of a step needs: the products stay far below the word sizes.\<close>

lemma burst_bounds:
  assumes "burst_ok sp p" and "m < unat (ppb sp)"
  shows "p \<le> 65535" "m * p \<le> 65535 * 255" "Suc m \<le> 255" "0 < p"
proof -
  show "p \<le> 65535"
    using assms u16_bound [of "pri_max sp"] by (simp add: burst_ok_def)
  show "Suc m \<le> 255"
    using assms u8_bound [of "ppb sp"] by simp
  with \<open>p \<le> 65535\<close> have "m * p \<le> 255 * 65535"
    by (intro mult_le_mono) simp_all
  then show "m * p \<le> 65535 * 255"
    by simp
  show "0 < p"
    using assms by (simp add: burst_ok_def)
qed

lemma unat_burst_dur:
  assumes "burst_ok sp p" and "0 < unat (ppb sp)"
  shows "unat (of_nat p * (ucast (ppb sp) - 1) + 2 * ucast (max_pri_tolerance sp) :: u32) =
    p * (unat (ppb sp) - 1) + 2 * unat (max_pri_tolerance sp)"
proof -
  have p: "p \<le> 65535"
    using assms u16_bound [of "pri_max sp"] by (simp add: burst_ok_def)
  have "p * (unat (ppb sp) - 1) \<le> 65535 * 254"
    using p u8_bound [of "ppb sp"] by (intro mult_le_mono) simp_all
  moreover have "unat (ucast (ppb sp) - 1 :: u32) = unat (ppb sp) - 1"
    using assms(2) by (subst unat_minus_one) (auto simp: unat_ucast_up word_eq_iff_unsigned
        dest: arg_cong [of _ _ unat])
  moreover have "unat (of_nat p :: u32) = p"
    using p by (intro unat_of_nat_u32) simp
  ultimately show ?thesis
    using u8_bound [of "max_pri_tolerance sp"]
    by (simp add: unat_word_ariths unat_ucast_up mod_add_left_eq)
qed

lemma burst_in_deadline:
  assumes ok: "burst_ok sp p" and m: "m < unat (ppb sp)" and t0: "unat t0 < 2 ^ 62"
  shows "\<not> deadline_ts (burst_seq sp t0 p n) < t0 + of_nat (m * p)"
proof -
  define d where "d = (of_nat p * (ucast (ppb sp) - 1) + 2 * ucast (max_pri_tolerance sp) :: u32)"
  have d: "unat d = p * (unat (ppb sp) - 1) + 2 * unat (max_pri_tolerance sp)"
    unfolding d_def using ok m by (intro unat_burst_dur) auto
  have "m * p \<le> (unat (ppb sp) - 1) * p"
    using m by (intro mult_right_mono) simp_all
  then have "m * p \<le> unat d"
    by (simp add: d mult.commute trans_le_add1)
  moreover have "unat (t0 + ucast d) = unat t0 + unat d"
    using t0 unsigned_less [of d, where ?'a = nat] by (simp add: unat_word_ariths unat_ucast_up)
  moreover have "unat (t0 + of_nat (m * p)) = unat t0 + m * p"
    using t0 burst_bounds [OF ok m] by (intro unat_burst) simp_all
  ultimately show ?thesis
    by (simp add: burst_seq_def Let_def d_def [symmetric] word_less_nat_alt)
qed

lemma burst_delta:
  assumes "burst_ok sp p" and "m < unat (ppb sp)" and "0 < m"
  shows "t0 + of_nat (m * p) - (t0 + of_nat ((m - 1) * p)) = (of_nat p :: u64)"
    and "(ucast (of_nat p :: u64) :: u32) = of_nat p"
    and "(of_nat p :: u32) \<noteq> 0"
proof -
  show "t0 + of_nat (m * p) - (t0 + of_nat ((m - 1) * p)) = (of_nat p :: u64)"
    using assms burst_diff [of "m - 1" m t0 p] by simp
  show "(ucast (of_nat p :: u64) :: u32) = of_nat p"
    using burst_bounds [OF assms(1,2)] by (intro ucast_of_nat_small) simp
  have "unat (of_nat p :: u32) = p"
    using burst_bounds [OF assms(1,2)] by (intro unat_of_nat_u32) simp
  then show "(of_nat p :: u32) \<noteq> 0"
    using burst_bounds [OF assms(1,2)] by (metis less_irrefl unat_0)
qed

lemma burst_existing:
  assumes "burst_ok sp p" and "m < unat (ppb sp)" and "0 < m" and "unat t0 < 2 ^ 62"
  shows "existing_loop sp (t0 + of_nat (m * p)) [burst_seq sp t0 p m] 0 P =
    (of_nat (Suc m), [burst_seq sp t0 p (Suc m)], P)"
proof -
  note d = burst_delta [OF assms(1-3)]
  have "\<not> deadline_ts (burst_seq sp t0 p m) < t0 + of_nat (m * p)"
    using assms by (intro burst_in_deadline) simp_all
  moreover have "ucast (t0 + of_nat (m * p) - ps_last_ts (burst_seq sp t0 p m)) = pri (burst_seq sp t0 p m)"
    using d(1) [of t0] d(2) by (simp add: burst_seq_def Let_def)
  moreover have "pri (burst_seq sp t0 p m) \<noteq> 0"
    using d(3) by (simp add: burst_seq_def Let_def)
  moreover have "(0::u32) < of_nat m + 1"
  proof -
    have "unat (of_nat (Suc m) :: u32) = Suc m"
      using burst_bounds [OF assms(1,2)] by (intro unat_of_nat_u32) simp
    then have "(of_nat (Suc m) :: u32) \<noteq> 0"
      by (metis nat.distinct(1) unat_0)
    then show ?thesis
      by (simp add: word_gt_0 add.commute)
  qed
  ultimately show ?thesis
    by (simp add: Let_def) (simp add: burst_seq_def Let_def add.commute)
qed


lemma burst_create:
  assumes ok: "burst_ok sp p" and mem: "mem_avail (Suc k) P"
  shows "\<exists>Q. create_loop sp (t0 + of_nat p) 0 0 [t0] [] P = (True, [burst_seq sp t0 p 2], Q) \<and> mem_avail k Q"
proof -
  have p: "p \<le> 65535" "unat (pri_min sp) \<le> p" "p \<le> unat (pri_max sp)"
    using ok u16_bound [of "pri_max sp"] by (simp_all add: burst_ok_def)
  have d: "(ucast (of_nat p :: u64) :: u32) = of_nat p"
    using p by (intro ucast_of_nat_small) simp
  have up: "unat (of_nat p :: u32) = p"
    using p by (intro unat_of_nat_u32) simp
  have lim: "\<not> (of_nat p :: u32) < ucast (pri_min sp)" "\<not> ucast (pri_max sp) < (of_nat p :: u32)"
    using p up by (simp_all add: word_less_nat_alt unat_ucast_up)
  have new: "new_seq sp (t0 + of_nat p) 1 t0 [] = burst_seq sp t0 p 2"
    by (simp add: new_seq_def burst_seq_def Let_def d)
  obtain x Q where "pool_get_pseq_elem P = (Some x, Q)" "mem_avail k Q"
    using get_pseq_avail [OF mem] by blast
  then show ?thesis
    using lim new by (intro exI [of _ Q]) (simp add: Let_def d burst_seq_def)
qed

lemma burst_last: "0 < m \<Longrightarrow> last (rev (burst t0 p m)) = t0"
  by (cases m) (simp_all add: burst_def upt_rec del: upt_Suc)

lemma burst_first:
  assumes st: "burst_state sp t0 p 0 pde" and ok: "burst_ok sp p" and mem: "mem_avail (Suc k) P"
  shows "\<exists>q Q. pde_short_add_pulse pde t0 P = (None, q, Q) \<and> burst_state sp t0 p 1 q \<and> mem_avail k Q"
proof -
  have "2 < unat (ppb sp)"
    using ok by (auto simp: burst_ok_def word_le_nat_alt)
  then have room: "Suc (unat (pcount pde)) < unat (max_count pde)"
    using st unat_max_count [of "ppb sp"] by (simp add: burst_state_def)
  have "pulses pde = []"
    using st by (simp add: burst_state_def burst_def)
  then obtain Q where "pulse_queue_enqueue pde t0 P =
      (True, pde\<lparr>pulses := t0 # pulses pde, pcount := pcount pde + 1, last_ts := t0\<rparr>, Q)" "mem_avail k Q"
    using enqueue_plain [OF mem room, of t0] by blast
  then show ?thesis
    using st by (simp add: pde_short_add_pulse_def burst_state_def burst_def)
qed

lemma burst_stateD:
  assumes "burst_state sp t0 p m pde" and "0 < m"
  shows "rs pde = sp" "pulses pde = rev (burst t0 p m)" "pcount pde = of_nat m"
    "last_ts pde = t0 + of_nat ((m - 1) * p)"
    "sequences pde = (if m \<le> 1 then [] else [burst_seq sp t0 p m])"
    "max_count pde = ucast (ppb sp) * 2"
    "window_size pde = ucast (pri_max sp) * ucast (ppb sp) * ucast (num_pri sp)"
  using assms by (simp_all add: burst_state_def)

lemma burst_counts:
  assumes "burst_ok sp p" and "m < unat (ppb sp)"
  shows "unat (of_nat m :: u32) = m" "unat (of_nat (Suc m) :: u32) = Suc m"
  using burst_bounds(3) [OF assms] by (simp_all add: unat_of_nat_u32 del: of_nat_Suc)

lemma burst_far:
  assumes st: "burst_state sp t0 p m pde" and ok: "burst_ok sp p" and m: "0 < m" "m < unat (ppb sp)"
  shows "pcount pde \<noteq> 0"
    and "\<not> t0 + of_nat (m * p) - last_ts pde < ucast (max_pri_tolerance (rs pde))"
proof -
  show "pcount pde \<noteq> 0"
    using burst_counts(1) [OF ok m(2)] m(1) burst_stateD(3) [OF st m(1)] by (metis less_irrefl unat_0)
  have "unat (of_nat p :: u64) = p"
    using burst_bounds [OF ok m(2)] by (intro unat_of_nat_u64) simp
  then show "\<not> t0 + of_nat (m * p) - last_ts pde < ucast (max_pri_tolerance (rs pde))"
    using burst_delta(1) [OF ok m(2,1), of t0] ok burst_stateD [OF st m(1)]
    by (simp add: word_less_nat_alt unat_ucast_up burst_ok_def)
qed

text \<open>Existing sequences are extended, and no second one is created.\<close>

lemma burst_sequences:
  assumes st: "burst_state sp t0 p m pde" and ok: "burst_ok sp p"
    and m: "0 < m" "m < unat (ppb sp)" and t0: "unat t0 < 2 ^ 62" and mem: "mem_avail (Suc k) P"
  obtains mx q Q Q' where
    "pde_short_add_to_existing_seqs pde (t0 + of_nat (m * p)) P = (mx, q, Q)"
    "pde_short_create_sequences q (t0 + of_nat (m * p)) mx Q =
       (True, pde\<lparr>sequences := [burst_seq sp t0 p (Suc m)]\<rparr>, Q')"
    "mem_avail k Q'"
proof (cases "m = 1")
  case True
  obtain Q' where "create_loop sp (t0 + of_nat p) 0 0 [t0] [] P = (True, [burst_seq sp t0 p 2], Q')"
      "mem_avail k Q'"
    using burst_create [OF ok mem] by blast
  then show ?thesis
    using True burst_stateD [OF st m(1)] that [of 0 pde P Q']
    by (simp add: pde_short_add_to_existing_seqs_def pde_short_create_sequences_def burst_def
        numeral_2_eq_2)
next
  case False
  then have ex: "pde_short_add_to_existing_seqs pde (t0 + of_nat (m * p)) P =
      (of_nat (Suc m), pde\<lparr>sequences := [burst_seq sp t0 p (Suc m)]\<rparr>, P)"
    using burst_existing [OF ok m(2,1) t0, of P] m(1) burst_stateD [OF st m(1)]
    by (simp add: pde_short_add_to_existing_seqs_def)
  have "create_loop sp (t0 + of_nat (m * p)) (of_nat (Suc m)) 0 (pulses pde) ss P = (True, ss, P)" for ss
    using burst_bounds(3) [OF ok m(2)] burst_counts(2) [OF ok m(2)]
    by (intro create_loop_none) (simp_all add: burst_stateD [OF st m(1)] burst_def del: of_nat_Suc)
  with ex show ?thesis
    using burst_stateD(1) [OF st m(1)] mem_avail_mono [OF mem, of k]
    by (intro that [OF ex]) (simp_all add: pde_short_create_sequences_def)
qed

lemma burst_complete:
  assumes ok: "burst_ok sp p" and m: "m < unat (ppb sp)"
  shows "complete_seq sp (burst_seq sp t0 p (Suc m)) \<longleftrightarrow> unat (seq_thresh sp (of_nat p)) \<le> Suc m"
proof -
  have n: "unat (num_pri sp) \<noteq> 0"
    using ok by (auto simp: burst_ok_def unat_eq_0)
  have "Suc m * unat (num_pri sp) \<le> 255 * 255"
    using burst_bounds(3) [OF ok m] u8_bound [of "num_pri sp"] by (intro mult_le_mono) simp_all
  then have "unat (of_nat (Suc m) * ucast (num_pri sp) :: u32) = Suc m * unat (num_pri sp)"
    using burst_counts(2) [OF ok m] by (simp add: unat_word_ariths unat_ucast_up del: of_nat_Suc)
  then have "(0::u32) < of_nat (Suc m) * ucast (num_pri sp)"
    using n by (simp add: word_less_nat_alt del: of_nat_Suc)
  then show ?thesis
    using burst_counts(2) [OF ok m]
    by (simp add: complete_seq_def burst_seq_def Let_def word_le_nat_alt unat_ucast_up del: of_nat_Suc)
qed

text \<open>The queue has room for the whole burst, and the burst fits into the window.\<close>

lemma burst_enqueue:
  assumes st: "burst_state sp t0 p m pde" and ok: "burst_ok sp p"
    and m: "0 < m" "m < unat (ppb sp)" and t0: "unat t0 < 2 ^ 62" and mem: "mem_avail (Suc k) P"
  obtains q R where
    "pulse_queue_enqueue (pde\<lparr>sequences := [burst_seq sp t0 p (Suc m)]\<rparr>) (t0 + of_nat (m * p)) P = (True, q, R)"
    "burst_state sp t0 p (Suc m) q" "mem_avail k R"
proof -
  define ts where "ts = t0 + of_nat (m * p)"
  define e where "e = pde\<lparr>sequences := [burst_seq sp t0 p (Suc m)]\<rparr>"
  note std = burst_stateD [OF st m(1)]
  have room: "Suc (unat (pcount e)) < unat (max_count e)"
    using std m burst_counts [OF ok m(2)] unat_max_count [of "ppb sp"] by (simp add: e_def)
  have "m * p \<le> unat (ppb sp) * unat (pri_max sp)"
    using m ok by (intro mult_le_mono) (simp_all add: burst_ok_def)
  also have "\<dots> \<le> unat (ppb sp) * unat (pri_max sp) * unat (num_pri sp)"
    using ok by (simp add: burst_ok_def unat_gt_0 word_gt_0 Suc_le_eq)
  finally have "m * p \<le> unat (window_size e)"
    using std unat_window [of "pri_max sp" "ppb sp" "num_pri sp"] by (simp add: e_def mult.commute)
  moreover have "unat ts = unat t0 + m * p"
    unfolding ts_def using t0 burst_bounds [OF ok m(2)] by (intro unat_burst) simp_all
  ultimately have "pulses e \<noteq> [] \<longrightarrow> unat ts \<le> unat (last (pulses e)) + unat (window_size e)"
    using burst_last [OF m(1), of t0 p] std by (simp add: e_def)
  from enqueue_plain [OF mem room this] obtain R where "pulse_queue_enqueue e ts P =
      (True, e\<lparr>pulses := ts # pulses e, pcount := pcount e + 1, last_ts := ts\<rparr>, R)" "mem_avail k R"
    by blast
  moreover have "burst_state sp t0 p (Suc m) (e\<lparr>pulses := ts # pulses e, pcount := pcount e + 1, last_ts := ts\<rparr>)"
    using std m by (simp add: burst_state_def e_def burst_Suc ts_def add.commute)
  ultimately show ?thesis
    using that unfolding ts_def e_def by blast
qed

lemma burst_step:
  assumes st: "burst_state sp t0 p m pde" and ok: "burst_ok sp p"
    and m: "0 < m" "m < unat (ppb sp)" and t0: "unat t0 < 2 ^ 62"
    and mem: "mem_avail (Suc (Suc k)) P"
  shows "\<exists>r q Q. pde_short_add_pulse pde (t0 + of_nat (m * p)) P = (r, q, Q) \<and> mem_avail k Q \<and>
    (if unat (seq_thresh sp (of_nat p)) \<le> Suc m then r = Some (burst_seq sp t0 p (Suc m))
     else r = None \<and> burst_state sp t0 p (Suc m) q)"
proof -
  define e where "e = pde\<lparr>sequences := [burst_seq sp t0 p (Suc m)]\<rparr>"
  obtain mx q Q Q' where
    ex: "pde_short_add_to_existing_seqs pde (t0 + of_nat (m * p)) P = (mx, q, Q)"
      "pde_short_create_sequences q (t0 + of_nat (m * p)) mx Q = (True, e, Q')"
    and mem': "mem_avail (Suc k) Q'"
    using burst_sequences [OF st ok m t0 mem] unfolding e_def by metis
  have rse: "rs e = sp"
    using burst_stateD(1) [OF st m(1)] by (simp add: e_def)
  note add = pde_short_add_pulse_def burst_far [OF st ok m] ex
  show ?thesis
  proof (cases "unat (seq_thresh sp (of_nat p)) \<le> Suc m")
    case True
    then have "pde_short_check_detection e = Some (burst_seq sp t0 p (Suc m))"
      using burst_complete [OF ok m(2), of t0] rse by (simp add: pde_short_check_detection_def e_def)
    then show ?thesis
      using True mem_avail_mono [OF mem', of k] by (simp add: add del: of_nat_mult)
  next
    case False
    then have none: "pde_short_check_detection e = None"
      using burst_complete [OF ok m(2), of t0] rse by (simp add: pde_short_check_detection_def e_def)
    obtain q R where "pulse_queue_enqueue e (t0 + of_nat (m * p)) Q' = (True, q, R)"
        "burst_state sp t0 p (Suc m) q" "mem_avail k R"
      using burst_enqueue [OF st ok m t0 mem'] unfolding e_def by metis
    then show ?thesis
      using False none by (simp add: add del: of_nat_mult)
  qed
qed


lemma burst_run:
  assumes ok: "burst_ok sp p" and ty: "wtype sp \<noteq> RADAR_WAVEFORM_LONG" and t0: "unat t0 < 2 ^ 62"
  shows "n < unat (seq_thresh sp (of_nat p)) \<Longrightarrow> mem_avail (2 * n + k) P \<Longrightarrow>
    \<exists>q Q. feed (burst t0 p n) (fresh_pde sp f) P = (None, q, Q) \<and> burst_state sp t0 p n q \<and> mem_avail k Q"
proof (induction n arbitrary: k)
  case 0
  then show ?case
    using fresh_burst_state [OF ty] by (simp add: burst_def)
next
  case (Suc n)
  obtain q Q where q: "feed (burst t0 p n) (fresh_pde sp f) P = (None, q, Q)" "burst_state sp t0 p n q"
      "mem_avail (Suc (Suc k)) Q"
    using Suc.IH [of "Suc (Suc k)"] Suc.prems by auto
  have "\<exists>q' Q'. pde_short_add_pulse q (t0 + of_nat (n * p)) Q = (None, q', Q') \<and>
      burst_state sp t0 p (Suc n) q' \<and> mem_avail k Q'"
  proof (cases "n = 0")
    case True
    then show ?thesis
      using burst_first [of sp t0 p q k Q] q ok mem_avail_mono [OF q(3), of "Suc k"] by simp
  next
    case False
    moreover have "n < unat (ppb sp)"
      using Suc.prems(1) ok by (simp add: burst_ok_def word_le_nat_alt)
    ultimately show ?thesis
      using burst_step [OF q(2) ok _ _ t0 q(3)] Suc.prems(1) by (auto simp del: of_nat_mult)
  qed
  with q show ?case
    by (auto simp: burst_Suc feed_append simp del: of_nat_mult)
qed

section \<open>The table entries\<close>

definition entry_ok :: "radar_detector_specs \<Rightarrow> bool" where
  "entry_ok sp \<longleftrightarrow> 0 < pri_min sp \<and> pri_min sp \<le> pri_max sp \<and> ucast (max_pri_tolerance sp) \<le> pri_min sp \<and>
     0 < num_pri sp \<and> width_min sp \<le> width_max sp \<and> 2 < ppb_thresh sp \<and> ppb_thresh sp \<le> ppb sp \<and>
     (wtype sp = RADAR_WAVEFORM_WEATHER \<longrightarrow> 502 \<le> pri_min sp \<and> pri_max sp \<le> 3082 \<and> 53 \<le> ppb sp)"

lemma tables_ok: "rt \<in> set dfs_domains \<Longrightarrow> sp \<in> set (spec_riu rt @ spec_fcu rt) \<Longrightarrow> entry_ok sp"
proof -
  have "list_all (\<lambda>rt. list_all entry_ok (spec_riu rt @ spec_fcu rt)) dfs_domains"
    by (simp add: spec_table_defs spec_macro_defs entry_ok_def)
  then show "rt \<in> set dfs_domains \<Longrightarrow> sp \<in> set (spec_riu rt @ spec_fcu rt) \<Longrightarrow> entry_ok sp"
    by (auto simp: list_all_iff)
qed

lemma weather_thresh:
  assumes "wtype sp = RADAR_WAVEFORM_WEATHER" and "502 \<le> p" and "p \<le> 3082"
  shows "9 \<le> unat (seq_thresh sp (of_nat p))" and "unat (seq_thresh sp (of_nat p)) \<le> 53"
proof -
  define x where "x = 19000000 div (360 * p)"
  have x: "17 \<le> x" "x \<le> 105"
    using assms div_le_mono2 [of "360 * p" "360 * 3082" 19000000] div_le_mono2 [of "360 * 502" "360 * p" 19000000]
    by (simp_all add: x_def)
  have "unat (360 * of_nat p :: u32) = 360 * p"
    using assms(3) by (simp add: unat_word_ariths unat_of_nat_u32)
  then have "unat (19000000 div (360 * of_nat p) :: u32) = x"
    by (simp add: unat_div x_def)
  then have "unat (ucast (19000000 div (360 * of_nat p) :: u32) :: u8) = x"
    using x by (simp add: unsigned_ucast_eq take_bit_nat_eq_self)
  moreover have "unat (of_nat (PPB_THRESH x) :: u8) = PPB_THRESH x"
    using x by (simp add: PPB_THRESH_def MIN_PPB_THRESH_def unsigned_of_nat take_bit_nat_eq_self)
  ultimately have "unat (seq_thresh sp (of_nat p)) = PPB_THRESH x"
    using assms(1) by (simp add: seq_thresh_def)
  then show "9 \<le> unat (seq_thresh sp (of_nat p))" and "unat (seq_thresh sp (of_nat p)) \<le> 53"
    using x by (simp_all add: PPB_THRESH_def MIN_PPB_THRESH_def)
qed

lemma entry_burst_ok:
  assumes e: "entry_ok sp" and p: "unat (pri_min sp) \<le> p" "p \<le> unat (pri_max sp)"
  shows "burst_ok sp p"
proof -
  have "2 < unat (seq_thresh sp (of_nat p)) \<and> seq_thresh sp (of_nat p) \<le> ppb sp"
  proof (cases "wtype sp = RADAR_WAVEFORM_WEATHER")
    case True
    then have "502 \<le> p" "p \<le> 3082" "53 \<le> unat (ppb sp)"
      using e p by (simp_all add: entry_ok_def word_le_nat_alt)
    then show ?thesis
      using weather_thresh [OF True, of p] by (simp add: word_le_nat_alt)
  next
    case False
    then show ?thesis
      using e by (simp add: entry_ok_def seq_thresh_def word_le_nat_alt word_less_nat_alt)
  qed
  moreover have "unat (max_pri_tolerance sp) \<le> p" "0 < p"
    using e p by (simp_all add: entry_ok_def word_le_nat_alt word_less_nat_alt unat_ucast_up)
  ultimately show ?thesis
    using e p by (simp add: burst_ok_def entry_ok_def)
qed

text \<open>Property C22. A burst with a constant period inside of the limits of its table entry (any
  short, weather or interleaved waveform of any domain and chain) is detected by a fresh
  detector: by exactly the pulse that completes the threshold, with the right period, and
  by no earlier one, as long as the allocations of list elements succeed.\<close>

theorem periodic_burst_detected:
  assumes "rt \<in> set dfs_domains" and "sp \<in> set (spec_riu rt @ spec_fcu rt)"
    and "wtype sp \<noteq> RADAR_WAVEFORM_LONG"
    and "unat (pri_min sp) \<le> p" and "p \<le> unat (pri_max sp)" and "unat t0 < 2 ^ 62"
    and "n = unat (seq_thresh sp (of_nat p))" and "mem_avail (2 * n) P"
  shows "(\<forall>m<n. fst (feed (burst t0 p m) (fresh_pde sp f) P) = None) \<and>
    (\<exists>ps. fst (feed (burst t0 p n) (fresh_pde sp f) P) = Some ps \<and> pri ps = of_nat p \<and>
          unat (ps_count ps) = n \<and> count_falses ps = 0)"
proof -
  have ok: "burst_ok sp p"
    using assms by (intro entry_burst_ok tables_ok)
  then have "2 < n"
    using assms(7) by (simp add: burst_ok_def)
  then obtain m where m: "n = Suc m" "0 < m"
    by (cases n) auto
  have ppb: "m < unat (ppb sp)"
    using ok m assms(7) by (simp add: burst_ok_def word_le_nat_alt)
  have before: "fst (feed (burst t0 p i) (fresh_pde sp f) P) = None" if "i < n" for i
    using burst_run [OF ok assms(3,6), of i 0 P f] that assms(7) mem_avail_mono [OF assms(8), of "2 * i"]
    by auto
  obtain q Q where q: "feed (burst t0 p m) (fresh_pde sp f) P = (None, q, Q)" "burst_state sp t0 p m q"
      "mem_avail (Suc (Suc 0)) Q"
    using burst_run [OF ok assms(3,6), of m "Suc (Suc 0)" P f] m assms(7,8) by auto
  have "fst (feed (burst t0 p n) (fresh_pde sp f) P) = Some (burst_seq sp t0 p n)"
    using burst_step [OF q(2) ok m(2) ppb assms(6) q(3)] q(1) m(1) assms(7)
    by (auto simp: burst_Suc feed_append simp del: of_nat_mult of_nat_Suc)
  then show ?thesis
    using before burst_counts(2) [OF ok ppb] m(1) by (simp add: burst_seq_def Let_def del: of_nat_Suc)
qed


text \<open>The hypotheses at FCC type 6: nine pulses every 333 us, five of which are enough.\<close>

theorem periodic_burst_detected_witness:
  "let sp = fcc_radar_ref_types_riu ! 6; seq0 = burst_seq sp 0 0 0;
       P = \<lparr>pool_refs = 1, pulse_pool = 0, pseq_pool = [], kmallocs = replicate 10 (Some seq0),
            pulse_objs = 0, pseq_objs = 0\<rparr>
   in fst (feed (burst 1000 333 4) (fresh_pde sp 5500) P) = None \<and>
      (\<exists>ps. fst (feed (burst 1000 333 5) (fresh_pde sp 5500) P) = Some ps \<and> pri ps = of_nat 333 \<and>
            unat (ps_count ps) = 5 \<and> count_falses ps = 0)"
proof -
  define sp where "sp = fcc_radar_ref_types_riu ! 6"
  have sp: "sp = FCC_PATTERN 6 0 8 333 333 1 9 RADAR_WAVEFORM_SHORT"
    by (simp add: sp_def fcc_radar_ref_types_riu_def)
  have mem: "fcc_radar_types \<in> set dfs_domains" "sp \<in> set (spec_riu fcc_radar_types @ spec_fcu fcc_radar_types)"
    by (simp_all add: sp dfs_domains_def fcc_radar_types_def fcc_radar_ref_types_riu_def)
  have bounds: "wtype sp \<noteq> RADAR_WAVEFORM_LONG" "unat (pri_min sp) \<le> 333" "333 \<le> unat (pri_max sp)"
    by (simp_all add: sp spec_macro_defs)
  have five: "5 = unat (seq_thresh sp (of_nat 333))"
    by (simp add: sp spec_macro_defs seq_thresh_def)
  define P where "P = \<lparr>pool_refs = 1, pulse_pool = 0, pseq_pool = [],
    kmallocs = replicate 10 (Some (burst_seq sp 0 0 0)), pulse_objs = 0, pseq_objs = 0\<rparr>"
  have mem': "mem_avail (2 * 5) P"
    by (simp add: P_def mem_avail_def)
  have t0: "unat (1000 :: u64) < 2 ^ 62"
    by simp
  from periodic_burst_detected [OF mem bounds t0 five mem', of 5500]
  show ?thesis
    unfolding Let_def sp_def [symmetric] P_def [symmetric] by simp
qed

section \<open>A detection is backed by pulses\<close>

text \<open>Two time stamps whose distance is a multiple of the period up to a tolerance.\<close>

definition near :: "nat \<Rightarrow> nat \<Rightarrow> u64 \<Rightarrow> u64 \<Rightarrow> bool" where
  "near p tol a b \<longleftrightarrow> (\<exists>k\<ge>0. \<bar>int (unat b) - int (unat a) - k * int p\<bar> \<le> int tol)"

text \<open>A sequence is backed when that many of the received pulses lie on a grid of its period.\<close>

definition backed :: "radar_detector_specs \<Rightarrow> u64 list \<Rightarrow> pri_sequence \<Rightarrow> bool" where
  "backed sp H s \<longleftrightarrow>
     unat (pri_min sp) \<le> unat (pri s) \<and> unat (pri s) \<le> unat (pri_max sp) \<and>
     ps_ppb_thresh s = seq_thresh sp (pri s) \<and>
     (\<exists>c. subseq c H \<and> length c = unat (ps_count s) \<and> c \<noteq> [] \<and> last c = ps_last_ts s \<and>
          successively (near (unat (pri s)) (2 * unat (max_pri_tolerance sp))) c)"

text \<open>The time stamps increase and span less than \<open>2^32\<close> microseconds.\<close>

definition train :: "u64 list \<Rightarrow> bool" where
  "train H \<longleftrightarrow> sorted_wrt (<) H \<and> (\<forall>a\<in>set H. \<forall>b\<in>set H. unat b < unat a + 2 ^ 32) \<and> length H < 2 ^ 32"

lemma near_of_multiple:
  assumes "0 < pde_get_multiple (ucast (b - a)) p tol" and "a < b" and "unat b < unat a + 2 ^ 32"
  shows "\<exists>k>0. \<bar>int (unat b) - int (unat a) - k * int (unat p)\<bar> \<le> int (unat tol)"
proof -
  have p: "p \<noteq> 0"
    using assms(1) by (auto simp: pde_get_multiple_def)
  have diff: "unat (b - a) = unat b - unat a"
    using assms(2) by (simp add: unat_sub word_le_nat_alt word_less_nat_alt)
  then have "unat (ucast (b - a) :: u32) = unat b - unat a"
    using assms(3) by (simp add: unsigned_ucast_eq take_bit_nat_eq_self)
  moreover have "int (unat b - unat a) = int (unat b) - int (unat a)"
    using assms(2) by (simp add: of_nat_diff word_less_nat_alt less_imp_le)
  ultimately have u: "uint (ucast (b - a) :: u32) = int (unat b) - int (unat a)"
    by (metis uint_nat)
  have "\<bar>uint (ucast (b - a) :: u32) - uint (pde_get_multiple (ucast (b - a)) p tol) * uint p\<bar> \<le> uint tol"
    using get_multiple_correct [OF p, of "ucast (b - a)" tol] assms(1) by blast
  moreover have "0 < uint (pde_get_multiple (ucast (b - a)) p tol)"
    using assms(1) by (simp add: word_less_def)
  ultimately show ?thesis
    by (intro exI [of _ "uint (pde_get_multiple (ucast (b - a)) p tol)"]) (simp add: u)
qed

text \<open>Two pulses that are both on the grid of a third one.\<close>

lemma near_common:
  assumes "\<bar>int (unat c) - int (unat a) - k * int p\<bar> \<le> int tol"
    and "\<bar>int (unat c) - int (unat b) - l * int p\<bar> \<le> int tol" and "a < b"
  shows "near p (2 * tol) a b"
proof (cases "l \<le> k")
  case True
  have "\<bar>int (unat b) - int (unat a) - (k - l) * int p\<bar> \<le> int (2 * tol)"
    using assms(1,2) by (simp add: left_diff_distrib)
  then show ?thesis
    using True unfolding near_def by (intro exI [of _ "k - l"]) simp
next
  case False
  then have "0 \<le> (l - k) * int p"
    by simp
  moreover have "int (unat a) < int (unat b)"
    using assms(3) by (simp add: word_less_def)
  ultimately have "\<bar>int (unat b) - int (unat a) - 0 * int p\<bar> \<le> int (2 * tol)"
    using assms(1,2) by (simp add: left_diff_distrib)
  then show ?thesis
    unfolding near_def by (intro exI [of _ 0]) simp
qed


lemma match_past_chain:
  "unat (ps_count ps) + length older < 2 ^ 32 \<Longrightarrow>
   \<exists>c. subseq c (rev older) \<and>
     ps_last_ts (match_past sp m older ps f) = ps_last_ts ps \<and>
     pri (match_past sp m older ps f) = pri ps \<and>
     unat (ps_count (match_past sp m older ps f)) = unat (ps_count ps) + length c \<and>
     (\<forall>t\<in>set c. 0 < pde_get_multiple (ucast (ps_last_ts ps - t)) (pri ps) (ucast (max_pri_tolerance sp)))"
proof (induction older arbitrary: ps f)
  case Nil
  then show ?case
    by (intro exI [of _ "[]"]) simp
next
  case (Cons t older)
  define g where "g = pde_get_multiple (ucast (ps_last_ts ps - t)) (pri ps) (ucast (max_pri_tolerance sp))"
  define ps1 where "ps1 = ps\<lparr>ps_count := ps_count ps + 1, first_ts := t, count_falses := count_falses ps + f\<rparr>"
  consider (old) "t < m" | (hit) "\<not> t < m" "0 < g" | (miss) "\<not> t < m" "\<not> 0 < g"
    by blast
  then show ?case
  proof cases
    case old
    then show ?thesis
      by (intro exI [of _ "[]"]) simp
  next
    case hit
    have inc: "unat (ps_count ps1) = Suc (unat (ps_count ps))"
      using Cons.prems by (simp add: ps1_def unat_word_ariths)
    have eq: "match_past sp m (t # older) ps f = match_past sp m older ps1 0"
      using hit by (simp add: Let_def g_def ps1_def)
    obtain c where c: "subseq c (rev older)" "ps_last_ts (match_past sp m older ps1 0) = ps_last_ts ps1"
        "pri (match_past sp m older ps1 0) = pri ps1"
        "unat (ps_count (match_past sp m older ps1 0)) = unat (ps_count ps1) + length c"
        "\<forall>t\<in>set c. 0 < pde_get_multiple (ucast (ps_last_ts ps1 - t)) (pri ps1) (ucast (max_pri_tolerance sp))"
      using Cons.IH [of ps1 0] Cons.prems inc by auto
    show ?thesis
      using c inc hit(2) unfolding eq
      by (intro exI [of _ "c @ [t]"]) (simp add: ps1_def g_def)
  next
    case miss
    then have "match_past sp m (t # older) ps f = match_past sp m older ps (f + 1)"
      by (simp add: Let_def g_def)
    then show ?thesis
      using Cons.IH [of ps "f + 1"] Cons.prems by (auto intro: subseq_rev_drop_many)
  qed
qed

lemma train_append1: "train (H @ [t]) \<Longrightarrow> train H"
  by (auto simp: train_def sorted_wrt_append)

lemma train_last:
  "train (H @ [t]) \<Longrightarrow> a \<in> set H \<Longrightarrow> a < t \<and> unat t < unat a + 2 ^ 32"
  by (auto simp: train_def sorted_wrt_append)

lemma successively_near:
  assumes "sorted_wrt (<) c" and "\<forall>a\<in>set c. \<exists>k. \<bar>int (unat b) - int (unat a) - k * int p\<bar> \<le> int tol"
  shows "successively (near p (2 * tol)) c"
  using assms
proof (induction c)
  case (Cons x c)
  then show ?case
  proof (cases c)
    case (Cons y d)
    obtain k l where "\<bar>int (unat b) - int (unat x) - k * int p\<bar> \<le> int tol"
        "\<bar>int (unat b) - int (unat y) - l * int p\<bar> \<le> int tol"
      using Cons.prems(2) Cons by auto
    moreover have "x < y"
      using Cons.prems(1) Cons by simp
    ultimately have "near p (2 * tol) x y"
      by (rule near_common)
    then show ?thesis
      using Cons.IH Cons.prems Cons by simp
  qed simp
qed simp

lemma sorted_wrt_subseq: "subseq c H \<Longrightarrow> sorted_wrt R H \<Longrightarrow> sorted_wrt R c"
  by (induction rule: list_emb.induct) (auto dest: list_emb_set)

text \<open>A new sequence is backed by the queued pulses and the new one.\<close>

lemma new_seq_backed:
  assumes tr: "train (H @ [ts])" and sub: "subseq (rev older @ [t]) H"
    and lim: "\<not> ucast (ts - t) < (ucast (pri_min sp) :: u32)" "\<not> (ucast (pri_max sp) :: u32) < ucast (ts - t)"
  shows "backed sp (H @ [ts]) (new_seq sp ts i t older)"
proof -
  obtain ps0 m where n: "new_seq sp ts i t older =
      (let ps = match_past sp m older ps0 0
       in ps\<lparr>deadline_ts := first_ts ps + ucast (dur ps), ps_ppb_thresh := seq_thresh sp (pri ps)\<rparr>)"
    and ps0: "ps_count ps0 = 2" "pri ps0 = ucast (ts - t)" "ps_last_ts ps0 = ts"
    by (rule new_seq_unfold)
  have "length (rev older @ [t]) \<le> length H"
    using sub by (rule list_emb_length)
  then have len: "length older + 1 \<le> length H" "length H < 2 ^ 32 - 1"
    using tr by (auto simp: train_def)
  then obtain c where c: "subseq c (rev older)" "ps_last_ts (match_past sp m older ps0 0) = ts"
      "pri (match_past sp m older ps0 0) = ucast (ts - t)"
      "unat (ps_count (match_past sp m older ps0 0)) = 2 + length c"
      "\<forall>a\<in>set c. 0 < pde_get_multiple (ucast (ts - a)) (ucast (ts - t)) (ucast (max_pri_tolerance sp))"
    using match_past_chain [of ps0 older sp m 0] by (auto simp: ps0)
  define tol where "tol = unat (max_pri_tolerance sp)"
  define p where "p = unat (ucast (ts - t) :: u32)"
  have ch: "subseq (c @ [t]) H"
    using c(1) sub by (meson subseq_append subseq_order.trans)
  then have inH: "set (c @ [t]) \<subseteq> set H"
    by (auto dest: list_emb_set)
  have grid: "\<exists>k. \<bar>int (unat ts) - int (unat a) - k * int p\<bar> \<le> int tol" if mem: "a \<in> set (c @ [t, ts])" for a
  proof -
    consider "a \<in> set c" | "a = t" | "a = ts"
      using mem by auto
    then show ?thesis
    proof cases
      case 1
      then show ?thesis
        using near_of_multiple [of ts a "ucast (ts - t)" "ucast (max_pri_tolerance sp)"] c(5)
          train_last [OF tr, of a] inH by (auto simp: p_def tol_def unat_ucast_up)
    next
      case 2
      have "a < ts" "unat ts < unat a + 2 ^ 32"
        using 2 train_last [OF tr, of a] inH by auto
      then have "int p = int (unat ts) - int (unat a)"
        using 2 by (simp add: p_def unsigned_ucast_eq take_bit_nat_eq_self unat_sub word_le_nat_alt word_less_nat_alt)
      then show ?thesis
        by (intro exI [of _ 1]) simp
    next
      case 3
      then show ?thesis
        by (intro exI [of _ 0]) simp
    qed
  qed
  have all: "subseq (c @ [t, ts]) (H @ [ts])"
    using ch by (metis append.assoc append_Cons append_Nil list_emb_append_mono subseq_order.refl)
  then have "sorted_wrt (<) (c @ [t, ts])"
    using tr by (auto simp: train_def intro: sorted_wrt_subseq)
  then have "successively (near p (2 * tol)) (c @ [t, ts])"
    using grid by (intro successively_near) auto
  then show ?thesis
    using all c lim unfolding backed_def n Let_def
    by (auto simp: p_def tol_def word_less_nat_alt unat_ucast_up intro!: exI [of _ "c @ [t, ts]"])
qed


lemma backed_mono: "backed sp H s \<Longrightarrow> subseq H H' \<Longrightarrow> backed sp H' s"
  unfolding backed_def by (blast intro: subseq_order.trans)

lemma backed_falses [simp]: "backed sp H (s\<lparr>count_falses := n\<rparr>) \<longleftrightarrow> backed sp H s"
  by (simp add: backed_def)

lemma create_loop_backed:
  "create_loop sp ts mn i older seqs P = (ok, seqs', P') \<Longrightarrow> train (H @ [ts]) \<Longrightarrow> subseq (rev older) H \<Longrightarrow>
   \<forall>s\<in>set seqs. backed sp (H @ [ts]) s \<Longrightarrow> \<forall>s\<in>set seqs'. backed sp (H @ [ts]) s"
proof (induction older arbitrary: i seqs P)
  case (Cons t older)
  define d where "d = (ucast (ts - t) :: u32)"
  define n where "n = new_seq sp ts (i + 1) t older"
  note loop = Cons.prems(1) [simplified, folded d_def n_def, unfolded Let_def, folded d_def n_def]
  have sub: "subseq (rev older) H"
    using Cons.prems(3) by (auto intro: subseq_order.trans [OF subseq_rev_drop_many])
  consider (small) "d < ucast (pri_min sp)" | (large) "\<not> d < ucast (pri_min sp)" "ucast (pri_max sp) < d"
    | (low) "\<not> d < ucast (pri_min sp)" "\<not> ucast (pri_max sp) < d" "ps_count n \<le> mn"
    | (new) "\<not> d < ucast (pri_min sp)" "\<not> ucast (pri_max sp) < d" "\<not> ps_count n \<le> mn"
    by blast
  then show ?case
  proof cases
    case small
    then show ?thesis
      using loop Cons.IH [OF _ Cons.prems(2) sub Cons.prems(4)] by simp
  next
    case large
    then show ?thesis
      using loop Cons.prems(4) by simp
  next
    case low
    then show ?thesis
      using loop Cons.IH [OF _ Cons.prems(2) sub Cons.prems(4)] by simp
  next
    case new
    have b: "backed sp (H @ [ts]) n"
      unfolding n_def using Cons.prems(2,3) new(1,2) by (intro new_seq_backed) (simp_all add: d_def)
    obtain r Q where g: "pool_get_pseq_elem P = (r, Q)"
      by (cases "pool_get_pseq_elem P")
    show ?thesis
    proof (cases r)
      case None
      then show ?thesis
        using loop new g Cons.prems(4) by simp
    next
      case (Some junk)
      then have "create_loop sp ts mn (i + 1) older (n # seqs) Q = (ok, seqs', P')"
        using loop new g by simp
      from Cons.IH [OF this Cons.prems(2) sub] show ?thesis
        using b Cons.prems(4) by simp
    qed
  qed
qed simp

lemma extended_backed:
  assumes b: "backed sp H s" and tr: "train (H @ [ts])"
    and hit: "0 < pde_get_multiple (ucast (ts - ps_last_ts s)) (pri s) (ucast (max_pri_tolerance sp))"
  shows "backed sp (H @ [ts]) (s\<lparr>ps_last_ts := ts, ps_count := ps_count s + 1\<rparr>)"
proof -
  obtain c where c: "subseq c H" "length c = unat (ps_count s)" "c \<noteq> []" "last c = ps_last_ts s"
      "successively (near (unat (pri s)) (2 * unat (max_pri_tolerance sp))) c"
    using b by (auto simp: backed_def)
  have len: "length c < 2 ^ 32 - 1"
    using list_emb_length [OF c(1)] tr by (simp add: train_def)
  then have inc: "unat (ps_count s + 1) = Suc (length c)"
    using c(2) by (simp add: unat_word_ariths)
  have "last c \<in> set H"
    using c(1,3) by (auto dest: list_emb_set [of _ _ _ "last c"])
  then have "ps_last_ts s < ts" "unat ts < unat (ps_last_ts s) + 2 ^ 32"
    using train_last [OF tr, of "last c"] c(4) by simp_all
  from near_of_multiple [OF hit this] obtain k where "0 < k"
      "\<bar>int (unat ts) - int (unat (ps_last_ts s)) - k * int (unat (pri s))\<bar>
         \<le> int (unat (ucast (max_pri_tolerance sp) :: u32))"
    by blast
  then have "near (unat (pri s)) (2 * unat (max_pri_tolerance sp)) (last c) ts"
    unfolding near_def by (intro exI [of _ k]) (simp add: c(4) unat_ucast_up)
  then have "successively (near (unat (pri s)) (2 * unat (max_pri_tolerance sp))) (c @ [ts])"
    using c(3,5) by (simp add: successively_append_iff)
  then show ?thesis
    using b c inc by (auto simp: backed_def intro!: exI [of _ "c @ [ts]"])
qed

lemma existing_loop_backed:
  "existing_loop sp ts seqs mx P = (mx', seqs', P') \<Longrightarrow> train (H @ [ts]) \<Longrightarrow>
   \<forall>s\<in>set seqs. backed sp H s \<Longrightarrow> \<forall>s\<in>set seqs'. backed sp (H @ [ts]) s"
proof (induction seqs arbitrary: mx P mx' seqs' P')
  case (Cons s seqs)
  show ?case
  proof (cases "deadline_ts s < ts")
    case True
    then show ?thesis
      using Cons by simp
  next
    case False
    define hit where "hit \<longleftrightarrow> 0 < pde_get_multiple (ucast (ts - ps_last_ts s)) (pri s) (ucast (max_pri_tolerance sp))"
    obtain s' m where s': "s' = (if hit then s\<lparr>ps_last_ts := ts, ps_count := ps_count s + 1\<rparr>
        else s\<lparr>count_falses := count_falses s + 1\<rparr>)" and
      "\<exists>rest. existing_loop sp ts seqs m P = (mx', rest, P') \<and> seqs' = s' # rest"
      using Cons.prems(1) False by (cases hit) (auto simp: Let_def hit_def split: prod.splits)
    then obtain rest where rest: "existing_loop sp ts seqs m P = (mx', rest, P')" "seqs' = s' # rest"
      by blast
    have "backed sp (H @ [ts]) s'"
      using extended_backed [OF _ Cons.prems(2), of sp s] Cons.prems(3)
      by (auto simp: s' hit_def intro: backed_mono)
    then show ?thesis
      using Cons.IH [OF rest(1) Cons.prems(2)] Cons.prems(3) rest(2) by simp
  qed
qed simp


definition backed_pde :: "radar_detector_specs \<Rightarrow> u64 list \<Rightarrow> pri_detector \<Rightarrow> bool" where
  "backed_pde sp H pde \<longleftrightarrow> rs pde = sp \<and> pde_wf pde \<and> subseq (rev (pulses pde)) H \<and>
     (\<forall>s\<in>set (sequences pde). backed sp H s)"

lemma enqueue_backed:
  assumes "pulse_queue_enqueue pde ts P = (ok, pde', P')"
    and "backed_pde sp H pde \<or> backed_pde sp (H @ [ts]) pde \<and> subseq (rev (pulses pde)) H"
  shows "backed_pde sp (H @ [ts]) pde'"
proof -
  have wf: "pde_wf pde" and sub: "subseq (rev (pulses pde)) H" and rs: "rs pde = sp"
    and b: "\<forall>s\<in>set (sequences pde). backed sp (H @ [ts]) s"
    using assms(2) by (auto simp: backed_pde_def intro: backed_mono)
  note e = pde_enqueue_spec [OF assms(1) wf]
  have "subseq (rev (pulses pde')) (H @ [ts])"
  proof (cases ok)
    case True
    then obtain old where old: "ts # pulses pde = pulses pde' @ old"
      using e by auto
    then have eq: "rev (pulses pde) @ [ts] = rev old @ rev (pulses pde')"
      by (metis rev.simps(2) rev_append)
    have "subseq (rev (pulses pde')) (rev (pulses pde) @ [ts])"
      unfolding eq by (rule list_emb_append2) simp
    also have "subseq (rev (pulses pde) @ [ts]) (H @ [ts])"
      using sub by simp
    finally show ?thesis .
  next
    case False
    then show ?thesis
      using e sub by (auto intro: subseq_rev_drop_many)
  qed
  then show ?thesis
    using e rs b keeps_consts by (auto simp: backed_pde_def)
qed

lemma short_add_backed:
  assumes "pde_short_add_pulse pde ts P = (r, pde', P')" and tr: "train (H @ [ts])"
    and b: "backed_pde sp H pde"
  shows "backed_pde sp (H @ [ts]) pde' \<and> (\<forall>ps. r = Some ps \<longrightarrow> backed sp (H @ [ts]) ps \<and> complete_seq sp ps)"
proof -
  have wf: "pde_wf pde" and sub: "subseq (rev (pulses pde)) H" and rs: "rs pde = sp"
    and bs: "\<forall>s\<in>set (sequences pde). backed sp H s"
    using b by (auto simp: backed_pde_def)
  have upd: "backed_pde sp (H @ [ts]) q' \<and> subseq (rev (pulses q')) H"
    if a: "pde_short_add_to_existing_seqs pde ts P = (mx, q, Q)"
      and c: "pde_short_create_sequences q ts mx Q = (ok, q', Q')" for mx q Q ok q' Q'
  proof -
    note sa = add_existing_spec [OF a] and sc = create_spec [OF c]
    have rq: "rs q = sp" "rs q' = sp"
      using keeps_consts [of pde P q Q] keeps_consts [of q Q q' Q'] sa sc rs by simp_all
    have "\<forall>s\<in>set (sequences q). backed sp (H @ [ts]) s"
      using existing_loop_backed [of sp ts "sequences pde" 0 P mx "sequences q" Q H] sa rs tr bs by simp
    then have "\<forall>s\<in>set (sequences q'). backed sp (H @ [ts]) s"
      using create_loop_backed [of sp ts mx 0 "pulses q" "sequences q" Q ok "sequences q'" Q' H] sa sc rq sub tr
      by simp
    then show ?thesis
      using sa sc wf sub rq by (auto simp: backed_pde_def intro: subseq_rev_drop_many)
  qed
  show ?thesis
    using assms(1)
  proof (cases rule: short_add_cases)
    case (first ok)
    then show ?thesis
      using enqueue_backed b by blast
  next
    case close
    then show ?thesis
      using b by (auto simp: backed_pde_def intro: backed_mono subseq_rev_drop_many)
  next
    case (nomem mx q Q q' Q')
    note r = reset_spec [OF nomem(5)] and u = upd [OF nomem(3,4)]
    have "rs pde' = sp" "pde_wf pde'"
      using r u reset_wf [OF nomem(5)] keeps_consts by (auto simp: backed_pde_def)
    then show ?thesis
      using r nomem(6) by (simp add: backed_pde_def)
  next
    case (queued mx q Q q' Q' ok)
    then show ?thesis
      using upd [OF queued(3,4)] enqueue_backed [OF queued(6)] by blast
  next
    case (detected mx q Q ps)
    have "ps \<in> set (sequences pde')" "complete_seq (rs pde') ps"
      using short_add_complete assms(1) detected(6) by blast+
    then show ?thesis
      using upd [OF detected(3,4)] detected(6) by (auto simp: backed_pde_def)
  qed
qed

lemma train_prefix: "train (H @ K) \<Longrightarrow> train H"
  by (auto simp: train_def sorted_wrt_append)

lemma feed_backed:
  "feed K pde P = (Some ps, q, Q) \<Longrightarrow> train (H @ K) \<Longrightarrow> backed_pde sp H pde \<Longrightarrow>
   backed sp (H @ K) ps \<and> complete_seq sp ps"
proof (induction K arbitrary: H pde P)
  case (Cons t K)
  obtain r pde' P' where s: "pde_short_add_pulse pde t P = (r, pde', P')"
    by (metis prod_cases3)
  have tr: "train (H @ [t])"
    using Cons.prems(2) train_prefix [of "H @ [t]" K] by simp
  note b = short_add_backed [OF s tr Cons.prems(3)]
  show ?case
  proof (cases r)
    case None
    then have "feed K pde' P' = (Some ps, q, Q)"
      using Cons.prems(1) s by simp
    from Cons.IH [OF this, of "H @ [t]"] b Cons.prems(2) show ?thesis
      by simp
  next
    case (Some ps')
    then have "ps' = ps"
      using Cons.prems(1) s by simp
    then have "backed sp (H @ [t]) ps" "complete_seq sp ps"
      using b Some by blast+
    then show ?thesis
      using backed_mono [of sp "H @ [t]" ps "H @ t # K"] subseq_rev_drop_many [of "H @ [t]" "H @ [t]" K] by simp
  qed
qed simp

lemma fresh_backed:
  assumes "entry_ok sp" and "wtype sp \<noteq> RADAR_WAVEFORM_LONG"
  shows "backed_pde sp [] (fresh_pde sp f)"
proof -
  have "0 < ppb sp"
    using assms(1) by (auto simp: entry_ok_def word_le_nat_alt word_less_nat_alt)
  then have "0 < unat (ucast (ppb sp) * 2 :: u32)"
    by (simp add: unat_max_count word_less_nat_alt)
  then show ?thesis
    using assms(2)
    by (simp add: backed_pde_def fresh_pde_def ops_init_def pde_short_init_def pde_wf_def word_less_nat_alt)
qed

text \<open>Property C38. No radar is reported out of nothing: when a detector for short, weather or
  interleaved waveforms reports a sequence, at least as many of the received pulses as the
  threshold asks for lie on a grid of the reported period (up to twice the tolerance), and
  the period is inside of the limits of the table entry.\<close>

theorem detection_is_backed:
  assumes "rt \<in> set dfs_domains" and "sp \<in> set (spec_riu rt @ spec_fcu rt)"
    and "wtype sp \<noteq> RADAR_WAVEFORM_LONG" and "train H"
    and "feed H (fresh_pde sp f) P = (Some ps, q, Q)"
  shows "unat (pri_min sp) \<le> unat (pri ps) \<and> unat (pri ps) \<le> unat (pri_max sp) \<and>
    (\<exists>c. subseq c H \<and> unat (seq_thresh sp (pri ps)) \<le> length c \<and>
         successively (near (unat (pri ps)) (2 * unat (max_pri_tolerance sp))) c)"
proof -
  have "backed sp H ps" "complete_seq sp ps"
    using feed_backed [of H "fresh_pde sp f" P ps q Q "[]" sp] fresh_backed [OF tables_ok [OF assms(1,2)] assms(3)]
      assms(4,5) by simp_all
  then show ?thesis
    by (auto simp: backed_def complete_seq_def word_le_nat_alt unat_ucast_up)
qed

theorem detection_is_backed_witness:
  "let sp = FCC_PATTERN 6 0 8 333 333 1 9 RADAR_WAVEFORM_SHORT; H = [1000, 1333, 1666, 1999, 2332];
       seq0 = burst_seq sp 0 0 0;
       P = \<lparr>pool_refs = 1, pulse_pool = 5, pseq_pool = replicate 5 seq0, kmallocs = [],
            pulse_objs = 5, pseq_objs = 5\<rparr>
   in \<exists>ps q Q. feed H (fresh_pde sp 5500) P = (Some ps, q, Q) \<and>
        unat (pri_min sp) \<le> unat (pri ps) \<and> unat (pri ps) \<le> unat (pri_max sp) \<and>
        (\<exists>c. subseq c H \<and> unat (seq_thresh sp (pri ps)) \<le> length c \<and>
             successively (near (unat (pri ps)) (2 * unat (max_pri_tolerance sp))) c)"
proof -
  define sp where "sp = FCC_PATTERN 6 0 8 333 333 1 9 RADAR_WAVEFORM_SHORT"
  define H :: "u64 list" where "H = [1000, 1333, 1666, 1999, 2332]"
  define P where "P = \<lparr>pool_refs = 1, pulse_pool = 5, pseq_pool = replicate 5 (burst_seq sp 0 0 0),
      kmallocs = [], pulse_objs = 5, pseq_objs = 5\<rparr>"
  have mem: "fcc_radar_types \<in> set dfs_domains" "sp \<in> set (spec_riu fcc_radar_types @ spec_fcu fcc_radar_types)"
    by (simp_all add: sp_def dfs_domains_def fcc_radar_types_def fcc_radar_ref_types_riu_def)
  have ty: "wtype sp \<noteq> RADAR_WAVEFORM_LONG"
    by (simp add: sp_def spec_macro_defs)
  have "train H"
    by (simp add: train_def H_def)
  moreover have "fst (feed H (fresh_pde sp 5500) P) \<noteq> None"
    unfolding sp_def H_def P_def by code_simp
  then obtain ps q Q where f: "feed H (fresh_pde sp 5500) P = (Some ps, q, Q)"
    by (cases "feed H (fresh_pde sp 5500) P") auto
  ultimately show ?thesis
    using detection_is_backed [OF mem ty _ f] f
    unfolding Let_def sp_def [symmetric] H_def [symmetric] P_def [symmetric] by blast
qed

end
