(* ===== verification/Radar.thy ===== *)
theory Radar
  imports Radar_Burst Ipc_Host
begin

text \<open>
  The DFS pattern detector and the driver interface of the radar detection
  (aml_drv/aml_radar.c, aml_radar.h), the indication of pulses by the firmware
  (\<open>aml_radarind\<close> of aml_utils.c, \<open>ipc_host_radar_handler\<close> of ipc_host.c) and the channel
  contexts it depends on (fullmac/aml_main.c).

  The spinlock \<open>radar->lock\<close> is a flag: taking it twice on one CPU is a deadlock, the
  outcome \<open>None\<close>. Events for cfg80211 and requests to the firmware are appended to
  \<open>outputs\<close>. The kernel's clock functions are arguments.
\<close>

unbundle bit_operations_syntax

section \<open>The DFS pattern detector\<close>

record dfs_pattern_detector =
  enabled :: u8
  region :: nl80211_dfs_regions
  num_radar_types :: u8
  last_pulse_ts :: u64
  prev_jiffies :: u32
  radar_spec :: "radar_detector_specs list"
  detectors :: "pri_detector list list"

text \<open>An operation applied to every element of a list, the pools threaded through.\<close>

fun each :: "('a \<Rightarrow> 's \<Rightarrow> 'a \<times> 's) \<Rightarrow> 'a list \<Rightarrow> 's \<Rightarrow> 'a list \<times> 's" where
  "each g [] P = ([], P)"
| "each g (x # xs) P = (let (x, P) = g x P; (xs, P) = each g xs P in (x # xs, P))"

definition pri_detector_init ::
  "dfs_pattern_detector \<Rightarrow> nat \<Rightarrow> u16 \<Rightarrow> pools \<Rightarrow> nat option \<times> dfs_pattern_detector \<times> pools" where
  "pri_detector_init dpd radar_type f P =
     (case kmalloc P of
        (None, P) \<Rightarrow> (None, dpd, P)
      | (Some _, P) \<Rightarrow>
          let pde = fresh_pde (radar_spec dpd ! radar_type) f
          in (Some 0,
              dpd\<lparr>detectors := (detectors dpd)[radar_type := pde # detectors dpd ! radar_type]\<rparr>,
              pool_register_ref P))"

definition pri_detector_exit :: "pri_detector \<Rightarrow> pools \<Rightarrow> pools" where
  "pri_detector_exit pde P = (case pri_detector_reset pde 0 P of (_, P) \<Rightarrow> pool_deregister_ref P)"

text \<open>The search of \<open>pri_detector_get\<close>; the position of the detector in its list.\<close>

fun get_scan :: "u16 \<Rightarrow> nat \<Rightarrow> nat option \<Rightarrow> pri_detector list \<Rightarrow> nat option" where
  "get_scan f n cur [] = cur"
| "get_scan f n cur (pde # ds) =
     (if freq pde = f
      then if pcount pde \<noteq> 0 then Some n else get_scan f (Suc n) (Some n) ds
      else if uint (freq pde) - 2 = uint f \<and> pcount pde \<noteq> 0 then Some n
      else if uint (freq pde) + 2 = uint f \<and> pcount pde \<noteq> 0 then Some n
      else get_scan f (Suc n) cur ds)"

definition pri_detector_get ::
  "dfs_pattern_detector \<Rightarrow> u16 \<Rightarrow> nat \<Rightarrow> pools \<Rightarrow> nat option \<times> dfs_pattern_detector \<times> pools" where
  "pri_detector_get dpd f radar_type P =
     (case get_scan f 0 None (detectors dpd ! radar_type) of
        Some k \<Rightarrow> (Some k, dpd, P)
      | None \<Rightarrow> pri_detector_init dpd radar_type f P)"

text \<open>The first \<open>num_radar_types\<close> lists are visited.\<close>

definition each_detector ::
  "(pri_detector \<Rightarrow> pools \<Rightarrow> pri_detector \<times> pools) \<Rightarrow> dfs_pattern_detector \<Rightarrow> pools
   \<Rightarrow> dfs_pattern_detector \<times> pools" where
  "each_detector g dpd P =
     (let n = unat (num_radar_types dpd);
          (ds, P) = each (each g) (take n (detectors dpd)) P
      in (dpd\<lparr>detectors := ds @ drop n (detectors dpd)\<rparr>, P))"

definition dfs_pattern_detector_reset ::
  "u32 \<Rightarrow> dfs_pattern_detector \<Rightarrow> pools \<Rightarrow> dfs_pattern_detector \<times> pools" where
  "dfs_pattern_detector_reset jiffies dpd P =
     (case each_detector (\<lambda>pde. pri_detector_reset pde (last_pulse_ts dpd)) dpd P of
        (dpd, P) \<Rightarrow> (dpd\<lparr>last_pulse_ts := 0, prev_jiffies := jiffies\<rparr>, P))"

text \<open>The loops that delete every detector, of \<open>dfs_pattern_detector_exit\<close> and of
  \<open>dfs_pattern_detector_set_domain\<close>.\<close>

definition exit_detectors :: "dfs_pattern_detector \<Rightarrow> pools \<Rightarrow> dfs_pattern_detector \<times> pools" where
  "exit_detectors dpd P =
     (let n = unat (num_radar_types dpd)
      in (dpd\<lparr>detectors := map (\<lambda>_. []) (take n (detectors dpd)) @ drop n (detectors dpd)\<rparr>,
          fold (fold pri_detector_exit) (take n (detectors dpd)) P))"

definition dfs_pattern_detector_exit :: "dfs_pattern_detector \<Rightarrow> pools \<Rightarrow> pools" where
  "dfs_pattern_detector_exit dpd P = snd (exit_detectors dpd P)"

definition dfs_pattern_detector_pri_overflow ::
  "dfs_pattern_detector \<Rightarrow> pools \<Rightarrow> dfs_pattern_detector \<times> pools" where
  "dfs_pattern_detector_pri_overflow dpd =
     each_detector (\<lambda>pde P. if reset_on_pri_overflow pde
                             then pri_detector_reset pde (last_pulse_ts dpd) P else (pde, P)) dpd"

text \<open>The body of the loop over the radar types; the result says whether a radar is complete.\<close>

definition type_step ::
  "u16 \<Rightarrow> u16 \<Rightarrow> nat \<Rightarrow> dfs_pattern_detector \<Rightarrow> pools \<Rightarrow> bool \<times> dfs_pattern_detector \<times> pools" where
  "type_step f len i dpd P =
     (if len < ucast (width_min (radar_spec dpd ! i)) \<or> ucast (width_max (radar_spec dpd ! i)) < len
      then (False, dpd, P)
      else
        (case pri_detector_get dpd f i P of
           (None, dpd, P) \<Rightarrow> (False, dpd, P)
         | (Some k, dpd, P) \<Rightarrow>
             let ds = detectors dpd ! i;
                 (ps, pde, P) = ops_add_pulse (ds ! k) (last_pulse_ts dpd) P
             in (ps \<noteq> None, dpd\<lparr>detectors := (detectors dpd)[i := ds[k := pde]]\<rparr>, P)))"

fun type_loop ::
  "u32 \<Rightarrow> u16 \<Rightarrow> u16 \<Rightarrow> nat list \<Rightarrow> dfs_pattern_detector \<Rightarrow> pools \<Rightarrow> bool \<times> dfs_pattern_detector \<times> pools" where
  "type_loop jiffies f len [] dpd P = (False, dpd, P)"
| "type_loop jiffies f len (i # is) dpd P =
     (case type_step f len i dpd P of
        (True, dpd, P) \<Rightarrow>
          (case dfs_pattern_detector_reset jiffies dpd P of (dpd, P) \<Rightarrow> (True, dpd, P))
      | (False, dpd, P) \<Rightarrow> type_loop jiffies f len is dpd P)"

text \<open>The time stamp of a pulse; \<open>pri = 0\<close> means that the counter of the hardware ran over.\<close>

definition pulse_time ::
  "(u32 \<Rightarrow> u32) \<Rightarrow> u16 \<Rightarrow> u32 \<Rightarrow> dfs_pattern_detector \<Rightarrow> pools \<Rightarrow> dfs_pattern_detector \<times> pools" where
  "pulse_time jiffies_to_usecs p now dpd P =
     (if p = 0
      then
        let delta_jiffie = (if now < prev_jiffies dpd then 0xffffffff - prev_jiffies dpd + now
                            else now - prev_jiffies dpd);
            dpd = dpd\<lparr>last_pulse_ts := last_pulse_ts dpd + ucast (jiffies_to_usecs delta_jiffie),
                      prev_jiffies := now\<rparr>
        in dfs_pattern_detector_pri_overflow dpd P
      else (dpd\<lparr>last_pulse_ts := last_pulse_ts dpd + ucast p\<rparr>, P))"

definition dfs_pattern_detector_add_pulse ::
  "(u32 \<Rightarrow> u32) \<Rightarrow> u32 \<Rightarrow> u16 \<Rightarrow> u16 \<Rightarrow> u16 \<Rightarrow> u32 \<Rightarrow> dfs_pattern_detector \<Rightarrow> pools
   \<Rightarrow> bool \<times> dfs_pattern_detector \<times> pools" where
  "dfs_pattern_detector_add_pulse jiffies_to_usecs jiffies f p len now dpd P =
     (if region dpd = NL80211_DFS_UNSET then (True, dpd, P)
      else
        (case pulse_time jiffies_to_usecs p now dpd P of
           (dpd, P) \<Rightarrow> type_loop jiffies f len [0..<unat (num_radar_types dpd)] dpd P))"

definition get_dfs_domain_radar_types :: "nl80211_dfs_regions \<Rightarrow> radar_types option" where
  "get_dfs_domain_radar_types r = List.find (\<lambda>rt. rt_region rt = r) dfs_domains"

definition get_dfs_max_radar_types :: u16 where
  "get_dfs_max_radar_types =
     fold (\<lambda>rt mx. if ucast mx < rt_num_radar_types rt then ucast (rt_num_radar_types rt) else mx)
       dfs_domains 0"

definition dfs_pattern_detector_set_domain ::
  "nl80211_dfs_regions \<Rightarrow> aml_radar_chain \<Rightarrow> dfs_pattern_detector \<Rightarrow> pools
   \<Rightarrow> bool \<times> dfs_pattern_detector \<times> pools" where
  "dfs_pattern_detector_set_domain r chain dpd P =
     (if region dpd = r then (True, dpd, P)
      else
        let dpd = dpd\<lparr>region := NL80211_DFS_UNSET\<rparr>
        in (case get_dfs_domain_radar_types r of
              None \<Rightarrow> (False, dpd, P)
            | Some rt \<Rightarrow>
                (case exit_detectors dpd P of
                   (dpd, P) \<Rightarrow>
                     (True,
                      dpd\<lparr>radar_spec := (if chain = AML_RADAR_RIU then spec_riu rt else spec_fcu rt),
                          num_radar_types := ucast (rt_num_radar_types rt), region := r\<rparr>, P))))"

text \<open>The pointer to the table is set by \<open>dfs_pattern_detector_set_domain\<close> only; until then
  \<open>num_radar_types\<close> is 0 and it is not read.\<close>

definition dfs_pattern_detector_init ::
  "u32 \<Rightarrow> nl80211_dfs_regions \<Rightarrow> aml_radar_chain \<Rightarrow> pools \<Rightarrow> dfs_pattern_detector option \<times> pools" where
  "dfs_pattern_detector_init jiffies r chain P =
     (case kmalloc P of
        (None, P) \<Rightarrow> (None, P)
      | (Some _, P) \<Rightarrow>
          (case dfs_pattern_detector_set_domain r chain
                  \<lparr>enabled = 0, region = NL80211_DFS_UNSET, num_radar_types = 0, last_pulse_ts = 0,
                   prev_jiffies = jiffies, radar_spec = [],
                   detectors = replicate (unat get_dfs_max_radar_types) []\<rparr> P of
             (True, dpd, P) \<Rightarrow> (Some dpd, P)
           | (False, dpd, P) \<Rightarrow> (None, P)))"


section \<open>Channels\<close>

definition NL80211_BAND_2GHZ :: u32 where "NL80211_BAND_2GHZ = 0"
definition NL80211_BAND_5GHZ :: u32 where "NL80211_BAND_5GHZ = 1"
definition AML_CH_NOT_SET :: u8 where "AML_CH_NOT_SET = 0xFF"
definition NX_CHAN_CTXT_CNT :: nat where "NX_CHAN_CTXT_CNT = 3"

definition aml_ieee80211_chan_to_freq :: "u32 \<Rightarrow> u32 \<Rightarrow> u32" where
  "aml_ieee80211_chan_to_freq ch bd =
     (if bd = NL80211_BAND_5GHZ
      then if 182 \<le> ch \<and> ch \<le> 196 then 4000 + ch * 5 else 5000 + ch * 5
      else if ch = 14 then 2484 else if ch < 14 then 2407 + ch * 5 else 0)"

definition aml_ieee80211_freq_to_chan :: "u32 \<Rightarrow> u32 \<Rightarrow> u8" where
  "aml_ieee80211_freq_to_chan fq bd =
     (if bd = NL80211_BAND_5GHZ
      then if 4910 \<le> fq \<and> fq \<le> 4980 then ucast ((fq - 4000) div 5) else ucast ((fq - 5000) div 5)
      else if fq = 2484 then 14 else if fq < 2484 then ucast ((fq - 2407) div 5) else 0)"

text \<open>\<open>struct ieee80211_channel\<close> and \<open>struct cfg80211_chan_def\<close>: the fields the code reads;
  \<open>radar\<close> is the flag \<open>IEEE80211_CHAN_RADAR\<close>.\<close>

record ieee80211_channel =
  band :: u32
  center_freq :: u32
  is_radar :: bool

record cfg80211_chan_def =
  chan :: "ieee80211_channel option"
  width :: u32
  center_freq1 :: u32
  center_freq2 :: u32

record aml_chanctx =
  chan_def :: cfg80211_chan_def
  ctx_count :: u8

record regdom_set_power_req =
  rp_vif_index :: u8
  rp_width :: u8
  rp_band :: u8
  rp_channel :: u8

section \<open>State of the driver\<close>

definition AML_RADAR_PULSE_MAX :: int where "AML_RADAR_PULSE_MAX = 32"
definition NX_NB_RADAR_DETECTED :: nat where "NX_NB_RADAR_DETECTED = 4"
definition RADAR_PULSE_MAX :: nat where "RADAR_PULSE_MAX = 4"
definition RADAR_EVENT_MAX :: int where "RADAR_EVENT_MAX = 10"
definition AML_RADAR_DETECT_DISABLE :: u8 where "AML_RADAR_DETECT_DISABLE = 0"
definition AML_RADAR_DETECT_ENABLE :: u8 where "AML_RADAR_DETECT_ENABLE = 1"
definition AML_RADAR_DETECT_REPORT :: u8 where "AML_RADAR_DETECT_REPORT = 2"

record aml_radar_pulses =
  pindex :: int
  pulse_cnt :: int
  buffer :: "u32 list"

record aml_radar_detected =
  dindex :: u16
  dcount :: u16
  dtime :: "int list"
  dfreq :: "u16 list"

record radar_pulse_array_desc =
  pulse :: "u32 list"
  desc_idx :: u32
  cnt :: u32

text \<open>\<open>cac_work\<close> says whether the delayed work is pending.\<close>

record aml_radar =
  rpulses :: "aml_radar_chain \<Rightarrow> aml_radar_pulses"
  dpds :: "aml_radar_chain \<Rightarrow> dfs_pattern_detector option"
  detected :: "aml_radar_chain \<Rightarrow> aml_radar_detected"
  detection_work :: bool
  rlock :: bool
  cac_work :: bool
  cac_vif :: "nat option"

datatype radar_output =
    Radar_event cfg80211_chan_def
  | Cac_finished nat cfg80211_chan_def
  | Cac_aborted nat cfg80211_chan_def
  | Stop_cac_req nat
  | Regdom_req regdom_set_power_req

text \<open>
  The fields of \<open>struct aml_hw\<close> these operations use; \<open>vif_ch_index\<close> is \<open>ch_index\<close> of each
  interface, \<open>radar_desc\<close> the pulse descriptor behind a buffer of the IPC ring.
\<close>

record radar_hw =
  radar_st :: aml_radar
  pool :: pools
  ipc :: ipc_host_env
  radar_desc :: "addr \<Rightarrow> (aml_ipc_buf \<times> radar_pulse_array_desc) option"
  g_pulses :: radar_pulse_array_desc
  radar_pulse_index :: int
  chanctx_table :: "aml_chanctx list"
  cur_chanctx :: u8
  sec_center1_freq :: u16
  vif_ch_index :: "u8 list"
  outputs :: "radar_output list"

abbreviation upd_radar :: "(aml_radar \<Rightarrow> aml_radar) \<Rightarrow> radar_hw \<Rightarrow> radar_hw" where
  "upd_radar g hw \<equiv> hw\<lparr>radar_st := g (radar_st hw)\<rparr>"

abbreviation emit :: "radar_output \<Rightarrow> radar_hw \<Rightarrow> radar_hw" where
  "emit o' hw \<equiv> hw\<lparr>outputs := outputs hw @ [o']\<rparr>"

definition nth_opt :: "'a list \<Rightarrow> nat \<Rightarrow> 'a option" where
  "nth_opt xs i = (if i < length xs then Some (xs ! i) else None)"

definition spin_lock :: "radar_hw \<Rightarrow> radar_hw option" where
  "spin_lock hw = (if rlock (radar_st hw) then None else Some (upd_radar (\<lambda>r. r\<lparr>rlock := True\<rparr>) hw))"

definition spin_unlock :: "radar_hw \<Rightarrow> radar_hw" where
  "spin_unlock hw = upd_radar (\<lambda>r. r\<lparr>rlock := False\<rparr>) hw"

text \<open>The chain an array index names.\<close>

definition chain_of :: "u32 \<Rightarrow> aml_radar_chain option" where
  "chain_of i = (if i = 0 then Some AML_RADAR_RIU else if i = 1 then Some AML_RADAR_FCU else None)"

section \<open>Enabling the detection\<close>

definition aml_radar_detection_enable :: "u8 \<Rightarrow> u32 \<Rightarrow> radar_hw \<Rightarrow> radar_hw option" where
  "aml_radar_detection_enable enable chain hw = do {
     hw \<leftarrow> spin_lock hw;
     hw \<leftarrow> (case chain_of chain of
              None \<Rightarrow> Some hw
            | Some c \<Rightarrow> do {
                d \<leftarrow> dpds (radar_st hw) c;
                Some (upd_radar (\<lambda>r. r\<lparr>dpds := (dpds r)(c := Some (d\<lparr>enabled := enable\<rparr>))\<rparr>) hw)
              });
     Some (spin_unlock hw)
   }"

text \<open>Here the chain is not checked: an index beyond the array is undefined.\<close>

definition aml_radar_detection_is_enable :: "u32 \<Rightarrow> radar_hw \<Rightarrow> (bool \<times> radar_hw) option" where
  "aml_radar_detection_is_enable chain hw = do {
     hw \<leftarrow> spin_lock hw;
     c \<leftarrow> chain_of chain;
     d \<leftarrow> dpds (radar_st hw) c;
     Some (enabled d \<noteq> AML_RADAR_DETECT_DISABLE, spin_unlock hw)
   }"

definition aml_chanctx_band :: "u8 \<Rightarrow> radar_hw \<Rightarrow> u32 option" where
  "aml_chanctx_band ch_idx hw =
     (if unat ch_idx < NX_CHAN_CTXT_CNT
      then do { ctxt \<leftarrow> nth_opt (chanctx_table hw) (unat ch_idx); c \<leftarrow> chan (chan_def ctxt); Some (band c) }
      else None)"

definition aml_chanctx_valid :: "u8 \<Rightarrow> radar_hw \<Rightarrow> bool" where
  "aml_chanctx_valid ch_idx hw \<longleftrightarrow> aml_chanctx_band ch_idx hw \<noteq> None"

definition aml_radar_detection_enable_on_cur_channel :: "radar_hw \<Rightarrow> radar_hw option" where
  "aml_radar_detection_enable_on_cur_channel hw =
     (if \<not> aml_chanctx_valid (cur_chanctx hw) hw then Some hw
      else do {
        ctxt \<leftarrow> nth_opt (chanctx_table hw) (unat (cur_chanctx hw));
        c \<leftarrow> chan (chan_def ctxt);
        if is_radar c then aml_radar_detection_enable AML_RADAR_DETECT_REPORT 0 hw
        else aml_radar_detection_enable AML_RADAR_DETECT_DISABLE 0 hw
      })"

section \<open>Channel contexts\<close>

definition differs :: "cfg80211_chan_def \<Rightarrow> ieee80211_channel \<Rightarrow> cfg80211_chan_def \<Rightarrow> bool" where
  "differs cd c old \<longleftrightarrow>
     (case chan old of
        None \<Rightarrow> True
      | Some oc \<Rightarrow> band c \<noteq> band oc \<or> width cd \<noteq> width old \<or> center_freq c \<noteq> center_freq oc \<or>
                 center_freq1 cd \<noteq> center_freq1 old \<or> center_freq2 cd \<noteq> center_freq2 old)"

definition aml_chanctx_link ::
  "bool \<Rightarrow> nat \<Rightarrow> u8 \<Rightarrow> cfg80211_chan_def option \<Rightarrow> radar_hw \<Rightarrow> radar_hw option" where
  "aml_chanctx_link regdom_en vif ch_idx chandef hw =
     (if NX_CHAN_CTXT_CNT \<le> unat ch_idx then Some hw
      else do {
        ctxt \<leftarrow> nth_opt (chanctx_table hw) (unat ch_idx);
        chs \<leftarrow> put (vif_ch_index hw) vif ch_idx;
        let ctxt = ctxt\<lparr>ctx_count := ctx_count ctxt + 1\<rparr>;
        let hw = hw\<lparr>vif_ch_index := chs, chanctx_table := (chanctx_table hw)[unat ch_idx := ctxt]\<rparr>;
        (case chandef of
           None \<Rightarrow> Some hw
         | Some cd \<Rightarrow> do {
             c \<leftarrow> chan cd;
             if differs cd c (chan_def ctxt)
             then
               let hw = hw\<lparr>chanctx_table := (chanctx_table hw)[unat ch_idx := ctxt\<lparr>chan_def := cd\<rparr>]\<rparr>
               in Some (if regdom_en
                        then emit (Regdom_req
                               \<lparr>rp_vif_index = of_nat vif, rp_width = ucast (width cd - 1), rp_band = ucast (band c),
                                rp_channel = aml_ieee80211_freq_to_chan (center_freq c) (band c)\<rparr>) hw
                        else hw)
             else Some hw
           })
      })"

definition aml_chanctx_unlink :: "nat \<Rightarrow> radar_hw \<Rightarrow> radar_hw option" where
  "aml_chanctx_unlink vif hw = do {
     ch \<leftarrow> nth_opt (vif_ch_index hw) vif;
     if ch = AML_CH_NOT_SET then Some hw
     else do {
       ctxt \<leftarrow> nth_opt (chanctx_table hw) (unat ch);
       let n = (if ctx_count ctxt = 0 then 0 else ctx_count ctxt - 1);
       let hw = hw\<lparr>chanctx_table := (chanctx_table hw)[unat ch := ctxt\<lparr>ctx_count := n\<rparr>]\<rparr>;
       hw \<leftarrow> (if n = 0
              then do {
                hw \<leftarrow> (if ch = cur_chanctx hw
                       then aml_radar_detection_enable AML_RADAR_DETECT_DISABLE 0 hw else Some hw);
                Some (hw\<lparr>chanctx_table := (chanctx_table hw)
                           [unat ch := ctxt\<lparr>ctx_count := n, chan_def := (chan_def ctxt)\<lparr>chan := None\<rparr>\<rparr>]\<rparr>)
              }
              else Some hw);
       Some (hw\<lparr>vif_ch_index := (vif_ch_index hw)[vif := AML_CH_NOT_SET]\<rparr>)
     }
   }"


section \<open>Channel availability check\<close>

definition aml_radar_start_cac :: "nat \<Rightarrow> radar_hw \<Rightarrow> radar_hw" where
  "aml_radar_start_cac vif hw = upd_radar (\<lambda>r. r\<lparr>cac_vif := Some vif, cac_work := True\<rparr>) hw"

text \<open>The channel context of an interface: \<open>chanctx_table[vif->ch_index]\<close>.\<close>

definition vif_ctxt :: "nat \<Rightarrow> radar_hw \<Rightarrow> aml_chanctx option" where
  "vif_ctxt vif hw = do { ch \<leftarrow> nth_opt (vif_ch_index hw) vif; nth_opt (chanctx_table hw) (unat ch) }"

definition aml_radar_cac_work :: "radar_hw \<Rightarrow> radar_hw option" where
  "aml_radar_cac_work hw =
     (let hw = upd_radar (\<lambda>r. r\<lparr>cac_work := False\<rparr>) hw
      in (case cac_vif (radar_st hw) of
            None \<Rightarrow> Some hw
          | Some vif \<Rightarrow> do {
              ctxt \<leftarrow> vif_ctxt vif hw;
              hw \<leftarrow> aml_chanctx_unlink vif (emit (Stop_cac_req vif) (emit (Cac_finished vif (chan_def ctxt)) hw));
              Some (upd_radar (\<lambda>r. r\<lparr>cac_vif := None\<rparr>) hw)
            }))"

definition aml_radar_cancel_cac :: "radar_hw \<Rightarrow> radar_hw option" where
  "aml_radar_cancel_cac hw =
     (case cac_vif (radar_st hw) of
        None \<Rightarrow> Some hw
      | Some vif \<Rightarrow> do {
          hw \<leftarrow>
            (if cac_work (radar_st hw)
             then do {
               let hw = upd_radar (\<lambda>r. r\<lparr>cac_work := False\<rparr>) hw;
               ctxt \<leftarrow> vif_ctxt vif hw;
               aml_chanctx_unlink vif (emit (Cac_aborted vif (chan_def ctxt)) (emit (Stop_cac_req vif) hw))
             }
             else Some hw);
          Some (upd_radar (\<lambda>r. r\<lparr>cac_vif := None\<rparr>) hw)
        })"

text \<open>
  \<open>aml_cfg80211_start_radar_detection\<close> of aml_main.c; \<open>cfm\<close> is the confirmation of the
  firmware, the channel context it chose, or \<open>None\<close> for any status but \<open>CO_OK\<close>.
\<close>

definition aml_cfg80211_start_radar_detection ::
  "bool \<Rightarrow> nat \<Rightarrow> cfg80211_chan_def \<Rightarrow> u8 option \<Rightarrow> radar_hw \<Rightarrow> (int \<times> radar_hw) option" where
  "aml_cfg80211_start_radar_detection regdom_en vif chandef cfm hw =
     (let hw = aml_radar_start_cac vif hw
      in (case cfm of
            None \<Rightarrow> Some (-5, hw)
          | Some ch_idx \<Rightarrow> do {
              hw \<leftarrow> aml_chanctx_link regdom_en vif ch_idx (Some chandef) hw;
              ch \<leftarrow> nth_opt (vif_ch_index hw) vif;
              hw \<leftarrow> (if cur_chanctx hw = ch
                     then aml_radar_detection_enable AML_RADAR_DETECT_REPORT 0 hw else Some hw);
              Some (0, hw)
            }))"

section \<open>Processing the recorded pulses\<close>

definition aml_radar_get_center_freq :: "aml_radar_chain \<Rightarrow> radar_hw \<Rightarrow> u16" where
  "aml_radar_get_center_freq chain hw =
     (case chain of
        AML_RADAR_FCU \<Rightarrow> sec_center1_freq hw
      | AML_RADAR_RIU \<Rightarrow>
          (if \<not> aml_chanctx_valid (cur_chanctx hw) hw then 0
           else ucast (center_freq1 (chan_def (chanctx_table hw ! unat (cur_chanctx hw))))))"

definition aml_radar_detected_ev :: "radar_hw \<Rightarrow> radar_hw option" where
  "aml_radar_detected_ev hw =
     (if \<not> aml_chanctx_valid (cur_chanctx hw) hw then Some hw
      else do {
        ctxt \<leftarrow> nth_opt (chanctx_table hw) (unat (cur_chanctx hw));
        hw \<leftarrow> aml_radar_cancel_cac hw;
        Some (emit (Radar_event (chan_def ctxt)) hw)
      })"

text \<open>\<open>struct radar_pulse\<close>: 6 bits of signed frequency, 4 of merit, 6 of length, 16 of repetition.\<close>

definition pulse_freq :: "u32 \<Rightarrow> int" where "pulse_freq w = sint (ucast w :: 6 word)"
definition pulse_len :: "u32 \<Rightarrow> u16" where "pulse_len w = ucast (drop_bit 10 w AND 0x3F)"
definition pulse_rep :: "u32 \<Rightarrow> u16" where "pulse_rep w = ucast (drop_bit 16 w)"

text \<open>The copy of one ring out of \<open>radar->pulses\<close>; a \<open>memcpy\<close> outside of it is \<open>None\<close>.\<close>

definition slice :: "'a list \<Rightarrow> nat \<Rightarrow> nat \<Rightarrow> 'a list option" where
  "slice xs s n = (if s + n \<le> length xs then Some (take n (drop s xs)) else None)"

definition copy_pulses :: "aml_radar_pulses \<Rightarrow> u32 list option" where
  "copy_pulses p =
     (let count = pulse_cnt p;
          start = pindex p - count;
          start = (if start < 0 then start + AML_RADAR_PULSE_MAX else start)
      in if count = 0 then Some []
         else if AML_RADAR_PULSE_MAX < start + count
         then do {
           let count1 = AML_RADAR_PULSE_MAX - start;
           a \<leftarrow> slice (buffer p) (nat start) (nat count1);
           b \<leftarrow> slice (buffer p) 0 (nat (count - count1));
           Some (a @ b)
         }
         else slice (buffer p) (nat start) (nat count))"

text \<open>A radar was completed: report it, then record it. \<open>now_s\<close> is \<open>ktime_get_real_seconds\<close>.\<close>

definition record_detected ::
  "int \<Rightarrow> aml_radar_chain \<Rightarrow> u16 \<Rightarrow> radar_hw \<Rightarrow> radar_hw option" where
  "record_detected now_s chain f hw = do {
     let d = detected (radar_st hw) chain;
     fs \<leftarrow> put (dfreq d) (unat (dindex d)) f;
     ts \<leftarrow> put (dtime d) (unat (dindex d)) now_s;
     let d = d\<lparr>dfreq := fs, dtime := ts, dindex := (dindex d + 1) mod 4, dcount := dcount d + 1\<rparr>;
     Some (upd_radar (\<lambda>r. r\<lparr>detected := (detected r)(chain := d)\<rparr>) hw)
   }"

definition on_radar :: "int \<Rightarrow> aml_radar_chain \<Rightarrow> u16 \<Rightarrow> radar_hw \<Rightarrow> radar_hw option" where
  "on_radar now_s chain f hw = do {
     hw \<leftarrow>
       (if chain = AML_RADAR_RIU
        then do {
          hw \<leftarrow> spin_lock hw;
          d \<leftarrow> dpds (radar_st hw) chain;
          let hw = spin_unlock hw;
          (if enabled d = AML_RADAR_DETECT_REPORT
           then do {
             hw \<leftarrow> aml_radar_detected_ev hw;
             hw \<leftarrow> aml_radar_detection_enable AML_RADAR_DETECT_DISABLE 0 hw;
             Some (upd_radar (\<lambda>r. r\<lparr>rpulses := (rpulses r)(chain := (rpulses r chain)\<lparr>pulse_cnt := 0\<rparr>)\<rparr>) hw)
           }
           else Some hw)
        }
        else Some hw);
     record_detected now_s chain f hw
   }"

text \<open>The clock functions of the kernel: the conversion of jiffies to microseconds, \<open>now\<close> the
  jiffies when the work starts, \<open>jiffies\<close> their value when a detector is reset, and the
  seconds of the real-time clock.\<close>

record clock =
  jiffies_to_usecs :: "u32 \<Rightarrow> u32"
  now :: u32
  jiffies :: u32
  real_seconds :: int

fun chain_loop :: "clock \<Rightarrow> aml_radar_chain \<Rightarrow> u16 \<Rightarrow> u32 list \<Rightarrow> radar_hw \<Rightarrow> radar_hw option" where
  "chain_loop ck chain f [] hw = Some hw"
| "chain_loop ck chain f (w # ws) hw = do {
     d \<leftarrow> dpds (radar_st hw) chain;
     let pf = f + of_int (2 * pulse_freq w);
     let (found, d, P) = dfs_pattern_detector_add_pulse (jiffies_to_usecs ck) (jiffies ck)
                           pf (pulse_rep w) (pulse_len w * 2) (now ck) d (pool hw);
     let hw = (upd_radar (\<lambda>r. r\<lparr>dpds := (dpds r)(chain := Some d)\<rparr>) hw)\<lparr>pool := P\<rparr>;
     if found then on_radar (real_seconds ck) chain pf hw else chain_loop ck chain f ws hw
   }"

definition aml_radar_process_pulse :: "clock \<Rightarrow> radar_hw \<Rightarrow> radar_hw option" where
  "aml_radar_process_pulse ck hw = do {
     hw \<leftarrow> spin_lock (upd_radar (\<lambda>r. r\<lparr>detection_work := False\<rparr>) hw);
     let p = rpulses (radar_st hw);
     a \<leftarrow> copy_pulses (p AML_RADAR_RIU);
     b \<leftarrow> copy_pulses (p AML_RADAR_FCU);
     let hw = spin_unlock (upd_radar (\<lambda>r. r\<lparr>rpulses := \<lambda>c. (p c)\<lparr>pulse_cnt := 0\<rparr>\<rparr>) hw);
     hw \<leftarrow> (if a = [] then Some hw
            else chain_loop ck AML_RADAR_RIU (aml_radar_get_center_freq AML_RADAR_RIU hw) a hw);
     (if b = [] then Some hw
      else chain_loop ck AML_RADAR_FCU (aml_radar_get_center_freq AML_RADAR_FCU hw) b hw)
   }"

section \<open>Start, stop and regulatory domain\<close>

definition aml_radar_detection_deinit :: "radar_hw \<Rightarrow> radar_hw" where
  "aml_radar_detection_deinit hw =
     (let exit_chain = (\<lambda>c hw.
        (case dpds (radar_st hw) c of
           None \<Rightarrow> hw
         | Some d \<Rightarrow> (upd_radar (\<lambda>r. r\<lparr>dpds := (dpds r)(c := None)\<rparr>) hw)
                       \<lparr>pool := dfs_pattern_detector_exit d (pool hw)\<rparr>))
      in exit_chain AML_RADAR_FCU (exit_chain AML_RADAR_RIU hw))"

definition init_chain :: "u32 \<Rightarrow> aml_radar_chain \<Rightarrow> radar_hw \<Rightarrow> radar_hw" where
  "init_chain j c hw =
     (case dfs_pattern_detector_init j NL80211_DFS_UNSET c (pool hw) of
        (d, P) \<Rightarrow> (upd_radar (\<lambda>r. r\<lparr>dpds := (dpds r)(c := d)\<rparr>) hw)\<lparr>pool := P\<rparr>)"

definition aml_radar_detection_init :: "u32 \<Rightarrow> radar_hw \<Rightarrow> bool \<times> radar_hw" where
  "aml_radar_detection_init j hw =
     (let hw = init_chain j AML_RADAR_RIU (upd_radar (\<lambda>r. r\<lparr>rlock := False\<rparr>) hw)
      in if dpds (radar_st hw) AML_RADAR_RIU = None then (False, hw)
         else
           let hw = init_chain j AML_RADAR_FCU hw
           in if dpds (radar_st hw) AML_RADAR_FCU = None then (False, aml_radar_detection_deinit hw)
              else (True, upd_radar (\<lambda>r. r\<lparr>detection_work := False, cac_work := False, cac_vif := None\<rparr>) hw))"

definition set_chain_domain ::
  "nl80211_dfs_regions \<Rightarrow> aml_radar_chain \<Rightarrow> radar_hw \<Rightarrow> (bool \<times> radar_hw) option" where
  "set_chain_domain r c hw = do {
     d \<leftarrow> dpds (radar_st hw) c;
     let (ok, d, P) = dfs_pattern_detector_set_domain r c d (pool hw);
     Some (ok, (upd_radar (\<lambda>r. r\<lparr>dpds := (dpds r)(c := Some d)\<rparr>) hw)\<lparr>pool := P\<rparr>)
   }"

definition aml_radar_set_domain :: "nl80211_dfs_regions \<Rightarrow> radar_hw \<Rightarrow> (bool \<times> radar_hw) option" where
  "aml_radar_set_domain r hw =
     (if dpds (radar_st hw) AML_RADAR_RIU = None then Some (False, hw)
      else do {
        (ok, hw) \<leftarrow> set_chain_domain r AML_RADAR_RIU hw;
        if ok then set_chain_domain r AML_RADAR_FCU hw else Some (False, hw)
      })"

section \<open>Pulses from the firmware\<close>

text \<open>The loop that stores the pulses of a descriptor; reading behind its array is \<open>None\<close>.\<close>

definition store_pulse :: "u32 \<Rightarrow> aml_radar_pulses \<Rightarrow> aml_radar_pulses option" where
  "store_pulse w p = do {
     b \<leftarrow> (if pindex p < 0 then None else put (buffer p) (nat (pindex p)) w);
     Some (p\<lparr>buffer := b, pindex := (pindex p + 1) mod AML_RADAR_PULSE_MAX,
             pulse_cnt := (if pulse_cnt p < AML_RADAR_PULSE_MAX then pulse_cnt p + 1 else pulse_cnt p)\<rparr>)
   }"

fun store_pulses :: "u32 list \<Rightarrow> aml_radar_pulses \<Rightarrow> aml_radar_pulses option" where
  "store_pulses [] p = Some p"
| "store_pulses (w # ws) p = Option.bind (store_pulse w p) (store_pulses ws)"

text \<open>
  \<open>aml_radarind\<close>: the descriptor is \<open>g_pulses\<close> on USB and SDIO, and the buffer at the ring
  position on PCIe. The first component of the result is the returned \<open>u8\<close>.
\<close>

definition radar_buf :: "plat \<Rightarrow> radar_hw \<Rightarrow> (aml_ipc_buf \<times> radar_pulse_array_desc) option" where
  "radar_buf pl hw = do {
     slot \<leftarrow> nth_opt (radar (ipc hw)) (radar_idx (ipc hw));
     a \<leftarrow> slot;
     radar_desc hw a
   }"

definition clear_desc :: "plat \<Rightarrow> radar_hw \<Rightarrow> radar_hw option" where
  "clear_desc pl hw =
     (if aml_bus_type pl = PCIE_MODE
      then do {
        (buf, d) \<leftarrow> radar_buf pl hw;
        (env, _) \<leftarrow> ipc_host_radar_push pl (ipc hw) buf;
        Some (hw\<lparr>radar_desc := (radar_desc hw)(buf_ptr buf \<mapsto> (buf, d\<lparr>cnt := 0\<rparr>)), ipc := env\<rparr>)
      }
      else Some (hw\<lparr>g_pulses := (g_pulses hw)\<lparr>cnt := 0\<rparr>\<rparr>))"

definition aml_radarind :: "plat \<Rightarrow> radar_hw \<Rightarrow> (u8 \<times> radar_hw) option" where
  "aml_radarind pl hw = do {
     let pcie = (aml_bus_type pl = PCIE_MODE);
     ps \<leftarrow> (if pcie then map_option snd (radar_buf pl hw) else Some (g_pulses hw));
     let hw = (if pcie then hw
               else hw\<lparr>radar_pulse_index := (radar_pulse_index hw + 1) mod RADAR_EVENT_MAX\<rparr>);
     if cnt ps = 0
     then Some (-1, if pcie then hw
                    else hw\<lparr>radar_pulse_index :=
                              (if 0 < radar_pulse_index hw then (radar_pulse_index hw - 1) mod RADAR_EVENT_MAX
                               else RADAR_EVENT_MAX - 1)\<rparr>)
     else
       (case chain_of (desc_idx ps) of
          None \<Rightarrow> Some (-1, hw)
        | Some c \<Rightarrow> do {
            (on, hw) \<leftarrow> aml_radar_detection_is_enable (desc_idx ps) hw;
            hw \<leftarrow>
              (if on
               then do {
                 ws \<leftarrow> slice (pulse ps) 0 (unat (cnt ps));
                 p \<leftarrow> store_pulses ws (rpulses (radar_st hw) c);
                 Some (upd_radar (\<lambda>r. r\<lparr>rpulses := (rpulses r)(c := p), detection_work := True\<rparr>) hw)
               }
               else Some hw);
            hw \<leftarrow> clear_desc pl hw;
            Some (0, hw)
          })
   }"

text \<open>The poll loop of \<open>ipc_host_radar_handler\<close>; \<open>rd\<close> is the descriptor read over USB or SDIO
  before it.\<close>

partial_function (option) radar_poll :: "plat \<Rightarrow> radar_hw \<Rightarrow> radar_hw option" where
  "radar_poll pl hw =
     Option.bind (aml_radarind pl hw)
       (\<lambda>(ret, hw). if ret = 0 then radar_poll pl hw else Some hw)"

definition ipc_host_radar_handler ::
  "plat \<Rightarrow> radar_pulse_array_desc \<Rightarrow> radar_hw \<Rightarrow> radar_hw option" where
  "ipc_host_radar_handler pl rd hw = do {
     let hw = (if aml_bus_type pl = PCIE_MODE then hw else hw\<lparr>g_pulses := rd\<rparr>);
     hw \<leftarrow> spin_lock hw;
     hw \<leftarrow> radar_poll pl hw;
     Some (spin_unlock hw)
   }"

section \<open>The list of detected radars\<close>

text \<open>The entries \<open>aml_radar_dump_radar_detected\<close> prints, in order; the remainder is that of C.\<close>

definition crem :: "int \<Rightarrow> int \<Rightarrow> int" where
  "crem a b = sgn a * (\<bar>a\<bar> mod b)"

fun dump_loop :: "nat \<Rightarrow> int \<Rightarrow> aml_radar_detected \<Rightarrow> (int \<times> u16) list option" where
  "dump_loop 0 idx d = Some []"
| "dump_loop (Suc n) idx d = do {
     t \<leftarrow> (if idx < 0 then None else nth_opt (dtime d) (nat idx));
     f \<leftarrow> nth_opt (dfreq d) (nat idx);
     rest \<leftarrow> dump_loop n (crem (idx + 1) 4) d;
     Some ((t, f) # rest)
   }"

definition aml_radar_dump_radar_detected :: "aml_radar_chain \<Rightarrow> radar_hw \<Rightarrow> (int \<times> u16) list option" where
  "aml_radar_dump_radar_detected c hw =
     (let d = detected (radar_st hw) c;
          count = min (unat (dcount d)) NX_NB_RADAR_DETECTED;
          idx = crem (uint (dindex d) - uint (dcount d)) 4
      in dump_loop count idx d)"


section \<open>The interrupt handler\<close>

lemma unlocked: "\<not> rlock r \<Longrightarrow> r\<lparr>rlock := False\<rparr> = r"
  by (cases r) simp

lemma locked_radarind:
  assumes "rlock (radar_st hw)" and "aml_radarind pl hw = Some (ret, hw')"
  shows "ret \<noteq> 0 \<and> radar_st hw' = radar_st hw \<and> pool hw' = pool hw"
  using assms
  by (auto simp: aml_radarind_def aml_radar_detection_is_enable_def spin_lock_def Let_def
      split: option.splits if_splits bind_splits)

lemma locked_poll:
  assumes "rlock (radar_st hw)" and "radar_poll pl hw = Some hw'"
  shows "radar_st hw' = radar_st hw \<and> pool hw' = pool hw \<and> aml_radarind pl hw \<noteq> None"
proof -
  obtain ret h where h: "aml_radarind pl hw = Some (ret, h)"
    using assms(2) by (subst (asm) radar_poll.simps) (auto split: bind_splits)
  then have "h = hw'"
    using assms locked_radarind [OF assms(1) h] by (subst (asm) radar_poll.simps) simp
  then show ?thesis
    using locked_radarind [OF assms(1) h] h by simp
qed

lemma locked_radarind_None:
  assumes "rlock (radar_st hw)" and "aml_bus_type pl \<noteq> PCIE_MODE"
    and "cnt (g_pulses hw) \<noteq> 0" and "desc_idx (g_pulses hw) < 2"
  shows "aml_radarind pl hw = None"
proof -
  have "desc_idx (g_pulses hw) = 0 \<or> desc_idx (g_pulses hw) = 1"
    using assms(4) by (auto simp: word_less_nat_alt word_unat_eq_iff)
  then have "\<exists>c. chain_of (desc_idx (g_pulses hw)) = Some c"
    by (auto simp: chain_of_def)
  then show ?thesis
    using assms by (auto simp: aml_radarind_def aml_radar_detection_is_enable_def spin_lock_def Let_def)
qed


text \<open>The memory of the driver as \<open>wiphy_new\<close> hands it over, with the IPC environment \<open>env\<close>.\<close>

definition probe_radar :: aml_radar where
  "probe_radar = \<lparr>rpulses = \<lambda>_. \<lparr>pindex = 0, pulse_cnt = 0, buffer = replicate 32 0\<rparr>,
     dpds = \<lambda>_. None, detected = \<lambda>_. \<lparr>dindex = 0, dcount = 0, dtime = replicate 4 0, dfreq = replicate 4 0\<rparr>,
     detection_work = False, rlock = False, cac_work = False, cac_vif = None\<rparr>"

definition no_chan :: cfg80211_chan_def where
  "no_chan = \<lparr>chan = None, width = 0, center_freq1 = 0, center_freq2 = 0\<rparr>"

definition probe_hw :: "ipc_host_env \<Rightarrow> pri_sequence option list \<Rightarrow> radar_hw" where
  "probe_hw env mem = \<lparr>radar_st = probe_radar,
     pool = \<lparr>pool_refs = 0, pulse_pool = 0, pseq_pool = [], kmallocs = mem, pulse_objs = 0, pseq_objs = 0\<rparr>,
     ipc = env, radar_desc = (\<lambda>_. None), g_pulses = \<lparr>pulse = replicate 4 0, desc_idx = 0, cnt = 0\<rparr>,
     radar_pulse_index = 0,
     chanctx_table = replicate NX_CHAN_CTXT_CNT \<lparr>chan_def = no_chan, ctx_count = 0\<rparr>,
     cur_chanctx = 0, sec_center1_freq = 0, vif_ch_index = replicate 4 AML_CH_NOT_SET, outputs = []\<rparr>"

text \<open>The handler of the radar interrupt holds \<open>radar->lock\<close> while it calls
  \<open>aml_radarind\<close>, which takes the same lock to ask whether the detection is enabled: a
  handler that returns has delivered no pulse, and on USB and SDIO a descriptor with pulses
  of a valid chain makes it deadlock.\<close>

theorem radar_irq_delivers_nothing:
  assumes "ipc_host_radar_handler pl rd hw = Some hw'"
  shows "radar_st hw' = radar_st hw \<and>
    (aml_bus_type pl \<noteq> PCIE_MODE \<longrightarrow> cnt rd = 0 \<or> 2 \<le> desc_idx rd)"
proof -
  define h0 where "h0 = (if aml_bus_type pl = PCIE_MODE then hw else hw\<lparr>g_pulses := rd\<rparr>)"
  define h1 where "h1 = h0\<lparr>radar_st := (radar_st h0)\<lparr>rlock := True\<rparr>\<rparr>"
  have free: "\<not> rlock (radar_st h0)"
    using assms by (auto simp: ipc_host_radar_handler_def Let_def h0_def [symmetric] spin_lock_def)
  then obtain h2 where h2: "radar_poll pl h1 = Some h2" "hw' = spin_unlock h2"
    using assms by (auto simp: ipc_host_radar_handler_def Let_def h0_def [symmetric] h1_def spin_lock_def
        split: bind_splits)
  have locked: "rlock (radar_st h1)"
    by (simp add: h1_def)
  note p = locked_poll [OF locked h2(1)]
  have "radar_st h0 = radar_st hw"
    by (simp add: h0_def)
  then have "radar_st hw' = radar_st hw"
    using p h2(2) unlocked [of "radar_st hw"] free by (simp add: spin_unlock_def h1_def)
  moreover have "cnt rd = 0 \<or> 2 \<le> desc_idx rd" if bus: "aml_bus_type pl \<noteq> PCIE_MODE"
  proof (rule ccontr)
    assume "\<not> ?thesis"
    then have "aml_radarind pl h1 = None"
      using bus by (intro locked_radarind_None [OF locked bus]) (simp_all add: h1_def h0_def not_le)
    then show False
      using p by simp
  qed
  ultimately show ?thesis
    by blast
qed

text \<open>On USB the handler returns only because the descriptor names no chain: its four pulses
  are not recorded.\<close>

theorem radar_irq_delivers_nothing_witness:
  "\<forall>env. \<exists>hw'. ipc_host_radar_handler \<lparr>aml_bus_type = USB_MODE, bus_suspend_cnt = 0, g_pci_shutdown = False,
      g_pci_msg_suspend = False, hw_state = WIFI_SUSPEND_STATE_NONE, recy_state_ongoing = False\<rparr>
      \<lparr>pulse = [1, 2, 3, 4], desc_idx = 5, cnt = 4\<rparr> (probe_hw env []) = Some hw' \<and>
    radar_st hw' = radar_st (probe_hw env [])"
proof
  fix env
  define pl :: plat where "pl = \<lparr>aml_bus_type = USB_MODE, bus_suspend_cnt = 0, g_pci_shutdown = False,
    g_pci_msg_suspend = False, hw_state = WIFI_SUSPEND_STATE_NONE, recy_state_ongoing = False\<rparr>"
  define rd where "rd = \<lparr>pulse = [1, 2, 3, 4], desc_idx = 5, cnt = 4\<rparr>"
  have "\<exists>hw'. ipc_host_radar_handler pl rd (probe_hw env []) = Some hw'"
    by (simp add: ipc_host_radar_handler_def spin_lock_def radar_poll.simps aml_radarind_def chain_of_def
        probe_hw_def probe_radar_def pl_def rd_def Let_def)
  then obtain hw' where h: "ipc_host_radar_handler pl rd (probe_hw env []) = Some hw'"
    by blast
  from radar_irq_delivers_nothing [OF h] h
  show "\<exists>hw'. ipc_host_radar_handler \<lparr>aml_bus_type = USB_MODE, bus_suspend_cnt = 0, g_pci_shutdown = False,
      g_pci_msg_suspend = False, hw_state = WIFI_SUSPEND_STATE_NONE, recy_state_ongoing = False\<rparr>
      \<lparr>pulse = [1, 2, 3, 4], desc_idx = 5, cnt = 4\<rparr> (probe_hw env []) = Some hw' \<and>
    radar_st hw' = radar_st (probe_hw env [])"
    unfolding pl_def rd_def by blast
qed


section \<open>The ring of recorded pulses\<close>

text \<open>The pulses the ring holds, oldest first, and the rings the code builds.\<close>

definition ring_ok :: "aml_radar_pulses \<Rightarrow> bool" where
  "ring_ok p \<longleftrightarrow> length (buffer p) = 32 \<and> 0 \<le> pindex p \<and> pindex p < 32 \<and> 0 \<le> pulse_cnt p \<and> pulse_cnt p \<le> 32"

definition newest_first :: "aml_radar_pulses \<Rightarrow> u32 list" where
  "newest_first p = map (\<lambda>j. buffer p ! nat ((pindex p - 1 - int j) mod 32)) [0..<nat (pulse_cnt p)]"

definition ring_abs :: "aml_radar_pulses \<Rightarrow> u32 list" where
  "ring_abs p = rev (newest_first p)"

definition newest :: "nat \<Rightarrow> 'a list \<Rightarrow> 'a list" where
  "newest n xs = drop (length xs - n) xs"

lemma newest_rev: "newest n (rev xs) = rev (take n xs)"
  by (cases "n \<le> length xs") (simp_all add: newest_def drop_rev)

lemma newest_short: "length xs \<le> n \<Longrightarrow> newest n xs = xs"
  by (simp add: newest_def)

lemma length_newest_first [simp]: "length (newest_first p) = nat (pulse_cnt p)"
  by (simp add: newest_first_def)

lemma ring_other_slot:
  assumes "i < 32" and "j < 31"
  shows "nat ((int i - 1 - int j) mod 32) \<noteq> i"
proof
  assume "nat ((int i - 1 - int j) mod 32) = i"
  then have "(int i - 1 - int j) mod 32 = int i mod 32"
    using assms(1) by (simp add: nat_eq_iff)
  then have "32 dvd - (int j + 1)"
    by (simp add: mod_eq_dvd_iff algebra_simps)
  then have "32 dvd int j + 1"
    by (simp only: dvd_minus_iff)
  then have "32 \<le> int j + 1"
    by (rule zdvd_imp_le) simp
  then show False
    using assms(2) by simp
qed

lemma store_pulse_ok:
  assumes "ring_ok p"
  shows "\<exists>q. store_pulse w p = Some q \<and> ring_ok q \<and> newest_first q = take 32 (w # newest_first p)"
proof -
  define i where "i = nat (pindex p)"
  have i: "i < 32" "pindex p = int i" "length (buffer p) = 32"
    using assms by (auto simp: ring_ok_def i_def)
  define n where "n = nat (pulse_cnt p)"
  have n: "n \<le> 32" "pulse_cnt p = int n"
    using assms by (auto simp: ring_ok_def n_def)
  define m where "m = min n 31"
  define q where "q = p\<lparr>buffer := (buffer p)[i := w], pindex := (pindex p + 1) mod 32,
      pulse_cnt := (if pulse_cnt p < 32 then pulse_cnt p + 1 else pulse_cnt p)\<rparr>"
  have q: "store_pulse w p = Some q" "ring_ok q"
    using assms i by (auto simp: store_pulse_def q_def ring_ok_def AML_RADAR_PULSE_MAX_def put_def)
  have cnt: "nat (pulse_cnt q) = Suc m"
    using n by (auto simp: q_def m_def)
  have slot: "(pindex q - 1 - int j) mod 32 = (int i - int j) mod 32" for j
    using mod_diff_left_eq [of "int i + 1" 32 "1 + int j"] i(2) by (simp add: q_def algebra_simps)
  have "newest_first q = map (\<lambda>j. buffer q ! nat ((int i - int j) mod 32)) (0 # map Suc [0..<m])"
    unfolding newest_first_def cnt slot by (simp only: upt_conv_Cons [OF zero_less_Suc] map_Suc_upt)
  also have "\<dots> = w # map (\<lambda>j. (buffer p)[i := w] ! nat ((int i - 1 - int j) mod 32)) [0..<m]"
    using i by (simp add: q_def o_def algebra_simps)
  also have "\<dots> = w # map (\<lambda>j. buffer p ! nat ((int i - 1 - int j) mod 32)) [0..<m]"
    using ring_other_slot [OF i(1), symmetric] by (auto simp: m_def)
  also have "\<dots> = take 32 (w # newest_first p)"
    using n i(2) by (simp add: newest_first_def take_map m_def min_def)
  finally show ?thesis
    using q by blast
qed

lemma newest_append: "newest n (newest n xs @ ys) = newest n (xs @ ys)"
proof -
  have "newest n xs @ ys = drop (length xs - n) (xs @ ys)"
    by (simp add: newest_def)
  then show ?thesis
    by (cases "length xs \<le> n") (simp_all add: newest_def add.commute)
qed

lemma store_pulses_ok:
  "ring_ok p \<Longrightarrow> \<exists>q. store_pulses ws p = Some q \<and> ring_ok q \<and> ring_abs q = newest 32 (ring_abs p @ ws)"
proof (induction ws arbitrary: p)
  case Nil
  then have "nat (pulse_cnt p) \<le> 32"
    by (simp add: ring_ok_def nat_le_iff)
  then show ?case
    using Nil by (simp add: newest_short ring_abs_def)
next
  case (Cons w ws)
  obtain q where q: "store_pulse w p = Some q" "ring_ok q" "newest_first q = take 32 (w # newest_first p)"
    using store_pulse_ok [OF Cons.prems] by blast
  have "ring_abs q = newest 32 (ring_abs p @ [w])"
    using newest_rev [of 32 "w # newest_first p"] by (simp add: ring_abs_def q(3))
  then show ?case
    using Cons.IH [OF q(2)] q(1) newest_append [of 32 "ring_abs p @ [w]" ws] by simp
qed


text \<open>The copy made by the work function.\<close>

lemma ring_abs_nth:
  assumes "ring_ok p" and "k < nat (pulse_cnt p)"
  shows "ring_abs p ! k = buffer p ! nat ((pindex p - pulse_cnt p + int k) mod 32)"
proof -
  have "int (nat (pulse_cnt p) - Suc k) = pulse_cnt p - 1 - int k"
    using assms by (simp add: of_nat_diff ring_ok_def)
  then show ?thesis
    using assms(2) by (simp add: ring_abs_def rev_nth newest_first_def algebra_simps)
qed

lemma slice_Some: "s + n \<le> length xs \<Longrightarrow> slice xs s n = Some (take n (drop s xs))"
  by (simp add: slice_def)

lemma copy_pulses_abs:
  assumes ok: "ring_ok p"
  shows "copy_pulses p = Some (ring_abs p)"
proof (cases "pulse_cnt p = 0")
  case True
  then show ?thesis
    by (simp add: copy_pulses_def ring_abs_def newest_first_def)
next
  case False
  define c where "c = nat (pulse_cnt p)"
  define s where "s = nat ((pindex p - pulse_cnt p) mod 32)"
  have c: "pulse_cnt p = int c" "0 < c" "c \<le> 32" and len: "length (buffer p) = 32"
    using ok False by (auto simp: c_def ring_ok_def nat_le_iff)
  have s: "s < 32" "(pindex p - pulse_cnt p) mod 32 = int s"
    by (simp_all add: s_def)
  have start: "(if pindex p - pulse_cnt p < 0 then pindex p - pulse_cnt p + 32 else pindex p - pulse_cnt p) = int s"
    using ok s(2) by (auto simp: ring_ok_def mod_pos_pos_trivial mod_pos_neg_trivial)
      (smt (verit) mod_add_self2 mod_pos_pos_trivial)
  have nth: "ring_abs p ! k = buffer p ! (if s + k < 32 then s + k else s + k - 32)" if "k < c" for k
  proof -
    have "(pindex p - pulse_cnt p + int k) mod 32 = (int s + int k) mod 32"
      unfolding s(2) [symmetric] by (simp add: mod_add_left_eq)
    also have "\<dots> = int ((s + k) mod 32)"
      by (simp add: zmod_int)
    also have "(s + k) mod 32 = (if s + k < 32 then s + k else s + k - 32)"
      using s(1) that c(3) by (simp add: mod_if)
    finally show ?thesis
      using ring_abs_nth [OF ok, of k] that by (simp add: c_def)
  qed
  have lenr: "length (ring_abs p) = c"
    by (simp add: ring_abs_def c_def)
  have eq: "copy_pulses p =
      (if 32 < int s + int c
       then do { a \<leftarrow> slice (buffer p) s (nat (32 - int s));
                 b \<leftarrow> slice (buffer p) 0 (nat (int c - (32 - int s))); Some (a @ b) }
       else slice (buffer p) s c)"
    unfolding copy_pulses_def Let_def AML_RADAR_PULSE_MAX_def start using c(1,2) by simp
  show ?thesis
  proof (cases "32 < s + c")
    case True
    have "take (32 - s) (drop s (buffer p)) @ take (c - (32 - s)) (buffer p) = ring_abs p"
      using True s(1) c(3) len by (intro nth_equalityI) (auto simp: nth_append lenr nth add.commute)
    moreover have "nat (32 - int s) = 32 - s" "nat (int c - (32 - int s)) = c - (32 - s)"
      using True s(1) by simp_all
    ultimately show ?thesis
      using True c len s(1) by (simp add: eq slice_Some)
  next
    case no: False
    have "take c (drop s (buffer p)) = ring_abs p"
      using no len by (intro nth_equalityI) (auto simp: lenr nth)
    then show ?thesis
      using no len by (simp add: eq slice_Some)
  qed
qed

text \<open>Property C23. The array and the two indices of \<open>struct aml_radar_pulses\<close> implement a queue
  of the 32 newest pulses: whatever is stored, the work function copies the newest 32 of
  what was there and what was stored, oldest first, and never outside of the array.\<close>

theorem pulse_ring_refines_queue:
  assumes "ring_ok p"
  shows "\<exists>q. store_pulses ws p = Some q \<and> ring_ok q \<and>
    copy_pulses q = Some (newest 32 (ring_abs p @ ws)) \<and>
    ring_ok (q\<lparr>pulse_cnt := 0\<rparr>) \<and> ring_abs (q\<lparr>pulse_cnt := 0\<rparr>) = []"
proof -
  obtain q where q: "store_pulses ws p = Some q" "ring_ok q" "ring_abs q = newest 32 (ring_abs p @ ws)"
    using store_pulses_ok [OF assms] by blast
  then show ?thesis
    using copy_pulses_abs [OF q(2)] by (auto simp: ring_ok_def ring_abs_def newest_first_def)
qed

theorem pulse_ring_refines_queue_witness:
  "\<exists>q. store_pulses [7, 8, 9] (rpulses probe_radar AML_RADAR_RIU) = Some q \<and> ring_ok q \<and>
    copy_pulses q = Some (newest 32 (ring_abs (rpulses probe_radar AML_RADAR_RIU) @ [7, 8, 9])) \<and>
    ring_ok (q\<lparr>pulse_cnt := 0\<rparr>) \<and> ring_abs (q\<lparr>pulse_cnt := 0\<rparr>) = []"
  by (rule pulse_ring_refines_queue) (simp add: ring_ok_def probe_radar_def)

end
