(* ===== verification/Radar_Mem.thy ===== *)
theory Radar_Mem
  imports Radar
begin

text \<open>
  The memory of the radar detection: the pools of list elements are shared by all
  detectors of both chains and are freed with the last detector. The theory shows, for
  every state the driver reaches by any sequence of events, that each element obtained from
  the allocator is in exactly one queue, sequence list or pool, that the reference count is
  the number of detectors, and that nothing is left after the detection is stopped.
\<close>

unbundle bit_operations_syntax

section \<open>Totals over the detectors\<close>

definition npulses :: "pri_detector \<Rightarrow> int" where "npulses pde = int (length (pulses pde))"
definition nseqs :: "pri_detector \<Rightarrow> int" where "nseqs pde = int (length (sequences pde))"
definition none :: "pri_detector \<Rightarrow> int" where "none pde = 1"

definition lsum :: "(pri_detector \<Rightarrow> int) \<Rightarrow> pri_detector list \<Rightarrow> int" where
  "lsum w ds = sum_list (map w ds)"

definition tot :: "(pri_detector \<Rightarrow> int) \<Rightarrow> dfs_pattern_detector \<Rightarrow> int" where
  "tot w d = sum_list (map (lsum w) (detectors d))"

lemma lsum_simps [simp]: "lsum w [] = 0" "lsum w (x # xs) = w x + lsum w xs"
  by (simp_all add: lsum_def)

lemma lsum_none: "lsum none ds = int (length ds)"
  by (induction ds) (simp_all add: none_def)

lemma lsum_update: "k < length ds \<Longrightarrow> lsum w (ds[k := x]) = lsum w ds - w (ds ! k) + w x"
  using sum_list_map_update [of k ds w x] by (simp add: lsum_def)

lemma tot_update:
  "i < length (detectors d) \<Longrightarrow>
   tot w (d\<lparr>detectors := (detectors d)[i := ds]\<rparr>) = tot w d - lsum w (detectors d ! i) + lsum w ds"
  using sum_list_map_update [of i "detectors d" "lsum w" ds] by (simp add: tot_def)

lemma lsum_nonneg: "(\<And>x. 0 \<le> w x) \<Longrightarrow> 0 \<le> lsum w ds"
  by (induction ds) (simp_all add: add_nonneg_nonneg)

lemma tot_nonneg: "(\<And>x. 0 \<le> w x) \<Longrightarrow> 0 \<le> tot w d"
  unfolding tot_def by (rule sum_list_nonneg) (auto intro: lsum_nonneg)

lemma weights_nonneg [simp]: "0 \<le> npulses x" "0 \<le> nseqs x" "0 \<le> none x"
  by (simp_all add: npulses_def nseqs_def none_def)

section \<open>Well-formed pattern detectors\<close>

definition types_max :: nat where "types_max = 9"

definition list_ok :: "pri_detector list \<Rightarrow> bool" where
  "list_ok ds \<longleftrightarrow> distinct (map freq ds) \<and> (\<forall>pde\<in>set ds. pde_wf pde)"

definition dpd_ok :: "dfs_pattern_detector \<Rightarrow> bool" where
  "dpd_ok d \<longleftrightarrow> length (detectors d) = types_max \<and> unat (num_radar_types d) = length (radar_spec d) \<and>
     length (radar_spec d) \<le> types_max \<and> (\<forall>sp\<in>set (radar_spec d). entry_ok sp) \<and>
     (\<forall>ds\<in>set (detectors d). list_ok ds) \<and> (\<forall>ds\<in>set (drop (length (radar_spec d)) (detectors d)). ds = [])"

lemma max_types: "get_dfs_max_radar_types = 9"
  by (simp add: get_dfs_max_radar_types_def spec_table_defs)

text \<open>A list holds one detector per frequency at most.\<close>

lemma list_ok_length: "list_ok ds \<Longrightarrow> length ds \<le> 65536"
proof -
  assume "list_ok ds"
  then have "length ds = card (set (map freq ds))"
    using distinct_card [of "map freq ds"] by (simp add: list_ok_def)
  also have "\<dots> \<le> card (UNIV :: u16 set)"
    by (rule card_mono) simp_all
  finally show ?thesis
    by (simp add: card_word)
qed

lemma tot_none_bound:
  assumes "dpd_ok d"
  shows "tot none d \<le> 589824"
proof -
  have "sum_list (map (lsum none) dss) \<le> 65536 * int (length dss)" if "\<forall>ds\<in>set dss. list_ok ds" for dss
    using that by (induction dss) (auto simp: lsum_none dest!: list_ok_length)
  from this [of "detectors d"] show ?thesis
    using assms by (simp add: tot_def dpd_ok_def types_max_def)
qed

lemma tot_none_zero: "dpd_ok d \<Longrightarrow> tot none d = 0 \<Longrightarrow> \<forall>ds\<in>set (detectors d). ds = []"
  unfolding tot_def
  by (subst (asm) sum_list_nonneg_eq_0_iff) (auto intro: lsum_nonneg simp: lsum_none)

text \<open>
  What holds between the pools and a pattern detector, when the other chain has \<open>rp\<close>
  pulses, \<open>rq\<close> sequences and \<open>rn\<close> detectors.
\<close>

definition acct :: "int \<times> int \<times> int \<Rightarrow> dfs_pattern_detector \<Rightarrow> pools \<Rightarrow> bool" where
  "acct R d P \<longleftrightarrow> (case R of (rp, rq, rn) \<Rightarrow>
     0 \<le> rp \<and> 0 \<le> rq \<and> 0 \<le> rn \<and> rn \<le> 589824 \<and>
     pulses_out P = tot npulses d + rp \<and> pseqs_out P = tot nseqs d + rq \<and>
     int (unat (pool_refs P)) = tot none d + rn \<and>
     (pool_refs P = 0 \<longrightarrow> pulse_objs P = 0 \<and> pseq_objs P = 0))"

section \<open>Operations on all detectors\<close>

text \<open>An operation on a detector that keeps the pools in step and the queue well-formed.\<close>

definition good_op :: "(pri_detector \<Rightarrow> pools \<Rightarrow> pri_detector \<times> pools) \<Rightarrow> bool" where
  "good_op g \<longleftrightarrow> (\<forall>pde P pde' P'. g pde P = (pde', P') \<longrightarrow>
     keeps pde P pde' P' \<and> (pde_wf pde \<longrightarrow> pde_wf pde'))"

lemma each_good:
  assumes g: "good_op g"
  shows "each g ds P = (ds', P') \<Longrightarrow>
    pulses_out P' - lsum npulses ds' = pulses_out P - lsum npulses ds \<and>
    pseqs_out P' - lsum nseqs ds' = pseqs_out P - lsum nseqs ds \<and>
    pool_refs P' = pool_refs P \<and> lsum none ds' = lsum none ds \<and> (list_ok ds \<longrightarrow> list_ok ds') \<and>
    map freq ds' = map freq ds"
proof (induction ds arbitrary: P ds' P')
  case (Cons x ds)
  obtain y Q where y: "g x P = (y, Q)"
    by (cases "g x P")
  obtain ds1 Q1 where d: "each g ds Q = (ds1, Q1)"
    by (cases "each g ds Q")
  have "keeps x P y Q" "pde_wf x \<longrightarrow> pde_wf y"
    using g y by (auto simp: good_op_def)
  then show ?case
    using Cons.IH [OF d] Cons.prems y d keeps_consts [of x P y Q]
    by (auto simp: keeps_def spare_def npulses_def nseqs_def none_def list_ok_def)
qed simp

lemma each_each_good:
  assumes g: "good_op g"
  shows "each (each g) dss P = (dss', P') \<Longrightarrow>
    pulses_out P' - sum_list (map (lsum npulses) dss') = pulses_out P - sum_list (map (lsum npulses) dss) \<and>
    pseqs_out P' - sum_list (map (lsum nseqs) dss') = pseqs_out P - sum_list (map (lsum nseqs) dss) \<and>
    pool_refs P' = pool_refs P \<and> sum_list (map (lsum none) dss') = sum_list (map (lsum none) dss) \<and>
    ((\<forall>ds\<in>set dss. list_ok ds) \<longrightarrow> (\<forall>ds\<in>set dss'. list_ok ds)) \<and> length dss' = length dss"
proof (induction dss arbitrary: P dss' P')
  case (Cons ds dss)
  obtain e Q where y: "each g ds P = (e, Q)"
    by (cases "each g ds P")
  obtain dss1 Q1 where d: "each (each g) dss Q = (dss1, Q1)"
    by (cases "each (each g) dss Q")
  show ?case
    using Cons.IH [OF d] Cons.prems y d each_good [OF g y] by auto
qed simp

lemma each_empty: "\<forall>ds\<in>set dss. ds = [] \<Longrightarrow> each (each g) dss P = (dss, P)"
  by (induction dss) auto

lemma dpd_okD:
  assumes "dpd_ok d"
  shows "length (detectors d) = types_max" "unat (num_radar_types d) = length (radar_spec d)"
    "length (radar_spec d) \<le> types_max" "\<forall>sp\<in>set (radar_spec d). entry_ok sp"
    "\<forall>ds\<in>set (detectors d). list_ok ds" "\<forall>ds\<in>set (drop (length (radar_spec d)) (detectors d)). ds = []"
  using assms by (simp_all add: dpd_ok_def)

lemma acct_move:
  assumes "acct R d P"
    and "pulses_out P' - tot npulses d' = pulses_out P - tot npulses d"
    and "pseqs_out P' - tot nseqs d' = pseqs_out P - tot nseqs d"
    and "pool_refs P' = pool_refs P" and "tot none d' = tot none d"
    and "pool_refs P = 0 \<Longrightarrow> P' = P"
  shows "acct R d' P'"
proof -
  obtain rp rq rn where "R = (rp, rq, rn)"
    by (cases R)
  then show ?thesis
    using assms by (cases "pool_refs P = 0") (simp_all add: acct_def)
qed

lemma acct_no_refs:
  assumes "acct R d P" and "dpd_ok d" and "pool_refs P = 0"
  shows "\<forall>ds\<in>set (detectors d). ds = []"
proof -
  obtain rp rq rn where "R = (rp, rq, rn)"
    by (cases R)
  then have "tot none d = 0"
    using assms(1,3) tot_nonneg [of none d] by (simp add: acct_def)
  then show ?thesis
    using tot_none_zero [OF assms(2)] by blast
qed

lemma tot_split:
  "tot w d = sum_list (map (lsum w) (take n (detectors d))) + sum_list (map (lsum w) (drop n (detectors d)))"
  unfolding tot_def by (simp flip: sum_list_append map_append)

lemma each_detector_acct:
  assumes g: "good_op g" and op: "each_detector g d P = (d', P')" and ok: "dpd_ok d" and a: "acct R d P"
  shows "dpd_ok d' \<and> acct R d' P' \<and> radar_spec d' = radar_spec d \<and> num_radar_types d' = num_radar_types d \<and>
    region d' = region d \<and> enabled d' = enabled d"
proof -
  define n where "n = unat (num_radar_types d)"
  note ok' = dpd_okD [OF ok]
  obtain ds where e: "each (each g) (take n (detectors d)) P = (ds, P')"
    and d': "d' = d\<lparr>detectors := ds @ drop n (detectors d)\<rparr>"
    using op by (auto simp: each_detector_def Let_def n_def split: prod.splits)
  note k = each_each_good [OF g e]
  have "\<forall>x\<in>set (take n (detectors d)). list_ok x"
    using ok'(5) by (meson in_set_takeD)
  then have lists: "\<forall>x\<in>set ds. list_ok x" "length ds = n"
    using k ok'(1-3) by (simp_all add: n_def)
  have old: "\<forall>x\<in>set (drop n (detectors d)). x = []"
    using ok'(2,6) by (simp add: n_def)
  have "dpd_ok d'"
    using ok'(1-4) lists old by (auto simp: dpd_ok_def d' n_def list_ok_def)
  moreover have "acct R d' P'"
  proof (rule acct_move [OF a])
    assume "pool_refs P = 0"
    then have "\<forall>x\<in>set (take n (detectors d)). x = []"
      using acct_no_refs [OF a ok] by (meson in_set_takeD)
    then show "P' = P"
      using e each_empty [of "take n (detectors d)" g P] by simp
  qed (use k tot_split [of _ d n] in \<open>simp_all add: d' tot_def\<close>)
  ultimately show ?thesis
    by (simp add: d')
qed

lemma reset_good: "good_op (\<lambda>pde. pri_detector_reset pde ts)"
  using reset_spec reset_wf by (auto simp: good_op_def)


section \<open>One pulse\<close>

lemma get_scan_spec:
  "(\<forall>c. cur = Some c \<longrightarrow> c < n) \<Longrightarrow>
   (case get_scan f n cur ds of Some k \<Rightarrow> k < n + length ds | None \<Rightarrow> cur = None \<and> f \<notin> set (map freq ds))"
proof (induction ds arbitrary: n cur)
  case (Cons pde ds)
  have *: "(case get_scan f (Suc n) c ds of Some k \<Rightarrow> k < Suc n + length ds
       | None \<Rightarrow> c = None \<and> f \<notin> set (map freq ds))"
    if "c = cur \<or> c = Some n" for c
  proof (rule Cons.IH)
    show "\<forall>x. c = Some x \<longrightarrow> x < Suc n"
      using that Cons.prems by (auto intro: less_SucI)
  qed
  show ?case
    using * [of cur] * [of "Some n"] Cons.prems
    by (auto split: option.splits)
qed (auto split: option.splits)

lemma acct_step:
  assumes "acct R d P" and "i < length (detectors d)" and "k < length (detectors d ! i)"
    and "keeps (detectors d ! i ! k) P pde P'"
  shows "acct R (d\<lparr>detectors := (detectors d)[i := (detectors d ! i)[k := pde]]\<rparr>) P'"
proof -
  obtain rp rq rn where R: "R = (rp, rq, rn)"
    by (cases R)
  have "0 < tot none d"
  proof -
    have "lsum none (detectors d ! i) \<le> tot none d"
      unfolding tot_def using assms(2)
      by (intro member_le_sum_list) (auto intro: lsum_nonneg)
    then show ?thesis
      using assms(3) by (simp add: lsum_none)
  qed
  then have "pool_refs P \<noteq> 0"
    using assms(1) R by (auto simp: acct_def)
  then show ?thesis
    using assms R unfolding acct_def
    by (simp add: tot_update lsum_update keeps_def spare_def npulses_def nseqs_def none_def)
qed

lemma acct_new:
  assumes a: "acct R d P" and ok: "dpd_ok d" and i: "i < length (detectors d)" and m: "kmalloc P = (r, Q)"
    and new: "pulses pde = []" "sequences pde = []"
  shows "acct R (d\<lparr>detectors := (detectors d)[i := pde # detectors d ! i]\<rparr>) (pool_register_ref Q)"
proof -
  obtain rp rq rn where R: "R = (rp, rq, rn)"
    by (cases R)
  obtain ks where Q: "Q = P\<lparr>kmallocs := ks\<rparr>"
    using kmalloc_cases [OF m] by blast
  have b: "int (unat (pool_refs P)) = tot none d + rn" "rn \<le> 589824"
    using a R by (simp_all add: acct_def)
  then have "unat (pool_refs P) \<le> 1179648"
    using tot_none_bound [OF ok] by linarith
  then have inc: "unat (pool_refs P + 1) = Suc (unat (pool_refs P))"
    by (simp add: unat_word_ariths)
  then have "pool_refs P + 1 \<noteq> 0"
    by (metis nat.distinct(1) unat_0)
  then show ?thesis
    using a R inc i new unfolding acct_def Q
    by (simp add: pool_register_ref_def tot_update npulses_def nseqs_def none_def pulses_out_def pseqs_out_def)
qed

lemma acct_kmalloc: "acct R d P \<Longrightarrow> kmalloc P = (r, Q) \<Longrightarrow> acct R d Q"
  by (auto dest!: kmalloc_cases simp: acct_def pulses_out_def pseqs_out_def split: prod.splits)

lemma fresh_pde_props:
  "rs (fresh_pde sp f) = sp" "freq (fresh_pde sp f) = f" "pulses (fresh_pde sp f) = []"
  "sequences (fresh_pde sp f) = []" "pcount (fresh_pde sp f) = 0"
  by (simp_all add: fresh_pde_def ops_init_def pde_long_init_def pde_short_init_def)

lemma fresh_pde_wf: "entry_ok sp \<Longrightarrow> pde_wf (fresh_pde sp f)"
proof -
  assume "entry_ok sp"
  then have "0 < ppb sp"
    by (auto simp: entry_ok_def word_le_nat_alt word_less_nat_alt)
  then have "0 < unat (ucast (ppb sp) * 2 :: u32)"
    by (simp add: unat_max_count word_less_nat_alt)
  then show ?thesis
    by (simp add: fresh_pde_def ops_init_def pde_long_init_def pde_short_init_def pde_wf_def
        word_less_nat_alt LONG_RADAR_MAX_BURST_def)
qed

text \<open>The tables, the region and the switch of a detector are not touched by pulses.\<close>

definition same_table :: "dfs_pattern_detector \<Rightarrow> dfs_pattern_detector \<Rightarrow> bool" where
  "same_table d d' \<longleftrightarrow> radar_spec d' = radar_spec d \<and> num_radar_types d' = num_radar_types d \<and>
     region d' = region d \<and> enabled d' = enabled d"

lemma same_table_simps [simp]:
  "same_table d d" "same_table d (d\<lparr>detectors := ds\<rparr>)"
  by (simp_all add: same_table_def)

lemma same_table_trans: "same_table a b \<Longrightarrow> same_table b c \<Longrightarrow> same_table a c"
  by (simp add: same_table_def)

lemma dpd_ok_update:
  assumes "dpd_ok d" and "i < length (radar_spec d)" and "list_ok ds"
  shows "dpd_ok (d\<lparr>detectors := (detectors d)[i := ds]\<rparr>)"
  using assms by (auto simp: dpd_ok_def dest!: set_update_subset_insert [THEN subsetD])

lemma get_acct:
  assumes op: "pri_detector_get d f i P = (r, d', P')" and ok: "dpd_ok d" and a: "acct R d P"
    and i: "i < length (radar_spec d)"
  shows "dpd_ok d' \<and> acct R d' P' \<and> same_table d d' \<and> (\<forall>k. r = Some k \<longrightarrow> k < length (detectors d' ! i))"
proof (cases "get_scan f 0 None (detectors d ! i)")
  case (Some k)
  then show ?thesis
    using get_scan_spec [of None 0 f "detectors d ! i"] assms by (auto simp: pri_detector_get_def)
next
  case None
  have il: "i < length (detectors d)"
    using ok i by (simp add: dpd_ok_def)
  obtain m Q where m: "kmalloc P = (m, Q)"
    by (cases "kmalloc P")
  have new: "f \<notin> set (map freq (detectors d ! i))"
    using get_scan_spec [of None 0 f "detectors d ! i"] None by simp
  show ?thesis
  proof (cases m)
    case None
    then have "d' = d" "P' = Q" "r = None"
      using op \<open>get_scan f 0 None (detectors d ! i) = None\<close> m
      by (simp_all add: pri_detector_get_def pri_detector_init_def)
    then show ?thesis
      using ok acct_kmalloc [OF a m] by simp
  next
    case (Some junk)
    define pde where "pde = fresh_pde (radar_spec d ! i) f"
    have d': "d' = d\<lparr>detectors := (detectors d)[i := pde # detectors d ! i]\<rparr>" "P' = pool_register_ref Q" "r = Some 0"
      using op \<open>get_scan f 0 None (detectors d ! i) = None\<close> m Some
      by (simp_all add: pri_detector_get_def pri_detector_init_def pde_def Let_def)
    have "pde_wf pde"
      using ok i unfolding pde_def dpd_ok_def by (intro fresh_pde_wf) simp
    moreover have "list_ok (detectors d ! i)"
      using ok il by (simp add: dpd_ok_def)
    ultimately have "list_ok (pde # detectors d ! i)"
      using new by (simp add: list_ok_def pde_def fresh_pde_props)
    then have "dpd_ok d'"
      unfolding d' by (rule dpd_ok_update [OF ok i])
    moreover have "acct R d' P'"
      unfolding d' using acct_new [OF a ok il m] by (simp add: pde_def fresh_pde_props)
    ultimately show ?thesis
      using il by (simp add: d')
  qed
qed

lemma type_step_acct:
  assumes op: "type_step f len i d P = (b, d', P')" and ok: "dpd_ok d" and a: "acct R d P"
    and i: "i < length (radar_spec d)"
  shows "dpd_ok d' \<and> acct R d' P' \<and> same_table d d'"
proof (cases "len < ucast (width_min (radar_spec d ! i)) \<or> ucast (width_max (radar_spec d ! i)) < len")
  case True
  then show ?thesis
    using assms by (auto simp: type_step_def)
next
  case False
  obtain r e Q where g: "pri_detector_get d f i P = (r, e, Q)"
    by (metis prod_cases3)
  note ga = get_acct [OF g ok a i]
  show ?thesis
  proof (cases r)
    case None
    then show ?thesis
      using op False g ga by (simp add: type_step_def)
  next
    case (Some k)
    have k: "k < length (detectors e ! i)" "i < length (detectors e)" "i < length (radar_spec e)"
      using ga Some i by (auto simp: dpd_ok_def same_table_def)
    obtain ps pde R' where s: "ops_add_pulse (detectors e ! i ! k) (last_pulse_ts e) Q = (ps, pde, R')"
      by (metis prod_cases3)
    have d': "d' = e\<lparr>detectors := (detectors e)[i := (detectors e ! i)[k := pde]]\<rparr>" "P' = R'"
      using op False g Some s by (simp_all add: type_step_def Let_def)
    have l: "list_ok (detectors e ! i)"
      using ga k(2) by (simp add: dpd_ok_def)
    then have "pde_wf (detectors e ! i ! k)"
      using k(1) by (simp add: list_ok_def)
    note kp = ops_add_keeps [OF s this]
    have "freq pde = freq (detectors e ! i ! k)"
      using keeps_consts kp by blast
    then have "map freq ((detectors e ! i)[k := pde]) = map freq (detectors e ! i)"
      using k(1) list_update_id [of "map freq (detectors e ! i)" k] by (simp add: map_update)
    then have "list_ok ((detectors e ! i)[k := pde])"
      using l kp by (auto simp: list_ok_def dest!: set_update_subset_insert [THEN subsetD])
    then show ?thesis
      using ga kp acct_step [of R e Q i k pde R'] dpd_ok_update [of e i] k same_table_trans
      by (auto simp: d')
  qed
qed


lemma dpd_ok_time [simp]:
  "dpd_ok (d\<lparr>last_pulse_ts := t\<rparr>) = dpd_ok d" "dpd_ok (d\<lparr>prev_jiffies := j\<rparr>) = dpd_ok d"
  "dpd_ok (d\<lparr>enabled := e\<rparr>) = dpd_ok d" "dpd_ok (d\<lparr>region := r\<rparr>) = dpd_ok d"
  by (simp_all add: dpd_ok_def)

lemma tot_time [simp]:
  "tot w (d\<lparr>last_pulse_ts := t\<rparr>) = tot w d" "tot w (d\<lparr>prev_jiffies := j\<rparr>) = tot w d"
  "tot w (d\<lparr>enabled := e\<rparr>) = tot w d" "tot w (d\<lparr>region := r\<rparr>) = tot w d"
  by (simp_all add: tot_def)

lemma acct_time [simp]:
  "acct R (d\<lparr>last_pulse_ts := t\<rparr>) P = acct R d P" "acct R (d\<lparr>prev_jiffies := j\<rparr>) P = acct R d P"
  "acct R (d\<lparr>enabled := e\<rparr>) P = acct R d P" "acct R (d\<lparr>region := r\<rparr>) P = acct R d P"
  by (simp_all add: acct_def)

lemma same_table_time [simp]:
  "same_table a (d\<lparr>last_pulse_ts := t\<rparr>) = same_table a d" "same_table a (d\<lparr>prev_jiffies := j\<rparr>) = same_table a d"
  by (simp_all add: same_table_def)

lemma reset_acct:
  assumes "dfs_pattern_detector_reset j d P = (d', P')" and "dpd_ok d" and "acct R d P"
  shows "dpd_ok d' \<and> acct R d' P' \<and> same_table d d'"
proof -
  obtain e where e: "each_detector (\<lambda>pde. pri_detector_reset pde (last_pulse_ts d)) d P = (e, P')"
    and d': "d' = e\<lparr>last_pulse_ts := 0, prev_jiffies := j\<rparr>"
    using assms(1) by (auto simp: dfs_pattern_detector_reset_def split: prod.splits)
  from each_detector_acct [OF reset_good e assms(2,3)] show ?thesis
    by (simp add: d' same_table_def)
qed

lemma overflow_acct:
  assumes "dfs_pattern_detector_pri_overflow d P = (d', P')" and "dpd_ok d" and "acct R d P"
  shows "dpd_ok d' \<and> acct R d' P' \<and> same_table d d'"
proof -
  have "good_op (\<lambda>pde P. if reset_on_pri_overflow pde then pri_detector_reset pde (last_pulse_ts d) P else (pde, P))"
    using reset_good by (auto simp: good_op_def)
  from each_detector_acct [OF this assms(1) [unfolded dfs_pattern_detector_pri_overflow_def] assms(2,3)]
  show ?thesis
    by (simp add: same_table_def)
qed

lemma type_loop_acct:
  "type_loop j f len is d P = (b, d', P') \<Longrightarrow> dpd_ok d \<Longrightarrow> acct R d P \<Longrightarrow>
   \<forall>i\<in>set is. i < length (radar_spec d) \<Longrightarrow> dpd_ok d' \<and> acct R d' P' \<and> same_table d d'"
proof (induction "is" arbitrary: d P)
  case (Cons i "is")
  obtain b1 e Q where s: "type_step f len i d P = (b1, e, Q)"
    by (metis prod_cases3)
  have "dpd_ok e \<and> acct R e Q \<and> same_table d e"
    using Cons.prems by (intro type_step_acct [OF s]) simp_all
  note sa = this
  show ?case
  proof (cases b1)
    case True
    obtain e' Q' where r: "dfs_pattern_detector_reset j e Q = (e', Q')"
      by (cases "dfs_pattern_detector_reset j e Q")
    then have "d' = e'" "P' = Q'"
      using Cons.prems(1) s True by simp_all
    then show ?thesis
      using reset_acct [OF r] sa same_table_trans by blast
  next
    case False
    then have "type_loop j f len is e Q = (b, d', P')"
      using Cons.prems(1) s by simp
    moreover have "\<forall>i\<in>set is. i < length (radar_spec e)"
      using Cons.prems(4) sa by (simp add: same_table_def)
    ultimately show ?thesis
      using Cons.IH sa same_table_trans by blast
  qed
qed simp

lemma add_pulse_acct:
  assumes op: "dfs_pattern_detector_add_pulse ju j f p len nw d P = (b, d', P')"
    and ok: "dpd_ok d" and a: "acct R d P"
  shows "dpd_ok d' \<and> acct R d' P' \<and> same_table d d'"
proof (cases "region d = NL80211_DFS_UNSET")
  case True
  then show ?thesis
    using assms by (simp add: dfs_pattern_detector_add_pulse_def)
next
  case False
  obtain e Q where t: "pulse_time ju p nw d P = (e, Q)"
    by (cases "pulse_time ju p nw d P")
  have e: "dpd_ok e \<and> acct R e Q \<and> same_table d e"
  proof (cases "p = 0")
    case True
    define d1 where "d1 = d\<lparr>last_pulse_ts := last_pulse_ts d + ucast (ju (if nw < prev_jiffies d
        then 0xffffffff - prev_jiffies d + nw else nw - prev_jiffies d)), prev_jiffies := nw\<rparr>"
    have "dfs_pattern_detector_pri_overflow d1 P = (e, Q)"
      using t True by (simp add: pulse_time_def Let_def d1_def)
    from overflow_acct [OF this] show ?thesis
      using ok a by (simp add: d1_def same_table_def)
  next
    case False
    then show ?thesis
      using t ok a by (auto simp: pulse_time_def)
  qed
  have "type_loop j f len [0..<unat (num_radar_types e)] e Q = (b, d', P')"
    using op False t by (simp add: dfs_pattern_detector_add_pulse_def)
  moreover have "\<forall>i\<in>set [0..<unat (num_radar_types e)]. i < length (radar_spec e)"
    using e by (simp add: dpd_ok_def)
  ultimately show ?thesis
    using type_loop_acct e same_table_trans by blast
qed

section \<open>Deleting the detectors\<close>

lemma exit_one:
  assumes "pulses_out P = npulses pde + rp" and "pseqs_out P = nseqs pde + rq" and "0 \<le> rp" and "0 \<le> rq"
    and "int (unat (pool_refs P)) = 1 + rn" and "0 \<le> rn" and "rn = 0 \<Longrightarrow> rp = 0 \<and> rq = 0"
  shows "pulses_out (pri_detector_exit pde P) = rp \<and> pseqs_out (pri_detector_exit pde P) = rq \<and>
    int (unat (pool_refs (pri_detector_exit pde P))) = rn \<and>
    (rn = 0 \<longrightarrow> pulse_objs (pri_detector_exit pde P) = 0 \<and> pseq_objs (pri_detector_exit pde P) = 0)"
proof -
  obtain q Q where r: "pri_detector_reset pde 0 P = (q, Q)"
    by (cases "pri_detector_reset pde 0 P")
  have Q: "pulses_out Q = rp" "pseqs_out Q = rq" "pool_refs Q = pool_refs P"
    using reset_spec [OF r] assms(1,2) by (auto simp: keeps_def spare_def npulses_def nseqs_def)
  have nz: "pool_refs P \<noteq> 0"
    using assms(5,6) by auto
  then have "unat (pool_refs P - 1) = unat (pool_refs P) - 1" "0 < unat (pool_refs P)"
    by (simp_all add: unat_minus_one unat_gt_0)
  then have refs: "int (unat (pool_refs P - 1)) = rn"
    using assms(5) by linarith
  have ex: "pri_detector_exit pde P = pool_deregister_ref Q"
    by (simp add: pri_detector_exit_def r)
  show ?thesis
  proof (cases "rn = 0")
    case True
    then have "unat (pool_refs P - 1) = 0"
      using refs by linarith
    then have "pool_refs P - 1 = 0"
      by (simp only: unat_eq_0)
    then show ?thesis
      using True Q assms(7) unfolding ex
      by (simp add: pool_deregister_ref_def Let_def pulses_out_def pseqs_out_def)
  next
    case False
    then have "pool_refs P - 1 \<noteq> 0"
      using refs by auto
    then show ?thesis
      using False Q refs unfolding ex
      by (simp add: pool_deregister_ref_def Let_def pulses_out_def pseqs_out_def)
  qed
qed

lemma fold_concat: "fold (fold g) xss s = fold g (concat xss) s"
  by (induction xss arbitrary: s) simp_all

lemma exit_all:
  "pulses_out P = lsum npulses ds + rp \<Longrightarrow> pseqs_out P = lsum nseqs ds + rq \<Longrightarrow> 0 \<le> rp \<Longrightarrow> 0 \<le> rq \<Longrightarrow>
   int (unat (pool_refs P)) = int (length ds) + rn \<Longrightarrow> 0 \<le> rn \<Longrightarrow> (rn = 0 \<Longrightarrow> rp = 0 \<and> rq = 0) \<Longrightarrow>
   (pool_refs P = 0 \<Longrightarrow> pulse_objs P = 0 \<and> pseq_objs P = 0) \<Longrightarrow>
   pulses_out (fold pri_detector_exit ds P) = rp \<and> pseqs_out (fold pri_detector_exit ds P) = rq \<and>
   int (unat (pool_refs (fold pri_detector_exit ds P))) = rn \<and>
   (rn = 0 \<longrightarrow> pulse_objs (fold pri_detector_exit ds P) = 0 \<and> pseq_objs (fold pri_detector_exit ds P) = 0)"
proof (induction ds arbitrary: P)
  case Nil
  then show ?case
    by (auto simp: uint_0_iff)
next
  case (Cons pde ds)
  define Q where "Q = pri_detector_exit pde P"
  have zero: "lsum npulses ds + rp = 0 \<and> lsum nseqs ds + rq = 0" if "int (length ds) + rn = 0"
  proof -
    have "int (length ds) = 0" "rn = 0"
      using that Cons.prems(6) by linarith+
    then show ?thesis
      using Cons.prems(7) by simp
  qed
  have nn: "0 \<le> lsum npulses ds" "0 \<le> lsum nseqs ds"
    by (simp_all add: lsum_nonneg)
  have q: "pulses_out Q = lsum npulses ds + rp" "pseqs_out Q = lsum nseqs ds + rq"
      "int (unat (pool_refs Q)) = int (length ds) + rn"
      "int (length ds) + rn = 0 \<longrightarrow> pulse_objs Q = 0 \<and> pseq_objs Q = 0"
    using exit_one [of P pde "lsum npulses ds + rp" "lsum nseqs ds + rq" "int (length ds) + rn"]
      Cons.prems zero nn by (simp_all add: Q_def)
  have "pool_refs Q = 0 \<Longrightarrow> pulse_objs Q = 0 \<and> pseq_objs Q = 0"
    using q(3,4) by simp
  with Cons.IH [OF q(1,2) Cons.prems(3,4) q(3) Cons.prems(6)] Cons.prems(7) show ?case
    by (simp add: Q_def)
qed


lemma lsum_concat: "lsum w (concat dss) = sum_list (map (lsum w) dss)"
  by (induction dss) (simp_all add: lsum_def)

lemma lsum_empties: "\<forall>ds\<in>set dss. ds = [] \<Longrightarrow> sum_list (map (lsum w) dss) = 0"
  by (induction dss) simp_all

lemma exit_detectors_acct:
  assumes op: "exit_detectors d P = (d', P')" and ok: "dpd_ok d" and a: "acct (rp, rq, rn) d P"
    and z: "rn = 0 \<Longrightarrow> rp = 0 \<and> rq = 0"
  shows "(\<forall>ds\<in>set (detectors d'). ds = []) \<and> length (detectors d') = types_max \<and> acct (rp, rq, rn) d' P' \<and>
    region d' = region d"
proof -
  define n where "n = unat (num_radar_types d)"
  define ds where "ds = concat (take n (detectors d))"
  note ok' = dpd_okD [OF ok]
  have rest: "\<forall>x\<in>set (drop n (detectors d)). x = []"
    using ok'(2,6) by (simp add: n_def)
  then have t: "tot w d = lsum w ds" for w
    by (simp add: tot_split [of w d n] ds_def lsum_concat lsum_empties)
  have d': "d' = d\<lparr>detectors := map (\<lambda>_. []) (take n (detectors d)) @ drop n (detectors d)\<rparr>"
    and P': "P' = fold pri_detector_exit ds P"
    using op by (simp_all add: exit_detectors_def Let_def n_def ds_def fold_concat)
  have empty: "\<forall>x\<in>set (detectors d'). x = []"
    using rest by (auto simp: d')
  then have "tot w d' = 0" for w
    unfolding tot_def by (rule lsum_empties)
  moreover have "pulses_out P' = rp \<and> pseqs_out P' = rq \<and> int (unat (pool_refs P')) = rn \<and>
      (rn = 0 \<longrightarrow> pulse_objs P' = 0 \<and> pseq_objs P' = 0)"
    unfolding P' using a t z by (intro exit_all) (simp_all add: acct_def lsum_none)
  ultimately have "acct (rp, rq, rn) d' P'"
    using a by (auto simp: acct_def)
  then show ?thesis
    using empty ok'(1-3) by (simp add: d' n_def)
qed


lemma table_sizes:
  assumes "rt \<in> set dfs_domains"
  shows "unat (ucast (rt_num_radar_types rt) :: u8) = length (spec_riu rt)"
    "length (spec_fcu rt) = length (spec_riu rt)" "length (spec_riu rt) \<le> types_max"
  using assms by (auto simp: spec_table_defs types_max_def)

lemma set_domain_acct:
  assumes op: "dfs_pattern_detector_set_domain r c d P = (b, d', P')" and ok: "dpd_ok d"
    and a: "acct (rp, rq, rn) d P" and z: "rn = 0 \<Longrightarrow> rp = 0 \<and> rq = 0"
  shows "dpd_ok d' \<and> acct (rp, rq, rn) d' P'"
proof (cases "region d = r \<or> get_dfs_domain_radar_types r = None")
  case True
  then show ?thesis
    using op ok a by (auto simp: dfs_pattern_detector_set_domain_def Let_def split: if_splits)
next
  case False
  then obtain rt where rt: "get_dfs_domain_radar_types r = Some rt"
    by blast
  then have mem: "rt \<in> set dfs_domains"
    by (auto simp: get_dfs_domain_radar_types_def find_Some_iff)
  obtain e Q where e: "exit_detectors (d\<lparr>region := NL80211_DFS_UNSET\<rparr>) P = (e, Q)"
    by (cases "exit_detectors (d\<lparr>region := NL80211_DFS_UNSET\<rparr>) P")
  define sp where "sp = (if c = AML_RADAR_RIU then spec_riu rt else spec_fcu rt)"
  have d': "d' = e\<lparr>radar_spec := sp, num_radar_types := ucast (rt_num_radar_types rt), region := r\<rparr>" "P' = Q"
    using op False rt e by (auto simp: dfs_pattern_detector_set_domain_def Let_def sp_def)
  have x: "(\<forall>ds\<in>set (detectors e). ds = []) \<and> length (detectors e) = types_max \<and> acct (rp, rq, rn) e Q"
    using exit_detectors_acct [OF e _ _ z] ok a by simp
  have sp: "length sp = unat (ucast (rt_num_radar_types rt) :: u8)" "length sp \<le> types_max"
      "\<forall>x\<in>set sp. entry_ok x"
    using table_sizes [OF mem] tables_ok [OF mem] by (auto simp: sp_def)
  have "dpd_ok d'"
    using x sp by (auto simp: dpd_ok_def d' list_ok_def dest: in_set_dropD)
  moreover have "acct (rp, rq, rn) d' P'"
    using x by (simp add: d' acct_def tot_def)
  ultimately show ?thesis
    by blast
qed

section \<open>The driver\<close>

fun other :: "aml_radar_chain \<Rightarrow> aml_radar_chain" where
  "other AML_RADAR_RIU = AML_RADAR_FCU"
| "other AML_RADAR_FCU = AML_RADAR_RIU"

definition ototal :: "(pri_detector \<Rightarrow> int) \<Rightarrow> dfs_pattern_detector option \<Rightarrow> int" where
  "ototal w d = (case d of None \<Rightarrow> 0 | Some d \<Rightarrow> tot w d)"

type_synonym chains = "aml_radar_chain \<Rightarrow> dfs_pattern_detector option"

definition chains_ok :: "chains \<Rightarrow> bool" where
  "chains_ok ds \<longleftrightarrow> (\<forall>c d. ds c = Some d \<longrightarrow> dpd_ok d)"

definition chains_acct :: "chains \<Rightarrow> pools \<Rightarrow> bool" where
  "chains_acct ds P \<longleftrightarrow>
     pulses_out P = ototal npulses (ds AML_RADAR_RIU) + ototal npulses (ds AML_RADAR_FCU) \<and>
     pseqs_out P = ototal nseqs (ds AML_RADAR_RIU) + ototal nseqs (ds AML_RADAR_FCU) \<and>
     int (unat (pool_refs P)) = ototal none (ds AML_RADAR_RIU) + ototal none (ds AML_RADAR_FCU) \<and>
     (pool_refs P = 0 \<longrightarrow> pulse_objs P = 0 \<and> pseq_objs P = 0)"

definition rest_of :: "chains \<Rightarrow> aml_radar_chain \<Rightarrow> int \<times> int \<times> int" where
  "rest_of ds c = (ototal npulses (ds (other c)), ototal nseqs (ds (other c)), ototal none (ds (other c)))"

lemma ototal_rest:
  assumes "chains_ok ds"
  shows "0 \<le> ototal npulses (ds c) \<and> 0 \<le> ototal nseqs (ds c) \<and> 0 \<le> ototal none (ds c) \<and>
    ototal none (ds c) \<le> 589824 \<and>
    (ototal none (ds c) = 0 \<longrightarrow> ototal npulses (ds c) = 0 \<and> ototal nseqs (ds c) = 0)"
proof (cases "ds c")
  case (Some d)
  then have ok: "dpd_ok d"
    using assms by (simp add: chains_ok_def)
  have "tot npulses d = 0 \<and> tot nseqs d = 0" if "tot none d = 0"
    using lsum_empties tot_none_zero [OF ok that] by (simp add: tot_def)
  then show ?thesis
    using Some tot_none_bound [OF ok] by (simp add: ototal_def tot_nonneg)
qed (simp add: ototal_def)

lemma chains_acct_iff:
  assumes "chains_ok ds" and "ds c = Some d"
  shows "chains_acct ds P \<longleftrightarrow> acct (rest_of ds c) d P"
  using ototal_rest [OF assms(1), of "other c"] assms(2)
  by (cases c) (auto simp: chains_acct_def acct_def rest_of_def ototal_def)

lemma chains_acct_upd:
  assumes "chains_ok ds" and "acct (rest_of ds c) d P" and "dpd_ok d"
  shows "chains_ok (ds(c := Some d)) \<and> chains_acct (ds(c := Some d)) P"
proof -
  have ok: "chains_ok (ds(c := Some d))"
    using assms(1,3) by (auto simp: chains_ok_def)
  have "rest_of (ds(c := Some d)) c = rest_of ds c"
    by (cases c) (simp_all add: rest_of_def)
  then show ?thesis
    using ok chains_acct_iff [OF ok, of c d P] assms(2) by simp
qed

text \<open>An operation on the pattern detector of one chain.\<close>

lemma chain_pulse:
  assumes ok: "chains_ok ds" and a: "chains_acct ds P" and d: "ds c = Some d"
    and op: "dfs_pattern_detector_add_pulse ju j f p len nw d P = (b, d', P')"
  shows "chains_ok (ds(c := Some d')) \<and> chains_acct (ds(c := Some d')) P'"
proof -
  have "dpd_ok d" "acct (rest_of ds c) d P"
    using ok a d chains_acct_iff [OF ok d] by (auto simp: chains_ok_def)
  from add_pulse_acct [OF op this] show ?thesis
    using ok by (intro chains_acct_upd) simp_all
qed

lemma chain_domain:
  assumes ok: "chains_ok ds" and a: "chains_acct ds P" and d: "ds c = Some d"
    and op: "dfs_pattern_detector_set_domain r c' d P = (b, d', P')"
  shows "chains_ok (ds(c := Some d')) \<and> chains_acct (ds(c := Some d')) P'"
proof -
  have "dpd_ok d" "acct (rest_of ds c) d P"
    using ok a d chains_acct_iff [OF ok d] by (auto simp: chains_ok_def)
  then have "dpd_ok d' \<and> acct (rest_of ds c) d' P'"
    using set_domain_acct [OF op] ototal_rest [OF ok, of "other c"] by (simp add: rest_of_def)
  then show ?thesis
    using ok by (intro chains_acct_upd) simp_all
qed

lemma chain_exit:
  assumes ok: "chains_ok ds" and a: "chains_acct ds P" and d: "ds c = Some d"
  shows "chains_ok (ds(c := None)) \<and> chains_acct (ds(c := None)) (dfs_pattern_detector_exit d P)"
proof -
  obtain e Q where e: "exit_detectors d P = (e, Q)"
    by (cases "exit_detectors d P")
  have "dpd_ok d" "acct (rest_of ds c) d P"
    using ok a d chains_acct_iff [OF ok d] by (auto simp: chains_ok_def)
  then have x: "\<forall>l\<in>set (detectors e). l = []" "acct (rest_of ds c) e Q"
    using exit_detectors_acct [OF e] ototal_rest [OF ok, of "other c"] by (simp_all add: rest_of_def)
  then have "tot w e = 0" for w
    using lsum_empties by (simp add: tot_def)
  then have "chains_acct (ds(c := None)) Q"
    using x(2) by (cases c) (auto simp: chains_acct_def acct_def rest_of_def ototal_def)
  then show ?thesis
    using ok e by (auto simp: chains_ok_def dfs_pattern_detector_exit_def)
qed

lemma chain_init:
  assumes ok: "chains_ok ds" and a: "chains_acct ds P" and d: "ds c = None"
    and op: "dfs_pattern_detector_init j NL80211_DFS_UNSET c' P = (r, P')"
  shows "chains_ok (ds(c := r)) \<and> chains_acct (ds(c := r)) P'"
proof -
  obtain m Q where m: "kmalloc P = (m, Q)"
    by (cases "kmalloc P")
  obtain ks where Q: "Q = P\<lparr>kmallocs := ks\<rparr>"
    using kmalloc_cases [OF m] by blast
  define d0 where "d0 = \<lparr>enabled = 0, region = NL80211_DFS_UNSET, num_radar_types = 0, last_pulse_ts = 0,
     prev_jiffies = j, radar_spec = [], detectors = replicate (unat get_dfs_max_radar_types) []\<rparr>"
  have aQ: "chains_acct ds Q"
    using a by (simp add: Q chains_acct_def pulses_out_def pseqs_out_def)
  have res: "P' = Q \<and> (r = None \<or> r = Some d0)"
    using op m by (cases m) (auto simp: dfs_pattern_detector_init_def dfs_pattern_detector_set_domain_def d0_def)
  have "tot w d0 = 0" for w
    by (simp add: tot_def d0_def sum_list_replicate)
  then have "ototal w r = 0" for w
    using res by (auto simp: ototal_def)
  moreover have "ototal w (ds c) = 0" for w
    using d by (simp add: ototal_def)
  ultimately have "chains_acct (ds(c := r)) P'"
    using aQ res by (cases c) (auto simp: chains_acct_def)
  moreover have "dpd_ok d0"
    by (simp add: dpd_ok_def d0_def max_types types_max_def list_ok_def)
  ultimately show ?thesis
    using ok res by (auto simp: chains_ok_def)
qed


text \<open>What the driver's state satisfies between events.\<close>

definition radar_inv :: "radar_hw \<Rightarrow> bool" where
  "radar_inv hw \<longleftrightarrow> \<not> rlock (radar_st hw) \<and> (\<forall>c. ring_ok (rpulses (radar_st hw) c)) \<and>
     chains_ok (dpds (radar_st hw)) \<and> chains_acct (dpds (radar_st hw)) (pool hw)"

text \<open>Operations that change nothing of it but the switches of the detectors.\<close>

definition off :: "dfs_pattern_detector option \<Rightarrow> dfs_pattern_detector option" where
  "off o' = map_option (\<lambda>d. d\<lparr>enabled := 0\<rparr>) o'"

definition same_core :: "radar_hw \<Rightarrow> radar_hw \<Rightarrow> bool" where
  "same_core hw hw' \<longleftrightarrow> rlock (radar_st hw') = rlock (radar_st hw) \<and>
     rpulses (radar_st hw') = rpulses (radar_st hw) \<and> pool hw' = pool hw \<and>
     (\<forall>c. off (dpds (radar_st hw') c) = off (dpds (radar_st hw) c))"

lemma same_core_refl [simp]: "same_core hw hw"
  by (simp add: same_core_def)

lemma same_core_trans: "same_core a b \<Longrightarrow> same_core b c \<Longrightarrow> same_core a c"
  by (simp add: same_core_def)

lemma off_Some:
  assumes "off a = off b" and "a = Some d"
  shows "\<exists>e. b = Some e \<and> (\<forall>w. tot w e = tot w d) \<and> dpd_ok e = dpd_ok d"
proof -
  obtain e where e: "b = Some e" "d\<lparr>enabled := 0\<rparr> = e\<lparr>enabled := 0\<rparr>"
    using assms by (cases b) (auto simp: off_def)
  have "tot w e = tot w d" for w
    using tot_time(3) [of w 0 d] tot_time(3) [of w 0 e] e(2) by simp
  moreover have "dpd_ok e = dpd_ok d"
    using dpd_ok_time(3) [of 0 d] dpd_ok_time(3) [of 0 e] e(2) by simp
  ultimately show ?thesis
    using e(1) by blast
qed

lemma off_ototal:
  assumes "off a = off b"
  shows "ototal w a = ototal w b"
proof (cases a)
  case None
  then show ?thesis
    using assms by (cases b) (auto simp: off_def)
next
  case (Some d)
  then show ?thesis
    using off_Some [OF assms Some] by (auto simp: ototal_def)
qed

lemma same_core_inv:
  assumes "same_core hw hw'" and "radar_inv hw"
  shows "radar_inv hw'"
proof -
  have off: "off (dpds (radar_st hw') c) = off (dpds (radar_st hw) c)" for c
    using assms(1) by (simp add: same_core_def)
  have "chains_ok (dpds (radar_st hw'))"
    unfolding chains_ok_def
  proof (intro allI impI)
    fix c d assume "dpds (radar_st hw') c = Some d"
    then show "dpd_ok d"
      using off_Some [OF off, of c d] assms(2) by (auto simp: radar_inv_def chains_ok_def)
  qed
  moreover have "chains_acct (dpds (radar_st hw')) (pool hw')"
    using assms by (simp add: radar_inv_def chains_acct_def off_ototal [OF off] same_core_def)
  ultimately show ?thesis
    using assms by (simp add: radar_inv_def same_core_def)
qed

lemma enable_core: "aml_radar_detection_enable e c hw = Some hw' \<Longrightarrow> same_core hw hw'"
  by (auto simp: aml_radar_detection_enable_def spin_lock_def spin_unlock_def same_core_def off_def
      split: if_splits option.splits bind_splits)

lemma enable_cur_core: "aml_radar_detection_enable_on_cur_channel hw = Some hw' \<Longrightarrow> same_core hw hw'"
  by (auto simp: aml_radar_detection_enable_on_cur_channel_def split: if_splits bind_splits dest: enable_core)

lemma same_core_ctx [simp]:
  "same_core hw (h\<lparr>chanctx_table := t\<rparr>) = same_core hw h" "same_core hw (h\<lparr>vif_ch_index := v\<rparr>) = same_core hw h"
  "same_core hw (h\<lparr>outputs := u\<rparr>) = same_core hw h" "same_core hw (h\<lparr>cur_chanctx := x\<rparr>) = same_core hw h"
  "same_core (h\<lparr>chanctx_table := t\<rparr>) hw = same_core h hw" "same_core (h\<lparr>outputs := u\<rparr>) hw = same_core h hw"
  by (simp_all add: same_core_def)

lemma same_core_cac [simp]:
  "same_core hw (upd_radar (\<lambda>r. r\<lparr>cac_vif := v\<rparr>) h) = same_core hw h"
  "same_core hw (upd_radar (\<lambda>r. r\<lparr>cac_work := w\<rparr>) h) = same_core hw h"
  "same_core hw (upd_radar (\<lambda>r. r\<lparr>cac_vif := v, cac_work := w\<rparr>) h) = same_core hw h"
  "same_core hw (upd_radar (\<lambda>r. r\<lparr>detected := u\<rparr>) h) = same_core hw h"
  "same_core (upd_radar (\<lambda>r. r\<lparr>cac_work := w\<rparr>) h) hw = same_core h hw"
  by (simp_all add: same_core_def)

lemma link_core: "aml_chanctx_link en vif ch cd hw = Some hw' \<Longrightarrow> same_core hw hw'"
  by (auto simp: aml_chanctx_link_def Let_def split: if_splits option.splits bind_splits)

lemma unlink_core: "aml_chanctx_unlink vif hw = Some hw' \<Longrightarrow> same_core hw hw'"
  by (auto simp: aml_chanctx_unlink_def Let_def split: if_splits option.splits bind_splits dest!: enable_core)

lemma cac_work_core: "aml_radar_cac_work hw = Some hw' \<Longrightarrow> same_core hw hw'"
  by (auto simp: aml_radar_cac_work_def Let_def split: if_splits option.splits bind_splits dest!: unlink_core)

lemma cancel_core: "aml_radar_cancel_cac hw = Some hw' \<Longrightarrow> same_core hw hw'"
  by (auto simp: aml_radar_cancel_cac_def Let_def split: if_splits option.splits bind_splits dest!: unlink_core)

lemma start_core: "aml_cfg80211_start_radar_detection en vif cd cfm hw = Some (r, hw') \<Longrightarrow> same_core hw hw'"
  by (auto simp: aml_cfg80211_start_radar_detection_def aml_radar_start_cac_def Let_def
      split: if_splits option.splits bind_splits dest!: link_core enable_core intro: same_core_trans)
   (auto simp: same_core_def)


lemma detected_core: "aml_radar_detected_ev hw = Some hw' \<Longrightarrow> same_core hw hw'"
  by (auto simp: aml_radar_detected_ev_def split: if_splits bind_splits dest!: cancel_core)

lemma record_core: "record_detected s c f hw = Some hw' \<Longrightarrow> same_core hw hw'"
  by (auto simp: record_detected_def Let_def split: bind_splits)

lemma lock_core:
  assumes "spin_lock hw = Some h"
  shows "same_core hw (spin_unlock h)"
  using assms by (auto simp: spin_lock_def spin_unlock_def same_core_def split: if_splits)

lemma inv_reset_count:
  "radar_inv hw \<Longrightarrow>
   radar_inv (upd_radar (\<lambda>r. r\<lparr>rpulses := (rpulses r)(c := (rpulses r c)\<lparr>pulse_cnt := 0\<rparr>)\<rparr>) hw)"
  by (auto simp: radar_inv_def ring_ok_def)

lemma on_radar_inv:
  assumes "on_radar s c f hw = Some hw'" and inv: "radar_inv hw"
  shows "radar_inv hw'"
proof -
  obtain h where h: "(if c = AML_RADAR_RIU
        then do {
          hw \<leftarrow> spin_lock hw;
          d \<leftarrow> dpds (radar_st hw) c;
          let hw = spin_unlock hw;
          (if enabled d = AML_RADAR_DETECT_REPORT
           then do {
             hw \<leftarrow> aml_radar_detected_ev hw;
             hw \<leftarrow> aml_radar_detection_enable AML_RADAR_DETECT_DISABLE 0 hw;
             Some (upd_radar (\<lambda>r. r\<lparr>rpulses := (rpulses r)(c := (rpulses r c)\<lparr>pulse_cnt := 0\<rparr>)\<rparr>) hw)
           }
           else Some hw)
        }
        else Some hw) = Some h" and r: "record_detected s c f h = Some hw'"
    using assms(1) by (auto simp: on_radar_def split: bind_splits)
  have "radar_inv h"
  proof (cases "c = AML_RADAR_RIU")
    case True
    obtain h1 d where l: "spin_lock hw = Some h1" "dpds (radar_st h1) c = Some d"
      using h True by (auto split: bind_splits)
    have i1: "radar_inv (spin_unlock h1)"
      using same_core_inv [OF lock_core [OF l(1)] inv] .
    show ?thesis
    proof (cases "enabled d = AML_RADAR_DETECT_REPORT")
      case rep: True
      obtain h2 h3 where "aml_radar_detected_ev (spin_unlock h1) = Some h2"
        "aml_radar_detection_enable AML_RADAR_DETECT_DISABLE 0 h2 = Some h3"
        "h = upd_radar (\<lambda>r. r\<lparr>rpulses := (rpulses r)(c := (rpulses r c)\<lparr>pulse_cnt := 0\<rparr>)\<rparr>) h3"
        using h True l rep by (auto simp: Let_def split: bind_splits)
      then show ?thesis
        using i1 detected_core enable_core same_core_inv inv_reset_count by blast
    next
      case False
      then show ?thesis
        using h True l i1 by (simp add: Let_def)
    qed
  next
    case False
    then show ?thesis
      using h inv by simp
  qed
  then show ?thesis
    using same_core_inv [OF record_core [OF r]] by blast
qed

lemma chain_loop_inv:
  "chain_loop ck c f ws hw = Some hw' \<Longrightarrow> radar_inv hw \<Longrightarrow> radar_inv hw'"
proof (induction ws arbitrary: hw)
  case (Cons w ws)
  obtain d where d: "dpds (radar_st hw) c = Some d"
    using Cons.prems(1) by (auto split: bind_splits)
  define pf where "pf = f + of_int (2 * pulse_freq w)"
  obtain found e P where op: "dfs_pattern_detector_add_pulse (jiffies_to_usecs ck) (jiffies ck) pf (pulse_rep w)
      (pulse_len w * 2) (now ck) d (pool hw) = (found, e, P)"
    by (metis prod_cases3)
  define h where "h = (upd_radar (\<lambda>r. r\<lparr>dpds := (dpds r)(c := Some e)\<rparr>) hw)\<lparr>pool := P\<rparr>"
  have "radar_inv h"
    using Cons.prems(2) chain_pulse [of "dpds (radar_st hw)" "pool hw" c d, OF _ _ d op]
    by (auto simp: radar_inv_def h_def)
  moreover have "(if found then on_radar (real_seconds ck) c pf h else chain_loop ck c f ws h) = Some hw'"
    using Cons.prems(1) d op by (cases found) (simp_all add: Let_def pf_def h_def)
  ultimately show ?case
    using on_radar_inv Cons.IH by (cases found) auto
qed simp

lemma process_inv:
  assumes "aml_radar_process_pulse ck hw = Some hw'" and inv: "radar_inv hw"
  shows "radar_inv hw'"
proof -
  define p where "p = rpulses (radar_st hw)"
  define h where "h = upd_radar (\<lambda>r. r\<lparr>detection_work := False,
      rpulses := \<lambda>c. (p c)\<lparr>pulse_cnt := 0\<rparr>, rlock := False\<rparr>) hw"
  have free: "\<not> rlock (radar_st hw)"
    using inv by (simp add: radar_inv_def)
  have "radar_inv h"
    using inv by (auto simp: radar_inv_def h_def p_def ring_ok_def)
  moreover define l where "l = upd_radar (\<lambda>r. r\<lparr>detection_work := False, rlock := True\<rparr>) hw"
  have lock: "spin_lock (upd_radar (\<lambda>r. r\<lparr>detection_work := False\<rparr>) hw) = Some l"
    using free by (simp add: spin_lock_def l_def)
  have unlock: "spin_unlock (upd_radar (\<lambda>r. r\<lparr>rpulses := \<lambda>c. (rpulses (radar_st l) c)\<lparr>pulse_cnt := 0\<rparr>\<rparr>) l) = h"
    by (simp add: spin_unlock_def l_def h_def p_def)
  obtain a b h1 where
    h1: "(if a = [] then Some h
       else chain_loop ck AML_RADAR_RIU (aml_radar_get_center_freq AML_RADAR_RIU h) a h) = Some h1"
    and h2: "(if b = [] then Some h1
       else chain_loop ck AML_RADAR_FCU (aml_radar_get_center_freq AML_RADAR_FCU h1) b h1) = Some hw'"
    using assms(1) unfolding aml_radar_process_pulse_def Let_def lock bind.bind_lunit unlock
    by (auto split: bind_splits)
  ultimately show ?thesis
    using chain_loop_inv by (metis option.inject)
qed

lemma store_pulses_inv:
  "radar_inv hw \<Longrightarrow> store_pulses ws (rpulses (radar_st hw) c) = Some p \<Longrightarrow>
   radar_inv (upd_radar (\<lambda>r. r\<lparr>rpulses := (rpulses r)(c := p), detection_work := True\<rparr>) hw)"
  using store_pulses_ok [of "rpulses (radar_st hw) c" ws] by (auto simp: radar_inv_def)

lemma irq_inv:
  assumes "ipc_host_radar_handler pl rd hw = Some hw'" and inv: "radar_inv hw"
  shows "radar_inv hw'"
proof -
  obtain h1 h2 where "spin_lock (if aml_bus_type pl = PCIE_MODE then hw else hw\<lparr>g_pulses := rd\<rparr>) = Some h1"
    "radar_poll pl h1 = Some h2" "hw' = spin_unlock h2"
    using assms(1) by (auto simp: ipc_host_radar_handler_def Let_def split: bind_splits)
  then have "radar_st hw' = radar_st hw" "pool hw' = pool hw"
    using locked_poll [of h1 pl h2] unlocked [of "radar_st hw"]
    by (auto simp: spin_lock_def spin_unlock_def split: if_splits)
  then show ?thesis
    using inv by (simp add: radar_inv_def)
qed


lemma deinit_inv:
  assumes "radar_inv hw"
  shows "radar_inv (aml_radar_detection_deinit hw) \<and> dpds (radar_st (aml_radar_detection_deinit hw)) = (\<lambda>_. None)"
proof -
  define ex where "ex c hw = (case dpds (radar_st hw) c of
           None \<Rightarrow> hw
         | Some d \<Rightarrow> (upd_radar (\<lambda>r. r\<lparr>dpds := (dpds r)(c := None)\<rparr>) hw)
                       \<lparr>pool := dfs_pattern_detector_exit d (pool hw)\<rparr>)" for c hw
  have ex: "radar_inv (ex c h) \<and> dpds (radar_st (ex c h)) = (dpds (radar_st h))(c := None)"
    if "radar_inv h" for c h
  proof (cases "dpds (radar_st h) c")
    case None
    then have "(dpds (radar_st h))(c := None) = dpds (radar_st h)"
      by (simp add: fun_upd_idem)
    then show ?thesis
      using None that by (simp add: ex_def)
  next
    case (Some d)
    then show ?thesis
      using that chain_exit [of "dpds (radar_st h)" "pool h" c d] by (auto simp: ex_def radar_inv_def)
  qed
  have eq: "aml_radar_detection_deinit hw = ex AML_RADAR_FCU (ex AML_RADAR_RIU hw)"
    by (simp add: aml_radar_detection_deinit_def Let_def ex_def)
  have "dpds (radar_st (aml_radar_detection_deinit hw)) c = None" for c
    using ex [OF assms, of AML_RADAR_RIU] ex [of "ex AML_RADAR_RIU hw" AML_RADAR_FCU]
    unfolding eq by (cases c) simp_all
  then show ?thesis
    using ex [OF assms, of AML_RADAR_RIU] ex [of "ex AML_RADAR_RIU hw" AML_RADAR_FCU]
    unfolding eq by auto
qed

lemma init_chain_inv:
  assumes "radar_inv hw" and "dpds (radar_st hw) c = None"
  shows "radar_inv (init_chain j c hw) \<and> dpds (radar_st (init_chain j c hw)) (other c) = dpds (radar_st hw) (other c)"
proof -
  obtain r Q where op: "dfs_pattern_detector_init j NL80211_DFS_UNSET c (pool hw) = (r, Q)"
    by (cases "dfs_pattern_detector_init j NL80211_DFS_UNSET c (pool hw)")
  then show ?thesis
    using assms chain_init [of "dpds (radar_st hw)" "pool hw" c j c r Q]
    by (cases c) (auto simp: init_chain_def radar_inv_def)
qed

lemma detector_init_inv:
  assumes "radar_inv hw" and "dpds (radar_st hw) = (\<lambda>_. None)"
  shows "radar_inv (snd (aml_radar_detection_init j hw))"
proof -
  define h where "h = init_chain j AML_RADAR_RIU (upd_radar (\<lambda>r. r\<lparr>rlock := False\<rparr>) hw)"
  have h: "radar_inv h" "dpds (radar_st h) AML_RADAR_FCU = None"
    using init_chain_inv [of "upd_radar (\<lambda>r. r\<lparr>rlock := False\<rparr>) hw" AML_RADAR_RIU j] assms
    by (auto simp: h_def radar_inv_def)
  have g: "radar_inv (init_chain j AML_RADAR_FCU h)"
    using init_chain_inv [OF h] by blast
  have "radar_inv (upd_radar (\<lambda>r. r\<lparr>detection_work := False, cac_work := False, cac_vif := None\<rparr>) k) = radar_inv k" for k
    by (simp add: radar_inv_def)
  then show ?thesis
    using h g deinit_inv by (auto simp: aml_radar_detection_init_def Let_def h_def [symmetric])
qed

lemma set_chain_inv:
  assumes "set_chain_domain r c hw = Some (ok, hw')" and "radar_inv hw"
  shows "radar_inv hw'"
proof -
  obtain d where d: "dpds (radar_st hw) c = Some d"
    using assms(1) by (auto simp: set_chain_domain_def split: bind_splits)
  obtain b e P where op: "dfs_pattern_detector_set_domain r c d (pool hw) = (b, e, P)"
    by (metis prod_cases3)
  have "hw' = (upd_radar (\<lambda>r. r\<lparr>dpds := (dpds r)(c := Some e)\<rparr>) hw)\<lparr>pool := P\<rparr>"
    using assms(1) d op by (simp add: set_chain_domain_def)
  then show ?thesis
    using assms(2) chain_domain [of "dpds (radar_st hw)" "pool hw" c d, OF _ _ d op]
    by (auto simp: radar_inv_def)
qed

lemma set_domain_inv:
  "aml_radar_set_domain r hw = Some (ok, hw') \<Longrightarrow> radar_inv hw \<Longrightarrow> radar_inv hw'"
  by (auto simp: aml_radar_set_domain_def split: if_splits bind_splits dest!: set_chain_inv)

section \<open>Every reachable state\<close>

text \<open>
  The events that drive the radar detection. \<open>aml_radar_detection_init\<close> is called by the
  probe of the device only, when no detector exists; \<open>Ind\<close> is \<open>aml_radarind\<close> called
  without the lock, \<open>Irq\<close> the interrupt handler as it is.
\<close>

datatype radar_ev =
    Init u32
  | Deinit
  | Set_domain nl80211_dfs_regions
  | Ind plat
  | Irq plat radar_pulse_array_desc
  | Detection_work clock
  | Enable u8 u32
  | Enable_cur
  | Start_cac bool nat cfg80211_chan_def "u8 option"
  | Cac_timer
  | Cancel_cac
  | Link bool nat u8 "cfg80211_chan_def option"
  | Unlink nat
  | Switch_channel u8

fun radar_step :: "radar_ev \<Rightarrow> radar_hw \<Rightarrow> radar_hw option" where
  "radar_step (Init j) hw =
     (if dpds (radar_st hw) AML_RADAR_RIU = None \<and> dpds (radar_st hw) AML_RADAR_FCU = None
      then Some (snd (aml_radar_detection_init j hw)) else None)"
| "radar_step Deinit hw = Some (aml_radar_detection_deinit hw)"
| "radar_step (Set_domain r) hw = map_option snd (aml_radar_set_domain r hw)"
| "radar_step (Ind pl) hw = map_option snd (aml_radarind pl hw)"
| "radar_step (Irq pl rd) hw = ipc_host_radar_handler pl rd hw"
| "radar_step (Detection_work ck) hw = aml_radar_process_pulse ck hw"
| "radar_step (Enable e c) hw = aml_radar_detection_enable e c hw"
| "radar_step Enable_cur hw = aml_radar_detection_enable_on_cur_channel hw"
| "radar_step (Start_cac en vif cd cfm) hw = map_option snd (aml_cfg80211_start_radar_detection en vif cd cfm hw)"
| "radar_step Cac_timer hw = aml_radar_cac_work hw"
| "radar_step Cancel_cac hw = aml_radar_cancel_cac hw"
| "radar_step (Link en vif ch cd) hw = aml_chanctx_link en vif ch cd hw"
| "radar_step (Unlink vif) hw = aml_chanctx_unlink vif hw"
| "radar_step (Switch_channel ch) hw = Some (hw\<lparr>cur_chanctx := ch\<rparr>)"


lemma ind_inv:
  assumes "aml_radarind pl hw = Some (ret, hw')" and inv: "radar_inv hw"
  shows "radar_inv hw'"
proof -
  have clear: "radar_inv h' \<longleftrightarrow> radar_inv h" if "clear_desc pl h = Some h'" for h h'
    using that by (auto simp: clear_desc_def radar_inv_def split: if_splits bind_splits prod.splits)
  have idx: "radar_inv (h\<lparr>radar_pulse_index := x\<rparr>) \<longleftrightarrow> radar_inv h" for h x
    by (simp add: radar_inv_def)
  have on: "radar_inv h'" if en: "aml_radar_detection_is_enable c h = Some (b, h')" and hi: "radar_inv h" for c b h h'
  proof -
    obtain k where "spin_lock h = Some k" "h' = spin_unlock k"
      using en by (auto simp: aml_radar_detection_is_enable_def split: bind_splits)
    then show ?thesis
      using same_core_inv [OF lock_core hi] by blast
  qed
  show ?thesis
    using assms
    by (auto simp: aml_radarind_def Let_def clear idx split: if_splits option.splits bind_splits prod.splits
        dest!: on intro: store_pulses_inv)
qed

lemma radar_step_inv:
  assumes "radar_step e hw = Some hw'" and inv: "radar_inv hw"
  shows "radar_inv hw'"
proof (cases e)
  case (Init j)
  then have "dpds (radar_st hw) c = None" for c
    using assms(1) by (cases c) (auto split: if_splits)
  then have "dpds (radar_st hw) = (\<lambda>_. None)"
    by (rule ext)
  then show ?thesis
    using Init assms detector_init_inv by (auto split: if_splits)
next
  case Deinit
  then show ?thesis
    using assms deinit_inv by auto
next
  case (Set_domain r)
  then show ?thesis
    using assms set_domain_inv by auto
next
  case (Ind pl)
  then show ?thesis
    using assms ind_inv by auto
next
  case (Irq pl rd)
  then show ?thesis
    using assms irq_inv by auto
next
  case (Detection_work ck)
  then show ?thesis
    using assms process_inv by auto
next
  case (Switch_channel ch)
  then show ?thesis
    using assms by (auto simp: radar_inv_def)
qed (use assms(1) in \<open>auto intro!: same_core_inv [OF _ inv] intro: enable_core enable_cur_core start_core
      cac_work_core cancel_core link_core unlink_core\<close>)

lemma probe_inv: "radar_inv (probe_hw env mem)"
  by (simp add: radar_inv_def probe_hw_def probe_radar_def ring_ok_def chains_ok_def chains_acct_def
      ototal_def pulses_out_def pseqs_out_def)

interpretation radar_events: guarded_machine radar_step radar_inv
  by unfold_locales (rule radar_step_inv)

definition all_detectors :: "radar_hw \<Rightarrow> pri_detector list" where
  "all_detectors hw = concat (map (\<lambda>c. case dpds (radar_st hw) c of None \<Rightarrow> [] | Some d \<Rightarrow> concat (detectors d))
     [AML_RADAR_RIU, AML_RADAR_FCU])"

lemma lsum_all: "lsum w (all_detectors hw) =
    ototal w (dpds (radar_st hw) AML_RADAR_RIU) + ototal w (dpds (radar_st hw) AML_RADAR_FCU)"
  by (auto simp: all_detectors_def ototal_def tot_def lsum_concat [symmetric] lsum_def split: option.splits)

lemma lsum_nat:
  "lsum npulses ds = int (sum_list (map (\<lambda>pde. length (pulses pde)) ds))"
  "lsum nseqs ds = int (sum_list (map (\<lambda>pde. length (sequences pde)) ds))"
  by (induction ds) (simp_all add: npulses_def nseqs_def)

lemma radar_inv_memory:
  assumes "radar_inv hw"
  shows "pulse_objs (pool hw) = pulse_pool (pool hw) +
      sum_list (map (\<lambda>pde. length (pulses pde)) (all_detectors hw))"
    and "pseq_objs (pool hw) = length (pseq_pool (pool hw)) +
      sum_list (map (\<lambda>pde. length (sequences pde)) (all_detectors hw))"
    and "unat (pool_refs (pool hw)) = length (all_detectors hw)"
    and "all_detectors hw = [] \<Longrightarrow> pulse_objs (pool hw) = 0 \<and> pseq_objs (pool hw) = 0"
proof -
  have a: "chains_acct (dpds (radar_st hw)) (pool hw)"
    using assms by (simp add: radar_inv_def)
  have "pulses_out (pool hw) = lsum npulses (all_detectors hw)" "pseqs_out (pool hw) = lsum nseqs (all_detectors hw)"
    "int (unat (pool_refs (pool hw))) = lsum none (all_detectors hw)"
    using a by (simp_all add: chains_acct_def lsum_all)
  then show "pulse_objs (pool hw) = pulse_pool (pool hw) +
      sum_list (map (\<lambda>pde. length (pulses pde)) (all_detectors hw))"
    and "pseq_objs (pool hw) = length (pseq_pool (pool hw)) +
      sum_list (map (\<lambda>pde. length (sequences pde)) (all_detectors hw))"
    and refs: "unat (pool_refs (pool hw)) = length (all_detectors hw)"
    unfolding lsum_nat lsum_none pulses_out_def pseqs_out_def by linarith+
  show "pulse_objs (pool hw) = 0 \<and> pseq_objs (pool hw) = 0" if "all_detectors hw = []"
    using a refs that by (auto simp: chains_acct_def unat_eq_0)
qed

lemma radar_inv_queues:
  assumes "radar_inv hw" and "pde \<in> set (all_detectors hw)"
  shows "pde_wf pde"
proof -
  obtain c d ds where "dpds (radar_st hw) c = Some d" "ds \<in> set (detectors d)" "pde \<in> set ds"
    using assms(2) by (auto simp: all_detectors_def split: option.splits) metis+
  then show ?thesis
    using assms(1) by (auto simp: radar_inv_def chains_ok_def dpd_ok_def list_ok_def)
qed

text \<open>Property C11. Memory of the radar detection: in every state the driver reaches, each list
  element obtained from the allocator is in exactly one pulse queue, sequence list or pool,
  the reference count of the pools is the number of detectors, the queues are bounded and
  agree with their counters, and after \<open>aml_radar_detection_deinit\<close> nothing is left.\<close>

theorem radar_memory_accounted:
  assumes "run radar_step es (probe_hw env mem) = Some hw"
  shows "pulse_objs (pool hw) = pulse_pool (pool hw) +
      sum_list (map (\<lambda>pde. length (pulses pde)) (all_detectors hw)) \<and>
    pseq_objs (pool hw) = length (pseq_pool (pool hw)) +
      sum_list (map (\<lambda>pde. length (sequences pde)) (all_detectors hw)) \<and>
    unat (pool_refs (pool hw)) = length (all_detectors hw) \<and>
    (\<forall>pde\<in>set (all_detectors hw). unat (pcount pde) = length (pulses pde) \<and> pcount pde < max_count pde) \<and>
    pulse_objs (pool (aml_radar_detection_deinit hw)) = 0 \<and>
    pseq_objs (pool (aml_radar_detection_deinit hw)) = 0"
proof -
  have inv: "radar_inv hw"
    using radar_events.inv_run [OF probe_inv assms] .
  note m = radar_inv_memory [OF inv] and q = radar_inv_queues [OF inv]
  have "all_detectors (aml_radar_detection_deinit hw) = []"
    using deinit_inv [OF inv] by (simp add: all_detectors_def)
  then have "pulse_objs (pool (aml_radar_detection_deinit hw)) = 0 \<and>
      pseq_objs (pool (aml_radar_detection_deinit hw)) = 0"
    using radar_inv_memory(4) deinit_inv [OF inv] by blast
  then show ?thesis
    using m q by (simp add: pde_wf_def)
qed


theorem radar_memory_accounted_witness:
  "\<forall>env. \<exists>hw. run radar_step [Init 0, Set_domain NL80211_DFS_FCC, Enable 2 0]
       (probe_hw env [Some (burst_seq (FCC_PATTERN 6 0 8 333 333 1 9 RADAR_WAVEFORM_SHORT) 0 0 0),
                      Some (burst_seq (FCC_PATTERN 6 0 8 333 333 1 9 RADAR_WAVEFORM_SHORT) 0 0 0)]) = Some hw \<and>
    dpds (radar_st hw) AML_RADAR_RIU \<noteq> None \<and>
    unat (pool_refs (pool hw)) = length (all_detectors hw) \<and>
    pulse_objs (pool (aml_radar_detection_deinit hw)) = 0"
proof
  fix env
  define junk where "junk = burst_seq (FCC_PATTERN 6 0 8 333 333 1 9 RADAR_WAVEFORM_SHORT) 0 0 0"
  have "\<exists>hw. run radar_step [Init 0, Set_domain NL80211_DFS_FCC, Enable 2 0] (probe_hw env [Some junk, Some junk]) = Some hw \<and>
      dpds (radar_st hw) AML_RADAR_RIU \<noteq> None"
    by (simp add: probe_hw_def probe_radar_def aml_radar_detection_init_def init_chain_def dfs_pattern_detector_init_def
        dfs_pattern_detector_set_domain_def kmalloc_def aml_radar_set_domain_def set_chain_domain_def
        get_dfs_domain_radar_types_def dfs_domains_def etsi_radar_types_v17_def fcc_radar_types_def
        exit_detectors_def max_types aml_radar_detection_enable_def spin_lock_def spin_unlock_def chain_of_def Let_def)
  then obtain hw where hw: "run radar_step [Init 0, Set_domain NL80211_DFS_FCC, Enable 2 0]
      (probe_hw env [Some junk, Some junk]) = Some hw" "dpds (radar_st hw) AML_RADAR_RIU \<noteq> None"
    by blast
  with radar_memory_accounted [OF hw(1)]
  show "\<exists>hw. run radar_step [Init 0, Set_domain NL80211_DFS_FCC, Enable 2 0]
       (probe_hw env [Some (burst_seq (FCC_PATTERN 6 0 8 333 333 1 9 RADAR_WAVEFORM_SHORT) 0 0 0),
                      Some (burst_seq (FCC_PATTERN 6 0 8 333 333 1 9 RADAR_WAVEFORM_SHORT) 0 0 0)]) = Some hw \<and>
    dpds (radar_st hw) AML_RADAR_RIU \<noteq> None \<and>
    unat (pool_refs (pool hw)) = length (all_detectors hw) \<and>
    pulse_objs (pool (aml_radar_detection_deinit hw)) = 0"
    unfolding junk_def by blast
qed

section \<open>A check without a channel\<close>

text \<open>When the firmware refuses to start the channel availability check, the driver
  returns an error but leaves \<open>cac_vif\<close> and the timer armed; the interface has no channel
  context then (\<open>AML_CH_NOT_SET\<close>), so that the timer as well as the next
  \<open>aml_radar_cancel_cac\<close> index the context table with 255.\<close>

theorem refused_cac_faults:
  assumes "length (chanctx_table hw) = NX_CHAN_CTXT_CNT" and "vif < length (vif_ch_index hw)"
    and "vif_ch_index hw ! vif = AML_CH_NOT_SET"
  shows "\<exists>hw'. aml_cfg80211_start_radar_detection en vif cd None hw = Some (-5, hw') \<and>
    aml_radar_cac_work hw' = None \<and> aml_radar_cancel_cac hw' = None"
  using assms
  by (simp add: aml_cfg80211_start_radar_detection_def aml_radar_start_cac_def aml_radar_cac_work_def
      aml_radar_cancel_cac_def vif_ctxt_def nth_opt_def AML_CH_NOT_SET_def NX_CHAN_CTXT_CNT_def Let_def)

theorem refused_cac_faults_witness:
  "\<forall>env. \<exists>hw'. aml_cfg80211_start_radar_detection True 2 no_chan None (probe_hw env []) = Some (-5, hw') \<and>
    aml_radar_cac_work hw' = None \<and> aml_radar_cancel_cac hw' = None"
proof
  fix env
  show "\<exists>hw'. aml_cfg80211_start_radar_detection True 2 no_chan None (probe_hw env []) = Some (-5, hw') \<and>
    aml_radar_cac_work hw' = None \<and> aml_radar_cancel_cac hw' = None"
    by (rule refused_cac_faults) (simp_all add: probe_hw_def)
qed

text \<open>Leaving a mesh unlinks the channel context before the check is cancelled.\<close>

lemma enable_frame:
  "aml_radar_detection_enable e c hw = Some hw' \<Longrightarrow>
   chanctx_table hw' = chanctx_table hw \<and> vif_ch_index hw' = vif_ch_index hw"
  by (auto simp: aml_radar_detection_enable_def spin_lock_def spin_unlock_def
      split: if_splits option.splits bind_splits)

lemma unlink_before_cancel_faults:
  assumes "aml_chanctx_unlink vif hw = Some h" and "cac_vif (radar_st h) = Some vif" and "cac_work (radar_st h)"
    and "length (chanctx_table hw) = NX_CHAN_CTXT_CNT"
  shows "aml_radar_cancel_cac h = None"
proof -
  have "vif < length (vif_ch_index h) \<and> vif_ch_index h ! vif = AML_CH_NOT_SET \<and> length (chanctx_table h) = NX_CHAN_CTXT_CNT"
    using assms(1,4)
    by (auto simp: aml_chanctx_unlink_def nth_opt_def Let_def split: if_splits bind_splits dest!: enable_frame)
  then show ?thesis
    using assms(2,3)
    by (simp add: aml_radar_cancel_cac_def vif_ctxt_def nth_opt_def AML_CH_NOT_SET_def NX_CHAN_CTXT_CNT_def Let_def)
qed

section \<open>Channel numbers\<close>

lemma chan_of_freq:
  fixes n k :: nat
  assumes "k + 5 * n < 2 ^ 32"
  shows "ucast (((of_nat (k + 5 * n) :: u32) - of_nat k) div 5) = (of_nat n :: u8)"
proof -
  have "(of_nat (k + 5 * n) :: u32) - of_nat k = of_nat (5 * n)"
    by simp
  moreover have "unat ((of_nat (5 * n) :: u32) div 5) = n"
    using assms by (simp add: unat_div unat_of_nat_u32 del: of_nat_mult)
  ultimately show ?thesis
    by (metis of_nat_unat)
qed

lemma roundtrip_5g:
  assumes "n < 197"
  shows "aml_ieee80211_freq_to_chan (aml_ieee80211_chan_to_freq (of_nat n) NL80211_BAND_5GHZ) NL80211_BAND_5GHZ = of_nat n"
proof -
  define k :: nat where "k = (if 182 \<le> n then 4000 else 5000)"
  have n: "unat (of_nat n :: u32) = n"
    using assms by (intro unat_of_nat_u32) simp
  have f: "aml_ieee80211_chan_to_freq (of_nat n) NL80211_BAND_5GHZ = of_nat (k + 5 * n)"
    using assms n by (auto simp: aml_ieee80211_chan_to_freq_def k_def word_le_nat_alt)
  have "unat (of_nat (k + 5 * n) :: u32) = k + 5 * n"
    using assms by (intro unat_of_nat_u32) (simp add: k_def)
  then have "4910 \<le> (of_nat (k + 5 * n) :: u32) \<and> (of_nat (k + 5 * n) :: u32) \<le> 4980 \<longleftrightarrow> 182 \<le> n"
    using assms by (simp add: word_le_nat_alt k_def del: of_nat_add of_nat_mult)
  then show ?thesis
    using chan_of_freq [of k n] assms unfolding f aml_ieee80211_freq_to_chan_def
    by (cases "182 \<le> n") (auto simp: k_def simp del: of_nat_add of_nat_mult)
qed

lemma roundtrip_2g:
  assumes "n < 15"
  shows "aml_ieee80211_freq_to_chan (aml_ieee80211_chan_to_freq (of_nat n) NL80211_BAND_2GHZ) NL80211_BAND_2GHZ = of_nat n"
proof -
  have "\<forall>n\<in>set [0..<15]. aml_ieee80211_freq_to_chan (aml_ieee80211_chan_to_freq (of_nat n) NL80211_BAND_2GHZ) NL80211_BAND_2GHZ = of_nat n"
    by code_simp
  then show ?thesis
    using assms by simp
qed

text \<open>The conversions between channel numbers and frequencies are inverse on every
  channel of both bands.\<close>

theorem channel_roundtrip:
  "map (\<lambda>n. aml_ieee80211_freq_to_chan (aml_ieee80211_chan_to_freq (of_nat n) NL80211_BAND_5GHZ)
      NL80211_BAND_5GHZ) [0..<197] = map of_nat [0..<197] \<and>
   map (\<lambda>n. aml_ieee80211_freq_to_chan (aml_ieee80211_chan_to_freq (of_nat n) NL80211_BAND_2GHZ)
      NL80211_BAND_2GHZ) [0..<15] = map of_nat [0..<15]"
  using roundtrip_5g roundtrip_2g by simp


section \<open>The list of detected radars\<close>

fun record_all :: "int list \<Rightarrow> radar_hw \<Rightarrow> radar_hw option" where
  "record_all [] hw = Some hw"
| "record_all (t # ts) hw = Option.bind (record_detected t AML_RADAR_RIU 5500 hw) (record_all ts)"

text \<open>With five radars recorded the list starts with the newest, the oldest kept is second.\<close>

lemma dump_not_chronological:
  "\<exists>hw. record_all [1, 2, 3, 4, 5] (probe_hw env []) = Some hw \<and>
     aml_radar_dump_radar_detected AML_RADAR_RIU hw = Some [(5, 5500), (2, 5500), (3, 5500), (4, 5500)]"
proof -
  have four: "replicate 4 x = [x, x, x, x]" "dump_loop 4 = dump_loop (Suc (Suc (Suc (Suc 0))))" for x :: 'a
    by (simp_all add: numeral_eq_Suc)
  have four': "replicate 4 x = [x, x, x, x]" for x :: 'b
    by (simp add: numeral_eq_Suc)
  have idx: "[0, 0, 0, 0][2 := x] = [0, 0, x, 0]" "[a, b, 0, 0][2 := x] = [a, b, x, 0]"
      "[a, b, c, 0][3 := x] = [a, b, c, x]" for a b c x :: int
    by (simp_all add: numeral_eq_Suc)
  show ?thesis
    by (simp add: probe_hw_def probe_radar_def record_detected_def aml_radar_dump_radar_detected_def
        put_def nth_opt_def crem_def NX_NB_RADAR_DETECTED_def Let_def four four')
qed

end
