(* ===== verification/Txq.thy ===== *)
theory Txq
  imports Ipc_Host
begin

text \<open>
  The TX queues (aml_drv/aml_txq.c, aml_txq.h), the push of a frame to the firmware and its
  power-save bookkeeping (aml_drv/fullmac/aml_tx.c, the descriptor push of aml_utils.c): one
  queue per station and traffic class, per interface and for off-channel frames; five
  hardware queues, each with a credit counter and the list of the TX queues that have
  frames for it.

  Arrays of \<open>struct aml_hw\<close> are functions from indices; a pointer into an array is the index,
  and the functions that compute such a pointer return \<open>None\<close> outside of the array. A socket
  buffer and its \<open>struct aml_sw_txhdr\<close> are allocated and freed together and share one address
  in the heap \<open>hdrs\<close>; the buffers behind the first one of an A-MSDU are in \<open>subframes\<close>.
  The build of the driver is the default one: full-MAC, one user position
  (\<open>CONFIG_USER_MAX\<close> 1, no MU-MIMO), A-MSDUs enabled, no off-loading to mac80211.
  Statistics, traces and log output are left out; the kernel \<open>WARN\<close> about the order of
  retries sets \<open>retry_warned\<close>.
\<close>

unbundle bit_operations_syntax

section \<open>Configuration and layout\<close>

definition NX_REMOTE_STA_MAX :: nat where "NX_REMOTE_STA_MAX = 10"
definition NX_VIRT_DEV_MAX :: nat where "NX_VIRT_DEV_MAX = 4"
definition NX_NB_TID_PER_STA :: nat where "NX_NB_TID_PER_STA = 8"
definition NX_NB_TXQ_PER_STA :: nat where "NX_NB_TXQ_PER_STA = NX_NB_TID_PER_STA + 1"
definition NX_NB_TXQ_PER_VIF :: nat where "NX_NB_TXQ_PER_VIF = 2"
definition NX_NB_TXQ :: nat where
  "NX_NB_TXQ = NX_NB_TXQ_PER_STA * NX_REMOTE_STA_MAX + NX_NB_TXQ_PER_VIF * NX_VIRT_DEV_MAX + 1"
definition NX_FIRST_VIF_TXQ_IDX :: nat where "NX_FIRST_VIF_TXQ_IDX = NX_REMOTE_STA_MAX * NX_NB_TXQ_PER_STA"
definition NX_FIRST_UNK_TXQ_IDX :: nat where "NX_FIRST_UNK_TXQ_IDX = NX_FIRST_VIF_TXQ_IDX + NX_VIRT_DEV_MAX"
definition NX_OFF_CHAN_TXQ_IDX :: nat where
  "NX_OFF_CHAN_TXQ_IDX = NX_FIRST_VIF_TXQ_IDX + NX_VIRT_DEV_MAX * NX_NB_TXQ_PER_VIF"
definition NX_BCMC_TXQ_TYPE :: nat where "NX_BCMC_TXQ_TYPE = 0"
definition NX_UNK_TXQ_TYPE :: nat where "NX_UNK_TXQ_TYPE = 1"
definition NX_BCMC_TXQ_NDEV_IDX :: nat where "NX_BCMC_TXQ_NDEV_IDX = NX_NB_TID_PER_STA * NX_REMOTE_STA_MAX"
definition NX_STA_NDEV_IDX :: "nat \<Rightarrow> nat \<Rightarrow> nat" where
  "NX_STA_NDEV_IDX t s = t + s * NX_NB_TID_PER_STA"
definition NDEV_NO_TXQ :: nat where "NDEV_NO_TXQ = 0xffff"
definition TXQ_INACTIVE :: nat where "TXQ_INACTIVE = 0xffff"
definition AML_NDEV_FLOW_CTRL_STOP :: nat where "AML_NDEV_FLOW_CTRL_STOP = 10000"
definition AML_NDEV_FLOW_CTRL_RESTART :: nat where "AML_NDEV_FLOW_CTRL_RESTART = 9800"
definition NX_TXQ_INITIAL_CREDITS :: int where "NX_TXQ_INITIAL_CREDITS = 4"
definition TX_MAX_CNT :: int where "TX_MAX_CNT = 124"
definition AML_HWQ_BK :: nat where "AML_HWQ_BK = 0"
definition AML_HWQ_BE :: nat where "AML_HWQ_BE = 1"
definition AML_HWQ_VI :: nat where "AML_HWQ_VI = 2"
definition AML_HWQ_VO :: nat where "AML_HWQ_VO = 3"
definition TID_MGT :: nat where "TID_MGT = 8"
definition NX_TX_PAYLOAD_MAX :: nat where "NX_TX_PAYLOAD_MAX = 6"
definition LEGACY_PS_ID :: nat where "LEGACY_PS_ID = 0"
definition UAPSD_ID :: nat where "UAPSD_ID = 1"

lemmas txq_layout_defs = NX_REMOTE_STA_MAX_def NX_VIRT_DEV_MAX_def NX_NB_TID_PER_STA_def
  NX_NB_TXQ_PER_STA_def NX_NB_TXQ_PER_VIF_def NX_NB_TXQ_def NX_FIRST_VIF_TXQ_IDX_def
  NX_FIRST_UNK_TXQ_IDX_def NX_OFF_CHAN_TXQ_IDX_def NX_BCMC_TXQ_TYPE_def NX_UNK_TXQ_TYPE_def
  NX_BCMC_TXQ_NDEV_IDX_def NX_STA_NDEV_IDX_def NDEV_NO_TXQ_def TXQ_INACTIVE_def

lemmas hwq_id_defs = AML_HWQ_BK_def AML_HWQ_BE_def AML_HWQ_VI_def AML_HWQ_VO_def

text \<open>\<open>enum aml_txq_flags\<close>, the flags of a frame, and the mask of all reasons to stop a queue.\<close>

abbreviation "AML_TXQ_IN_HWQ_LIST \<equiv> (BIT 0 :: u16)"
abbreviation "AML_TXQ_STOP_FULL \<equiv> (BIT 1 :: u16)"
abbreviation "AML_TXQ_STOP_CSA \<equiv> (BIT 2 :: u16)"
abbreviation "AML_TXQ_STOP_STA_PS \<equiv> (BIT 3 :: u16)"
abbreviation "AML_TXQ_STOP_VIF_PS \<equiv> (BIT 4 :: u16)"
abbreviation "AML_TXQ_STOP_CHAN \<equiv> (BIT 5 :: u16)"
abbreviation "AML_TXQ_NDEV_FLOW_CTRL \<equiv> (BIT 7 :: u16)"
abbreviation "AML_TXQ_STOP_COEX_INACTIVE \<equiv> (BIT 8 :: u16)"
abbreviation "AML_TXQ_STOP_SUSPEND \<equiv> (BIT 9 :: u16)"
abbreviation "AML_TXQ_STOP_DISMANTLE_AMSDU \<equiv> (BIT 10 :: u16)"

definition AML_TXQ_STOP :: u16 where
  "AML_TXQ_STOP = AML_TXQ_STOP_FULL OR (AML_TXQ_STOP_CSA OR (AML_TXQ_STOP_STA_PS OR (AML_TXQ_STOP_VIF_PS OR
     (AML_TXQ_STOP_CHAN OR (AML_TXQ_STOP_COEX_INACTIVE OR (AML_TXQ_STOP_SUSPEND OR
      AML_TXQ_STOP_DISMANTLE_AMSDU))))))"

abbreviation "TXU_CNTRL_RETRY \<equiv> (BIT 0 :: u16)"
abbreviation "TXU_CNTRL_MORE_DATA \<equiv> (BIT 2 :: u16)"
abbreviation "TXU_CNTRL_MGMT \<equiv> (BIT 3 :: u16)"
abbreviation "TXU_CNTRL_AMSDU \<equiv> (BIT 6 :: u16)"
abbreviation "TXU_CNTRL_EOSP \<equiv> (BIT 9 :: u16)"
abbreviation "TXU_CNTRL_SP_FRAME \<equiv> (BIT 10 :: u16)"
abbreviation "TXU_CNTRL_REUSE_SN \<equiv> (BIT 15 :: u16)"

definition aml_tid2hwq :: "nat list" where
  "aml_tid2hwq = [AML_HWQ_BE, AML_HWQ_BK, AML_HWQ_BK, AML_HWQ_BE, AML_HWQ_VI, AML_HWQ_VI,
     AML_HWQ_VO, AML_HWQ_VO, AML_HWQ_VO, AML_HWQ_BE, AML_HWQ_BE, AML_HWQ_BE, AML_HWQ_BE,
     AML_HWQ_BE, AML_HWQ_BE, AML_HWQ_BE]"

definition nx_tid_prio :: "nat list" where
  "nx_tid_prio = [8, 7, 6, 5, 4, 3, 0, 2, 1]"

section \<open>State\<close>

text \<open>\<open>struct aml_amsdu_txhdr\<close> (a further subframe), and \<open>struct aml_sw_txhdr\<close> with the
  fields of its embedded \<open>struct aml_amsdu\<close> (\<open>am_\<close>) and host descriptor.\<close>

record aml_amsdu_txhdr =
  sub_pad :: u16
  msdu_len :: u16

record aml_sw_txhdr =
  hdr_sta :: "nat option"
  hdr_vif :: nat
  hdr_txq :: nat
  hw_queue :: nat
  frame_len :: u16
  sw_jiffies :: u64
  tx_flags :: u16
  sn_for_retry :: u16
  tx_id :: u32
  packet_cnt :: u8
  packet_len :: "u16 list"
  am_len :: u16
  am_nb :: u8
  am_pad :: u8
  am_hdrs :: "addr list"

text \<open>\<open>struct aml_txq\<close>; \<open>sk_list\<close> holds the addresses of its frames, \<open>txq_amsdu\<close> is the frame
  whose A-MSDU is being built.\<close>

record aml_txq =
  idx :: nat
  status :: u16
  txq_credits :: int
  pkt_sent :: int
  push_limit :: int
  pkt_pushed :: int
  sk_list :: "addr list"
  last_retry_skb :: "addr option"
  txq_hwq :: nat
  nb_retry :: int
  txq_tid :: nat
  txq_sta :: "nat option"
  ps_id :: nat
  ndev_idx :: nat
  ndev :: nat
  txq_amsdu :: "addr option"
  amsdu_len :: u16

record aml_hwq =
  hwq_list :: "nat list"
  hwq_credits :: int
  hwq_size :: int
  need_processing :: bool

text \<open>What the TX path uses of \<open>struct aml_sta\<close> and \<open>struct aml_vif\<close>.\<close>

record aml_sta =
  sta_idx :: nat
  sta_vif_idx :: nat
  ps_active :: bool
  pkt_ready :: "nat \<Rightarrow> u16"
  sp_cnt :: "nat \<Rightarrow> u16"
  uapsd_tids :: u16
  tdls_active :: bool
  tdls_chsw_en :: bool
  listen_interval :: int

datatype nl80211_iftype =
    NL80211_IFTYPE_STATION | NL80211_IFTYPE_AP | NL80211_IFTYPE_AP_VLAN | NL80211_IFTYPE_MONITOR
  | NL80211_IFTYPE_MESH_POINT | NL80211_IFTYPE_P2P_CLIENT | NL80211_IFTYPE_P2P_GO | NL80211_IFTYPE_OTHER

record aml_vif =
  iftype :: nl80211_iftype
  vif_index :: nat
  vlan_master :: nat
  bcmc_index :: nat
  sta_ap :: "nat option"
  tdls_sta :: "nat option"
  tdls_link_active :: bool
  roc_tdls :: bool
  ap_sta_list :: "nat list option"
  bcn_interval :: u16

text \<open>What the TX path tells the rest of the system: the traffic indications for the
  firmware, the status of a management frame for cfg80211, and the dump of queues whose
  frames were too old.\<close>

datatype tx_report =
    Traffic_ind nat bool bool
  | Tdls_traffic_ind nat
  | Mgmt_tx_status addr bool
  | Dropped_old nat

record tx_hw =
  txq :: "nat \<Rightarrow> aml_txq"
  hwq :: "nat \<Rightarrow> aml_hwq"
  sta_table :: "nat \<Rightarrow> aml_sta"
  vif_table :: "nat \<Rightarrow> aml_vif"
  vifs :: "nat list"
  hdrs :: "addr \<Rightarrow> aml_sw_txhdr option"
  subframes :: "addr \<Rightarrow> aml_amsdu_txhdr option"
  ipc_env :: ipc_host_env
  txdesc_trigger :: aml_txdesc_trigger
  dma_map_ok :: "bool list"
  tx_desc_save :: "addr list"
  aml_tx_sem :: nat
  cfm_balance :: "nat \<Rightarrow> int"
  ndev_stopped :: "(nat \<times> nat) set"
  reports :: "tx_report list"
  jiffies :: u64
  hz :: u64
  txq_cleanup :: "u64 option"
  retry_warned :: bool

definition upd_txq :: "nat \<Rightarrow> (aml_txq \<Rightarrow> aml_txq) \<Rightarrow> tx_hw \<Rightarrow> tx_hw" where
  "upd_txq i f hw = hw\<lparr>txq := (txq hw)(i := f (txq hw i))\<rparr>"

definition upd_hwq :: "nat \<Rightarrow> (aml_hwq \<Rightarrow> aml_hwq) \<Rightarrow> tx_hw \<Rightarrow> tx_hw" where
  "upd_hwq q f hw = hw\<lparr>hwq := (hwq hw)(q := f (hwq hw q))\<rparr>"

definition upd_sta :: "nat \<Rightarrow> (aml_sta \<Rightarrow> aml_sta) \<Rightarrow> tx_hw \<Rightarrow> tx_hw" where
  "upd_sta s f hw = hw\<lparr>sta_table := (sta_table hw)(s := f (sta_table hw s))\<rparr>"

definition upd_hdr :: "addr \<Rightarrow> (aml_sw_txhdr \<Rightarrow> aml_sw_txhdr) \<Rightarrow> tx_hw \<Rightarrow> tx_hw" where
  "upd_hdr a f hw = hw\<lparr>hdrs := (hdrs hw)(a := map_option f (hdrs hw a))\<rparr>"

definition report :: "tx_report \<Rightarrow> tx_hw \<Rightarrow> tx_hw" where
  "report r hw = hw\<lparr>reports := reports hw @ [r]\<rparr>"

text \<open>Times in jiffies; \<open>hz\<close> is the kernel's \<open>HZ\<close>.\<close>

definition AML_TXQ_CLEANUP_INTERVAL :: "tx_hw \<Rightarrow> u64" where
  "AML_TXQ_CLEANUP_INTERVAL hw = 10 * hz hw"

definition AML_TXQ_MAX_QUEUE_JIFFIES :: "tx_hw \<Rightarrow> u64" where
  "AML_TXQ_MAX_QUEUE_JIFFIES hw = 20 * hz hw"

section \<open>Finding a queue\<close>

definition is_multicast_sta :: "nat \<Rightarrow> bool" where
  "is_multicast_sta i \<longleftrightarrow> NX_REMOTE_STA_MAX \<le> i"

definition master_vif_idx :: "aml_vif \<Rightarrow> nat \<Rightarrow> nat" where
  "master_vif_idx v master_index = (if iftype v = NL80211_IFTYPE_AP_VLAN then master_index else vif_index v)"

definition aml_txq_sta_idx :: "aml_sta option \<Rightarrow> nat \<Rightarrow> nat" where
  "aml_txq_sta_idx s t = (case s of
     None \<Rightarrow> 0
   | Some s \<Rightarrow> if is_multicast_sta (sta_idx s) then NX_FIRST_VIF_TXQ_IDX + sta_vif_idx s
               else sta_idx s * NX_NB_TXQ_PER_STA + t)"

definition aml_txq_vif_idx :: "tx_hw \<Rightarrow> nat \<Rightarrow> nat \<Rightarrow> nat" where
  "aml_txq_vif_idx hw v ty =
     NX_FIRST_VIF_TXQ_IDX + master_vif_idx (vif_table hw v) (vif_index (vif_table hw (vlan_master (vif_table hw v))))
       + ty * NX_VIRT_DEV_MAX"

text \<open>The address of an element of \<open>aml_hw->txq\<close>; a null station is a \<open>BUG\<close>.\<close>

definition txq_at :: "nat \<Rightarrow> nat option" where
  "txq_at i = (if i < NX_NB_TXQ then Some i else None)"

definition aml_txq_sta_get :: "tx_hw \<Rightarrow> nat option \<Rightarrow> nat \<Rightarrow> nat option" where
  "aml_txq_sta_get hw s t = do {
     s \<leftarrow> s;
     txq_at (aml_txq_sta_idx (Some (sta_table hw s)) (if NX_NB_TXQ_PER_STA \<le> t then 0 else t))
   }"

definition aml_txq_vif_get :: "tx_hw \<Rightarrow> nat \<Rightarrow> nat \<Rightarrow> nat option" where
  "aml_txq_vif_get hw v ty =
     txq_at (aml_txq_vif_idx hw v (if NX_UNK_TXQ_TYPE < ty then NX_BCMC_TXQ_TYPE else ty))"

text \<open>\<open>foreach_sta_txq_safe\<close>: the queues of a station in increasing order of the class, none
  for a null station.\<close>

definition foreach_sta_txq :: "tx_hw \<Rightarrow> nat option \<Rightarrow> nat list option" where
  "foreach_sta_txq hw s = (case s of
     None \<Rightarrow> Some []
   | Some p \<Rightarrow> do {
       i \<leftarrow> aml_txq_sta_get hw s 0;
       let n = (if is_multicast_sta (sta_idx (sta_table hw p)) then 1 else NX_NB_TXQ_PER_STA);
       if i + n \<le> NX_NB_TXQ then Some [i..<i + n] else None
     })"

section \<open>State of a queue\<close>

definition aml_txq_is_stopped :: "aml_txq \<Rightarrow> bool" where
  "aml_txq_is_stopped t \<longleftrightarrow> status t AND AML_TXQ_STOP \<noteq> 0"

definition aml_txq_is_full :: "aml_txq \<Rightarrow> bool" where
  "aml_txq_is_full t \<longleftrightarrow> status t AND AML_TXQ_STOP_FULL \<noteq> 0"

definition aml_txq_is_scheduled :: "aml_txq \<Rightarrow> bool" where
  "aml_txq_is_scheduled t \<longleftrightarrow> status t AND AML_TXQ_IN_HWQ_LIST \<noteq> 0"

definition aml_txq_skb_ready :: "aml_txq \<Rightarrow> bool" where
  "aml_txq_skb_ready t \<longleftrightarrow> sk_list t \<noteq> []"

definition aml_netif_txq_flow_control :: "nat \<Rightarrow> tx_hw \<Rightarrow> tx_hw" where
  "aml_netif_txq_flow_control i hw =
     (let t = txq hw i; depth = length (sk_list t) in
      if ndev_idx t = NDEV_NO_TXQ then hw
      else if AML_NDEV_FLOW_CTRL_STOP < depth then
        (upd_txq i (\<lambda>t. t\<lparr>status := status t OR AML_TXQ_NDEV_FLOW_CTRL\<rparr>) hw)
          \<lparr>ndev_stopped := insert (ndev t, ndev_idx t) (ndev_stopped hw)\<rparr>
      else if AML_NDEV_FLOW_CTRL_RESTART \<le> depth then hw
      else if status t AND AML_TXQ_NDEV_FLOW_CTRL \<noteq> 0 then
        (upd_txq i (\<lambda>t. t\<lparr>status := status t AND NOT AML_TXQ_NDEV_FLOW_CTRL\<rparr>) hw)
          \<lparr>ndev_stopped := ndev_stopped hw - {(ndev t, ndev_idx t)}\<rparr>
      else hw)"

section \<open>The lists of the hardware queues\<close>

definition aml_txq_del_from_hw_list :: "nat \<Rightarrow> tx_hw \<Rightarrow> tx_hw" where
  "aml_txq_del_from_hw_list i hw =
     (if aml_txq_is_scheduled (txq hw i)
      then upd_hwq (txq_hwq (txq hw i)) (\<lambda>h. h\<lparr>hwq_list := remove1 i (hwq_list h)\<rparr>)
             (upd_txq i (\<lambda>t. t\<lparr>status := status t AND NOT AML_TXQ_IN_HWQ_LIST\<rparr>) hw)
      else hw)"

definition aml_txq_stop :: "nat \<Rightarrow> u16 \<Rightarrow> tx_hw \<Rightarrow> tx_hw" where
  "aml_txq_stop i reason hw =
     (if idx (txq hw i) \<noteq> TXQ_INACTIVE
      then aml_txq_del_from_hw_list i (upd_txq i (\<lambda>t. t\<lparr>status := status t OR reason\<rparr>) hw)
      else hw)"

section \<open>Pushing a frame\<close>

definition aml_set_traffic_status :: "nat \<Rightarrow> bool \<Rightarrow> nat \<Rightarrow> tx_hw \<Rightarrow> tx_hw" where
  "aml_set_traffic_status p available ps hw =
     (let s = sta_table hw p in
      if tdls_active s
      then (if tdls_sta (vif_table hw (sta_vif_idx s)) = None then hw
            else report (Tdls_traffic_ind (sta_vif_idx s)) hw)
      else report (Traffic_ind (sta_idx s) (ps \<noteq> LEGACY_PS_ID) available) hw)"

definition aml_set_more_data_flag :: "addr \<Rightarrow> aml_sw_txhdr \<Rightarrow> nat \<Rightarrow> tx_hw \<Rightarrow> tx_hw" where
  "aml_set_more_data_flag a h p hw =
     (if ps_active (sta_table hw p) then
        let ps = ps_id (txq hw (hdr_txq h));
            hw1 = upd_sta p (\<lambda>s. s\<lparr>pkt_ready := (pkt_ready s)(ps := pkt_ready s ps - 1),
                                   sp_cnt := (sp_cnt s)(ps := sp_cnt s ps - 1)\<rparr>) hw;
            s = sta_table hw1 p;
            hw2 = (if (ps = UAPSD_ID \<or> iftype (vif_table hw1 (hdr_vif h)) = NL80211_IFTYPE_MESH_POINT
                       \<or> tdls_active s) \<and> sp_cnt s ps = 0
                   then upd_hdr a (\<lambda>h. h\<lparr>tx_flags := tx_flags h OR TXU_CNTRL_EOSP\<rparr>) hw1 else hw1)
        in if pkt_ready s ps \<noteq> 0
           then upd_hdr a (\<lambda>h. h\<lparr>tx_flags := tx_flags h OR TXU_CNTRL_MORE_DATA\<rparr>) hw2
           else aml_set_traffic_status p False ps hw2
      else hw)"

text \<open>\<open>aml_ipc_txdesc_push\<close>. On PCIe a frame that meets a suspended bus or a failed mapping
  is not handed to the firmware; the model names the next outcomes of the mapping.\<close>

definition aml_sdio_ipc_txdesc_push :: "addr \<Rightarrow> tx_hw \<Rightarrow> tx_hw" where
  "aml_sdio_ipc_txdesc_push a hw =
     (let (env, i) = ipc_host_tx_host_ptr_to_id (ipc_env hw) a;
          hw1 = upd_hdr a (\<lambda>h. h\<lparr>tx_id := i\<rparr>) (hw\<lparr>ipc_env := env\<rparr>)
      in if i = 0 then hw1
         else hw1\<lparr>tx_desc_save := tx_desc_save hw1 @ [a], aml_tx_sem := aml_tx_sem hw1 + 1\<rparr>)"

definition aml_ipc_buf_a2e_init :: "tx_hw \<Rightarrow> bool \<times> tx_hw" where
  "aml_ipc_buf_a2e_init hw = (case dma_map_ok hw of [] \<Rightarrow> (True, hw) | b # bs \<Rightarrow> (b, hw\<lparr>dma_map_ok := bs\<rparr>))"

definition aml_pci_ipc_txdesc_push :: "plat \<Rightarrow> addr \<Rightarrow> tx_hw \<Rightarrow> tx_hw option" where
  "aml_pci_ipc_txdesc_push pl a hw =
     (let (env, i) = ipc_host_tx_host_ptr_to_id (ipc_env hw) a;
          hw1 = upd_hdr a (\<lambda>h. h\<lparr>tx_id := i\<rparr>) (hw\<lparr>ipc_env := env\<rparr>)
      in if i = 0 then Some hw1
         else let (ok, hw2) = aml_ipc_buf_a2e_init hw1 in
           if \<not> ok then Some hw2
           else do {
             (env, trg) \<leftarrow> ipc_host_txdesc_push pl (ipc_env hw2) (txdesc_trigger hw2)
                \<lparr>buf_ptr = a, dma_addr = of_nat a, skb_hostid = i\<rparr>;
             Some (hw2\<lparr>ipc_env := env, txdesc_trigger := trg\<rparr>)
           })"

definition aml_ipc_txdesc_push :: "plat \<Rightarrow> addr \<Rightarrow> tx_hw \<Rightarrow> tx_hw option" where
  "aml_ipc_txdesc_push pl a hw =
     (if aml_bus_type pl \<noteq> PCIE_MODE then Some (aml_sdio_ipc_txdesc_push a hw)
      else if pci_blocked pl then Some hw
      else aml_pci_ipc_txdesc_push pl a hw)"

text \<open>The retry bookkeeping at the start of \<open>aml_tx_push\<close> and in \<open>aml_txq_drop_skb\<close>: the
  retries are the first frames of the list, \<open>last_retry_skb\<close> is the last of them.\<close>

definition retry_taken :: "nat \<Rightarrow> addr \<Rightarrow> tx_hw \<Rightarrow> tx_hw" where
  "retry_taken i a hw =
     (let hw1 = upd_txq i (\<lambda>t. t\<lparr>nb_retry := nb_retry t - 1\<rparr>) hw in
      if nb_retry (txq hw1 i) = 0
      then (upd_txq i (\<lambda>t. t\<lparr>last_retry_skb := None\<rparr>) hw1)
             \<lparr>retry_warned := retry_warned hw \<or> last_retry_skb (txq hw i) \<noteq> Some a\<rparr>
      else hw1)"

text \<open>The part of \<open>aml_tx_push\<close> before the descriptor goes out, for the flags the driver
  passes (none): retry and A-MSDU bookkeeping, the hardware queue, the power-save flags.\<close>

definition tx_push_prepare :: "addr \<Rightarrow> aml_sw_txhdr \<Rightarrow> tx_hw \<Rightarrow> tx_hw" where
  "tx_push_prepare a h hw =
     (let i = hdr_txq h;
          hw1 = (if nb_retry (txq hw i) \<noteq> 0 then retry_taken i a hw
                 else upd_txq i (\<lambda>t. t\<lparr>pkt_sent := pkt_sent t + 1\<rparr>) hw);
          hw2 = upd_hdr a (\<lambda>h. h\<lparr>tx_flags := tx_flags h AND NOT TXU_CNTRL_RETRY\<rparr>) hw1;
          hw3 = (if txq_amsdu (txq hw2 i) = Some a then upd_txq i (\<lambda>t. t\<lparr>txq_amsdu := None\<rparr>) hw2 else hw2);
          hw4 = upd_hdr a (\<lambda>h. h\<lparr>hw_queue := txq_hwq (txq hw i)\<rparr>) hw3
      in (case hdr_sta h of None \<Rightarrow> hw4 | Some p \<Rightarrow> aml_set_more_data_flag a h p hw4))"

text \<open>The credits of the queue, which is stopped when they are used up.\<close>

definition tx_push_credit :: "nat \<Rightarrow> tx_hw \<Rightarrow> tx_hw" where
  "tx_push_credit i hw =
     (let hw1 = upd_txq i (\<lambda>t. t\<lparr>txq_credits := txq_credits t - 1, pkt_pushed := pkt_pushed t + 1\<rparr>) hw;
          hw2 = (if txq_credits (txq hw1 i) \<le> 0 then aml_txq_stop i AML_TXQ_STOP_FULL hw1 else hw1)
      in if push_limit (txq hw2 i) \<noteq> 0 then upd_txq i (\<lambda>t. t\<lparr>push_limit := push_limit t - 1\<rparr>) hw2 else hw2)"

definition aml_tx_push :: "plat \<Rightarrow> addr \<Rightarrow> tx_hw \<Rightarrow> tx_hw option" where
  "aml_tx_push pl a hw = do {
     h \<leftarrow> hdrs hw a;
     let i = hdr_txq h;
     let q = txq_hwq (txq hw i);
     hw1 \<leftarrow> aml_ipc_txdesc_push pl a (tx_push_credit i (tx_push_prepare a h hw));
     Some ((upd_hwq (txq_hwq (txq hw1 i)) (\<lambda>h. h\<lparr>hwq_credits := hwq_credits h - 1\<rparr>) hw1)
             \<lparr>cfm_balance := (cfm_balance hw1)(q := cfm_balance hw1 q + 1)\<rparr>)
   }"

fun tx_push_all :: "plat \<Rightarrow> addr list \<Rightarrow> tx_hw \<Rightarrow> tx_hw option" where
  "tx_push_all pl [] hw = Some hw"
| "tx_push_all pl (a # as) hw = do { hw \<leftarrow> aml_tx_push pl a hw; tx_push_all pl as hw }"

section \<open>Serving a hardware queue\<close>

text \<open>A signed 8-bit read of a C \<open>int\<close>.\<close>

definition s8 :: "int \<Rightarrow> int" where
  "s8 x = signed_take_bit 7 x"

definition aml_txq_get_credits :: "aml_txq \<Rightarrow> int" where
  "aml_txq_get_credits t =
     (let cred = s8 (txq_credits t)
      in if push_limit t \<noteq> 0 \<and> push_limit t < cred then s8 (push_limit t) else cred)"

text \<open>\<open>skb_queue_extract\<close>: the first \<open>n\<close> frames of a list with more than \<open>n\<close>. For \<open>n \<le> 0\<close> the
  pointer surgery closes the list on the wrong head: undefined.\<close>

definition skb_queue_extract :: "addr list \<Rightarrow> int \<Rightarrow> (addr list \<times> addr list) option" where
  "skb_queue_extract xs n =
     (if 0 < n \<and> n \<le> int (length xs) then Some (take (nat n) xs, drop (nat n) xs) else None)"

definition aml_txq_get_skb_to_push :: "nat \<Rightarrow> nat \<Rightarrow> tx_hw \<Rightarrow> (bool \<times> addr list \<times> tx_hw) option" where
  "aml_txq_get_skb_to_push q i hw =
     (let t = txq hw i;
          nb_ready = int (length (sk_list t));
          credits = min (aml_txq_get_credits t) (hwq_credits (hwq hw q))
      in if nb_ready \<le> credits then Some (True, sk_list t, upd_txq i (\<lambda>t. t\<lparr>sk_list := []\<rparr>) hw)
         else do {
           (push, rest) \<leftarrow> skb_queue_extract (sk_list t) credits;
           Some (push_limit t \<noteq> 0 \<and> credits = push_limit t, push, upd_txq i (\<lambda>t. t\<lparr>sk_list := rest\<rparr>) hw)
         })"

text \<open>The doorbell for descriptors a batch left behind.\<close>

definition txdesc_doorbell :: "plat \<Rightarrow> tx_hw \<Rightarrow> tx_hw" where
  "txdesc_doorbell pl hw =
     (let t = txdesc_trigger hw in
      if aml_bus_type pl = PCIE_MODE \<and> 0 < txdesc_cnt t then
        hw\<lparr>ipc_env := ipc_app2emb_trigger IPC_IRQ_A2E_TXDESC (ipc_env hw),
           txdesc_trigger :=
             (if dynamic_cnt t = 0
              then if 0 < tx_pcie_ths t then t\<lparr>txdesc_cnt := 0, tx_pcie_ths := tx_pcie_ths t - 1\<rparr>
                   else t\<lparr>txdesc_cnt := 0\<rparr>
              else t\<lparr>txdesc_cnt := 0, dynamic_cnt := dynamic_cnt t - 1\<rparr>)\<rparr>
      else hw)"

text \<open>What follows the push of a queue's frames: it leaves the list when it is served, or
  goes to the end when it has sent too much in a row and the hardware queue is full.\<close>

definition txq_served :: "nat \<Rightarrow> nat \<Rightarrow> bool \<Rightarrow> tx_hw \<Rightarrow> tx_hw" where
  "txq_served q i txq_done hw =
     (if txq_done then upd_txq i (\<lambda>t. t\<lparr>pkt_sent := 0\<rparr>) (aml_txq_del_from_hw_list i hw)
      else if hwq_credits (hwq hw q) = 0 \<and> aml_txq_is_scheduled (txq hw i)
              \<and> hwq_size (hwq hw q) < pkt_sent (txq hw i)
      then upd_hwq q (\<lambda>h. h\<lparr>hwq_list := rotate1 (hwq_list h)\<rparr>) (upd_txq i (\<lambda>t. t\<lparr>pkt_sent := 0\<rparr>) hw)
      else hw)"

definition abort_legacy_sp :: "nat \<Rightarrow> tx_hw \<Rightarrow> tx_hw" where
  "abort_legacy_sp i hw =
     (let t = txq hw i in
      case txq_sta t of
        None \<Rightarrow> hw
      | Some p \<Rightarrow>
          if push_limit t \<noteq> 0 \<and> ps_id t = LEGACY_PS_ID
          then upd_txq i (\<lambda>t. t\<lparr>push_limit := 0\<rparr>)
                 (upd_sta p (\<lambda>s. s\<lparr>sp_cnt := (sp_cnt s)(ps_id t := sp_cnt s (ps_id t) - of_int (push_limit t))\<rparr>) hw)
          else hw)"

text \<open>One round of the loop of \<open>aml_hwq_process\<close>; the flag is its \<open>break\<close>. Without MU-MIMO
  the credit map is complete as soon as user 0 has no credit.\<close>

definition hwq_visit :: "plat \<Rightarrow> nat \<Rightarrow> nat \<Rightarrow> tx_hw \<Rightarrow> (bool \<times> tx_hw) option" where
  "hwq_visit pl q i hw =
     (let t = txq hw i in
      if \<not> aml_txq_is_scheduled t \<or> idx t = TXQ_INACTIVE \<or> txq_credits t \<le> 0 \<or> \<not> aml_txq_skb_ready t
      then Some (False, hw)
      else if hwq_credits (hwq hw q) = 0 then Some (True, hw)
      else do {
        (txq_done, push, hw1) \<leftarrow> aml_txq_get_skb_to_push q i hw;
        hw2 \<leftarrow> tx_push_all pl push hw1;
        Some (False, aml_netif_txq_flow_control i (abort_legacy_sp i
                       (txq_served q i txq_done (txdesc_doorbell pl hw2))))
      })"

text \<open>\<open>list_for_each_entry_safe\<close>: the successor is read before the body runs. The outer
  \<open>None\<close> is a cursor that is no longer linked, the inner one the head of the list.\<close>

fun succ_in :: "'a list \<Rightarrow> 'a \<Rightarrow> 'a option option" where
  "succ_in [] a = None"
| "succ_in (x # xs) a = (if x = a then Some (case xs of [] \<Rightarrow> None | y # _ \<Rightarrow> Some y) else succ_in xs a)"

fun hwq_loop :: "nat \<Rightarrow> plat \<Rightarrow> nat \<Rightarrow> nat option \<Rightarrow> tx_hw \<Rightarrow> tx_hw option" where
  "hwq_loop n pl q None hw = Some hw"
| "hwq_loop 0 pl q (Some i) hw = None"
| "hwq_loop (Suc n) pl q (Some i) hw = do {
     next_i \<leftarrow> succ_in (hwq_list (hwq hw q)) i;
     (stop, hw1) \<leftarrow> hwq_visit pl q i hw;
     if stop then Some hw1 else hwq_loop n pl q next_i hw1
   }"

text \<open>A queue is visited at most twice, so twice the length of the list is enough fuel.\<close>

definition aml_hwq_process :: "plat \<Rightarrow> nat \<Rightarrow> tx_hw \<Rightarrow> tx_hw option" where
  "aml_hwq_process pl q hw =
     (let xs = hwq_list (hwq hw q)
      in hwq_loop (2 * length xs + 1) pl q (case xs of [] \<Rightarrow> None | i # _ \<Rightarrow> Some i)
           (upd_hwq q (\<lambda>h. h\<lparr>need_processing := False\<rparr>) hw))"

fun process_down :: "plat \<Rightarrow> nat list \<Rightarrow> tx_hw \<Rightarrow> tx_hw option" where
  "process_down pl [] hw = Some hw"
| "process_down pl (q # qs) hw = do {
     hw \<leftarrow> (if need_processing (hwq hw q) then aml_hwq_process pl q hw else Some hw);
     process_down pl qs hw
   }"

definition aml_hwq_process_all :: "plat \<Rightarrow> tx_hw \<Rightarrow> tx_hw option" where
  "aml_hwq_process_all pl hw = process_down pl (rev [0..<NX_TXQ_CNT]) hw"

section \<open>Starting a queue and queueing a frame\<close>

definition aml_txq_add_to_hw_list :: "plat \<Rightarrow> nat \<Rightarrow> tx_hw \<Rightarrow> tx_hw option" where
  "aml_txq_add_to_hw_list pl i hw =
     (let t = txq hw i in
      if aml_txq_is_stopped t then Some hw
      else
        let hw1 = (if \<not> aml_txq_is_scheduled t \<and> 0 < txq_credits t \<and> aml_txq_skb_ready t
                   then upd_hwq (txq_hwq t) (\<lambda>h. h\<lparr>hwq_list := hwq_list h @ [i], need_processing := True\<rparr>)
                          (upd_txq i (\<lambda>t. t\<lparr>status := status t OR AML_TXQ_IN_HWQ_LIST\<rparr>) hw)
                   else hw)
        in if aml_txq_is_scheduled (txq hw1 i)
           then (if aml_bus_type pl = PCIE_MODE then aml_hwq_process pl (txq_hwq t) hw1
                 else Some (hw1\<lparr>aml_tx_sem := aml_tx_sem hw1 + 1\<rparr>))
           else Some hw1)"

definition aml_txq_start :: "plat \<Rightarrow> nat \<Rightarrow> u16 \<Rightarrow> tx_hw \<Rightarrow> tx_hw option" where
  "aml_txq_start pl i reason hw =
     (if idx (txq hw i) \<noteq> TXQ_INACTIVE \<and> status (txq hw i) AND reason \<noteq> 0
      then aml_txq_add_to_hw_list pl i (upd_txq i (\<lambda>t. t\<lparr>status := status t AND NOT reason\<rparr>) hw)
      else Some hw)"

definition aml_txq_start_cleanup_timer :: "nat option \<Rightarrow> tx_hw \<Rightarrow> tx_hw" where
  "aml_txq_start_cleanup_timer s hw = (case s of
     None \<Rightarrow> hw
   | Some p \<Rightarrow>
       if \<not> is_multicast_sta (sta_idx (sta_table hw p)) \<and> txq_cleanup hw = None
       then hw\<lparr>txq_cleanup := Some (jiffies hw + AML_TXQ_CLEANUP_INTERVAL hw)\<rparr> else hw)"

text \<open>\<open>SKB_APPEND\<close>: after an element of the list; appending after a buffer of another list is
  undefined.\<close>

fun insert_after :: "addr \<Rightarrow> addr \<Rightarrow> addr list \<Rightarrow> addr list option" where
  "insert_after p a [] = None"
| "insert_after p a (x # xs) = (if x = p then Some (x # a # xs) else map_option ((#) x) (insert_after p a xs))"

text \<open>The first statement of \<open>aml_txq_queue_skb\<close>: a frame for a sleeping station.\<close>

definition ps_frame_queued :: "nat \<Rightarrow> tx_hw \<Rightarrow> tx_hw" where
  "ps_frame_queued i hw = (case txq_sta (txq hw i) of
     None \<Rightarrow> hw
   | Some p \<Rightarrow>
       if ps_active (sta_table hw p) then
         let ps = ps_id (txq hw i);
             hw1 = upd_sta p (\<lambda>s. s\<lparr>pkt_ready := (pkt_ready s)(ps := pkt_ready s ps + 1)\<rparr>) hw
         in if pkt_ready (sta_table hw1 p) ps = 1 then aml_set_traffic_status p True ps hw1 else hw1
       else hw)"

definition insert_skb :: "nat \<Rightarrow> addr \<Rightarrow> bool \<Rightarrow> addr option \<Rightarrow> tx_hw \<Rightarrow> tx_hw option" where
  "insert_skb i a retry skb_prev hw =
     (let t = txq hw i in
      if \<not> retry then do {
        xs \<leftarrow> (case skb_prev of None \<Rightarrow> Some (sk_list t @ [a]) | Some p \<Rightarrow> insert_after p a (sk_list t));
        Some (aml_txq_start_cleanup_timer (txq_sta t) (upd_txq i (\<lambda>t. t\<lparr>sk_list := xs\<rparr>) hw))
      } else do {
        xs \<leftarrow> (case last_retry_skb t of None \<Rightarrow> Some (a # sk_list t) | Some p \<Rightarrow> insert_after p a (sk_list t));
        Some (upd_txq i (\<lambda>t. t\<lparr>sk_list := xs, last_retry_skb := Some a, nb_retry := nb_retry t + 1\<rparr>) hw)
      })"

definition aml_txq_queue_skb :: "plat \<Rightarrow> nat \<Rightarrow> addr \<Rightarrow> bool \<Rightarrow> addr option \<Rightarrow> tx_hw \<Rightarrow> tx_hw option" where
  "aml_txq_queue_skb pl i a retry skb_prev hw = do {
     hw \<leftarrow> insert_skb i a retry skb_prev (ps_frame_queued i hw);
     aml_txq_add_to_hw_list pl i (aml_netif_txq_flow_control i hw)
   }"

section \<open>Dropping frames\<close>

fun free_subframes :: "addr list \<Rightarrow> tx_hw \<Rightarrow> tx_hw option" where
  "free_subframes [] hw = Some hw"
| "free_subframes (s # ss) hw = do {
     _ \<leftarrow> subframes hw s;
     free_subframes ss (hw\<lparr>subframes := (subframes hw)(s := None)\<rparr>)
   }"

definition aml_txq_drop_skb :: "nat \<Rightarrow> addr \<Rightarrow> bool \<Rightarrow> tx_hw \<Rightarrow> tx_hw option" where
  "aml_txq_drop_skb i a retry_packet hw = do {
     h \<leftarrow> hdrs hw a;
     hw1 \<leftarrow> (if a \<in> set (sk_list (txq hw i))
            then Some (upd_txq i (\<lambda>t. t\<lparr>sk_list := remove1 a (sk_list t)\<rparr>) hw) else None);
     hw2 \<leftarrow> (if 1 < packet_cnt h then do {
              hw \<leftarrow> free_subframes (am_hdrs h) hw1;
              Some (if txq_amsdu (txq hw i) = Some a then upd_txq i (\<lambda>t. t\<lparr>txq_amsdu := None\<rparr>) hw else hw)
            } else Some hw1);
     let hw3 = (if tx_flags h AND TXU_CNTRL_MGMT \<noteq> 0 then report (Mgmt_tx_status a False) hw2 else hw2);
     let hw4 = hw3\<lparr>hdrs := (hdrs hw3)(a := None)\<rparr>;
     Some (if retry_packet then retry_taken i a hw4 else hw4)
   }"

text \<open>The loop of \<open>aml_txq_flush\<close>; the length of the list is enough fuel.\<close>

fun flush_loop :: "nat \<Rightarrow> nat \<Rightarrow> tx_hw \<Rightarrow> tx_hw option" where
  "flush_loop n i hw = (case sk_list (txq hw i) of
     [] \<Rightarrow> Some hw
   | a # _ \<Rightarrow> (case n of
       0 \<Rightarrow> None
     | Suc n \<Rightarrow> do { hw \<leftarrow> aml_txq_drop_skb i a (nb_retry (txq hw i) \<noteq> 0) hw; flush_loop n i hw }))"

definition aml_txq_flush :: "nat \<Rightarrow> tx_hw \<Rightarrow> tx_hw option" where
  "aml_txq_flush i hw = flush_loop (length (sk_list (txq hw i))) i hw"

section \<open>Initialisation\<close>

definition aml_txq_init :: "nat \<Rightarrow> nat \<Rightarrow> u8 \<Rightarrow> nat \<Rightarrow> nat \<Rightarrow> nat option \<Rightarrow> nat \<Rightarrow> tx_hw \<Rightarrow> tx_hw option" where
  "aml_txq_init i index st q t s nd hw = do {
     net \<leftarrow> (if index < NX_FIRST_VIF_TXQ_IDX then do {
              p \<leftarrow> s;
              let sta_tid = index - sta_idx (sta_table hw p) * NX_NB_TXQ_PER_STA;
              Some (if sta_tid < NX_NB_TID_PER_STA then NX_STA_NDEV_IDX sta_tid (sta_idx (sta_table hw p))
                    else NDEV_NO_TXQ)
            } else if index < NX_FIRST_UNK_TXQ_IDX then Some NX_BCMC_TXQ_NDEV_IDX else Some NDEV_NO_TXQ);
     Some (upd_txq i (\<lambda>_. \<lparr>idx = index, status = ucast st, txq_credits = NX_TXQ_INITIAL_CREDITS,
       pkt_sent = 0, push_limit = 0, pkt_pushed = 0, sk_list = [], last_retry_skb = None, txq_hwq = q,
       nb_retry = 0, txq_tid = t, txq_sta = s, ps_id = LEGACY_PS_ID, ndev_idx = net, ndev = nd,
       txq_amsdu = None, amsdu_len = 0\<rparr>) hw)
   }"

definition aml_txq_deinit :: "nat \<Rightarrow> tx_hw \<Rightarrow> tx_hw option" where
  "aml_txq_deinit i hw =
     (if idx (txq hw i) = TXQ_INACTIVE then Some hw
      else do {
        hw \<leftarrow> aml_txq_flush i (aml_txq_del_from_hw_list i hw);
        Some (upd_txq i (\<lambda>t. t\<lparr>idx := TXQ_INACTIVE\<rparr>) hw)
      })"

definition aml_txq_vif_init :: "nat \<Rightarrow> u8 \<Rightarrow> tx_hw \<Rightarrow> tx_hw option" where
  "aml_txq_vif_init v st hw = do {
     i \<leftarrow> aml_txq_vif_get hw v NX_BCMC_TXQ_TYPE;
     hw \<leftarrow> aml_txq_init i (aml_txq_vif_idx hw v NX_BCMC_TXQ_TYPE) st AML_HWQ_BE 0
             (Some (bcmc_index (vif_table hw v))) v hw;
     i \<leftarrow> aml_txq_vif_get hw v NX_UNK_TXQ_TYPE;
     aml_txq_init i (aml_txq_vif_idx hw v NX_UNK_TXQ_TYPE) st AML_HWQ_VO TID_MGT None v hw
   }"

definition aml_txq_vif_deinit :: "nat \<Rightarrow> tx_hw \<Rightarrow> tx_hw option" where
  "aml_txq_vif_deinit v hw = do {
     i \<leftarrow> aml_txq_vif_get hw v NX_BCMC_TXQ_TYPE;
     hw \<leftarrow> aml_txq_deinit i hw;
     i \<leftarrow> aml_txq_vif_get hw v NX_UNK_TXQ_TYPE;
     aml_txq_deinit i hw
   }"

fun sta_init_loop :: "nat \<Rightarrow> u8 \<Rightarrow> nat \<Rightarrow> nat \<Rightarrow> nat list \<Rightarrow> tx_hw \<Rightarrow> tx_hw option" where
  "sta_init_loop s st index t [] hw = Some hw"
| "sta_init_loop s st index t (i # is) hw = do {
     hw \<leftarrow> aml_txq_init i index st (aml_tid2hwq ! t) t (Some s) (sta_vif_idx (sta_table hw s)) hw;
     sta_init_loop s st (index + 1) (t + 1) is
       (upd_txq i (\<lambda>x. x\<lparr>ps_id := (if bit (uapsd_tids (sta_table hw s)) t then UAPSD_ID else LEGACY_PS_ID)\<rparr>) hw)
   }"

definition aml_txq_sta_init :: "nat \<Rightarrow> u8 \<Rightarrow> tx_hw \<Rightarrow> tx_hw option" where
  "aml_txq_sta_init s st hw = do {
     is \<leftarrow> foreach_sta_txq hw (Some s);
     sta_init_loop s st (aml_txq_sta_idx (Some (sta_table hw s)) 0) 0 is hw
   }"

fun each_txq :: "(nat \<Rightarrow> tx_hw \<Rightarrow> tx_hw option) \<Rightarrow> nat list \<Rightarrow> tx_hw \<Rightarrow> tx_hw option" where
  "each_txq f [] hw = Some hw"
| "each_txq f (i # is) hw = do { hw \<leftarrow> f i hw; each_txq f is hw }"

definition aml_txq_sta_deinit :: "nat option \<Rightarrow> tx_hw \<Rightarrow> tx_hw option" where
  "aml_txq_sta_deinit s hw = do { is \<leftarrow> foreach_sta_txq hw s; each_txq aml_txq_deinit is hw }"

definition aml_txq_unk_vif_init :: "nat \<Rightarrow> tx_hw \<Rightarrow> tx_hw option" where
  "aml_txq_unk_vif_init v hw = do {
     i \<leftarrow> aml_txq_vif_get hw v NX_UNK_TXQ_TYPE;
     hw \<leftarrow> aml_txq_deinit i hw;
     aml_txq_init i (aml_txq_vif_idx hw v NX_UNK_TXQ_TYPE) 0 AML_HWQ_VO TID_MGT None v hw
   }"

definition aml_txq_unk_vif_deinit :: "nat \<Rightarrow> tx_hw \<Rightarrow> tx_hw option" where
  "aml_txq_unk_vif_deinit v hw = do { i \<leftarrow> aml_txq_vif_get hw v NX_UNK_TXQ_TYPE; aml_txq_deinit i hw }"

definition aml_txq_offchan_init :: "nat \<Rightarrow> tx_hw \<Rightarrow> tx_hw option" where
  "aml_txq_offchan_init v hw =
     aml_txq_init NX_OFF_CHAN_TXQ_IDX NX_OFF_CHAN_TXQ_IDX (ucast AML_TXQ_STOP_CHAN) AML_HWQ_VO TID_MGT None v hw"

definition aml_txq_offchan_deinit :: "tx_hw \<Rightarrow> tx_hw option" where
  "aml_txq_offchan_deinit hw = aml_txq_deinit NX_OFF_CHAN_TXQ_IDX hw"

text \<open>The TDLS variants, for a wiphy that supports TDLS or not.\<close>

definition aml_txq_tdls_vif_init :: "bool \<Rightarrow> nat \<Rightarrow> tx_hw \<Rightarrow> tx_hw option" where
  "aml_txq_tdls_vif_init tdls v hw = (if \<not> tdls then Some hw else aml_txq_unk_vif_init v hw)"

definition aml_txq_tdls_vif_deinit :: "bool \<Rightarrow> nat \<Rightarrow> tx_hw \<Rightarrow> tx_hw option" where
  "aml_txq_tdls_vif_deinit tdls v hw = (if \<not> tdls then Some hw else aml_txq_unk_vif_deinit v hw)"

definition nx_txdesc_cnt :: "int list" where "nx_txdesc_cnt = [64, 64, 64, 64, 8]"
definition nx_txdesc_cnt_ext :: "int list" where
  "nx_txdesc_cnt_ext = [TX_MAX_CNT, TX_MAX_CNT, TX_MAX_CNT, TX_MAX_CNT, 8]"

definition aml_hwq_init :: "plat \<Rightarrow> tx_hw \<Rightarrow> tx_hw" where
  "aml_hwq_init pl hw = hw\<lparr>hwq := (\<lambda>q. if q < NX_TXQ_CNT then
     let n = (if aml_bus_type pl = PCIE_MODE then nx_txdesc_cnt else nx_txdesc_cnt_ext) ! q
     in (hwq hw q)\<lparr>hwq_credits := n, hwq_size := n, hwq_list := []\<rparr> else hwq hw q)\<rparr>"

definition aml_txq_prepare :: "tx_hw \<Rightarrow> tx_hw" where
  "aml_txq_prepare hw = hw\<lparr>txq := (\<lambda>i. if i < NX_NB_TXQ then (txq hw i)\<lparr>idx := TXQ_INACTIVE\<rparr> else txq hw i),
     txq_cleanup := None\<rparr>"

section \<open>Stations and interfaces\<close>

definition aml_txq_sta_start :: "plat \<Rightarrow> nat option \<Rightarrow> u16 \<Rightarrow> tx_hw \<Rightarrow> tx_hw option" where
  "aml_txq_sta_start pl s reason hw = do {
     p \<leftarrow> s;
     is \<leftarrow> foreach_sta_txq hw (Some p);
     each_txq (\<lambda>i. aml_txq_start pl i reason) is hw
   }"

definition aml_txq_sta_stop :: "nat option \<Rightarrow> u16 \<Rightarrow> tx_hw \<Rightarrow> tx_hw option" where
  "aml_txq_sta_stop s reason hw = (case s of
     None \<Rightarrow> Some hw
   | Some p \<Rightarrow> do {
       is \<leftarrow> foreach_sta_txq hw (Some p);
       each_txq (\<lambda>i hw. Some (aml_txq_stop i reason hw)) is hw
     })"

definition aml_txq_tdls_sta_start :: "plat \<Rightarrow> nat \<Rightarrow> u16 \<Rightarrow> tx_hw \<Rightarrow> tx_hw option" where
  "aml_txq_tdls_sta_start pl v reason hw =
     (let s = tdls_sta (vif_table hw v) in if s = None then Some hw else aml_txq_sta_start pl s reason hw)"

definition aml_txq_tdls_sta_stop :: "nat \<Rightarrow> u16 \<Rightarrow> tx_hw \<Rightarrow> tx_hw option" where
  "aml_txq_tdls_sta_stop v reason hw =
     (let s = tdls_sta (vif_table hw v) in if s = None then Some hw else aml_txq_sta_stop s reason hw)"

fun each_sta :: "(nat option \<Rightarrow> tx_hw \<Rightarrow> tx_hw option) \<Rightarrow> nat list \<Rightarrow> tx_hw \<Rightarrow> tx_hw option" where
  "each_sta f [] hw = Some hw"
| "each_sta f (s # ss) hw = do { hw \<leftarrow> f (Some s) hw; each_sta f ss hw }"

text \<open>A list head that was never initialised and an interface type that carries no stations
  (\<open>BUG\<close>) are faults.\<close>

definition aml_txq_vif_for_each_sta ::
    "(nat option \<Rightarrow> tx_hw \<Rightarrow> tx_hw option) \<Rightarrow> nat \<Rightarrow> tx_hw \<Rightarrow> tx_hw option" where
  "aml_txq_vif_for_each_sta f v hw =
     (let vif = vif_table hw v;
          stas = (\<lambda>v. do { ss \<leftarrow> ap_sta_list (vif_table hw v); each_sta f ss hw })
      in case iftype vif of
        NL80211_IFTYPE_STATION \<Rightarrow> do {
          hw \<leftarrow> (if tdls_link_active vif then f (tdls_sta vif) hw else Some hw);
          if sta_ap vif \<noteq> None then f (sta_ap vif) hw else Some hw }
      | NL80211_IFTYPE_P2P_CLIENT \<Rightarrow> do {
          hw \<leftarrow> (if tdls_link_active vif then f (tdls_sta vif) hw else Some hw);
          if sta_ap vif \<noteq> None then f (sta_ap vif) hw else Some hw }
      | NL80211_IFTYPE_AP_VLAN \<Rightarrow> stas (vlan_master vif)
      | NL80211_IFTYPE_AP \<Rightarrow> stas v
      | NL80211_IFTYPE_MESH_POINT \<Rightarrow> stas v
      | NL80211_IFTYPE_P2P_GO \<Rightarrow> stas v
      | NL80211_IFTYPE_MONITOR \<Rightarrow> None
      | NL80211_IFTYPE_OTHER \<Rightarrow> None)"

definition aml_txq_vif_start :: "plat \<Rightarrow> nat \<Rightarrow> u16 \<Rightarrow> tx_hw \<Rightarrow> tx_hw option" where
  "aml_txq_vif_start pl v reason hw =
     (let vif = vif_table hw v in
      if iftype vif = NL80211_IFTYPE_MONITOR then Some hw
      else do {
        hw \<leftarrow> (case tdls_sta vif of
                 None \<Rightarrow> Some hw
               | Some p \<Rightarrow> if roc_tdls vif \<and> tdls_chsw_en (sta_table hw p)
                           then aml_txq_sta_start pl (Some p) reason hw else Some hw);
        hw \<leftarrow> (if \<not> roc_tdls vif
               then aml_txq_vif_for_each_sta (\<lambda>s. aml_txq_sta_start pl s reason) v hw else Some hw);
        i \<leftarrow> aml_txq_vif_get hw v NX_BCMC_TXQ_TYPE;
        hw \<leftarrow> aml_txq_start pl i reason hw;
        i \<leftarrow> aml_txq_vif_get hw v NX_UNK_TXQ_TYPE;
        aml_txq_start pl i reason hw
      })"

definition aml_txq_vif_stop :: "nat \<Rightarrow> u16 \<Rightarrow> tx_hw \<Rightarrow> tx_hw option" where
  "aml_txq_vif_stop v reason hw =
     (if iftype (vif_table hw v) = NL80211_IFTYPE_MONITOR then Some hw
      else do {
        hw \<leftarrow> aml_txq_vif_for_each_sta (\<lambda>s. aml_txq_sta_stop s reason) v hw;
        i \<leftarrow> aml_txq_vif_get hw v NX_BCMC_TXQ_TYPE;
        let hw = aml_txq_stop i reason hw;
        i \<leftarrow> aml_txq_vif_get hw v NX_UNK_TXQ_TYPE;
        Some (aml_txq_stop i reason hw)
      })"

definition aml_txq_offchan_start :: "plat \<Rightarrow> tx_hw \<Rightarrow> tx_hw option" where
  "aml_txq_offchan_start pl hw = aml_txq_start pl NX_OFF_CHAN_TXQ_IDX AML_TXQ_STOP_CHAN hw"

text \<open>The carrier state of the new interface is not modelled.\<close>

definition aml_txq_sta_switch_vif :: "nat \<Rightarrow> nat \<Rightarrow> tx_hw \<Rightarrow> tx_hw option" where
  "aml_txq_sta_switch_vif s new_vif hw = do {
     base \<leftarrow> aml_txq_sta_get hw (Some s) 0;
     if base + NX_NB_TID_PER_STA \<le> NX_NB_TXQ
     then each_txq (\<lambda>i hw. Some ((upd_txq i (\<lambda>t. t\<lparr>ndev := new_vif\<rparr>) hw)
            \<lparr>ndev_stopped := ndev_stopped hw - {(new_vif, ndev_idx (txq hw i))}\<rparr>))
            [base..<base + NX_NB_TID_PER_STA] hw
     else None
   }"

section \<open>Frames queued for too long\<close>

definition ps_frame_dropped :: "nat \<Rightarrow> tx_hw \<Rightarrow> tx_hw" where
  "ps_frame_dropped i hw = (case txq_sta (txq hw i) of
     None \<Rightarrow> hw
   | Some p \<Rightarrow>
       if ps_active (sta_table hw p) then
         let ps = ps_id (txq hw i);
             hw1 = upd_sta p (\<lambda>s. s\<lparr>pkt_ready := (pkt_ready s)(ps := pkt_ready s ps - 1)\<rparr>) hw;
             hw2 = (if pkt_ready (sta_table hw1 p) ps = 0 then aml_set_traffic_status p False ps hw1 else hw1)
         in if sp_cnt (sta_table hw2 p) ps \<noteq> 0
            then let hw3 = upd_sta p (\<lambda>s. s\<lparr>sp_cnt := (sp_cnt s)(ps := sp_cnt s ps - 1)\<rparr>) hw2
                 in if push_limit (txq hw3 i) \<noteq> 0
                    then upd_txq i (\<lambda>t. t\<lparr>push_limit := push_limit t - 1\<rparr>) hw3 else hw3
            else hw2
       else hw)"

text \<open>The walk over the frames behind the retries: the flags are \<open>pkt_queued\<close>, \<open>dropped\<close>.\<close>

fun drop_old_walk :: "nat \<Rightarrow> u64 \<Rightarrow> addr list \<Rightarrow> bool \<Rightarrow> tx_hw \<Rightarrow> (bool \<times> bool \<times> tx_hw) option" where
  "drop_old_walk i timeout [] dropped hw = Some (False, dropped, hw)"
| "drop_old_walk i timeout (a # as) dropped hw = do {
     h \<leftarrow> hdrs hw a;
     if \<not> time_after (jiffies hw) (sw_jiffies h + timeout) then Some (True, dropped, hw)
     else do {
       hw \<leftarrow> aml_txq_drop_skb i a False hw;
       drop_old_walk i timeout as True (ps_frame_dropped i hw)
     }
   }"

definition aml_txq_drop_old_traffic :: "nat \<Rightarrow> u64 \<Rightarrow> bool \<Rightarrow> tx_hw \<Rightarrow> (bool \<times> bool \<times> tx_hw) option" where
  "aml_txq_drop_old_traffic i timeout dropped hw =
     (if idx (txq hw i) = TXQ_INACTIVE then Some (False, dropped, hw)
      else do {
        (pkt_queued, dropped, hw) \<leftarrow>
          drop_old_walk i timeout (drop (nat (nb_retry (txq hw i))) (sk_list (txq hw i))) dropped hw;
        let hw = (if sk_list (txq hw i) = []
                  then upd_txq i (\<lambda>t. t\<lparr>pkt_sent := 0\<rparr>) (aml_txq_del_from_hw_list i hw) else hw);
        Some (pkt_queued, dropped, aml_netif_txq_flow_control i hw)
      })"

fun drop_old_each :: "u64 \<Rightarrow> nat list \<Rightarrow> bool \<times> bool \<times> tx_hw \<Rightarrow> (bool \<times> bool \<times> tx_hw) option" where
  "drop_old_each timeout [] r = Some r"
| "drop_old_each timeout (i # is) (queued, dropped, hw) = do {
     (qd, dropped, hw) \<leftarrow> aml_txq_drop_old_traffic i timeout dropped hw;
     drop_old_each timeout is (queued \<or> qd, dropped, hw)
   }"

fun drop_old_stas :: "u64 \<Rightarrow> nat list \<Rightarrow> bool \<times> bool \<times> tx_hw \<Rightarrow> (bool \<times> bool \<times> tx_hw) option" where
  "drop_old_stas timeout [] r = Some r"
| "drop_old_stas timeout (s # ss) (queued, dropped, hw) = do {
     is \<leftarrow> foreach_sta_txq hw (Some s);
     r \<leftarrow> drop_old_each (timeout * of_int (listen_interval (sta_table hw s))) is (queued, dropped, hw);
     drop_old_stas timeout ss r
   }"

definition aml_txq_drop_ap_vif_old_traffic :: "nat \<Rightarrow> tx_hw \<Rightarrow> (bool \<times> tx_hw) option" where
  "aml_txq_drop_ap_vif_old_traffic v hw = do {
     let timeout = drop_bit 10 (ucast (bcn_interval (vif_table hw v)) * hz hw * 3);
     i \<leftarrow> aml_txq_vif_get hw v NX_BCMC_TXQ_TYPE;
     (_, dropped, hw) \<leftarrow> aml_txq_drop_old_traffic i (AML_TXQ_MAX_QUEUE_JIFFIES hw) False hw;
     i \<leftarrow> aml_txq_vif_get hw v NX_UNK_TXQ_TYPE;
     (_, dropped, hw) \<leftarrow> aml_txq_drop_old_traffic i (AML_TXQ_MAX_QUEUE_JIFFIES hw) dropped hw;
     let hw = (if dropped then report (Dropped_old v) hw else hw);
     (queued, _, hw) \<leftarrow> (case ap_sta_list (vif_table hw v) of
         None \<Rightarrow> Some (False, dropped, hw)
       | Some ss \<Rightarrow> drop_old_stas timeout ss (False, dropped, hw));
     Some (queued, hw)
   }"

definition aml_txq_drop_sta_vif_old_traffic :: "nat \<Rightarrow> tx_hw \<Rightarrow> (bool \<times> tx_hw) option" where
  "aml_txq_drop_sta_vif_old_traffic v hw = do {
     let vif = vif_table hw v;
     let timeout = AML_TXQ_MAX_QUEUE_JIFFIES hw;
     r \<leftarrow> (if tdls_link_active vif then do {
            i \<leftarrow> aml_txq_vif_get hw v NX_UNK_TXQ_TYPE;
            is \<leftarrow> foreach_sta_txq hw (tdls_sta vif);
            drop_old_each timeout (i # is) (False, False, hw)
          } else Some (False, False, hw));
     is \<leftarrow> foreach_sta_txq hw (sta_ap vif);
     (queued, dropped, hw) \<leftarrow> drop_old_each timeout is r;
     Some (queued, if dropped then report (Dropped_old v) hw else hw)
   }"

fun cleanup_vifs :: "nat list \<Rightarrow> bool \<times> tx_hw \<Rightarrow> (bool \<times> tx_hw) option" where
  "cleanup_vifs [] r = Some r"
| "cleanup_vifs (v # vs) (queued, hw) = do {
     (qd, hw) \<leftarrow> (let ty = iftype (vif_table hw v) in
        if ty = NL80211_IFTYPE_AP \<or> ty = NL80211_IFTYPE_P2P_GO \<or> ty = NL80211_IFTYPE_MESH_POINT
        then aml_txq_drop_ap_vif_old_traffic v hw
        else if ty = NL80211_IFTYPE_STATION \<or> ty = NL80211_IFTYPE_P2P_CLIENT
        then aml_txq_drop_sta_vif_old_traffic v hw
        else Some (False, hw));
     cleanup_vifs vs (queued \<or> qd, hw)
   }"

text \<open>The timer is no longer pending when its function runs.\<close>

definition aml_txq_cleanup_timer_cb :: "plat \<Rightarrow> tx_hw \<Rightarrow> tx_hw option" where
  "aml_txq_cleanup_timer_cb pl hw =
     (let hw = hw\<lparr>txq_cleanup := None\<rparr> in
      if hw_state pl \<noteq> WIFI_SUSPEND_STATE_NONE then Some hw
      else do {
        (pkt_queue, hw) \<leftarrow> cleanup_vifs (vifs hw) (False, hw);
        Some (if pkt_queue then hw\<lparr>txq_cleanup := Some (jiffies hw + AML_TXQ_CLEANUP_INTERVAL hw)\<rparr> else hw)
      })"

section \<open>Confirmation counters\<close>

definition aml_txq_confirm_any :: "nat \<Rightarrow> nat \<Rightarrow> tx_hw \<Rightarrow> tx_hw" where
  "aml_txq_confirm_any i q hw =
     (let hw1 = (if 0 < pkt_pushed (txq hw i) then upd_txq i (\<lambda>t. t\<lparr>pkt_pushed := pkt_pushed t - 1\<rparr>) hw else hw)
      in if hwq_size (hwq hw1 q) < hwq_credits (hwq hw1 q) then hw1
         else (upd_hwq q (\<lambda>h. h\<lparr>hwq_credits := hwq_credits h + 1, need_processing := True\<rparr>) hw1)
                \<lparr>cfm_balance := (cfm_balance hw1)(q := cfm_balance hw1 q - 1)\<rparr>)"

fun pushed_total :: "tx_hw \<Rightarrow> nat list \<Rightarrow> int" where
  "pushed_total hw [] = 0"
| "pushed_total hw (i # is) = pkt_pushed (txq hw i) + pushed_total hw is"

definition aml_txq_pushed_sta :: "nat option \<Rightarrow> tx_hw \<Rightarrow> int option" where
  "aml_txq_pushed_sta s hw = map_option (pushed_total hw) (foreach_sta_txq hw s)"

definition aml_txq_pushed_bcmc_unk :: "nat option \<Rightarrow> tx_hw \<Rightarrow> int option" where
  "aml_txq_pushed_bcmc_unk v hw = (case v of
     None \<Rightarrow> Some 0
   | Some v \<Rightarrow> do {
       i \<leftarrow> aml_txq_vif_get hw v NX_UNK_TXQ_TYPE;
       j \<leftarrow> aml_txq_vif_get hw v NX_BCMC_TXQ_TYPE;
       Some (pkt_pushed (txq hw i) + pkt_pushed (txq hw j)) })"

end
