(* ===== verification/Txq_Inv.thy ===== *)
theory Txq_Inv
  imports Txq
begin

text \<open>
  The invariant of the TX queues and its preservation by the operations of Txq, for the
  buses whose transmission is driven by the TX task (USB and SDIO): who owns a frame, what
  the credits count, which queues are linked, where the retries are.
\<close>

section \<open>Frames in the firmware\<close>

text \<open>The frames whose host id is outstanding, oldest first.\<close>

definition fw_frames :: "ipc_host_env \<Rightarrow> addr list" where
  "fw_frames env = map (\<lambda>i. the (hostptr (tx_hostid env ! i))) (tx_hostid_pushed env)"

lemma fw_frames_push:
  assumes "hostid_inv pl env" and "tx_hostid_available env \<noteq> []"
  shows "fw_frames (fst (ipc_host_tx_host_ptr_to_id env a)) = fw_frames env @ [a]"
    and "snd (ipc_host_tx_host_ptr_to_id env a) \<noteq> 0"
    and "hostid_inv pl (fst (ipc_host_tx_host_ptr_to_id env a))"
proof -
  obtain i rest where c: "tx_hostid_available env = i # rest"
    using assms(2) by (cases "tx_hostid_available env") auto
  have wf: "hostid_wf env"
    using assms(1) by (simp add: hostid_inv_def)
  then have i: "i < length (tx_hostid env)" "i \<notin> set (tx_hostid_pushed env)"
    using c by (auto simp: hostid_wf_defs)
  then show "fw_frames (fst (ipc_host_tx_host_ptr_to_id env a)) = fw_frames env @ [a]"
    using c by (auto simp: fw_frames_def ipc_host_tx_host_ptr_to_id_def Let_def hostid_list_del_def remove1_idem
        nth_list_update)
  show "snd (ipc_host_tx_host_ptr_to_id env a) \<noteq> 0"
    using c i hostid_nonzero [OF wf i(1)] by (simp add: ipc_host_tx_host_ptr_to_id_def Let_def)
  show "hostid_inv pl (fst (ipc_host_tx_host_ptr_to_id env a))"
    using hostid_step_inv [OF assms(1), of "Tx_push a"] by simp
qed

lemma fw_frames_pop:
  assumes "hostid_inv pl env" and "aml_bus_type pl \<noteq> PCIE_MODE"
    and "ipc_host_tx_host_id_to_ptr_for_sdio_usb env h = (env', Some a)"
  shows "\<exists>xs ys. fw_frames env = xs @ a # ys \<and> fw_frames env' = xs @ ys" and "hostid_inv pl env'"
proof -
  have wf: "hostid_wf env"
    using assms(1) by (simp add: hostid_inv_def)
  let ?p = "\<lambda>i. hostid (tx_hostid env ! i) = h"
  obtain i js where f: "find_from ?p (tx_hostid_pushed env) = i # js" and a: "hostptr (tx_hostid env ! i) = Some a"
    using assms(3) by (auto simp: ipc_host_tx_host_id_to_ptr_for_sdio_usb_def Let_def split: if_splits list.splits)
  obtain zs where z: "tx_hostid_pushed env = zs @ i # js" "i \<notin> set zs"
    using find_from_Cons [OF f] by auto
  have d: "distinct (tx_hostid_pushed env)"
    using wf by (simp add: hostid_wf_defs)
  have "tx_hostid_pushed env' = zs @ js" "\<And>j. j \<noteq> i \<Longrightarrow> tx_hostid env' ! j = tx_hostid env ! j"
    using assms(3) f z by (auto simp: ipc_host_tx_host_id_to_ptr_for_sdio_usb_def Let_def hostid_list_del_def
        remove1_append split: if_splits)
  moreover have "i \<notin> set zs" "i \<notin> set js"
    using d z by auto
  ultimately have "fw_frames env = map (\<lambda>i. the (hostptr (tx_hostid env ! i))) zs @ a # map (\<lambda>i. the (hostptr (tx_hostid env ! i))) js"
    "fw_frames env' = map (\<lambda>i. the (hostptr (tx_hostid env ! i))) zs @ map (\<lambda>i. the (hostptr (tx_hostid env ! i))) js"
    using z a by (auto simp: fw_frames_def, metis+)
  then show "\<exists>xs ys. fw_frames env = xs @ a # ys \<and> fw_frames env' = xs @ ys"
    by blast
  show "hostid_inv pl env'"
    using hostid_step_inv [OF assms(1), of "Tx_confirm h"] assms(2,3) by simp
qed

section \<open>The invariant\<close>

text \<open>While a hardware queue is served, the frames taken from queue \<open>i\<close> and not yet pushed,
  \<open>p\<close>, still count as waiting in front of it.\<close>

definition waiting :: "nat \<Rightarrow> addr list \<Rightarrow> tx_hw \<Rightarrow> nat \<Rightarrow> addr list" where
  "waiting i p hw j = (if j = i then p else []) @ sk_list (txq hw j)"

definition all_waiting :: "nat \<Rightarrow> addr list \<Rightarrow> tx_hw \<Rightarrow> addr list" where
  "all_waiting i p hw = concat (map (waiting i p hw) [0..<NX_NB_TXQ])"

text \<open>The retries are the first \<open>nb_retry\<close> frames.\<close>

definition retry_ok :: "aml_txq \<Rightarrow> addr list \<Rightarrow> bool" where
  "retry_ok t w \<longleftrightarrow> 0 \<le> nb_retry t \<and> nb_retry t \<le> int (length w) \<and>
     last_retry_skb t = (if nb_retry t = 0 then None else Some (w ! (nat (nb_retry t) - 1)))"

text \<open>A linked queue is active, not stopped and has credits; an inactive one has no frames.
  An active queue has its own index, and the broadcast queues stay on the best-effort queue.\<close>

definition txq_ok :: "nat \<Rightarrow> aml_txq \<Rightarrow> addr list \<Rightarrow> bool" where
  "txq_ok i t w \<longleftrightarrow> retry_ok t w \<and> txq_hwq t < NX_TXQ_CNT \<and> 0 \<le> push_limit t \<and>
     (aml_txq_is_scheduled t \<longrightarrow> \<not> aml_txq_is_stopped t \<and> idx t \<noteq> TXQ_INACTIVE \<and> 0 < txq_credits t) \<and>
     (idx t = TXQ_INACTIVE \<longrightarrow> w = []) \<and>
     0 \<le> txq_credits t \<and>
     (idx t \<noteq> TXQ_INACTIVE \<longrightarrow> idx t = i \<and> txq_credits t + pkt_pushed t \<le> TX_MAX_CNT) \<and>
     (idx t \<noteq> TXQ_INACTIVE \<or> pkt_pushed t \<noteq> 0 \<longrightarrow>
        NX_FIRST_VIF_TXQ_IDX \<le> i \<and> i < NX_FIRST_UNK_TXQ_IDX \<longrightarrow> txq_hwq t = AML_HWQ_BE)"

lemma txq_ok_retry: "txq_ok i t w \<Longrightarrow> retry_ok t w"
  by (simp add: txq_ok_def)

definition fw_of_txq :: "tx_hw \<Rightarrow> nat \<Rightarrow> nat" where
  "fw_of_txq hw i = length (filter (\<lambda>a. map_option hdr_txq (hdrs hw a) = Some i) (fw_frames (ipc_env hw)))"

definition fw_of_hwq :: "tx_hw \<Rightarrow> nat \<Rightarrow> nat" where
  "fw_of_hwq hw q = length (filter (\<lambda>a. map_option hw_queue (hdrs hw a) = Some q) (fw_frames (ipc_env hw)))"

text \<open>The hardware queue of a queue does not change as long as frames it pushed are in the firmware.\<close>

definition fw_ok :: "tx_hw \<Rightarrow> bool" where
  "fw_ok hw \<longleftrightarrow> (\<forall>a\<in>set (fw_frames (ipc_env hw)). \<exists>h. hdrs hw a = Some h \<and> hdr_txq h < NX_NB_TXQ \<and>
     hw_queue h = txq_hwq (txq hw (hdr_txq h)))"

lemma fw_okD:
  "fw_ok hw \<Longrightarrow> a \<in> set (fw_frames (ipc_env hw)) \<Longrightarrow>
     \<exists>h. hdrs hw a = Some h \<and> hdr_txq h < NX_NB_TXQ \<and> hw_queue h = txq_hwq (txq hw (hdr_txq h))"
  by (simp add: fw_ok_def)

lemma fw_ok_mono:
  assumes "fw_ok hw" and "set (fw_frames (ipc_env hw')) \<subseteq> set (fw_frames (ipc_env hw))"
    and "\<And>a. a \<in> set (fw_frames (ipc_env hw')) \<Longrightarrow> hdrs hw' a = hdrs hw a"
    and "\<And>a h. a \<in> set (fw_frames (ipc_env hw')) \<Longrightarrow> hdrs hw a = Some h \<Longrightarrow> hdr_txq h < NX_NB_TXQ \<Longrightarrow>
      txq_hwq (txq hw' (hdr_txq h)) = txq_hwq (txq hw (hdr_txq h))"
  shows "fw_ok hw'"
  unfolding fw_ok_def
proof
  fix a
  assume a: "a \<in> set (fw_frames (ipc_env hw'))"
  with assms(1,2) obtain h where "hdrs hw a = Some h" "hdr_txq h < NX_NB_TXQ" "hw_queue h = txq_hwq (txq hw (hdr_txq h))"
    using fw_okD by blast
  with a show "\<exists>h. hdrs hw' a = Some h \<and> hdr_txq h < NX_NB_TXQ \<and> hw_queue h = txq_hwq (txq hw' (hdr_txq h))"
    using assms(3,4) by auto
qed

text \<open>Every allocated frame is waiting in exactly one place or in the firmware.\<close>

definition frames_ok :: "nat \<Rightarrow> addr list \<Rightarrow> tx_hw \<Rightarrow> bool" where
  "frames_ok i p hw \<longleftrightarrow>
     distinct (all_waiting i p hw @ fw_frames (ipc_env hw)) \<and>
     set (all_waiting i p hw @ fw_frames (ipc_env hw)) = dom (hdrs hw) \<and>
     (\<forall>j<NX_NB_TXQ. \<forall>a\<in>set (waiting i p hw j). map_option hdr_txq (hdrs hw a) = Some j) \<and>
     fw_ok hw"

text \<open>A frame with further subframes is marked as an A-MSDU and its descriptor counts them.\<close>

definition hdr_ok :: "aml_sw_txhdr \<Rightarrow> bool" where
  "hdr_ok h \<longleftrightarrow> packet_cnt h = 1 + of_nat (length (am_hdrs h)) \<and> length (am_hdrs h) < NX_TX_PAYLOAD_MAX \<and>
     (bit (tx_flags h) 6 \<longleftrightarrow> am_hdrs h \<noteq> []) \<and> (am_hdrs h \<noteq> [] \<longrightarrow> am_nb h = packet_cnt h \<and> am_len h \<noteq> 0)"

text \<open>Every subframe belongs to exactly one frame.\<close>

definition subs_of :: "(addr \<Rightarrow> aml_sw_txhdr option) \<Rightarrow> addr \<Rightarrow> addr list" where
  "subs_of H a = (case H a of None \<Rightarrow> [] | Some h \<Rightarrow> am_hdrs h)"

definition subs_ok :: "(addr \<Rightarrow> aml_sw_txhdr option) \<Rightarrow> (addr \<Rightarrow> aml_amsdu_txhdr option) \<Rightarrow> bool" where
  "subs_ok H S \<longleftrightarrow>
     (\<forall>h\<in>ran H. hdr_ok h) \<and> (\<forall>a. distinct (subs_of H a)) \<and>
     (\<forall>a b. a \<noteq> b \<longrightarrow> set (subs_of H a) \<inter> set (subs_of H b) = {}) \<and>
     dom S = (\<Union>a. set (subs_of H a)) \<and> dom H \<inter> dom S = {}"

definition subframes_ok :: "tx_hw \<Rightarrow> bool" where
  "subframes_ok hw \<longleftrightarrow> subs_ok (hdrs hw) (subframes hw)"

lemma subs_of_simps [simp]:
  "H a = Some h \<Longrightarrow> subs_of H a = am_hdrs h" "H a = None \<Longrightarrow> subs_of H a = []"
  "subs_of (H(a := None)) b = (if b = a then [] else subs_of H b)"
  "subs_of (H(a \<mapsto> h)) b = (if b = a then am_hdrs h else subs_of H b)"
  by (simp_all add: subs_of_def)

lemma subs_ok_parts:
  assumes "subs_ok H S"
  shows "\<And>h. h \<in> ran H \<Longrightarrow> hdr_ok h" "\<And>a. distinct (subs_of H a)"
    "\<And>a b. a \<noteq> b \<Longrightarrow> set (subs_of H a) \<inter> set (subs_of H b) = {}"
    "\<And>x. x \<in> dom S \<longleftrightarrow> (\<exists>a. x \<in> set (subs_of H a))" "\<And>x. x \<in> dom H \<Longrightarrow> x \<notin> dom S"
proof -
  note a = assms [unfolded subs_ok_def]
  note b = a [THEN conjunct2] and c = a [THEN conjunct2, THEN conjunct2]
  note d = c [THEN conjunct2]
  show "\<And>h. h \<in> ran H \<Longrightarrow> hdr_ok h"
    by (rule bspec [OF a [THEN conjunct1]])
  show "\<And>a. distinct (subs_of H a)"
    by (rule spec [OF b [THEN conjunct1]])
  show "\<And>a b. a \<noteq> b \<Longrightarrow> set (subs_of H a) \<inter> set (subs_of H b) = {}"
    by (rule c [THEN conjunct1, rule_format])
  show "\<And>x. x \<in> dom S \<longleftrightarrow> (\<exists>a. x \<in> set (subs_of H a))"
    by (simp only: d [THEN conjunct1] UN_iff UNIV_I bex_simps simp_thms)
  show "\<And>x. x \<in> dom H \<Longrightarrow> x \<notin> dom S"
    by (rule disjoint_iff [THEN iffD1, OF d [THEN conjunct2], rule_format])
qed

lemma subs_okI:
  assumes "\<And>h. h \<in> ran H \<Longrightarrow> hdr_ok h" "\<And>a. distinct (subs_of H a)"
    "\<And>a b. a \<noteq> b \<Longrightarrow> set (subs_of H a) \<inter> set (subs_of H b) = {}"
    "\<And>x. x \<in> dom S \<longleftrightarrow> (\<exists>a. x \<in> set (subs_of H a))" "\<And>x. x \<in> dom H \<Longrightarrow> x \<notin> dom S"
  shows "subs_ok H S"
proof -
  have "dom S = (\<Union>a. set (subs_of H a))"
    using assms(4) by (intro set_eqI) simp
  moreover have "dom H \<inter> dom S = {}"
    using assms(5) by blast
  ultimately show ?thesis
    unfolding subs_ok_def using assms(1,2,3) by blast
qed

lemma subs_okD:
  assumes "subs_ok H S" and "H a = Some h"
  shows "hdr_ok h" "distinct (am_hdrs h)" "set (am_hdrs h) \<subseteq> dom S" "set (am_hdrs h) \<inter> dom H = {}" "S a = None"
    "\<And>b k. b \<noteq> a \<Longrightarrow> H b = Some k \<Longrightarrow> set (am_hdrs h) \<inter> set (am_hdrs k) = {}"
proof -
  have sub: "set (am_hdrs h) = set (subs_of H a)"
    using assms(2) by simp
  show "hdr_ok h"
    using assms by (auto simp: subs_ok_def intro: ranI)
  show "distinct (am_hdrs h)"
    using assms subs_of_simps(1) [of H a h] unfolding subs_ok_def by metis
  show d: "set (am_hdrs h) \<subseteq> dom S"
    using assms(1) unfolding subs_ok_def sub by blast
  have dis: "dom H \<inter> dom S = {}"
    using assms(1) unfolding subs_ok_def by blast
  then show "set (am_hdrs h) \<inter> dom H = {}"
    using d by blast
  show "S a = None"
    using dis assms(2) by blast
  show "set (am_hdrs h) \<inter> set (am_hdrs k) = {}" if "b \<noteq> a" "H b = Some k" for b k
    using assms that subs_of_simps(1) [of H a h] subs_of_simps(1) [of H b k] unfolding subs_ok_def by metis
qed

lemma subs_ok_upd:
  assumes "subs_ok H S" and "H a = Some h" and "am_hdrs k = am_hdrs h" and "hdr_ok h \<Longrightarrow> hdr_ok k"
  shows "subs_ok (H(a \<mapsto> k)) S"
proof -
  have same: "subs_of (H(a \<mapsto> k)) = subs_of H"
    using assms(2,3) by (intro ext) simp
  note P = subs_ok_parts [OF assms(1)]
  show ?thesis
  proof (rule subs_okI)
    show "hdr_ok j" if "j \<in> ran (H(a \<mapsto> k))" for j
      using that P(1) assms(4) subs_okD(1) [OF assms(1,2)] by (auto simp: ran_def split: if_splits)
    show "x \<notin> dom S" if "x \<in> dom (H(a \<mapsto> k))" for x
      using that P(5) assms(2) by (auto split: if_splits)
  qed (use P(2,3,4) in \<open>simp_all only: same\<close>)
qed

lemma subs_ok_remove:
  assumes "subs_ok H S" and "H a = Some h" and "dom S' = dom S - set (am_hdrs h)"
  shows "subs_ok (H(a := None)) S'"
proof (rule subs_okI)
  note P = subs_ok_parts [OF assms(1)]
  have h: "subs_of H a = am_hdrs h"
    using assms(2) by simp
  show "hdr_ok k" if "k \<in> ran (H(a := None))" for k
    using that P(1) by (auto simp: ran_def split: if_splits)
  show "distinct (subs_of (H(a := None)) b)" for b
    using P(2) by simp
  show "set (subs_of (H(a := None)) b) \<inter> set (subs_of (H(a := None)) c) = {}" if "b \<noteq> c" for b c
    using P(3) that by simp
  fix x
  have others: "x \<notin> set (am_hdrs h)" if "b \<noteq> a" "x \<in> set (subs_of H b)" for b
    using P(3) [of b a] that unfolding h by blast
  have "x \<in> dom S' \<longleftrightarrow> (\<exists>b. x \<in> set (subs_of H b)) \<and> x \<notin> set (am_hdrs h)"
    unfolding assms(3) using P(4) by simp
  also have "\<dots> \<longleftrightarrow> (\<exists>b. b \<noteq> a \<and> x \<in> set (subs_of H b))"
    using others h by metis
  also have "\<dots> \<longleftrightarrow> (\<exists>b. x \<in> set (if b = a then [] else subs_of H b))"
    by (auto split: if_splits)
  finally show "x \<in> dom S' \<longleftrightarrow> (\<exists>b. x \<in> set (subs_of (H(a := None)) b))"
    by (simp only: subs_of_simps)
  show "x \<notin> dom S'" if "x \<in> dom (H(a := None))"
    using that P(5) [of x] assms(3) by (auto split: if_splits)
qed

lemma subs_ok_insert:
  assumes "subs_ok H S0" and "H a = None" and "hdr_ok h" and "distinct (am_hdrs h)"
    and "dom S = dom S0 \<union> set (am_hdrs h)" and "dom S0 \<inter> set (am_hdrs h) = {}"
    and "a \<notin> dom S" and "dom H \<inter> set (am_hdrs h) = {}"
  shows "subs_ok (H(a \<mapsto> h)) S"
proof (rule subs_okI)
  note P = subs_ok_parts [OF assms(1)]
  have others: "set (subs_of H b) \<inter> set (am_hdrs h) = {}" for b
  proof -
    have "set (subs_of H b) \<subseteq> dom S0"
      using P(4) by blast
    then show ?thesis
      using assms(6) by blast
  qed
  have none: "subs_of H a = []"
    using assms(2) by simp
  show "hdr_ok k" if "k \<in> ran (H(a \<mapsto> h))" for k
    using that P(1) assms(3) by (auto simp: ran_def split: if_splits)
  show "distinct (subs_of (H(a \<mapsto> h)) b)" for b
    using P(2) assms(4) by simp
  show "set (subs_of (H(a \<mapsto> h)) b) \<inter> set (subs_of (H(a \<mapsto> h)) c) = {}" if "b \<noteq> c" for b c
    using P(3) that others by (simp add: Int_commute)
  fix x
  have "x \<in> dom S \<longleftrightarrow> (\<exists>b. x \<in> set (subs_of H b)) \<or> x \<in> set (am_hdrs h)"
    unfolding assms(5) using P(4) by simp
  also have "\<dots> \<longleftrightarrow> (\<exists>b. x \<in> set (if b = a then am_hdrs h else subs_of H b))"
    using none by (metis empty_iff empty_set)
  finally show "x \<in> dom S \<longleftrightarrow> (\<exists>b. x \<in> set (subs_of (H(a \<mapsto> h)) b))"
    by (simp only: subs_of_simps)
  show "x \<notin> dom S" if "x \<in> dom (H(a \<mapsto> h))"
    using that P(5) [of x] assms(5,7,8) by (auto split: if_splits)
qed

text \<open>The frame whose A-MSDU is being built waits in the queue, has a subframe and room for one more.\<close>

definition amsdu_ok :: "tx_hw \<Rightarrow> aml_txq \<Rightarrow> addr list \<Rightarrow> bool" where
  "amsdu_ok hw t w \<longleftrightarrow> (\<forall>a. txq_amsdu t = Some a \<longrightarrow> a \<in> set w \<and>
     (\<exists>h. hdrs hw a = Some h \<and> am_hdrs h \<noteq> [] \<and> length (am_hdrs h) + 1 < NX_TX_PAYLOAD_MAX))"

text \<open>The descriptors that wait for the bus belong to frames of the firmware.\<close>

definition desc_ok :: "tx_hw \<Rightarrow> bool" where
  "desc_ok hw \<longleftrightarrow> distinct (tx_desc_save hw) \<and> set (tx_desc_save hw) \<subseteq> set (fw_frames (ipc_env hw))"

text \<open>The credits of a hardware queue and its frames in the firmware add up to its size; its
  list has the scheduled queues.\<close>

definition hwq_ok :: "tx_hw \<Rightarrow> nat \<Rightarrow> bool" where
  "hwq_ok hw q \<longleftrightarrow>
     0 \<le> hwq_credits (hwq hw q) \<and> hwq_credits (hwq hw q) + int (fw_of_hwq hw q) = hwq_size (hwq hw q) \<and>
     hwq_size (hwq hw q) = nx_txdesc_cnt_ext ! q \<and>
     distinct (hwq_list (hwq hw q)) \<and>
     set (hwq_list (hwq hw q)) = {j. j < NX_NB_TXQ \<and> aml_txq_is_scheduled (txq hw j) \<and> txq_hwq (txq hw j) = q}"

definition tx_inv :: "plat \<Rightarrow> nat \<Rightarrow> addr list \<Rightarrow> tx_hw \<Rightarrow> bool" where
  "tx_inv pl i p hw \<longleftrightarrow>
     aml_bus_type pl \<noteq> PCIE_MODE \<and> hostid_inv pl (ipc_env hw) \<and>
     (p \<noteq> [] \<longrightarrow> i < NX_NB_TXQ) \<and>
     frames_ok i p hw \<and> subframes_ok hw \<and> desc_ok hw \<and>
     (\<forall>j<NX_NB_TXQ. txq_ok j (txq hw j) (waiting i p hw j) \<and> amsdu_ok hw (txq hw j) (waiting i p hw j)
                     \<and> pkt_pushed (txq hw j) = int (fw_of_txq hw j)) \<and>
     (\<forall>q<NX_TXQ_CNT. hwq_ok hw q) \<and> \<not> retry_warned hw"

lemmas tx_inv_defs = tx_inv_def frames_ok_def fw_ok_def subframes_ok_def desc_ok_def amsdu_ok_def hwq_ok_def fw_of_txq_def
  fw_of_hwq_def all_waiting_def waiting_def

text \<open>Fields of the state the invariant does not look at.\<close>

lemma tx_inv_irrelevant [simp]:
  "tx_inv pl i p (hw\<lparr>sta_table := x1\<rparr>) = tx_inv pl i p hw"
  "tx_inv pl i p (hw\<lparr>txdesc_trigger := x2\<rparr>) = tx_inv pl i p hw"
  "tx_inv pl i p (hw\<lparr>aml_tx_sem := x4\<rparr>) = tx_inv pl i p hw"
  "tx_inv pl i p (hw\<lparr>cfm_balance := x5\<rparr>) = tx_inv pl i p hw"
  "tx_inv pl i p (hw\<lparr>ndev_stopped := x6\<rparr>) = tx_inv pl i p hw"
  "tx_inv pl i p (hw\<lparr>reports := x7\<rparr>) = tx_inv pl i p hw"
  "tx_inv pl i p (hw\<lparr>txq_cleanup := x8\<rparr>) = tx_inv pl i p hw"
  "tx_inv pl i p (hw\<lparr>jiffies := x9\<rparr>) = tx_inv pl i p hw"
  "tx_inv pl i p (hw\<lparr>vif_table := x10\<rparr>) = tx_inv pl i p hw"
  by (simp_all add: tx_inv_defs cong: map_cong)

text \<open>A change of one queue that keeps its frames and its place in the lists.\<close>

lemma waiting_upd_txq:
  "sk_list (f (txq hw i)) = sk_list (txq hw i) \<Longrightarrow> waiting k p (upd_txq i f hw) = waiting k p hw"
  by (rule ext) (simp add: waiting_def upd_txq_def)

lemma tx_inv_upd_txq:
  assumes inv: "tx_inv pl k p hw"
    and keep: "sk_list (f (txq hw i)) = sk_list (txq hw i)" "txq_hwq (f (txq hw i)) = txq_hwq (txq hw i)"
      "pkt_pushed (f (txq hw i)) = pkt_pushed (txq hw i)"
      "aml_txq_is_scheduled (f (txq hw i)) = aml_txq_is_scheduled (txq hw i)"
      "txq_amsdu (f (txq hw i)) = txq_amsdu (txq hw i) \<or> txq_amsdu (f (txq hw i)) = None"
    and ok: "txq_ok i (txq hw i) (waiting k p hw i) \<Longrightarrow> txq_ok i (f (txq hw i)) (waiting k p hw i)"
  shows "tx_inv pl k p (upd_txq i f hw)"
proof -
  have w: "waiting k p (upd_txq i f hw) = waiting k p hw"
    using keep(1) by (rule waiting_upd_txq)
  have "all_waiting k p (upd_txq i f hw) = all_waiting k p hw"
    by (simp add: all_waiting_def w)
  moreover have "txq (upd_txq i f hw) = (txq hw)(i := f (txq hw i))" "hwq (upd_txq i f hw) = hwq hw"
    "hdrs (upd_txq i f hw) = hdrs hw" "ipc_env (upd_txq i f hw) = ipc_env hw"
    "subframes (upd_txq i f hw) = subframes hw" "retry_warned (upd_txq i f hw) = retry_warned hw"
    "tx_desc_save (upd_txq i f hw) = tx_desc_save hw"
    by (simp_all add: upd_txq_def)
  moreover have "fw_ok hw \<Longrightarrow> fw_ok (upd_txq i f hw)"
    by (erule fw_ok_mono) (simp_all add: upd_txq_def keep(2))
  ultimately show ?thesis
    using inv keep(2-5) ok
    unfolding tx_inv_def frames_ok_def hwq_ok_def amsdu_ok_def fw_of_txq_def fw_of_hwq_def subframes_ok_def desc_ok_def w
    by auto
qed

lemma tx_inv_txq: "tx_inv pl k p hw \<Longrightarrow> i < NX_NB_TXQ \<Longrightarrow> txq_ok i (txq hw i) (waiting k p hw i)"
  by (simp add: tx_inv_def)

section \<open>Status bits\<close>

lemma scheduled_bit: "aml_txq_is_scheduled t \<longleftrightarrow> bit (status t) 0"
  by (simp add: aml_txq_is_scheduled_def)

lemma stopped_bits:
  "aml_txq_is_stopped t \<longleftrightarrow> bit (status t) 1 \<or> bit (status t) 2 \<or> bit (status t) 3 \<or> bit (status t) 4 \<or>
     bit (status t) 5 \<or> bit (status t) 8 \<or> bit (status t) 9 \<or> bit (status t) 10"
  by (simp add: aml_txq_is_stopped_def AML_TXQ_STOP_def)

lemmas status_bits = scheduled_bit stopped_bits bit_or_iff bit_and_iff

text \<open>The parts of the state the helpers leave alone.\<close>

lemma upd_sel [simp]:
  "txq (upd_txq i f hw) = (txq hw)(i := f (txq hw i))" "hwq (upd_txq i f hw) = hwq hw"
  "hdrs (upd_txq i f hw) = hdrs hw" "ipc_env (upd_txq i f hw) = ipc_env hw"
  "subframes (upd_txq i f hw) = subframes hw" "retry_warned (upd_txq i f hw) = retry_warned hw"
  "sta_table (upd_txq i f hw) = sta_table hw" "tx_desc_save (upd_txq i f hw) = tx_desc_save hw"
  "vif_table (upd_txq i f hw) = vif_table hw" "jiffies (upd_txq i f hw) = jiffies hw"
  "txq (upd_hwq q g hw) = txq hw" "hwq (upd_hwq q g hw) = (hwq hw)(q := g (hwq hw q))"
  "hdrs (upd_hwq q g hw) = hdrs hw" "ipc_env (upd_hwq q g hw) = ipc_env hw"
  "subframes (upd_hwq q g hw) = subframes hw" "retry_warned (upd_hwq q g hw) = retry_warned hw"
  "sta_table (upd_hwq q g hw) = sta_table hw" "tx_desc_save (upd_hwq q g hw) = tx_desc_save hw"
  "vif_table (upd_hwq q g hw) = vif_table hw" "jiffies (upd_hwq q g hw) = jiffies hw"
  by (simp_all add: upd_txq_def upd_hwq_def)

lemma upd_sel2 [simp]:
  "txq (upd_sta s k hw) = txq hw" "hwq (upd_sta s k hw) = hwq hw"
  "hdrs (upd_sta s k hw) = hdrs hw" "ipc_env (upd_sta s k hw) = ipc_env hw"
  "subframes (upd_sta s k hw) = subframes hw" "retry_warned (upd_sta s k hw) = retry_warned hw"
  "tx_desc_save (upd_sta s k hw) = tx_desc_save hw" "vif_table (upd_sta s k hw) = vif_table hw"
  "sta_table (upd_sta s k hw) = (sta_table hw)(s := k (sta_table hw s))"
  "jiffies (upd_sta s k hw) = jiffies hw"
  "txq (upd_hdr a u hw) = txq hw" "hwq (upd_hdr a u hw) = hwq hw"
  "hdrs (upd_hdr a u hw) = (hdrs hw)(a := map_option u (hdrs hw a))" "ipc_env (upd_hdr a u hw) = ipc_env hw"
  "subframes (upd_hdr a u hw) = subframes hw" "retry_warned (upd_hdr a u hw) = retry_warned hw"
  "tx_desc_save (upd_hdr a u hw) = tx_desc_save hw" "vif_table (upd_hdr a u hw) = vif_table hw"
  "sta_table (upd_hdr a u hw) = sta_table hw" "jiffies (upd_hdr a u hw) = jiffies hw"
  "txq (report r hw) = txq hw" "hwq (report r hw) = hwq hw" "hdrs (report r hw) = hdrs hw"
  "ipc_env (report r hw) = ipc_env hw" "subframes (report r hw) = subframes hw"
  "retry_warned (report r hw) = retry_warned hw" "sta_table (report r hw) = sta_table hw"
  "tx_desc_save (report r hw) = tx_desc_save hw" "vif_table (report r hw) = vif_table hw"
  "jiffies (report r hw) = jiffies hw"
  by (simp_all add: upd_sta_def upd_hdr_def report_def)

lemma tx_inv_helpers [simp]:
  "tx_inv pl i p (upd_sta s k hw) = tx_inv pl i p hw" "tx_inv pl i p (report r hw) = tx_inv pl i p hw"
  by (simp_all add: upd_sta_def report_def)

lemma tx_inv_need_processing [simp]:
  "tx_inv pl i p (upd_hwq q (\<lambda>h. h\<lparr>need_processing := b\<rparr>) hw) = tx_inv pl i p hw" (is "tx_inv pl i p ?hw = _")
proof -
  have w: "waiting i p ?hw = waiting i p hw"
    by (rule ext) (simp add: waiting_def)
  moreover have "all_waiting i p ?hw = all_waiting i p hw"
    by (simp add: all_waiting_def w)
  moreover have "hwq_ok ?hw = hwq_ok hw" "fw_of_txq ?hw = fw_of_txq hw"
    by (rule ext, simp add: hwq_ok_def fw_of_hwq_def fw_of_txq_def)+
  ultimately show ?thesis
    by (simp add: tx_inv_def frames_ok_def subframes_ok_def desc_ok_def amsdu_ok_def fw_ok_def)
qed

lemma tx_inv_traffic_status [simp]: "tx_inv pl i p (aml_set_traffic_status s b ps hw) = tx_inv pl i p hw"
  by (simp add: aml_set_traffic_status_def Let_def)

lemma flow_control_inv [wf_intros]:
  assumes "tx_inv pl k p hw"
  shows "tx_inv pl k p (aml_netif_txq_flow_control i hw)"
proof -
  have "tx_inv pl k p (upd_txq i (\<lambda>t. t\<lparr>status := status t OR AML_TXQ_NDEV_FLOW_CTRL\<rparr>) hw)"
    by (rule tx_inv_upd_txq [OF assms]) (simp_all add: txq_ok_def retry_ok_def status_bits)
  moreover have "tx_inv pl k p (upd_txq i (\<lambda>t. t\<lparr>status := status t AND NOT AML_TXQ_NDEV_FLOW_CTRL\<rparr>) hw)"
    by (rule tx_inv_upd_txq [OF assms]) (simp_all add: txq_ok_def retry_ok_def status_bits)
  ultimately show ?thesis
    using assms by (simp add: aml_netif_txq_flow_control_def Let_def)
qed

section \<open>Linking and unlinking\<close>

lemma tx_inv_link:
  assumes inv: "tx_inv pl k p hw" and i: "i < NX_NB_TXQ"
    and f: "f (txq hw i) = (txq hw i)\<lparr>status := s\<rparr>"
    and ok: "txq_ok i ((txq hw i)\<lparr>status := s\<rparr>) (waiting k p hw i)"
    and l: "distinct l" "set l = (if bit s 0 then insert i (set (hwq_list (hwq hw (txq_hwq (txq hw i)))))
                                 else set (hwq_list (hwq hw (txq_hwq (txq hw i)))) - {i})"
    and g: "hwq_list (g (hwq hw (txq_hwq (txq hw i)))) = l"
      "hwq_credits (g (hwq hw (txq_hwq (txq hw i)))) = hwq_credits (hwq hw (txq_hwq (txq hw i)))"
      "hwq_size (g (hwq hw (txq_hwq (txq hw i)))) = hwq_size (hwq hw (txq_hwq (txq hw i)))"
  shows "tx_inv pl k p (upd_hwq (txq_hwq (txq hw i)) g (upd_txq i f hw))"
    (is "tx_inv pl k p ?hw")
proof -
  have w: "waiting k p ?hw = waiting k p hw"
    by (rule ext) (simp add: waiting_def f)
  have "all_waiting k p ?hw = all_waiting k p hw"
    by (simp add: all_waiting_def w)
  moreover have "fw_ok hw \<Longrightarrow> fw_ok ?hw"
    by (erule fw_ok_mono) (simp_all add: f)
  ultimately have frames: "frames_ok k p ?hw"
    using inv by (simp add: tx_inv_def frames_ok_def w)
  have counts: "fw_of_txq ?hw = fw_of_txq hw" "fw_of_hwq ?hw = fw_of_hwq hw"
    by (rule ext, simp add: fw_of_txq_def fw_of_hwq_def)+
  have "hwq_ok ?hw q" if q: "q < NX_TXQ_CNT" for q
    using inv q l i by (cases "q = txq_hwq (txq hw i)") (auto simp: tx_inv_def hwq_ok_def counts scheduled_bit g f)
  moreover have "txq_ok j (txq ?hw j) (waiting k p ?hw j) \<and> amsdu_ok ?hw (txq ?hw j) (waiting k p ?hw j) \<and>
      pkt_pushed (txq ?hw j) = int (fw_of_txq ?hw j)" if j: "j < NX_NB_TXQ" for j
    using inv ok j by (cases "j = i") (simp_all add: tx_inv_def amsdu_ok_def w counts f)
  ultimately show ?thesis
    using inv frames by (simp add: tx_inv_def subframes_ok_def desc_ok_def)
qed

lemma del_inv [wf_intros]:
  assumes inv: "tx_inv pl k p hw" and i: "i < NX_NB_TXQ"
  shows "tx_inv pl k p (aml_txq_del_from_hw_list i hw)"
proof (cases "aml_txq_is_scheduled (txq hw i)")
  case True
  have ok: "txq_ok i (txq hw i) (waiting k p hw i)"
    using inv i by (rule tx_inv_txq)
  then have "hwq_ok hw (txq_hwq (txq hw i))"
    using inv by (simp add: tx_inv_def txq_ok_def)
  with ok True show ?thesis
    unfolding aml_txq_del_from_hw_list_def if_P [OF True]
    using inv i
    by (intro tx_inv_link [where s = "status (txq hw i) AND NOT AML_TXQ_IN_HWQ_LIST" and l = "remove1 i (hwq_list (hwq hw (txq_hwq (txq hw i))))"])
      (auto simp: txq_ok_def retry_ok_def status_bits hwq_ok_def)
qed (use inv in \<open>simp add: aml_txq_del_from_hw_list_def\<close>)

lemma upd_txq_twice [simp]: "upd_txq i g (upd_txq i f hw) = upd_txq i (\<lambda>t. g (f t)) hw"
  by (simp add: upd_txq_def)

text \<open>The reasons to stop a queue do not include the list flag.\<close>

lemma stop_inv [wf_intros]:
  assumes inv: "tx_inv pl k p hw" and i: "i < NX_NB_TXQ" and r: "\<not> bit reason 0"
  shows "tx_inv pl k p (aml_txq_stop i reason hw)"
proof (cases "idx (txq hw i) = TXQ_INACTIVE")
  case False
  have ok: "txq_ok i (txq hw i) (waiting k p hw i)"
    using inv i by (rule tx_inv_txq)
  show ?thesis
  proof (cases "aml_txq_is_scheduled (txq hw i)")
    case True
    have "hwq_ok hw (txq_hwq (txq hw i))"
      using inv ok by (simp add: tx_inv_def txq_ok_def)
    with True False ok inv i r show ?thesis
      by (simp add: aml_txq_stop_def aml_txq_del_from_hw_list_def scheduled_bit bit_or_iff)
        (intro tx_inv_link [where s = "(status (txq hw i) OR reason) AND NOT AML_TXQ_IN_HWQ_LIST"
            and l = "remove1 i (hwq_list (hwq hw (txq_hwq (txq hw i))))"],
         auto simp: txq_ok_def retry_ok_def status_bits hwq_ok_def)
  next
    case n: False
    then have "\<not> aml_txq_is_scheduled ((txq hw i)\<lparr>status := status (txq hw i) OR reason\<rparr>)"
      using r by (simp add: status_bits)
    with False n have "aml_txq_stop i reason hw = upd_txq i (\<lambda>t. t\<lparr>status := status t OR reason\<rparr>) hw"
      by (simp add: aml_txq_stop_def aml_txq_del_from_hw_list_def)
    moreover have "tx_inv pl k p (upd_txq i (\<lambda>t. t\<lparr>status := status t OR reason\<rparr>) hw)"
      using n r by (intro tx_inv_upd_txq [OF inv]) (auto simp: txq_ok_def retry_ok_def status_bits)
    ultimately show ?thesis
      by simp
  qed
qed (use inv in \<open>simp add: aml_txq_stop_def\<close>)

text \<open>Off PCIe, linking a queue never runs the scheduler itself, so it always returns.\<close>

lemma add_inv:
  assumes inv: "tx_inv pl k p hw" and i: "i < NX_NB_TXQ"
  shows "\<exists>hw'. aml_txq_add_to_hw_list pl i hw = Some hw' \<and> tx_inv pl k p hw'"
proof (cases "\<not> aml_txq_is_stopped (txq hw i) \<and> \<not> aml_txq_is_scheduled (txq hw i) \<and> 0 < txq_credits (txq hw i) \<and>
              aml_txq_skb_ready (txq hw i)")
  case True
  define s where "s = status (txq hw i) OR AML_TXQ_IN_HWQ_LIST"
  define g :: "aml_hwq \<Rightarrow> aml_hwq" where "g = (\<lambda>h. h\<lparr>hwq_list := hwq_list h @ [i], need_processing := True\<rparr>)"
  have ok: "txq_ok i (txq hw i) (waiting k p hw i)"
    using inv i by (rule tx_inv_txq)
  have "hwq_ok hw (txq_hwq (txq hw i))"
    using inv ok by (simp add: tx_inv_def txq_ok_def)
  moreover have "waiting k p hw i \<noteq> []"
    using True by (simp add: waiting_def aml_txq_skb_ready_def)
  ultimately have "tx_inv pl k p (upd_hwq (txq_hwq (txq hw i)) g (upd_txq i (\<lambda>t. t\<lparr>status := status t OR AML_TXQ_IN_HWQ_LIST\<rparr>) hw))"
    using True ok inv i
    by (intro tx_inv_link [where s = s and l = "hwq_list (hwq hw (txq_hwq (txq hw i))) @ [i]"])
      (auto simp: txq_ok_def retry_ok_def status_bits hwq_ok_def s_def g_def)
  moreover have "aml_bus_type pl \<noteq> PCIE_MODE"
    using inv by (simp add: tx_inv_def)
  ultimately show ?thesis
    using True by (simp add: aml_txq_add_to_hw_list_def Let_def g_def [symmetric] status_bits)
next
  case False
  have "aml_bus_type pl \<noteq> PCIE_MODE"
    using inv by (simp add: tx_inv_def)
  with False inv show ?thesis
    by (auto simp: aml_txq_add_to_hw_list_def Let_def)
qed

lemma start_inv:
  assumes inv: "tx_inv pl k p hw" and i: "i < NX_NB_TXQ" and r: "\<not> bit reason 0"
  shows "\<exists>hw'. aml_txq_start pl i reason hw = Some hw' \<and> tx_inv pl k p hw'"
proof -
  have "txq_ok i ((txq hw i)\<lparr>status := status (txq hw i) AND NOT reason\<rparr>) (waiting k p hw i)"
    using tx_inv_txq [OF inv i] r by (auto simp: txq_ok_def retry_ok_def status_bits)
  then have "tx_inv pl k p (upd_txq i (\<lambda>t. t\<lparr>status := status t AND NOT reason\<rparr>) hw)"
    using r by (intro tx_inv_upd_txq [OF inv]) (simp_all add: status_bits)
  then show ?thesis
    using add_inv [OF _ i] inv by (simp add: aml_txq_start_def)
qed

section \<open>Pushing a frame\<close>

text \<open>A host id is free whenever a hardware queue has a credit: the queues together never
  have more frames in the firmware than the table has entries.\<close>

lemma length_by_key:
  fixes n :: nat
  assumes "\<forall>a\<in>set xs. f a < n"
  shows "length xs = (\<Sum>q<n. length (filter (\<lambda>a. f a = q) xs))"
  using assms
proof (induction xs)
  case (Cons x xs)
  have "(\<Sum>q<n. length (filter (\<lambda>a. f a = q) (x # xs))) = (\<Sum>q<n. (if q = f x then 1 else 0) + length (filter (\<lambda>a. f a = q) xs))"
    by (rule sum.cong) auto
  also have "\<dots> = 1 + length xs"
    using Cons by (simp add: sum.distrib)
  finally show ?case
    by simp
qed simp

lemma fw_frames_by_hwq:
  assumes "tx_inv pl k p hw"
  shows "length (fw_frames (ipc_env hw)) = (\<Sum>q<NX_TXQ_CNT. fw_of_hwq hw q)"
proof -
  have o: "\<forall>a\<in>set (fw_frames (ipc_env hw)). \<exists>h. hdrs hw a = Some h \<and> hw_queue h < NX_TXQ_CNT"
  proof
    fix a
    assume a: "a \<in> set (fw_frames (ipc_env hw))"
    have "fw_ok hw"
      using assms by (simp add: tx_inv_def frames_ok_def)
    from fw_okD [OF this a] obtain h
      where h: "hdrs hw a = Some h" "hdr_txq h < NX_NB_TXQ" "hw_queue h = txq_hwq (txq hw (hdr_txq h))"
      by blast
    have "txq_hwq (txq hw (hdr_txq h)) < NX_TXQ_CNT"
      using tx_inv_txq [OF assms h(2)] by (simp add: txq_ok_def)
    with h show "\<exists>h. hdrs hw a = Some h \<and> hw_queue h < NX_TXQ_CNT"
      by simp
  qed
  have "fw_of_hwq hw q = length (filter (\<lambda>a. hw_queue (the (hdrs hw a)) = q) (fw_frames (ipc_env hw)))" for q
    unfolding fw_of_hwq_def using o by (intro arg_cong [where f = length] filter_cong) auto
  then show ?thesis
    using o by (subst length_by_key [where f = "\<lambda>a. hw_queue (the (hdrs hw a))" and n = NX_TXQ_CNT]) auto
qed

lemma hostid_available:
  assumes inv: "tx_inv pl k p hw"
  shows "tx_hostid_available (ipc_env hw) \<noteq> []"
proof
  assume none: "tx_hostid_available (ipc_env hw) = []"
  have "fw_of_hwq hw q \<le> nat (nx_txdesc_cnt_ext ! q)" if "q < NX_TXQ_CNT" for q
    using inv that by (auto simp: tx_inv_def hwq_ok_def)
  then have "(\<Sum>q<NX_TXQ_CNT. fw_of_hwq hw q) \<le> (\<Sum>q<NX_TXQ_CNT. nat (nx_txdesc_cnt_ext ! q))"
    by (intro sum_mono) simp
  then have "length (fw_frames (ipc_env hw)) \<le> (\<Sum>q<NX_TXQ_CNT. nat (nx_txdesc_cnt_ext ! q))"
    by (simp only: fw_frames_by_hwq [OF inv])
  also have "\<dots> = 504"
    by (simp add: NX_TXQ_CNT_def nx_txdesc_cnt_ext_def TX_MAX_CNT_def numeral_eq_Suc)
  finally have "length (tx_hostid_pushed (ipc_env hw)) \<le> 504"
    by (simp add: fw_frames_def)
  moreover have "length (tx_hostid_pushed (ipc_env hw)) = 520"
    using inv none hostid_wf_count [of "ipc_env hw"]
    by (simp add: tx_inv_def hostid_inv_def hostid_cnt_def IPC_HOSTID_CNT_def)
  ultimately show False
    by simp
qed

lemma more_data_fields [simp]:
  "txq (aml_set_more_data_flag a h s hw) = txq hw" "hwq (aml_set_more_data_flag a h s hw) = hwq hw"
  "ipc_env (aml_set_more_data_flag a h s hw) = ipc_env hw"
  "subframes (aml_set_more_data_flag a h s hw) = subframes hw"
  "tx_desc_save (aml_set_more_data_flag a h s hw) = tx_desc_save hw"
  "retry_warned (aml_set_more_data_flag a h s hw) = retry_warned hw"
  by (simp_all add: aml_set_more_data_flag_def aml_set_traffic_status_def Let_def)

lemma more_data_hdr:
  assumes "hdrs hw a = Some k"
  shows "\<exists>fl. hdrs (aml_set_more_data_flag a h s hw) = (hdrs hw)(a \<mapsto> k\<lparr>tx_flags := fl\<rparr>) \<and> bit fl 6 = bit (tx_flags k) 6"
proof -
  have same: "\<exists>fl. hdrs hw = (hdrs hw)(a \<mapsto> k\<lparr>tx_flags := fl\<rparr>) \<and> bit fl 6 = bit (tx_flags k) 6"
    by (rule exI [of _ "tx_flags k"]) (simp add: assms fun_upd_idem)
  have some: "\<exists>fl. (hdrs hw)(a \<mapsto> k\<lparr>tx_flags := x\<rparr>) = (hdrs hw)(a \<mapsto> k\<lparr>tx_flags := fl\<rparr>) \<and> bit fl 6 = bit (tx_flags k) 6"
    if "bit x 6 = bit (tx_flags k) 6" for x
    using that by blast
  show ?thesis
    unfolding aml_set_more_data_flag_def aml_set_traffic_status_def Let_def
    by (simp add: assms same some bit_or_iff)
qed

text \<open>What the preparation of a push does to its queue.\<close>

definition prepared :: "addr \<Rightarrow> aml_txq \<Rightarrow> aml_txq" where
  "prepared a t =
     (let t1 = (if nb_retry t \<noteq> 0
                then t\<lparr>nb_retry := nb_retry t - 1, last_retry_skb := if nb_retry t = 1 then None else last_retry_skb t\<rparr>
                else t\<lparr>pkt_sent := pkt_sent t + 1\<rparr>)
      in t1\<lparr>txq_amsdu := if txq_amsdu t = Some a then None else txq_amsdu t\<rparr>)"

lemma prepared_fields [simp]:
  "idx (prepared a t) = idx t" "status (prepared a t) = status t" "txq_credits (prepared a t) = txq_credits t"
  "push_limit (prepared a t) = push_limit t" "pkt_pushed (prepared a t) = pkt_pushed t"
  "sk_list (prepared a t) = sk_list t" "txq_hwq (prepared a t) = txq_hwq t" "txq_sta (prepared a t) = txq_sta t"
  "ps_id (prepared a t) = ps_id t"
  "txq_amsdu (prepared a t) = (if txq_amsdu t = Some a then None else txq_amsdu t)"
  by (simp_all add: prepared_def Let_def)

lemma retry_taken_fields [simp]:
  "hwq (retry_taken i a hw) = hwq hw" "hdrs (retry_taken i a hw) = hdrs hw"
  "ipc_env (retry_taken i a hw) = ipc_env hw" "subframes (retry_taken i a hw) = subframes hw"
  "tx_desc_save (retry_taken i a hw) = tx_desc_save hw" "sta_table (retry_taken i a hw) = sta_table hw"
  "txq (retry_taken i a hw) = (txq hw)(i := (txq hw i)\<lparr>nb_retry := nb_retry (txq hw i) - 1,
     last_retry_skb := if nb_retry (txq hw i) = 1 then None else last_retry_skb (txq hw i)\<rparr>)"
  "retry_warned (retry_taken i a hw) = (retry_warned hw \<or> nb_retry (txq hw i) = 1 \<and> last_retry_skb (txq hw i) \<noteq> Some a)"
  by (simp_all add: retry_taken_def Let_def upd_txq_def)

lemma prepare_fields:
  assumes "hdrs hw a = Some h"
  shows "txq (tx_push_prepare a h hw) = (txq hw)(hdr_txq h := prepared a (txq hw (hdr_txq h)))"
    and "hwq (tx_push_prepare a h hw) = hwq hw" and "ipc_env (tx_push_prepare a h hw) = ipc_env hw"
    and "subframes (tx_push_prepare a h hw) = subframes hw"
    and "tx_desc_save (tx_push_prepare a h hw) = tx_desc_save hw"
    and "\<exists>fl. hdrs (tx_push_prepare a h hw) =
          (hdrs hw)(a \<mapsto> h\<lparr>hw_queue := txq_hwq (txq hw (hdr_txq h)), tx_flags := fl\<rparr>) \<and> bit fl 6 = bit (tx_flags h) 6"
    and "retry_warned (tx_push_prepare a h hw) =
          (retry_warned hw \<or> nb_retry (txq hw (hdr_txq h)) = 1 \<and> last_retry_skb (txq hw (hdr_txq h)) \<noteq> Some a)"
proof -
  show "txq (tx_push_prepare a h hw) = (txq hw)(hdr_txq h := prepared a (txq hw (hdr_txq h)))"
    by (simp add: tx_push_prepare_def prepared_def Let_def split: option.split)
  show "\<exists>fl. hdrs (tx_push_prepare a h hw) =
      (hdrs hw)(a \<mapsto> h\<lparr>hw_queue := txq_hwq (txq hw (hdr_txq h)), tx_flags := fl\<rparr>) \<and> bit fl 6 = bit (tx_flags h) 6"
  proof (cases "hdr_sta h")
    case (Some s)
    define X where "X = tx_push_prepare a (h\<lparr>hdr_sta := None\<rparr>) hw"
    have x: "hdrs X a = Some (h\<lparr>hw_queue := txq_hwq (txq hw (hdr_txq h)), tx_flags := tx_flags h AND NOT TXU_CNTRL_RETRY\<rparr>)"
      "hdrs X = (hdrs hw)(a := hdrs X a)"
      using assms by (auto simp: X_def tx_push_prepare_def Let_def)
    have "tx_push_prepare a h hw = aml_set_more_data_flag a h s X"
      using Some by (simp add: X_def tx_push_prepare_def Let_def)
    moreover obtain fl where "hdrs (aml_set_more_data_flag a h s X) = (hdrs X)(a \<mapsto> h\<lparr>hw_queue := txq_hwq (txq hw (hdr_txq h)), tx_flags := fl\<rparr>)"
      "bit fl 6 = bit (tx_flags h) 6"
      using more_data_hdr [OF x(1), of h s] by (auto simp: bit_and_iff bit_not_word)
    moreover have "(hdrs X)(a \<mapsto> y) = (hdrs hw)(a \<mapsto> y)" for y
      by (subst x(2)) simp
    ultimately show ?thesis
      by metis
  next
    case None
    with assms show ?thesis
      by (intro exI [of _ "tx_flags h AND NOT TXU_CNTRL_RETRY"]) (cases h; simp add: tx_push_prepare_def Let_def bit_and_iff bit_not_word)
  qed
qed (simp_all add: tx_push_prepare_def Let_def split: option.split)

text \<open>The credit part: the queue leaves its list with its last credit.\<close>

lemma credit_fields:
  assumes "idx (txq hw i) \<noteq> TXQ_INACTIVE"
  defines "t \<equiv> txq hw i"
  shows "\<exists>s. txq (tx_push_credit i hw) = (txq hw)(i := t\<lparr>status := s, txq_credits := txq_credits t - 1,
            push_limit := (if push_limit t = 0 then 0 else push_limit t - 1), pkt_pushed := pkt_pushed t + 1\<rparr>) \<and>
          (bit s 0 \<longleftrightarrow> bit (status t) 0 \<and> 1 < txq_credits t) \<and> (1 < txq_credits t \<longrightarrow> s = status t)"
    and "hwq (tx_push_credit i hw) =
           (if txq_credits t \<le> 1 \<and> aml_txq_is_scheduled t
            then (hwq hw)(txq_hwq t := (hwq hw (txq_hwq t))\<lparr>hwq_list := remove1 i (hwq_list (hwq hw (txq_hwq t)))\<rparr>)
            else hwq hw)"
    and "ipc_env (tx_push_credit i hw) = ipc_env hw" and "subframes (tx_push_credit i hw) = subframes hw"
    and "tx_desc_save (tx_push_credit i hw) = tx_desc_save hw" and "hdrs (tx_push_credit i hw) = hdrs hw"
    and "retry_warned (tx_push_credit i hw) = retry_warned hw"
proof -
  show "\<exists>s. txq (tx_push_credit i hw) = (txq hw)(i := t\<lparr>status := s, txq_credits := txq_credits t - 1,
            push_limit := (if push_limit t = 0 then 0 else push_limit t - 1), pkt_pushed := pkt_pushed t + 1\<rparr>) \<and>
          (bit s 0 \<longleftrightarrow> bit (status t) 0 \<and> 1 < txq_credits t) \<and> (1 < txq_credits t \<longrightarrow> s = status t)"
  proof (cases "1 < txq_credits t")
    case True
    then show ?thesis
      by (intro exI [of _ "status t"]) (cases "txq hw i"; simp add: tx_push_credit_def Let_def t_def)
  next
    case False
    then show ?thesis
      using assms(1)
      by (intro exI [of _ "if bit (status t) 0 then (status t OR AML_TXQ_STOP_FULL) AND NOT AML_TXQ_IN_HWQ_LIST
                           else status t OR AML_TXQ_STOP_FULL"])
        (cases "txq hw i"; simp add: tx_push_credit_def aml_txq_stop_def aml_txq_del_from_hw_list_def status_bits Let_def t_def)
  qed
qed (use assms(1) in \<open>simp_all add: tx_push_credit_def aml_txq_stop_def aml_txq_del_from_hw_list_def status_bits
      Let_def t_def\<close>)

text \<open>The effect of pushing the frames \<open>xs\<close> of queue \<open>i\<close>.\<close>

definition pushed :: "nat \<Rightarrow> addr list \<Rightarrow> tx_hw \<Rightarrow> tx_hw \<Rightarrow> bool" where
  "pushed i xs hw hw' \<longleftrightarrow>
     (let t = txq hw i; t' = txq hw' i; q = txq_hwq t; n = int (length xs) in
      tx_desc_save hw' = tx_desc_save hw @ xs \<and> (\<forall>j. j \<noteq> i \<longrightarrow> txq hw' j = txq hw j) \<and>
      sk_list t' = sk_list t \<and> idx t' = idx t \<and> txq_hwq t' = q \<and> txq_sta t' = txq_sta t \<and> ps_id t' = ps_id t \<and>
      txq_credits t' = txq_credits t - n \<and> push_limit t' = max 0 (push_limit t - n) \<and>
      (aml_txq_is_scheduled t' \<longleftrightarrow> aml_txq_is_scheduled t \<and> (xs = [] \<or> 0 < txq_credits t')) \<and>
      (\<forall>q'. q' \<noteq> q \<longrightarrow> hwq hw' q' = hwq hw q') \<and>
      hwq_credits (hwq hw' q) = hwq_credits (hwq hw q) - n \<and> hwq_size (hwq hw' q) = hwq_size (hwq hw q) \<and>
      hwq_list (hwq hw' q) = (if aml_txq_is_scheduled t \<and> \<not> aml_txq_is_scheduled t'
                              then remove1 i (hwq_list (hwq hw q)) else hwq_list (hwq hw q)) \<and>
      (\<forall>a. map_option hdr_txq (hdrs hw' a) = map_option hdr_txq (hdrs hw a)))"

lemma pushed_refl: "0 \<le> push_limit (txq hw i) \<Longrightarrow> pushed i [] hw hw"
  by (simp add: pushed_def Let_def)

lemma pushed_trans:
  assumes "pushed i xs hw hw1" and "pushed i ys hw1 hw2" and "0 \<le> push_limit (txq hw i)"
  shows "pushed i (xs @ ys) hw hw2"
  using assms by (auto simp: pushed_def Let_def max_def split: if_splits)

lemma mset_concat_upd:
  assumes "i < n" and "\<And>j. j < n \<Longrightarrow> j \<noteq> i \<Longrightarrow> f j = g j"
  shows "mset (concat (map f [0..<n])) + mset (g i) = mset (concat (map g [0..<n])) + mset (f i)"
proof -
  have split: "[0..<n] = [0..<i] @ i # [Suc i..<n]"
    using assms(1) upt_add_eq_append [of 0 i "n - i"] by (simp add: upt_conv_Cons)
  have parts: "concat (map f [0..<i]) = concat (map g [0..<i])" "concat (map f [Suc i..<n]) = concat (map g [Suc i..<n])"
    using assms by (auto intro!: arg_cong [where f = concat] map_cong)
  show ?thesis
    unfolding split by (simp add: parts)
qed

text \<open>Filtering the firmware's frames by a property of headers that changed for one frame only.\<close>

lemma filter_unchanged:
  "a \<notin> set xs \<Longrightarrow> filter (\<lambda>b. P ((m(a := x)) b)) xs = filter (\<lambda>b. P (m b)) xs"
  by (intro filter_cong) auto

lemma amsdu_ok_mono:
  assumes "amsdu_ok hw t w" and "\<And>b h. hdrs hw b = Some h \<Longrightarrow> \<exists>h'. hdrs hw' b = Some h' \<and> am_hdrs h' = am_hdrs h"
  shows "amsdu_ok hw' t w"
  unfolding amsdu_ok_def
proof (intro allI impI)
  fix a
  assume "txq_amsdu t = Some a"
  then obtain h where "a \<in> set w" "hdrs hw a = Some h" "am_hdrs h \<noteq> []" "length (am_hdrs h) + 1 < NX_TX_PAYLOAD_MAX"
    using assms(1) by (auto simp: amsdu_ok_def)
  then show "a \<in> set w \<and> (\<exists>h. hdrs hw' a = Some h \<and> am_hdrs h \<noteq> [] \<and> length (am_hdrs h) + 1 < NX_TX_PAYLOAD_MAX)"
    using assms(2) [of a h] by auto
qed

lemma retry_ok_pop:
  assumes "retry_ok t (a # w)"
  shows "retry_ok (prepared a t) w" and "nb_retry t = 1 \<Longrightarrow> last_retry_skb t = Some a"
proof -
  obtain m where m: "nb_retry t = int m"
    using assms nonneg_int_cases by (auto simp: retry_ok_def)
  show "retry_ok (prepared a t) w"
  proof (cases m)
    case (Suc k)
    with m assms show ?thesis
      by (cases k) (auto simp: retry_ok_def prepared_def Let_def nat_add_distrib)
  qed (use m assms in \<open>auto simp: retry_ok_def prepared_def Let_def\<close>)
  show "nb_retry t = 1 \<Longrightarrow> last_retry_skb t = Some a"
    using assms by (simp add: retry_ok_def)
qed

lemma frames_ok_waiting: "tx_inv pl i (a # p) hw \<Longrightarrow> i < NX_NB_TXQ"
  by (simp add: tx_inv_def)

lemma tx_push_ok:
  assumes inv: "tx_inv pl i (a # p) hw" and credit: "0 < hwq_credits (hwq hw (txq_hwq (txq hw i)))"
    and tc: "0 < txq_credits (txq hw i)"
  obtains hw' where "aml_tx_push pl a hw = Some hw'" and "tx_inv pl i p hw'" and "pushed i [a] hw hw'"
proof -
  define t where "t = txq hw i"
  define q where "q = txq_hwq t"
  define env' where "env' = fst (ipc_host_tx_host_ptr_to_id (ipc_env hw) a)"
  define n where "n = snd (ipc_host_tx_host_ptr_to_id (ipc_env hw) a)"
  have i: "i < NX_NB_TXQ"
    using inv by (simp add: tx_inv_def)
  have bus: "aml_bus_type pl \<noteq> PCIE_MODE" and hid: "hostid_inv pl (ipc_env hw)"
    and fr: "frames_ok i (a # p) hw" and sub: "subframes_ok hw" and de: "desc_ok hw" and nw: "\<not> retry_warned hw"
    and T: "txq_ok i t (waiting i (a # p) hw i)" and am: "amsdu_ok hw t (waiting i (a # p) hw i)"
    and pp: "pkt_pushed t = int (fw_of_txq hw i)"
    using inv i by (simp_all add: tx_inv_def t_def)
  have w: "waiting i (a # p) hw i = a # waiting i p hw i" "\<And>j. j \<noteq> i \<Longrightarrow> waiting i (a # p) hw j = waiting i p hw j"
    by (simp_all add: waiting_def)
  obtain h where h: "hdrs hw a = Some h" "hdr_txq h = i"
  proof -
    have "\<forall>b\<in>set (waiting i (a # p) hw i). map_option hdr_txq (hdrs hw b) = Some i"
      using fr i unfolding frames_ok_def by blast
    then show ?thesis
      using that by (auto simp: w(1))
  qed
  have act: "idx t \<noteq> TXQ_INACTIVE"
    using T w(1) by (auto simp: txq_ok_def)
  have free: "tx_hostid_available (ipc_env hw) \<noteq> []"
    using inv by (rule hostid_available)
  note env = fw_frames_push [OF hid free, of a, folded env'_def n_def]
  note P = prepare_fields [OF h(1), unfolded h(2), folded t_def q_def]
  obtain fl where fl: "hdrs (tx_push_prepare a h hw) = (hdrs hw)(a \<mapsto> h\<lparr>hw_queue := q, tx_flags := fl\<rparr>)" "bit fl 6 = bit (tx_flags h) 6"
    using P(6) by blast
  define hwP where "hwP = tx_push_prepare a h hw"
  have tP: "txq hwP i = prepared a t"
    by (simp add: hwP_def P(1))
  then have actP: "idx (txq hwP i) \<noteq> TXQ_INACTIVE"
    using act by simp
  note C = credit_fields [OF actP, unfolded tP prepared_fields, folded q_def]
  obtain s where s: "txq (tx_push_credit i hwP) = (txq hwP)(i := (prepared a t)\<lparr>status := s, txq_credits := txq_credits t - 1,
            push_limit := (if push_limit t = 0 then 0 else push_limit t - 1), pkt_pushed := pkt_pushed t + 1\<rparr>)"
      "bit s 0 \<longleftrightarrow> bit (status t) 0 \<and> 1 < txq_credits t" "1 < txq_credits t \<longrightarrow> s = status t"
    using C(1) by blast
  define h' where "h' = h\<lparr>hw_queue := q, tx_flags := fl, tx_id := n\<rparr>"
  define t' where "t' = (prepared a t)\<lparr>status := s, txq_credits := txq_credits t - 1,
      push_limit := (if push_limit t = 0 then 0 else push_limit t - 1), pkt_pushed := pkt_pushed t + 1\<rparr>"
  define hw' where "hw' = the (aml_tx_push pl a hw)"
  have r: "aml_tx_push pl a hw = Some hw'"
    using bus by (simp add: hw'_def aml_tx_push_def h aml_ipc_txdesc_push_def Let_def)
  have env_eq: "ipc_host_tx_host_ptr_to_id (ipc_env hw) a = (env', n)"
    by (simp add: env'_def n_def)
  have hw': "hw' = (upd_hwq q (\<lambda>h. h\<lparr>hwq_credits := hwq_credits h - 1\<rparr>)
      ((upd_hdr a (\<lambda>h. h\<lparr>tx_id := n\<rparr>) ((tx_push_credit i hwP)\<lparr>ipc_env := env'\<rparr>))
         \<lparr>tx_desc_save := tx_desc_save hw @ [a], aml_tx_sem := aml_tx_sem (tx_push_credit i hwP) + 1\<rparr>))
      \<lparr>cfm_balance := (cfm_balance (tx_push_credit i hwP))(q := cfm_balance (tx_push_credit i hwP) q + 1)\<rparr>"
    using bus env(2) s(1) C(3,5) P(3,5)
    by (simp add: Let_def hw'_def aml_tx_push_def h aml_ipc_txdesc_push_def aml_sdio_ipc_txdesc_push_def env_eq
        hwP_def t_def q_def upd_hdr_def)
  have F: "txq hw' = (txq hw)(i := t')" "hdrs hw' = (hdrs hw)(a \<mapsto> h')" "ipc_env hw' = env'"
    "subframes hw' = subframes hw" "tx_desc_save hw' = tx_desc_save hw @ [a]"
    "retry_warned hw' = (nb_retry t = 1 \<and> last_retry_skb t \<noteq> Some a)"
    using s(1) C(3-7) P fl nw by (simp_all add: hw' t'_def h'_def hwP_def [symmetric])
  have G: "\<And>q'. q' \<noteq> q \<Longrightarrow> hwq hw' q' = hwq hw q'" "hwq_credits (hwq hw' q) = hwq_credits (hwq hw q) - 1"
    "hwq_size (hwq hw' q) = hwq_size (hwq hw q)"
    "hwq_list (hwq hw' q) = (if txq_credits t \<le> 1 \<and> aml_txq_is_scheduled t then remove1 i (hwq_list (hwq hw q))
       else hwq_list (hwq hw q))"
    using C(2) P(2) by (auto simp: hw' hwP_def [symmetric] status_bits)
  have t': "sk_list t' = sk_list t" "idx t' = idx t" "txq_hwq t' = q" "txq_sta t' = txq_sta t" "ps_id t' = ps_id t"
    "txq_credits t' = txq_credits t - 1" "pkt_pushed t' = pkt_pushed t + 1"
    "push_limit t' = max 0 (push_limit t - 1)" "txq_amsdu t' = (if txq_amsdu t = Some a then None else txq_amsdu t)"
    using T by (auto simp: t'_def q_def txq_ok_def)
  have sched: "aml_txq_is_scheduled t' \<longleftrightarrow> aml_txq_is_scheduled t \<and> 1 < txq_credits t"
    using s(2) by (simp add: t'_def status_bits)
  have same: "map_option hdr_txq (hdrs hw' b) = map_option hdr_txq (hdrs hw b)"
    "map_option am_hdrs (hdrs hw' b) = map_option am_hdrs (hdrs hw b)"
    "map_option packet_cnt (hdrs hw' b) = map_option packet_cnt (hdrs hw b)" for b
    using h by (simp_all add: F(2) h'_def)
  have W: "waiting i p hw' = waiting i p hw"
    by (rule ext) (simp add: waiting_def F(1) t'(1) t_def [symmetric])
  have AW: "all_waiting i p hw' = all_waiting i p hw"
    by (simp add: all_waiting_def W)
  have m: "mset (all_waiting i (a # p) hw) = add_mset a (mset (all_waiting i p hw))"
  proof -
    have "mset (concat (map (waiting i p hw) [0..<NX_NB_TXQ])) + mset (waiting i (a # p) hw i) =
        mset (concat (map (waiting i (a # p) hw) [0..<NX_NB_TXQ])) + mset (waiting i p hw i)"
      using i by (rule mset_concat_upd) (simp add: w(2))
    then have "add_mset a (mset (all_waiting i p hw)) + mset (waiting i p hw i) =
        mset (all_waiting i (a # p) hw) + mset (waiting i p hw i)"
      by (simp only: all_waiting_def w(1) mset.simps union_mset_add_mset_right union_mset_add_mset_left)
    then show ?thesis
      by (simp only: add_right_cancel)
  qed
  have ms: "mset (all_waiting i p hw' @ fw_frames env') = mset (all_waiting i (a # p) hw @ fw_frames (ipc_env hw))"
    by (simp add: env(1) m AW)
  have fw: "a \<notin> set (fw_frames (ipc_env hw))"
    using fr arg_cong [OF m, of set_mset] by (auto simp: frames_ok_def)
  have frames: "frames_ok i p hw'"
  proof -
    have "distinct (all_waiting i p hw' @ fw_frames env')"
      using fr mset_eq_imp_distinct_iff [OF ms] by (simp add: frames_ok_def)
    moreover have "set (all_waiting i p hw' @ fw_frames env') = dom (hdrs hw')"
      using fr mset_eq_setD [OF ms] h by (simp add: frames_ok_def F(2) insert_absorb domI)
    moreover have "\<forall>j<NX_NB_TXQ. \<forall>b\<in>set (waiting i p hw' j). map_option hdr_txq (hdrs hw' b) = Some j"
      using fr unfolding frames_ok_def same W by (auto simp: waiting_def split: if_splits)
    moreover have "fw_ok hw'"
      unfolding fw_ok_def
    proof
      fix b
      assume b: "b \<in> set (fw_frames (ipc_env hw'))"
      have hwq: "txq_hwq (txq hw' j) = txq_hwq (txq hw j)" for j
        by (simp add: F(1) t' t_def q_def)
      show "\<exists>k. hdrs hw' b = Some k \<and> hdr_txq k < NX_NB_TXQ \<and> hw_queue k = txq_hwq (txq hw' (hdr_txq k))"
      proof (cases "b = a")
        case True
        with h i show ?thesis
          by (simp add: F(2) h'_def hwq q_def t_def)
      next
        case False
        with b have "b \<in> set (fw_frames (ipc_env hw))"
          by (simp add: F(3) env(1))
        then show ?thesis
          using False fr fw_okD [of hw b] by (simp add: frames_ok_def F(2) hwq)
      qed
    qed
    ultimately show ?thesis
      by (simp add: frames_ok_def F(3))
  qed
  have subs: "subframes_ok hw'"
    using sub fl(2) unfolding subframes_ok_def F(2,4)
    by (rule_tac subs_ok_upd [where H = "hdrs hw" and a = a and h = h]) (simp_all add: h h'_def hdr_ok_def)
  have descs: "desc_ok hw'"
    using de fw by (auto simp: desc_ok_def F(3,5) env(1))
  have fwt: "fw_of_txq hw' j = fw_of_txq hw j + (if j = i then 1 else 0)" for j
    using h by (simp add: fw_of_txq_def F(3) env(1) same(1))
  have fwq: "fw_of_hwq hw' r = fw_of_hwq hw r + (if r = q then 1 else 0)" for r
  proof -
    have "filter (\<lambda>b. map_option hw_queue (hdrs hw' b) = Some r) (fw_frames (ipc_env hw)) =
        filter (\<lambda>b. map_option hw_queue (hdrs hw b) = Some r) (fw_frames (ipc_env hw))"
      unfolding F(2) by (rule filter_unchanged [OF fw])
    then show ?thesis
      by (simp add: fw_of_hwq_def F(3) env(1)) (simp add: F(2) h'_def)
  qed
  have rt: "retry_ok t (a # waiting i p hw i)"
    using txq_ok_retry [OF T] w(1) by simp
  have retry: "retry_ok t' (waiting i p hw i)" and rw: "\<not> retry_warned hw'"
    using retry_ok_pop [OF rt] by (simp_all add: t'_def retry_ok_def prepared_def Let_def F(6))
  have stop: "\<not> aml_txq_is_stopped t'" if "aml_txq_is_scheduled t'"
    using that sched s(3) T by (simp add: t'_def txq_ok_def stopped_bits)
  have ok: "txq_ok i t' (waiting i p hw i)"
    using T retry stop sched act tc unfolding txq_ok_def t' by (auto simp: q_def t_def)
  have amd: "amsdu_ok hw' (txq hw' j) (waiting i p hw' j)" if j: "j < NX_NB_TXQ" for j
  proof (cases "j = i")
    case True
    then show ?thesis
      using am w(1) h by (auto simp: amsdu_ok_def F(1) W t' F(2) h'_def)
  next
    case False
    have "amsdu_ok hw (txq hw j) (waiting i (a # p) hw j)"
      using inv j by (simp add: tx_inv_def)
    then have "amsdu_ok hw (txq hw j) (waiting i p hw j)"
      unfolding w(2) [OF False] .
    then show ?thesis
      using False h by (simp add: F(1) W) (erule amsdu_ok_mono, auto simp: F(2) h'_def)
  qed
  have hq: "hwq_ok hw' r" if r: "r < NX_TXQ_CNT" for r
  proof (cases "r = q")
    case True
    have old: "hwq_ok hw q"
      using inv r True by (simp add: tx_inv_def)
    have mem: "i \<in> set (hwq_list (hwq hw q)) \<longleftrightarrow> aml_txq_is_scheduled t" and dist: "distinct (hwq_list (hwq hw q))"
      using old i by (simp_all add: hwq_ok_def t_def q_def)
    have "j < NX_NB_TXQ \<and> aml_txq_is_scheduled (txq hw' j) \<and> txq_hwq (txq hw' j) = q \<longleftrightarrow>
        j \<in> set (hwq_list (hwq hw' q))" for j
    proof (cases "j = i")
      case True
      then show ?thesis
        using mem dist i sched by (auto simp: G(4) F(1) t'(3))
    qed (use old in \<open>simp add: hwq_ok_def G(4) F(1)\<close>)
    then have "set (hwq_list (hwq hw' q)) = {j. j < NX_NB_TXQ \<and> aml_txq_is_scheduled (txq hw' j) \<and> txq_hwq (txq hw' j) = q}"
      by blast
    then show ?thesis
      using old credit distinct_remove1 [OF dist] unfolding True hwq_ok_def G fwq by (simp add: t_def q_def)
  next
    case False
    have "hwq_ok hw r"
      using inv r by (simp add: tx_inv_def)
    then show ?thesis
      using False unfolding hwq_ok_def G(1) [OF False] fwq
      by (auto simp: F(1) t' t_def q_def)
  qed
  have "tx_inv pl i p hw'"
    using bus env(3) i frames subs descs ok amd hq rw pp fwt inv
    by (auto simp: tx_inv_def F(1,3) W t' t_def w(2))
  moreover have "pushed i [a] hw hw'"
    using sched by (simp add: pushed_def F(1,5) t' t_def [symmetric] q_def [symmetric] G Let_def same(1))
  ultimately show thesis
    using r that by blast
qed

lemma pushed_limit: "pushed i xs hw hw' \<Longrightarrow> 0 \<le> push_limit (txq hw' i)"
  by (simp add: pushed_def Let_def)

lemma tx_push_all_ok:
  assumes "tx_inv pl i xs hw" and "int (length xs) \<le> hwq_credits (hwq hw (txq_hwq (txq hw i)))" and "i < NX_NB_TXQ"
    and "int (length xs) \<le> txq_credits (txq hw i)"
  shows "\<exists>hw'. tx_push_all pl xs hw = Some hw' \<and> tx_inv pl i [] hw' \<and> pushed i xs hw hw'"
  using assms
proof (induction xs arbitrary: hw)
  case Nil
  then show ?case
    using tx_inv_txq [OF Nil(1,3)] pushed_refl by (simp add: txq_ok_def)
next
  case (Cons a xs)
  have lim: "0 \<le> push_limit (txq hw i)"
    using tx_inv_txq [OF Cons.prems(1,3)] by (simp add: txq_ok_def)
  from Cons.prems(2,4) have "0 < hwq_credits (hwq hw (txq_hwq (txq hw i)))" "0 < txq_credits (txq hw i)"
    by simp_all
  then obtain hw1 where hw1: "aml_tx_push pl a hw = Some hw1" "tx_inv pl i xs hw1" "pushed i [a] hw hw1"
    using tx_push_ok [OF Cons.prems(1)] by blast
  then have "int (length xs) \<le> hwq_credits (hwq hw1 (txq_hwq (txq hw1 i)))" "int (length xs) \<le> txq_credits (txq hw1 i)"
    using Cons.prems(2,4) by (simp_all add: pushed_def Let_def)
  from Cons.IH [OF hw1(2) this(1) Cons.prems(3) this(2)] obtain hw2 where
    hw2: "tx_push_all pl xs hw1 = Some hw2" "tx_inv pl i [] hw2" "pushed i xs hw1 hw2"
    by blast
  with hw1 pushed_trans [OF hw1(3) hw2(3) lim] show ?case
    by simp
qed

section \<open>Serving a hardware queue\<close>

lemma waiting_Nil: "waiting i [] hw j = sk_list (txq hw j)"
  by (simp add: waiting_def)

text \<open>Taking frames off a queue leaves them waiting in front of it.\<close>

lemma tx_inv_take:
  assumes inv: "tx_inv pl k [] hw" and i: "i < NX_NB_TXQ" and s: "sk_list (txq hw i) = xs @ ys"
  shows "tx_inv pl i xs (upd_txq i (\<lambda>t. t\<lparr>sk_list := ys\<rparr>) hw)" (is "tx_inv pl i xs ?hw")
proof -
  have w: "waiting i xs ?hw = waiting k [] hw"
    by (rule ext) (simp add: waiting_def s)
  have "all_waiting i xs ?hw = all_waiting k [] hw"
    unfolding all_waiting_def w ..
  moreover have "txq_ok j (txq ?hw j) (waiting k [] hw j) = txq_ok j (txq hw j) (waiting k [] hw j)"
    "amsdu_ok ?hw (txq ?hw j) (waiting k [] hw j) = amsdu_ok hw (txq hw j) (waiting k [] hw j)"
    "aml_txq_is_scheduled (txq ?hw j) = aml_txq_is_scheduled (txq hw j)"
    "txq_hwq (txq ?hw j) = txq_hwq (txq hw j)" "pkt_pushed (txq ?hw j) = pkt_pushed (txq hw j)" for j
    by (cases "j = i"; simp add: txq_ok_def retry_ok_def amsdu_ok_def aml_txq_is_scheduled_def aml_txq_is_stopped_def)+
  moreover have "fw_ok hw \<Longrightarrow> fw_ok ?hw"
    by (erule fw_ok_mono) simp_all
  ultimately show ?thesis
    using inv i unfolding tx_inv_def frames_ok_def hwq_ok_def fw_of_txq_def fw_of_hwq_def subframes_ok_def desc_ok_def w by simp
qed

text \<open>With nothing in hand the parameter of the invariant does not matter.\<close>

lemma tx_inv_any: "tx_inv pl i [] hw \<Longrightarrow> tx_inv pl j [] hw"
proof -
  have "waiting i [] hw = waiting j [] hw"
    by (rule ext) (simp add: waiting_def)
  then show "tx_inv pl i [] hw \<Longrightarrow> tx_inv pl j [] hw"
    by (simp add: tx_inv_def frames_ok_def all_waiting_def)
qed

lemma tx_inv_rotate:
  assumes inv: "tx_inv pl k p hw"
  shows "tx_inv pl k p (upd_hwq q (\<lambda>h. h\<lparr>hwq_list := rotate1 (hwq_list h)\<rparr>) hw)" (is "tx_inv pl k p ?hw")
proof -
  have w: "waiting k p ?hw = waiting k p hw"
    by (rule ext) (simp add: waiting_def)
  have "hwq_ok ?hw r = hwq_ok hw r" for r
    by (cases "r = q") (simp_all add: hwq_ok_def fw_of_hwq_def)
  then show ?thesis
    using inv by (simp add: tx_inv_def frames_ok_def all_waiting_def subframes_ok_def desc_ok_def amsdu_ok_def fw_of_txq_def fw_ok_def w)
qed

lemma s8_small: "-128 \<le> x \<Longrightarrow> x \<le> 127 \<Longrightarrow> s8 x = x"
  unfolding s8_def by (rule signed_take_bit_int_eq_self) simp_all

lemma abort_sp_inv [wf_intros]:
  assumes "tx_inv pl k p hw"
  shows "tx_inv pl k p (abort_legacy_sp i hw)"
proof -
  have "tx_inv pl k p (upd_txq i (\<lambda>t. t\<lparr>push_limit := 0\<rparr>) (upd_sta s f hw))" for s f
    using assms by (intro tx_inv_upd_txq) (simp_all add: txq_ok_def retry_ok_def aml_txq_is_scheduled_def aml_txq_is_stopped_def)
  then show ?thesis
    using assms by (simp add: abort_legacy_sp_def Let_def split: option.split)
qed

lemma pkt_sent_inv:
  "tx_inv pl k p hw \<Longrightarrow> tx_inv pl k p (upd_txq i (\<lambda>t. t\<lparr>pkt_sent := n\<rparr>) hw)"
  by (rule tx_inv_upd_txq) (simp_all add: txq_ok_def retry_ok_def aml_txq_is_scheduled_def aml_txq_is_stopped_def)

lemma served_inv [wf_intros]:
  "tx_inv pl k p hw \<Longrightarrow> i < NX_NB_TXQ \<Longrightarrow> tx_inv pl k p (txq_served q i d hw)"
  by (simp add: txq_served_def pkt_sent_inv del_inv tx_inv_rotate)

lemma doorbell_off_pcie [simp]: "aml_bus_type pl \<noteq> PCIE_MODE \<Longrightarrow> txdesc_doorbell pl hw = hw"
  by (simp add: txdesc_doorbell_def Let_def)

lemma flow_control_fields [simp]:
  "hwq (aml_netif_txq_flow_control i hw) = hwq hw" "hdrs (aml_netif_txq_flow_control i hw) = hdrs hw"
  "tx_desc_save (aml_netif_txq_flow_control i hw) = tx_desc_save hw"
  "sk_list (txq (aml_netif_txq_flow_control i hw) j) = sk_list (txq hw j)"
  "txq_hwq (txq (aml_netif_txq_flow_control i hw) j) = txq_hwq (txq hw j)"
  "txq_credits (txq (aml_netif_txq_flow_control i hw) j) = txq_credits (txq hw j)"
  "ipc_env (aml_netif_txq_flow_control i hw) = ipc_env hw"
  "sta_table (aml_netif_txq_flow_control i hw) = sta_table hw" "vif_table (aml_netif_txq_flow_control i hw) = vif_table hw"
  by (simp_all add: aml_netif_txq_flow_control_def Let_def)

lemma abort_sp_fields [simp]:
  "hwq (abort_legacy_sp i hw) = hwq hw" "hdrs (abort_legacy_sp i hw) = hdrs hw"
  "tx_desc_save (abort_legacy_sp i hw) = tx_desc_save hw"
  "sk_list (txq (abort_legacy_sp i hw) j) = sk_list (txq hw j)"
  "txq_hwq (txq (abort_legacy_sp i hw) j) = txq_hwq (txq hw j)"
  "txq_credits (txq (abort_legacy_sp i hw) j) = txq_credits (txq hw j)"
  "ipc_env (abort_legacy_sp i hw) = ipc_env hw"
  by (simp_all add: abort_legacy_sp_def Let_def split: option.split)

lemma served_fields [simp]:
  "hdrs (txq_served q i d hw) = hdrs hw" "tx_desc_save (txq_served q i d hw) = tx_desc_save hw"
  "sk_list (txq (txq_served q i d hw) j) = sk_list (txq hw j)"
  "hwq_credits (hwq (txq_served q i d hw) r) = hwq_credits (hwq hw r)"
  by (simp_all add: txq_served_def aml_txq_del_from_hw_list_def)

text \<open>The outcome of a visit that serves queue \<open>i\<close>: the first \<open>n\<close> frames go out in order, and
  the queue leaves the list unless the credits of the hardware queue ran out.\<close>

definition served :: "nat \<Rightarrow> nat \<Rightarrow> nat \<Rightarrow> tx_hw \<Rightarrow> tx_hw \<Rightarrow> bool" where
  "served q i n hw hw' \<longleftrightarrow>
     0 < n \<and> n \<le> length (sk_list (txq hw i)) \<and>
     tx_desc_save hw' = tx_desc_save hw @ take n (sk_list (txq hw i)) \<and>
     sk_list (txq hw' i) = drop n (sk_list (txq hw i)) \<and>
     (\<forall>j. j \<noteq> i \<longrightarrow> sk_list (txq hw' j) = sk_list (txq hw j)) \<and>
     (\<forall>a. map_option hdr_txq (hdrs hw' a) = map_option hdr_txq (hdrs hw a)) \<and>
     hwq_credits (hwq hw' q) = hwq_credits (hwq hw q) - int n \<and>
     (\<forall>r. r \<noteq> q \<longrightarrow> hwq hw' r = hwq hw r) \<and>
     (hwq_list (hwq hw' q) = remove1 i (hwq_list (hwq hw q)) \<or>
      hwq_credits (hwq hw' q) = 0 \<and> (hwq_list (hwq hw' q) = hwq_list (hwq hw q) \<or>
                                    hwq_list (hwq hw' q) = rotate1 (hwq_list (hwq hw q))))"

lemma get_skb_ok:
  assumes inv: "tx_inv pl k [] hw" and i: "i < NX_NB_TXQ" and q: "txq_hwq (txq hw i) = q"
    and ready: "aml_txq_is_scheduled (txq hw i)" "sk_list (txq hw i) \<noteq> []" "0 < hwq_credits (hwq hw q)"
  obtains n d where "aml_txq_get_skb_to_push q i hw =
      Some (d, take n (sk_list (txq hw i)), upd_txq i (\<lambda>t. t\<lparr>sk_list := drop n (sk_list (txq hw i))\<rparr>) hw)"
    and "0 < n" and "n \<le> length (sk_list (txq hw i))" and "int n \<le> hwq_credits (hwq hw q)"
    and "int n \<le> txq_credits (txq hw i)"
    and "\<not> d \<Longrightarrow> int n = txq_credits (txq hw i) \<or> int n = hwq_credits (hwq hw q)"
proof -
  define t where "t = txq hw i"
  define c where "c = min (aml_txq_get_credits t) (hwq_credits (hwq hw q))"
  have pos: "0 < txq_credits t" and le: "txq_credits t \<le> 124" and pl: "0 \<le> push_limit t"
    using inv i ready(1) unfolding tx_inv_def txq_ok_def t_def TX_MAX_CNT_def by fastforce+
  have gc: "aml_txq_get_credits t = (if push_limit t \<noteq> 0 \<and> push_limit t < txq_credits t then push_limit t else txq_credits t)"
    using pos le pl by (simp add: aml_txq_get_credits_def Let_def s8_small)
  have c: "0 < c"
    using pos pl ready(3) by (auto simp: c_def gc)
  have cc: "push_limit t \<noteq> 0 \<and> c = push_limit t \<or> c = txq_credits t \<or> c = hwq_credits (hwq hw q)"
    "c \<le> hwq_credits (hwq hw q)" "c \<le> txq_credits t"
    by (auto simp: c_def gc min_def)
  show thesis
  proof (cases "int (length (sk_list t)) \<le> c")
    case True
    then have "int (length (sk_list t)) \<le> txq_credits t"
      using cc(3) by linarith
    with True show ?thesis
      using ready(2) c
      by (intro that [of True "length (sk_list t)"])
        (auto simp: aml_txq_get_skb_to_push_def Let_def c_def t_def)
  next
    case False
    then have "aml_txq_get_skb_to_push q i hw = Some (push_limit t \<noteq> 0 \<and> c = push_limit t,
        take (nat c) (sk_list t), upd_txq i (\<lambda>t. t\<lparr>sk_list := drop (nat c) (sk_list (txq hw i))\<rparr>) hw)"
      using c unfolding aml_txq_get_skb_to_push_def Let_def t_def [symmetric] c_def [symmetric]
      by (simp add: skb_queue_extract_def)
    then show ?thesis
      using False c cc by (intro that [of _ "nat c"]) (auto simp: t_def)
  qed
qed

lemma visit_serves:
  assumes inv: "tx_inv pl k [] hw" and i: "i \<in> set (hwq_list (hwq hw q))" and q: "q < NX_TXQ_CNT"
    and ready: "sk_list (txq hw i) \<noteq> []" "hwq_credits (hwq hw q) \<noteq> 0"
  shows "\<exists>n hw'. hwq_visit pl q i hw = Some (False, hw') \<and> tx_inv pl k [] hw' \<and> served q i n hw hw'"
proof -
  have qok: "hwq_ok hw q"
    using inv q by (simp add: tx_inv_def)
  then have sc: "i < NX_NB_TXQ" "aml_txq_is_scheduled (txq hw i)" "txq_hwq (txq hw i) = q" and pos: "0 < hwq_credits (hwq hw q)"
    using i ready(2) by (auto simp: hwq_ok_def)
  have t: "idx (txq hw i) \<noteq> TXQ_INACTIVE" "0 < txq_credits (txq hw i)"
    using tx_inv_txq [OF inv sc(1)] sc(2) by (simp_all add: txq_ok_def)
  obtain n d where g: "aml_txq_get_skb_to_push q i hw =
      Some (d, take n (sk_list (txq hw i)), upd_txq i (\<lambda>t. t\<lparr>sk_list := drop n (sk_list (txq hw i))\<rparr>) hw)"
    and n: "0 < n" "n \<le> length (sk_list (txq hw i))" "int n \<le> hwq_credits (hwq hw q)" "int n \<le> txq_credits (txq hw i)"
    and d: "\<not> d \<Longrightarrow> int n = txq_credits (txq hw i) \<or> int n = hwq_credits (hwq hw q)"
    using get_skb_ok [OF inv sc(1,3,2) ready(1) pos] by blast
  define xs where "xs = take n (sk_list (txq hw i))"
  define hw1 where "hw1 = upd_txq i (\<lambda>t. t\<lparr>sk_list := drop n (sk_list (txq hw i))\<rparr>) hw"
  have inv1: "tx_inv pl i xs hw1"
    unfolding xs_def hw1_def by (rule tx_inv_take [OF inv sc(1)]) simp
  have len: "length xs = n"
    using n(2) by (simp add: xs_def)
  have "int (length xs) \<le> hwq_credits (hwq hw1 (txq_hwq (txq hw1 i)))" "int (length xs) \<le> txq_credits (txq hw1 i)"
    using n(3,4) sc(3) by (simp_all add: len hw1_def)
  from tx_push_all_ok [OF inv1 this(1) sc(1) this(2)] obtain hw2
    where hw2: "tx_push_all pl xs hw1 = Some hw2" "tx_inv pl i [] hw2" "pushed i xs hw1 hw2"
    by blast
  define hw' where "hw' = aml_netif_txq_flow_control i (abort_legacy_sp i (txq_served q i d hw2))"
  have bus: "aml_bus_type pl \<noteq> PCIE_MODE"
    using inv by (simp add: tx_inv_def)
  have r: "hwq_visit pl q i hw = Some (False, hw')"
    using sc t ready bus g hw2(1) by (simp add: hwq_visit_def aml_txq_skb_ready_def Let_def hw'_def xs_def hw1_def)
  have "tx_inv pl k [] hw'"
    unfolding hw'_def using hw2(2) sc(1) by (intro wf_intros) (rule tx_inv_any)
  moreover have "served q i n hw hw'"
  proof -
    have xs: "xs \<noteq> []"
      using n(1) len by auto
    have p: "tx_desc_save hw2 = tx_desc_save hw @ xs" "\<And>j. j \<noteq> i \<Longrightarrow> txq hw2 j = txq hw j"
      "sk_list (txq hw2 i) = drop n (sk_list (txq hw i))" "txq_hwq (txq hw2 i) = q"
      "aml_txq_is_scheduled (txq hw2 i) \<longleftrightarrow> int n < txq_credits (txq hw i)"
      "\<And>r. r \<noteq> q \<Longrightarrow> hwq hw2 r = hwq hw r" "hwq_credits (hwq hw2 q) = hwq_credits (hwq hw q) - int n"
      "hwq_list (hwq hw2 q) = (if aml_txq_is_scheduled (txq hw2 i) then hwq_list (hwq hw q) else remove1 i (hwq_list (hwq hw q)))"
      "\<And>a. map_option hdr_txq (hdrs hw2 a) = map_option hdr_txq (hdrs hw a)"
      using hw2(3) xs sc t unfolding pushed_def Let_def by (auto simp: hw1_def len aml_txq_is_scheduled_def)
    have l: "hwq_list (hwq (txq_served q i d hw2) q) = remove1 i (hwq_list (hwq hw q)) \<or>
        hwq_credits (hwq hw2 q) = 0 \<and> (hwq_list (hwq (txq_served q i d hw2) q) = hwq_list (hwq hw q) \<or>
                                       hwq_list (hwq (txq_served q i d hw2) q) = rotate1 (hwq_list (hwq hw q)))"
      using d p(4,5,7,8) by (auto simp: txq_served_def aml_txq_del_from_hw_list_def)
    have o: "r \<noteq> q \<Longrightarrow> hwq (txq_served q i d hw2) r = hwq hw r" for r
      using p(4,6) by (simp add: txq_served_def aml_txq_del_from_hw_list_def)
    show ?thesis
      using n p l o by (simp add: served_def hw'_def xs_def)
  qed
  ultimately show ?thesis
    using r by blast
qed

lemma visit_empty:
  "sk_list (txq hw i) = [] \<Longrightarrow> hwq_visit pl q i hw = Some (False, hw)"
  by (simp add: hwq_visit_def aml_txq_skb_ready_def Let_def)

subsection \<open>The loop over the list\<close>

lemma succ_in_middle: "i \<notin> set zs \<Longrightarrow> succ_in (zs @ i # ys) i = Some (case ys of [] \<Rightarrow> None | y # _ \<Rightarrow> Some y)"
  by (induction zs) auto

text \<open>The frames a hardware queue takes over: per TX queue, the first ones in order.\<close>

definition took :: "nat \<Rightarrow> addr list \<Rightarrow> tx_hw \<Rightarrow> tx_hw \<Rightarrow> bool" where
  "took q xs hw hw' \<longleftrightarrow>
     tx_desc_save hw' = tx_desc_save hw @ xs \<and>
     (\<forall>j<NX_NB_TXQ. sk_list (txq hw j) = filter (\<lambda>a. map_option hdr_txq (hdrs hw a) = Some j) xs @ sk_list (txq hw' j)) \<and>
     (\<forall>a. map_option hdr_txq (hdrs hw' a) = map_option hdr_txq (hdrs hw a)) \<and>
     hwq_credits (hwq hw' q) = hwq_credits (hwq hw q) - int (length xs) \<and>
     (\<forall>r. r \<noteq> q \<longrightarrow> hwq hw' r = hwq hw r)"

lemma took_refl: "took q [] hw hw"
  by (simp add: took_def)

lemma took_trans: "took q xs hw hw1 \<Longrightarrow> took q ys hw1 hw2 \<Longrightarrow> took q (xs @ ys) hw hw2"
  by (simp add: took_def)

lemma served_took:
  assumes inv: "tx_inv pl k [] hw" and s: "served q i n hw hw'" and i: "i < NX_NB_TXQ"
  shows "took q (take n (sk_list (txq hw i))) hw hw'"
proof -
  have fr: "\<forall>a\<in>set (sk_list (txq hw i)). map_option hdr_txq (hdrs hw a) = Some i"
    using inv i by (auto simp: tx_inv_def frames_ok_def waiting_def split: if_splits)
  have "filter (\<lambda>a. map_option hdr_txq (hdrs hw a) = Some j) (take n (sk_list (txq hw i))) =
      (if j = i then take n (sk_list (txq hw i)) else [])" for j
  proof -
    have "\<forall>a\<in>set (take n (sk_list (txq hw i))). map_option hdr_txq (hdrs hw a) = Some i"
      using fr by (meson in_set_takeD)
    then show ?thesis
      by (auto simp: filter_empty_conv intro!: filter_True)
  qed
  then show ?thesis
    using s by (auto simp: served_def took_def min_def)
qed

text \<open>Nothing that could go out is left.\<close>

definition exhausted :: "nat \<Rightarrow> tx_hw \<Rightarrow> bool" where
  "exhausted q hw \<longleftrightarrow> hwq_credits (hwq hw q) = 0 \<or> (\<forall>j\<in>set (hwq_list (hwq hw q)). sk_list (txq hw j) = [])"

lemma visit_idle:
  "hwq_credits (hwq hw q) = 0 \<Longrightarrow> \<exists>b. hwq_visit pl q i hw = Some (b, hw)"
  by (auto simp: hwq_visit_def Let_def)

lemma loop_idle:
  assumes "hwq_credits (hwq hw q) = 0" and "hwq_list (hwq hw q) = zs @ i # ys" and "distinct (zs @ i # ys)"
    and "length ys < n"
  shows "hwq_loop n pl q (Some i) hw = Some hw"
  using assms
proof (induction ys arbitrary: zs i n)
  case Nil
  obtain b where "hwq_visit pl q i hw = Some (b, hw)"
    using visit_idle [OF Nil(1)] by blast
  with Nil show ?case
    by (cases n) (auto simp: succ_in_middle)
next
  case (Cons y ys)
  obtain b where b: "hwq_visit pl q i hw = Some (b, hw)"
    using visit_idle [OF Cons(2)] by blast
  obtain m where n: "n = Suc m" "length ys < m"
    using Cons.prems(4) by (cases n) auto
  have "hwq_loop m pl q (Some y) hw = Some hw"
    using Cons.IH [of "zs @ [i]" y m] Cons.prems n by simp
  with b n Cons.prems show ?case
    by (auto simp: succ_in_middle)
qed

lemma listed:
  assumes "tx_inv pl k p hw" and "q < NX_TXQ_CNT"
  shows "distinct (hwq_list (hwq hw q))" and "i \<in> set (hwq_list (hwq hw q)) \<Longrightarrow> i < NX_NB_TXQ"
proof -
  have "hwq_ok hw q"
    using assms by (simp add: tx_inv_def)
  then show "distinct (hwq_list (hwq hw q))" "i \<in> set (hwq_list (hwq hw q)) \<Longrightarrow> i < NX_NB_TXQ"
    by (auto simp: hwq_ok_def)
qed

lemma loop_ok:
  assumes "tx_inv pl k [] hw" and "q < NX_TXQ_CNT" and "hwq_list (hwq hw q) = zs @ i # ys"
    and "\<forall>z\<in>set zs. sk_list (txq hw z) = []" and "length ys + length (hwq_list (hwq hw q)) < n"
  shows "\<exists>xs hw'. hwq_loop n pl q (Some i) hw = Some hw' \<and> tx_inv pl k [] hw' \<and> took q xs hw hw' \<and> exhausted q hw'"
  using assms
proof (induction ys arbitrary: zs i n hw)
  case (Nil zs i n hw)
  then obtain m where n: "n = Suc m"
    by (cases n) auto
  have d: "distinct (zs @ [i])" "i < NX_NB_TXQ"
    using listed [OF Nil(1,2)] Nil(3) by auto
  show ?case
  proof (cases "sk_list (txq hw i) = [] \<or> hwq_credits (hwq hw q) = 0")
    case True
    then obtain b where "hwq_visit pl q i hw = Some (b, hw)" "hwq_credits (hwq hw q) = 0 \<or> sk_list (txq hw i) = []"
      using visit_empty visit_idle by blast
    with Nil d n show ?thesis
      by (intro exI [of _ "[]"] exI [of _ hw]) (auto simp: succ_in_middle took_refl exhausted_def)
  next
    case False
    with Nil obtain m' hw' where v: "hwq_visit pl q i hw = Some (False, hw')" "tx_inv pl k [] hw'" "served q i m' hw hw'"
      using visit_serves [OF Nil(1), of i q] by auto
    then have "exhausted q hw'"
      using Nil(3,4) d by (auto simp: served_def exhausted_def remove1_append)
    with v n d Nil(3) served_took [OF Nil(1) v(3)] show ?thesis
      by (auto simp: succ_in_middle)
  qed
next
  case (Cons y ys zs i n hw)
  obtain m where n: "n = Suc m" "length ys + length (hwq_list (hwq hw q)) < m"
    using Cons.prems(5) by (cases n) auto
  have d: "distinct (zs @ i # y # ys)" "i < NX_NB_TXQ"
    using listed [OF Cons.prems(1,2)] Cons.prems(3) by auto
  have step: "hwq_loop n pl q (Some i) hw = hwq_loop m pl q (Some y) hw'" if "hwq_visit pl q i hw = Some (False, hw')" for hw'
    using that n Cons.prems(3) d by (simp add: succ_in_middle)
  consider "hwq_credits (hwq hw q) = 0" | "hwq_credits (hwq hw q) \<noteq> 0" "sk_list (txq hw i) = []"
    | "hwq_credits (hwq hw q) \<noteq> 0" "sk_list (txq hw i) \<noteq> []"
    by blast
  then show ?case
  proof cases
    case 1
    then have "hwq_loop n pl q (Some i) hw = Some hw"
      using Cons.prems(3,5) d by (intro loop_idle [where zs = zs and ys = "y # ys"]) auto
    with 1 Cons.prems(1) show ?thesis
      by (auto simp: exhausted_def intro: took_refl)
  next
    case 2
    have "\<exists>xs hw'. hwq_loop m pl q (Some y) hw = Some hw' \<and> tx_inv pl k [] hw' \<and> took q xs hw hw' \<and> exhausted q hw'"
      using Cons.prems 2 n by (intro Cons.IH [where zs = "zs @ [i]"]) auto
    with step [OF visit_empty [OF 2(2)]] show ?thesis
      by simp
  next
    case 3
    then obtain l hw1 where v: "hwq_visit pl q i hw = Some (False, hw1)" "tx_inv pl k [] hw1" "served q i l hw hw1"
      using visit_serves [OF Cons.prems(1) _ Cons.prems(2), of i] Cons.prems(3) by auto
    note t = served_took [OF Cons.prems(1) v(3) d(2)]
    have "\<exists>xs hw'. hwq_loop m pl q (Some y) hw1 = Some hw' \<and> tx_inv pl k [] hw' \<and> took q xs hw1 hw' \<and> exhausted q hw'"
    proof (cases "hwq_list (hwq hw1 q) = remove1 i (hwq_list (hwq hw q))")
      case True
      then have "hwq_list (hwq hw1 q) = zs @ y # ys"
        using Cons.prems(3) d by (simp add: remove1_append)
      moreover have "\<forall>z\<in>set zs. sk_list (txq hw1 z) = []"
        using Cons.prems(4) v(3) d by (auto simp: served_def)
      ultimately show ?thesis
        using n Cons.prems(2,3) v(2) by (intro Cons.IH [where zs = zs]) auto
    next
      case False
      then have z: "hwq_credits (hwq hw1 q) = 0" and
        l: "hwq_list (hwq hw1 q) = zs @ i # y # ys \<or> hwq_list (hwq hw1 q) = rotate1 (zs @ i # y # ys)"
        using v(3) Cons.prems(3) by (auto simp: served_def)
      have "\<exists>us vs. hwq_list (hwq hw1 q) = us @ y # vs \<and> distinct (us @ y # vs) \<and> length vs < m"
      proof (cases zs)
        case Nil
        then show ?thesis
          using l d n Cons.prems(3)
          by (elim disjE) (rule exI [of _ "[i]"] exI [of _ "[]"], rule exI [of _ ys] exI [of _ "ys @ [i]"], auto)+
      next
        case (Cons u us)
        then show ?thesis
          using l d n Cons.prems(3)
          by (elim disjE) (rule exI [of _ "zs @ [i]"] exI [of _ "us @ [i]"], rule exI [of _ ys] exI [of _ "ys @ [u]"], auto)+
      qed
      then have "hwq_loop m pl q (Some y) hw1 = Some hw1"
        using loop_idle [OF z] by blast
      with v(2) z show ?thesis
        by (auto simp: exhausted_def intro: took_refl)
    qed
    then obtain xs hw' where "hwq_loop m pl q (Some y) hw1 = Some hw'" "tx_inv pl k [] hw'" "took q xs hw1 hw'" "exhausted q hw'"
      by blast
    with step [OF v(1)] took_trans [OF t] show ?thesis
      by auto
  qed
qed

lemma took_exhausted_np [simp]:
  "exhausted q (upd_hwq r (\<lambda>h. h\<lparr>need_processing := b\<rparr>) hw) = exhausted q hw"
  by (simp add: exhausted_def)

lemma process_ok:
  assumes inv: "tx_inv pl k [] hw" and q: "q < NX_TXQ_CNT"
  shows "\<exists>xs hw'. aml_hwq_process pl q hw = Some hw' \<and> tx_inv pl k [] hw' \<and> took q xs hw hw' \<and> exhausted q hw'"
proof -
  define hw0 where "hw0 = upd_hwq q (\<lambda>h. h\<lparr>need_processing := False\<rparr>) hw"
  have inv0: "tx_inv pl k [] hw0"
    using inv by (simp add: hw0_def)
  have t0: "took q xs hw0 hw' \<Longrightarrow> took q xs hw hw'" for xs hw'
    by (simp add: took_def hw0_def)
  show ?thesis
  proof (cases "hwq_list (hwq hw q)")
    case Nil
    then have "aml_hwq_process pl q hw = Some hw0" "exhausted q hw0"
      by (simp_all add: aml_hwq_process_def hw0_def exhausted_def)
    with inv0 t0 [OF took_refl] show ?thesis
      by blast
  next
    case (Cons i ys)
    then have "aml_hwq_process pl q hw = hwq_loop (2 * length (hwq_list (hwq hw q)) + 1) pl q (Some i) hw0"
      by (simp add: aml_hwq_process_def hw0_def)
    moreover have "\<exists>xs hw'. hwq_loop (2 * length (hwq_list (hwq hw q)) + 1) pl q (Some i) hw0 = Some hw' \<and>
        tx_inv pl k [] hw' \<and> took q xs hw0 hw' \<and> exhausted q hw'"
      using Cons by (intro loop_ok [OF inv0 q, where zs = "[]" and ys = ys]) (simp_all add: hw0_def)
    ultimately show ?thesis
      using t0 by auto
  qed
qed

lemma process_down_ok:
  "tx_inv pl k [] hw \<Longrightarrow> \<forall>q\<in>set qs. q < NX_TXQ_CNT \<Longrightarrow> \<exists>hw'. process_down pl qs hw = Some hw' \<and> tx_inv pl k [] hw'"
proof (induction qs arbitrary: hw)
  case (Cons q qs)
  then have "\<exists>hw'. (if need_processing (hwq hw q) then aml_hwq_process pl q hw else Some hw) = Some hw' \<and> tx_inv pl k [] hw'"
    using process_ok [OF Cons.prems(1), of q] by auto
  with Cons show ?case
    by fastforce
qed simp

lemma process_all_ok:
  "tx_inv pl k [] hw \<Longrightarrow> \<exists>hw'. aml_hwq_process_all pl hw = Some hw' \<and> tx_inv pl k [] hw'"
  unfolding aml_hwq_process_all_def by (rule process_down_ok) simp_all

section \<open>Queueing a frame\<close>

lemma insert_after_Some: "p \<in> set xs \<Longrightarrow> \<exists>ys zs. xs = ys @ p # zs \<and> p \<notin> set ys \<and> insert_after p a xs = Some (ys @ p # a # zs)"
proof (induction xs)
  case (Cons x xs)
  show ?case
  proof (cases "x = p")
    case False
    with Cons obtain ys zs where "xs = ys @ p # zs" "p \<notin> set ys" "insert_after p a xs = Some (ys @ p # a # zs)"
      by auto
    with False show ?thesis
      by (intro exI [of _ "x # ys"] exI [of _ zs]) simp
  qed (auto intro: exI [of _ "[]"])
qed simp

text \<open>The invariant while the frame \<open>a\<close> is in the hands of a caller.\<close>

definition without :: "addr \<Rightarrow> aml_sw_txhdr \<Rightarrow> tx_hw \<Rightarrow> tx_hw" where
  "without a h hw = hw\<lparr>hdrs := (hdrs hw)(a := None), subframes := subframes hw |` (- set (am_hdrs h))\<rparr>"

definition tx_inv_with :: "plat \<Rightarrow> addr \<Rightarrow> tx_hw \<Rightarrow> bool" where
  "tx_inv_with pl a hw \<longleftrightarrow>
     (\<exists>h. hdrs hw a = Some h \<and> hdr_ok h \<and> hdr_txq h < NX_NB_TXQ \<and> a \<notin> set (fw_frames (ipc_env hw)) \<and>
          (\<forall>j<NX_NB_TXQ. a \<notin> set (sk_list (txq hw j))) \<and> subframes hw a = None \<and>
          distinct (am_hdrs h) \<and> set (am_hdrs h) \<subseteq> dom (subframes hw) \<and> set (am_hdrs h) \<inter> dom (hdrs hw) = {} \<and>
          tx_inv pl 0 [] (without a h hw))"

lemma without_sel [simp]:
  "txq (without a h hw) = txq hw" "hwq (without a h hw) = hwq hw" "ipc_env (without a h hw) = ipc_env hw"
  "hdrs (without a h hw) = (hdrs hw)(a := None)" "retry_warned (without a h hw) = retry_warned hw"
  "subframes (without a h hw) = subframes hw |` (- set (am_hdrs h))" "tx_desc_save (without a h hw) = tx_desc_save hw"
  "sta_table (without a h hw) = sta_table hw" "vif_table (without a h hw) = vif_table hw"
  by (simp_all add: without_def)

lemma tx_inv_withD:
  assumes "tx_inv_with pl a hw" and "hdrs hw a = Some h"
  shows "tx_inv pl 0 [] (without a h hw)" "hdr_txq h < NX_NB_TXQ" "hdr_ok h" "a \<notin> set (fw_frames (ipc_env hw))"
    "\<And>j. j < NX_NB_TXQ \<Longrightarrow> a \<notin> set (sk_list (txq hw j))" "distinct (am_hdrs h)" "set (am_hdrs h) \<subseteq> dom (subframes hw)"
    "subframes hw a = None" "set (am_hdrs h) \<inter> dom (hdrs hw) = {}"
  using assms unfolding tx_inv_with_def by auto

lemma tx_inv_insert:
  assumes held: "tx_inv_with pl a hw" and h: "hdrs hw a = Some h" "hdr_txq h = i"
    and act: "idx (txq hw i) \<noteq> TXQ_INACTIVE"
    and ins: "sk_list (txq hw i) = us @ vs"
    and f: "f (txq hw i) = (txq hw i)\<lparr>sk_list := us @ a # vs, last_retry_skb := l, nb_retry := n\<rparr>"
    and ok: "retry_ok (f (txq hw i)) (us @ a # vs)"
  shows "tx_inv pl 0 [] (upd_txq i f hw)" (is "tx_inv pl 0 [] ?hw'")
proof -
  define hw0 where "hw0 = without a h hw"
  note held = tx_inv_withD [OF held h(1)]
  have inv: "tx_inv pl 0 [] hw0" and i: "i < NX_NB_TXQ" and notfw: "a \<notin> set (fw_frames (ipc_env hw))"
    and notq: "\<And>j. j < NX_NB_TXQ \<Longrightarrow> a \<notin> set (sk_list (txq hw j))"
    using held h by (auto simp: hw0_def)
  have sel: "txq hw0 = txq hw" "hwq hw0 = hwq hw" "ipc_env hw0 = ipc_env hw" "subframes hw0 = subframes hw |` (- set (am_hdrs h))"
    "hdrs hw0 = (hdrs hw)(a := None)" "retry_warned hw0 = retry_warned hw" "tx_desc_save hw0 = tx_desc_save hw"
    by (simp_all add: hw0_def)
  have w: "waiting 0 [] ?hw' j = (if j = i then us @ a # vs else sk_list (txq hw j))"
    "waiting 0 [] hw0 j = sk_list (txq hw j)" for j
    by (simp_all add: waiting_def f sel)
  have "mset (concat (map (waiting 0 [] ?hw') [0..<NX_NB_TXQ])) + mset (waiting 0 [] hw0 i) =
      mset (concat (map (waiting 0 [] hw0) [0..<NX_NB_TXQ])) + mset (waiting 0 [] ?hw' i)"
    using i by (rule mset_concat_upd) (simp add: w)
  then have m: "mset (all_waiting 0 [] ?hw') = add_mset a (mset (all_waiting 0 [] hw0))"
    by (simp add: all_waiting_def w ins)
  have fr0: "frames_ok 0 [] hw0"
    using inv by (simp add: tx_inv_def)
  have "mset (all_waiting 0 [] ?hw' @ fw_frames (ipc_env hw)) = mset (a # all_waiting 0 [] hw0 @ fw_frames (ipc_env hw))"
    by (simp add: m)
  note d = mset_eq_imp_distinct_iff [OF this] mset_eq_setD [OF this]
  have "distinct (a # all_waiting 0 [] hw0 @ fw_frames (ipc_env hw))"
    using fr0 notfw notq by (auto simp: frames_ok_def sel all_waiting_def w)
  then have "distinct (all_waiting 0 [] ?hw' @ fw_frames (ipc_env hw))"
    by (simp only: d)
  moreover have "set (a # all_waiting 0 [] hw0 @ fw_frames (ipc_env hw)) = dom (hdrs hw)"
    using fr0 h by (auto simp: frames_ok_def sel)
  then have "set (all_waiting 0 [] ?hw' @ fw_frames (ipc_env hw)) = dom (hdrs hw)"
    by (simp only: d)
  moreover have "map_option hdr_txq (hdrs hw b) = Some j" if "j < NX_NB_TXQ" "b \<in> set (waiting 0 [] ?hw' j)" for j b
  proof (cases "b = a")
    case True
    then show ?thesis
      using that notq h by (auto simp: w split: if_splits)
  next
    case False
    then have "b \<in> set (sk_list (txq hw j))"
      using that by (auto simp: w ins split: if_splits)
    then have "map_option hdr_txq (((hdrs hw)(a := None)) b) = Some j"
      using fr0 that(1) unfolding frames_ok_def sel w by blast
    with False show ?thesis
      by simp
  qed
  moreover have "fw_ok ?hw'"
  proof (rule fw_ok_mono)
    show "fw_ok hw0"
      using fr0 by (simp add: frames_ok_def)
  qed (use notfw in \<open>auto simp: sel f\<close>)
  ultimately have frames: "frames_ok 0 [] ?hw'"
    by (simp add: frames_ok_def)
  have counts: "fw_of_txq ?hw' j = fw_of_txq hw0 j" "fw_of_hwq ?hw' r = fw_of_hwq hw0 r" for j r
    using notfw by (auto simp: fw_of_txq_def fw_of_hwq_def sel intro!: arg_cong [where f = length] filter_cong)
  have subs: "subframes_ok ?hw'"
  proof -
    have "subs_ok ((hdrs hw)(a := None)) (subframes hw0)"
      using inv by (simp add: tx_inv_def subframes_ok_def sel)
    then have "subs_ok ((hdrs hw)(a := None, a \<mapsto> h)) (subframes hw)"
      by (rule subs_ok_insert) (use held(3,6-9) in \<open>auto simp: sel\<close>)
    moreover have "(hdrs hw)(a := None, a \<mapsto> h) = hdrs hw"
      using h(1) by auto
    ultimately show ?thesis
      by (simp add: subframes_ok_def)
  qed
  have descs: "desc_ok ?hw'"
    using inv by (simp add: tx_inv_def desc_ok_def sel)
  have txqs: "txq_ok j (txq ?hw' j) (waiting 0 [] ?hw' j) \<and> amsdu_ok ?hw' (txq ?hw' j) (waiting 0 [] ?hw' j) \<and>
      pkt_pushed (txq ?hw' j) = int (fw_of_txq ?hw' j)" if j: "j < NX_NB_TXQ" for j
  proof -
    have old: "txq_ok j (txq hw j) (sk_list (txq hw j))" "amsdu_ok hw0 (txq hw j) (sk_list (txq hw j))"
      "pkt_pushed (txq hw j) = int (fw_of_txq hw0 j)"
      using inv j by (auto simp: tx_inv_def sel w)
    have am: "amsdu_ok hw (txq hw j) (sk_list (txq hw j))"
      using old(2) by (auto simp: amsdu_ok_def sel split: if_splits)
    show ?thesis
    proof (cases "j = i")
      case True
      then show ?thesis
        using old am act ok by (auto simp: counts w f txq_ok_def amsdu_ok_def ins aml_txq_is_scheduled_def aml_txq_is_stopped_def)
    next
      case False
      then show ?thesis
        using old am by (simp add: counts w amsdu_ok_def)
    qed
  qed
  have "hwq_ok ?hw' r" if "r < NX_TXQ_CNT" for r
  proof -
    have sch: "aml_txq_is_scheduled (txq ?hw' j) = aml_txq_is_scheduled (txq hw j)" "txq_hwq (txq ?hw' j) = txq_hwq (txq hw j)" for j
      by (simp_all add: f aml_txq_is_scheduled_def)
    have "hwq_ok hw0 r"
      using inv that by (simp add: tx_inv_def)
    then show ?thesis
      unfolding hwq_ok_def counts sch by (simp add: sel)
  qed
  then show ?thesis
    using inv frames subs descs txqs by (simp add: tx_inv_def sel)
qed

lemma tx_inv_cong:
  assumes "txq hw' = txq hw" "hwq hw' = hwq hw" "hdrs hw' = hdrs hw" "subframes hw' = subframes hw"
    "ipc_env hw' = ipc_env hw" "retry_warned hw' = retry_warned hw" "tx_desc_save hw' = tx_desc_save hw"
  shows "tx_inv pl k p hw' = tx_inv pl k p hw"
proof -
  have w: "waiting k p hw' = waiting k p hw"
    by (rule ext) (simp add: waiting_def assms)
  show ?thesis
    by (simp add: tx_inv_def frames_ok_def fw_ok_def all_waiting_def subframes_ok_def desc_ok_def amsdu_ok_def hwq_ok_def fw_of_txq_def
        fw_of_hwq_def w assms)
qed

lemma tx_inv_with_cong:
  assumes "txq hw' = txq hw" "hwq hw' = hwq hw" "hdrs hw' = hdrs hw" "subframes hw' = subframes hw"
    "ipc_env hw' = ipc_env hw" "retry_warned hw' = retry_warned hw" "tx_desc_save hw' = tx_desc_save hw"
  shows "tx_inv_with pl a hw' = tx_inv_with pl a hw"
proof -
  have "tx_inv pl 0 [] (without a h hw') = tx_inv pl 0 [] (without a h hw)" for h
    by (rule tx_inv_cong) (simp_all add: assms)
  then show ?thesis
    by (simp add: tx_inv_with_def assms)
qed

lemma traffic_status_fields [simp]:
  "txq (aml_set_traffic_status s b ps hw) = txq hw" "hwq (aml_set_traffic_status s b ps hw) = hwq hw"
  "hdrs (aml_set_traffic_status s b ps hw) = hdrs hw" "subframes (aml_set_traffic_status s b ps hw) = subframes hw"
  "ipc_env (aml_set_traffic_status s b ps hw) = ipc_env hw"
  "retry_warned (aml_set_traffic_status s b ps hw) = retry_warned hw"
  "sta_table (aml_set_traffic_status s b ps hw) = sta_table hw"
  "tx_desc_save (aml_set_traffic_status s b ps hw) = tx_desc_save hw"
  by (simp_all add: aml_set_traffic_status_def Let_def)

lemma ps_queued_fields [simp]:
  "txq (ps_frame_queued i hw) = txq hw" "hwq (ps_frame_queued i hw) = hwq hw"
  "hdrs (ps_frame_queued i hw) = hdrs hw" "subframes (ps_frame_queued i hw) = subframes hw"
  "ipc_env (ps_frame_queued i hw) = ipc_env hw" "retry_warned (ps_frame_queued i hw) = retry_warned hw"
  "tx_desc_save (ps_frame_queued i hw) = tx_desc_save hw"
  by (simp_all add: ps_frame_queued_def Let_def split: option.split)

lemma cleanup_timer_inv [simp]: "tx_inv pl k p (aml_txq_start_cleanup_timer s hw) = tx_inv pl k p hw"
  by (simp add: aml_txq_start_cleanup_timer_def split: option.split)

lemma insert_ok:
  assumes held: "tx_inv_with pl a hw" and h: "hdrs hw a = Some h" "hdr_txq h = i"
    and act: "idx (txq hw i) \<noteq> TXQ_INACTIVE"
  shows "\<exists>hw'. insert_skb i a retry None hw = Some hw' \<and> tx_inv pl 0 [] hw'"
proof -
  define t where "t = txq hw i"
  have i: "i < NX_NB_TXQ"
    using tx_inv_withD(2) [OF held h(1)] h by simp
  note inv0 = tx_inv_withD(1) [OF held h(1)]
  note T = tx_inv_txq [OF inv0 i]
  then have r: "retry_ok t (sk_list t)"
    by (simp add: txq_ok_def waiting_def t_def)
  have "distinct (sk_list t)"
  proof -
    have "distinct (all_waiting 0 [] (without a h hw))"
      using inv0 by (simp add: tx_inv_def frames_ok_def)
    then show ?thesis
      using i unfolding all_waiting_def distinct_concat_iff by (auto simp: waiting_def t_def)
  qed
  show ?thesis
  proof (cases retry)
    case False
    define f where "f = (\<lambda>t. t\<lparr>sk_list := sk_list (txq hw i) @ [a]\<rparr> :: aml_txq)"
    have "tx_inv pl 0 [] (upd_txq i f hw)"
      using r by (intro tx_inv_insert [OF held h act, where us = "sk_list t" and vs = "[]" and l = "last_retry_skb t" and n = "nb_retry t"])
        (auto simp: f_def t_def retry_ok_def nth_append)
    with False show ?thesis
      by (simp add: insert_skb_def f_def Let_def)
  next
    case True
    show ?thesis
    proof (cases "nb_retry t = 0")
      case z: True
      define f where "f = (\<lambda>t. t\<lparr>sk_list := a # sk_list (txq hw i), last_retry_skb := Some a, nb_retry := nb_retry t + 1\<rparr> :: aml_txq)"
      have "tx_inv pl 0 [] (upd_txq i f hw)"
        using z by (intro tx_inv_insert [OF held h act, where us = "[]" and vs = "sk_list t" and l = "Some a" and n = "nb_retry t + 1"])
          (auto simp: f_def t_def retry_ok_def)
      moreover have "last_retry_skb (txq hw i) = None"
        using r z by (simp add: retry_ok_def t_def)
      ultimately show ?thesis
        using True by (simp add: insert_skb_def f_def Let_def)
    next
      case z: False
      define m where "m = nat (nb_retry t) - 1"
      have m: "nb_retry t = int m + 1" "m < length (sk_list t)" "last_retry_skb t = Some (sk_list t ! m)"
        using r z by (auto simp: retry_ok_def m_def)
      obtain us zs where s: "sk_list t = us @ sk_list t ! m # zs" "sk_list t ! m \<notin> set us"
          "insert_after (sk_list t ! m) a (sk_list t) = Some (us @ sk_list t ! m # a # zs)"
        using insert_after_Some nth_mem [OF m(2)] by metis
      have us: "length us = m"
      proof -
        have "sk_list t ! length us = sk_list t ! m"
          by (subst s(1)) simp
        moreover have "length us < length (sk_list t)"
          by (subst s(1)) simp
        ultimately show ?thesis
          using \<open>distinct (sk_list t)\<close> m(2) by (simp add: nth_eq_iff_index_eq)
      qed
      define w where "w = us @ sk_list t ! m # a # zs"
      define f where "f = (\<lambda>t. t\<lparr>sk_list := w, last_retry_skb := Some a, nb_retry := nb_retry t + 1\<rparr> :: aml_txq)"
      have "tx_inv pl 0 [] (upd_txq i f hw)"
      proof (rule tx_inv_insert [OF held h act, where us = "us @ [sk_list t ! m]" and vs = zs and l = "Some a" and n = "nb_retry t + 1"])
        show "sk_list (txq hw i) = (us @ [sk_list t ! m]) @ zs"
          using s(1) by (simp add: t_def)
        show "retry_ok (f (txq hw i)) ((us @ [sk_list t ! m]) @ a # zs)"
          using m us by (simp add: f_def retry_ok_def t_def [symmetric] nat_add_distrib nth_append)
      qed (simp_all add: f_def w_def t_def)
      with True m(3) s(3) show ?thesis
        by (simp add: insert_skb_def f_def w_def t_def Let_def)
    qed
  qed
qed

lemma queue_ok:
  assumes held: "tx_inv_with pl a hw" and h: "hdrs hw a = Some h" "hdr_txq h = i"
    and act: "idx (txq hw i) \<noteq> TXQ_INACTIVE"
  shows "\<exists>hw'. aml_txq_queue_skb pl i a retry None hw = Some hw' \<and> tx_inv pl 0 [] hw'"
proof -
  have i: "i < NX_NB_TXQ"
    using tx_inv_withD(2) [OF held h(1)] h by simp
  have "tx_inv_with pl a (ps_frame_queued i hw)"
    using held by (subst tx_inv_with_cong) simp_all
  from insert_ok [OF this, of h i retry] h act obtain hw1
    where hw1: "insert_skb i a retry None (ps_frame_queued i hw) = Some hw1" "tx_inv pl 0 [] hw1"
    by auto
  from add_inv [OF flow_control_inv [OF hw1(2)] i] show ?thesis
    by (simp add: aml_txq_queue_skb_def hw1(1))
qed

end
