(* ===== verification/Txq_Drop.thy ===== *)
theory Txq_Drop
  imports Txq_Inv
begin

text \<open>
  The rest of the preservation of the TX invariant: dropping and flushing, setting queues up
  and tearing them down, ageing, confirmations.
\<close>

section \<open>Dropping a frame\<close>

lemma hdr_ok_packet_cnt:
  assumes "hdr_ok h"
  shows "1 < packet_cnt h \<longleftrightarrow> am_hdrs h \<noteq> []"
proof -
  have n: "length (am_hdrs h) < 6" and p: "packet_cnt h = 1 + of_nat (length (am_hdrs h))"
    using assms by (simp_all add: hdr_ok_def NX_TX_PAYLOAD_MAX_def)
  from n consider "length (am_hdrs h) = 0" | "length (am_hdrs h) = 1" | "length (am_hdrs h) = 2" |
      "length (am_hdrs h) = 3" | "length (am_hdrs h) = 4" | "length (am_hdrs h) = 5"
    by linarith
  then show ?thesis
    using p by cases auto
qed

lemma free_subframes_ok:
  "distinct ss \<Longrightarrow> set ss \<subseteq> dom (subframes hw) \<Longrightarrow>
     free_subframes ss hw = Some (hw\<lparr>subframes := (\<lambda>s. if s \<in> set ss then None else subframes hw s)\<rparr>)"
proof (induction ss arbitrary: hw)
  case (Cons s ss)
  then have "set ss \<subseteq> dom ((subframes hw)(s := None))"
    by auto
  with Cons show ?case
    by (auto simp: domD intro!: tx_hw.equality ext)
qed simp

lemma tx_inv_remove:
  assumes inv: "tx_inv pl 0 [] hw" and i: "i < NX_NB_TXQ" and s: "sk_list (txq hw i) = us @ a # vs"
    and h: "hdrs hw a = Some h"
    and f: "txq hw' = (txq hw)(i := (txq hw i)\<lparr>sk_list := us @ vs, last_retry_skb := l, nb_retry := n, txq_amsdu := am\<rparr>)"
    and ok: "retry_ok ((txq hw i)\<lparr>sk_list := us @ vs, last_retry_skb := l, nb_retry := n, txq_amsdu := am\<rparr>) (us @ vs)"
    and am: "am = None \<or> am = txq_amsdu (txq hw i) \<and> am \<noteq> Some a"
    and sel: "hwq hw' = hwq hw" "ipc_env hw' = ipc_env hw" "hdrs hw' = (hdrs hw)(a := None)" "\<not> retry_warned hw'"
    and ss: "dom (subframes hw') = dom (subframes hw) - set (am_hdrs h)" "tx_desc_save hw' = tx_desc_save hw"
  shows "tx_inv pl 0 [] hw'"
proof -
  have w: "waiting 0 [] hw' j = (if j = i then us @ vs else sk_list (txq hw j))" "waiting 0 [] hw j = sk_list (txq hw j)" for j
    by (simp_all add: waiting_def f)
  have fr: "frames_ok 0 [] hw" and sub: "subframes_ok hw"
    using inv by (auto simp: tx_inv_def)
  have "mset (concat (map (waiting 0 [] hw') [0..<NX_NB_TXQ])) + mset (waiting 0 [] hw i) =
      mset (concat (map (waiting 0 [] hw) [0..<NX_NB_TXQ])) + mset (waiting 0 [] hw' i)"
    using i by (rule mset_concat_upd) (simp add: w)
  then have "mset (all_waiting 0 [] hw) = add_mset a (mset (all_waiting 0 [] hw'))"
    by (simp add: all_waiting_def w s)
  then have "mset (all_waiting 0 [] hw @ fw_frames (ipc_env hw)) = mset (a # all_waiting 0 [] hw' @ fw_frames (ipc_env hw))"
    by simp
  note d = mset_eq_imp_distinct_iff [OF this] mset_eq_setD [OF this]
  have dist: "distinct (a # all_waiting 0 [] hw' @ fw_frames (ipc_env hw))"
    using fr by (simp only: d [symmetric] frames_ok_def)
  have dom: "set (a # all_waiting 0 [] hw' @ fw_frames (ipc_env hw)) = dom (hdrs hw)"
    using fr by (simp only: d [symmetric] frames_ok_def)
  have notfw: "a \<notin> set (fw_frames (ipc_env hw))"
    using dist by simp
  have notw: "a \<notin> set (waiting 0 [] hw' j)" if "j < NX_NB_TXQ" for j
    using dist that by (auto simp: all_waiting_def)
  have "dom (hdrs hw') = set (all_waiting 0 [] hw' @ fw_frames (ipc_env hw))"
    using dist dom by (auto simp: sel(3) dom_def)
  moreover have "map_option hdr_txq (hdrs hw' b) = Some j" if "j < NX_NB_TXQ" "b \<in> set (waiting 0 [] hw' j)" for j b
  proof -
    have "b \<in> set (waiting 0 [] hw j)"
      using that by (auto simp: w s split: if_splits)
    then have "map_option hdr_txq (hdrs hw b) = Some j"
      using fr that(1) unfolding frames_ok_def by blast
    moreover have "b \<noteq> a"
      using notw that by blast
    ultimately show ?thesis
      by (simp add: sel)
  qed
  moreover have "fw_ok hw'"
  proof (rule fw_ok_mono)
    show "fw_ok hw"
      using fr by (simp add: frames_ok_def)
  qed (use notfw in \<open>auto simp: sel f\<close>)
  ultimately have frames: "frames_ok 0 [] hw'"
    using dist by (simp add: frames_ok_def sel)
  have counts: "fw_of_txq hw' j = fw_of_txq hw j" "fw_of_hwq hw' r = fw_of_hwq hw r" for j r
    using notfw by (auto simp: fw_of_txq_def fw_of_hwq_def sel intro!: arg_cong [where f = length] filter_cong)
  have other: "hdrs hw b = Some k \<and> b \<noteq> a" if "hdrs hw' b = Some k" for b k
    using that by (auto simp: sel split: if_splits)
  have subs: "subframes_ok hw'"
    using sub h ss(1) unfolding subframes_ok_def sel(3) by (rule subs_ok_remove)
  have descs: "desc_ok hw'"
    using inv by (simp add: tx_inv_def desc_ok_def sel ss(2))
  have txqs: "txq_ok j (txq hw' j) (waiting 0 [] hw' j) \<and> amsdu_ok hw' (txq hw' j) (waiting 0 [] hw' j) \<and>
      pkt_pushed (txq hw' j) = int (fw_of_txq hw' j)" if j: "j < NX_NB_TXQ" for j
  proof -
    have old: "txq_ok j (txq hw j) (sk_list (txq hw j))" "amsdu_ok hw (txq hw j) (sk_list (txq hw j))"
      "pkt_pushed (txq hw j) = int (fw_of_txq hw j)"
      using inv j by (auto simp: tx_inv_def w)
    show ?thesis
    proof (cases "j = i")
      case True
      moreover have "amsdu_ok hw' (txq hw' i) (us @ vs)"
        using old(2) am True by (auto simp: amsdu_ok_def f sel s)
      ultimately show ?thesis
        using old ok by (auto simp: counts w f txq_ok_def s aml_txq_is_scheduled_def aml_txq_is_stopped_def)
    next
      case False
      moreover have "a \<notin> set (sk_list (txq hw j))"
        using notw [OF j] False by (simp add: w)
      then have "amsdu_ok hw' (txq hw j) (sk_list (txq hw j))"
        using old(2) by (auto simp: amsdu_ok_def sel)
      ultimately show ?thesis
        using old by (simp add: counts w f)
    qed
  qed
  have "hwq_ok hw' r" if "r < NX_TXQ_CNT" for r
  proof -
    have sch: "aml_txq_is_scheduled (txq hw' j) = aml_txq_is_scheduled (txq hw j)" "txq_hwq (txq hw' j) = txq_hwq (txq hw j)" for j
      by (simp_all add: f aml_txq_is_scheduled_def)
    have "hwq_ok hw r"
      using inv that by (simp add: tx_inv_def)
    then show ?thesis
      unfolding hwq_ok_def counts sch by (simp add: sel)
  qed
  then show ?thesis
    using inv frames subs descs txqs by (simp add: tx_inv_def sel)
qed

text \<open>What dropping a frame of queue \<open>i\<close> leaves.\<close>

definition dropped_from :: "nat \<Rightarrow> addr list \<Rightarrow> addr list \<Rightarrow> tx_hw \<Rightarrow> tx_hw \<Rightarrow> bool" where
  "dropped_from i as rest hw hw' \<longleftrightarrow>
     (\<exists>l n am. txq hw' = (txq hw)(i := (txq hw i)\<lparr>sk_list := rest, last_retry_skb := l, nb_retry := n, txq_amsdu := am\<rparr>)) \<and>
     hwq hw' = hwq hw \<and> ipc_env hw' = ipc_env hw \<and> sta_table hw' = sta_table hw \<and> vif_table hw' = vif_table hw \<and>
     tx_desc_save hw' = tx_desc_save hw \<and> jiffies hw' = jiffies hw \<and>
     (\<forall>b. hdrs hw' b = (if b \<in> set as then None else hdrs hw b))"

lemma dropped_fields:
  assumes "dropped_from i as rest hw hw'"
  shows "j \<noteq> i \<Longrightarrow> txq hw' j = txq hw j" "sk_list (txq hw' i) = rest" "status (txq hw' j) = status (txq hw j)"
    "idx (txq hw' j) = idx (txq hw j)" "txq_credits (txq hw' j) = txq_credits (txq hw j)"
    "txq_hwq (txq hw' j) = txq_hwq (txq hw j)" "pkt_pushed (txq hw' j) = pkt_pushed (txq hw j)"
  using assms by (auto simp: dropped_from_def)

lemma dropped_refl: "sk_list (txq hw i) = rest \<Longrightarrow> dropped_from i [] rest hw hw"
proof -
  assume "sk_list (txq hw i) = rest"
  then have "txq hw i = (txq hw i)\<lparr>sk_list := rest, last_retry_skb := last_retry_skb (txq hw i),
      nb_retry := nb_retry (txq hw i), txq_amsdu := txq_amsdu (txq hw i)\<rparr>"
    by simp
  then have "txq hw = (txq hw)(i := (txq hw i)\<lparr>sk_list := rest, last_retry_skb := last_retry_skb (txq hw i),
      nb_retry := nb_retry (txq hw i), txq_amsdu := txq_amsdu (txq hw i)\<rparr>)"
    by (metis fun_upd_triv)
  then have "\<exists>l n am. txq hw = (txq hw)(i := (txq hw i)\<lparr>sk_list := rest, last_retry_skb := l, nb_retry := n, txq_amsdu := am\<rparr>)"
    by blast
  then show ?thesis
    unfolding dropped_from_def by simp
qed

lemma dropped_trans:
  "dropped_from i as r hw hw1 \<Longrightarrow> dropped_from i bs r' hw1 hw2 \<Longrightarrow> dropped_from i (as @ bs) r' hw hw2"
  unfolding dropped_from_def by (elim conjE exE) (auto simp: fun_eq_iff)

lemma drop_ok:
  assumes inv: "tx_inv pl 0 [] hw" and i: "i < NX_NB_TXQ" and s: "sk_list (txq hw i) = us @ a # vs"
    and r: "if retry then us = [] \<and> nb_retry (txq hw i) \<noteq> 0 else nb_retry (txq hw i) \<le> int (length us)"
  shows "\<exists>hw'. aml_txq_drop_skb i a retry hw = Some hw' \<and> tx_inv pl 0 [] hw' \<and> dropped_from i [a] (us @ vs) hw hw' \<and>
     nb_retry (txq hw' i) = nb_retry (txq hw i) - (if retry then 1 else 0)"
proof -
  define t where "t = txq hw i"
  have fr: "frames_ok 0 [] hw" and sub: "subframes_ok hw" and nw: "\<not> retry_warned hw"
    using inv by (auto simp: tx_inv_def)
  have ro: "retry_ok t (us @ a # vs)" and ao: "amsdu_ok hw t (us @ a # vs)"
    using inv i s by (auto simp: tx_inv_def txq_ok_def waiting_def t_def)
  have wd: "distinct (sk_list (txq hw i))"
    using fr i unfolding frames_ok_def all_waiting_def distinct_append distinct_concat_iff by (auto simp: waiting_def)
  then have rm: "remove1 a (sk_list (txq hw i)) = us @ vs"
    by (auto simp: s remove1_append)
  have "map_option hdr_txq (hdrs hw a) = Some i"
    using fr i s unfolding frames_ok_def by (auto simp: waiting_def)
  then obtain h where h: "hdrs hw a = Some h"
    by blast
  have ss: "distinct (am_hdrs h)" "set (am_hdrs h) \<subseteq> dom (subframes hw)"
    using subs_okD(2,3) [OF sub [unfolded subframes_ok_def] h] by blast+
  have hok: "hdr_ok h"
    using subs_okD(1) [OF sub [unfolded subframes_ok_def] h] .
  have few: "1 < packet_cnt h \<longleftrightarrow> am_hdrs h \<noteq> []"
    using hok by (rule hdr_ok_packet_cnt)
  define t' where "t' = (if retry then (if nb_retry t = 1 then t\<lparr>sk_list := us @ vs, nb_retry := 0, last_retry_skb := None\<rparr>
      else t\<lparr>sk_list := us @ vs, nb_retry := nb_retry t - 1\<rparr>) else t\<lparr>sk_list := us @ vs\<rparr>)"
  define am where "am = (if txq_amsdu t = Some a then None else txq_amsdu t)"
  have big: "txq_amsdu t = Some a \<Longrightarrow> 1 < packet_cnt h"
    using ao h few by (auto simp: amsdu_ok_def)
  obtain hw' where hw': "aml_txq_drop_skb i a retry hw = Some hw'" "txq hw' = (txq hw)(i := t'\<lparr>txq_amsdu := am\<rparr>)"
     "hwq hw' = hwq hw" "ipc_env hw' = ipc_env hw" "hdrs hw' = (hdrs hw)(a := None)"
     "retry_warned hw' = (retry \<and> nb_retry t = 1 \<and> last_retry_skb t \<noteq> Some a)"
     "sta_table hw' = sta_table hw" "vif_table hw' = vif_table hw" "tx_desc_save hw' = tx_desc_save hw" "jiffies hw' = jiffies hw"
     "dom (subframes hw') = dom (subframes hw) - set (am_hdrs h)"
  proof -
    define hw1 where "hw1 = upd_txq i (\<lambda>t. t\<lparr>sk_list := remove1 a (sk_list t)\<rparr>) hw"
    define hwF where "hwF = hw1\<lparr>subframes := (\<lambda>s. if s \<in> set (am_hdrs h) then None else subframes hw s)\<rparr>"
    define hw2 where "hw2 = (if 1 < packet_cnt h
      then (if txq_amsdu t = Some a then upd_txq i (\<lambda>t. t\<lparr>txq_amsdu := None\<rparr>) hwF else hwF) else hw1)"
    define hw3 where "hw3 = (if tx_flags h AND TXU_CNTRL_MGMT \<noteq> 0 then report (Mgmt_tx_status a False) hw2 else hw2)"
    define hw4 where "hw4 = hw3\<lparr>hdrs := (hdrs hw3)(a := None)\<rparr>"
    have "free_subframes (am_hdrs h) hw1 = Some hwF"
      using free_subframes_ok [of "am_hdrs h" hw1] ss by (simp add: hw1_def hwF_def cong: if_cong)
    moreover have "txq_amsdu (txq hwF i) = txq_amsdu t"
      by (simp add: hwF_def hw1_def t_def)
    moreover have "a \<in> set (sk_list (txq hw i))"
      using s by simp
    ultimately have run: "aml_txq_drop_skb i a retry hw = Some (if retry then retry_taken i a hw4 else hw4)"
      by (simp add: aml_txq_drop_skb_def h hw1_def [symmetric] hw2_def hw3_def hw4_def Let_def)
    have txq1: "txq hw1 = (txq hw)(i := t\<lparr>sk_list := us @ vs\<rparr>)"
      by (simp add: hw1_def t_def rm)
    have "txq hw2 = (txq hw)(i := t\<lparr>sk_list := us @ vs, txq_amsdu := am\<rparr>)"
      using big txq1 by (auto simp: hw2_def hwF_def am_def fun_eq_iff)
    then have txq4: "txq hw4 = (txq hw)(i := t\<lparr>sk_list := us @ vs, txq_amsdu := am\<rparr>)"
      by (simp add: hw3_def hw4_def)
    have sel1: "hwq hw1 = hwq hw" "ipc_env hw1 = ipc_env hw" "hdrs hw1 = hdrs hw" "retry_warned hw1 = retry_warned hw"
     "sta_table hw1 = sta_table hw" "vif_table hw1 = vif_table hw" "tx_desc_save hw1 = tx_desc_save hw" "jiffies hw1 = jiffies hw"
     "subframes hw1 = subframes hw"
      by (simp_all add: hw1_def)
    have sel2: "hwq hw2 = hwq hw" "ipc_env hw2 = ipc_env hw" "hdrs hw2 = hdrs hw" "retry_warned hw2 = retry_warned hw"
     "sta_table hw2 = sta_table hw" "vif_table hw2 = vif_table hw" "tx_desc_save hw2 = tx_desc_save hw" "jiffies hw2 = jiffies hw"
     "dom (subframes hw2) = dom (subframes hw) - set (am_hdrs h)"
      using sel1 few by (auto simp: hw2_def hwF_def split: if_splits)
    have sel4: "hwq hw4 = hwq hw" "ipc_env hw4 = ipc_env hw" "hdrs hw4 = (hdrs hw)(a := None)" "retry_warned hw4 = retry_warned hw"
     "sta_table hw4 = sta_table hw" "vif_table hw4 = vif_table hw" "tx_desc_save hw4 = tx_desc_save hw" "jiffies hw4 = jiffies hw"
     "subframes hw4 = subframes hw2"
      using sel2 by (simp_all add: hw3_def hw4_def)
    have txq5: "txq (if retry then retry_taken i a hw4 else hw4) = (txq hw)(i := t'\<lparr>txq_amsdu := am\<rparr>)"
      using txq4 by (auto simp: retry_taken_def t'_def Let_def)
    show ?thesis
      by (rule that [OF run txq5]) (use sel4 sel2(9) txq4 nw in \<open>auto simp: retry_taken_def Let_def t_def\<close>)
  qed
  have t': "t'\<lparr>txq_amsdu := am\<rparr> = t\<lparr>sk_list := us @ vs, last_retry_skb := last_retry_skb t', nb_retry := nb_retry t', txq_amsdu := am\<rparr>"
    by (simp add: t'_def)
  have "retry_ok t' (us @ vs)"
  proof (cases retry)
    case True
    then have "nb_retry t \<noteq> 0" "us = []"
      using r by (auto simp: t_def)
    with ro retry_ok_pop(1) [of t a vs] True show ?thesis
      by (auto simp: t'_def retry_ok_def prepared_def Let_def)
  next
    case False
    then have "nb_retry t \<le> int (length us)"
      using r by (auto simp: t_def)
    with ro False show ?thesis
      by (auto simp: t'_def retry_ok_def nth_append)
  qed
  then have ok: "retry_ok (t\<lparr>sk_list := us @ vs, last_retry_skb := last_retry_skb t', nb_retry := nb_retry t', txq_amsdu := am\<rparr>) (us @ vs)"
    by (simp add: retry_ok_def)
  have "\<not> retry_warned hw'"
    using retry_ok_pop(2) [of t a vs] ro r by (auto simp: hw' t_def)
  moreover have txq': "txq hw' = (txq hw)(i := (txq hw i)\<lparr>sk_list := us @ vs, last_retry_skb := last_retry_skb t',
      nb_retry := nb_retry t', txq_amsdu := am\<rparr>)"
    using hw'(2) t' by (simp only: t_def)
  moreover have "am = None \<or> am = txq_amsdu (txq hw i) \<and> am \<noteq> Some a"
    by (auto simp: am_def t_def)
  ultimately have "tx_inv pl 0 [] hw'"
    using hw'(3-5,9,11) by (intro tx_inv_remove [OF inv i s h _ ok [unfolded t_def]])
  moreover have "dropped_from i [a] (us @ vs) hw hw'"
    unfolding dropped_from_def using hw'(3-5,7-10) txq' by auto
  moreover have "nb_retry (txq hw' i) = nb_retry t - (if retry then 1 else 0)"
    using hw' by (simp add: t'_def)
  ultimately show ?thesis
    using hw'(1) by (simp add: t_def)
qed

lemma flush_ok:
  assumes "tx_inv pl 0 [] hw" and "i < NX_NB_TXQ" and "length (sk_list (txq hw i)) \<le> n"
  shows "\<exists>hw'. flush_loop n i hw = Some hw' \<and> tx_inv pl 0 [] hw' \<and> dropped_from i (sk_list (txq hw i)) [] hw hw'"
  using assms
proof (induction n arbitrary: hw)
  case 0
  then show ?case
    by (auto intro: dropped_refl)
next
  case (Suc n)
  show ?case
  proof (cases "sk_list (txq hw i)")
    case Nil
    with Suc.prems show ?thesis
      by (auto intro: dropped_refl)
  next
    case (Cons a vs)
    have "0 \<le> nb_retry (txq hw i)"
      using tx_inv_txq [OF Suc.prems(1,2)] by (simp add: txq_ok_def retry_ok_def)
    then obtain hw1 where hw1: "aml_txq_drop_skb i a (nb_retry (txq hw i) \<noteq> 0) hw = Some hw1" "tx_inv pl 0 [] hw1"
        "dropped_from i [a] vs hw hw1"
      using drop_ok [OF Suc.prems(1,2), of "[]" a vs "nb_retry (txq hw i) \<noteq> 0"] Cons
      by (cases "nb_retry (txq hw i) = 0") auto
    have "sk_list (txq hw1 i) = vs"
      using dropped_fields(2) [OF hw1(3)] .
    with Suc.IH [OF hw1(2) Suc.prems(2)] Suc.prems(3) Cons obtain hw2
      where hw2: "flush_loop n i hw1 = Some hw2" "tx_inv pl 0 [] hw2" "dropped_from i vs [] hw1 hw2"
      by auto
    with dropped_trans [OF hw1(3) hw2(3)] hw1(1) Cons show ?thesis
      by simp
  qed
qed

section \<open>Setting up and tearing down\<close>

text \<open>A change of a queue that is in no list.\<close>

lemma tx_inv_idle_upd:
  assumes inv: "tx_inv pl k p hw" and i: "i < NX_NB_TXQ"
    and keep: "sk_list (f (txq hw i)) = sk_list (txq hw i)" "pkt_pushed (f (txq hw i)) = pkt_pushed (txq hw i)"
      "txq_amsdu (f (txq hw i)) = txq_amsdu (txq hw i) \<or> txq_amsdu (f (txq hw i)) = None"
    and idle: "\<not> aml_txq_is_scheduled (txq hw i)" "\<not> aml_txq_is_scheduled (f (txq hw i))"
    and hwq: "txq_hwq (f (txq hw i)) = txq_hwq (txq hw i) \<or> pkt_pushed (txq hw i) = 0"
    and ok: "txq_ok i (f (txq hw i)) (waiting k p hw i)"
  shows "tx_inv pl k p (upd_txq i f hw)" (is "tx_inv pl k p ?hw")
proof -
  have w: "waiting k p ?hw = waiting k p hw"
    using keep(1) by (rule waiting_upd_txq)
  have "all_waiting k p ?hw = all_waiting k p hw"
    by (simp add: all_waiting_def w)
  moreover have "fw_ok ?hw"
  proof (rule fw_ok_mono)
    show "fw_ok hw"
      using inv by (simp add: tx_inv_def frames_ok_def)
  next
    fix a h
    assume a: "a \<in> set (fw_frames (ipc_env ?hw))" "hdrs hw a = Some h"
    show "txq_hwq (txq ?hw (hdr_txq h)) = txq_hwq (txq hw (hdr_txq h))"
    proof (cases "hdr_txq h = i")
      case True
      with a have "a \<in> set (filter (\<lambda>a. map_option hdr_txq (hdrs hw a) = Some i) (fw_frames (ipc_env hw)))"
        by simp
      from length_pos_if_in_set [OF this] have "fw_of_txq hw i \<noteq> 0"
        by (simp add: fw_of_txq_def)
      then have "pkt_pushed (txq hw i) \<noteq> 0"
        using inv i by (simp add: tx_inv_def)
      with True hwq show ?thesis
        by simp
    qed simp
  qed simp_all
  ultimately have frames: "frames_ok k p ?hw"
    using inv by (simp add: tx_inv_def frames_ok_def w)
  have counts: "fw_of_txq ?hw = fw_of_txq hw" "fw_of_hwq ?hw = fw_of_hwq hw"
    by (rule ext, simp add: fw_of_txq_def fw_of_hwq_def)+
  have member: "aml_txq_is_scheduled (txq ?hw j) \<and> txq_hwq (txq ?hw j) = q \<longleftrightarrow>
      aml_txq_is_scheduled (txq hw j) \<and> txq_hwq (txq hw j) = q" for j q
    using idle by simp
  have "hwq_ok ?hw q" if q: "q < NX_TXQ_CNT" for q
  proof -
    have "hwq_ok hw q"
      using inv q by (simp add: tx_inv_def)
    then show ?thesis
      unfolding hwq_ok_def counts member by simp
  qed
  moreover have "txq_ok j (txq ?hw j) (waiting k p ?hw j) \<and> amsdu_ok ?hw (txq ?hw j) (waiting k p ?hw j) \<and>
      pkt_pushed (txq ?hw j) = int (fw_of_txq ?hw j)" if j: "j < NX_NB_TXQ" for j
    using inv ok j keep by (cases "j = i") (auto simp: tx_inv_def amsdu_ok_def w counts)
  ultimately show ?thesis
    using inv frames by (simp add: tx_inv_def subframes_ok_def desc_ok_def)
qed

lemma del_fields [simp]:
  "hdrs (aml_txq_del_from_hw_list i hw) = hdrs hw" "ipc_env (aml_txq_del_from_hw_list i hw) = ipc_env hw"
  "sta_table (aml_txq_del_from_hw_list i hw) = sta_table hw" "vif_table (aml_txq_del_from_hw_list i hw) = vif_table hw"
  "tx_desc_save (aml_txq_del_from_hw_list i hw) = tx_desc_save hw" "jiffies (aml_txq_del_from_hw_list i hw) = jiffies hw"
  "idx (txq (aml_txq_del_from_hw_list i hw) j) = idx (txq hw j)"
  "sk_list (txq (aml_txq_del_from_hw_list i hw) j) = sk_list (txq hw j)"
  "pkt_pushed (txq (aml_txq_del_from_hw_list i hw) j) = pkt_pushed (txq hw j)"
  "txq_hwq (txq (aml_txq_del_from_hw_list i hw) j) = txq_hwq (txq hw j)"
  "\<not> aml_txq_is_scheduled (txq (aml_txq_del_from_hw_list i hw) i)"
  "j \<noteq> i \<Longrightarrow> txq (aml_txq_del_from_hw_list i hw) j = txq hw j"
  by (simp_all add: aml_txq_del_from_hw_list_def status_bits)

lemma deinit_ok:
  assumes inv: "tx_inv pl 0 [] hw" and i: "i < NX_NB_TXQ"
  shows "\<exists>hw'. aml_txq_deinit i hw = Some hw' \<and> tx_inv pl 0 [] hw' \<and> idx (txq hw' i) = TXQ_INACTIVE \<and>
     (\<forall>j. j \<noteq> i \<longrightarrow> txq hw' j = txq hw j) \<and> ipc_env hw' = ipc_env hw \<and> sta_table hw' = sta_table hw \<and>
     vif_table hw' = vif_table hw \<and> pkt_pushed (txq hw' i) = pkt_pushed (txq hw i)"
proof (cases "idx (txq hw i) = TXQ_INACTIVE")
  case True
  with inv show ?thesis
    by (simp add: aml_txq_deinit_def)
next
  case False
  let ?hw1 = "aml_txq_del_from_hw_list i hw"
  from flush_ok [OF del_inv [OF inv i] i, of "length (sk_list (txq hw i))"] obtain hw2
    where hw2: "aml_txq_flush i ?hw1 = Some hw2" "tx_inv pl 0 [] hw2" "dropped_from i (sk_list (txq hw i)) [] ?hw1 hw2"
    by (auto simp: aml_txq_flush_def)
  note d = dropped_fields [OF hw2(3)]
  have un: "\<not> aml_txq_is_scheduled (txq hw2 i)"
    using del_fields(11) [of i hw] by (simp add: aml_txq_is_scheduled_def d(3))
  have "txq_ok i (txq hw2 i) []" "retry_ok (txq hw2 i) []"
    using tx_inv_txq [OF hw2(2) i] d(2) by (simp_all add: waiting_def txq_ok_def)
  then have "txq_ok i ((txq hw2 i)\<lparr>idx := TXQ_INACTIVE\<rparr>) []"
    using un by (simp add: txq_ok_def retry_ok_def aml_txq_is_scheduled_def)
  then have "tx_inv pl 0 [] (upd_txq i (\<lambda>t. t\<lparr>idx := TXQ_INACTIVE\<rparr>) hw2)"
    using un d(2) by (intro tx_inv_idle_upd [OF hw2(2) i]) (simp_all add: aml_txq_is_scheduled_def waiting_def)
  moreover have "aml_txq_deinit i hw = Some (upd_txq i (\<lambda>t. t\<lparr>idx := TXQ_INACTIVE\<rparr>) hw2)"
    using False hw2(1) by (simp add: aml_txq_deinit_def)
  ultimately show ?thesis
    using d(1,7) hw2(3) by (auto simp: dropped_from_def)
qed

lemma init_ok:
  assumes inv: "tx_inv pl 0 [] hw" and i: "i < NX_NB_TXQ"
    and off: "idx (txq hw i) = TXQ_INACTIVE" and pp: "pkt_pushed (txq hw i) = 0"
    and st: "\<not> bit st 0" and q: "q < NX_TXQ_CNT"
      "NX_FIRST_VIF_TXQ_IDX \<le> i \<and> i < NX_FIRST_UNK_TXQ_IDX \<longrightarrow> q = AML_HWQ_BE"
    and s: "i < NX_FIRST_VIF_TXQ_IDX \<longrightarrow> s \<noteq> None"
  shows "\<exists>hw'. aml_txq_init i i st q t s nd hw = Some hw' \<and> tx_inv pl 0 [] hw' \<and> idx (txq hw' i) = i \<and>
     \<not> aml_txq_is_scheduled (txq hw' i) \<and>
     (\<forall>j. j \<noteq> i \<longrightarrow> txq hw' j = txq hw j) \<and> ipc_env hw' = ipc_env hw \<and> sta_table hw' = sta_table hw \<and> vif_table hw' = vif_table hw"
proof -
  have ok: "txq_ok i (txq hw i) (sk_list (txq hw i))"
    using tx_inv_txq [OF inv i] by (simp add: waiting_def)
  then have e: "sk_list (txq hw i) = []" and un: "\<not> aml_txq_is_scheduled (txq hw i)"
    using off by (auto simp: txq_ok_def)
  have "txq_amsdu (txq hw i) = None"
    using inv i e unfolding tx_inv_def amsdu_ok_def waiting_def by fastforce
  moreover obtain net where "aml_txq_init i i st q t s nd hw = Some (upd_txq i (\<lambda>_. \<lparr>idx = i, status = ucast st,
       txq_credits = NX_TXQ_INITIAL_CREDITS, pkt_sent = 0, push_limit = 0, pkt_pushed = 0, sk_list = [],
       last_retry_skb = None, txq_hwq = q, nb_retry = 0, txq_tid = t, txq_sta = s, ps_id = LEGACY_PS_ID, ndev_idx = net, ndev = nd,
       txq_amsdu = None, amsdu_len = 0\<rparr>) hw)"
  proof (cases "i < NX_FIRST_VIF_TXQ_IDX")
    case True
    with s obtain p where "s = Some p"
      by blast
    with True show ?thesis
      by (intro that) (simp add: aml_txq_init_def Let_def)
  next
    case False
    then show ?thesis
      by (cases "i < NX_FIRST_UNK_TXQ_IDX") (intro that, simp add: aml_txq_init_def)+
  qed
  moreover have "\<not> bit (ucast st :: u16) 0"
    using st by (simp add: bit_ucast_iff)
  moreover have "i \<noteq> TXQ_INACTIVE"
    using i by (simp add: txq_layout_defs)
  ultimately show ?thesis
    using e un pp q by (auto simp: waiting_def txq_ok_def retry_ok_def status_bits NX_TXQ_INITIAL_CREDITS_def TX_MAX_CNT_def
        intro!: tx_inv_idle_upd [OF inv i])
qed

section \<open>Operations on several queues\<close>

text \<open>What linking and unlinking may change.\<close>

definition relinked :: "tx_hw \<Rightarrow> tx_hw \<Rightarrow> bool" where
  "relinked hw hw' \<longleftrightarrow> (\<exists>st q n. hw' = hw\<lparr>txq := (\<lambda>i. (txq hw i)\<lparr>status := st i\<rparr>), hwq := q, aml_tx_sem := n\<rparr>)"

lemma relinkedI: "hw' = hw\<lparr>txq := (\<lambda>i. (txq hw i)\<lparr>status := st i\<rparr>), hwq := q, aml_tx_sem := n\<rparr> \<Longrightarrow> relinked hw hw'"
  unfolding relinked_def by blast

lemma relinked_refl [simp, intro]: "relinked hw hw"
  by (rule relinkedI [where st = "\<lambda>i. status (txq hw i)" and q = "hwq hw" and n = "aml_tx_sem hw"]) (cases hw, simp)

lemma relinked_trans [trans]: "relinked hw hw1 \<Longrightarrow> relinked hw1 hw2 \<Longrightarrow> relinked hw hw2"
  unfolding relinked_def by (elim exE) (auto intro!: exI)

lemma relinked_fields:
  assumes "relinked hw hw'"
  shows "hdrs hw' = hdrs hw" "subframes hw' = subframes hw" "ipc_env hw' = ipc_env hw" "sta_table hw' = sta_table hw"
    "vif_table hw' = vif_table hw" "tx_desc_save hw' = tx_desc_save hw" "jiffies hw' = jiffies hw" "txq_cleanup hw' = txq_cleanup hw"
    "sk_list (txq hw' j) = sk_list (txq hw j)" "idx (txq hw' j) = idx (txq hw j)" "txq_credits (txq hw' j) = txq_credits (txq hw j)"
    "pkt_pushed (txq hw' j) = pkt_pushed (txq hw j)" "txq_hwq (txq hw' j) = txq_hwq (txq hw j)"
    "nb_retry (txq hw' j) = nb_retry (txq hw j)" "last_retry_skb (txq hw' j) = last_retry_skb (txq hw j)"
    "push_limit (txq hw' j) = push_limit (txq hw j)" "txq_amsdu (txq hw' j) = txq_amsdu (txq hw j)" "ps_id (txq hw' j) = ps_id (txq hw j)"
    "txq_sta (txq hw' j) = txq_sta (txq hw j)" "amsdu_len (txq hw' j) = amsdu_len (txq hw j)"
  using assms unfolding relinked_def by auto

lemma relinked_upd:
  "f (txq hw i) = (txq hw i)\<lparr>status := s\<rparr> \<Longrightarrow> relinked hw (upd_txq i f hw)"
  by (rule relinkedI [where st = "\<lambda>j. if j = i then s else status (txq hw j)" and q = "hwq hw" and n = "aml_tx_sem hw"])
    (cases hw, auto simp: upd_txq_def fun_eq_iff)

lemma relinked_hwq: "relinked hw (upd_hwq q g hw)"
  by (rule relinkedI [where st = "\<lambda>j. status (txq hw j)" and q = "(hwq hw)(q := g (hwq hw q))" and n = "aml_tx_sem hw"])
    (cases hw, simp add: upd_hwq_def)

lemma relinked_sem: "relinked hw (hw\<lparr>aml_tx_sem := n\<rparr>)"
  by (rule relinkedI [where st = "\<lambda>j. status (txq hw j)" and q = "hwq hw" and n = n]) (cases hw, simp)

lemma relinked_del [simp]: "relinked hw (aml_txq_del_from_hw_list i hw)"
  unfolding aml_txq_del_from_hw_list_def
  by (auto intro: relinked_trans [OF relinked_upd [where s = "status (txq hw i) AND NOT AML_TXQ_IN_HWQ_LIST"] relinked_hwq])

lemma relinked_stop [simp]: "relinked hw (aml_txq_stop i r hw)"
  unfolding aml_txq_stop_def
  by (auto intro: relinked_trans [OF relinked_upd [where s = "status (txq hw i) OR r"] relinked_del])

lemma relinked_add:
  assumes "aml_bus_type pl \<noteq> PCIE_MODE" and "aml_txq_add_to_hw_list pl i hw = Some hw'"
  shows "relinked hw hw'"
proof -
  define hw1 where "hw1 = (if \<not> aml_txq_is_scheduled (txq hw i) \<and> 0 < txq_credits (txq hw i) \<and> aml_txq_skb_ready (txq hw i)
    then upd_hwq (txq_hwq (txq hw i)) (\<lambda>h. h\<lparr>hwq_list := hwq_list h @ [i], need_processing := True\<rparr>)
           (upd_txq i (\<lambda>t. t\<lparr>status := status t OR AML_TXQ_IN_HWQ_LIST\<rparr>) hw) else hw)"
  have "relinked hw hw1"
    unfolding hw1_def
    by (auto intro: relinked_trans [OF relinked_upd [where s = "status (txq hw i) OR AML_TXQ_IN_HWQ_LIST"] relinked_hwq])
  moreover have "hw' = hw \<or> hw' = hw1 \<or> hw' = hw1\<lparr>aml_tx_sem := aml_tx_sem hw1 + 1\<rparr>"
    using assms unfolding aml_txq_add_to_hw_list_def Let_def hw1_def by (auto split: if_splits)
  ultimately show ?thesis
    by (auto intro: relinked_trans [OF _ relinked_sem])
qed

lemma relinked_start:
  assumes "aml_bus_type pl \<noteq> PCIE_MODE" and "aml_txq_start pl i r hw = Some hw'"
  shows "relinked hw hw'"
  using assms
  by (auto simp: aml_txq_start_def split: if_splits
      dest!: relinked_add intro: relinked_trans [OF relinked_upd [where s = "status (txq hw i) AND NOT r"]])

lemma each_txq_ok:
  assumes "\<And>i hw. i \<in> set is \<Longrightarrow> P hw \<Longrightarrow> \<exists>hw'. f i hw = Some hw' \<and> P hw'" and "P hw"
  shows "\<exists>hw'. each_txq f is hw = Some hw' \<and> P hw'"
  using assms
proof (induction "is" arbitrary: hw)
  case (Cons i "is")
  from Cons.prems(1) [of i hw] Cons.prems(2) obtain hw1 where "f i hw = Some hw1" "P hw1"
    by auto
  with Cons show ?case
    by simp
qed simp

text \<open>The tables that the queues of stations and interfaces are computed from.\<close>

definition sta_ok :: "tx_hw \<Rightarrow> nat \<Rightarrow> bool" where
  "sta_ok hw p \<longleftrightarrow> sta_vif_idx (sta_table hw p) < NX_VIRT_DEV_MAX"

definition vif_ok :: "tx_hw \<Rightarrow> nat \<Rightarrow> bool" where
  "vif_ok hw v \<longleftrightarrow> master_vif_idx (vif_table hw v) (vif_index (vif_table hw (vlan_master (vif_table hw v)))) < NX_VIRT_DEV_MAX"

lemma sta_get_ok:
  assumes "sta_ok hw p"
  shows "\<exists>i. aml_txq_sta_get hw (Some p) t = Some i \<and> i < NX_NB_TXQ \<and>
     (is_multicast_sta (sta_idx (sta_table hw p)) \<longrightarrow> NX_FIRST_VIF_TXQ_IDX \<le> i \<and> i < NX_FIRST_UNK_TXQ_IDX)"
  using assms by (auto simp: aml_txq_sta_get_def aml_txq_sta_idx_def sta_ok_def is_multicast_sta_def txq_at_def txq_layout_defs)

lemma foreach_ok:
  assumes "sta_ok hw p"
  shows "\<exists>is. foreach_sta_txq hw (Some p) = Some is \<and> (\<forall>i\<in>set is. i < NX_NB_TXQ) \<and> is \<noteq> []"
  using assms by (auto simp: foreach_sta_txq_def aml_txq_sta_get_def aml_txq_sta_idx_def sta_ok_def is_multicast_sta_def
      txq_at_def txq_layout_defs)

lemma vif_get_ok:
  assumes "vif_ok hw v"
  shows "\<exists>i. aml_txq_vif_get hw v ty = Some i \<and> i < NX_NB_TXQ"
  using assms by (auto simp: aml_txq_vif_get_def aml_txq_vif_idx_def vif_ok_def txq_at_def txq_layout_defs)

lemma sta_stop_ok:
  assumes inv: "tx_inv pl 0 [] hw" and p: "sta_ok hw p" and r: "\<not> bit r 0"
  shows "\<exists>hw'. aml_txq_sta_stop (Some p) r hw = Some hw' \<and> tx_inv pl 0 [] hw' \<and> relinked hw hw'"
proof -
  obtain "is" where "is": "foreach_sta_txq hw (Some p) = Some is" "\<forall>i\<in>set is. i < NX_NB_TXQ"
    using foreach_ok [OF p] by blast
  have "\<exists>hw'. each_txq (\<lambda>i hw. Some (aml_txq_stop i r hw)) is hw = Some hw' \<and> tx_inv pl 0 [] hw' \<and> relinked hw hw'"
    by (rule each_txq_ok) (use "is" inv r in \<open>auto intro: stop_inv relinked_trans [OF _ relinked_stop]\<close>)
  with "is" show ?thesis
    by (simp add: aml_txq_sta_stop_def)
qed

lemma sta_start_ok:
  assumes inv: "tx_inv pl 0 [] hw" and p: "sta_ok hw p" and r: "\<not> bit r 0"
  shows "\<exists>hw'. aml_txq_sta_start pl (Some p) r hw = Some hw' \<and> tx_inv pl 0 [] hw' \<and> relinked hw hw'"
proof -
  obtain "is" where "is": "foreach_sta_txq hw (Some p) = Some is" "\<forall>i\<in>set is. i < NX_NB_TXQ"
    using foreach_ok [OF p] by blast
  have bus: "aml_bus_type pl \<noteq> PCIE_MODE"
    using inv by (simp add: tx_inv_def)
  have "\<exists>hw'. each_txq (\<lambda>i. aml_txq_start pl i r) is hw = Some hw' \<and> tx_inv pl 0 [] hw' \<and> relinked hw hw'"
  proof (rule each_txq_ok)
    fix i hw1
    assume "i \<in> set is" "tx_inv pl 0 [] hw1 \<and> relinked hw hw1"
    moreover from this obtain hw2 where "aml_txq_start pl i r hw1 = Some hw2" "tx_inv pl 0 [] hw2"
      using start_inv [OF _ _ r, of pl 0 "[]" hw1 i] "is"(2) by auto
    ultimately show "\<exists>hw'. aml_txq_start pl i r hw1 = Some hw' \<and> tx_inv pl 0 [] hw' \<and> relinked hw hw'"
      using relinked_start [OF bus] relinked_trans by blast
  qed (use inv in simp)
  with "is" show ?thesis
    by (simp add: aml_txq_sta_start_def)
qed

section \<open>Queueing next to another frame\<close>

lemma waiting_distinct:
  assumes "tx_inv pl 0 [] hw" and "i < NX_NB_TXQ"
  shows "distinct (sk_list (txq hw i))"
proof -
  have "distinct (all_waiting 0 [] hw)"
    using assms(1) by (simp add: tx_inv_def frames_ok_def)
  then show ?thesis
    using assms(2) unfolding all_waiting_def distinct_concat_iff by (auto simp: waiting_def)
qed

lemma insert_after_unique:
  "p \<notin> set us \<Longrightarrow> insert_after p a (us @ p # vs) = Some (us @ p # a # vs)"
  by (induction us) auto

text \<open>What queueing changes.\<close>

definition queued_at :: "nat \<Rightarrow> addr list \<Rightarrow> tx_hw \<Rightarrow> tx_hw \<Rightarrow> bool" where
  "queued_at i xs hw hw' \<longleftrightarrow>
     hdrs hw' = hdrs hw \<and> subframes hw' = subframes hw \<and> ipc_env hw' = ipc_env hw \<and> tx_desc_save hw' = tx_desc_save hw \<and>
     vif_table hw' = vif_table hw \<and> (\<forall>p. sta_vif_idx (sta_table hw' p) = sta_vif_idx (sta_table hw p)) \<and>
     (\<forall>p. sta_idx (sta_table hw' p) = sta_idx (sta_table hw p)) \<and>
     (\<forall>j. sk_list (txq hw' j) = (if j = i then xs else sk_list (txq hw j)) \<and> idx (txq hw' j) = idx (txq hw j) \<and>
          txq_credits (txq hw' j) = txq_credits (txq hw j) \<and> pkt_pushed (txq hw' j) = pkt_pushed (txq hw j) \<and>
          txq_hwq (txq hw' j) = txq_hwq (txq hw j) \<and> txq_amsdu (txq hw' j) = txq_amsdu (txq hw j) \<and>
          (j \<noteq> i \<longrightarrow> nb_retry (txq hw' j) = nb_retry (txq hw j)))"

lemma ps_queued_tables [simp]:
  "sta_vif_idx (sta_table (ps_frame_queued i hw) p) = sta_vif_idx (sta_table hw p)"
  "sta_idx (sta_table (ps_frame_queued i hw) p) = sta_idx (sta_table hw p)"
  "vif_table (ps_frame_queued i hw) = vif_table hw" "tx_desc_save (ps_frame_queued i hw) = tx_desc_save hw"
  by (simp_all add: ps_frame_queued_def Let_def aml_set_traffic_status_def split: option.split)

lemma cleanup_timer_fields [simp]:
  "txq (aml_txq_start_cleanup_timer s hw) = txq hw" "hdrs (aml_txq_start_cleanup_timer s hw) = hdrs hw"
  "subframes (aml_txq_start_cleanup_timer s hw) = subframes hw" "ipc_env (aml_txq_start_cleanup_timer s hw) = ipc_env hw"
  "tx_desc_save (aml_txq_start_cleanup_timer s hw) = tx_desc_save hw" "vif_table (aml_txq_start_cleanup_timer s hw) = vif_table hw"
  "sta_table (aml_txq_start_cleanup_timer s hw) = sta_table hw"
  by (simp_all add: aml_txq_start_cleanup_timer_def split: option.split)

lemma insert_fields:
  assumes "insert_skb i a retry prev hw = Some hw'"
  shows "queued_at i (sk_list (txq hw' i)) hw hw'"
    "\<not> retry \<Longrightarrow> nb_retry (txq hw' i) = nb_retry (txq hw i)"
  using assms by (auto simp: insert_skb_def queued_at_def Let_def split: if_splits option.splits Option.bind_splits)

lemma flow_control_more [simp]:
  "idx (txq (aml_netif_txq_flow_control i hw) j) = idx (txq hw j)"
  "pkt_pushed (txq (aml_netif_txq_flow_control i hw) j) = pkt_pushed (txq hw j)"
  "nb_retry (txq (aml_netif_txq_flow_control i hw) j) = nb_retry (txq hw j)"
  "last_retry_skb (txq (aml_netif_txq_flow_control i hw) j) = last_retry_skb (txq hw j)"
  "txq_amsdu (txq (aml_netif_txq_flow_control i hw) j) = txq_amsdu (txq hw j)"
  "subframes (aml_netif_txq_flow_control i hw) = subframes hw"
  by (simp_all add: aml_netif_txq_flow_control_def Let_def)

lemma queued_at_ps: "queued_at i xs (ps_frame_queued i hw) hw' \<Longrightarrow> queued_at i xs hw hw'"
  by (simp add: queued_at_def)

lemma queued_at_flow: "queued_at i xs hw hw' \<Longrightarrow> queued_at i xs hw (aml_netif_txq_flow_control i hw')"
  by (simp add: queued_at_def)

lemma queued_at_link: "queued_at i xs hw hw1 \<Longrightarrow> relinked hw1 hw2 \<Longrightarrow> queued_at i xs hw hw2"
  unfolding relinked_def queued_at_def by (elim exE) simp

lemma queue_fields:
  assumes "aml_bus_type pl \<noteq> PCIE_MODE" and "aml_txq_queue_skb pl i a retry prev hw = Some hw'"
  shows "queued_at i (sk_list (txq hw' i)) hw hw'" "\<not> retry \<Longrightarrow> nb_retry (txq hw' i) = nb_retry (txq hw i)"
proof -
  obtain hw1 where hw1: "insert_skb i a retry prev (ps_frame_queued i hw) = Some hw1"
      "aml_txq_add_to_hw_list pl i (aml_netif_txq_flow_control i hw1) = Some hw'"
    using assms(2) by (auto simp: aml_txq_queue_skb_def split: Option.bind_splits)
  note rl = relinked_add [OF assms(1) hw1(2)]
  note r = relinked_fields [OF rl, simplified]
  note q = queued_at_link [OF queued_at_flow [OF queued_at_ps [OF insert_fields(1) [OF hw1(1)]]] rl]
  have "sk_list (txq hw' i) = sk_list (txq hw1 i)"
    by (simp only: r)
  with q show "queued_at i (sk_list (txq hw' i)) hw hw'"
    by simp
  show "nb_retry (txq hw' i) = nb_retry (txq hw i)" if "\<not> retry"
    using insert_fields(2) [OF hw1(1) that] by (simp only: r ps_queued_fields)
qed

lemma queue_ok_full:
  assumes held: "tx_inv_with pl a hw" and h: "hdrs hw a = Some h" "hdr_txq h = i"
    and act: "idx (txq hw i) \<noteq> TXQ_INACTIVE"
  shows "\<exists>hw'. aml_txq_queue_skb pl i a retry None hw = Some hw' \<and> tx_inv pl 0 [] hw' \<and>
     queued_at i (sk_list (txq hw' i)) hw hw'"
  using queue_ok [OF assms, of retry] queue_fields(1) [of pl i a retry None hw] held by (auto simp: tx_inv_with_def tx_inv_def)

text \<open>After the frame \<open>p\<close>, which is not followed by a retry.\<close>

lemma queue_after_ok:
  assumes held: "tx_inv_with pl a hw" and h: "hdrs hw a = Some h" "hdr_txq h = i"
    and act: "idx (txq hw i) \<noteq> TXQ_INACTIVE"
    and s: "sk_list (txq hw i) = us @ p # vs" and n: "nb_retry (txq hw i) \<le> int (length us) + 1"
  shows "\<exists>hw'. aml_txq_queue_skb pl i a False (Some p) hw = Some hw' \<and> tx_inv pl 0 [] hw' \<and>
     queued_at i (us @ p # a # vs) hw hw' \<and> nb_retry (txq hw' i) = nb_retry (txq hw i)"
proof -
  have i: "i < NX_NB_TXQ" and inv0: "tx_inv pl 0 [] (without a h hw)"
    using tx_inv_withD(1,2) [OF held h(1)] h(2) by simp_all
  have bus: "aml_bus_type pl \<noteq> PCIE_MODE"
    using inv0 by (simp add: tx_inv_def)
  have ro: "retry_ok (txq hw i) (us @ p # vs)"
    using tx_inv_txq [OF inv0 i] by (simp add: txq_ok_def waiting_def s)
  have "distinct (us @ p # vs)"
    using waiting_distinct [OF inv0 i] by (simp add: s)
  then have ia: "insert_after p a (us @ p # vs) = Some (us @ p # a # vs)"
    by (intro insert_after_unique) simp
  let ?hw = "ps_frame_queued i hw"
  have held1: "tx_inv_with pl a ?hw"
    using held by (subst tx_inv_with_cong) simp_all
  define f where "f = (\<lambda>t. t\<lparr>sk_list := us @ p # a # vs\<rparr> :: aml_txq)"
  have "tx_inv pl 0 [] (upd_txq i f ?hw)"
  proof (rule tx_inv_insert [OF held1, where us = "us @ [p]" and vs = vs and l = "last_retry_skb (txq hw i)" and n = "nb_retry (txq hw i)"])
    show "retry_ok (f (txq ?hw i)) ((us @ [p]) @ a # vs)"
      using ro n by (auto simp: retry_ok_def f_def nth_append)
  qed (use h act s in \<open>simp_all add: f_def\<close>)
  then have inv1: "tx_inv pl 0 [] (aml_txq_start_cleanup_timer (txq_sta (txq hw i)) (upd_txq i f ?hw))"
    by simp
  have ins: "insert_skb i a False (Some p) ?hw = Some (aml_txq_start_cleanup_timer (txq_sta (txq hw i)) (upd_txq i f ?hw))"
    using ia by (simp add: insert_skb_def s f_def)
  from add_inv [OF flow_control_inv [OF inv1] i] obtain hw'
    where hw': "aml_txq_queue_skb pl i a False (Some p) hw = Some hw'" "tx_inv pl 0 [] hw'"
      "aml_txq_add_to_hw_list pl i (aml_netif_txq_flow_control i
         (aml_txq_start_cleanup_timer (txq_sta (txq hw i)) (upd_txq i f ?hw))) = Some hw'"
    using ins by (auto simp: aml_txq_queue_skb_def)
  note r = relinked_fields [OF relinked_add [OF bus hw'(3)]]
  have "sk_list (txq hw' i) = us @ p # a # vs"
    by (simp add: r f_def)
  with queue_fields [OF bus hw'(1)] hw'(1,2) show ?thesis
    by auto
qed

section \<open>Taking a frame back from the firmware\<close>

lemma confirm_any_fields [simp]:
  "hdrs (aml_txq_confirm_any i q hw) = hdrs hw" "ipc_env (aml_txq_confirm_any i q hw) = ipc_env hw"
  "subframes (aml_txq_confirm_any i q hw) = subframes hw" "sta_table (aml_txq_confirm_any i q hw) = sta_table hw"
  "vif_table (aml_txq_confirm_any i q hw) = vif_table hw" "tx_desc_save (aml_txq_confirm_any i q hw) = tx_desc_save hw"
  "sk_list (txq (aml_txq_confirm_any i q hw) j) = sk_list (txq hw j)" "idx (txq (aml_txq_confirm_any i q hw) j) = idx (txq hw j)"
  "txq_credits (txq (aml_txq_confirm_any i q hw) j) = txq_credits (txq hw j)"
  "retry_warned (aml_txq_confirm_any i q hw) = retry_warned hw"
  by (simp_all add: aml_txq_confirm_any_def Let_def)

lemma confirm_take:
  assumes inv: "tx_inv pl 0 [] hw" and pop: "ipc_host_tx_host_id_to_ptr_for_sdio_usb (ipc_env hw) c = (env, Some a)"
    and sent: "a \<notin> set (tx_desc_save hw)"
  obtains h where "hdrs hw a = Some h" and "a \<in> set (fw_frames (ipc_env hw))"
    and "tx_inv_with pl a (aml_txq_confirm_any (hdr_txq h) (hw_queue h) (hw\<lparr>ipc_env := env\<rparr>))"
    and "idx (txq hw (hdr_txq h)) \<noteq> TXQ_INACTIVE \<Longrightarrow>
      txq_credits (txq hw (hdr_txq h)) + pkt_pushed (txq (aml_txq_confirm_any (hdr_txq h) (hw_queue h) (hw\<lparr>ipc_env := env\<rparr>)) (hdr_txq h)) < TX_MAX_CNT"
    and "\<exists>xs ys. fw_frames (ipc_env hw) = xs @ a # ys \<and> fw_frames env = xs @ ys"
proof -
  have bus: "aml_bus_type pl \<noteq> PCIE_MODE" and hid: "hostid_inv pl (ipc_env hw)" and fr: "frames_ok 0 [] hw"
    and sub: "subframes_ok hw" and nw: "\<not> retry_warned hw" and de: "desc_ok hw"
    using inv by (auto simp: tx_inv_def)
  obtain xs ys where fw: "fw_frames (ipc_env hw) = xs @ a # ys" "fw_frames env = xs @ ys"
    using fw_frames_pop(1) [OF hid bus pop] by blast
  have hid': "hostid_inv pl env"
    by (rule fw_frames_pop(2) [OF hid bus pop])
  have "a \<in> set (fw_frames (ipc_env hw))"
    by (simp add: fw)
  moreover have "fw_ok hw"
    using fr by (simp add: frames_ok_def)
  ultimately obtain h where h: "hdrs hw a = Some h" and i: "hdr_txq h < NX_NB_TXQ" and qh: "hw_queue h = txq_hwq (txq hw (hdr_txq h))"
    using fw_okD by blast
  have q: "hw_queue h < NX_TXQ_CNT"
    using tx_inv_txq [OF inv i] by (simp add: qh txq_ok_def)
  define i where "i = hdr_txq h"
  define q where "q = hw_queue h"
  define hw1 where "hw1 = aml_txq_confirm_any i q (hw\<lparr>ipc_env := env\<rparr>)"
  define hw0 where "hw0 = without a h hw1"
  note iq = i [folded i_def] q [folded q_def]
  have dist: "distinct (all_waiting 0 [] hw @ xs @ a # ys)" and dom: "set (all_waiting 0 [] hw @ xs @ a # ys) = dom (hdrs hw)"
    using fr by (simp_all add: frames_ok_def fw)
  have old: "txq_ok j (txq hw j) (sk_list (txq hw j))" "amsdu_ok hw (txq hw j) (sk_list (txq hw j))"
    "pkt_pushed (txq hw j) = int (fw_of_txq hw j)" if "j < NX_NB_TXQ" for j
    using inv that by (simp_all add: tx_inv_def waiting_Nil)
  have oldq: "hwq_ok hw r" if "r < NX_TXQ_CNT" for r
    using inv that by (simp add: tx_inv_def)
  have pos: "0 < fw_of_txq hw i" "0 < fw_of_hwq hw q"
    using h by (simp_all add: fw_of_txq_def fw_of_hwq_def fw i_def q_def)
  have pp: "0 < pkt_pushed (txq hw i)"
    using old(3) [OF iq(1)] pos by simp
  have cr: "\<not> hwq_size (hwq hw q) < hwq_credits (hwq hw q)"
    using oldq [OF iq(2)] by (simp add: hwq_ok_def)
  have F: "txq hw1 = (txq hw)(i := (txq hw i)\<lparr>pkt_pushed := pkt_pushed (txq hw i) - 1\<rparr>)"
    "hwq hw1 = (hwq hw)(q := (hwq hw q)\<lparr>hwq_credits := hwq_credits (hwq hw q) + 1, need_processing := True\<rparr>)"
    "hdrs hw1 = hdrs hw" "ipc_env hw1 = env" "subframes hw1 = subframes hw" "retry_warned hw1 = retry_warned hw"
    "tx_desc_save hw1 = tx_desc_save hw"
    using pp cr by (simp_all add: hw1_def aml_txq_confirm_any_def Let_def upd_txq_def upd_hwq_def)
  have F0: "txq hw0 = txq hw1" "hwq hw0 = hwq hw1" "hdrs hw0 = (hdrs hw)(a := None)" "ipc_env hw0 = env"
    "subframes hw0 = subframes hw |` (- set (am_hdrs h))"
    "retry_warned hw0 = retry_warned hw" "tx_desc_save hw0 = tx_desc_save hw"
    by (simp_all add: hw0_def without_def F)
  have w: "waiting 0 [] hw0 = waiting 0 [] hw"
    by (rule ext) (simp add: waiting_def F0 F)
  have aw: "all_waiting 0 [] hw0 = all_waiting 0 [] hw"
    by (simp add: all_waiting_def w)
  have notin: "a \<notin> set (all_waiting 0 [] hw)" "a \<notin> set (xs @ ys)"
    using dist by auto
  have notw: "a \<notin> set (sk_list (txq hw j))" if "j < NX_NB_TXQ" for j
    using notin(1) that by (auto simp: all_waiting_def waiting_def)
  have frames: "frames_ok 0 [] hw0"
    unfolding frames_ok_def aw F0 w
  proof (intro conjI allI impI ballI)
    show "distinct (all_waiting 0 [] hw @ fw_frames env)"
      using dist by (simp add: fw)
    show "set (all_waiting 0 [] hw @ fw_frames env) = dom ((hdrs hw)(a := None))"
      using dom notin by (auto simp: fw)
  next
    fix j b
    assume "j < NX_NB_TXQ" "b \<in> set (waiting 0 [] hw j)"
    moreover from this have "b \<noteq> a"
      using notw by (auto simp: waiting_def)
    ultimately show "map_option hdr_txq (((hdrs hw)(a := None)) b) = Some j"
      using fr unfolding frames_ok_def by simp
  next
    show "fw_ok hw0"
    proof (rule fw_ok_mono)
      show "fw_ok hw"
        by fact
    qed (use notin in \<open>auto simp: F0 F fw\<close>)
  qed
  have filt: "filter (\<lambda>b. map_option k (((hdrs hw)(a := None)) b) = Some j) (xs @ ys) =
      filter (\<lambda>b. map_option k (hdrs hw b) = Some j) (xs @ ys)" for k :: "aml_sw_txhdr \<Rightarrow> nat" and j
    by (rule filter_unchanged [OF notin(2)])
  have fwt: "fw_of_txq hw j = fw_of_txq hw0 j + (if j = i then 1 else 0)" for j
    using h unfolding fw_of_txq_def F0 fw filt by (simp add: i_def)
  have fwq: "fw_of_hwq hw r = fw_of_hwq hw0 r + (if r = q then 1 else 0)" for r
    using h unfolding fw_of_hwq_def F0 fw filt by (simp add: q_def)
  have subs: "subframes_ok hw0"
    using sub h unfolding subframes_ok_def F0 by (rule subs_ok_remove) (auto split: if_splits)
  have descs: "desc_ok hw0"
    using de sent by (auto simp: desc_ok_def F0 fw)
  have txqs: "txq_ok j (txq hw0 j) (waiting 0 [] hw0 j) \<and> amsdu_ok hw0 (txq hw0 j) (waiting 0 [] hw0 j) \<and>
      pkt_pushed (txq hw0 j) = int (fw_of_txq hw0 j)" if j: "j < NX_NB_TXQ" for j
  proof -
    have "amsdu_ok hw0 (txq hw j) (sk_list (txq hw j))"
      using old(2) [OF j] notw [OF j] by (auto simp: amsdu_ok_def F0)
    moreover have "txq_ok j (txq hw1 j) (sk_list (txq hw j))"
      using old(1) [OF j] pp by (cases "j = i") (auto simp: F txq_ok_def retry_ok_def aml_txq_is_scheduled_def aml_txq_is_stopped_def)
    moreover have "pkt_pushed (txq hw1 j) = int (fw_of_txq hw0 j)"
      using old(3) [OF j] fwt [of j] by (auto simp: F)
    moreover have "txq_amsdu (txq hw1 j) = txq_amsdu (txq hw j)"
      by (simp add: F)
    ultimately show ?thesis
      unfolding w waiting_Nil F0(1) amsdu_ok_def by simp
  qed
  have hwqs: "hwq_ok hw0 r" if r: "r < NX_TXQ_CNT" for r
  proof -
    have sch: "aml_txq_is_scheduled (txq hw0 j) = aml_txq_is_scheduled (txq hw j)" "txq_hwq (txq hw0 j) = txq_hwq (txq hw j)" for j
      by (simp_all add: F0 F aml_txq_is_scheduled_def)
    show ?thesis
      using oldq [OF r] fwq [of r] unfolding hwq_ok_def sch by (cases "r = q") (simp_all add: F0 F)
  qed
  have "tx_inv pl 0 [] hw0"
    using bus hid' frames subs descs txqs hwqs nw by (simp add: tx_inv_def F0)
  moreover note subs_okD [OF sub [unfolded subframes_ok_def] h]
  ultimately have "tx_inv_with pl a hw1"
    using h iq(1) notin notw by (auto simp: tx_inv_with_def F hw0_def i_def fw)
  moreover have "idx (txq hw i) \<noteq> TXQ_INACTIVE \<Longrightarrow> txq_credits (txq hw i) + pkt_pushed (txq hw1 i) < TX_MAX_CNT"
    using old(1) [OF iq(1)] by (auto simp: F txq_ok_def)
  ultimately show thesis
    using that [OF h] fw by (auto simp: hw1_def i_def q_def)
qed

end
