(* ===== verification/Tx_Path.thy ===== *)
theory Tx_Path
  imports Txq
begin

text \<open>
  The TX path above the queues (aml_drv/fullmac/aml_tx.c) and the TX task of USB and SDIO
  (\<open>aml_tx_task\<close> of aml_utils.c): the power-save service periods, the aggregation of frames
  in A-MSDUs, the entry points for data and management frames, the packing of frames in bus
  transfers under the page credits of the firmware, the confirmations and the credit updates.

  The bytes of a socket buffer are in \<open>skb_data\<close>: the Ethernet or 802.11 frame as it was
  queued, and for a further subframe of an A-MSDU everything from the head of its buffer.
  What cfg80211 or the frame filters answer comes with the call that asks.
\<close>

section \<open>Traffic classes\<close>

definition aml_down_hwq2tid :: "nat list" where "aml_down_hwq2tid = [2, 3, 5]"

text \<open>The loop of \<open>aml_downgrade_ac\<close> from access category \<open>ac\<close> and a priority.\<close>

fun downgrade_loop :: "u8 \<Rightarrow> nat \<Rightarrow> nat \<Rightarrow> nat" where
  "downgrade_loop acm 0 priority = (if acm AND BIT 0 \<noteq> 0 then 1 else priority)"
| "downgrade_loop acm (Suc ac) priority =
     (if acm AND BIT (Suc ac) \<noteq> 0 then downgrade_loop acm ac (aml_down_hwq2tid ! ac) else priority)"

definition aml_downgrade_ac :: "u8 \<Rightarrow> nat \<Rightarrow> nat option" where
  "aml_downgrade_ac acm priority =
     (if priority < length aml_tid2hwq
      then Some (downgrade_loop acm (min (aml_tid2hwq ! priority) AML_HWQ_VO) priority) else None)"

section \<open>Power save\<close>

definition PS_SP_INTERRUPTED :: u16 where "PS_SP_INTERRUPTED = 255"

definition reset_push_limit :: "nat \<Rightarrow> tx_hw \<Rightarrow> tx_hw option" where
  "reset_push_limit i hw = Some (upd_txq i (\<lambda>t. t\<lparr>push_limit := 0\<rparr>) hw)"

definition count_ready :: "nat \<Rightarrow> nat \<Rightarrow> tx_hw \<Rightarrow> tx_hw option" where
  "count_ready p i hw =
     (let t = txq hw i in
      Some (upd_sta p (\<lambda>s. s\<lparr>pkt_ready := (pkt_ready s)(ps_id t := pkt_ready s (ps_id t) + of_nat (length (sk_list t)))\<rparr>) hw))"

text \<open>The traffic indications at the end of \<open>aml_ps_bh_enable\<close>.\<close>

definition ps_traffic_status :: "nat \<Rightarrow> bool \<Rightarrow> tx_hw \<Rightarrow> tx_hw" where
  "ps_traffic_status p available hw =
     (let hw1 = (if pkt_ready (sta_table hw p) LEGACY_PS_ID \<noteq> 0 then aml_set_traffic_status p available LEGACY_PS_ID hw else hw)
      in if pkt_ready (sta_table hw1 p) UAPSD_ID \<noteq> 0 then aml_set_traffic_status p available UAPSD_ID hw1 else hw1)"

definition aml_ps_bh_enable :: "plat \<Rightarrow> nat \<Rightarrow> bool \<Rightarrow> tx_hw \<Rightarrow> tx_hw option" where
  "aml_ps_bh_enable pl p enable hw =
     (if enable then do {
        hw \<leftarrow> aml_txq_sta_stop (Some p) AML_TXQ_STOP_STA_PS
               (upd_sta p (\<lambda>s. s\<lparr>ps_active := True, sp_cnt := (sp_cnt s)(LEGACY_PS_ID := 0, UAPSD_ID := 0)\<rparr>) hw);
        hw \<leftarrow> (if is_multicast_sta (sta_idx (sta_table hw p)) then do {
                 i \<leftarrow> aml_txq_sta_get hw (Some p) 0;
                 Some (upd_txq i (\<lambda>t. t\<lparr>txq_hwq := AML_HWQ_BE\<rparr>)
                   (upd_sta p (\<lambda>s. s\<lparr>pkt_ready := (pkt_ready s)
                      (LEGACY_PS_ID := of_nat (length (sk_list (txq hw i))), UAPSD_ID := 0)\<rparr>) hw))
               } else do {
                 is \<leftarrow> foreach_sta_txq hw (Some p);
                 each_txq (count_ready p) is
                   (upd_sta p (\<lambda>s. s\<lparr>pkt_ready := (pkt_ready s)(LEGACY_PS_ID := 0, UAPSD_ID := 0)\<rparr>) hw)
               });
        Some (ps_traffic_status p True hw)
      } else do {
        let hw = upd_sta p (\<lambda>s. s\<lparr>ps_active := False\<rparr>) hw;
        hw \<leftarrow> (if is_multicast_sta (sta_idx (sta_table hw p)) then do {
                 i \<leftarrow> aml_txq_sta_get hw (Some p) 0;
                 Some (upd_txq i (\<lambda>t. t\<lparr>txq_hwq := AML_HWQ_BE, push_limit := 0\<rparr>) hw)
               } else do {
                 is \<leftarrow> foreach_sta_txq hw (Some p);
                 each_txq reset_push_limit is hw
               });
        hw \<leftarrow> aml_txq_sta_start pl (Some p) AML_TXQ_STOP_STA_PS hw;
        Some (ps_traffic_status p False hw)
      })"

text \<open>The distribution of a request over the queues of the station, by priority.\<close>

fun sp_dispatch :: "plat \<Rightarrow> nat \<Rightarrow> nat \<Rightarrow> nat list \<Rightarrow> u16 \<Rightarrow> tx_hw \<Rightarrow> tx_hw option" where
  "sp_dispatch pl p ps [] pkt_req hw = Some hw"
| "sp_dispatch pl p ps (t # ts) pkt_req hw = do {
     i \<leftarrow> aml_txq_sta_get hw (Some p) t;
     let q = txq hw i;
     let txq_len = min (int (length (sk_list q))) (txq_credits q);
     if ps_id q \<noteq> ps \<or> txq_len = 0 then sp_dispatch pl p ps ts pkt_req hw
     else if txq_len < uint pkt_req then do {
       hw \<leftarrow> aml_txq_start pl i AML_TXQ_STOP_STA_PS
              (upd_sta p (\<lambda>s. s\<lparr>sp_cnt := (sp_cnt s)(ps := sp_cnt s ps + of_int txq_len)\<rparr>)
                (upd_txq i (\<lambda>t. t\<lparr>push_limit := txq_len\<rparr>) hw));
       sp_dispatch pl p ps ts (pkt_req - of_int txq_len) hw
     } else
       aml_txq_start pl i AML_TXQ_STOP_STA_PS
         (upd_sta p (\<lambda>s. s\<lparr>sp_cnt := (sp_cnt s)(ps := sp_cnt s ps + pkt_req)\<rparr>)
           (upd_txq i (\<lambda>t. t\<lparr>push_limit := uint pkt_req\<rparr>) hw))
   }"

definition aml_ps_bh_traffic_req :: "plat \<Rightarrow> nat option \<Rightarrow> u16 \<Rightarrow> nat \<Rightarrow> tx_hw \<Rightarrow> tx_hw option" where
  "aml_ps_bh_traffic_req pl s pkt_req ps hw = (case s of
     None \<Rightarrow> Some hw
   | Some p \<Rightarrow>
       if \<not> ps_active (sta_table hw p) then Some hw
       else if pkt_req = PS_SP_INTERRUPTED \<and> ps = UAPSD_ID then do {
         let hw = upd_sta p (\<lambda>s. s\<lparr>sp_cnt := (sp_cnt s)(ps := 0)\<rparr>) hw;
         is \<leftarrow> foreach_sta_txq hw (Some p);
         each_txq reset_push_limit is hw
       } else
         let pkt_ready_all = uint (pkt_ready (sta_table hw p) ps) - uint (sp_cnt (sta_table hw p) ps) in
         if sp_cnt (sta_table hw p) ps \<noteq> 0 \<or> pkt_ready_all \<le> 0 then Some hw
         else
           let pkt_req = (if pkt_req = 0 \<or> pkt_ready_all < uint pkt_req then of_int pkt_ready_all else pkt_req);
               hw = upd_sta p (\<lambda>s. s\<lparr>sp_cnt := (sp_cnt s)(ps := 0)\<rparr>) hw
           in if is_multicast_sta (sta_idx (sta_table hw p)) then do {
                i \<leftarrow> aml_txq_sta_get hw (Some p) 0;
                let c = txq_credits (txq hw i);
                if c \<le> 0 then Some hw
                else
                  let pkt_req = (if c < uint pkt_req then of_int c else pkt_req) in
                  aml_txq_start pl i AML_TXQ_STOP_STA_PS
                    (upd_sta p (\<lambda>s. s\<lparr>sp_cnt := (sp_cnt s)(ps := pkt_req)\<rparr>)
                      (upd_txq i (\<lambda>t. t\<lparr>push_limit := uint pkt_req\<rparr>) hw))
              } else sp_dispatch pl p ps nx_tid_prio pkt_req hw)"

section \<open>Retries\<close>

text \<open>\<open>union aml_hw_txstatus\<close>.\<close>

definition retry_required :: "u32 \<Rightarrow> bool" where "retry_required st \<longleftrightarrow> bit st 1"
definition sw_retry_required :: "u32 \<Rightarrow> bool" where "sw_retry_required st \<longleftrightarrow> bit st 2"
definition acknowledged :: "u32 \<Rightarrow> bool" where "acknowledged st \<longleftrightarrow> bit st 3"
definition status_sn :: "u32 \<Rightarrow> u16" where "status_sn st = ucast (take_bit 12 (drop_bit 4 st))"

record tx_cfm =
  cfm_credits :: int
  cfm_amsdu_size :: u16
  cfm_status :: u32

definition aml_tx_retry :: "plat \<Rightarrow> addr \<Rightarrow> tx_cfm \<Rightarrow> tx_hw \<Rightarrow> tx_hw option" where
  "aml_tx_retry pl a cfm hw = do {
     h \<leftarrow> hdrs hw a;
     let i = hdr_txq h;
     let hw = upd_hdr a (\<lambda>h. h\<lparr>tx_flags := tx_flags h AND NOT TXU_CNTRL_MORE_DATA\<rparr>) hw;
     let hw = (if retry_required (cfm_status cfm)
               then upd_hdr a (\<lambda>h. h\<lparr>tx_flags := tx_flags h OR TXU_CNTRL_REUSE_SN,
                                       sn_for_retry := status_sn (cfm_status cfm)\<rparr>) hw else hw);
     hw \<leftarrow> aml_txq_queue_skb pl i a True None hw;
     let hw = upd_txq i (\<lambda>t. t\<lparr>txq_credits := txq_credits t + cfm_credits cfm\<rparr>) hw;
     if 0 < txq_credits (txq hw i) then aml_txq_start pl i AML_TXQ_STOP_FULL hw else Some hw
   }"

section \<open>State of the device\<close>

text \<open>\<open>struct compact_tx_cfm_tag\<close>, the confirmation of USB and SDIO.\<close>

record compact_tx_cfm_tag =
  c_status :: u16
  c_amsdu_size :: u16
  c_hostid :: u32

text \<open>The queues with what surrounds them: the bytes and the free headroom of the socket
  buffers, the outcomes of the next allocations, the page credits and the A-MSDU staging
  buffers of the bus, the ring of confirmations with the cursor of its task, the transfers
  handed to the bus, and per interface the pending disconnection and the delayed status of a
  management frame (cookie and length).\<close>

record tx_dev =
  dev_hw :: tx_hw
  skb_data :: "addr \<Rightarrow> u8 list"
  skb_headroom :: "addr \<Rightarrow> nat"
  amsdu_maxnb :: int
  alloc_ok :: "bool list"
  tx_page_free_num :: u32
  tx_page_tot_num :: u32
  tot_page_num :: u32
  tx_page_once :: u8
  txcfm_trigger_tx_thr :: u8
  amsdu_buf_free :: nat
  amsdu_buf_used :: nat
  dynabuf_stop_tx :: bool
  send_tx_stop_to_fw :: bool
  tx_stop_notified :: nat
  frames_sent :: "addr list list"
  read_cfm :: "nat \<Rightarrow> compact_tx_cfm_tag"
  cfm_cur :: nat
  dev_txcfm_idx :: nat
  is_disconnect :: "nat \<Rightarrow> bool"
  tx_cfm_wait :: "nat \<Rightarrow> (addr \<times> u16) option"

definition set_hw :: "tx_dev \<Rightarrow> tx_hw \<Rightarrow> tx_dev" where
  "set_hw d hw = d\<lparr>dev_hw := hw\<rparr>"

text \<open>The next allocation; it succeeds when nothing else is said.\<close>

definition alloc :: "tx_dev \<Rightarrow> bool \<times> tx_dev" where
  "alloc d = (case alloc_ok d of [] \<Rightarrow> (True, d) | b # bs \<Rightarrow> (b, d\<lparr>alloc_ok := bs\<rparr>))"

section \<open>The bytes of an A-MSDU\<close>

definition ETH_HLEN :: nat where "ETH_HLEN = 14"
definition ETH_P_802_3_MIN :: nat where "ETH_P_802_3_MIN = 0x600"
definition rfc1042_header :: "u8 list" where "rfc1042_header = [0xaa, 0xaa, 0x03, 0x00, 0x00, 0x00]"

text \<open>\<open>sizeof(struct aml_amsdu_txhdr)\<close> on a 64-bit kernel, and the headroom that
  \<open>aml_start_xmit\<close> makes sure of.\<close>

definition AMSDU_TXHDR_SIZE :: nat where "AMSDU_TXHDR_SIZE = 56"
definition AML_TX_AMSDU_HEADROOM :: nat where "AML_TX_AMSDU_HEADROOM = AMSDU_TXHDR_SIZE + 14 + 4 + 8"
definition USB_AMSDU_BUF_LEN :: u16 where "USB_AMSDU_BUF_LEN = 4624"

lemmas amsdu_size_defs = ETH_HLEN_def ETH_P_802_3_MIN_def rfc1042_header_def AMSDU_TXHDR_SIZE_def
  AML_TX_AMSDU_HEADROOM_def USB_AMSDU_BUF_LEN_def NX_TX_PAYLOAD_MAX_def

text \<open>\<open>ntohs(eth->h_proto)\<close> of a frame that has an Ethernet header.\<close>

definition h_proto :: "u8 list \<Rightarrow> nat" where
  "h_proto d = unat (d ! 12) * 256 + unat (d ! 13)"

definition htons :: "nat \<Rightarrow> u8 list" where
  "htons n = [of_nat (n div 256), of_nat n]"

definition AMSDU_PADDING :: "nat \<Rightarrow> nat" where
  "AMSDU_PADDING x = (4 - x mod 4) mod 4"

definition llc_len :: "u8 list \<Rightarrow> nat" where
  "llc_len d = (if ETH_P_802_3_MIN \<le> h_proto d then length rfc1042_header + 2 else 0)"

definition aml_amsdu_subframe_length :: "u8 list \<Rightarrow> nat \<Rightarrow> nat" where
  "aml_amsdu_subframe_length d n = n + llc_len d"

text \<open>\<open>memcpy\<close>, \<open>memmove\<close> and \<open>memset\<close> into a buffer.\<close>

definition write_at :: "nat \<Rightarrow> u8 list \<Rightarrow> u8 list \<Rightarrow> u8 list" where
  "write_at off bs buf = take off buf @ bs @ drop (off + length bs) buf"

definition amsdu_headroom_need :: "nat \<Rightarrow> u8 list \<Rightarrow> nat" where
  "amsdu_headroom_need pad d = AMSDU_TXHDR_SIZE + pad + ETH_HLEN + llc_len d"

text \<open>What \<open>aml_amsdu_add_subframe_header\<close> writes in the buffer of a frame: the Ethernet
  header is moved out of the way, then padding, A-MSDU header and LLC/SNAP header follow. The
  bytes of \<open>struct aml_amsdu_txhdr\<close> itself stay unspecified (\<open>room\<close>).\<close>

definition amsdu_write_header :: "nat \<Rightarrow> u8 list \<Rightarrow> u8 list \<Rightarrow> u8 list" where
  "amsdu_write_header pad room d =
     (let buf = room @ d;
          msdu_len = length d - ETH_HLEN + llc_len d;
          eth = AMSDU_TXHDR_SIZE;
          buf = write_at eth (take ETH_HLEN (drop (length room) buf)) buf;
          pos = eth + ETH_HLEN;
          buf = write_at pos (replicate pad 0) buf;
          pos = pos + pad;
          buf = write_at pos (take 12 (drop eth buf) @ htons msdu_len) buf;
          pos = pos + ETH_HLEN
      in if ETH_P_802_3_MIN \<le> h_proto (drop eth buf) then write_at pos rfc1042_header buf else buf)"

definition amsdu_del_header :: "nat \<Rightarrow> u8 list \<Rightarrow> u8 list" where
  "amsdu_del_header pad buf =
     (let eth = AMSDU_TXHDR_SIZE;
          pos = eth + pad + ETH_HLEN;
          pos = (if ETH_P_802_3_MIN \<le> h_proto (drop eth buf) then pos + length rfc1042_header + 2 else pos)
      in drop pos (write_at pos (take ETH_HLEN (drop eth buf)) buf))"

section \<open>Aggregation\<close>

definition aml_adjust_amsdu_maxnb :: "int \<Rightarrow> int" where
  "aml_adjust_amsdu_maxnb n = (if int NX_TX_PAYLOAD_MAX < n then int NX_TX_PAYLOAD_MAX else if n = 0 then 1 else n)"

text \<open>\<open>aml_amsdu_add_subframe_header\<close>: \<open>s\<close> becomes the next subframe of frame \<open>a\<close>; the flag
  is the return value 0. A count that disagrees is a \<open>BUG\<close>, a seventh payload is written
  behind the array.\<close>

definition aml_amsdu_add_subframe_header :: "plat \<Rightarrow> addr \<Rightarrow> addr \<Rightarrow> tx_dev \<Rightarrow> (bool \<times> tx_dev) option" where
  "aml_amsdu_add_subframe_header pl s a d = do {
     h \<leftarrow> hdrs (dev_hw d) a;
     let data = skb_data d s;
     let pad = unat (am_pad h);
     let headroom_need = amsdu_headroom_need pad data;
     let msdu_len = length data - ETH_HLEN + llc_len data;
     let len = msdu_len + ETH_HLEN + pad;
     if skb_headroom d s < headroom_need then Some (False, d)
     else
       let (mapped, hw) = (if aml_bus_type pl = PCIE_MODE then aml_ipc_buf_a2e_init (dev_hw d) else (True, dev_hw d)) in
       if \<not> mapped then Some (False, set_hw d hw)
       else if am_nb h \<noteq> packet_cnt h \<or> NX_TX_PAYLOAD_MAX \<le> unat (am_nb h) then None
       else
         let hw = upd_hdr a (\<lambda>h. h\<lparr>packet_cnt := packet_cnt h + 1, packet_len := (packet_len h)[unat (am_nb h) := of_nat len],
                    am_len := am_len h + of_nat len, am_nb := am_nb h + 1,
                    am_pad := of_nat (AMSDU_PADDING (len - pad)), am_hdrs := am_hdrs h @ [s]\<rparr>) hw;
             hw = hw\<lparr>subframes := (subframes hw)(s := Some \<lparr>sub_pad = of_nat pad, msdu_len = of_nat msdu_len\<rparr>)\<rparr>
         in Some (True, (set_hw d hw)\<lparr>skb_data := (skb_data d)(s := amsdu_write_header pad (replicate headroom_need 0) data),
                                       skb_headroom := (skb_headroom d)(s := skb_headroom d s - headroom_need)\<rparr>)
   }"

text \<open>\<open>aml_amsdu_del_subframe_header\<close> of the buffer of a subframe.\<close>

definition aml_amsdu_del_subframe_header :: "addr \<Rightarrow> aml_amsdu_txhdr \<Rightarrow> tx_dev \<Rightarrow> tx_dev" where
  "aml_amsdu_del_subframe_header s th d =
     (let data = amsdu_del_header (unat (sub_pad th)) (skb_data d s)
      in d\<lparr>skb_data := (skb_data d)(s := data),
           skb_headroom := (skb_headroom d)(s := skb_headroom d s + (length (skb_data d s) - length data))\<rparr>)"

definition same_peers :: "u8 list \<Rightarrow> u8 list \<Rightarrow> bool" where
  "same_peers d e \<longleftrightarrow> take 6 d = take 6 e \<and> take 6 (drop 6 d) = take 6 (drop 6 e)"

text \<open>\<open>aml_amsdu_add_subframe\<close>; the buffer has an Ethernet header.\<close>

definition aml_amsdu_add_subframe :: "plat \<Rightarrow> addr \<Rightarrow> nat \<Rightarrow> bool \<Rightarrow> tx_dev \<Rightarrow> (bool \<times> tx_dev) option" where
  "aml_amsdu_add_subframe pl s i sp_frame d =
     (let maxnb = aml_adjust_amsdu_maxnb (amsdu_maxnb d);
          maxnb = (if aml_bus_type pl = USB_MODE \<and> 3 < maxnb then 3 else maxnb);
          d = d\<lparr>amsdu_maxnb := maxnb\<rparr>;
          t = txq (dev_hw d) i;
          close = (\<lambda>d. set_hw d (upd_txq i (\<lambda>t. t\<lparr>txq_amsdu := None\<rparr>) (dev_hw d)))
      in if amsdu_len t = 0 \<or> maxnb < 2 then Some (False, d)
         else case txq_amsdu t of
           Some a \<Rightarrow> do {
             h \<leftarrow> hdrs (dev_hw d) a;
             if \<not> same_peers (skb_data d s) (skb_data d a) then Some (False, close d)
             else if sp_frame \<or> tx_flags h AND TXU_CNTRL_SP_FRAME \<noteq> 0
                     \<or> unat (amsdu_len t) < unat (am_len h) + unat (am_pad h)
                                              + aml_amsdu_subframe_length (skb_data d s) (length (skb_data d s))
             then Some (False, close d)
             else do {
               (ok, d) \<leftarrow> aml_amsdu_add_subframe_header pl s a d;
               if \<not> ok then Some (False, close d)
               else do {
                 h \<leftarrow> hdrs (dev_hw d) a;
                 Some (True, if maxnb \<le> uint (am_nb h) then close d else d)
               }
             }
           }
         | None \<Rightarrow>
             if sk_list t = [] then Some (False, d)
             else do {
               let a = last (sk_list t);
               h \<leftarrow> hdrs (dev_hw d) a;
               let len1 = aml_amsdu_subframe_length (skb_data d a) (unat (frame_len h) + ETH_HLEN);
               let len2 = aml_amsdu_subframe_length (skb_data d s) (length (skb_data d s));
               if am_len h \<noteq> 0 \<or> tx_flags h AND TXU_CNTRL_RETRY \<noteq> 0 \<or> tx_flags h AND TXU_CNTRL_SP_FRAME \<noteq> 0 \<or> sp_frame
               then Some (False, d)
               else if \<not> same_peers (skb_data d s) (skb_data d a) then Some (False, d)
               else if unat (amsdu_len t) < len1 + AMSDU_PADDING len1 + len2 then Some (False, d)
               else do {
                 let d = set_hw d (upd_hdr a (\<lambda>h. h\<lparr>am_len := of_nat len1, am_nb := 1, am_pad := of_nat (AMSDU_PADDING len1),
                           am_hdrs := []\<rparr>) (dev_hw d));
                 (ok, d) \<leftarrow> aml_amsdu_add_subframe_header pl s a d;
                 if \<not> ok then Some (False, d)
                 else do {
                   let d = set_hw d (upd_hdr a (\<lambda>h. h\<lparr>tx_flags := tx_flags h OR TXU_CNTRL_AMSDU\<rparr>) (dev_hw d));
                   h \<leftarrow> hdrs (dev_hw d) a;
                   Some (True, if uint (am_nb h) < maxnb
                               then set_hw d (upd_txq i (\<lambda>t. t\<lparr>txq_amsdu := Some a\<rparr>) (dev_hw d)) else d)
                 }
               }
             })"

text \<open>The headroom a buffer of its own needs, \<open>sizeof\<close> of the header of the bus.\<close>

definition tx_headroom :: "plat \<Rightarrow> nat" where
  "tx_headroom pl = (case aml_bus_type pl of PCIE_MODE \<Rightarrow> 8 | USB_MODE \<Rightarrow> 80 | SDIO_MODE \<Rightarrow> 84)"

text \<open>The loop of \<open>aml_amsdu_dismantle\<close> over the subframes. The header of a buffer is a copy
  of the main one; the list head copied with it is not used before it is initialised again,
  the model has an empty list.\<close>

fun dismantle_loop :: "plat \<Rightarrow> addr \<Rightarrow> addr \<Rightarrow> addr list \<Rightarrow> tx_dev \<Rightarrow> tx_dev option" where
  "dismantle_loop pl a skb_prev [] d = Some d"
| "dismantle_loop pl a skb_prev (s # ss) d = do {
     th \<leftarrow> subframes (dev_hw d) s;
     let d = set_hw d (upd_hdr a (\<lambda>h. h\<lparr>am_hdrs := ss\<rparr>) (dev_hw d));
     let d = aml_amsdu_del_subframe_header s th d;
     let len = length (skb_data d s) - ETH_HLEN;
     let (ok, d) = alloc d;
     let d = set_hw d ((dev_hw d)\<lparr>subframes := (subframes (dev_hw d))(s := None)\<rparr>);
     if skb_headroom d s < tx_headroom pl \<or> \<not> ok
        \<or> aml_bus_type pl = PCIE_MODE \<and> unat (msdu_len th) + ETH_HLEN + unat (sub_pad th) < len
     then dismantle_loop pl a skb_prev ss d
     else do {
       h \<leftarrow> hdrs (dev_hw d) a;
       let hw = (dev_hw d)\<lparr>hdrs := (hdrs (dev_hw d))(s := Some (h\<lparr>frame_len := of_nat len, packet_cnt := 1,
                  packet_len := (packet_len h)[0 := of_nat len], am_hdrs := []\<rparr>))\<rparr>;
       hw \<leftarrow> aml_txq_queue_skb pl (hdr_txq h) s False (Some skb_prev) hw;
       dismantle_loop pl a s ss (set_hw d hw)
     }
   }"

definition aml_amsdu_dismantle :: "plat \<Rightarrow> addr \<Rightarrow> tx_dev \<Rightarrow> tx_dev option" where
  "aml_amsdu_dismantle pl a d = do {
     h \<leftarrow> hdrs (dev_hw d) a;
     dismantle_loop pl a a (am_hdrs h) (set_hw d (upd_hdr a (\<lambda>h. h\<lparr>tx_flags := tx_flags h AND NOT TXU_CNTRL_AMSDU,
       packet_cnt := 1, am_len := 0, am_nb := 0\<rparr>) (dev_hw d)))
   }"

text \<open>The walk over the frames of one queue: the successor of a frame is read before the
  frame is dismantled, so the frames it becomes are not visited.\<close>

fun update_len_walk :: "plat \<Rightarrow> nat \<Rightarrow> u16 \<Rightarrow> addr list \<Rightarrow> tx_dev \<Rightarrow> tx_dev option" where
  "update_len_walk pl i len [] d = Some d"
| "update_len_walk pl i len (a # as) d = do {
     h \<leftarrow> hdrs (dev_hw d) a;
     d \<leftarrow> (if tx_flags h AND TXU_CNTRL_AMSDU \<noteq> 0 \<and> len < am_len h then aml_amsdu_dismantle pl a d else Some d);
     update_len_walk pl i len as
       (if txq_amsdu (txq (dev_hw d) i) = Some a then set_hw d (upd_txq i (\<lambda>t. t\<lparr>txq_amsdu := None\<rparr>) (dev_hw d)) else d)
   }"

definition behind_retries :: "aml_txq \<Rightarrow> addr list" where
  "behind_retries t = (case last_retry_skb t of
     None \<Rightarrow> sk_list t | Some p \<Rightarrow> tl (dropWhile (\<lambda>a. a \<noteq> p) (sk_list t)))"

text \<open>The new length, which USB bounds by its buffers.\<close>

definition bus_amsdu_len :: "plat \<Rightarrow> u16 \<Rightarrow> u16" where
  "bus_amsdu_len pl len = (if aml_bus_type pl = USB_MODE then min len USB_AMSDU_BUF_LEN else len)"

fun update_len_txqs :: "plat \<Rightarrow> u16 \<Rightarrow> nat list \<Rightarrow> tx_dev \<Rightarrow> tx_dev option" where
  "update_len_txqs pl len [] d = Some d"
| "update_len_txqs pl len (i # is) d =
     (if amsdu_len (txq (dev_hw d) i) \<le> len then update_len_txqs pl len is d
      else do {
        let d = set_hw d (aml_txq_stop i AML_TXQ_STOP_DISMANTLE_AMSDU (dev_hw d));
        d \<leftarrow> update_len_walk pl i len (behind_retries (txq (dev_hw d) i)) d;
        hw \<leftarrow> aml_txq_start pl i AML_TXQ_STOP_DISMANTLE_AMSDU
               (upd_txq i (\<lambda>t. t\<lparr>amsdu_len := bus_amsdu_len pl len\<rparr>) (dev_hw d));
        update_len_txqs pl len is (set_hw d hw)
      })"

definition aml_amsdu_update_len :: "plat \<Rightarrow> nat \<Rightarrow> u16 \<Rightarrow> tx_dev \<Rightarrow> tx_dev option" where
  "aml_amsdu_update_len pl i len d =
     (let t = txq (dev_hw d) i in
      if amsdu_len t \<le> len
      then Some (set_hw d (upd_txq i (\<lambda>t. t\<lparr>amsdu_len := bus_amsdu_len pl len\<rparr>) (dev_hw d)))
      else case txq_sta t of
        None \<Rightarrow> Some (set_hw d (upd_txq i (\<lambda>t. t\<lparr>amsdu_len := 0\<rparr>) (dev_hw d)))
      | Some p \<Rightarrow> do {
          is \<leftarrow> foreach_sta_txq (dev_hw d) (Some p);
          update_len_txqs pl len is d
        })"

section \<open>Confirmations\<close>

definition AML_GAS_ACTION_FRAME :: u32 where "AML_GAS_ACTION_FRAME = BIT 4"
definition AML_GAS_INIT_REQ_FRAME :: u32 where "AML_GAS_INIT_REQ_FRAME = BIT 5"
definition AML_REPORT_NO_ACKED :: u32 where "AML_REPORT_NO_ACKED = BIT 7"
definition AML_MUST_TX_SUC :: u32 where "AML_MUST_TX_SUC = BIT 8"
definition AML_DPP_CONNECT_STATUS_RESULT_FRAME :: u32 where "AML_DPP_CONNECT_STATUS_RESULT_FRAME = BIT 9"
definition AML_STA_VIF_IDX :: nat where "AML_STA_VIF_IDX = 0"

text \<open>What is asked about a management frame: its subtype, the answer of
  \<open>aml_filter_sp_mgmt_frame\<close> to an action frame (flags and length), whether the remain-on-channel
  period is still running, and whether the buffer can be copied.\<close>

record mgmt_info =
  is_deauth :: bool
  is_action :: bool
  filter_ret :: u32
  filter_len :: u16
  in_roc :: bool
  copy_ok :: bool

text \<open>A processed confirmation is over, or the frame goes back to its queue.\<close>

definition txq_credits_back :: "plat \<Rightarrow> nat \<Rightarrow> tx_cfm \<Rightarrow> tx_hw \<Rightarrow> tx_hw option" where
  "txq_credits_back pl i cfm hw =
     (if idx (txq hw i) = TXQ_INACTIVE then Some hw
      else do {
        hw \<leftarrow> (if cfm_credits cfm = 0 then Some hw
              else
                let hw = upd_txq i (\<lambda>t. t\<lparr>txq_credits := txq_credits t + cfm_credits cfm\<rparr>) hw in
                if txq_credits (txq hw i) \<le> 0 then Some (aml_txq_stop i AML_TXQ_STOP_FULL hw)
                else aml_txq_start pl i AML_TXQ_STOP_FULL hw);
        if push_limit (txq hw i) \<noteq> 0 \<and> \<not> aml_txq_is_full (txq hw i)
        then aml_txq_start pl i AML_TXQ_STOP_FULL hw else Some hw
      })"

text \<open>The buffers of a confirmed frame.\<close>

fun release_subframes :: "addr list \<Rightarrow> tx_dev \<Rightarrow> tx_dev option" where
  "release_subframes [] d = Some d"
| "release_subframes (s # ss) d = do {
     th \<leftarrow> subframes (dev_hw d) s;
     let d = aml_amsdu_del_subframe_header s th d;
     release_subframes ss (set_hw d ((dev_hw d)\<lparr>subframes := (subframes (dev_hw d))(s := None)\<rparr>))
   }"

definition release_frame :: "addr \<Rightarrow> tx_dev \<Rightarrow> tx_dev option" where
  "release_frame a d = do {
     h \<leftarrow> hdrs (dev_hw d) a;
     d \<leftarrow> (if tx_flags h AND TXU_CNTRL_AMSDU \<noteq> 0 then release_subframes (am_hdrs h) d else Some d);
     Some (set_hw d ((dev_hw d)\<lparr>hdrs := (hdrs (dev_hw d))(a := None)\<rparr>))
   }"

definition confirm_done :: "plat \<Rightarrow> addr \<Rightarrow> nat \<Rightarrow> tx_cfm \<Rightarrow> tx_dev \<Rightarrow> tx_dev option" where
  "confirm_done pl a i cfm d = do {
     hw \<leftarrow> txq_credits_back pl i cfm (dev_hw d);
     d \<leftarrow> aml_amsdu_update_len pl i (cfm_amsdu_size cfm) (set_hw d hw);
     d \<leftarrow> release_frame a d;
     let hw = dev_hw d;
     Some (if aml_bus_type pl \<noteq> PCIE_MODE \<and> txq_cleanup hw \<noteq> None
           then set_hw d (hw\<lparr>txq_cleanup := Some (jiffies hw + AML_TXQ_CLEANUP_INTERVAL hw)\<rparr>) else d)
   }"

text \<open>What both kinds of confirmation do with the frame, from \<open>aml_txq_confirm_any\<close> on.
  \<open>sp_ret\<close> is the variable of that name, which \<open>aml_tx_cfm_task\<close> keeps from one frame to the
  next and clears only when a management frame is done.\<close>

definition tx_confirm :: "plat \<Rightarrow> addr \<Rightarrow> tx_cfm \<Rightarrow> mgmt_info \<Rightarrow> u32 \<Rightarrow> tx_dev \<Rightarrow> (u32 \<times> tx_dev) option" where
  "tx_confirm pl a cfm m sp_ret d = do {
     h \<leftarrow> hdrs (dev_hw d) a;
     let i = hdr_txq h;
     let hw = aml_txq_confirm_any i (hw_queue h) (dev_hw d);
     let ack = acknowledged (cfm_status cfm);
     let active = (idx (txq hw i) \<noteq> TXQ_INACTIVE);
     if tx_flags h AND TXU_CNTRL_MGMT \<noteq> 0 then
       let d = (set_hw d hw)\<lparr>is_disconnect := (if is_deauth m then (is_disconnect d)(hdr_vif h := False) else is_disconnect d)\<rparr>;
           sp_ret = (if is_action m then filter_ret m else sp_ret);
           hw = (if is_action m then upd_hdr a (\<lambda>h. h\<lparr>frame_len := filter_len m\<rparr>) hw else hw);
           len = (if is_action m then filter_len m else frame_len h)
       in if \<not> ack \<and> sp_ret AND (AML_GAS_ACTION_FRAME OR AML_MUST_TX_SUC OR AML_DPP_CONNECT_STATUS_RESULT_FRAME) \<noteq> 0
             \<and> active \<and> in_roc m
          then do { hw \<leftarrow> aml_tx_retry pl a cfm hw; Some (sp_ret, set_hw d hw) }
          else
            let wait = (ack \<and> sp_ret AND AML_GAS_INIT_REQ_FRAME \<noteq> 0
                        \<and> vif_index (vif_table hw (hdr_vif h)) \<noteq> AML_STA_VIF_IDX \<and> copy_ok m);
                d = (if wait then d\<lparr>tx_cfm_wait := (tx_cfm_wait d)(hdr_vif h := Some (a, len))\<rparr> else d);
                hw = (if wait then hw else report (Mgmt_tx_status a (sp_ret AND AML_REPORT_NO_ACKED = 0 \<and> ack)) hw)
            in do { d \<leftarrow> confirm_done pl a i cfm (set_hw d hw); Some (0, d) }
     else if active \<and> sw_retry_required (cfm_status cfm) then do {
       hw \<leftarrow> aml_tx_retry pl a cfm (upd_hdr a (\<lambda>h. h\<lparr>tx_flags := tx_flags h OR TXU_CNTRL_RETRY\<rparr>) hw);
       Some (sp_ret, set_hw d hw)
     } else do { d \<leftarrow> confirm_done pl a i cfm (set_hw d hw); Some (sp_ret, d) }
   }"

definition COMPACT_TXCFM_CNT :: nat where "COMPACT_TXCFM_CNT = 256"

text \<open>The pages of firmware memory a frame takes: \<open>howmanypage\<close> of its payloads with their
  descriptor on SDIO, kept in an \<open>unsigned char\<close>, and one page on USB.\<close>

definition frame_tot_len :: "aml_sw_txhdr \<Rightarrow> u32" where
  "frame_tot_len h = of_nat (sum_list (map unat (take (unat (packet_cnt h)) (packet_len h))))"

definition howmanypage :: "u32 \<Rightarrow> u32 \<Rightarrow> u32" where
  "howmanypage x y = ((x - 12) + ((y - 12) - 1)) div (y - 12)"

definition SDIO_PAGE_LEN :: u32 where "SDIO_PAGE_LEN = 1024"
definition SDIO_DATA_OFFSET :: u32 where "SDIO_DATA_OFFSET = 12 + 72"

definition page_num :: "plat \<Rightarrow> aml_sw_txhdr \<Rightarrow> u8" where
  "page_num pl h =
     (if aml_bus_type pl = SDIO_MODE then ucast (howmanypage (frame_tot_len h + SDIO_DATA_OFFSET) SDIO_PAGE_LEN) else 1)"

definition compact_cfm :: "compact_tx_cfm_tag \<Rightarrow> tx_cfm" where
  "compact_cfm c = \<lparr>cfm_credits = 1, cfm_amsdu_size = c_amsdu_size c, cfm_status = ucast (c_status c)\<rparr>"

text \<open>The pages of a confirmed frame are free again; enough of them wake the TX task.\<close>

definition cfm_pages :: "plat \<Rightarrow> aml_sw_txhdr \<Rightarrow> tx_dev \<Rightarrow> tx_dev" where
  "cfm_pages pl h d =
     (let free = tx_page_free_num d + ucast (page_num pl h);
          d = d\<lparr>tx_page_free_num := free\<rparr>
      in if ucast (txcfm_trigger_tx_thr d) \<le> free
         then set_hw d ((dev_hw d)\<lparr>aml_tx_sem := aml_tx_sem (dev_hw d) + 1\<rparr>) else d)"

text \<open>One wake-up of \<open>aml_tx_cfm_task\<close>: \<open>i\<close> is the counter of its loop, which the computation
  of the pages of an SDIO frame overwrites.\<close>

fun cfm_loop :: "nat \<Rightarrow> plat \<Rightarrow> (addr \<Rightarrow> mgmt_info) \<Rightarrow> nat \<Rightarrow> u32 \<Rightarrow> tx_dev \<Rightarrow> (u32 \<times> tx_dev) option" where
  "cfm_loop 0 pl m i sp_ret d = None"
| "cfm_loop (Suc n) pl m i sp_ret d =
     (if COMPACT_TXCFM_CNT \<le> i then Some (sp_ret, d)
      else
        let c = read_cfm d (cfm_cur d);
            d = d\<lparr>dev_txcfm_idx := cfm_cur d\<rparr>;
            (env, p) = ipc_host_tx_host_id_to_ptr_for_sdio_usb (ipc_env (dev_hw d)) (c_hostid c);
            d = set_hw d ((dev_hw d)\<lparr>ipc_env := env\<rparr>)
        in case p of
          None \<Rightarrow> Some (sp_ret, d)
        | Some a \<Rightarrow> do {
            h \<leftarrow> hdrs (dev_hw d) a;
            let i = (if aml_bus_type pl = SDIO_MODE then unat (packet_cnt h) else i);
            (sp_ret, d) \<leftarrow> tx_confirm pl a (compact_cfm c) (m a) sp_ret (cfm_pages pl h d);
            cfm_loop n pl m (i + 1) sp_ret (d\<lparr>cfm_cur := (cfm_cur d + 1) mod COMPACT_TXCFM_CNT\<rparr>)
          })"

text \<open>Every round takes a frame from the firmware, so one more round than the firmware has
  frames is enough fuel.\<close>

definition aml_tx_cfm_task_round :: "plat \<Rightarrow> (addr \<Rightarrow> mgmt_info) \<Rightarrow> u32 \<Rightarrow> tx_dev \<Rightarrow> (u32 \<times> tx_dev) option" where
  "aml_tx_cfm_task_round pl m sp_ret d =
     cfm_loop (length (tx_hostid_pushed (ipc_env (dev_hw d))) + 1) pl m 0 sp_ret d"

text \<open>\<open>aml_txdatacfm\<close>, the confirmation of PCIe; the flag says that there was one (return 0).\<close>

definition aml_txdatacfm :: "plat \<Rightarrow> u32 \<Rightarrow> tx_cfm \<Rightarrow> (addr \<Rightarrow> mgmt_info) \<Rightarrow> tx_dev \<Rightarrow> (bool \<times> tx_dev) option" where
  "aml_txdatacfm pl h cfm m d =
     (if h = 0 then Some (False, d)
      else do {
        (env, p) \<leftarrow> ipc_host_tx_host_id_to_ptr pl (ipc_env (dev_hw d)) h;
        let d = set_hw d ((dev_hw d)\<lparr>ipc_env := env\<rparr>);
        case p of
          None \<Rightarrow> Some (False, d)
        | Some a \<Rightarrow>
            if aml_bus_type pl \<noteq> PCIE_MODE then None
            else do { (_, d) \<leftarrow> tx_confirm pl a cfm (m a) 0 d; Some (True, d) }
      })"

section \<open>Credit updates\<close>

definition credit_target :: "plat \<Rightarrow> int \<Rightarrow> int \<Rightarrow> aml_txq \<Rightarrow> int" where
  "credit_target pl update sz t =
     (let sum = txq_credits t + pkt_pushed t + update in
      if (aml_bus_type pl \<noteq> PCIE_MODE \<longrightarrow> 0 < txq_credits t + update) \<and> sum < sz
      then txq_credits t + update else sz - pkt_pushed t)"

text \<open>The loop that drops the retries: it compares a growing counter with a count that
  shrinks with every frame it drops.\<close>

fun drop_retries :: "nat \<Rightarrow> int \<Rightarrow> nat \<Rightarrow> tx_hw \<Rightarrow> tx_hw option" where
  "drop_retries 0 packet i hw = None"
| "drop_retries (Suc n) packet i hw =
     (if nb_retry (txq hw i) \<le> packet then Some hw
      else case sk_list (txq hw i) of
        [] \<Rightarrow> drop_retries n (packet + 1) i hw
      | a # _ \<Rightarrow> do { hw \<leftarrow> aml_txq_drop_skb i a True hw; drop_retries n (packet + 1) i hw })"

definition aml_txq_credit_update :: "plat \<Rightarrow> nat \<Rightarrow> nat \<Rightarrow> int \<Rightarrow> tx_hw \<Rightarrow> tx_hw option" where
  "aml_txq_credit_update pl p t update hw = do {
     i \<leftarrow> aml_txq_sta_get hw (Some p) t;
     let sz = hwq_size (hwq hw (txq_hwq (txq hw i)));
     let active = (idx (txq hw i) \<noteq> TXQ_INACTIVE);
     let update = (if active \<and> aml_bus_type pl \<noteq> PCIE_MODE \<and> NX_TXQ_INITIAL_CREDITS < update
                   then s8 (sz - NX_TXQ_INITIAL_CREDITS) else update);
     hw \<leftarrow> (if active then
              let hw = upd_txq i (\<lambda>t. t\<lparr>txq_credits := credit_target pl update sz t\<rparr>) hw in
              if txq_credits (txq hw i) \<le> 0 then Some (aml_txq_stop i AML_TXQ_STOP_FULL hw)
              else aml_txq_start pl i AML_TXQ_STOP_FULL hw
            else Some hw);
     if update < NX_TXQ_INITIAL_CREDITS
     then drop_retries (Suc (nat (nb_retry (txq hw i)))) 0 i hw else Some hw
   }"

section \<open>The TX task\<close>

definition SDIO_TXHEADER_LEN :: nat where "SDIO_TXHEADER_LEN = 4 + 72"

text \<open>The buffer a frame is sent from: its own, one of the staging buffers, or an allocated
  one. The flag says that there is one.\<close>

definition tx_packet :: "plat \<Rightarrow> aml_sw_txhdr \<Rightarrow> tx_dev \<Rightarrow> bool \<times> tx_dev" where
  "tx_packet pl h d =
     (let amsdu = (tx_flags h AND TXU_CNTRL_AMSDU \<noteq> 0);
          staged = d\<lparr>amsdu_buf_free := amsdu_buf_free d - 1, amsdu_buf_used := amsdu_buf_used d + 1\<rparr>
      in if aml_bus_type pl = SDIO_MODE then
           (if amsdu \<and> 4096 \<le> unat (frame_tot_len h) + SDIO_TXHEADER_LEN
            then if 0 < amsdu_buf_free d then (True, staged) else (False, d)
            else alloc d)
         else if amsdu then (if 0 < amsdu_buf_free d then (True, staged) else alloc d)
         else (True, d))"

text \<open>The loop over the saved descriptors, with the frames of the transfer being built.\<close>

fun tx_gather :: "plat \<Rightarrow> addr list \<Rightarrow> addr list \<Rightarrow> tx_dev \<Rightarrow> (addr list \<times> tx_dev) option" where
  "tx_gather pl [] sent d = Some (sent, d)"
| "tx_gather pl (a # as) sent d = do {
     h \<leftarrow> hdrs (dev_hw d) a;
     let n = (ucast (page_num pl h) :: u32);
     if n + 1 \<le> tx_page_free_num d \<and> (tot_page_num d + n \<le> ucast (tx_page_once d) \<or> tot_page_num d = 0)
     then
       (let d = d\<lparr>tx_page_free_num := tx_page_free_num d - n, tot_page_num := tot_page_num d + n\<rparr>;
           (ok, d) = tx_packet pl h d
       in if \<not> ok then Some (sent, d)
          else tx_gather pl as (sent @ [a]) (set_hw d ((dev_hw d)\<lparr>tx_desc_save := remove1 a (tx_desc_save (dev_hw d))\<rparr>)))
     else Some (sent, d)
   }"

definition tx_send :: "addr list \<Rightarrow> tx_dev \<Rightarrow> tx_dev" where
  "tx_send sent d =
     (if sent = [] then d
      else d\<lparr>tot_page_num := 0, amsdu_buf_free := amsdu_buf_free d + amsdu_buf_used d, amsdu_buf_used := 0,
             frames_sent := frames_sent d @ [sent]\<rparr>)"

text \<open>One wake-up of \<open>aml_tx_task\<close>.\<close>

definition aml_tx_task_round :: "plat \<Rightarrow> tx_dev \<Rightarrow> tx_dev option" where
  "aml_tx_task_round pl d =
     (let d = set_hw d ((dev_hw d)\<lparr>aml_tx_sem := aml_tx_sem (dev_hw d) - 1\<rparr>) in
      if dynabuf_stop_tx d then
        Some (if \<not> send_tx_stop_to_fw d then d
              else if tx_page_free_num d = tx_page_tot_num d
              then d\<lparr>send_tx_stop_to_fw := False, tx_stop_notified := tx_stop_notified d + 1\<rparr>
              else set_hw d ((dev_hw d)\<lparr>aml_tx_sem := aml_tx_sem (dev_hw d) + 1\<rparr>))
      else do {
        hw \<leftarrow> aml_hwq_process_all pl (dev_hw d);
        (sent, d) \<leftarrow> tx_gather pl (tx_desc_save hw) [] (set_hw d hw);
        Some (tx_send sent d)
      })"

section \<open>Choosing the queue of a data frame\<close>

definition NX_NB_NDEV_TXQ :: nat where "NX_NB_NDEV_TXQ = NX_NB_TID_PER_STA * NX_REMOTE_STA_MAX + 1"
definition PRIO_STA_NULL :: nat where "PRIO_STA_NULL = 0xAA"
definition ETH_P_TDLS :: nat where "ETH_P_TDLS = 0x890D"
definition ETH_P_PAE :: nat where "ETH_P_PAE = 0x888E"

text \<open>What the choice reads of stations and interfaces beside the tables of the queues, the
  result of the mesh path look-up, and the class cfg80211 gives the frame.\<close>

record tx_peers =
  mac_addr :: "nat \<Rightarrow> u8 list"
  qos :: "nat \<Rightarrow> bool"
  acm :: "nat \<Rightarrow> u8"
  sta_4a :: "nat \<Rightarrow> nat option"
  mesh_nhop :: "nat option"
  class8021d :: nat

definition is_multicast_ether_addr :: "u8 list \<Rightarrow> bool" where
  "is_multicast_ether_addr d \<longleftrightarrow> bit (d ! 0) 0"

text \<open>The station of a frame that interface \<open>v\<close> sends as an access point; a list head that
  was not initialised is a fault.\<close>

definition select_ap_sta :: "tx_hw \<Rightarrow> tx_peers \<Rightarrow> nat \<Rightarrow> u8 list \<Rightarrow> nat option option" where
  "select_ap_sta hw pe v data =
     (if is_multicast_ether_addr data then Some (Some (bcmc_index (vif_table hw v)))
      else map_option (find (\<lambda>s. mac_addr pe s = take 6 data)) (ap_sta_list (vif_table hw v)))"

definition select_sta :: "tx_hw \<Rightarrow> tx_peers \<Rightarrow> nat \<Rightarrow> u8 list \<Rightarrow> nat option option" where
  "select_sta hw pe v data =
     (let vif = vif_table hw v;
          client = (case tdls_sta vif of
            Some p \<Rightarrow> if tdls_link_active vif \<and> take 6 data = mac_addr pe p then Some p else sta_ap vif
          | None \<Rightarrow> sta_ap vif)
      in case iftype vif of
        NL80211_IFTYPE_STATION \<Rightarrow> Some client
      | NL80211_IFTYPE_P2P_CLIENT \<Rightarrow> Some client
      | NL80211_IFTYPE_AP_VLAN \<Rightarrow>
          (if sta_4a pe v \<noteq> None then Some (sta_4a pe v) else select_ap_sta hw pe (vlan_master vif) data)
      | NL80211_IFTYPE_AP \<Rightarrow> select_ap_sta hw pe v data
      | NL80211_IFTYPE_P2P_GO \<Rightarrow> select_ap_sta hw pe v data
      | NL80211_IFTYPE_MESH_POINT \<Rightarrow>
          Some (if is_multicast_ether_addr data then Some (bcmc_index vif) else mesh_nhop pe)
      | _ \<Rightarrow> Some None)"

text \<open>\<open>aml_select_txq\<close>: the priority the frame gets and its network queue. A queue number that
  the network device does not have is a \<open>BUG\<close>.\<close>

definition aml_select_txq :: "tx_hw \<Rightarrow> tx_peers \<Rightarrow> nat \<Rightarrow> u8 list \<Rightarrow> nat \<Rightarrow> (nat \<times> nat) option" where
  "aml_select_txq hw pe v data priority = do {
     s \<leftarrow> select_sta hw pe v data;
     r \<leftarrow> (case s of
         None \<Rightarrow> Some (PRIO_STA_NULL, NX_BCMC_TXQ_NDEV_IDX)
       | Some p \<Rightarrow>
           if qos pe p then do {
             let tdls = ((iftype (vif_table hw v) = NL80211_IFTYPE_STATION \<or> iftype (vif_table hw v) = NL80211_IFTYPE_P2P_CLIENT)
                         \<and> h_proto data = ETH_P_TDLS);
             let priority = (if tdls then priority else class8021d pe mod 8);
             priority \<leftarrow> (if acm pe p \<noteq> 0 then aml_downgrade_ac (acm pe p) priority else Some priority);
             let priority = (if h_proto data = ETH_P_PAE then 7 else priority);
             i \<leftarrow> aml_txq_sta_get hw (Some p) priority;
             Some (priority, ndev_idx (txq hw i))
           } else do {
             i \<leftarrow> aml_txq_sta_get hw (Some p) 0;
             Some (0xFF, ndev_idx (txq hw i))
           });
     if snd r < NX_NB_NDEV_TXQ then Some r else None
   }"

text \<open>\<open>aml_get_tx_info\<close>: the station, for the priority and the network queue chosen before.\<close>

definition aml_get_tx_info :: "tx_hw \<Rightarrow> nat \<Rightarrow> nat \<Rightarrow> nat \<Rightarrow> nat option" where
  "aml_get_tx_info hw v priority mapping =
     (if priority = PRIO_STA_NULL then None
      else if mapping = NX_BCMC_TXQ_NDEV_IDX
      then Some (NX_REMOTE_STA_MAX + master_vif_idx (vif_table hw v) (vif_index (vif_table hw (vlan_master (vif_table hw v)))))
      else Some (mapping div NX_NB_TID_PER_STA))"

section \<open>Sending a frame\<close>

text \<open>A frame from the network stack, with what decides its way through \<open>aml_start_xmit\<close>:
  whether the recovery drops frames, whether the buffer has to be copied and can be, whether
  the TCP acknowledgement filter keeps the frame, the special types the frame filter finds in
  it, the allocation of its header.\<close>

record tx_skb =
  x_addr :: addr
  x_vif :: nat
  x_data :: "u8 list"
  x_headroom :: nat
  x_priority :: nat
  x_mapping :: nat
  x_recovery :: bool
  x_shared :: bool
  x_expand_ok :: bool
  x_ack_kept :: bool
  x_sp_frame :: u32
  x_hdr_ok :: bool
  x_use_4addr :: bool
  x_resending :: bool
  x_tdls_peer :: bool

abbreviation "TXU_CNTRL_MGMT_NO_CCK \<equiv> (BIT 4 :: u16)"
abbreviation "TXU_CNTRL_MGMT_ROBUST \<equiv> (BIT 7 :: u16)"
abbreviation "TXU_CNTRL_USE_4ADDR \<equiv> (BIT 8 :: u16)"
abbreviation "TXU_CNTRL_MESH_FWD \<equiv> (BIT 10 :: u16)"
abbreviation "TXU_CNTRL_TDLS \<equiv> (BIT 11 :: u16)"

definition AML_PKT_ARP :: nat where "AML_PKT_ARP = 2"

definition tx_max_headroom :: "plat \<Rightarrow> nat" where
  "tx_max_headroom pl = max (tx_headroom pl) AML_TX_AMSDU_HEADROOM"

text \<open>The header of a frame, zeroed and filled, with the descriptor of its one payload
  (\<open>aml_prep_dma_tx\<close>).\<close>

definition new_sw_txhdr :: "nat option \<Rightarrow> nat \<Rightarrow> nat \<Rightarrow> u16 \<Rightarrow> u64 \<Rightarrow> u16 \<Rightarrow> aml_sw_txhdr" where
  "new_sw_txhdr s v i len now flags =
     \<lparr>hdr_sta = s, hdr_vif = v, hdr_txq = i, hw_queue = 0, frame_len = len, sw_jiffies = now, tx_flags = flags,
      sn_for_retry = 0, tx_id = 0, packet_cnt = 1, packet_len = len # replicate (NX_TX_PAYLOAD_MAX - 1) 0,
      am_len = 0, am_nb = 0, am_pad = 0, am_hdrs = []\<rparr>"

definition aml_prep_dma_tx :: "plat \<Rightarrow> tx_hw \<Rightarrow> bool \<times> tx_hw" where
  "aml_prep_dma_tx pl hw = (if aml_bus_type pl = PCIE_MODE then aml_ipc_buf_a2e_init hw else (True, hw))"

definition sp_frame_of :: "tx_hw \<Rightarrow> tx_skb \<Rightarrow> bool" where
  "sp_frame_of hw x \<longleftrightarrow> x_sp_frame x \<noteq> 0 \<and>
     \<not> (x_sp_frame x AND BIT AML_PKT_ARP \<noteq> 0 \<and> iftype (vif_table hw (x_vif x)) = NL80211_IFTYPE_AP)"

text \<open>\<open>aml_start_xmit\<close>. A frame that is dropped leaves no trace but what happened before.\<close>

definition aml_start_xmit :: "plat \<Rightarrow> tx_skb \<Rightarrow> tx_dev \<Rightarrow> tx_dev option" where
  "aml_start_xmit pl x d =
     (if x_recovery x then Some d
      else
        let copy = (x_shared x \<or> x_headroom x < tx_max_headroom pl);
            room = (if copy then tx_max_headroom pl else x_headroom x)
        in if copy \<and> \<not> x_expand_ok x then Some d
        else case aml_get_tx_info (dev_hw d) (x_vif x) (x_priority x) (x_mapping x) of
          None \<Rightarrow> Some d
        | Some p \<Rightarrow>
            if x_ack_kept x then Some d
            else do {
              i \<leftarrow> aml_txq_sta_get (dev_hw d) (Some p) (x_priority x);
              if idx (txq (dev_hw d) i) = TXQ_INACTIVE then Some d
              else do {
                let a = x_addr x;
                let sp = sp_frame_of (dev_hw d) x;
                let d = d\<lparr>skb_data := (skb_data d)(a := x_data x), skb_headroom := (skb_headroom d)(a := room)\<rparr>;
                (aggregated, d) \<leftarrow> aml_amsdu_add_subframe pl a i sp d;
                if aggregated then Some d
                else if \<not> x_hdr_ok x then Some d
                else
                  let (mapped, hw) = aml_prep_dma_tx pl (dev_hw d);
                      flags = (if x_use_4addr x \<and> sta_idx (sta_table hw p) < NX_REMOTE_STA_MAX then TXU_CNTRL_USE_4ADDR else 0);
                      flags = (if x_tdls_peer x then flags OR TXU_CNTRL_TDLS else flags);
                      flags = (if iftype (vif_table hw (x_vif x)) = NL80211_IFTYPE_MESH_POINT \<and> x_resending x
                               then flags OR TXU_CNTRL_MESH_FWD else flags);
                      flags = (if sp then flags OR TXU_CNTRL_SP_FRAME else flags);
                      h = new_sw_txhdr (Some p) (x_vif x) i (of_nat (length (x_data x) - ETH_HLEN)) (jiffies hw) flags
                  in if \<not> mapped then Some (set_hw d hw)
                     else do {
                       hw \<leftarrow> aml_txq_queue_skb pl i a False None (hw\<lparr>hdrs := (hdrs hw)(a := Some h)\<rparr>);
                       Some (set_hw d hw)
                     }
              }
            })"

text \<open>A management frame of cfg80211 (\<open>struct cfg80211_mgmt_tx_params\<close>), with the outcome of
  the allocations and the answer of \<open>aml_filter_sp_mgmt_frame\<close>: its flags and how much shorter
  the frame became.\<close>

record mgmt_tx_params =
  m_addr :: addr
  m_buf :: "u8 list"
  m_recovery :: bool
  m_alloc_ok :: bool
  m_sp_ret :: u32
  m_len_diff :: u32
  m_action :: bool
  m_robust :: bool
  m_no_cck :: bool

definition AML_SP_FRAME :: u32 where "AML_SP_FRAME = BIT 0"
definition AML_DPP_ACTION_FRAME :: u32 where "AML_DPP_ACTION_FRAME = BIT 2"

datatype errno = ENOMEM | EBUSY

text \<open>\<open>aml_start_mgmt_xmit\<close>: an error, or the frame is accepted; a refused action frame is
  reported as not transmitted.\<close>

definition aml_start_mgmt_xmit :: "plat \<Rightarrow> nat \<Rightarrow> nat option \<Rightarrow> mgmt_tx_params \<Rightarrow> bool \<Rightarrow> tx_dev
    \<Rightarrow> ((errno + unit) \<times> tx_dev) option" where
  "aml_start_mgmt_xmit pl v s m offchan d =
     (if m_recovery m \<or> hw_state pl \<noteq> WIFI_SUSPEND_STATE_NONE then Some (Inl ENOMEM, d)
      else do {
        i \<leftarrow> (case s of
            Some p \<Rightarrow> aml_txq_sta_get (dev_hw d) (Some p) 8
          | None \<Rightarrow> if offchan then txq_at NX_OFF_CHAN_TXQ_IDX else aml_txq_vif_get (dev_hw d) v NX_UNK_TXQ_TYPE);
        let a = m_addr m;
        if \<not> m_alloc_ok m then Some (Inl ENOMEM, d)
        else
          let i = (if m_sp_ret m AND AML_DPP_ACTION_FRAME \<noteq> 0 \<and> offchan then NX_OFF_CHAN_TXQ_IDX else i);
              len = (of_nat (length (m_buf m)) - m_len_diff m :: u32);
              refuse = (\<lambda>hw. if m_action m then (Inr (), set_hw d (report (Mgmt_tx_status a False) hw)) else (Inl EBUSY, set_hw d hw));
              (mapped, hw) = aml_prep_dma_tx pl (dev_hw d);
              flags = TXU_CNTRL_MGMT OR (if m_sp_ret m AND AML_SP_FRAME \<noteq> 0 then TXU_CNTRL_SP_FRAME else 0)
                OR (if m_robust m then TXU_CNTRL_MGMT_ROBUST else 0) OR (if m_no_cck m then TXU_CNTRL_MGMT_NO_CCK else 0);
              h = new_sw_txhdr s v i (ucast len) (jiffies hw) flags
          in if \<not> mapped then Some (refuse hw)
             else if idx (txq hw i) = TXQ_INACTIVE then Some (refuse hw)
             else do {
               hw \<leftarrow> aml_txq_queue_skb pl i a False None (hw\<lparr>hdrs := (hdrs hw)(a := Some h)\<rparr>);
               Some (Inr (), (set_hw d hw)\<lparr>skb_data := (skb_data d)(a := m_buf m), skb_headroom := (skb_headroom d)(a := tx_headroom pl)\<rparr>)
             }
      })"

text \<open>\<open>aml_tx_cfm_wait_rsp\<close>: the delayed status of the interface the remain-on-channel period
  is for.\<close>

definition aml_tx_cfm_wait_rsp :: "nat option \<Rightarrow> bool \<Rightarrow> tx_dev \<Rightarrow> tx_dev" where
  "aml_tx_cfm_wait_rsp roc ack d = (case roc of
     None \<Rightarrow> d
   | Some v \<Rightarrow> (case tx_cfm_wait d v of
       None \<Rightarrow> d
     | Some (cookie, _) \<Rightarrow> (set_hw d (report (Mgmt_tx_status cookie ack) (dev_hw d)))\<lparr>tx_cfm_wait := (tx_cfm_wait d)(v := None)\<rparr>))"

end
