(* ===== verification/Txq_Events.thy ===== *)
theory Txq_Events
  imports Txq_Drop Tx_Path
begin

text \<open>
  The TX invariant is kept by what happens to the queues from outside: stations and
  interfaces that come and go, power save, credit updates, ageing.
\<close>

section \<open>Queues of stations and interfaces\<close>

text \<open>A queue can be set up when it is inactive and the firmware has returned its frames.\<close>

definition init_ready :: "tx_hw \<Rightarrow> nat \<Rightarrow> bool" where
  "init_ready hw i \<longleftrightarrow> idx (txq hw i) = TXQ_INACTIVE \<and> pkt_pushed (txq hw i) = 0"

lemma ps_id_inv: "tx_inv pl k p hw \<Longrightarrow> tx_inv pl k p (upd_txq i (\<lambda>t. t\<lparr>ps_id := x\<rparr>) hw)"
  by (rule tx_inv_upd_txq)
    (auto simp: txq_ok_def retry_ok_def aml_txq_is_scheduled_def aml_txq_is_stopped_def)

lemma sta_init_loop_ok:
  assumes "tx_inv pl 0 [] hw" and "\<forall>i. index \<le> i \<and> i < index + n \<longrightarrow> init_ready hw i" and "\<not> bit st 0"
    and "t + n \<le> NX_NB_TXQ_PER_STA"
    and "index + n \<le> NX_FIRST_VIF_TXQ_IDX \<or> n \<le> 1 \<and> t = 0 \<and> index < NX_FIRST_UNK_TXQ_IDX"
  shows "\<exists>hw'. sta_init_loop s st index t [index..<index + n] hw = Some hw' \<and> tx_inv pl 0 [] hw'"
  using assms
proof (induction n arbitrary: index t hw)
  case (Suc n)
  have i: "index < NX_NB_TXQ"
    using Suc.prems(5) by (auto simp: txq_layout_defs)
  have t: "t < 9"
    using Suc.prems(4) by (simp add: txq_layout_defs)
  then have q: "aml_tid2hwq ! t < NX_TXQ_CNT"
    by (auto simp: aml_tid2hwq_def hwq_id_defs NX_TXQ_CNT_def less_Suc_eq numeral_eq_Suc)
  have be: "NX_FIRST_VIF_TXQ_IDX \<le> index \<and> index < NX_FIRST_UNK_TXQ_IDX \<longrightarrow> aml_tid2hwq ! t = AML_HWQ_BE"
    using Suc.prems(5) by (auto simp: aml_tid2hwq_def)
  have off: "idx (txq hw index) = TXQ_INACTIVE" "pkt_pushed (txq hw index) = 0"
    using Suc.prems(2) by (simp_all add: init_ready_def)
  from init_ok [OF Suc.prems(1) i off Suc.prems(3) q be, of "Some s"] obtain hw1
    where hw1: "aml_txq_init index index st (aml_tid2hwq ! t) t (Some s) (sta_vif_idx (sta_table hw s)) hw = Some hw1"
      "tx_inv pl 0 [] hw1" "\<And>j. j \<noteq> index \<Longrightarrow> txq hw1 j = txq hw j"
    by fastforce
  define hw2 where "hw2 = upd_txq index (\<lambda>x. x\<lparr>ps_id := (if bit (uapsd_tids (sta_table hw1 s)) t then UAPSD_ID else LEGACY_PS_ID)\<rparr>) hw1"
  have "tx_inv pl 0 [] hw2"
    unfolding hw2_def by (rule ps_id_inv) fact
  moreover have "\<forall>i. Suc index \<le> i \<and> i < Suc index + n \<longrightarrow> init_ready hw2 i"
    using Suc.prems(2) hw1(3) by (auto simp: hw2_def init_ready_def)
  moreover have "Suc t + n \<le> NX_NB_TXQ_PER_STA"
    using Suc.prems(4) by simp
  moreover have "Suc index + n \<le> NX_FIRST_VIF_TXQ_IDX \<or> n \<le> 1 \<and> Suc t = 0 \<and> Suc index < NX_FIRST_UNK_TXQ_IDX \<or> n = 0"
    using Suc.prems(5) by auto
  ultimately have "\<exists>hw'. sta_init_loop s st (Suc index) (Suc t) [Suc index..<Suc index + n] hw2 = Some hw' \<and> tx_inv pl 0 [] hw'"
    using Suc.IH [of hw2 "Suc index" "Suc t"] Suc.prems(3) by (cases "n = 0") auto
  moreover have "[index..<index + Suc n] = index # [Suc index..<Suc index + n]"
    by (simp add: upt_conv_Cons del: upt_Suc)
  ultimately show ?case
    using hw1(1) unfolding hw2_def by (simp del: upt_Suc)
qed simp

lemma sta_init_ok:
  assumes inv: "tx_inv pl 0 [] hw" and p: "sta_ok hw s" and st: "\<not> bit st 0"
    and ready: "\<forall>is. foreach_sta_txq hw (Some s) = Some is \<longrightarrow> (\<forall>i\<in>set is. init_ready hw i)"
  shows "\<exists>hw'. aml_txq_sta_init s st hw = Some hw' \<and> tx_inv pl 0 [] hw'"
proof -
  define index where "index = aml_txq_sta_idx (Some (sta_table hw s)) 0"
  define n where "n = (if is_multicast_sta (sta_idx (sta_table hw s)) then 1 else NX_NB_TXQ_PER_STA)"
  have i: "index + n \<le> NX_FIRST_VIF_TXQ_IDX \<or> n \<le> 1 \<and> (0::nat) = 0 \<and> index < NX_FIRST_UNK_TXQ_IDX"
    using p by (auto simp: index_def n_def aml_txq_sta_idx_def sta_ok_def is_multicast_sta_def txq_layout_defs)
  then have le: "index + n \<le> NX_NB_TXQ" "index < NX_NB_TXQ"
    by (auto simp: txq_layout_defs n_def)
  then have each: "foreach_sta_txq hw (Some s) = Some [index..<index + n]"
    by (simp add: foreach_sta_txq_def aml_txq_sta_get_def txq_at_def index_def n_def Let_def NX_NB_TXQ_PER_STA_def)
  with ready have "\<forall>i. index \<le> i \<and> i < index + n \<longrightarrow> init_ready hw i"
    by simp
  moreover have "0 + n \<le> NX_NB_TXQ_PER_STA"
    by (simp add: n_def txq_layout_defs)
  ultimately show ?thesis
    using sta_init_loop_ok [OF inv _ st _ i] each by (simp add: aml_txq_sta_init_def index_def)
qed

lemma deinits_ok:
  assumes "tx_inv pl 0 [] hw" and "\<forall>i\<in>set is. i < NX_NB_TXQ"
  shows "\<exists>hw'. each_txq aml_txq_deinit is hw = Some hw' \<and> tx_inv pl 0 [] hw'"
  by (rule each_txq_ok) (use assms deinit_ok in \<open>blast+\<close>)

lemma sta_deinit_ok:
  assumes inv: "tx_inv pl 0 [] hw" and p: "sta_ok hw s"
  shows "\<exists>hw'. aml_txq_sta_deinit (Some s) hw = Some hw' \<and> tx_inv pl 0 [] hw'"
proof -
  obtain "is" where "is": "foreach_sta_txq hw (Some s) = Some is" "\<forall>i\<in>set is. i < NX_NB_TXQ"
    using foreach_ok [OF p] by blast
  then show ?thesis
    using deinits_ok [OF inv] by (simp add: aml_txq_sta_deinit_def)
qed

lemma vif_idx_parts:
  assumes "vif_ok hw v"
  shows "NX_FIRST_VIF_TXQ_IDX \<le> aml_txq_vif_idx hw v NX_BCMC_TXQ_TYPE" "aml_txq_vif_idx hw v NX_BCMC_TXQ_TYPE < NX_FIRST_UNK_TXQ_IDX"
    "NX_FIRST_UNK_TXQ_IDX \<le> aml_txq_vif_idx hw v NX_UNK_TXQ_TYPE" "aml_txq_vif_idx hw v NX_UNK_TXQ_TYPE < NX_NB_TXQ"
    "aml_txq_vif_get hw v NX_BCMC_TXQ_TYPE = Some (aml_txq_vif_idx hw v NX_BCMC_TXQ_TYPE)"
    "aml_txq_vif_get hw v NX_UNK_TXQ_TYPE = Some (aml_txq_vif_idx hw v NX_UNK_TXQ_TYPE)"
  using assms by (auto simp: aml_txq_vif_get_def aml_txq_vif_idx_def vif_ok_def txq_at_def txq_layout_defs)

lemma vif_init_ok:
  assumes inv: "tx_inv pl 0 [] hw" and v: "vif_ok hw v" and st: "\<not> bit st 0"
    and ready: "init_ready hw (aml_txq_vif_idx hw v NX_BCMC_TXQ_TYPE)" "init_ready hw (aml_txq_vif_idx hw v NX_UNK_TXQ_TYPE)"
  shows "\<exists>hw'. aml_txq_vif_init v st hw = Some hw' \<and> tx_inv pl 0 [] hw'"
proof -
  define i where "i = aml_txq_vif_idx hw v NX_BCMC_TXQ_TYPE"
  define j where "j = aml_txq_vif_idx hw v NX_UNK_TXQ_TYPE"
  note parts = vif_idx_parts [OF v, folded i_def j_def]
  have ready_j: "init_ready hw j"
    using ready(2) by (simp only: j_def)
  have i: "i < NX_NB_TXQ" "i \<noteq> j"
    using parts by (auto simp: txq_layout_defs)
  obtain hw1 where hw1: "aml_txq_init i i st AML_HWQ_BE 0 (Some (bcmc_index (vif_table hw v))) v hw = Some hw1" "tx_inv pl 0 [] hw1"
      "\<And>k. k \<noteq> i \<Longrightarrow> txq hw1 k = txq hw k" "sta_table hw1 = sta_table hw" "vif_table hw1 = vif_table hw"
    using init_ok [OF inv i(1) _ _ st, of AML_HWQ_BE "Some (bcmc_index (vif_table hw v))" 0 v] ready(1) parts(1)
    by (auto simp: init_ready_def i_def [symmetric] hwq_id_defs NX_TXQ_CNT_def)
  have same: "aml_txq_vif_get hw1 v ty = aml_txq_vif_get hw v ty" "aml_txq_vif_idx hw1 v ty = aml_txq_vif_idx hw v ty" for ty
    by (simp_all add: aml_txq_vif_get_def aml_txq_vif_idx_def hw1)
  obtain hw2 where "aml_txq_init j j st AML_HWQ_VO TID_MGT None v hw1 = Some hw2" "tx_inv pl 0 [] hw2"
    using init_ok [OF hw1(2) parts(4) _ _ st, of AML_HWQ_VO None TID_MGT v] ready_j parts(3) i(2) hw1(3) [of j]
    by (auto simp: init_ready_def hwq_id_defs NX_TXQ_CNT_def txq_layout_defs)
  then show ?thesis
    using hw1(1) parts(5,6) by (simp add: aml_txq_vif_init_def same i_def [symmetric] j_def [symmetric])
qed

lemma vif_deinit_ok:
  assumes inv: "tx_inv pl 0 [] hw" and v: "vif_ok hw v"
  shows "\<exists>hw'. aml_txq_vif_deinit v hw = Some hw' \<and> tx_inv pl 0 [] hw'"
proof -
  note parts = vif_idx_parts [OF v]
  have "aml_txq_vif_idx hw v NX_BCMC_TXQ_TYPE < NX_NB_TXQ"
    using parts by (simp add: txq_layout_defs)
  from deinit_ok [OF inv this] obtain hw1 where hw1: "aml_txq_deinit (aml_txq_vif_idx hw v NX_BCMC_TXQ_TYPE) hw = Some hw1"
      "tx_inv pl 0 [] hw1" "vif_table hw1 = vif_table hw"
    by blast
  have "aml_txq_vif_get hw1 v ty = aml_txq_vif_get hw v ty" for ty
    by (simp add: aml_txq_vif_get_def aml_txq_vif_idx_def hw1)
  then show ?thesis
    using hw1(1) parts(5,6) deinit_ok [OF hw1(2) parts(4)] by (auto simp: aml_txq_vif_deinit_def)
qed

section \<open>Power save\<close>

lemma sta_ok_tables:
  "(\<And>p. sta_vif_idx (sta_table hw' p) = sta_vif_idx (sta_table hw p)) \<Longrightarrow> sta_ok hw' p = sta_ok hw p"
  by (simp add: sta_ok_def)

lemma push_limit_inv:
  assumes inv: "tx_inv pl k p hw" and n: "0 \<le> n"
  shows "tx_inv pl k p (upd_txq i (\<lambda>t. t\<lparr>push_limit := n\<rparr>) hw)"
  by (rule tx_inv_upd_txq [OF inv])
    (use n in \<open>auto simp: txq_ok_def retry_ok_def aml_txq_is_scheduled_def aml_txq_is_stopped_def\<close>)

text \<open>A broadcast queue may be put on the best-effort queue: it is there already, or idle.\<close>

lemma bcmc_hwq_inv:
  assumes inv: "tx_inv pl 0 [] hw" and i: "NX_FIRST_VIF_TXQ_IDX \<le> i" "i < NX_FIRST_UNK_TXQ_IDX"
  shows "tx_inv pl 0 [] (upd_txq i (\<lambda>t. t\<lparr>txq_hwq := AML_HWQ_BE\<rparr>) hw)"
proof -
  have ii: "i < NX_NB_TXQ"
    using i by (simp add: txq_layout_defs)
  note ok = tx_inv_txq [OF inv ii]
  show ?thesis
  proof (cases "idx (txq hw i) \<noteq> TXQ_INACTIVE \<or> pkt_pushed (txq hw i) \<noteq> 0")
    case True
    then have "txq_hwq (txq hw i) = AML_HWQ_BE"
      using ok i by (auto simp: txq_ok_def)
    then have "upd_txq i (\<lambda>t. t\<lparr>txq_hwq := AML_HWQ_BE\<rparr>) hw = hw"
      by (cases hw) (simp add: upd_txq_def fun_upd_idem_iff aml_txq.equality)
    with inv show ?thesis
      by simp
  next
    case False
    then have "\<not> aml_txq_is_scheduled (txq hw i)"
      using ok by (auto simp: txq_ok_def)
    with False ok show ?thesis
      by (intro tx_inv_idle_upd [OF inv ii])
        (auto simp: txq_ok_def retry_ok_def aml_txq_is_scheduled_def hwq_id_defs NX_TXQ_CNT_def)
  qed
qed

lemma ps_traffic_status_inv [simp]: "tx_inv pl k q (ps_traffic_status p b hw) = tx_inv pl k q hw"
  by (simp add: ps_traffic_status_def Let_def)

lemma count_ready_ok:
  assumes "tx_inv pl 0 [] hw"
  shows "\<exists>hw'. each_txq (count_ready p) is hw = Some hw' \<and> tx_inv pl 0 [] hw'"
  by (rule each_txq_ok) (use assms in \<open>simp_all add: count_ready_def Let_def\<close>)

lemma reset_limits_ok:
  assumes "tx_inv pl 0 [] hw"
  shows "\<exists>hw'. each_txq reset_push_limit is hw = Some hw' \<and> tx_inv pl 0 [] hw' \<and> sta_table hw' = sta_table hw"
proof -
  have "\<exists>hw'. each_txq reset_push_limit is hw = Some hw' \<and> (tx_inv pl 0 [] hw' \<and> sta_table hw' = sta_table hw)"
    by (rule each_txq_ok) (use assms in \<open>auto simp: reset_push_limit_def intro: push_limit_inv\<close>)
  then show ?thesis
    by blast
qed

lemma sta_ok_upd [simp]:
  "(\<And>s. sta_vif_idx (f s) = sta_vif_idx s) \<Longrightarrow> sta_ok (upd_sta q f hw) p = sta_ok hw p"
  by (simp add: sta_ok_def)

lemma ps_enable_ok:
  assumes inv: "tx_inv pl 0 [] hw" and p: "sta_ok hw p"
  shows "\<exists>hw'. aml_ps_bh_enable pl p enable hw = Some hw' \<and> tx_inv pl 0 [] hw'"
proof (cases enable)
  case True
  define hw1 where "hw1 = upd_sta p (\<lambda>s. s\<lparr>ps_active := True, sp_cnt := (sp_cnt s)(LEGACY_PS_ID := 0, UAPSD_ID := 0)\<rparr>) hw"
  have "tx_inv pl 0 [] hw1" "sta_ok hw1 p"
    using inv p by (simp_all add: hw1_def)
  from sta_stop_ok [OF this, of AML_TXQ_STOP_STA_PS] obtain hw2
    where hw2: "aml_txq_sta_stop (Some p) AML_TXQ_STOP_STA_PS hw1 = Some hw2" "tx_inv pl 0 [] hw2" "relinked hw1 hw2"
    by auto
  have p2: "sta_ok hw2 p"
    using \<open>sta_ok hw1 p\<close> by (simp add: sta_ok_def relinked_fields(4) [OF hw2(3)])
  obtain i where i: "aml_txq_sta_get hw2 (Some p) 0 = Some i"
      "is_multicast_sta (sta_idx (sta_table hw2 p)) \<longrightarrow> NX_FIRST_VIF_TXQ_IDX \<le> i \<and> i < NX_FIRST_UNK_TXQ_IDX"
    using sta_get_ok [OF p2, of 0] by blast
  obtain "is" where "is": "foreach_sta_txq hw2 (Some p) = Some is"
    using foreach_ok [OF p2] by blast
  show ?thesis
  proof (cases "is_multicast_sta (sta_idx (sta_table hw2 p))")
    case True
    with i hw2(2) have "tx_inv pl 0 [] (upd_txq i (\<lambda>t. t\<lparr>txq_hwq := AML_HWQ_BE\<rparr>)
       (upd_sta p (\<lambda>s. s\<lparr>pkt_ready := (pkt_ready s)(LEGACY_PS_ID := of_nat (length (sk_list (txq hw2 i))), UAPSD_ID := 0)\<rparr>) hw2))"
      by (intro bcmc_hwq_inv) simp_all
    with True \<open>enable\<close> hw2(1) i(1) show ?thesis
      by (simp add: aml_ps_bh_enable_def hw1_def [symmetric])
  next
    case False
    have "tx_inv pl 0 [] (upd_sta p (\<lambda>s. s\<lparr>pkt_ready := (pkt_ready s)(LEGACY_PS_ID := 0, UAPSD_ID := 0)\<rparr>) hw2)"
      using hw2(2) by simp
    from count_ready_ok [OF this, of p "is"] False \<open>enable\<close> hw2(1) "is" show ?thesis
      by (auto simp: aml_ps_bh_enable_def hw1_def [symmetric])
  qed
next
  case False
  define hw1 where "hw1 = upd_sta p (\<lambda>s. s\<lparr>ps_active := False\<rparr>) hw"
  have inv1: "tx_inv pl 0 [] hw1" and p1: "sta_ok hw1 p"
    using inv p by (simp_all add: hw1_def)
  obtain i where i: "aml_txq_sta_get hw1 (Some p) 0 = Some i"
      "is_multicast_sta (sta_idx (sta_table hw1 p)) \<longrightarrow> NX_FIRST_VIF_TXQ_IDX \<le> i \<and> i < NX_FIRST_UNK_TXQ_IDX"
    using sta_get_ok [OF p1, of 0] by blast
  obtain "is" where "is": "foreach_sta_txq hw1 (Some p) = Some is"
    using foreach_ok [OF p1] by blast
  obtain hw2 where hw2: "(if is_multicast_sta (sta_idx (sta_table hw1 p)) then do {
                 i \<leftarrow> aml_txq_sta_get hw1 (Some p) 0;
                 Some (upd_txq i (\<lambda>t. t\<lparr>txq_hwq := AML_HWQ_BE, push_limit := 0\<rparr>) hw1)
               } else do {
                 is \<leftarrow> foreach_sta_txq hw1 (Some p);
                 each_txq reset_push_limit is hw1
               }) = Some hw2" "tx_inv pl 0 [] hw2" "sta_table hw2 = sta_table hw1"
  proof (cases "is_multicast_sta (sta_idx (sta_table hw1 p))")
    case True
    with i have "tx_inv pl 0 [] (upd_txq i (\<lambda>t. t\<lparr>push_limit := 0\<rparr>) (upd_txq i (\<lambda>t. t\<lparr>txq_hwq := AML_HWQ_BE\<rparr>) hw1))"
      by (intro push_limit_inv bcmc_hwq_inv inv1) simp_all
    with True i show ?thesis
      by (intro that [of "upd_txq i (\<lambda>t. t\<lparr>txq_hwq := AML_HWQ_BE, push_limit := 0\<rparr>) hw1"]) simp_all
  next
    case False
    with reset_limits_ok [OF inv1, of "is"] "is" show ?thesis
      by (auto intro: that)
  qed
  have "sta_ok hw2 p"
    using p1 by (simp add: sta_ok_def hw2(3))
  from sta_start_ok [OF hw2(2) this, of AML_TXQ_STOP_STA_PS] obtain hw3
    where "aml_txq_sta_start pl (Some p) AML_TXQ_STOP_STA_PS hw2 = Some hw3" "tx_inv pl 0 [] hw3"
    by auto
  with hw2(1) False show ?thesis
    by (simp add: aml_ps_bh_enable_def hw1_def [symmetric] Let_def split del: if_split)
qed

lemma start_ps_ok:
  assumes inv: "tx_inv pl 0 [] hw" and i: "i < NX_NB_TXQ" and n: "0 \<le> n"
  shows "\<exists>hw'. aml_txq_start pl i AML_TXQ_STOP_STA_PS
      (upd_sta p f (upd_txq i (\<lambda>t. t\<lparr>push_limit := n\<rparr>) hw)) = Some hw' \<and> tx_inv pl 0 [] hw' \<and>
      sta_table hw' = (sta_table hw)(p := f (sta_table hw p))"
proof -
  have "tx_inv pl 0 [] (upd_sta p f (upd_txq i (\<lambda>t. t\<lparr>push_limit := n\<rparr>) hw))"
    using push_limit_inv [OF inv n] by simp
  from start_inv [OF this i, of AML_TXQ_STOP_STA_PS] obtain hw' where
    hw': "aml_txq_start pl i AML_TXQ_STOP_STA_PS (upd_sta p f (upd_txq i (\<lambda>t. t\<lparr>push_limit := n\<rparr>) hw)) = Some hw'"
      "tx_inv pl 0 [] hw'"
    by auto
  moreover have "aml_bus_type pl \<noteq> PCIE_MODE"
    using inv by (simp add: tx_inv_def)
  ultimately show ?thesis
    using relinked_fields(4) [OF relinked_start [OF _ hw'(1)]] by simp
qed

lemma sp_dispatch_ok:
  assumes "tx_inv pl 0 [] hw" and "sta_ok hw p"
  shows "\<exists>hw'. sp_dispatch pl p ps ts pkt_req hw = Some hw' \<and> tx_inv pl 0 [] hw'"
  using assms
proof (induction ts arbitrary: pkt_req hw)
  case (Cons t ts)
  obtain i where i: "aml_txq_sta_get hw (Some p) t = Some i" "i < NX_NB_TXQ"
    using sta_get_ok [OF Cons.prems(2)] by blast
  define n where "n = min (int (length (sk_list (txq hw i)))) (txq_credits (txq hw i))"
  have n: "0 \<le> n"
    using tx_inv_txq [OF Cons.prems(1) i(2)] by (simp add: n_def txq_ok_def)
  consider "ps_id (txq hw i) \<noteq> ps \<or> n = 0" | "\<not> (ps_id (txq hw i) \<noteq> ps \<or> n = 0)" "n < uint pkt_req"
    | "\<not> (ps_id (txq hw i) \<noteq> ps \<or> n = 0)" "\<not> n < uint pkt_req"
    by blast
  then show ?case
  proof cases
    case 1
    with i Cons show ?thesis
      by (simp add: n_def [symmetric] Let_def)
  next
    case 2
    from start_ps_ok [OF Cons.prems(1) i(2) n, of p "\<lambda>s. s\<lparr>sp_cnt := (sp_cnt s)(ps := sp_cnt s ps + of_int n)\<rparr>"] obtain hw1
      where hw1: "aml_txq_start pl i AML_TXQ_STOP_STA_PS (upd_sta p (\<lambda>s. s\<lparr>sp_cnt := (sp_cnt s)(ps := sp_cnt s ps + of_int n)\<rparr>)
          (upd_txq i (\<lambda>t. t\<lparr>push_limit := n\<rparr>) hw)) = Some hw1" "tx_inv pl 0 [] hw1"
        "sta_table hw1 = (sta_table hw)(p := (sta_table hw p)\<lparr>sp_cnt := (sp_cnt (sta_table hw p))(ps := sp_cnt (sta_table hw p) ps + of_int n)\<rparr>)"
      by blast
    have "sta_ok hw1 p"
      using Cons.prems(2) by (simp add: sta_ok_def hw1)
    with Cons.IH [OF hw1(2)] 2 i(1) hw1(1) show ?thesis
      by (simp add: n_def [symmetric] Let_def)
  next
    case 3
    with start_ps_ok [OF Cons.prems(1) i(2), of "uint pkt_req" p] i(1) show ?thesis
      by (auto simp: n_def [symmetric] Let_def)
  qed
qed simp

lemma traffic_req_ok:
  assumes inv: "tx_inv pl 0 [] hw" and p: "\<forall>p. s = Some p \<longrightarrow> sta_ok hw p"
  shows "\<exists>hw'. aml_ps_bh_traffic_req pl s pkt_req ps hw = Some hw' \<and> tx_inv pl 0 [] hw'"
proof (cases s)
  case (Some p)
  define hw1 where "hw1 = upd_sta p (\<lambda>s. s\<lparr>sp_cnt := (sp_cnt s)(ps := 0)\<rparr>) hw"
  have inv1: "tx_inv pl 0 [] hw1" and p1: "sta_ok hw1 p"
    using inv assms(2) Some by (simp_all add: hw1_def)
  obtain "is" where "is": "foreach_sta_txq hw1 (Some p) = Some is"
    using foreach_ok [OF p1] by blast
  obtain i where i: "aml_txq_sta_get hw1 (Some p) 0 = Some i" "i < NX_NB_TXQ"
    using sta_get_ok [OF p1] by blast
  have a: "\<exists>hw'. each_txq reset_push_limit is hw1 = Some hw' \<and> tx_inv pl 0 [] hw'"
    using reset_limits_ok [OF inv1] by blast
  have b: "\<exists>hw'. aml_txq_start pl i AML_TXQ_STOP_STA_PS (upd_sta p f (upd_txq i (\<lambda>t. t\<lparr>push_limit := uint n\<rparr>) hw1)) = Some hw' \<and>
      tx_inv pl 0 [] hw'" for f and n :: u16
    using start_ps_ok [OF inv1 i(2), of "uint n" p f] by auto
  have c: "\<exists>hw'. sp_dispatch pl p ps nx_tid_prio n hw1 = Some hw' \<and> tx_inv pl 0 [] hw'" for n
    by (rule sp_dispatch_ok [OF inv1 p1])
  show ?thesis
  proof (cases "pkt_req = PS_SP_INTERRUPTED \<and> ps = UAPSD_ID")
    case True
    then have "upd_sta p (\<lambda>s. s\<lparr>sp_cnt := (sp_cnt s)(UAPSD_ID := 0)\<rparr>) hw = hw1"
      by (simp add: hw1_def)
    with True show ?thesis
      using inv a "is" by (simp add: aml_ps_bh_traffic_req_def Some Let_def)
  next
    case False
    then show ?thesis
      using inv b c inv1 i(1) unfolding aml_ps_bh_traffic_req_def Some option.case if_not_P [OF False]
      by (simp add: hw1_def [symmetric] Let_def)
  qed
qed (use inv in \<open>simp add: aml_ps_bh_traffic_req_def\<close>)

section \<open>Credits\<close>

lemma credits_inv:
  assumes inv: "tx_inv pl k p hw" and c: "0 \<le> c" "idx (txq hw i) \<noteq> TXQ_INACTIVE \<longrightarrow> c + pkt_pushed (txq hw i) \<le> TX_MAX_CNT"
    "aml_txq_is_scheduled (txq hw i) \<longrightarrow> 0 < c"
  shows "tx_inv pl k p (upd_txq i (\<lambda>t. t\<lparr>txq_credits := c\<rparr>) hw)"
  by (rule tx_inv_upd_txq [OF inv])
    (use c in \<open>auto simp: txq_ok_def retry_ok_def aml_txq_is_scheduled_def aml_txq_is_stopped_def\<close>)

lemma stop_unscheduled: "idx (txq hw i) \<noteq> TXQ_INACTIVE \<Longrightarrow> \<not> aml_txq_is_scheduled (txq (aml_txq_stop i r hw) i)"
  by (simp add: aml_txq_stop_def)

lemma stop_credits:
  "aml_txq_stop i r (upd_txq i (\<lambda>t. t\<lparr>txq_credits := c\<rparr>) hw) = upd_txq i (\<lambda>t. t\<lparr>txq_credits := c\<rparr>) (aml_txq_stop i r hw)"
  by (auto simp: aml_txq_stop_def aml_txq_del_from_hw_list_def upd_hwq_def upd_txq_def aml_txq_is_scheduled_def
      intro!: tx_hw.equality aml_txq.equality ext)

text \<open>The credits a queue gets, and what follows from their number.\<close>

lemma set_credits_ok:
  assumes inv: "tx_inv pl 0 [] hw" and i: "i < NX_NB_TXQ" and act: "idx (txq hw i) \<noteq> TXQ_INACTIVE"
    and c: "0 \<le> c" "c + pkt_pushed (txq hw i) \<le> TX_MAX_CNT"
  shows "\<exists>hw'. (let hw = upd_txq i (\<lambda>t. t\<lparr>txq_credits := c\<rparr>) hw in
      if txq_credits (txq hw i) \<le> 0 then Some (aml_txq_stop i AML_TXQ_STOP_FULL hw)
      else aml_txq_start pl i AML_TXQ_STOP_FULL hw) = Some hw' \<and> tx_inv pl 0 [] hw' \<and>
      relinked (upd_txq i (\<lambda>t. t\<lparr>txq_credits := c\<rparr>) hw) hw'"
proof (cases "c \<le> 0")
  case True
  have "tx_inv pl 0 [] (aml_txq_stop i AML_TXQ_STOP_FULL hw)"
    using inv i by (rule stop_inv) simp
  then have "tx_inv pl 0 [] (upd_txq i (\<lambda>t. t\<lparr>txq_credits := c\<rparr>) (aml_txq_stop i AML_TXQ_STOP_FULL hw))"
    using c stop_unscheduled [OF act, of AML_TXQ_STOP_FULL]
    by (intro credits_inv) (simp_all add: relinked_fields [OF relinked_stop])
  with True show ?thesis
    by (simp add: stop_credits [symmetric])
next
  case False
  have "tx_inv pl 0 [] (upd_txq i (\<lambda>t. t\<lparr>txq_credits := c\<rparr>) hw)"
    using inv False c by (intro credits_inv) simp_all
  moreover have "aml_bus_type pl \<noteq> PCIE_MODE"
    using inv by (simp add: tx_inv_def)
  ultimately show ?thesis
    using start_inv [OF _ i, of pl 0 "[]" "upd_txq i (\<lambda>t. t\<lparr>txq_credits := c\<rparr>) hw" AML_TXQ_STOP_FULL] False
    by (auto intro: relinked_start)
qed

text \<open>A queue never has more frames in the firmware than its hardware queue takes.\<close>

lemma txq_pushed_bound:
  assumes inv: "tx_inv pl k p hw" and i: "i < NX_NB_TXQ"
  shows "0 \<le> pkt_pushed (txq hw i)" "pkt_pushed (txq hw i) \<le> hwq_size (hwq hw (txq_hwq (txq hw i)))"
    "hwq_size (hwq hw (txq_hwq (txq hw i))) \<le> TX_MAX_CNT"
proof -
  define q where "q = txq_hwq (txq hw i)"
  have q: "q < NX_TXQ_CNT"
    using tx_inv_txq [OF inv i] by (simp add: txq_ok_def q_def)
  have fw: "fw_ok hw" and pp: "pkt_pushed (txq hw i) = int (fw_of_txq hw i)" and hq: "hwq_ok hw q"
    using inv i q by (simp_all add: tx_inv_def frames_ok_def)
  show "0 \<le> pkt_pushed (txq hw i)"
    by (simp add: pp)
  have "fw_of_txq hw i \<le> fw_of_hwq hw q"
  proof -
    have "filter (\<lambda>a. map_option hdr_txq (hdrs hw a) = Some i) (fw_frames (ipc_env hw)) =
      filter (\<lambda>a. map_option hdr_txq (hdrs hw a) = Some i)
        (filter (\<lambda>a. map_option hw_queue (hdrs hw a) = Some q) (fw_frames (ipc_env hw)))"
      unfolding filter_filter by (rule filter_cong) (use fw_okD [OF fw] in \<open>force simp: q_def\<close>)+
    then show ?thesis
      by (simp only: fw_of_txq_def fw_of_hwq_def length_filter_le)
  qed
  then show "pkt_pushed (txq hw i) \<le> hwq_size (hwq hw (txq_hwq (txq hw i)))"
    using hq by (simp add: pp hwq_ok_def q_def)
  show "hwq_size (hwq hw (txq_hwq (txq hw i))) \<le> TX_MAX_CNT"
  proof -
    have "hwq_size (hwq hw q) = nx_txdesc_cnt_ext ! q"
      using hq by (simp add: hwq_ok_def)
    moreover have "nx_txdesc_cnt_ext ! q \<le> TX_MAX_CNT"
      using q by (auto simp: nx_txdesc_cnt_ext_def TX_MAX_CNT_def NX_TXQ_CNT_def less_Suc_eq numeral_eq_Suc)
    ultimately show ?thesis
      by (simp add: q_def)
  qed
qed

text \<open>Of \<open>n\<close> retries the loop drops \<open>(n + 1) div 2\<close>.\<close>

lemma drop_retries_ok:
  assumes "tx_inv pl 0 [] hw" and "i < NX_NB_TXQ" and "max 0 (nb_retry (txq hw i) - packet) < int n" and "0 \<le> packet"
    and "k = nat ((max 0 (nb_retry (txq hw i) - packet) + 1) div 2)"
  shows "\<exists>hw'. drop_retries n packet i hw = Some hw' \<and> tx_inv pl 0 [] hw' \<and>
     dropped_from i (take k (sk_list (txq hw i))) (drop k (sk_list (txq hw i))) hw hw' \<and>
     nb_retry (txq hw' i) = nb_retry (txq hw i) - int k"
  using assms
proof (induction n arbitrary: packet hw k)
  case 0
  then show ?case
    by simp
next
  case (Suc n)
  show ?case
  proof (cases "nb_retry (txq hw i) \<le> packet")
    case True
    then have "k = 0"
      using Suc.prems(5) by simp
    with True Suc.prems(1) show ?thesis
      by (auto intro: dropped_refl)
  next
    case False
    have ro: "retry_ok (txq hw i) (sk_list (txq hw i))"
      using tx_inv_txq [OF Suc.prems(1,2)] by (simp add: txq_ok_def waiting_def)
    have nb: "0 < nb_retry (txq hw i)"
      using False Suc.prems(4) by simp
    with ro obtain a as where s: "sk_list (txq hw i) = a # as"
      by (cases "sk_list (txq hw i)") (auto simp: retry_ok_def)
    from drop_ok [OF Suc.prems(1,2), of "[]" a as True] s nb obtain hw1
      where hw1: "aml_txq_drop_skb i a True hw = Some hw1" "tx_inv pl 0 [] hw1" "dropped_from i [a] as hw hw1"
        "nb_retry (txq hw1 i) = nb_retry (txq hw i) - 1"
      by auto
    define m where "m = nat ((max 0 (nb_retry (txq hw1 i) - (packet + 1)) + 1) div 2)"
    have k: "k = Suc m"
    proof -
      define x where "x = nb_retry (txq hw i) - packet - 1"
      have x: "nb_retry (txq hw i) - packet = x + 1" "nb_retry (txq hw1 i) - (packet + 1) = x - 1" "0 \<le> x"
        using False hw1(4) by (simp_all add: x_def)
      show ?thesis
        using x(3) unfolding Suc.prems(5) m_def x(1,2) by (cases "x = 0") (simp_all add: max_def, presburger?)
    qed
    have "max 0 (nb_retry (txq hw1 i) - (packet + 1)) < int n"
      using Suc.prems(3) hw1(4) False by simp
    from Suc.IH [OF hw1(2) Suc.prems(2) this _ m_def] Suc.prems(4) obtain hw2
      where hw2: "drop_retries n (packet + 1) i hw1 = Some hw2" "tx_inv pl 0 [] hw2"
        "dropped_from i (take m (sk_list (txq hw1 i))) (drop m (sk_list (txq hw1 i))) hw1 hw2"
        "nb_retry (txq hw2 i) = nb_retry (txq hw1 i) - int m"
      by auto
    have l: "sk_list (txq hw1 i) = as"
      by (rule dropped_fields(2) [OF hw1(3)])
    have "dropped_from i ([a] @ take m as) (drop m as) hw hw2"
      using dropped_trans [OF hw1(3) hw2(3) [unfolded l]] .
    with hw1(1,4) hw2(1,2,4) False s show ?thesis
      by (simp add: k)
  qed
qed

lemma credit_update_ok:
  assumes inv: "tx_inv pl 0 [] hw" and p: "sta_ok hw p"
  shows "\<exists>hw'. aml_txq_credit_update pl p t update hw = Some hw' \<and> tx_inv pl 0 [] hw'"
proof -
  obtain i where i: "aml_txq_sta_get hw (Some p) t = Some i" "i < NX_NB_TXQ"
    using sta_get_ok [OF p] by blast
  have bus: "aml_bus_type pl \<noteq> PCIE_MODE"
    using inv by (simp add: tx_inv_def)
  note b = txq_pushed_bound [OF inv i(2)]
  note T = tx_inv_txq [OF inv i(2)]
  have drop: "\<exists>hw'. drop_retries (Suc (nat (nb_retry (txq hw1 i)))) 0 i hw1 = Some hw' \<and> tx_inv pl 0 [] hw'"
    if "tx_inv pl 0 [] hw1" for hw1
    using drop_retries_ok [OF that i(2), of 0 "Suc (nat (nb_retry (txq hw1 i)))"] by auto
  show ?thesis
  proof (cases "idx (txq hw i) = TXQ_INACTIVE")
    case True
    with inv i(1) drop [OF inv] show ?thesis
      by (simp add: aml_txq_credit_update_def Let_def)
  next
    case False
    define sz where "sz = hwq_size (hwq hw (txq_hwq (txq hw i)))"
    define u where "u = (if NX_TXQ_INITIAL_CREDITS < update then s8 (sz - NX_TXQ_INITIAL_CREDITS) else update)"
    define c where "c = credit_target pl u sz (txq hw i)"
    have c: "0 \<le> c" "c + pkt_pushed (txq hw i) \<le> TX_MAX_CNT"
      using b by (auto simp: c_def credit_target_def Let_def sz_def bus)
    have e: "upd_txq i (\<lambda>t. t\<lparr>txq_credits := credit_target pl u sz t\<rparr>) hw = upd_txq i (\<lambda>t. t\<lparr>txq_credits := c\<rparr>) hw"
      by (simp add: upd_txq_def c_def)
    from set_credits_ok [OF inv i(2) False c] obtain hw1
      where hw1: "(let hw = upd_txq i (\<lambda>t. t\<lparr>txq_credits := c\<rparr>) hw in
        if txq_credits (txq hw i) \<le> 0 then Some (aml_txq_stop i AML_TXQ_STOP_FULL hw)
        else aml_txq_start pl i AML_TXQ_STOP_FULL hw) = Some hw1" "tx_inv pl 0 [] hw1"
      by blast
    have "aml_txq_credit_update pl p t update hw = (if u < NX_TXQ_INITIAL_CREDITS
        then drop_retries (Suc (nat (nb_retry (txq hw1 i)))) 0 i hw1 else Some hw1)"
      using hw1(1) False unfolding aml_txq_credit_update_def i(1)
      by (simp add: sz_def [symmetric] bus u_def [symmetric] e c_def [symmetric] Let_def del: drop_retries.simps split del: if_split cong: if_cong)
    with drop [OF hw1(2)] hw1(2) show ?thesis
      by simp
  qed
qed

section \<open>Ageing\<close>

definition same_tables :: "tx_hw \<Rightarrow> tx_hw \<Rightarrow> bool" where
  "same_tables hw hw' \<longleftrightarrow> vif_table hw' = vif_table hw \<and> vifs hw' = vifs hw \<and>
     (\<forall>p. sta_vif_idx (sta_table hw' p) = sta_vif_idx (sta_table hw p)) \<and>
     (\<forall>p. sta_idx (sta_table hw' p) = sta_idx (sta_table hw p))"

lemma same_tables_refl [simp]: "same_tables hw hw"
  by (simp add: same_tables_def)

lemma same_tables_trans: "same_tables hw hw1 \<Longrightarrow> same_tables hw1 hw2 \<Longrightarrow> same_tables hw hw2"
  by (simp add: same_tables_def)

lemma same_tables_ok:
  assumes "same_tables hw hw'"
  shows "sta_ok hw' p = sta_ok hw p" "vif_ok hw' v = vif_ok hw v" "vifs hw' = vifs hw" "vif_table hw' = vif_table hw"
    "aml_txq_vif_get hw' v ty = aml_txq_vif_get hw v ty" "foreach_sta_txq hw' s = foreach_sta_txq hw s"
  using assms
  by (auto simp: same_tables_def sta_ok_def vif_ok_def aml_txq_vif_get_def aml_txq_vif_idx_def foreach_sta_txq_def
      aml_txq_sta_get_def aml_txq_sta_idx_def split: option.splits)

lemma free_subframes_vifs: "free_subframes ss hw = Some hw' \<Longrightarrow> vifs hw' = vifs hw"
  by (induction ss arbitrary: hw) (auto split: Option.bind_splits)

lemma drop_vifs: "aml_txq_drop_skb i a r hw = Some hw' \<Longrightarrow> vifs hw' = vifs hw"
  by (auto simp: aml_txq_drop_skb_def Let_def retry_taken_def upd_txq_def report_def dest!: free_subframes_vifs
      split: Option.bind_splits if_splits)

lemma ps_dropped_fields [simp]:
  "same_tables hw (ps_frame_dropped i hw)" "sk_list (txq (ps_frame_dropped i hw) j) = sk_list (txq hw j)"
  "nb_retry (txq (ps_frame_dropped i hw) j) = nb_retry (txq hw j)" "hdrs (ps_frame_dropped i hw) = hdrs hw"
  by (auto simp: ps_frame_dropped_def Let_def aml_set_traffic_status_def same_tables_def upd_sta_def upd_txq_def report_def
      split: option.split)

lemma ps_dropped_inv:
  assumes inv: "tx_inv pl k p hw" and i: "i < NX_NB_TXQ"
  shows "tx_inv pl k p (ps_frame_dropped i hw)"
proof -
  have "0 \<le> push_limit (txq hw i)"
    using tx_inv_txq [OF inv i] by (simp add: txq_ok_def)
  moreover have lim: "tx_inv pl k p (upd_txq i (\<lambda>t. t\<lparr>push_limit := push_limit t - 1\<rparr>) hw1)"
    if "tx_inv pl k p hw1" "0 < push_limit (txq hw1 i)" for hw1
  proof -
    have "upd_txq i (\<lambda>t. t\<lparr>push_limit := push_limit t - 1\<rparr>) hw1 = upd_txq i (\<lambda>t. t\<lparr>push_limit := push_limit (txq hw1 i) - 1\<rparr>) hw1"
      by (simp add: upd_txq_def)
    with push_limit_inv [OF that(1), of "push_limit (txq hw1 i) - 1" i] that(2) show ?thesis
      by simp
  qed
  ultimately show ?thesis
    using inv by (auto simp: ps_frame_dropped_def Let_def split: option.split intro!: lim)
qed

lemma drop_old_walk_ok:
  assumes "tx_inv pl 0 [] hw" and "i < NX_NB_TXQ" and "sk_list (txq hw i) = rs @ as" and "nb_retry (txq hw i) = int (length rs)"
  shows "\<exists>q d hw'. drop_old_walk i timeout as dropped hw = Some (q, d, hw') \<and> tx_inv pl 0 [] hw' \<and> same_tables hw hw'"
  using assms
proof (induction "as" arbitrary: dropped hw)
  case (Cons a as)
  have "frames_ok 0 [] hw"
    using Cons.prems(1) by (simp add: tx_inv_def)
  then have "map_option hdr_txq (hdrs hw a) = Some i"
    using Cons.prems(2,3) unfolding frames_ok_def by (auto simp: waiting_def)
  then obtain h where h: "hdrs hw a = Some h"
    by blast
  show ?case
  proof (cases "time_after (jiffies hw) (sw_jiffies h + timeout)")
    case True
    from drop_ok [OF Cons.prems(1,2,3), of False] Cons.prems(4) obtain hw1
      where hw1: "aml_txq_drop_skb i a False hw = Some hw1" "tx_inv pl 0 [] hw1" "dropped_from i [a] (rs @ as) hw hw1"
        "nb_retry (txq hw1 i) = int (length rs)"
      by auto
    have same: "same_tables hw hw1"
      using hw1(3) drop_vifs [OF hw1(1)] by (simp add: dropped_from_def same_tables_def)
    have "sk_list (txq hw1 i) = rs @ as"
      by (rule dropped_fields(2) [OF hw1(3)])
    with Cons.IH [OF ps_dropped_inv [OF hw1(2) Cons.prems(2)] Cons.prems(2), of True] hw1(4) obtain q d hw2
      where hw2: "drop_old_walk i timeout as True (ps_frame_dropped i hw1) = Some (q, d, hw2)" "tx_inv pl 0 [] hw2"
        "same_tables (ps_frame_dropped i hw1) hw2"
      by auto
    have "same_tables hw hw2"
      using same_tables_trans [OF same same_tables_trans [OF ps_dropped_fields(1) hw2(3)]] .
    with True h hw1(1) hw2(1,2) show ?thesis
      by simp
  qed (use h Cons.prems(1) in auto)
qed auto

lemma del_vifs [simp]: "vifs (aml_txq_del_from_hw_list i hw) = vifs hw"
  by (simp add: aml_txq_del_from_hw_list_def upd_txq_def upd_hwq_def)

lemma flow_vifs [simp]: "vifs (aml_netif_txq_flow_control i hw) = vifs hw"
  by (simp add: aml_netif_txq_flow_control_def upd_txq_def Let_def)

lemma drop_old_traffic_ok:
  assumes inv: "tx_inv pl 0 [] hw" and i: "i < NX_NB_TXQ"
  shows "\<exists>q d hw'. aml_txq_drop_old_traffic i timeout dropped hw = Some (q, d, hw') \<and> tx_inv pl 0 [] hw' \<and> same_tables hw hw'"
proof (cases "idx (txq hw i) = TXQ_INACTIVE")
  case False
  define n where "n = nat (nb_retry (txq hw i))"
  have "retry_ok (txq hw i) (sk_list (txq hw i))"
    using tx_inv_txq [OF inv i] by (simp add: txq_ok_def waiting_def)
  then have n: "nb_retry (txq hw i) = int n" "n \<le> length (sk_list (txq hw i))"
    by (auto simp: retry_ok_def n_def)
  then have "nb_retry (txq hw i) = int (length (take n (sk_list (txq hw i))))"
    by simp
  from drop_old_walk_ok [OF inv i _ this, of "drop n (sk_list (txq hw i))" timeout dropped] obtain q d hw1
    where hw1: "drop_old_walk i timeout (drop n (sk_list (txq hw i))) dropped hw = Some (q, d, hw1)" "tx_inv pl 0 [] hw1"
      "same_tables hw hw1"
    by auto
  have "tx_inv pl 0 [] (upd_txq i (\<lambda>t. t\<lparr>pkt_sent := 0\<rparr>) (aml_txq_del_from_hw_list i hw1))"
    by (intro pkt_sent_inv del_inv hw1(2) i)
  moreover have "same_tables hw (upd_txq i (\<lambda>t. t\<lparr>pkt_sent := 0\<rparr>) (aml_txq_del_from_hw_list i hw1))"
    using hw1(3) by (simp add: same_tables_def upd_txq_def)
  moreover have "same_tables hw hw2 \<Longrightarrow> same_tables hw (aml_netif_txq_flow_control i hw2)" for hw2
    by (simp add: same_tables_def)
  ultimately show ?thesis
    using False hw1 by (auto simp: aml_txq_drop_old_traffic_def n_def [symmetric] intro: flow_control_inv)
qed (use inv in \<open>auto simp: aml_txq_drop_old_traffic_def\<close>)

lemma drop_old_each_ok:
  assumes "tx_inv pl 0 [] hw" and "\<forall>i\<in>set is. i < NX_NB_TXQ"
  shows "\<exists>q d hw'. drop_old_each timeout is (queued, dropped, hw) = Some (q, d, hw') \<and> tx_inv pl 0 [] hw' \<and> same_tables hw hw'"
  using assms
proof (induction "is" arbitrary: queued dropped hw)
  case (Cons i "is")
  from drop_old_traffic_ok [OF Cons.prems(1), of i timeout dropped] Cons.prems(2) obtain q d hw1
    where hw1: "aml_txq_drop_old_traffic i timeout dropped hw = Some (q, d, hw1)" "tx_inv pl 0 [] hw1" "same_tables hw hw1"
    by auto
  with Cons.IH [OF hw1(2), of "queued \<or> q" d] Cons.prems(2) show ?case
    by (auto dest: same_tables_trans)
qed simp

lemma drop_old_stas_ok:
  assumes "tx_inv pl 0 [] hw" and "\<forall>s\<in>set ss. sta_ok hw s"
  shows "\<exists>q d hw'. drop_old_stas timeout ss (queued, dropped, hw) = Some (q, d, hw') \<and> tx_inv pl 0 [] hw' \<and> same_tables hw hw'"
  using assms
proof (induction ss arbitrary: queued dropped hw)
  case (Cons s ss)
  obtain "is" where "is": "foreach_sta_txq hw (Some s) = Some is" "\<forall>i\<in>set is. i < NX_NB_TXQ"
    using foreach_ok [of hw s] Cons.prems(2) by auto
  from drop_old_each_ok [OF Cons.prems(1) "is"(2)] obtain q d hw1
    where hw1: "drop_old_each (timeout * of_int (listen_interval (sta_table hw s))) is (queued, dropped, hw) = Some (q, d, hw1)"
      "tx_inv pl 0 [] hw1" "same_tables hw hw1"
    by blast
  with Cons.IH [OF hw1(2), of q d] Cons.prems(2) "is"(1) show ?case
    by (auto dest: same_tables_trans simp: same_tables_ok [OF hw1(3)])
qed simp

text \<open>The interfaces whose queues can be computed.\<close>

definition vif_tables_ok :: "tx_hw \<Rightarrow> nat \<Rightarrow> bool" where
  "vif_tables_ok hw v \<longleftrightarrow> vif_ok hw v \<and>
     (\<forall>ss. ap_sta_list (vif_table hw v) = Some ss \<longrightarrow> (\<forall>s\<in>set ss. sta_ok hw s)) \<and>
     (\<forall>s. sta_ap (vif_table hw v) = Some s \<or> tdls_sta (vif_table hw v) = Some s \<longrightarrow> sta_ok hw s)"

lemma report_dropped:
  "tx_inv pl 0 [] hw \<Longrightarrow> tx_inv pl 0 [] (if b then report r hw else hw)"
  "same_tables hw0 hw \<Longrightarrow> same_tables hw0 (if b then report r hw else hw)"
  by (simp_all add: same_tables_def report_def)

lemma foreach_any_ok:
  assumes "\<forall>p. s = Some p \<longrightarrow> sta_ok hw p"
  shows "\<exists>is. foreach_sta_txq hw s = Some is \<and> (\<forall>i\<in>set is. i < NX_NB_TXQ)"
proof (cases s)
  case (Some p)
  with assms foreach_ok [of hw p] show ?thesis
    by blast
qed (simp add: foreach_sta_txq_def)

lemma drop_ap_ok:
  assumes inv: "tx_inv pl 0 [] hw" and v: "vif_tables_ok hw v"
  shows "\<exists>q hw'. aml_txq_drop_ap_vif_old_traffic v hw = Some (q, hw') \<and> tx_inv pl 0 [] hw' \<and> same_tables hw hw'"
proof -
  have vo: "vif_ok hw v"
    using v by (simp add: vif_tables_ok_def)
  obtain i j where ij: "aml_txq_vif_get hw v NX_BCMC_TXQ_TYPE = Some i" "i < NX_NB_TXQ"
      "aml_txq_vif_get hw v NX_UNK_TXQ_TYPE = Some j" "j < NX_NB_TXQ"
    using vif_get_ok [OF vo] by metis
  obtain q1 d1 hw1 where hw1: "aml_txq_drop_old_traffic i (AML_TXQ_MAX_QUEUE_JIFFIES hw) False hw = Some (q1, d1, hw1)"
      "tx_inv pl 0 [] hw1" "same_tables hw hw1"
    using drop_old_traffic_ok [OF inv ij(2)] by blast
  obtain q2 d2 hw2 where hw2: "aml_txq_drop_old_traffic j (AML_TXQ_MAX_QUEUE_JIFFIES hw1) d1 hw1 = Some (q2, d2, hw2)"
      "tx_inv pl 0 [] hw2" "same_tables hw1 hw2"
    using drop_old_traffic_ok [OF hw1(2) ij(4)] by blast
  define hw3 where "hw3 = (if d2 then report (Dropped_old v) hw2 else hw2)"
  have inv3: "tx_inv pl 0 [] hw3" and same3: "same_tables hw hw3"
    using report_dropped hw2(2) same_tables_trans [OF hw1(3) hw2(3)] by (simp_all add: hw3_def)
  define timeout where "timeout = drop_bit 10 (ucast (bcn_interval (vif_table hw v)) * hz hw * 3)"
  have "\<exists>q d hw'. (case ap_sta_list (vif_table hw3 v) of None \<Rightarrow> Some (False, d2, hw3)
      | Some ss \<Rightarrow> drop_old_stas timeout ss (False, d2, hw3)) = Some (q, d, hw') \<and> tx_inv pl 0 [] hw' \<and> same_tables hw hw'"
  proof (cases "ap_sta_list (vif_table hw v)")
    case None
    with inv3 same3 show ?thesis
      by (auto simp: same_tables_ok [OF same3])
  next
    case (Some ss)
    then have "\<forall>s\<in>set ss. sta_ok hw3 s"
      using v by (simp add: vif_tables_ok_def same_tables_ok [OF same3])
    from drop_old_stas_ok [OF inv3 this, of timeout False d2] Some show ?thesis
      by (auto simp: same_tables_ok [OF same3] intro: same_tables_trans [OF same3])
  qed
  then obtain q d hw4 where "(case ap_sta_list (vif_table hw3 v) of None \<Rightarrow> Some (False, d2, hw3)
      | Some ss \<Rightarrow> drop_old_stas timeout ss (False, d2, hw3)) = Some (q, d, hw4)" "tx_inv pl 0 [] hw4" "same_tables hw hw4"
    by blast
  then show ?thesis
    using hw1(1) hw2(1) ij unfolding timeout_def
    by (simp add: aml_txq_drop_ap_vif_old_traffic_def same_tables_ok [OF hw1(3)] hw3_def [symmetric])
qed

lemma drop_sta_ok:
  assumes inv: "tx_inv pl 0 [] hw" and v: "vif_tables_ok hw v"
  shows "\<exists>q hw'. aml_txq_drop_sta_vif_old_traffic v hw = Some (q, hw') \<and> tx_inv pl 0 [] hw' \<and> same_tables hw hw'"
proof -
  define timeout where "timeout = AML_TXQ_MAX_QUEUE_JIFFIES hw"
  obtain j where j: "aml_txq_vif_get hw v NX_UNK_TXQ_TYPE = Some j" "j < NX_NB_TXQ"
    using vif_get_ok [of hw v NX_UNK_TXQ_TYPE] v by (auto simp: vif_tables_ok_def)
  obtain "is" where "is": "foreach_sta_txq hw (tdls_sta (vif_table hw v)) = Some is" "\<forall>i\<in>set is. i < NX_NB_TXQ"
    using foreach_any_ok [of "tdls_sta (vif_table hw v)" hw] v by (auto simp: vif_tables_ok_def)
  obtain js where js: "foreach_sta_txq hw (sta_ap (vif_table hw v)) = Some js" "\<forall>i\<in>set js. i < NX_NB_TXQ"
    using foreach_any_ok [of "sta_ap (vif_table hw v)" hw] v by (auto simp: vif_tables_ok_def)
  obtain q1 d1 hw1 where hw1: "(if tdls_link_active (vif_table hw v) then do {
            i \<leftarrow> aml_txq_vif_get hw v NX_UNK_TXQ_TYPE;
            is \<leftarrow> foreach_sta_txq hw (tdls_sta (vif_table hw v));
            drop_old_each timeout (i # is) (False, False, hw)
          } else Some (False, False, hw)) = Some (q1, d1, hw1)" "tx_inv pl 0 [] hw1" "same_tables hw hw1"
  proof (cases "tdls_link_active (vif_table hw v)")
    case True
    from drop_old_each_ok [OF inv, of "j # is" timeout False False] j "is" obtain q1 d1 hw1
      where "drop_old_each timeout (j # is) (False, False, hw) = Some (q1, d1, hw1)" "tx_inv pl 0 [] hw1" "same_tables hw hw1"
      by auto
    with True j "is" show ?thesis
      by (intro that) (simp_all del: drop_old_each.simps)
  next
    case False
    with inv show ?thesis
      by (intro that [of False False hw]) simp_all
  qed
  obtain q2 d2 hw2 where hw2: "drop_old_each timeout js (q1, d1, hw1) = Some (q2, d2, hw2)" "tx_inv pl 0 [] hw2" "same_tables hw1 hw2"
    using drop_old_each_ok [OF hw1(2) js(2)] by blast
  have "aml_txq_drop_sta_vif_old_traffic v hw = Some (q2, if d2 then report (Dropped_old v) hw2 else hw2)"
    unfolding aml_txq_drop_sta_vif_old_traffic_def Let_def timeout_def [symmetric] hw1(1)
    using hw2(1) js(1) by (simp add: same_tables_ok [OF hw1(3)])
  then show ?thesis
    using report_dropped(1) [OF hw2(2)] report_dropped(2) [OF same_tables_trans [OF hw1(3) hw2(3)]] by blast
qed

lemma cleanup_vifs_ok:
  assumes "tx_inv pl 0 [] hw" and "\<forall>v\<in>set vs. vif_tables_ok hw v"
  shows "\<exists>q hw'. cleanup_vifs vs (queued, hw) = Some (q, hw') \<and> tx_inv pl 0 [] hw' \<and> same_tables hw hw'"
  using assms
proof (induction vs arbitrary: queued hw)
  case (Cons v vs)
  define r where "r = (let ty = iftype (vif_table hw v) in
        if ty = NL80211_IFTYPE_AP \<or> ty = NL80211_IFTYPE_P2P_GO \<or> ty = NL80211_IFTYPE_MESH_POINT
        then aml_txq_drop_ap_vif_old_traffic v hw
        else if ty = NL80211_IFTYPE_STATION \<or> ty = NL80211_IFTYPE_P2P_CLIENT
        then aml_txq_drop_sta_vif_old_traffic v hw
        else Some (False, hw))"
  have "\<exists>q hw1. r = Some (q, hw1) \<and> tx_inv pl 0 [] hw1 \<and> same_tables hw hw1"
    using drop_ap_ok [OF Cons.prems(1)] drop_sta_ok [OF Cons.prems(1)] Cons.prems by (auto simp: r_def Let_def)
  then obtain q hw1 where r: "r = Some (q, hw1)" "tx_inv pl 0 [] hw1" "same_tables hw hw1"
    by blast
  have "vif_tables_ok hw1 x = vif_tables_ok hw x" for x
    by (simp add: vif_tables_ok_def same_tables_ok [OF r(3)])
  with Cons.IH [OF r(2), of "queued \<or> q"] Cons.prems(2) obtain q' hw2
    where "cleanup_vifs vs (queued \<or> q, hw1) = Some (q', hw2)" "tx_inv pl 0 [] hw2" "same_tables hw1 hw2"
    by auto
  with r(1) same_tables_trans [OF r(3)] show ?case
    by (simp add: r_def [symmetric])
qed simp

lemma cleanup_timer_ok:
  assumes inv: "tx_inv pl 0 [] hw" and v: "\<forall>v\<in>set (vifs hw). vif_tables_ok hw v"
  shows "\<exists>hw'. aml_txq_cleanup_timer_cb pl hw = Some hw' \<and> tx_inv pl 0 [] hw'"
proof (cases "hw_state pl = WIFI_SUSPEND_STATE_NONE")
  case True
  define hw1 where "hw1 = hw\<lparr>txq_cleanup := None\<rparr>"
  have "tx_inv pl 0 [] hw1"
    using inv by (simp add: hw1_def)
  moreover have "\<forall>v\<in>set (vifs hw1). vif_tables_ok hw1 v"
    using v by (simp add: hw1_def vif_tables_ok_def vif_ok_def sta_ok_def)
  ultimately obtain q hw2 where "cleanup_vifs (vifs hw1) (False, hw1) = Some (q, hw2)" "tx_inv pl 0 [] hw2"
    using cleanup_vifs_ok by blast
  with True show ?thesis
    by (simp add: aml_txq_cleanup_timer_cb_def hw1_def [symmetric] Let_def)
qed (use inv in \<open>simp add: aml_txq_cleanup_timer_cb_def Let_def\<close>)

end
