(* ===== verification/Tx_View.thy ===== *)
theory Tx_View
  imports Txq_Events
begin

text \<open>
  A view of the TX state: other frame headers, other subframes, another choice of the A-MSDU
  each queue builds. Starting, stopping and queueing do not look at these, so they commute
  with every view; this is how the invariant is kept while the headers are being rewritten
  by the dismantling of an A-MSDU or while a confirmed frame is in the hands of its caller.
\<close>

section \<open>Views\<close>

definition view :: "(addr \<Rightarrow> aml_sw_txhdr option) \<Rightarrow> (addr \<Rightarrow> aml_amsdu_txhdr option) \<Rightarrow> (nat \<Rightarrow> addr option) \<Rightarrow> tx_hw \<Rightarrow> tx_hw" where
  "view H S A hw = hw\<lparr>txq := (\<lambda>j. (txq hw j)\<lparr>txq_amsdu := A j\<rparr>), hdrs := H, subframes := S\<rparr>"

lemma view_sel [simp]:
  "txq (view H S A hw) = (\<lambda>j. (txq hw j)\<lparr>txq_amsdu := A j\<rparr>)" "hdrs (view H S A hw) = H" "subframes (view H S A hw) = S"
  "hwq (view H S A hw) = hwq hw" "ipc_env (view H S A hw) = ipc_env hw" "sta_table (view H S A hw) = sta_table hw"
  "vif_table (view H S A hw) = vif_table hw" "retry_warned (view H S A hw) = retry_warned hw"
  "tx_desc_save (view H S A hw) = tx_desc_save hw" "jiffies (view H S A hw) = jiffies hw" "hz (view H S A hw) = hz hw"
  "txq_cleanup (view H S A hw) = txq_cleanup hw" "ndev_stopped (view H S A hw) = ndev_stopped hw"
  "aml_tx_sem (view H S A hw) = aml_tx_sem hw" "reports (view H S A hw) = reports hw" "vifs (view H S A hw) = vifs hw"
  "txdesc_trigger (view H S A hw) = txdesc_trigger hw" "dma_map_ok (view H S A hw) = dma_map_ok hw"
  "cfm_balance (view H S A hw) = cfm_balance hw"
  by (simp_all add: view_def)

lemma view_view [simp]: "view H S A (view H' S' A' hw) = view H S A hw"
  by (simp add: view_def)

text \<open>A state is its own view.\<close>

definition amsdus :: "tx_hw \<Rightarrow> nat \<Rightarrow> addr option" where
  "amsdus hw j = txq_amsdu (txq hw j)"

lemma amsdus_view [simp]: "amsdus (view H S A hw) = A"
  by (rule ext) (simp add: amsdus_def)

lemma view_self: "hdrs hw = H \<Longrightarrow> subframes hw = S \<Longrightarrow> amsdus hw = A \<Longrightarrow> view H S A hw = hw"
  by (rule tx_hw.equality) (auto simp: amsdus_def intro!: ext)

lemma stopped_amsdu [simp]:
  "aml_txq_is_stopped (t\<lparr>txq_amsdu := x\<rparr>) = aml_txq_is_stopped t"
  "aml_txq_is_scheduled (t\<lparr>txq_amsdu := x\<rparr>) = aml_txq_is_scheduled t"
  "aml_txq_is_full (t\<lparr>txq_amsdu := x\<rparr>) = aml_txq_is_full t"
  "aml_txq_skb_ready (t\<lparr>txq_amsdu := x\<rparr>) = aml_txq_skb_ready t"
  by (simp_all add: aml_txq_is_stopped_def aml_txq_is_scheduled_def aml_txq_is_full_def aml_txq_skb_ready_def)

text \<open>A change of a queue that leaves its A-MSDU alone.\<close>

definition keeps_amsdu :: "(aml_txq \<Rightarrow> aml_txq) \<Rightarrow> bool" where
  "keeps_amsdu f \<longleftrightarrow> (\<forall>t x. f (t\<lparr>txq_amsdu := x\<rparr>) = (f t)\<lparr>txq_amsdu := x\<rparr>)"

lemma keeps_amsdu_upds [simp]:
  "keeps_amsdu (\<lambda>t. t\<lparr>status := status t OR r\<rparr>)" "keeps_amsdu (\<lambda>t. t\<lparr>status := status t AND r\<rparr>)"
  "keeps_amsdu (\<lambda>t. t\<lparr>sk_list := xs\<rparr>)" "keeps_amsdu (\<lambda>t. t\<lparr>sk_list := xs, last_retry_skb := l, nb_retry := nb_retry t + 1\<rparr>)"
  "keeps_amsdu (\<lambda>t. t\<lparr>txq_credits := c\<rparr>)" "keeps_amsdu (\<lambda>t. t\<lparr>txq_credits := txq_credits t + c\<rparr>)"
  "keeps_amsdu (\<lambda>t. t\<lparr>amsdu_len := m\<rparr>)"
  by (simp_all add: keeps_amsdu_def)

lemma upd_view: "keeps_amsdu f \<Longrightarrow> upd_txq i f (view H S A hw) = view H S A (upd_txq i f hw)"
  by (rule tx_hw.equality) (auto simp: keeps_amsdu_def upd_txq_def)

lemma hwq_view [simp]: "upd_hwq q g (view H S A hw) = view H S A (upd_hwq q g hw)"
  by (simp add: upd_hwq_def view_def)

lemma sta_view [simp]: "upd_sta p g (view H S A hw) = view H S A (upd_sta p g hw)"
  by (simp add: upd_sta_def view_def)

lemma report_view [simp]: "report r (view H S A hw) = view H S A (report r hw)"
  by (simp add: report_def view_def)

lemma amsdus_upd: "keeps_amsdu f \<Longrightarrow> amsdus (upd_txq i f hw) = amsdus hw"
proof (rule ext)
  fix j
  assume k: "keeps_amsdu f"
  have "f ((txq hw i)\<lparr>txq_amsdu := txq_amsdu (txq hw i)\<rparr>) = (f (txq hw i))\<lparr>txq_amsdu := txq_amsdu (txq hw i)\<rparr>"
    using k unfolding keeps_amsdu_def by blast
  from arg_cong [OF this, of txq_amsdu] have "txq_amsdu (f (txq hw i)) = txq_amsdu (txq hw i)"
    by simp
  then show "amsdus (upd_txq i f hw) j = amsdus hw j"
    by (simp add: amsdus_def)
qed

section \<open>Starting, stopping and queueing under a view\<close>

lemma traffic_status_view [simp]:
  "aml_set_traffic_status p b ps (view H S A hw) = view H S A (aml_set_traffic_status p b ps hw)"
  by (simp add: aml_set_traffic_status_def Let_def)

lemma sem_view [simp]: "(view H S A hw)\<lparr>aml_tx_sem := n\<rparr> = view H S A (hw\<lparr>aml_tx_sem := n\<rparr>)"
  by (simp add: view_def)

lemma cleanup_view [simp]: "(view H S A hw)\<lparr>txq_cleanup := n\<rparr> = view H S A (hw\<lparr>txq_cleanup := n\<rparr>)"
  by (simp add: view_def)

lemma ndev_view [simp]: "(view H S A hw)\<lparr>ndev_stopped := n\<rparr> = view H S A (hw\<lparr>ndev_stopped := n\<rparr>)"
  by (simp add: view_def)

lemma del_view: "aml_txq_del_from_hw_list i (view H S A hw) = view H S A (aml_txq_del_from_hw_list i hw)"
  by (simp add: aml_txq_del_from_hw_list_def upd_view)

lemma stop_view: "aml_txq_stop i r (view H S A hw) = view H S A (aml_txq_stop i r hw)"
  by (simp add: aml_txq_stop_def upd_view del_view)

lemma flow_view: "aml_netif_txq_flow_control i (view H S A hw) = view H S A (aml_netif_txq_flow_control i hw)"
  by (simp add: aml_netif_txq_flow_control_def Let_def upd_view)

lemma add_view:
  "aml_bus_type pl \<noteq> PCIE_MODE \<Longrightarrow>
     aml_txq_add_to_hw_list pl i (view H S A hw) = map_option (view H S A) (aml_txq_add_to_hw_list pl i hw)"
  by (simp add: aml_txq_add_to_hw_list_def Let_def upd_view)

lemma start_view:
  "aml_bus_type pl \<noteq> PCIE_MODE \<Longrightarrow> aml_txq_start pl i r (view H S A hw) = map_option (view H S A) (aml_txq_start pl i r hw)"
  by (simp add: aml_txq_start_def upd_view add_view)

lemma timer_view: "aml_txq_start_cleanup_timer s (view H S A hw) = view H S A (aml_txq_start_cleanup_timer s hw)"
  by (simp add: aml_txq_start_cleanup_timer_def AML_TXQ_CLEANUP_INTERVAL_def split: option.split)

lemma ps_queued_view: "ps_frame_queued i (view H S A hw) = view H S A (ps_frame_queued i hw)"
  by (simp add: ps_frame_queued_def Let_def split: option.split)

lemma insert_view: "insert_skb i a retry prev (view H S A hw) = map_option (view H S A) (insert_skb i a retry prev hw)"
  by (cases "prev"; cases "last_retry_skb (txq hw i)"; cases "insert_after (the prev) a (sk_list (txq hw i))";
      cases "insert_after (the (last_retry_skb (txq hw i))) a (sk_list (txq hw i))")
    (simp_all add: insert_skb_def Let_def upd_view timer_view)

lemma queue_view:
  assumes "aml_bus_type pl \<noteq> PCIE_MODE"
  shows "aml_txq_queue_skb pl i a retry prev (view H S A hw) = map_option (view H S A) (aml_txq_queue_skb pl i a retry prev hw)"
  by (cases "insert_skb i a retry prev (ps_frame_queued i hw)")
    (simp_all add: aml_txq_queue_skb_def ps_queued_view insert_view flow_view add_view assms)

end
