(* ===== verification/Tx_Amsdu.thy ===== *)
theory Tx_Amsdu
  imports Tx_View
begin

text \<open>
  Building and dismantling an A-MSDU keep the TX invariant, also while a confirmed frame and
  its subframes are set aside.
\<close>

section \<open>Changes of the headers\<close>

text \<open>A view with headers for the same frames, which stay in their queues.\<close>

definition route :: "aml_sw_txhdr option \<Rightarrow> (nat \<times> nat) option" where
  "route x = map_option (\<lambda>h. (hdr_txq h, hw_queue h)) x"

lemma route_eq:
  assumes "route x = route y"
  shows "map_option hdr_txq x = map_option hdr_txq y" "map_option hw_queue x = map_option hw_queue y" "x = None \<longleftrightarrow> y = None"
  using assms by (cases x; cases y; simp add: route_def)+

lemma tx_inv_view:
  assumes inv: "tx_inv pl 0 [] hw" and H: "\<And>b. route (H b) = route (hdrs hw b)" and S: "subs_ok H S"
    and A: "\<And>j a. j < NX_NB_TXQ \<Longrightarrow> A j = Some a \<Longrightarrow>
      a \<in> set (sk_list (txq hw j)) \<and> (\<exists>h. H a = Some h \<and> am_hdrs h \<noteq> [] \<and> length (am_hdrs h) + 1 < NX_TX_PAYLOAD_MAX)"
  shows "tx_inv pl 0 [] (view H S A hw)" (is "tx_inv pl 0 [] ?hw")
proof -
  note R = route_eq [OF H]
  have w: "waiting 0 [] ?hw = waiting 0 [] hw"
    by (rule ext) (simp add: waiting_def)
  have aw: "all_waiting 0 [] ?hw = all_waiting 0 [] hw"
    by (simp add: all_waiting_def w)
  have dom: "dom H = dom (hdrs hw)"
    using R(3) by (auto simp: dom_def)
  have fr: "frames_ok 0 [] hw" and de: "desc_ok hw"
    using inv by (simp_all add: tx_inv_def)
  have fwk: "fw_ok ?hw"
    unfolding fw_ok_def
  proof
    fix a
    assume "a \<in> set (fw_frames (ipc_env ?hw))"
    then obtain h where h: "hdrs hw a = Some h" "hdr_txq h < NX_NB_TXQ" "hw_queue h = txq_hwq (txq hw (hdr_txq h))"
      using fr fw_okD [of hw a] by (auto simp: frames_ok_def)
    with H [of a] show "\<exists>h. hdrs ?hw a = Some h \<and> hdr_txq h < NX_NB_TXQ \<and> hw_queue h = txq_hwq (txq ?hw (hdr_txq h))"
      by (auto simp: route_def)
  qed
  have frames: "frames_ok 0 [] ?hw"
    using fr fwk unfolding frames_ok_def aw by (simp add: w dom R)
  have counts: "fw_of_txq ?hw = fw_of_txq hw" "fw_of_hwq ?hw = fw_of_hwq hw"
    by (rule ext, simp add: fw_of_txq_def fw_of_hwq_def R)+
  have "hwq_ok ?hw = hwq_ok hw"
    by (rule ext) (simp add: hwq_ok_def counts)
  moreover have "txq_ok j (txq ?hw j) (waiting 0 [] hw j) = txq_ok j (txq hw j) (waiting 0 [] hw j)" for j
    by (simp add: txq_ok_def retry_ok_def)
  moreover have "amsdu_ok ?hw (txq ?hw j) (waiting 0 [] hw j)" if "j < NX_NB_TXQ" for j
    using A [OF that] by (simp add: amsdu_ok_def waiting_def)
  moreover have "pkt_pushed (txq ?hw j) = int (fw_of_txq ?hw j) \<longleftrightarrow> pkt_pushed (txq hw j) = int (fw_of_txq hw j)" for j
    by (simp add: counts)
  ultimately show ?thesis
    using inv frames S de by (simp add: tx_inv_def subframes_ok_def desc_ok_def w counts)
qed

text \<open>A frame with a new header is in the hands of its caller.\<close>

lemma known_frames:
  assumes "tx_inv pl 0 [] hw" and "hdrs hw a = None"
  shows "a \<notin> set (fw_frames (ipc_env hw))" "\<And>j. j < NX_NB_TXQ \<Longrightarrow> a \<notin> set (sk_list (txq hw j))"
proof -
  have "set (all_waiting 0 [] hw @ fw_frames (ipc_env hw)) = dom (hdrs hw)"
    using assms(1) by (simp add: tx_inv_def frames_ok_def)
  then have "a \<notin> set (all_waiting 0 [] hw @ fw_frames (ipc_env hw))"
    using assms(2) by blast
  then show "a \<notin> set (fw_frames (ipc_env hw))" "\<And>j. j < NX_NB_TXQ \<Longrightarrow> a \<notin> set (sk_list (txq hw j))"
    by (auto simp: all_waiting_def waiting_def)
qed

lemma tx_inv_with_new:
  assumes inv: "tx_inv pl 0 [] hw" and a: "hdrs hw a = None" "subframes hw a = None"
    and h: "hdr_ok h" "am_hdrs h = []" "hdr_txq h < NX_NB_TXQ"
  shows "tx_inv_with pl a (hw\<lparr>hdrs := (hdrs hw)(a \<mapsto> h)\<rparr>)"
proof -
  have "without a h (hw\<lparr>hdrs := (hdrs hw)(a \<mapsto> h)\<rparr>) = hw"
    using a(1) h(2) by (auto simp: without_def intro!: tx_hw.equality)
  with assms known_frames [OF inv a(1)] show ?thesis
    by (simp add: tx_inv_with_def)
qed

lemma queued_hdr:
  assumes "tx_inv pl 0 [] hw" and "i < NX_NB_TXQ" and "a \<in> set (sk_list (txq hw i))"
  obtains h where "hdrs hw a = Some h" and "hdr_txq h = i"
proof -
  have "map_option hdr_txq (hdrs hw a) = Some i"
    using assms by (simp add: tx_inv_def frames_ok_def waiting_def)
  then show thesis
    using that by auto
qed

lemma queued_active:
  "tx_inv pl 0 [] hw \<Longrightarrow> i < NX_NB_TXQ \<Longrightarrow> sk_list (txq hw i) \<noteq> [] \<Longrightarrow> idx (txq hw i) \<noteq> TXQ_INACTIVE"
  using tx_inv_txq [of pl 0 "[]" hw i] by (auto simp: txq_ok_def waiting_def)

section \<open>Dismantling\<close>

text \<open>What a change leaves alone: headers and subframes set aside, the firmware's frames, the
  tables.\<close>

definition aside :: "addr set \<Rightarrow> addr set \<Rightarrow> tx_hw \<Rightarrow> tx_hw \<Rightarrow> bool" where
  "aside X Y hw hw' \<longleftrightarrow>
     (\<forall>x\<in>X. hdrs hw' x = hdrs hw x) \<and> (\<forall>y\<in>Y. subframes hw' y = subframes hw y) \<and>
     (\<forall>s. subframes hw s = None \<longrightarrow> subframes hw' s = None) \<and>
     ipc_env hw' = ipc_env hw \<and> tx_desc_save hw' = tx_desc_save hw \<and> vif_table hw' = vif_table hw \<and>
     (\<forall>p. sta_vif_idx (sta_table hw' p) = sta_vif_idx (sta_table hw p) \<and> sta_idx (sta_table hw' p) = sta_idx (sta_table hw p))"

lemma aside_refl: "aside X Y hw hw"
  by (simp add: aside_def)

lemma aside_trans: "aside X Y hw hw1 \<Longrightarrow> aside X Y hw1 hw2 \<Longrightarrow> aside X Y hw hw2"
  unfolding aside_def by simp

lemma aside_queued:
  "queued_at i xs hw hw' \<Longrightarrow> aside X Y hw hw'"
  unfolding aside_def queued_at_def by simp

lemma aside_relinked: "relinked hw hw' \<Longrightarrow> aside X Y hw hw'"
  unfolding aside_def by (simp add: relinked_fields)

lemma set_hw_sel [simp]:
  "dev_hw (set_hw d hw) = hw" "skb_data (set_hw d hw) = skb_data d" "skb_headroom (set_hw d hw) = skb_headroom d"
  "alloc_ok (set_hw d hw) = alloc_ok d" "set_hw (set_hw d hw) hw' = set_hw d hw'" "set_hw d (dev_hw d) = d"
  by (simp_all add: set_hw_def)

lemma del_header_hw [simp]: "dev_hw (aml_amsdu_del_subframe_header s th d) = dev_hw d"
  by (simp add: aml_amsdu_del_subframe_header_def Let_def)

lemma alloc_hw [simp]: "dev_hw (snd (alloc d)) = dev_hw d"
  by (simp add: alloc_def split: list.split)

text \<open>The state while frame \<open>a\<close> of header \<open>h0\<close> is dismantled and the subframes \<open>ss\<close> are still to
  come, without what is set aside.\<close>

definition drop_am :: "nat \<Rightarrow> addr \<Rightarrow> (nat \<Rightarrow> addr option) \<Rightarrow> nat \<Rightarrow> addr option" where
  "drop_am i a A j = (if j = i \<and> A j = Some a then None else A j)"

definition dismantled :: "addr set \<Rightarrow> addr set \<Rightarrow> addr \<Rightarrow> aml_sw_txhdr \<Rightarrow> addr list \<Rightarrow> tx_hw \<Rightarrow> tx_hw" where
  "dismantled X Y a h0 ss hw =
     view ((hdrs hw |` (- X))(a \<mapsto> h0)) (subframes hw |` (- (Y \<union> set ss))) (drop_am (hdr_txq h0) a (amsdus hw)) hw"

definition single_hdr :: "nat \<Rightarrow> aml_sw_txhdr \<Rightarrow> bool" where
  "single_hdr i h \<longleftrightarrow> am_hdrs h = [] \<and> packet_cnt h = 1 \<and> \<not> bit (tx_flags h) 6 \<and> hdr_txq h = i"

lemma single_hdr_ok: "single_hdr i h \<Longrightarrow> hdr_ok h"
  by (simp add: single_hdr_def hdr_ok_def NX_TX_PAYLOAD_MAX_def)

text \<open>Taking the next subframe out.\<close>

definition dismantle_take :: "addr \<Rightarrow> addr \<Rightarrow> addr list \<Rightarrow> tx_hw \<Rightarrow> tx_hw" where
  "dismantle_take a s ss hw = (upd_hdr a (\<lambda>h. h\<lparr>am_hdrs := ss\<rparr>) hw)\<lparr>subframes := (subframes hw)(s := None)\<rparr>"

lemma dismantle_take_sel [simp]:
  "txq (dismantle_take a s ss hw) = txq hw" "ipc_env (dismantle_take a s ss hw) = ipc_env hw"
  "tx_desc_save (dismantle_take a s ss hw) = tx_desc_save hw" "vif_table (dismantle_take a s ss hw) = vif_table hw"
  "sta_table (dismantle_take a s ss hw) = sta_table hw"
  "hdrs (dismantle_take a s ss hw) = (hdrs hw)(a := map_option (\<lambda>h. h\<lparr>am_hdrs := ss\<rparr>) (hdrs hw a))"
  "subframes (dismantle_take a s ss hw) = (subframes hw)(s := None)"
  by (simp_all add: dismantle_take_def)

lemma view_args: "H = H' \<Longrightarrow> S = S' \<Longrightarrow> A = A' \<Longrightarrow> view H S A hw = view H' S' A' hw"
  by simp

lemma view_hdr_upds [simp]:
  "view H S A (upd_hdr a g hw) = view H S A hw" "view H S A (hw\<lparr>hdrs := K\<rparr>) = view H S A hw"
  "view H S A (dismantle_take a s ss hw) = view H S A hw"
  "amsdus (hw\<lparr>hdrs := K\<rparr>) = amsdus hw" "amsdus (upd_hdr a g hw) = amsdus hw" "amsdus (dismantle_take a s ss hw) = amsdus hw"
  by (simp_all add: view_def upd_hdr_def dismantle_take_def amsdus_def [abs_def])

lemma dismantled_take:
  "s \<notin> set ss \<Longrightarrow> s \<notin> Y \<Longrightarrow> a \<notin> X \<Longrightarrow> dismantled X Y a h0 ss (dismantle_take a s ss hw) = dismantled X Y a h0 (s # ss) hw"
  by (auto simp: dismantled_def restrict_map_def fun_eq_iff intro!: view_args)

lemma dismantle_step:
  assumes "subframes (dev_hw d) s = Some th"
  obtains (failed) d1 where "dev_hw d1 = dismantle_take a s ss (dev_hw d)"
      and "dismantle_loop pl a p (s # ss) d = dismantle_loop pl a p ss d1"
  | (queued) d1 n where "dev_hw d1 = dismantle_take a s ss (dev_hw d)"
      and "dismantle_loop pl a p (s # ss) d = do {
        h \<leftarrow> hdrs (dev_hw d1) a;
        hw \<leftarrow> aml_txq_queue_skb pl (hdr_txq h) s False (Some p) ((dev_hw d1)\<lparr>hdrs := (hdrs (dev_hw d1))(s \<mapsto>
                h\<lparr>frame_len := of_nat n, packet_cnt := 1, packet_len := (packet_len h)[0 := of_nat n], am_hdrs := []\<rparr>)\<rparr>);
        dismantle_loop pl a s ss (set_hw d1 hw) }"
proof -
  define d1 where "d1 = aml_amsdu_del_subframe_header s th (set_hw d (upd_hdr a (\<lambda>h. h\<lparr>am_hdrs := ss\<rparr>) (dev_hw d)))"
  define n where "n = length (skb_data d1 s) - ETH_HLEN"
  define d2 where "d2 = snd (alloc d1)"
  define d3 where "d3 = set_hw d2 ((dev_hw d2)\<lparr>subframes := (subframes (dev_hw d2))(s := None)\<rparr>)"
  have "dev_hw d2 = upd_hdr a (\<lambda>h. h\<lparr>am_hdrs := ss\<rparr>) (dev_hw d)"
    by (simp add: d2_def d1_def)
  then have hw: "dev_hw d3 = dismantle_take a s ss (dev_hw d)"
    by (simp add: d3_def dismantle_take_def)
  have pair: "alloc d1 = (fst (alloc d1), d2)"
    by (simp add: d2_def)
  show thesis
  proof (cases "skb_headroom d2 s < tx_headroom pl \<or> \<not> fst (alloc d1)
        \<or> aml_bus_type pl = PCIE_MODE \<and> unat (msdu_len th) + ETH_HLEN + unat (sub_pad th) < n")
    case True
    then have "dismantle_loop pl a p (s # ss) d = dismantle_loop pl a p ss d3"
      unfolding dismantle_loop.simps assms Option.bind.bind_lunit Let_def d1_def [symmetric] n_def [symmetric]
      by (subst pair) (simp add: d3_def [symmetric])
    with hw show ?thesis
      by (rule failed)
  next
    case False
    show ?thesis
    proof (rule queued [OF hw, of n])
      show "dismantle_loop pl a p (s # ss) d = do {
        h \<leftarrow> hdrs (dev_hw d3) a;
        hw \<leftarrow> aml_txq_queue_skb pl (hdr_txq h) s False (Some p) ((dev_hw d3)\<lparr>hdrs := (hdrs (dev_hw d3))(s \<mapsto>
                h\<lparr>frame_len := of_nat n, packet_cnt := 1, packet_len := (packet_len h)[0 := of_nat n], am_hdrs := []\<rparr>)\<rparr>);
        dismantle_loop pl a s ss (set_hw d3 hw) }"
        unfolding dismantle_loop.simps assms Option.bind.bind_lunit Let_def d1_def [symmetric] n_def [symmetric]
        by (subst pair) (use False in \<open>auto simp: d3_def [symmetric]\<close>)
    qed
  qed
qed

text \<open>Queueing it behind the frame before it.\<close>

lemma dismantle_queue_ok:
  assumes inv: "tx_inv pl 0 [] (dismantled X Y a h0 ss hw)"
    and hs: "single_hdr i hs" "i < NX_NB_TXQ" and s: "hdrs hw s = None" "subframes hw s = None" "s \<noteq> a" "s \<notin> X"
    and sk: "sk_list (txq hw i) = us @ p # vs" "nb_retry (txq hw i) \<le> int (length us) + 1"
  shows "\<exists>hw'. aml_txq_queue_skb pl i s False (Some p) (hw\<lparr>hdrs := (hdrs hw)(s \<mapsto> hs)\<rparr>) = Some hw' \<and>
     tx_inv pl 0 [] (dismantled X Y a h0 ss hw') \<and> queued_at i (us @ p # s # vs) (hw\<lparr>hdrs := (hdrs hw)(s \<mapsto> hs)\<rparr>) hw' \<and>
     nb_retry (txq hw' i) = nb_retry (txq hw i)"
proof -
  define hw2 where "hw2 = hw\<lparr>hdrs := (hdrs hw)(s \<mapsto> hs)\<rparr>"
  define D where "D = dismantled X Y a h0 ss hw"
  define D2 where "D2 = dismantled X Y a h0 ss hw2"
  have bus: "aml_bus_type pl \<noteq> PCIE_MODE"
    using inv by (simp add: tx_inv_def)
  have D2: "D2 = D\<lparr>hdrs := (hdrs D)(s \<mapsto> hs)\<rparr>"
  proof -
    have "((hdrs hw2 |` (- X))(a \<mapsto> h0)) = (hdrs D)(s \<mapsto> hs)"
      using s by (auto simp: D_def hw2_def dismantled_def restrict_map_def fun_eq_iff)
    then have "D2 = view ((hdrs D)(s \<mapsto> hs)) (subframes D) (amsdus D) hw"
      by (simp add: D2_def hw2_def D_def dismantled_def)
    also have "\<dots> = D\<lparr>hdrs := (hdrs D)(s \<mapsto> hs)\<rparr>"
      by (simp add: D_def dismantled_def view_def amsdus_def [abs_def])
    finally show ?thesis .
  qed
  have "hdrs D s = None" "subframes D s = None"
    using s by (simp_all add: D_def dismantled_def restrict_map_def)
  with tx_inv_with_new [OF inv [folded D_def] this single_hdr_ok [OF hs(1)]] hs
  have held: "tx_inv_with pl s D2"
    unfolding D2 by (simp add: single_hdr_def)
  have q: "sk_list (txq D2 i) = us @ p # vs" "nb_retry (txq D2 i) \<le> int (length us) + 1"
    using sk by (simp_all add: D2_def dismantled_def hw2_def)
  have act: "idx (txq D2 i) \<noteq> TXQ_INACTIVE"
    using queued_active [OF inv hs(2)] sk by (simp add: D2_def dismantled_def hw2_def)
  have "hdrs D2 s = Some hs" "hdr_txq hs = i"
    using hs by (simp_all add: D2 single_hdr_def)
  from queue_after_ok [OF held this act q] obtain hw3
    where hw3: "aml_txq_queue_skb pl i s False (Some p) D2 = Some hw3" "tx_inv pl 0 [] hw3"
      "queued_at i (us @ p # s # vs) D2 hw3" "nb_retry (txq hw3 i) = nb_retry (txq D2 i)"
    by blast
  from hw3(1) obtain hw' where hw': "aml_txq_queue_skb pl i s False (Some p) hw2 = Some hw'"
      "hw3 = view (hdrs D2) (subframes D2) (amsdus D2) hw'"
    by (auto simp: D2_def dismantled_def queue_view [OF bus])
  have sk': "sk_list (txq hw' i) = us @ p # s # vs" "nb_retry (txq hw' i) = nb_retry (txq hw i)"
    using hw3(3,4) by (simp_all add: queued_at_def hw'(2) D2_def dismantled_def hw2_def)
  with queue_fields(1) [OF bus hw'(1)] have at: "queued_at i (us @ p # s # vs) hw2 hw'"
    by simp
  then have "dismantled X Y a h0 ss hw' = hw3"
    by (simp add: hw'(2) dismantled_def D2_def queued_at_def amsdus_def [abs_def])
  with hw3(2) hw'(1) at sk' show ?thesis
    by (simp add: hw2_def)
qed

lemma dismantle_loop_ok:
  assumes "tx_inv pl 0 [] (dismantled X Y a h0 ss (dev_hw d))" and "hdrs (dev_hw d) a = Some (h0\<lparr>am_hdrs := ss\<rparr>)"
    and "single_hdr i h0" "i < NX_NB_TXQ" and "a \<notin> X" and "\<forall>x\<in>X. subframes (dev_hw d) x = None"
    and "distinct ss" and "\<forall>s\<in>set ss. subframes (dev_hw d) s \<noteq> None \<and> s \<notin> Y \<and> hdrs (dev_hw d) s = None"
    and "sk_list (txq (dev_hw d) i) = us @ p # vs" and "nb_retry (txq (dev_hw d) i) \<le> int (length us) + 1"
  shows "\<exists>d' zs. dismantle_loop pl a p ss d = Some d' \<and> tx_inv pl 0 [] (dismantled X Y a h0 [] (dev_hw d')) \<and>
     hdrs (dev_hw d') a = Some h0 \<and> aside X Y (dev_hw d) (dev_hw d') \<and> amsdus (dev_hw d') = amsdus (dev_hw d) \<and>
     sk_list (txq (dev_hw d') i) = us @ p # zs \<and> set vs \<subseteq> set zs \<and>
     nb_retry (txq (dev_hw d') i) = nb_retry (txq (dev_hw d) i)"
  using assms
proof (induction ss arbitrary: d us p vs)
  case Nil
  then show ?case
    by (intro exI [of _ d] exI [of _ vs]) (simp add: single_hdr_def aside_refl)
next
  case (Cons s ss)
  note H = Cons.prems
  have s: "s \<notin> set ss" "s \<notin> Y" "s \<noteq> a" "s \<notin> X"
    using H(2,6,7,8) by auto
  obtain th where th: "subframes (dev_hw d) s = Some th"
    using H(8) by auto
  let ?take = "dismantle_take a s ss (dev_hw d)"
  have h0: "am_hdrs h0 = []" "hdr_txq h0 = i"
    using H(3) by (simp_all add: single_hdr_def)
  have T: "tx_inv pl 0 [] (dismantled X Y a h0 ss ?take)" "hdrs ?take a = Some (h0\<lparr>am_hdrs := ss\<rparr>)"
      "\<forall>x\<in>X. subframes ?take x = None" "\<forall>r\<in>set ss. subframes ?take r \<noteq> None \<and> r \<notin> Y \<and> hdrs ?take r = None"
    using H(1,2,6,8) s dismantled_take [OF s(1,2) H(5), of h0 "dev_hw d"] by auto
  have takes: "aside X Y (dev_hw d) ?take"
    using s H(5) by (auto simp: aside_def)
  have amt: "amsdus ?take = amsdus (dev_hw d)"
    by (simp add: amsdus_def [abs_def])
  show ?case
  proof (cases rule: dismantle_step [OF th, of a ss pl p, case_names failed queued])
    case (failed d1)
    have "\<exists>d' zs. dismantle_loop pl a p ss d1 = Some d' \<and> tx_inv pl 0 [] (dismantled X Y a h0 [] (dev_hw d')) \<and>
       hdrs (dev_hw d') a = Some h0 \<and> aside X Y (dev_hw d1) (dev_hw d') \<and> amsdus (dev_hw d') = amsdus (dev_hw d1) \<and>
       sk_list (txq (dev_hw d') i) = us @ p # zs \<and> set vs \<subseteq> set zs \<and>
       nb_retry (txq (dev_hw d') i) = nb_retry (txq (dev_hw d1) i)"
      using T H(3,4,5,7,9,10) by (intro Cons.IH) (simp_all add: failed(1))
    then show ?thesis
      using aside_trans [OF takes] failed amt by auto
  next
    case (queued d1 n)
    let ?hs = "h0\<lparr>frame_len := of_nat n, packet_cnt := 1, packet_len := (packet_len h0)[0 := of_nat n], am_hdrs := []\<rparr>"
    have hs: "single_hdr i ?hs"
      using H(3) by (simp add: single_hdr_def)
    let ?hw2 = "?take\<lparr>hdrs := (hdrs ?take)(s \<mapsto> ?hs)\<rparr>"
    have free: "hdrs ?take s = None" "subframes ?take s = None"
      using H(8) s by simp_all
    have q: "sk_list (txq ?take i) = us @ p # vs" "nb_retry (txq ?take i) \<le> int (length us) + 1"
      using H(9,10) by simp_all
    from dismantle_queue_ok [OF T(1) hs H(4) free s(3,4) q] obtain hw'
      where hw': "aml_txq_queue_skb pl i s False (Some p) ?hw2 = Some hw'"
        "tx_inv pl 0 [] (dismantled X Y a h0 ss hw')" "queued_at i (us @ p # s # vs) ?hw2 hw'"
        "nb_retry (txq hw' i) = nb_retry (txq ?take i)"
      by blast
    have f: "hdrs hw' = (hdrs ?take)(s \<mapsto> ?hs)" "subframes hw' = subframes ?take"
        "sk_list (txq hw' i) = (us @ [p]) @ s # vs"
      using hw'(3) by (simp_all add: queued_at_def)
    have "aside X Y ?take ?hw2"
      using s by (auto simp: aside_def)
    from aside_trans [OF takes aside_trans [OF this aside_queued [OF hw'(3)]]]
    have as: "aside X Y (dev_hw d) hw'" .
    have am: "amsdus hw' = amsdus (dev_hw d)"
      using hw'(3) by (simp add: queued_at_def amsdus_def [abs_def])
    have step: "dismantle_loop pl a p (s # ss) d = dismantle_loop pl a s ss (set_hw d1 hw')"
      unfolding queued(2) queued(1) T(2) Option.bind.bind_lunit using hw'(1) h0 by (simp del: dismantle_take_sel)
    have "\<exists>d' zs. dismantle_loop pl a s ss (set_hw d1 hw') = Some d' \<and> tx_inv pl 0 [] (dismantled X Y a h0 [] (dev_hw d')) \<and>
       hdrs (dev_hw d') a = Some h0 \<and> aside X Y (dev_hw (set_hw d1 hw')) (dev_hw d') \<and>
       amsdus (dev_hw d') = amsdus (dev_hw (set_hw d1 hw')) \<and>
       sk_list (txq (dev_hw d') i) = (us @ [p]) @ s # zs \<and> set vs \<subseteq> set zs \<and>
       nb_retry (txq (dev_hw d') i) = nb_retry (txq (dev_hw (set_hw d1 hw')) i)"
    proof (rule Cons.IH)
      show "hdrs (dev_hw (set_hw d1 hw')) a = Some (h0\<lparr>am_hdrs := ss\<rparr>)"
        using T(2) s by (simp add: f)
      show "\<forall>x\<in>X. subframes (dev_hw (set_hw d1 hw')) x = None"
        using T(3) by (simp add: f)
      show "\<forall>r\<in>set ss. subframes (dev_hw (set_hw d1 hw')) r \<noteq> None \<and> r \<notin> Y \<and> hdrs (dev_hw (set_hw d1 hw')) r = None"
        using T(4) s(1) by (auto simp: f simp del: dismantle_take_sel)
    qed (use hw'(2,4) f(3) H(3,4,5,7,10) in simp_all)
    then obtain d' zs where d': "dismantle_loop pl a s ss (set_hw d1 hw') = Some d'"
        "tx_inv pl 0 [] (dismantled X Y a h0 [] (dev_hw d'))" "hdrs (dev_hw d') a = Some h0"
        "aside X Y hw' (dev_hw d')" "amsdus (dev_hw d') = amsdus hw'"
        "sk_list (txq (dev_hw d') i) = (us @ [p]) @ s # zs" "set vs \<subseteq> set zs"
        "nb_retry (txq (dev_hw d') i) = nb_retry (txq hw' i)"
      by auto
    then show ?thesis
      using step am hw'(4) aside_trans [OF as d'(4)] by (intro exI [of _ d'] exI [of _ "s # zs"]) auto
  qed
qed

text \<open>The state without what is set aside.\<close>

definition over :: "addr set \<Rightarrow> addr set \<Rightarrow> tx_hw \<Rightarrow> tx_hw" where
  "over X Y hw = view (hdrs hw |` (- X)) (subframes hw |` (- Y)) (amsdus hw) hw"

definition tx_inv_over :: "plat \<Rightarrow> addr set \<Rightarrow> addr set \<Rightarrow> tx_hw \<Rightarrow> bool" where
  "tx_inv_over pl X Y hw \<longleftrightarrow> tx_inv pl 0 [] (over X Y hw) \<and> (\<forall>x\<in>X. subframes hw x = None)"

lemma over_sel [simp]:
  "txq (over X Y hw) = txq hw" "hdrs (over X Y hw) = hdrs hw |` (- X)" "subframes (over X Y hw) = subframes hw |` (- Y)"
  "ipc_env (over X Y hw) = ipc_env hw" "hwq (over X Y hw) = hwq hw" "sta_table (over X Y hw) = sta_table hw"
  "vif_table (over X Y hw) = vif_table hw" "tx_desc_save (over X Y hw) = tx_desc_save hw" "amsdus (over X Y hw) = amsdus hw"
  by (auto simp: over_def amsdus_def intro!: ext)

lemma over_empty [simp]: "over {} {} hw = hw"
  unfolding over_def by (rule view_self) (auto simp: restrict_map_def)

lemma subs_ok_strip:
  assumes "subs_ok H S" and "H a = Some h" and "hdr_ok k" and "am_hdrs k = []" and "dom S' = dom S - set (am_hdrs h)"
  shows "subs_ok (H(a \<mapsto> k)) S'"
proof -
  have "subs_ok (H(a := None)) S'"
    using assms(1,2,5) by (rule subs_ok_remove)
  moreover have "a \<notin> dom S'"
    using subs_okD(5) [OF assms(1,2)] assms(5) by auto
  ultimately have "subs_ok ((H(a := None))(a \<mapsto> k)) S'"
    using assms(3,4) by (intro subs_ok_insert [where ?S0.0 = S']) simp_all
  then show ?thesis
    by simp
qed

lemma dismantle_ok:
  assumes inv: "tx_inv_over pl X Y (dev_hw d)" and i: "i < NX_NB_TXQ"
    and sk: "sk_list (txq (dev_hw d) i) = us @ a # vs" "nb_retry (txq (dev_hw d) i) \<le> int (length us)"
  shows "\<exists>d' zs. aml_amsdu_dismantle pl a d = Some d' \<and> (\<forall>x\<in>X. subframes (dev_hw d') x = None) \<and>
     tx_inv pl 0 [] (view (hdrs (dev_hw d') |` (- X)) (subframes (dev_hw d') |` (- Y)) (drop_am i a (amsdus (dev_hw d'))) (dev_hw d')) \<and>
     aside X Y (dev_hw d) (dev_hw d') \<and> sk_list (txq (dev_hw d') i) = us @ a # zs \<and> set vs \<subseteq> set zs \<and>
     nb_retry (txq (dev_hw d') i) = nb_retry (txq (dev_hw d) i)"
proof -
  define hw where "hw = dev_hw d"
  have oi: "tx_inv pl 0 [] (over X Y hw)" and free: "\<forall>x\<in>X. subframes hw x = None"
    using inv by (simp_all add: tx_inv_over_def hw_def)
  have "a \<in> set (sk_list (txq (over X Y hw) i))"
    using sk by (simp add: hw_def)
  from queued_hdr [OF oi i this] obtain h where "hdrs (over X Y hw) a = Some h" and hi: "hdr_txq h = i" .
  then have h: "hdrs hw a = Some h" "a \<notin> X" "(hdrs hw |` (- X)) a = Some h"
    by (auto simp: restrict_map_def split: if_splits)
  have so: "subs_ok (hdrs hw |` (- X)) (subframes hw |` (- Y))"
    using oi by (simp add: tx_inv_def subframes_ok_def)
  note sd = subs_okD [OF so h(3)]
  define h0 where "h0 = h\<lparr>tx_flags := tx_flags h AND NOT TXU_CNTRL_AMSDU, packet_cnt := 1, am_len := 0, am_nb := 0, am_hdrs := []\<rparr>"
  have h0: "single_hdr i h0"
    by (simp add: single_hdr_def h0_def hi bit_and_iff bit_not_iff)
  define g where "g = (\<lambda>h. h\<lparr>tx_flags := tx_flags h AND NOT TXU_CNTRL_AMSDU, packet_cnt := 1, am_len := 0, am_nb := 0\<rparr> :: aml_sw_txhdr)"
  define hw1 where "hw1 = upd_hdr a g hw"
  have gh: "g h = h0\<lparr>am_hdrs := am_hdrs h\<rparr>"
    by (rule aml_sw_txhdr.equality) (simp_all add: g_def h0_def)
  have V: "dismantled X Y a h0 (am_hdrs h) hw1 =
      view ((hdrs hw |` (- X))(a \<mapsto> h0)) (subframes hw |` (- (Y \<union> set (am_hdrs h)))) (drop_am i a (amsdus hw)) (over X Y hw)"
    using h h0 by (auto simp: dismantled_def hw1_def over_def single_hdr_def amsdus_def [abs_def] restrict_map_def fun_eq_iff
        intro!: view_args)
  have "tx_inv pl 0 [] (dismantled X Y a h0 (am_hdrs h) hw1)"
    unfolding V
  proof (rule tx_inv_view [OF oi])
    show "route (((hdrs hw |` (- X))(a \<mapsto> h0)) b) = route (hdrs (over X Y hw) b)" for b
      using h by (auto simp: route_def h0_def restrict_map_def)
    show "subs_ok ((hdrs hw |` (- X))(a \<mapsto> h0)) (subframes hw |` (- (Y \<union> set (am_hdrs h))))"
      by (rule subs_ok_strip [OF so h(3) single_hdr_ok [OF h0]]) (auto simp: h0_def)
    fix j b
    assume j: "j < NX_NB_TXQ" and b: "drop_am i a (amsdus hw) j = Some b"
    then have "txq_amsdu (txq hw j) = Some b" "\<not> (j = i \<and> b = a)"
      by (auto simp: drop_am_def amsdus_def split: if_splits)
    then have *: "b \<in> set (sk_list (txq hw j))" "\<exists>h. (hdrs hw |` (- X)) b = Some h \<and> am_hdrs h \<noteq> [] \<and>
        length (am_hdrs h) + 1 < NX_TX_PAYLOAD_MAX"
      using oi j by (auto simp: tx_inv_def amsdu_ok_def waiting_def)
    have "b \<noteq> a"
    proof
      assume "b = a"
      with * have "hdr_txq h = j"
        using queued_hdr [OF oi j, of b] h(3) by auto
      with hi \<open>b = a\<close> \<open>\<not> (j = i \<and> b = a)\<close> show False
        by simp
    qed
    with * show "b \<in> set (sk_list (txq (over X Y hw) j)) \<and> (\<exists>h. ((hdrs hw |` (- X))(a \<mapsto> h0)) b = Some h \<and> am_hdrs h \<noteq> [] \<and>
        length (am_hdrs h) + 1 < NX_TX_PAYLOAD_MAX)"
      by simp
  qed
  moreover have "\<forall>s\<in>set (am_hdrs h). subframes hw s \<noteq> None \<and> s \<notin> Y \<and> hdrs hw s = None"
  proof
    fix s
    assume "s \<in> set (am_hdrs h)"
    with sd(3,4) have "s \<in> dom (subframes hw |` (- Y))" "s \<notin> dom (hdrs hw |` (- X))"
      by auto
    with free show "subframes hw s \<noteq> None \<and> s \<notin> Y \<and> hdrs hw s = None"
      by (auto simp: restrict_map_def split: if_splits)
  qed
  moreover have "hdrs hw1 a = Some (h0\<lparr>am_hdrs := am_hdrs h\<rparr>)"
    using h(1) gh by (simp add: hw1_def)
  moreover have "s \<noteq> a" if "s \<in> set (am_hdrs h)" for s
    using that sd(4) h(1,2) by auto
  ultimately have "\<exists>d' zs. dismantle_loop pl a a (am_hdrs h) (set_hw d hw1) = Some d' \<and> tx_inv pl 0 [] (dismantled X Y a h0 [] (dev_hw d')) \<and>
     hdrs (dev_hw d') a = Some h0 \<and> aside X Y (dev_hw (set_hw d hw1)) (dev_hw d') \<and> amsdus (dev_hw d') = amsdus (dev_hw (set_hw d hw1)) \<and>
     sk_list (txq (dev_hw d') i) = us @ a # zs \<and> set vs \<subseteq> set zs \<and>
     nb_retry (txq (dev_hw d') i) = nb_retry (txq (dev_hw (set_hw d hw1)) i)"
    using h0 i h(2) free sd(2) sk by (intro dismantle_loop_ok) (auto simp: hw1_def hw_def)
  then obtain d' zs where d': "dismantle_loop pl a a (am_hdrs h) (set_hw d hw1) = Some d'" "tx_inv pl 0 [] (dismantled X Y a h0 [] (dev_hw d'))"
     "hdrs (dev_hw d') a = Some h0" "aside X Y hw1 (dev_hw d')" "sk_list (txq (dev_hw d') i) = us @ a # zs" "set vs \<subseteq> set zs"
     "nb_retry (txq (dev_hw d') i) = nb_retry (txq hw i)"
    by (auto simp: hw1_def)
  have "aside X Y hw hw1"
    using h(2) by (auto simp: aside_def hw1_def)
  note as = aside_trans [OF this d'(4)]
  have "aml_amsdu_dismantle pl a d = Some d'"
    using d'(1) h(1) by (simp add: aml_amsdu_dismantle_def hw1_def hw_def g_def)
  moreover have "dismantled X Y a h0 [] (dev_hw d') =
      view (hdrs (dev_hw d') |` (- X)) (subframes (dev_hw d') |` (- Y)) (drop_am i a (amsdus (dev_hw d'))) (dev_hw d')"
    using d'(3) h(2) h0
    by (auto simp: dismantled_def single_hdr_def restrict_map_def fun_eq_iff intro!: view_args)
  moreover have "\<forall>x\<in>X. subframes (dev_hw d') x = None"
    using free as by (simp add: aside_def)
  ultimately show ?thesis
    using d'(2,5-7) as by (simp add: hw_def)
qed

section \<open>The walk over a queue\<close>

lemma over_clear:
  "over X Y (upd_txq i (\<lambda>t. t\<lparr>txq_amsdu := None\<rparr>) hw) =
     view (hdrs hw |` (- X)) (subframes hw |` (- Y)) ((amsdus hw)(i := None)) hw"
  by (rule tx_hw.equality) (auto simp: over_def amsdus_def upd_txq_def)

lemma clear_over: "over X Y (upd_txq i (\<lambda>t. t\<lparr>txq_amsdu := None\<rparr>) hw) = upd_txq i (\<lambda>t. t\<lparr>txq_amsdu := None\<rparr>) (over X Y hw)"
  by (rule tx_hw.equality) (auto simp: over_def amsdus_def upd_txq_def)

lemma clear_inv: "tx_inv pl k p hw \<Longrightarrow> tx_inv pl k p (upd_txq i (\<lambda>t. t\<lparr>txq_amsdu := None\<rparr>) hw)"
  by (rule tx_inv_upd_txq) (auto simp: txq_ok_def retry_ok_def aml_txq_is_scheduled_def aml_txq_is_stopped_def)

definition clear_amsdu :: "nat \<Rightarrow> addr \<Rightarrow> tx_hw \<Rightarrow> tx_hw" where
  "clear_amsdu i a hw = (if txq_amsdu (txq hw i) = Some a then upd_txq i (\<lambda>t. t\<lparr>txq_amsdu := None\<rparr>) hw else hw)"

lemma clear_amsdu_sel [simp]:
  "hdrs (clear_amsdu i a hw) = hdrs hw" "subframes (clear_amsdu i a hw) = subframes hw" "ipc_env (clear_amsdu i a hw) = ipc_env hw"
  "tx_desc_save (clear_amsdu i a hw) = tx_desc_save hw" "vif_table (clear_amsdu i a hw) = vif_table hw"
  "sta_table (clear_amsdu i a hw) = sta_table hw" "sk_list (txq (clear_amsdu i a hw) j) = sk_list (txq hw j)"
  "nb_retry (txq (clear_amsdu i a hw) j) = nb_retry (txq hw j)"
  by (simp_all add: clear_amsdu_def)

lemma clear_amsdu_over:
  "over X Y (clear_amsdu i a hw) = view (hdrs hw |` (- X)) (subframes hw |` (- Y)) (drop_am i a (amsdus hw)) hw"
proof (cases "txq_amsdu (txq hw i) = Some a")
  case True
  then have "drop_am i a (amsdus hw) = (amsdus hw)(i := None)"
    by (auto simp: drop_am_def amsdus_def)
  with True show ?thesis
    by (simp add: clear_amsdu_def over_clear)
next
  case False
  then have "drop_am i a (amsdus hw) = amsdus hw"
    by (auto simp: drop_am_def amsdus_def)
  with False show ?thesis
    by (simp add: clear_amsdu_def over_def)
qed

lemma clear_amsdu_inv: "tx_inv pl 0 [] (over X Y hw) \<Longrightarrow> tx_inv pl 0 [] (over X Y (clear_amsdu i a hw))"
  by (simp add: clear_amsdu_def clear_over clear_inv)

lemma aside_clear: "aside X Y hw (clear_amsdu i a hw)"
  by (simp add: aside_def)

lemma in_drop_split: "a \<in> set (drop n xs) \<Longrightarrow> \<exists>us vs. xs = us @ a # vs \<and> n \<le> length us"
proof -
  assume "a \<in> set (drop n xs)"
  then obtain k where k: "k < length xs - n" "drop n xs ! k = a"
    by (auto simp: in_set_conv_nth)
  then have "xs ! (n + k) = a" "n + k < length xs"
    by simp_all
  then have "xs = take (n + k) xs @ a # drop (Suc (n + k)) xs"
    using id_take_nth_drop by metis
  with k show ?thesis
    by (intro exI [of _ "take (n + k) xs"] exI [of _ "drop (Suc (n + k)) xs"]) auto
qed

lemma walk_ok:
  assumes "tx_inv_over pl X Y (dev_hw d)" and "i < NX_NB_TXQ"
    and "set as \<subseteq> set (drop (nat (nb_retry (txq (dev_hw d) i))) (sk_list (txq (dev_hw d) i)))"
  shows "\<exists>d'. update_len_walk pl i len as d = Some d' \<and> tx_inv_over pl X Y (dev_hw d') \<and> aside X Y (dev_hw d) (dev_hw d')"
  using assms
proof (induction "as" arbitrary: d)
  case Nil
  then show ?case
    by (simp add: aside_refl)
next
  case (Cons a "as")
  define n where "n = nat (nb_retry (txq (dev_hw d) i))"
  have oi: "tx_inv pl 0 [] (over X Y (dev_hw d))" and free: "\<forall>x\<in>X. subframes (dev_hw d) x = None"
    using Cons.prems(1) by (simp_all add: tx_inv_over_def)
  have "a \<in> set (drop n (sk_list (txq (dev_hw d) i)))"
    using Cons.prems(3) by (simp add: n_def)
  then obtain us vs where sk: "sk_list (txq (dev_hw d) i) = us @ a # vs" and n: "n \<le> length us"
    using in_drop_split by metis
  have "a \<in> set (sk_list (txq (over X Y (dev_hw d)) i))"
    by (simp add: sk)
  from queued_hdr [OF oi Cons.prems(2) this] obtain h where "hdrs (over X Y (dev_hw d)) a = Some h" .
  then have h: "hdrs (dev_hw d) a = Some h"
    by (auto simp: restrict_map_def split: if_splits)
  have "\<exists>d1. (if tx_flags h AND TXU_CNTRL_AMSDU \<noteq> 0 \<and> len < am_len h then aml_amsdu_dismantle pl a d else Some d) = Some d1 \<and>
      tx_inv pl 0 [] (over X Y (clear_amsdu i a (dev_hw d1))) \<and> aside X Y (dev_hw d) (dev_hw d1) \<and>
      set as \<subseteq> set (drop (nat (nb_retry (txq (dev_hw d1) i))) (sk_list (txq (dev_hw d1) i)))"
  proof (cases "tx_flags h AND TXU_CNTRL_AMSDU \<noteq> 0 \<and> len < am_len h")
    case True
    have "nb_retry (txq (dev_hw d) i) \<le> int (length us)"
      using n by (simp add: n_def)
    from dismantle_ok [OF Cons.prems(1,2) sk this] obtain d1 zs where d1: "aml_amsdu_dismantle pl a d = Some d1"
        "tx_inv pl 0 [] (over X Y (clear_amsdu i a (dev_hw d1)))" "aside X Y (dev_hw d) (dev_hw d1)"
        "sk_list (txq (dev_hw d1) i) = us @ a # zs" "set vs \<subseteq> set zs" "nb_retry (txq (dev_hw d1) i) = nb_retry (txq (dev_hw d) i)"
      by (auto simp: clear_amsdu_over)
    moreover have "set as \<subseteq> set (drop n us @ a # vs)"
      using Cons.prems(3) n by (simp add: sk n_def [symmetric])
    then have "set as \<subseteq> set (drop n us @ a # zs)"
      using d1(5) by auto
    ultimately show ?thesis
      using True n by (auto simp: n_def [symmetric])
  next
    case False
    with Cons.prems(3) clear_amsdu_inv [OF oi] show ?thesis
      by (auto simp: aside_refl)
  qed
  then obtain d1 where d1: "(if tx_flags h AND TXU_CNTRL_AMSDU \<noteq> 0 \<and> len < am_len h then aml_amsdu_dismantle pl a d else Some d) = Some d1"
      "tx_inv pl 0 [] (over X Y (clear_amsdu i a (dev_hw d1)))" "aside X Y (dev_hw d) (dev_hw d1)"
      "set as \<subseteq> set (drop (nat (nb_retry (txq (dev_hw d1) i))) (sk_list (txq (dev_hw d1) i)))"
    by blast
  define d2 where "d2 = set_hw d1 (clear_amsdu i a (dev_hw d1))"
  have step: "update_len_walk pl i len (a # as) d = update_len_walk pl i len as d2"
    unfolding update_len_walk.simps h Option.bind.bind_lunit d1(1) by (simp add: d2_def clear_amsdu_def)
  have "tx_inv_over pl X Y (dev_hw d2)"
    using d1(2,3) free by (simp add: d2_def tx_inv_over_def aside_def)
  from Cons.IH [OF this Cons.prems(2)] d1(4) obtain d' where d': "update_len_walk pl i len as d2 = Some d'"
      "tx_inv_over pl X Y (dev_hw d')" "aside X Y (dev_hw d2) (dev_hw d')"
    by (auto simp: d2_def)
  with aside_trans [OF aside_trans [OF d1(3) aside_clear] d'(3) [unfolded d2_def set_hw_sel]] step show ?case
    by auto
qed

lemma dropWhile_nth: "distinct xs \<Longrightarrow> n < length xs \<Longrightarrow> dropWhile (\<lambda>a. a \<noteq> xs ! n) xs = drop n xs"
proof (induction xs arbitrary: n)
  case (Cons x xs)
  then show ?case
    by (cases n) auto
qed simp

lemma behind_retries_drop:
  assumes inv: "tx_inv pl 0 [] hw" and i: "i < NX_NB_TXQ"
  shows "behind_retries (txq hw i) = drop (nat (nb_retry (txq hw i))) (sk_list (txq hw i))"
proof (cases "nb_retry (txq hw i) = 0")
  case True
  then show ?thesis
    using txq_ok_retry [OF tx_inv_txq [OF inv i]] by (simp add: behind_retries_def retry_ok_def waiting_def)
next
  case False
  define n where "n = nat (nb_retry (txq hw i)) - 1"
  let ?w = "sk_list (txq hw i)"
  have r: "retry_ok (txq hw i) ?w"
    using txq_ok_retry [OF tx_inv_txq [OF inv i]] by (simp add: waiting_def)
  then have n: "n < length ?w" "last_retry_skb (txq hw i) = Some (?w ! n)" "nat (nb_retry (txq hw i)) = Suc n"
    using False by (auto simp: retry_ok_def n_def)
  have "distinct ?w"
    using waiting_distinct [OF inv i] .
  from dropWhile_nth [OF this n(1)] have "tl (dropWhile (\<lambda>a. a \<noteq> ?w ! n) ?w) = drop (Suc n) ?w"
    by (simp add: drop_Suc tl_drop)
  with n show ?thesis
    by (simp add: behind_retries_def)
qed

section \<open>A new A-MSDU length\<close>

lemma over_relinked:
  assumes "relinked hw hw'"
  shows "view (hdrs hw |` (- X)) (subframes hw |` (- Y)) (amsdus hw) hw' = over X Y hw'"
  by (simp add: over_def relinked_fields [OF assms] amsdus_def [abs_def])

lemma over_stop: "over X Y (aml_txq_stop i r hw) = aml_txq_stop i r (over X Y hw)"
  using over_relinked [OF relinked_stop, of hw X Y i r] by (simp add: over_def stop_view)

lemma over_start:
  assumes "aml_bus_type pl \<noteq> PCIE_MODE"
  shows "aml_txq_start pl i r (over X Y hw) = map_option (over X Y) (aml_txq_start pl i r hw)"
  unfolding over_def start_view [OF assms]
  by (cases "aml_txq_start pl i r hw") (simp_all add: over_relinked [OF relinked_start [OF assms]] over_def [symmetric])

lemma over_upd: "keeps_amsdu f \<Longrightarrow> over X Y (upd_txq i f hw) = upd_txq i f (over X Y hw)"
  by (simp add: over_def upd_view amsdus_upd)

lemma amsdu_len_inv: "tx_inv pl k p hw \<Longrightarrow> tx_inv pl k p (upd_txq i (\<lambda>t. t\<lparr>amsdu_len := n\<rparr>) hw)"
  by (rule tx_inv_upd_txq) (auto simp: txq_ok_def retry_ok_def aml_txq_is_scheduled_def aml_txq_is_stopped_def)

lemma over_amsdu_len: "tx_inv_over pl X Y hw \<Longrightarrow> tx_inv_over pl X Y (upd_txq i (\<lambda>t. t\<lparr>amsdu_len := n\<rparr>) hw)"
  by (simp add: tx_inv_over_def over_upd amsdu_len_inv)

lemma tx_inv_over_bus: "tx_inv_over pl X Y hw \<Longrightarrow> aml_bus_type pl \<noteq> PCIE_MODE"
  by (simp add: tx_inv_over_def tx_inv_def)

lemma over_stop_ok:
  assumes "tx_inv_over pl X Y hw" and "i < NX_NB_TXQ" and "\<not> bit r 0"
  shows "tx_inv_over pl X Y (aml_txq_stop i r hw)"
  using assms stop_inv [of pl 0 "[]" "over X Y hw" i r] by (simp add: tx_inv_over_def over_stop relinked_fields [OF relinked_stop])

lemma over_start_ok:
  assumes "tx_inv_over pl X Y hw" and "i < NX_NB_TXQ" and "\<not> bit r 0"
  shows "\<exists>hw'. aml_txq_start pl i r hw = Some hw' \<and> tx_inv_over pl X Y hw' \<and> relinked hw hw'"
proof -
  note bus = tx_inv_over_bus [OF assms(1)]
  from start_inv [of pl 0 "[]" "over X Y hw" i r] assms obtain hw1 where "aml_txq_start pl i r (over X Y hw) = Some hw1" "tx_inv pl 0 [] hw1"
    by (auto simp: tx_inv_over_def)
  then obtain hw' where hw': "aml_txq_start pl i r hw = Some hw'" "tx_inv pl 0 [] (over X Y hw')"
    by (auto simp: over_start [OF bus])
  note r = relinked_start [OF bus hw'(1)]
  with hw' assms(1) show ?thesis
    by (simp add: tx_inv_over_def relinked_fields(2) [OF r])
qed

lemma update_len_txqs_ok:
  assumes "tx_inv_over pl X Y (dev_hw d)" and "\<forall>i\<in>set is. i < NX_NB_TXQ"
  shows "\<exists>d'. update_len_txqs pl len is d = Some d' \<and> tx_inv_over pl X Y (dev_hw d') \<and> aside X Y (dev_hw d) (dev_hw d')"
  using assms
proof (induction "is" arbitrary: d)
  case Nil
  then show ?case
    by (simp add: aside_refl)
next
  case (Cons i "is")
  show ?case
  proof (cases "amsdu_len (txq (dev_hw d) i) \<le> len")
    case True
    with Cons show ?thesis
      by simp
  next
    case False
    have i: "i < NX_NB_TXQ"
      using Cons.prems(2) by simp
    define d1 where "d1 = set_hw d (aml_txq_stop i AML_TXQ_STOP_DISMANTLE_AMSDU (dev_hw d))"
    have inv1: "tx_inv_over pl X Y (dev_hw d1)"
      using over_stop_ok [OF Cons.prems(1) i, of AML_TXQ_STOP_DISMANTLE_AMSDU] by (simp add: d1_def)
    then have "behind_retries (txq (over X Y (dev_hw d1)) i) = drop (nat (nb_retry (txq (dev_hw d1) i))) (sk_list (txq (dev_hw d1) i))"
      using behind_retries_drop [OF _ i, of pl "over X Y (dev_hw d1)"] by (simp add: tx_inv_over_def)
    then have "set (behind_retries (txq (dev_hw d1) i)) \<subseteq> set (drop (nat (nb_retry (txq (dev_hw d1) i))) (sk_list (txq (dev_hw d1) i)))"
      by simp
    from walk_ok [OF inv1 i this] obtain d2 where d2: "update_len_walk pl i len (behind_retries (txq (dev_hw d1) i)) d1 = Some d2"
        "tx_inv_over pl X Y (dev_hw d2)" "aside X Y (dev_hw d1) (dev_hw d2)"
      by blast
    define hw2 where "hw2 = upd_txq i (\<lambda>t. t\<lparr>amsdu_len := bus_amsdu_len pl len\<rparr>) (dev_hw d2)"
    have "tx_inv_over pl X Y hw2"
      using over_amsdu_len [OF d2(2)] by (simp add: hw2_def)
    from over_start_ok [OF this i, of AML_TXQ_STOP_DISMANTLE_AMSDU] obtain hw3
      where hw3: "aml_txq_start pl i AML_TXQ_STOP_DISMANTLE_AMSDU hw2 = Some hw3" "tx_inv_over pl X Y hw3" "relinked hw2 hw3"
      by auto
    have "aside X Y (dev_hw d) (dev_hw d1)" "aside X Y (dev_hw d2) hw2"
      by (simp_all add: d1_def hw2_def aside_relinked) (simp add: aside_def)
    note as = aside_trans [OF this(1) aside_trans [OF d2(3) aside_trans [OF this(2) aside_relinked [OF hw3(3)]]]]
    have step: "update_len_txqs pl len (i # is) d = update_len_txqs pl len is (set_hw d2 hw3)"
      using False d2(1) hw3(1) by (simp add: d1_def [symmetric] hw2_def [symmetric] Let_def)
    have "\<exists>d'. update_len_txqs pl len is (set_hw d2 hw3) = Some d' \<and> tx_inv_over pl X Y (dev_hw d') \<and>
        aside X Y (dev_hw (set_hw d2 hw3)) (dev_hw d')"
      using hw3(2) Cons.prems(2) by (intro Cons.IH) simp_all
    with as step show ?thesis
      by (auto intro: aside_trans)
  qed
qed

text \<open>The station of a queue, when it has one, is in the tables.\<close>

definition txq_sta_ok :: "tx_hw \<Rightarrow> nat \<Rightarrow> bool" where
  "txq_sta_ok hw i \<longleftrightarrow> (\<forall>p. txq_sta (txq hw i) = Some p \<longrightarrow> sta_ok hw p)"

lemma update_len_ok:
  assumes inv: "tx_inv_over pl X Y (dev_hw d)" and p: "txq_sta_ok (dev_hw d) i"
  shows "\<exists>d'. aml_amsdu_update_len pl i len d = Some d' \<and> tx_inv_over pl X Y (dev_hw d') \<and> aside X Y (dev_hw d) (dev_hw d')"
proof -
  have up: "aside X Y (dev_hw d) (upd_txq i (\<lambda>t. t\<lparr>amsdu_len := n\<rparr>) (dev_hw d))" for n
    by (simp add: aside_def)
  show ?thesis
  proof (cases "amsdu_len (txq (dev_hw d) i) \<le> len \<or> txq_sta (txq (dev_hw d) i) = None")
    case True
    then show ?thesis
      using over_amsdu_len [OF inv] up by (auto simp: aml_amsdu_update_len_def Let_def)
  next
    case False
    then obtain p where p: "txq_sta (txq (dev_hw d) i) = Some p" "sta_ok (dev_hw d) p"
      using p by (auto simp: txq_sta_ok_def)
    from foreach_ok [OF p(2)] obtain "is" where "foreach_sta_txq (dev_hw d) (Some p) = Some is" "\<forall>i\<in>set is. i < NX_NB_TXQ"
      by blast
    with update_len_txqs_ok [OF inv this(2), of len] False p(1) show ?thesis
      by (simp add: aml_amsdu_update_len_def Let_def)
  qed
qed

end

