(* ===== verification/Tx_Confirm.thy ===== *)
theory Tx_Confirm
  imports Tx_Amsdu
begin

text \<open>
  A confirmation keeps the TX invariant: the frame goes back to its queue or is released with
  its subframes, the queue gets its credit, and the confirmation task returns.
\<close>

section \<open>A frame in the hands of its caller\<close>

lemma held_upd:
  assumes held: "tx_inv_with pl a hw" and h: "hdrs hw a = Some h"
    and g: "hdr_ok h \<Longrightarrow> hdr_ok (g h)" "am_hdrs (g h) = am_hdrs h" "hdr_txq (g h) = hdr_txq h"
  shows "tx_inv_with pl a (upd_hdr a g hw)"
proof -
  have "without a (g h) (upd_hdr a g hw) = without a h hw"
    using g(2) by (simp add: without_def upd_hdr_def)
  moreover have "set (am_hdrs h) \<inter> dom (hdrs hw) = {} \<Longrightarrow> set (am_hdrs h) \<inter> dom ((hdrs hw)(a \<mapsto> g h)) = {}"
    using h by (auto simp: dom_def)
  ultimately show ?thesis
    using tx_inv_withD [OF held h] h g by (simp add: tx_inv_with_def)
qed

lemma held_over:
  assumes "tx_inv_with pl a hw" and "hdrs hw a = Some h"
  shows "tx_inv_over pl {a} (set (am_hdrs h)) hw" "distinct (am_hdrs h)" "set (am_hdrs h) \<subseteq> dom (subframes hw)" "hdr_ok h"
proof -
  note D = tx_inv_withD [OF assms]
  have "over {a} (set (am_hdrs h)) hw = without a h hw"
    unfolding over_def without_def
    by (rule tx_hw.equality) (auto simp: amsdus_def restrict_map_def fun_eq_iff)
  with D show "tx_inv_over pl {a} (set (am_hdrs h)) hw"
    by (simp add: tx_inv_over_def)
qed (use tx_inv_withD [OF assms] in auto)

text \<open>A credit for the queue.\<close>

lemma credit_back_over:
  assumes inv: "tx_inv_over pl X Y hw" and c: "idx (txq hw i) \<noteq> TXQ_INACTIVE \<longrightarrow> txq_credits (txq hw i) + pkt_pushed (txq hw i) < TX_MAX_CNT"
    and i: "i < NX_NB_TXQ"
  shows "tx_inv_over pl X Y (upd_txq i (\<lambda>t. t\<lparr>txq_credits := txq_credits t + 1\<rparr>) hw)"
proof -
  have "0 \<le> txq_credits (txq hw i)"
    using inv tx_inv_txq [of pl 0 "[]" "over X Y hw" i] i by (simp add: tx_inv_over_def txq_ok_def)
  then have "tx_inv pl 0 [] (upd_txq i (\<lambda>t. t\<lparr>txq_credits := txq_credits (txq hw i) + 1\<rparr>) (over X Y hw))"
    using inv c by (intro credits_inv) (auto simp: tx_inv_over_def)
  moreover have "upd_txq i (\<lambda>t. t\<lparr>txq_credits := txq_credits (txq hw i) + 1\<rparr>) (over X Y hw) =
      over X Y (upd_txq i (\<lambda>t. t\<lparr>txq_credits := txq_credits t + 1\<rparr>) hw)"
    by (simp add: over_upd) (simp add: upd_txq_def)
  ultimately show ?thesis
    using inv by (simp add: tx_inv_over_def)
qed

lemma aside_upd_txq: "aside X Y hw (upd_txq i f hw)"
  by (simp add: aside_def)

lemma credits_back_ok:
  assumes inv: "tx_inv_over pl X Y hw" and i: "i < NX_NB_TXQ" and cfm: "cfm_credits cfm = 1"
    and c: "idx (txq hw i) \<noteq> TXQ_INACTIVE \<longrightarrow> txq_credits (txq hw i) + pkt_pushed (txq hw i) < TX_MAX_CNT"
  shows "\<exists>hw'. txq_credits_back pl i cfm hw = Some hw' \<and> tx_inv_over pl X Y hw' \<and> aside X Y hw hw' \<and>
     (\<forall>j. txq_sta (txq hw' j) = txq_sta (txq hw j))"
proof (cases "idx (txq hw i) = TXQ_INACTIVE")
  case True
  then show ?thesis
    using inv by (simp add: txq_credits_back_def aside_refl)
next
  case False
  define hw1 where "hw1 = upd_txq i (\<lambda>t. t\<lparr>txq_credits := txq_credits t + 1\<rparr>) hw"
  have "0 \<le> txq_credits (txq hw i)"
    using inv tx_inv_txq [of pl 0 "[]" "over X Y hw" i] i by (simp add: tx_inv_over_def txq_ok_def)
  then have pos: "\<not> txq_credits (txq hw1 i) \<le> 0"
    by (simp add: hw1_def)
  have inv1: "tx_inv_over pl X Y hw1"
    unfolding hw1_def by (rule credit_back_over [OF inv c i])
  from over_start_ok [OF this i, of AML_TXQ_STOP_FULL] obtain hw2
    where hw2: "aml_txq_start pl i AML_TXQ_STOP_FULL hw1 = Some hw2" "tx_inv_over pl X Y hw2" "relinked hw1 hw2"
    by auto
  from over_start_ok [OF this(2) i, of AML_TXQ_STOP_FULL] obtain hw3
    where hw3: "aml_txq_start pl i AML_TXQ_STOP_FULL hw2 = Some hw3" "tx_inv_over pl X Y hw3" "relinked hw2 hw3"
    by auto
  have as: "aside X Y hw hw2" "aside X Y hw hw3"
    using aside_trans [OF aside_upd_txq aside_relinked [OF hw2(3) [unfolded hw1_def]]]
      aside_trans [OF aside_trans [OF aside_upd_txq aside_relinked [OF hw2(3) [unfolded hw1_def]]] aside_relinked [OF hw3(3)]]
    by blast+
  have s: "txq_sta (txq hw2 j) = txq_sta (txq hw j)" "txq_sta (txq hw3 j) = txq_sta (txq hw j)" for j
    using relinked_fields(19) [OF hw2(3)] relinked_fields(19) [OF hw3(3)] by (simp_all add: hw1_def)
  have "txq_credits_back pl i cfm hw =
      (if push_limit (txq hw2 i) \<noteq> 0 \<and> \<not> aml_txq_is_full (txq hw2 i) then Some hw3 else Some hw2)"
    using False pos hw2(1) hw3(1) by (simp add: txq_credits_back_def cfm hw1_def [symmetric] Let_def)
  then show ?thesis
    using hw2(2) hw3(2) as s by (cases "push_limit (txq hw2 i) \<noteq> 0 \<and> \<not> aml_txq_is_full (txq hw2 i)") simp_all
qed

section \<open>Releasing the frame\<close>

lemma release_subframes_ok:
  "distinct ss \<Longrightarrow> set ss \<subseteq> dom (subframes (dev_hw d)) \<Longrightarrow>
     \<exists>d'. release_subframes ss d = Some d' \<and>
       dev_hw d' = (dev_hw d)\<lparr>subframes := subframes (dev_hw d) |` (- set ss)\<rparr>"
proof (induction ss arbitrary: d)
  case Nil
  have "dev_hw d = (dev_hw d)\<lparr>subframes := subframes (dev_hw d) |` UNIV\<rparr>"
    by (rule tx_hw.equality) (auto simp: restrict_map_def)
  then show ?case
    by simp
next
  case (Cons s ss)
  then obtain th where th: "subframes (dev_hw d) s = Some th"
    by auto
  define d1 where "d1 = set_hw (aml_amsdu_del_subframe_header s th d) ((dev_hw d)\<lparr>subframes := (subframes (dev_hw d))(s := None)\<rparr>)"
  have "set ss \<subseteq> dom (subframes (dev_hw d1))"
    using Cons.prems by (auto simp: d1_def)
  with Cons obtain d' where "release_subframes ss d1 = Some d'"
      "dev_hw d' = (dev_hw d1)\<lparr>subframes := subframes (dev_hw d1) |` (- set ss)\<rparr>"
    by fastforce
  moreover have "((subframes (dev_hw d))(s := None)) |` (- set ss) = subframes (dev_hw d) |` (- insert s (set ss))"
    by (auto simp: restrict_map_def fun_eq_iff)
  ultimately show ?case
    using th by (simp add: d1_def)
qed

lemma release_frame_ok:
  assumes inv: "tx_inv_over pl {a} (set (am_hdrs h)) (dev_hw d)" and h: "hdrs (dev_hw d) a = Some h" "hdr_ok h"
    and s: "distinct (am_hdrs h)" "set (am_hdrs h) \<subseteq> dom (subframes (dev_hw d))"
  shows "\<exists>d'. release_frame a d = Some d' \<and> tx_inv pl 0 [] (dev_hw d') \<and> ipc_env (dev_hw d') = ipc_env (dev_hw d) \<and>
     tx_desc_save (dev_hw d') = tx_desc_save (dev_hw d) \<and> vif_table (dev_hw d') = vif_table (dev_hw d) \<and>
     sta_table (dev_hw d') = sta_table (dev_hw d)"
proof -
  obtain d1 where d1: "(if tx_flags h AND TXU_CNTRL_AMSDU \<noteq> 0 then release_subframes (am_hdrs h) d else Some d) = Some d1"
      "dev_hw d1 = (dev_hw d)\<lparr>subframes := subframes (dev_hw d) |` (- set (am_hdrs h))\<rparr>"
  proof (cases "tx_flags h AND TXU_CNTRL_AMSDU \<noteq> 0")
    case True
    with release_subframes_ok [OF s] that show ?thesis
      by auto
  next
    case False
    then have "am_hdrs h = []"
      using h(2) by (auto simp: hdr_ok_def)
    moreover have "dev_hw d = (dev_hw d)\<lparr>subframes := subframes (dev_hw d) |` UNIV\<rparr>"
      by (rule tx_hw.equality) (auto simp: restrict_map_def)
    ultimately show ?thesis
      using that [of d] False by simp
  qed
  define d2 where "d2 = set_hw d1 ((dev_hw d1)\<lparr>hdrs := (hdrs (dev_hw d1))(a := None)\<rparr>)"
  have "dev_hw d2 = over {a} (set (am_hdrs h)) (dev_hw d)"
    unfolding d2_def over_def set_hw_sel d1(2)
    by (rule tx_hw.equality) (auto simp: amsdus_def restrict_map_def fun_eq_iff)
  moreover have "release_frame a d = Some d2"
    using h(1) d1(1) by (simp add: release_frame_def d2_def)
  ultimately show ?thesis
    using inv by (simp add: tx_inv_over_def)
qed

section \<open>One confirmation\<close>

text \<open>What every branch of a confirmation leaves alone.\<close>

definition settled :: "tx_hw \<Rightarrow> tx_hw \<Rightarrow> bool" where
  "settled hw hw' \<longleftrightarrow>
     ipc_env hw' = ipc_env hw \<and> tx_desc_save hw' = tx_desc_save hw \<and> vif_table hw' = vif_table hw \<and>
     (\<forall>p. sta_vif_idx (sta_table hw' p) = sta_vif_idx (sta_table hw p) \<and> sta_idx (sta_table hw' p) = sta_idx (sta_table hw p))"

lemma settled_refl [simp]: "settled hw hw"
  by (simp add: settled_def)

lemma settled_trans: "settled hw hw1 \<Longrightarrow> settled hw1 hw2 \<Longrightarrow> settled hw hw2"
  unfolding settled_def by simp

lemma settled_aside: "aside X Y hw hw' \<Longrightarrow> settled hw hw'"
  by (simp add: aside_def settled_def)

lemma settled_queued: "queued_at i xs hw hw' \<Longrightarrow> settled hw hw'"
  by (simp add: queued_at_def settled_def)

lemma settled_relinked: "relinked hw hw' \<Longrightarrow> settled hw hw'"
  by (simp add: settled_def relinked_fields)

lemma settled_upds [simp]:
  "settled hw (upd_txq i f hw)" "settled hw (upd_hdr a g hw)" "settled hw (report r hw)" "settled hw (hw\<lparr>txq_cleanup := n\<rparr>)"
  by (simp_all add: settled_def)

definition stas_ok :: "tx_hw \<Rightarrow> bool" where
  "stas_ok hw \<longleftrightarrow> (\<forall>p. sta_ok hw p)"

lemma settled_stas: "settled hw hw' \<Longrightarrow> stas_ok hw' = stas_ok hw"
  by (simp add: settled_def stas_ok_def sta_ok_def)

lemma confirm_done_ok:
  assumes held: "tx_inv_with pl a (dev_hw d)" and h: "hdrs (dev_hw d) a = Some h" and cfm: "cfm_credits cfm = 1"
    and c: "idx (txq (dev_hw d) (hdr_txq h)) \<noteq> TXQ_INACTIVE \<longrightarrow>
      txq_credits (txq (dev_hw d) (hdr_txq h)) + pkt_pushed (txq (dev_hw d) (hdr_txq h)) < TX_MAX_CNT"
    and p: "stas_ok (dev_hw d)"
  shows "\<exists>d'. confirm_done pl a (hdr_txq h) cfm d = Some d' \<and> tx_inv pl 0 [] (dev_hw d') \<and> settled (dev_hw d) (dev_hw d')"
proof -
  define i where "i = hdr_txq h"
  let ?Y = "set (am_hdrs h)"
  note O = held_over [OF held h]
  have i: "i < NX_NB_TXQ"
    using tx_inv_withD(2) [OF held h] by (simp add: i_def)
  from credits_back_ok [OF O(1) i cfm c [folded i_def]] obtain hw1
    where hw1: "txq_credits_back pl i cfm (dev_hw d) = Some hw1" "tx_inv_over pl {a} ?Y hw1" "aside {a} ?Y (dev_hw d) hw1"
      "\<And>j. txq_sta (txq hw1 j) = txq_sta (txq (dev_hw d) j)"
    by blast
  have "txq_sta_ok (dev_hw (set_hw d hw1)) i"
    using p settled_stas [OF settled_aside [OF hw1(3)]] by (simp add: txq_sta_ok_def stas_ok_def)
  from update_len_ok [of pl "{a}" ?Y "set_hw d hw1", OF _ this] hw1(2) obtain d2
    where d2: "aml_amsdu_update_len pl i (cfm_amsdu_size cfm) (set_hw d hw1) = Some d2" "tx_inv_over pl {a} ?Y (dev_hw d2)"
      "aside {a} ?Y hw1 (dev_hw d2)"
    by auto
  note as = aside_trans [OF hw1(3) d2(3)]
  have "hdrs (dev_hw d2) a = Some h" "set (am_hdrs h) \<subseteq> dom (subframes (dev_hw d2))"
    using as h O(3) by (auto simp: aside_def dom_def subset_iff)
  from release_frame_ok [OF d2(2) this(1) O(4,2) this(2)] obtain d3
    where d3: "release_frame a d2 = Some d3" "tx_inv pl 0 [] (dev_hw d3)" "settled (dev_hw d2) (dev_hw d3)"
    by (auto simp: settled_def)
  note st = settled_trans [OF settled_aside [OF as] d3(3)]
  show ?thesis
  proof (cases "aml_bus_type pl \<noteq> PCIE_MODE \<and> txq_cleanup (dev_hw d3) \<noteq> None")
    case True
    with hw1(1) d2(1) d3 st show ?thesis
      by (auto simp: confirm_done_def i_def Let_def intro: settled_trans)
  next
    case False
    with hw1(1) d2(1) d3 st show ?thesis
      by (auto simp: confirm_done_def i_def Let_def)
  qed
qed

lemma tx_retry_ok:
  assumes held: "tx_inv_with pl a hw" and h: "hdrs hw a = Some h" and cfm: "cfm_credits cfm = 1"
    and act: "idx (txq hw (hdr_txq h)) \<noteq> TXQ_INACTIVE"
    and c: "txq_credits (txq hw (hdr_txq h)) + pkt_pushed (txq hw (hdr_txq h)) < TX_MAX_CNT"
  shows "\<exists>hw'. aml_tx_retry pl a cfm hw = Some hw' \<and> tx_inv pl 0 [] hw' \<and> settled hw hw'"
proof -
  define i where "i = hdr_txq h"
  define hw1 where "hw1 = upd_hdr a (\<lambda>h. h\<lparr>tx_flags := tx_flags h AND NOT TXU_CNTRL_MORE_DATA\<rparr>) hw"
  define hw2 where "hw2 = (if retry_required (cfm_status cfm)
               then upd_hdr a (\<lambda>h. h\<lparr>tx_flags := tx_flags h OR TXU_CNTRL_REUSE_SN,
                                       sn_for_retry := status_sn (cfm_status cfm)\<rparr>) hw1 else hw1)"
  have held1: "tx_inv_with pl a hw1"
    unfolding hw1_def by (rule held_upd [OF held h]) (simp_all add: hdr_ok_def bit_and_iff bit_not_iff)
  have h1: "hdrs hw1 a = Some (h\<lparr>tx_flags := tx_flags h AND NOT TXU_CNTRL_MORE_DATA\<rparr>)"
    using h by (simp add: hw1_def)
  have held2: "tx_inv_with pl a hw2"
    unfolding hw2_def using held1 by (auto intro!: held_upd [OF held1 h1] simp: hdr_ok_def bit_or_iff)
  obtain h2 where h2: "hdrs hw2 a = Some h2" "hdr_txq h2 = i"
    using h that by (cases "retry_required (cfm_status cfm)") (auto simp: hw2_def hw1_def i_def)
  have same: "txq hw2 = txq hw" and st2: "settled hw hw2"
    by (simp_all add: hw2_def hw1_def settled_def)
  have i: "i < NX_NB_TXQ"
    using tx_inv_withD(2) [OF held h] by (simp add: i_def)
  from queue_ok_full [OF held2 h2, of True] act obtain hw3
    where hw3: "aml_txq_queue_skb pl i a True None hw2 = Some hw3" "tx_inv pl 0 [] hw3" "queued_at i (sk_list (txq hw3 i)) hw2 hw3"
    by (auto simp: same i_def)
  have c3: "txq_credits (txq hw3 i) + pkt_pushed (txq hw3 i) < TX_MAX_CNT"
    using hw3(3) c by (simp add: queued_at_def same i_def)
  define hw4 where "hw4 = upd_txq i (\<lambda>t. t\<lparr>txq_credits := txq_credits t + 1\<rparr>) hw3"
  have inv3: "tx_inv_over pl {} {} hw3"
    using hw3(2) by (simp add: tx_inv_over_def)
  have inv4: "tx_inv pl 0 [] hw4"
    using credit_back_over [OF inv3 _ i] c3 by (simp add: hw4_def tx_inv_over_def)
  have nonneg: "0 \<le> txq_credits (txq hw3 i)"
    using tx_inv_txq [OF hw3(2) i] by (simp add: txq_ok_def)
  from start_inv [OF inv4 i, of AML_TXQ_STOP_FULL] obtain hw5
    where hw5: "aml_txq_start pl i AML_TXQ_STOP_FULL hw4 = Some hw5" "tx_inv pl 0 [] hw5"
    by auto
  have "aml_bus_type pl \<noteq> PCIE_MODE"
    using inv4 by (simp add: tx_inv_def)
  note r = settled_relinked [OF relinked_start [OF this hw5(1)]]
  have "settled hw3 hw4"
    by (simp add: hw4_def)
  note st = settled_trans [OF settled_trans [OF st2 settled_queued [OF hw3(3)]] settled_trans [OF this r]]
  have "aml_tx_retry pl a cfm hw = Some hw5"
    using hw3(1) hw5(1) nonneg h
    by (simp add: aml_tx_retry_def i_def [symmetric] hw1_def [symmetric] hw2_def [symmetric] cfm hw4_def [symmetric])
  with hw5(2) st show ?thesis
    by blast
qed

lemma confirm_held:
  assumes "tx_inv_with pl a hw" and "hdrs hw a = Some h"
  shows "tx_inv_with pl a (report r hw)" "tx_inv_with pl a (upd_hdr a (\<lambda>h. h\<lparr>frame_len := n\<rparr>) hw)"
    "tx_inv_with pl a (upd_hdr a (\<lambda>h. h\<lparr>tx_flags := tx_flags h OR TXU_CNTRL_RETRY\<rparr>) hw)"
proof -
  show "tx_inv_with pl a (report r hw)"
    using assms(1) by (subst tx_inv_with_cong) simp_all
qed (rule held_upd [OF assms]; simp add: hdr_ok_def bit_or_iff)+

lemma tx_confirm_ok:
  assumes inv: "tx_inv pl 0 [] hw" and pop: "ipc_host_tx_host_id_to_ptr_for_sdio_usb (ipc_env hw) k = (env, Some a)"
    and sent: "a \<notin> set (tx_desc_save hw)" and p: "stas_ok hw" and d: "dev_hw d = hw\<lparr>ipc_env := env\<rparr>"
    and cfm: "cfm_credits cfm = 1"
  shows "\<exists>sp' d'. tx_confirm pl a cfm m sp d = Some (sp', d') \<and> tx_inv pl 0 [] (dev_hw d') \<and> settled (dev_hw d) (dev_hw d')"
proof -
  obtain h where h: "hdrs hw a = Some h" and
    held: "tx_inv_with pl a (aml_txq_confirm_any (hdr_txq h) (hw_queue h) (hw\<lparr>ipc_env := env\<rparr>))" and
    cr: "idx (txq hw (hdr_txq h)) \<noteq> TXQ_INACTIVE \<Longrightarrow>
      txq_credits (txq hw (hdr_txq h)) + pkt_pushed (txq (aml_txq_confirm_any (hdr_txq h) (hw_queue h) (hw\<lparr>ipc_env := env\<rparr>)) (hdr_txq h)) < TX_MAX_CNT"
    by (rule confirm_take [OF inv pop sent], rule that)
  define i where "i = hdr_txq h"
  define hw1 where "hw1 = aml_txq_confirm_any i (hw_queue h) (dev_hw d)"
  have held1: "tx_inv_with pl a hw1"
    using held by (simp add: hw1_def d i_def)
  have st1: "settled (dev_hw d) hw1"
    by (simp add: hw1_def settled_def)
  have h1: "hdrs hw1 a = Some h" and idx: "idx (txq hw1 j) = idx (txq (dev_hw d) j)" for j
    using h by (simp_all add: hw1_def d)
  have c1: "idx (txq hw1 i) \<noteq> TXQ_INACTIVE \<Longrightarrow> txq_credits (txq hw1 i) + pkt_pushed (txq hw1 i) < TX_MAX_CNT"
    using cr by (simp add: hw1_def d i_def)
  have p1: "stas_ok hw1"
    using p by (simp add: hw1_def d stas_ok_def sta_ok_def)
  have finish: "\<exists>d'. confirm_done pl a i cfm e = Some d' \<and> tx_inv pl 0 [] (dev_hw d') \<and> settled (dev_hw d) (dev_hw d')"
    if "tx_inv_with pl a (dev_hw e)" "txq (dev_hw e) = txq hw1" "settled hw1 (dev_hw e)" "\<exists>h. hdrs (dev_hw e) a = Some h \<and> hdr_txq h = i" for e
    using that c1 confirm_done_ok [OF that(1) _ cfm] settled_stas [OF that(3)] p1 settled_trans [OF settled_trans [OF st1 that(3)]]
    by auto
  have again: "\<exists>hw'. aml_tx_retry pl a cfm e = Some hw' \<and> tx_inv pl 0 [] hw' \<and> settled (dev_hw d) hw'"
    if "tx_inv_with pl a e" "txq e = txq hw1" "settled hw1 e" "\<exists>h. hdrs e a = Some h \<and> hdr_txq h = i" "idx (txq hw1 i) \<noteq> TXQ_INACTIVE" for e
    using that c1 tx_retry_ok [OF that(1) _ cfm] settled_trans [OF settled_trans [OF st1 that(3)]] by auto
  show ?thesis
  proof (cases "tx_flags h AND TXU_CNTRL_MGMT \<noteq> 0")
    case True
    define d1 where "d1 = (set_hw d hw1)\<lparr>is_disconnect := (if is_deauth m then (is_disconnect d)(hdr_vif h := False) else is_disconnect d)\<rparr>"
    define sp1 where "sp1 = (if is_action m then filter_ret m else sp)"
    define hw2 where "hw2 = (if is_action m then upd_hdr a (\<lambda>h. h\<lparr>frame_len := filter_len m\<rparr>) hw1 else hw1)"
    define n where "n = (if is_action m then filter_len m else frame_len h)"
    define goes_back where "goes_back \<longleftrightarrow> \<not> acknowledged (cfm_status cfm) \<and>
       sp1 AND (AML_GAS_ACTION_FRAME OR AML_MUST_TX_SUC OR AML_DPP_CONNECT_STATUS_RESULT_FRAME) \<noteq> 0
             \<and> idx (txq hw1 i) \<noteq> TXQ_INACTIVE \<and> in_roc m"
    define wait where "wait \<longleftrightarrow> acknowledged (cfm_status cfm) \<and> sp1 AND AML_GAS_INIT_REQ_FRAME \<noteq> 0
                        \<and> vif_index (vif_table hw2 (hdr_vif h)) \<noteq> AML_STA_VIF_IDX \<and> copy_ok m"
    define d2 where "d2 = (if wait then d1\<lparr>tx_cfm_wait := (tx_cfm_wait d1)(hdr_vif h := Some (a, n))\<rparr> else d1)"
    define hw3 where "hw3 = (if wait then hw2 else report (Mgmt_tx_status a (sp1 AND AML_REPORT_NO_ACKED = 0 \<and> acknowledged (cfm_status cfm))) hw2)"
    have F2: "tx_inv_with pl a hw2" "txq hw2 = txq hw1" "settled hw1 hw2" "\<exists>h. hdrs hw2 a = Some h \<and> hdr_txq h = i"
      using held1 confirm_held [OF held1 h1] h1 by (simp_all add: hw2_def i_def)
    then obtain h2 where h2: "hdrs hw2 a = Some h2"
      by blast
    have F3: "tx_inv_with pl a hw3" "txq hw3 = txq hw1" "settled hw1 hw3" "\<exists>h. hdrs hw3 a = Some h \<and> hdr_txq h = i"
      using F2 confirm_held(1) [OF F2(1) h2] settled_trans [OF F2(3)] by (simp_all add: hw3_def)
    have run: "tx_confirm pl a cfm m sp d =
       (if goes_back then do { hw \<leftarrow> aml_tx_retry pl a cfm hw2; Some (sp1, set_hw d1 hw) }
        else do { d \<leftarrow> confirm_done pl a i cfm (set_hw d2 hw3); Some (0, d) })"
      using True h
      by (simp add: tx_confirm_def goes_back_def d2_def hw3_def wait_def n_def hw2_def d1_def sp1_def hw1_def i_def d Let_def)
    show ?thesis
      using again [OF F2] finish [of "set_hw d2 hw3"] F3 by (cases goes_back) (auto simp: run goes_back_def)
  next
    case False
    define hw2 where "hw2 = upd_hdr a (\<lambda>h. h\<lparr>tx_flags := tx_flags h OR TXU_CNTRL_RETRY\<rparr>) hw1"
    have F2: "tx_inv_with pl a hw2" "txq hw2 = txq hw1" "settled hw1 hw2" "\<exists>h. hdrs hw2 a = Some h \<and> hdr_txq h = i"
      using confirm_held(3) [OF held1 h1] h1 by (simp_all add: hw2_def i_def)
    have run: "tx_confirm pl a cfm m sp d =
       (if idx (txq hw1 i) \<noteq> TXQ_INACTIVE \<and> sw_retry_required (cfm_status cfm)
        then do { hw \<leftarrow> aml_tx_retry pl a cfm hw2; Some (sp, set_hw d hw) }
        else do { d \<leftarrow> confirm_done pl a i cfm (set_hw d hw1); Some (sp, d) })"
      using False h by (simp add: tx_confirm_def d i_def hw1_def hw2_def Let_def)
    have F1: "txq hw1 = txq hw1" "settled hw1 hw1" "\<exists>h. hdrs hw1 a = Some h \<and> hdr_txq h = i"
      using h1 by (simp_all add: i_def)
    show ?thesis
      using again [OF F2] finish [of "set_hw d hw1"] F1 held1
      by (cases "idx (txq hw1 i) \<noteq> TXQ_INACTIVE \<and> sw_retry_required (cfm_status cfm)") (auto simp: run)
  qed
qed

section \<open>The confirmation task\<close>

text \<open>The firmware confirms frames it was given: the id of a descriptor that still waits for
  the bus is not in the ring.\<close>

definition cfm_ring_ok :: "(nat \<Rightarrow> compact_tx_cfm_tag) \<Rightarrow> tx_hw \<Rightarrow> bool" where
  "cfm_ring_ok ring hw \<longleftrightarrow>
     (\<forall>c. \<forall>i\<in>set (tx_hostid_pushed (ipc_env hw)). hostid (tx_hostid (ipc_env hw) ! i) = c_hostid (ring c) \<longrightarrow>
        the (hostptr (tx_hostid (ipc_env hw) ! i)) \<notin> set (tx_desc_save hw))"

lemma host_id_pop_None:
  assumes "hostid_inv pl env" and "ipc_host_tx_host_id_to_ptr_for_sdio_usb env k = (env', None)"
  shows "env' = env"
proof -
  have "\<forall>i\<in>set (tx_hostid_pushed env). hostptr (tx_hostid env ! i) \<noteq> None"
    using assms(1) by (simp add: hostid_inv_def hostid_wf_defs)
  with assms(2) show ?thesis
    by (auto simp: ipc_host_tx_host_id_to_ptr_for_sdio_usb_def Let_def split: if_splits list.splits dest!: find_from_Cons)
qed

lemma host_id_pop_Some:
  assumes "ipc_host_tx_host_id_to_ptr_for_sdio_usb env k = (env', Some a)" and "distinct (tx_hostid_pushed env)"
  obtains i where "i \<in> set (tx_hostid_pushed env)" and "hostid (tx_hostid env ! i) = k" and "hostptr (tx_hostid env ! i) = Some a"
    and "tx_hostid_pushed env' = remove1 i (tx_hostid_pushed env)" and "\<And>j. j \<noteq> i \<Longrightarrow> tx_hostid env' ! j = tx_hostid env ! j"
proof -
  let ?p = "\<lambda>i. hostid (tx_hostid env ! i) = k"
  obtain i js where f: "find_from ?p (tx_hostid_pushed env) = i # js" and a: "hostptr (tx_hostid env ! i) = Some a"
    using assms(1) by (auto simp: ipc_host_tx_host_id_to_ptr_for_sdio_usb_def Let_def split: if_splits list.splits)
  note m = find_from_Cons [OF f]
  have "tx_hostid_pushed env' = remove1 i (tx_hostid_pushed env)" "\<And>j. j \<noteq> i \<Longrightarrow> tx_hostid env' ! j = tx_hostid env ! j"
    using assms(1) f by (auto simp: ipc_host_tx_host_id_to_ptr_for_sdio_usb_def Let_def hostid_list_del_def split: if_splits)
  with m a show thesis
    by (intro that) auto
qed

lemma cfm_pages_hw: "\<exists>n. dev_hw (cfm_pages pl h d) = (dev_hw d)\<lparr>aml_tx_sem := n\<rparr>"
  by (simp add: cfm_pages_def Let_def set_hw_def) (metis tx_hw.surjective tx_hw.update_convs(12))

text \<open>The ring of confirmations is read only.\<close>

lemma ring_sel [simp]:
  "read_cfm (set_hw d hw) = read_cfm d" "read_cfm (aml_amsdu_del_subframe_header s th d) = read_cfm d"
  "read_cfm (snd (alloc d)) = read_cfm d" "read_cfm (cfm_pages pl h d) = read_cfm d"
  by (simp_all add: set_hw_def aml_amsdu_del_subframe_header_def alloc_def cfm_pages_def Let_def split: list.split)

lemma alloc_ring: "alloc d = (b, e) \<Longrightarrow> read_cfm e = read_cfm d"
  using ring_sel(3) [of d] by simp

lemma dismantle_loop_ring: "dismantle_loop pl a p ss d = Some d' \<Longrightarrow> read_cfm d' = read_cfm d"
proof (induction ss arbitrary: p d)
  case (Cons s ss)
  then show ?case
    by (auto simp: Let_def dest!: Cons.IH alloc_ring split: if_splits Option.bind_splits prod.splits)
qed simp

lemma walk_ring: "update_len_walk pl i n as d = Some d' \<Longrightarrow> read_cfm d' = read_cfm d"
proof (induction "as" arbitrary: d)
  case (Cons a "as")
  then show ?case
    by (auto simp: aml_amsdu_dismantle_def dest!: Cons.IH dismantle_loop_ring split: if_splits Option.bind_splits)
qed simp

lemma update_len_txqs_ring: "update_len_txqs pl n is d = Some d' \<Longrightarrow> read_cfm d' = read_cfm d"
proof (induction "is" arbitrary: d)
  case (Cons i "is")
  then show ?case
    by (auto simp: Let_def dest!: Cons.IH walk_ring split: if_splits Option.bind_splits)
qed simp

lemma update_len_ring: "aml_amsdu_update_len pl i n d = Some d' \<Longrightarrow> read_cfm d' = read_cfm d"
  by (auto simp: aml_amsdu_update_len_def Let_def dest!: update_len_txqs_ring split: if_splits option.splits Option.bind_splits)

lemma release_subframes_ring: "release_subframes ss d = Some d' \<Longrightarrow> read_cfm d' = read_cfm d"
proof (induction ss arbitrary: d)
  case (Cons s ss)
  then show ?case
    by (auto dest!: Cons.IH split: Option.bind_splits)
qed simp

lemma confirm_done_ring: "confirm_done pl a i cfm d = Some d' \<Longrightarrow> read_cfm d' = read_cfm d"
  by (auto simp: confirm_done_def release_frame_def Let_def dest!: update_len_ring release_subframes_ring
      split: if_splits Option.bind_splits)

lemma tx_confirm_ring: "tx_confirm pl a cfm m sp d = Some (sp', d') \<Longrightarrow> read_cfm d' = read_cfm d"
  unfolding tx_confirm_def Let_def
  by (auto dest!: confirm_done_ring split: if_splits Option.bind_splits)

lemma cfm_loop_ok:
  assumes "tx_inv pl 0 [] (dev_hw d)" and "stas_ok (dev_hw d)" and "cfm_ring_ok (read_cfm d) (dev_hw d)"
    and "length (tx_hostid_pushed (ipc_env (dev_hw d))) < n"
  shows "\<exists>sp' d'. cfm_loop n pl m i sp d = Some (sp', d') \<and> tx_inv pl 0 [] (dev_hw d') \<and> stas_ok (dev_hw d') \<and>
     tx_desc_save (dev_hw d') = tx_desc_save (dev_hw d) \<and> vif_table (dev_hw d') = vif_table (dev_hw d)"
  using assms
proof (induction n arbitrary: i sp d)
  case (Suc n)
  define k where "k = c_hostid (read_cfm d (cfm_cur d))"
  define d1 where "d1 = d\<lparr>dev_txcfm_idx := cfm_cur d\<rparr>"
  obtain env r where pop: "ipc_host_tx_host_id_to_ptr_for_sdio_usb (ipc_env (dev_hw d)) k = (env, r)"
    by fastforce
  have hid: "hostid_inv pl (ipc_env (dev_hw d))" and bus: "aml_bus_type pl \<noteq> PCIE_MODE"
    using Suc.prems(1) by (simp_all add: tx_inv_def)
  define d2 where "d2 = set_hw d1 ((dev_hw d1)\<lparr>ipc_env := env\<rparr>)"
  have hw2: "dev_hw d2 = (dev_hw d)\<lparr>ipc_env := env\<rparr>" "read_cfm d2 = read_cfm d"
    by (simp_all add: d2_def d1_def)
  show ?case
  proof (cases "COMPACT_TXCFM_CNT \<le> i")
    case True
    with Suc.prems show ?thesis
      by simp
  next
    case False
    have unf: "cfm_loop (Suc n) pl m i sp d = (case r of None \<Rightarrow> Some (sp, d2) | Some a \<Rightarrow> do {
            h \<leftarrow> hdrs (dev_hw d2) a;
            let i = (if aml_bus_type pl = SDIO_MODE then unat (packet_cnt h) else i);
            (sp_ret, d) \<leftarrow> tx_confirm pl a (compact_cfm (read_cfm d (cfm_cur d))) (m a) sp (cfm_pages pl h d2);
            cfm_loop n pl m (i + 1) sp_ret (d\<lparr>cfm_cur := (cfm_cur d + 1) mod COMPACT_TXCFM_CNT\<rparr>) })"
      using False pop by (cases r) (simp_all add: k_def d2_def d1_def Let_def)
    show ?thesis
    proof (cases r)
      case None
      have "env = ipc_env (dev_hw d)"
        using host_id_pop_None [OF hid] pop None by simp
      then have "dev_hw d2 = dev_hw d"
        by (simp add: hw2)
      with None Suc.prems show ?thesis
        unfolding unf by simp
    next
      case (Some a)
      have "distinct (tx_hostid_pushed (ipc_env (dev_hw d)))"
        using hid by (simp add: hostid_inv_def hostid_wf_defs)
      then obtain c where c: "c \<in> set (tx_hostid_pushed (ipc_env (dev_hw d)))" "hostid (tx_hostid (ipc_env (dev_hw d)) ! c) = k"
          "hostptr (tx_hostid (ipc_env (dev_hw d)) ! c) = Some a"
          "tx_hostid_pushed env = remove1 c (tx_hostid_pushed (ipc_env (dev_hw d)))"
          "\<And>j. j \<noteq> c \<Longrightarrow> tx_hostid env ! j = tx_hostid (ipc_env (dev_hw d)) ! j"
        using pop Some by (auto elim!: host_id_pop_Some)
      have sent: "a \<notin> set (tx_desc_save (dev_hw d))"
        using Suc.prems(3) c(1-3) unfolding cfm_ring_ok_def k_def by (metis option.sel)
      have "a \<in> set (fw_frames (ipc_env (dev_hw d)))"
        using fw_frames_pop(1) [OF hid bus pop [unfolded Some]] by auto
      moreover have "fw_ok (dev_hw d)"
        using Suc.prems(1) by (simp add: tx_inv_def frames_ok_def)
      ultimately obtain h where h: "hdrs (dev_hw d) a = Some h"
        using fw_okD by blast
      define e where "e = cfm_pages pl h d2"
      obtain s where he: "dev_hw e = (dev_hw d)\<lparr>aml_tx_sem := s, ipc_env := env\<rparr>"
      proof -
        obtain n where n: "dev_hw e = (dev_hw d2)\<lparr>aml_tx_sem := n\<rparr>"
          using cfm_pages_hw [of pl h d2] by (auto simp: e_def)
        show thesis
          by (rule that [of n]) (rule tx_hw.equality, simp_all add: n hw2)
      qed
      let ?hw = "(dev_hw d)\<lparr>aml_tx_sem := s\<rparr>"
      have "\<exists>sp' d'. tx_confirm pl a (compact_cfm (read_cfm d (cfm_cur d))) (m a) sp e = Some (sp', d') \<and>
          tx_inv pl 0 [] (dev_hw d') \<and> settled (dev_hw e) (dev_hw d')"
      proof (rule tx_confirm_ok)
        show "tx_inv pl 0 [] ?hw"
          using Suc.prems(1) by simp
        show "ipc_host_tx_host_id_to_ptr_for_sdio_usb (ipc_env ?hw) k = (env, Some a)"
          using pop Some by simp
        show "stas_ok ?hw"
          using Suc.prems(2) by (simp add: stas_ok_def sta_ok_def)
      qed (use sent he in \<open>simp_all add: compact_cfm_def\<close>)
      then obtain sp' d3 where d3: "tx_confirm pl a (compact_cfm (read_cfm d (cfm_cur d))) (m a) sp e = Some (sp', d3)"
          "tx_inv pl 0 [] (dev_hw d3)" "settled (dev_hw e) (dev_hw d3)"
        by blast
      define d4 where "d4 = d3\<lparr>cfm_cur := (cfm_cur d3 + 1) mod COMPACT_TXCFM_CNT\<rparr>"
      have env4: "ipc_env (dev_hw d4) = env" "tx_desc_save (dev_hw d4) = tx_desc_save (dev_hw d)" "vif_table (dev_hw d4) = vif_table (dev_hw d)"
        using d3(3) by (simp_all add: d4_def settled_def he)
      have ring4: "read_cfm d4 = read_cfm d"
        using tx_confirm_ring [OF d3(1)] by (simp add: d4_def e_def hw2)
      have step: "cfm_loop (Suc n) pl m i sp d =
          cfm_loop n pl m ((if aml_bus_type pl = SDIO_MODE then unat (packet_cnt h) else i) + 1) sp' d4"
        unfolding unf using h d3(1) Some by (simp add: hw2 e_def d4_def Let_def del: cfm_loop.simps)
      have "\<exists>sp'' d'. cfm_loop n pl m ((if aml_bus_type pl = SDIO_MODE then unat (packet_cnt h) else i) + 1) sp' d4 = Some (sp'', d') \<and>
          tx_inv pl 0 [] (dev_hw d') \<and> stas_ok (dev_hw d') \<and> tx_desc_save (dev_hw d') = tx_desc_save (dev_hw d4) \<and>
          vif_table (dev_hw d') = vif_table (dev_hw d4)"
      proof (rule Suc.IH)
        show "tx_inv pl 0 [] (dev_hw d4)"
          using d3(2) by (simp add: d4_def)
        show "stas_ok (dev_hw d4)"
          using settled_stas [OF d3(3)] Suc.prems(2) by (simp add: d4_def he stas_ok_def sta_ok_def)
        show "cfm_ring_ok (read_cfm d4) (dev_hw d4)"
          unfolding ring4 cfm_ring_ok_def env4 c(4)
        proof (intro allI ballI impI)
          fix r i
          assume "i \<in> set (remove1 c (tx_hostid_pushed (ipc_env (dev_hw d))))" "hostid (tx_hostid env ! i) = c_hostid (read_cfm d r)"
          moreover from this(1) have "i \<noteq> c" "i \<in> set (tx_hostid_pushed (ipc_env (dev_hw d)))"
            using \<open>distinct (tx_hostid_pushed (ipc_env (dev_hw d)))\<close> by (auto dest: notin_set_remove1)
          ultimately show "the (hostptr (tx_hostid env ! i)) \<notin> set (tx_desc_save (dev_hw d))"
            using Suc.prems(3) unfolding cfm_ring_ok_def by (metis c(5))
        qed
        show "length (tx_hostid_pushed (ipc_env (dev_hw d4))) < n"
          using Suc.prems(4) length_remove1_mem [OF c(1)] by (simp add: env4 c(4))
      qed
      then show ?thesis
        unfolding step by (simp add: env4)
    qed
  qed
qed simp

end
