(* ===== verification/Tx_Tables.thy ===== *)
theory Tx_Tables
  imports Tx_Confirm
begin

text \<open>
  The operations of the TX path leave the tables of stations and interfaces alone: which
  queues belong to whom is decided by the control path only.
\<close>

definition tables :: "tx_hw \<Rightarrow> (nat \<Rightarrow> nat \<times> nat) \<times> (nat \<Rightarrow> aml_vif) \<times> nat list" where
  "tables hw = ((\<lambda>p. (sta_idx (sta_table hw p), sta_vif_idx (sta_table hw p))), vif_table hw, vifs hw)"

lemma tables_upds [simp]:
  "tables (upd_txq i f hw) = tables hw" "tables (upd_hwq q g hw) = tables hw" "tables (upd_hdr a k hw) = tables hw"
  "tables (report r hw) = tables hw" "tables (hw\<lparr>txq := x1\<rparr>) = tables hw" "tables (hw\<lparr>hwq := x2\<rparr>) = tables hw"
  "tables (hw\<lparr>hdrs := x3\<rparr>) = tables hw" "tables (hw\<lparr>subframes := x4\<rparr>) = tables hw" "tables (hw\<lparr>ipc_env := x5\<rparr>) = tables hw"
  "tables (hw\<lparr>txdesc_trigger := x6\<rparr>) = tables hw" "tables (hw\<lparr>dma_map_ok := x7\<rparr>) = tables hw"
  "tables (hw\<lparr>tx_desc_save := x8\<rparr>) = tables hw" "tables (hw\<lparr>aml_tx_sem := x9\<rparr>) = tables hw"
  "tables (hw\<lparr>cfm_balance := x10\<rparr>) = tables hw" "tables (hw\<lparr>ndev_stopped := x11\<rparr>) = tables hw"
  "tables (hw\<lparr>txq_cleanup := x12\<rparr>) = tables hw" "tables (hw\<lparr>retry_warned := x13\<rparr>) = tables hw" "tables (hw\<lparr>jiffies := x14\<rparr>) = tables hw"
  by (simp_all add: tables_def upd_txq_def upd_hwq_def upd_hdr_def report_def)

lemma tables_upd_sta [simp]:
  "(\<And>s. sta_idx (f s) = sta_idx s) \<Longrightarrow> (\<And>s. sta_vif_idx (f s) = sta_vif_idx s) \<Longrightarrow> tables (upd_sta p f hw) = tables hw"
  by (auto simp: tables_def upd_sta_def)

lemma tables_same: "same_tables hw hw' \<longleftrightarrow> tables hw' = tables hw"
  by (auto simp: same_tables_def tables_def fun_eq_iff)

named_theorems tables_keep \<open>an operation that returns keeps the tables\<close>

section \<open>Total operations\<close>

lemma tables_helpers [simp]:
  "tables (aml_set_traffic_status p b ps hw) = tables hw" "tables (aml_netif_txq_flow_control i hw) = tables hw"
  "tables (aml_txq_del_from_hw_list i hw) = tables hw" "tables (aml_txq_start_cleanup_timer s hw) = tables hw"
  "tables (retry_taken i a hw) = tables hw" "tables (txdesc_doorbell pl hw) = tables hw" "tables (abort_legacy_sp i hw) = tables hw"
  "tables (snd (aml_ipc_buf_a2e_init hw)) = tables hw" "tables (aml_txq_confirm_any i q hw) = tables hw"
  by (simp_all add: aml_set_traffic_status_def aml_netif_txq_flow_control_def aml_txq_del_from_hw_list_def
      aml_txq_start_cleanup_timer_def retry_taken_def txdesc_doorbell_def abort_legacy_sp_def aml_ipc_buf_a2e_init_def
      aml_txq_confirm_any_def Let_def split: option.split list.split)

lemma tables_stop [simp]: "tables (aml_txq_stop i r hw) = tables hw"
  by (simp add: aml_txq_stop_def)

lemma tables_queue_steps [simp]:
  "tables (aml_set_more_data_flag a h p hw) = tables hw" "tables (ps_frame_queued i hw) = tables hw"
  "tables (txq_served q i b hw) = tables hw" "tables (tx_push_credit i hw) = tables hw" "tables (ps_frame_dropped i hw) = tables hw"
  by (simp_all add: aml_set_more_data_flag_def ps_frame_queued_def txq_served_def tx_push_credit_def ps_frame_dropped_def Let_def
      split: option.split)

lemma tables_prepare [simp]: "tables (tx_push_prepare a h hw) = tables hw"
  by (simp add: tx_push_prepare_def Let_def split: option.split)

lemma tables_sdio_push [simp]: "tables (aml_sdio_ipc_txdesc_push a hw) = tables hw"
  by (simp add: aml_sdio_ipc_txdesc_push_def Let_def split: prod.split)

section \<open>Operations that may fault\<close>

text \<open>A buffer mapping is an equation on a pair.\<close>

lemma tables_map: "aml_ipc_buf_a2e_init hw = (b, hw') \<Longrightarrow> tables hw' = tables hw"
  using tables_helpers(8) [of hw] by simp

lemma tables_txdesc_push [tables_keep]: "aml_ipc_txdesc_push pl a hw = Some hw' \<Longrightarrow> tables hw' = tables hw"
  by (auto simp: aml_ipc_txdesc_push_def aml_pci_ipc_txdesc_push_def Let_def dest!: tables_map
      split: if_splits prod.splits Option.bind_splits)

lemma tables_tx_push [tables_keep]: "aml_tx_push pl a hw = Some hw' \<Longrightarrow> tables hw' = tables hw"
  by (auto simp: aml_tx_push_def Let_def dest!: tables_keep split: Option.bind_splits)

lemma tables_push_all [tables_keep]: "tx_push_all pl as hw = Some hw' \<Longrightarrow> tables hw' = tables hw"
  by (induction pl "as" hw rule: tx_push_all.induct) (auto dest!: tables_keep split: Option.bind_splits)

lemma tables_get_skb [tables_keep]: "aml_txq_get_skb_to_push q i hw = Some (b, as, hw') \<Longrightarrow> tables hw' = tables hw"
  by (auto simp: aml_txq_get_skb_to_push_def Let_def split: if_splits Option.bind_splits)

lemma tables_visit [tables_keep]: "hwq_visit pl q i hw = Some (b, hw') \<Longrightarrow> tables hw' = tables hw"
  by (auto simp: hwq_visit_def Let_def dest!: tables_keep split: if_splits Option.bind_splits)

lemma tables_loop [tables_keep]: "hwq_loop n pl q c hw = Some hw' \<Longrightarrow> tables hw' = tables hw"
  by (induction n pl q c hw rule: hwq_loop.induct) (auto dest!: tables_visit split: if_splits Option.bind_splits)

lemma tables_process [tables_keep]: "aml_hwq_process pl q hw = Some hw' \<Longrightarrow> tables hw' = tables hw"
  by (auto simp: aml_hwq_process_def Let_def dest!: tables_loop)

lemma tables_process_down: "process_down pl qs hw = Some hw' \<Longrightarrow> tables hw' = tables hw"
  by (induction pl qs hw rule: process_down.induct) (auto dest!: tables_process split: if_splits Option.bind_splits)

lemma tables_process_all [tables_keep]: "aml_hwq_process_all pl hw = Some hw' \<Longrightarrow> tables hw' = tables hw"
  by (simp add: aml_hwq_process_all_def tables_process_down)

lemma tables_add [tables_keep]: "aml_txq_add_to_hw_list pl i hw = Some hw' \<Longrightarrow> tables hw' = tables hw"
  by (auto simp: aml_txq_add_to_hw_list_def Let_def dest!: tables_process split: if_splits)

lemma tables_start [tables_keep]: "aml_txq_start pl i r hw = Some hw' \<Longrightarrow> tables hw' = tables hw"
  by (auto simp: aml_txq_start_def dest!: tables_add split: if_splits)

lemma tables_insert [tables_keep]: "insert_skb i a retry prev hw = Some hw' \<Longrightarrow> tables hw' = tables hw"
  by (auto simp: insert_skb_def Let_def split: if_splits option.splits Option.bind_splits)

lemma tables_queue [tables_keep]: "aml_txq_queue_skb pl i a retry prev hw = Some hw' \<Longrightarrow> tables hw' = tables hw"
  by (auto simp: aml_txq_queue_skb_def dest!: tables_add tables_insert split: Option.bind_splits)

lemma tables_free [tables_keep]: "free_subframes ss hw = Some hw' \<Longrightarrow> tables hw' = tables hw"
  by (induction ss hw rule: free_subframes.induct) (auto split: Option.bind_splits)

lemma tables_drop [tables_keep]: "aml_txq_drop_skb i a retry hw = Some hw' \<Longrightarrow> tables hw' = tables hw"
  by (auto simp: aml_txq_drop_skb_def Let_def dest!: tables_free split: if_splits Option.bind_splits)

lemma tables_flush_loop: "flush_loop n i hw = Some hw' \<Longrightarrow> tables hw' = tables hw"
proof (induction n arbitrary: hw)
  case 0
  then show ?case
    by (auto split: list.splits)
next
  case (Suc n)
  then show ?case
    by (auto dest!: tables_drop split: list.splits Option.bind_splits)
qed

lemma tables_flush [tables_keep]: "aml_txq_flush i hw = Some hw' \<Longrightarrow> tables hw' = tables hw"
  by (simp add: aml_txq_flush_def tables_flush_loop)

lemma tables_deinit [tables_keep]: "aml_txq_deinit i hw = Some hw' \<Longrightarrow> tables hw' = tables hw"
  by (auto simp: aml_txq_deinit_def dest!: tables_flush split: if_splits Option.bind_splits)

lemma tables_init [tables_keep]: "aml_txq_init i index st q t s nd hw = Some hw' \<Longrightarrow> tables hw' = tables hw"
  by (auto simp: aml_txq_init_def Let_def split: if_splits Option.bind_splits)

lemma tables_each [tables_keep]:
  "each_txq f is hw = Some hw' \<Longrightarrow> (\<And>i hw hw'. f i hw = Some hw' \<Longrightarrow> tables hw' = tables hw) \<Longrightarrow> tables hw' = tables hw"
  by (induction f "is" hw rule: each_txq.induct) (auto split: Option.bind_splits)

section \<open>Stations, interfaces and power save\<close>

lemma tables_sta_loop: "sta_init_loop s st index t is hw = Some hw' \<Longrightarrow> tables hw' = tables hw"
proof (induction "is" arbitrary: index t hw)
  case (Cons i "is")
  then obtain hw1 where "aml_txq_init i index st (aml_tid2hwq ! t) t (Some s) (sta_vif_idx (sta_table hw s)) hw = Some hw1"
      "tables hw' = tables hw1"
    by (fastforce split: Option.bind_splits)
  then show ?case
    by (auto dest!: tables_init)
qed simp

lemma tables_sta [tables_keep]:
  "aml_txq_sta_init s st hw = Some hw' \<Longrightarrow> tables hw' = tables hw" "aml_txq_sta_deinit r hw = Some hw' \<Longrightarrow> tables hw' = tables hw"
  "aml_txq_sta_start pl r k hw = Some hw' \<Longrightarrow> tables hw' = tables hw" "aml_txq_sta_stop r k hw = Some hw' \<Longrightarrow> tables hw' = tables hw"
  by (auto simp: aml_txq_sta_init_def aml_txq_sta_deinit_def aml_txq_sta_start_def aml_txq_sta_stop_def
      dest!: tables_sta_loop intro: tables_keep elim!: tables_each split: option.splits Option.bind_splits)

lemma tables_vif [tables_keep]:
  "aml_txq_vif_init v st hw = Some hw' \<Longrightarrow> tables hw' = tables hw" "aml_txq_vif_deinit v hw = Some hw' \<Longrightarrow> tables hw' = tables hw"
  by (auto simp: aml_txq_vif_init_def aml_txq_vif_deinit_def dest!: tables_init tables_deinit split: Option.bind_splits)

lemma tables_count_ready: "count_ready p i hw = Some hw' \<Longrightarrow> tables hw' = tables hw"
  by (auto simp: count_ready_def Let_def split: if_splits)

lemma tables_reset_limit: "reset_push_limit i hw = Some hw' \<Longrightarrow> tables hw' = tables hw"
  by (auto simp: reset_push_limit_def)

lemma tables_each_ps:
  "each_txq (count_ready p) is hw = Some hw' \<Longrightarrow> tables hw' = tables hw"
  "each_txq reset_push_limit is hw = Some hw' \<Longrightarrow> tables hw' = tables hw"
  by (erule tables_each, erule tables_count_ready tables_reset_limit)+

lemma tables_ps_traffic [simp]: "tables (ps_traffic_status p b hw) = tables hw"
  by (simp add: ps_traffic_status_def Let_def)

lemma tables_ps_enable [tables_keep]: "aml_ps_bh_enable pl p b hw = Some hw' \<Longrightarrow> tables hw' = tables hw"
  unfolding aml_ps_bh_enable_def Let_def
  by (auto dest!: tables_sta tables_start tables_each_ps split: if_splits Option.bind_splits)

lemma tables_sp_dispatch: "sp_dispatch pl p ps ts n hw = Some hw' \<Longrightarrow> tables hw' = tables hw"
  by (induction ts arbitrary: n hw) (auto simp: Let_def dest!: tables_start split: if_splits Option.bind_splits)

lemma tables_traffic_req [tables_keep]: "aml_ps_bh_traffic_req pl r n ps hw = Some hw' \<Longrightarrow> tables hw' = tables hw"
  unfolding aml_ps_bh_traffic_req_def Let_def
  by (auto dest!: tables_sp_dispatch tables_start tables_each_ps split: if_splits option.splits Option.bind_splits)

lemma tables_drop_retries: "drop_retries n k i hw = Some hw' \<Longrightarrow> tables hw' = tables hw"
  by (induction n k i hw rule: drop_retries.induct) (auto dest!: tables_drop split: if_splits list.splits Option.bind_splits)

lemma tables_credit_update [tables_keep]: "aml_txq_credit_update pl p t n hw = Some hw' \<Longrightarrow> tables hw' = tables hw"
  unfolding aml_txq_credit_update_def Let_def
  by (auto dest!: tables_drop_retries tables_start simp del: drop_retries.simps split: if_splits Option.bind_splits)

end
