(* ===== verification/Tx_Xmit.thy ===== *)
theory Tx_Xmit
  imports Tx_Tables
begin

text \<open>
  Handing a frame over and sending descriptors keep the TX invariant: aggregation into an
  A-MSDU, data and management frames, the transfers of the TX task.
\<close>

section \<open>A further subframe\<close>

lemma subs_ok_grow:
  assumes "subs_ok H S" and "H a = Some h" and "hdr_ok k" and "am_hdrs k = am_hdrs h @ [s]" and "H s = None" and "S s = None"
  shows "subs_ok (H(a \<mapsto> k)) (S(s \<mapsto> th))"
proof -
  note D = subs_okD [OF assms(1,2)]
  let ?S0 = "S |` (- set (am_hdrs h))"
  have "subs_ok (H(a := None)) ?S0"
    by (rule subs_ok_remove [OF assms(1,2)]) auto
  moreover have "s \<noteq> a"
    using assms(2,5) by auto
  moreover have "s \<notin> set (am_hdrs h)"
    using D(3) assms(6) by auto
  moreover have "a \<notin> dom (S(s \<mapsto> th))"
    using D(5) \<open>s \<noteq> a\<close> by (simp add: domIff)
  moreover have "a \<notin> set (am_hdrs h)"
    using D(4) assms(2) by auto
  moreover have "dom (S(s \<mapsto> th)) = dom ?S0 \<union> set (am_hdrs k)"
    using D(3) by (auto simp: assms(4))
  moreover have "dom ?S0 \<inter> set (am_hdrs k) = {}"
    using assms(4,6) by auto
  moreover have "dom (H(a := None)) \<inter> set (am_hdrs k) = {}"
    using D(4) assms(4,5) by auto
  ultimately have "subs_ok ((H(a := None))(a \<mapsto> k)) (S(s \<mapsto> th))"
    using assms(3,4) D(2) by (intro subs_ok_insert [where ?S0.0 = ?S0]) simp_all
  then show ?thesis
    by simp
qed

text \<open>The A-MSDU of another queue is another frame.\<close>

lemma amsdu_frame:
  assumes inv: "tx_inv pl 0 [] hw" and j: "j < NX_NB_TXQ" and b: "amsdus hw j = Some b"
  shows "b \<in> set (sk_list (txq hw j))" "\<exists>h. hdrs hw b = Some h \<and> hdr_txq h = j \<and> am_hdrs h \<noteq> [] \<and> length (am_hdrs h) + 1 < NX_TX_PAYLOAD_MAX"
proof -
  have "amsdu_ok hw (txq hw j) (sk_list (txq hw j))"
    using inv j by (simp add: tx_inv_def waiting_def)
  then have *: "b \<in> set (sk_list (txq hw j))" "\<exists>h. hdrs hw b = Some h \<and> am_hdrs h \<noteq> [] \<and> length (am_hdrs h) + 1 < NX_TX_PAYLOAD_MAX"
    using b by (auto simp: amsdu_ok_def amsdus_def)
  then show "b \<in> set (sk_list (txq hw j))"
    by simp
  with queued_hdr [OF inv j] * show "\<exists>h. hdrs hw b = Some h \<and> hdr_txq h = j \<and> am_hdrs h \<noteq> [] \<and> length (am_hdrs h) + 1 < NX_TX_PAYLOAD_MAX"
    by (metis option.inject)
qed

lemma grow_inv:
  assumes inv: "tx_inv pl 0 [] hw" and i: "i < NX_NB_TXQ" and a: "a \<in> set (sk_list (txq hw i))"
    and h: "hdrs hw a = Some h" and k: "route (Some k) = route (Some h)" "hdr_ok k" "am_hdrs k = am_hdrs h @ [s]"
    and s: "hdrs hw s = None" "subframes hw s = None"
    and A: "\<And>j. j \<noteq> i \<Longrightarrow> A j = amsdus hw j" "A i = None \<or> A i = Some a \<and> length (am_hdrs k) + 1 < NX_TX_PAYLOAD_MAX"
  shows "tx_inv pl 0 [] (view ((hdrs hw)(a \<mapsto> k)) ((subframes hw)(s \<mapsto> th)) A hw)"
proof (rule tx_inv_view [OF inv])
  show "route (((hdrs hw)(a \<mapsto> k)) b) = route (hdrs hw b)" for b
    using h k(1) by simp
  show "subs_ok ((hdrs hw)(a \<mapsto> k)) ((subframes hw)(s \<mapsto> th))"
    using inv h k s by (intro subs_ok_grow) (simp_all add: tx_inv_def subframes_ok_def)
  fix j b
  assume j: "j < NX_NB_TXQ" and b: "A j = Some b"
  show "b \<in> set (sk_list (txq hw j)) \<and> (\<exists>h. ((hdrs hw)(a \<mapsto> k)) b = Some h \<and> am_hdrs h \<noteq> [] \<and> length (am_hdrs h) + 1 < NX_TX_PAYLOAD_MAX)"
  proof (cases "j = i")
    case True
    with A(2) a b k(3) show ?thesis
      by auto
  next
    case False
    then have "amsdus hw j = Some b"
      using A(1) b by simp
    note F = amsdu_frame [OF inv j this]
    moreover have "hdr_txq h = i"
      using queued_hdr [OF inv i a] h by auto
    ultimately show ?thesis
      using False h by auto
  qed
qed

text \<open>The header of a frame with one more subframe of \<open>n\<close> bytes.\<close>

definition grown :: "addr \<Rightarrow> nat \<Rightarrow> u8 \<Rightarrow> aml_sw_txhdr \<Rightarrow> aml_sw_txhdr" where
  "grown s n pad h = h\<lparr>packet_cnt := packet_cnt h + 1, packet_len := (packet_len h)[unat (am_nb h) := of_nat n],
     am_len := am_len h + of_nat n, am_nb := am_nb h + 1, am_pad := pad, am_hdrs := am_hdrs h @ [s]\<rparr>"

lemma add_header_ok:
  assumes h: "hdrs (dev_hw d) a = Some h" and nb: "am_nb h = packet_cnt h" "unat (am_nb h) < NX_TX_PAYLOAD_MAX"
    and bus: "aml_bus_type pl \<noteq> PCIE_MODE" and len: "ETH_HLEN \<le> length (skb_data d s)"
  defines "n \<equiv> aml_amsdu_subframe_length (skb_data d s) (length (skb_data d s)) + unat (am_pad h)"
  obtains (failed) "aml_amsdu_add_subframe_header pl s a d = Some (False, d)"
  | (added) d' pad th where "aml_amsdu_add_subframe_header pl s a d = Some (True, d')"
      and "dev_hw d' = (dev_hw d)\<lparr>hdrs := (hdrs (dev_hw d))(a \<mapsto> grown s n pad h), subframes := (subframes (dev_hw d))(s \<mapsto> th)\<rparr>"
proof (cases "skb_headroom d s < amsdu_headroom_need (unat (am_pad h)) (skb_data d s)")
  case True
  with h show ?thesis
    by (intro failed) (simp add: aml_amsdu_add_subframe_header_def)
next
  case False
  define m where "m = length (skb_data d s) - ETH_HLEN + llc_len (skb_data d s)"
  have n: "m + ETH_HLEN + unat (am_pad h) = n"
    using len by (simp add: n_def m_def aml_amsdu_subframe_length_def)
  define pad where "pad = (of_nat (AMSDU_PADDING (n - unat (am_pad h))) :: u8)"
  define th where "th = \<lparr>sub_pad = of_nat (unat (am_pad h)), msdu_len = of_nat m\<rparr>"
  define d' where "d' = snd (the (aml_amsdu_add_subframe_header pl s a d))"
  have run: "aml_amsdu_add_subframe_header pl s a d = Some (True, d') \<and>
     dev_hw d' = (dev_hw d)\<lparr>hdrs := (hdrs (dev_hw d))(a \<mapsto> grown s n pad h), subframes := (subframes (dev_hw d))(s \<mapsto> th)\<rparr>"
    unfolding d'_def aml_amsdu_add_subframe_header_def h Option.bind.bind_lunit Let_def m_def [symmetric] n
    using False nb bus h by (simp add: upd_hdr_def grown_def pad_def th_def not_le)
  then show ?thesis
    by (intro added) auto
qed

lemma grown_ok:
  assumes h: "hdr_ok h" "am_hdrs h = [] \<Longrightarrow> am_nb h = 1" "length (am_hdrs h) + 1 < NX_TX_PAYLOAD_MAX"
    and n: "0 < n" "unat (am_len h) + n < 2 ^ 16" and flag: "bit fl 6" and k: "k = (grown s n pad h)\<lparr>tx_flags := fl\<rparr>"
  shows "hdr_ok k" "am_hdrs k = am_hdrs h @ [s]" "hdr_txq k = hdr_txq h" "hw_queue k = hw_queue h"
    "uint (am_nb k) = int (length (am_hdrs h)) + 2"
proof -
  have nb: "am_nb h = packet_cnt h"
    using h(1,2) by (auto simp: hdr_ok_def)
  have p: "packet_cnt h = 1 + of_nat (length (am_hdrs h))"
    using h(1) by (simp add: hdr_ok_def)
  have "unat (am_len h + of_nat n) = unat (am_len h) + n"
    using n(2) by (simp add: unat_word_ariths unat_of_nat)
  then have "am_len h + of_nat n \<noteq> 0"
    using n(1) by (metis add_is_0 less_numeral_extra(3) unat_0)
  then show "hdr_ok k"
    using h(3) p flag nb by (simp add: hdr_ok_def grown_def k)
  show "am_hdrs k = am_hdrs h @ [s]" "hdr_txq k = hdr_txq h" "hw_queue k = hw_queue h"
    by (simp_all add: grown_def k)
  have l: "length (am_hdrs h) < 5"
    using h(3) by (simp add: NX_TX_PAYLOAD_MAX_def)
  have small: "uint (of_nat m :: u8) = int m" if "m < 256" for m
    using that by (simp add: unsigned_of_nat take_bit_nat_eq_self)
  have "am_nb k = of_nat (length (am_hdrs h) + 2)"
    by (simp add: grown_def k nb p)
  then have "uint (am_nb k) = int (length (am_hdrs h) + 2)"
    using l by (simp only: small)
  then show "uint (am_nb k) = int (length (am_hdrs h)) + 2"
    by simp
qed

section \<open>Aggregation\<close>

definition maxnb_of :: "plat \<Rightarrow> tx_dev \<Rightarrow> int" where
  "maxnb_of pl d = (let m = aml_adjust_amsdu_maxnb (amsdu_maxnb d) in if aml_bus_type pl = USB_MODE \<and> 3 < m then 3 else m)"

lemma maxnb_le: "maxnb_of pl d \<le> int NX_TX_PAYLOAD_MAX"
  by (simp add: maxnb_of_def aml_adjust_amsdu_maxnb_def NX_TX_PAYLOAD_MAX_def Let_def)

definition close_amsdu :: "nat \<Rightarrow> tx_dev \<Rightarrow> tx_dev" where
  "close_amsdu i d = set_hw d (upd_txq i (\<lambda>t. t\<lparr>txq_amsdu := None\<rparr>) (dev_hw d))"

text \<open>What aggregation may do to the state: the frame is taken, or it stays with the caller.\<close>

definition aggregated :: "plat \<Rightarrow> addr \<Rightarrow> tx_dev \<Rightarrow> bool \<Rightarrow> tx_dev \<Rightarrow> bool" where
  "aggregated pl s d ok d' \<longleftrightarrow> tx_inv pl 0 [] (dev_hw d') \<and> tables (dev_hw d') = tables (dev_hw d) \<and>
     (\<forall>j. idx (txq (dev_hw d') j) = idx (txq (dev_hw d) j)) \<and>
     (\<not> ok \<longrightarrow> hdrs (dev_hw d') s = None \<and> subframes (dev_hw d') s = None)"

lemma aggregated_close:
  "tx_inv pl 0 [] (dev_hw d) \<Longrightarrow> dev_hw e = dev_hw d \<Longrightarrow> hdrs (dev_hw d) s = None \<Longrightarrow> subframes (dev_hw d) s = None \<Longrightarrow>
     aggregated pl s d False (close_amsdu i e)"
  by (simp add: aggregated_def close_amsdu_def clear_inv)

lemma view_records:
  "hw\<lparr>hdrs := H, subframes := S\<rparr> = view H S (amsdus hw) hw"
  "upd_txq i (\<lambda>t. t\<lparr>txq_amsdu := x\<rparr>) (view H S A hw) = view H S (A(i := x)) hw"
proof -
  show "hw\<lparr>hdrs := H, subframes := S\<rparr> = view H S (amsdus hw) hw"
    by (rule tx_hw.equality) (auto simp: amsdus_def)
  show "upd_txq i (\<lambda>t. t\<lparr>txq_amsdu := x\<rparr>) (view H S A hw) = view H S (A(i := x)) hw"
    by (rule tx_hw.equality) (auto simp: upd_txq_def)
qed

lemma tables_view [simp]: "tables (view H S A hw) = tables hw"
  by (simp add: tables_def)

lemma aggregated_grow:
  assumes inv: "tx_inv pl 0 [] (dev_hw d)" and i: "i < NX_NB_TXQ" and a: "a \<in> set (sk_list (txq (dev_hw d) i))"
    and h: "hdrs (dev_hw d) a = Some h" and k: "hdr_txq k = hdr_txq h" "hw_queue k = hw_queue h" "hdr_ok k" "am_hdrs k = am_hdrs h @ [s]"
    and s: "hdrs (dev_hw d) s = None" "subframes (dev_hw d) s = None"
    and e: "dev_hw e = view ((hdrs (dev_hw d))(a \<mapsto> k)) ((subframes (dev_hw d))(s \<mapsto> th)) ((amsdus (dev_hw d))(i := x)) (dev_hw d)"
    and x: "x = None \<or> x = Some a \<and> length (am_hdrs k) + 1 < NX_TX_PAYLOAD_MAX"
  shows "aggregated pl s d True e"
proof -
  have "tx_inv pl 0 [] (dev_hw e)"
    unfolding e using k x by (intro grow_inv [OF inv i a h _ _ _ s]) (simp_all add: route_def)
  then show ?thesis
    by (simp add: aggregated_def e)
qed

lemma tx_inv_hdr_ok: "tx_inv pl k p hw \<Longrightarrow> hdrs hw a = Some h \<Longrightarrow> hdr_ok h"
  using subs_ok_parts(1) [of "hdrs hw" "subframes hw" h] by (auto simp: tx_inv_def subframes_ok_def intro: ranI)

text \<open>The A-MSDU of the queue is open.\<close>

lemma add_to_open:
  assumes inv: "tx_inv pl 0 [] (dev_hw d)" and i: "i < NX_NB_TXQ"
    and s: "hdrs (dev_hw d) s = None" "subframes (dev_hw d) s = None" and len: "ETH_HLEN \<le> length (skb_data d s)"
    and on: "\<not> (amsdu_len (txq (dev_hw d) i) = 0 \<or> maxnb_of pl d < 2)"
    and "txq_amsdu (txq (dev_hw d) i) = Some a"
  shows "\<exists>ok d'. aml_amsdu_add_subframe pl s i sp d = Some (ok, d') \<and> aggregated pl s d ok d'"
proof -
  define M where "M = maxnb_of pl d"
  define d1 where "d1 = d\<lparr>amsdu_maxnb := M\<rparr>"
  define t where "t = txq (dev_hw d) i"
  have on: "\<not> (amsdu_len t = 0 \<or> M < 2)"
    using on by (simp add: t_def M_def)
  have bus: "aml_bus_type pl \<noteq> PCIE_MODE"
    using inv by (simp add: tx_inv_def)
  have M: "M \<le> int NX_TX_PAYLOAD_MAX"
    by (simp add: M_def maxnb_le)
  have sel1: "dev_hw d1 = dev_hw d" "skb_data d1 = skb_data d"
    by (simp_all add: d1_def)
  define L where "L = aml_amsdu_subframe_length (skb_data d s) (length (skb_data d s))"
  have L: "0 < L"
    using len by (auto simp: L_def aml_amsdu_subframe_length_def ETH_HLEN_def)
  have lim: "unat (amsdu_len t) < 2 ^ 16"
    using unsigned_less [of "amsdu_len t"] by simp
  have maxnb: "(if aml_bus_type pl = USB_MODE \<and> 3 < aml_adjust_amsdu_maxnb (amsdu_maxnb d) then 3
      else aml_adjust_amsdu_maxnb (amsdu_maxnb d)) = M"
    by (simp add: M_def maxnb_of_def Let_def)
  have shut: "aggregated pl s d False (close_amsdu i d1)"
    using inv s by (intro aggregated_close) (simp_all add: sel1)
  have Some: "txq_amsdu t = Some a"
    using assms(7) by (simp add: t_def)
  then have "amsdus (dev_hw d) i = Some a"
    by (simp add: amsdus_def t_def)
  note F = amsdu_frame [OF inv i this]
  then obtain h where h: "hdrs (dev_hw d) a = Some h" "am_hdrs h \<noteq> []" "length (am_hdrs h) + 1 < NX_TX_PAYLOAD_MAX"
    by blast
  have hk: "hdr_ok h"
    using tx_inv_hdr_ok [OF inv h(1)] .
  let ?refuse = "\<not> same_peers (skb_data d s) (skb_data d a) \<or> sp \<or> tx_flags h AND TXU_CNTRL_SP_FRAME \<noteq> 0
      \<or> unat (amsdu_len t) < unat (am_len h) + unat (am_pad h) + L"
  have run: "aml_amsdu_add_subframe pl s i sp d =
      (if ?refuse then Some (False, close_amsdu i d1)
       else do {
         (ok, d) \<leftarrow> aml_amsdu_add_subframe_header pl s a d1;
         if \<not> ok then Some (False, close_amsdu i d)
         else do { h \<leftarrow> hdrs (dev_hw d) a; Some (True, if M \<le> uint (am_nb h) then close_amsdu i d else d) } })"
    unfolding aml_amsdu_add_subframe_def Let_def maxnb d1_def [symmetric] sel1 t_def [symmetric]
    using on Some h(1) by (simp add: close_amsdu_def L_def sel1 cong: if_cong)
  show ?thesis
  proof (cases ?refuse)
    case True
    with shut run show ?thesis
      by auto
  next
    case False
    have nb: "am_nb h = packet_cnt h" "unat (am_nb h) < NX_TX_PAYLOAD_MAX"
      using hk h(2,3) by (auto simp: hdr_ok_def NX_TX_PAYLOAD_MAX_def unat_word_ariths unat_of_nat)
    have l: "ETH_HLEN \<le> length (skb_data d1 s)" and h1: "hdrs (dev_hw d1) a = Some h"
      using len h by (simp_all add: sel1)
    show ?thesis
    proof (cases rule: add_header_ok [OF h1 nb bus l, case_names failed added])
      case failed
      with False run shut show ?thesis
        by auto
    next
      case (added d' pad th)
      define k where "k = grown s (aml_amsdu_subframe_length (skb_data d1 s) (length (skb_data d1 s)) + unat (am_pad h)) pad h"
      have k: "k = (grown s (L + unat (am_pad h)) pad h)\<lparr>tx_flags := tx_flags h\<rparr>"
        by (rule aml_sw_txhdr.equality) (simp_all add: k_def grown_def L_def sel1)
      have "bit (tx_flags h) 6"
        using hk h(2) by (simp add: hdr_ok_def)
      note K = grown_ok [OF hk _ h(3) _ _ this k]
      have K: "hdr_ok k" "am_hdrs k = am_hdrs h @ [s]" "hdr_txq k = hdr_txq h" "hw_queue k = hw_queue h"
          "uint (am_nb k) = int (length (am_hdrs h)) + 2"
        using h(2) L False lim by (auto intro!: K)
      have dk: "dev_hw d' = view ((hdrs (dev_hw d))(a \<mapsto> k)) ((subframes (dev_hw d))(s \<mapsto> th)) (amsdus (dev_hw d)) (dev_hw d)"
        by (simp add: added(2) sel1 view_records k_def)
      then have hk': "hdrs (dev_hw d') a = Some k"
        by simp
      define e where "e = (if M \<le> uint (am_nb k) then close_amsdu i d' else d')"
      have "\<exists>x. dev_hw e = view ((hdrs (dev_hw d))(a \<mapsto> k)) ((subframes (dev_hw d))(s \<mapsto> th)) ((amsdus (dev_hw d))(i := x)) (dev_hw d) \<and>
          (x = None \<or> x = Some a \<and> length (am_hdrs k) + 1 < NX_TX_PAYLOAD_MAX)"
      proof (cases "M \<le> uint (am_nb k)")
        case True
        then show ?thesis
          by (intro exI [of _ None]) (simp add: e_def close_amsdu_def dk view_records)
      next
        case False
        then have "length (am_hdrs k) + 1 < NX_TX_PAYLOAD_MAX"
          using M by (simp add: K)
        moreover have "(amsdus (dev_hw d))(i := Some a) = amsdus (dev_hw d)"
          using Some by (auto simp: amsdus_def t_def)
        ultimately show ?thesis
          using False by (intro exI [of _ "Some a"]) (simp add: e_def dk)
      qed
      then have "aggregated pl s d True e"
        using aggregated_grow [OF inv i F(1) h(1) K(3,4,1,2) s] by blast
      moreover have "aml_amsdu_add_subframe pl s i sp d = Some (True, e)"
        unfolding run e_def using False added(1) hk' by simp
      ultimately show ?thesis
        by blast
    qed
  qed
qed

text \<open>The last frame of the queue becomes an A-MSDU.\<close>

lemma open_amsdu:
  assumes inv: "tx_inv pl 0 [] (dev_hw d)" and i: "i < NX_NB_TXQ"
    and s: "hdrs (dev_hw d) s = None" "subframes (dev_hw d) s = None" and len: "ETH_HLEN \<le> length (skb_data d s)"
    and on: "\<not> (amsdu_len (txq (dev_hw d) i) = 0 \<or> maxnb_of pl d < 2)"
    and "txq_amsdu (txq (dev_hw d) i) = None" and "sk_list (txq (dev_hw d) i) \<noteq> []"
  shows "\<exists>ok d'. aml_amsdu_add_subframe pl s i sp d = Some (ok, d') \<and> aggregated pl s d ok d'"
proof -
  define M where "M = maxnb_of pl d"
  define d1 where "d1 = d\<lparr>amsdu_maxnb := M\<rparr>"
  define t where "t = txq (dev_hw d) i"
  have on: "\<not> (amsdu_len t = 0 \<or> M < 2)"
    using on by (simp add: t_def M_def)
  have bus: "aml_bus_type pl \<noteq> PCIE_MODE"
    using inv by (simp add: tx_inv_def)
  have M: "M \<le> int NX_TX_PAYLOAD_MAX"
    by (simp add: M_def maxnb_le)
  have sel1: "dev_hw d1 = dev_hw d" "skb_data d1 = skb_data d"
    by (simp_all add: d1_def)
  define L where "L = aml_amsdu_subframe_length (skb_data d s) (length (skb_data d s))"
  have L: "0 < L"
    using len by (auto simp: L_def aml_amsdu_subframe_length_def ETH_HLEN_def)
  have lim: "unat (amsdu_len t) < 2 ^ 16"
    using unsigned_less [of "amsdu_len t"] by simp
  have maxnb: "(if aml_bus_type pl = USB_MODE \<and> 3 < aml_adjust_amsdu_maxnb (amsdu_maxnb d) then 3
      else aml_adjust_amsdu_maxnb (amsdu_maxnb d)) = M"
    by (simp add: M_def maxnb_of_def Let_def)
  have same: "aggregated pl s d False d1"
    using inv s by (simp add: aggregated_def sel1)
  have None: "txq_amsdu t = None" and ne: "sk_list t \<noteq> []"
    using assms(7,8) by (simp_all add: t_def)
  define a where "a = last (sk_list t)"
  have a: "a \<in> set (sk_list (txq (dev_hw d) i))"
    using ne by (simp add: a_def t_def)
  from queued_hdr [OF inv i a] obtain h where h: "hdrs (dev_hw d) a = Some h" .
  have hk: "hdr_ok h"
    using tx_inv_hdr_ok [OF inv h(1)] .
  define len1 where "len1 = aml_amsdu_subframe_length (skb_data d a) (unat (frame_len h) + ETH_HLEN)"
  let ?refuse = "am_len h \<noteq> 0 \<or> tx_flags h AND TXU_CNTRL_RETRY \<noteq> 0 \<or> tx_flags h AND TXU_CNTRL_SP_FRAME \<noteq> 0 \<or> sp
      \<or> \<not> same_peers (skb_data d s) (skb_data d a) \<or> unat (amsdu_len t) < len1 + AMSDU_PADDING len1 + L"
  define h1 where "h1 = h\<lparr>am_len := of_nat len1, am_nb := 1, am_pad := of_nat (AMSDU_PADDING len1), am_hdrs := []\<rparr>"
  define d2 where "d2 = set_hw d1 (upd_hdr a (\<lambda>h. h\<lparr>am_len := of_nat len1, am_nb := 1, am_pad := of_nat (AMSDU_PADDING len1), am_hdrs := []\<rparr>) (dev_hw d))"
  have run: "aml_amsdu_add_subframe pl s i sp d =
      (if ?refuse then Some (False, d1)
       else do {
         (ok, d) \<leftarrow> aml_amsdu_add_subframe_header pl s a d2;
         if \<not> ok then Some (False, d)
         else do {
           let d = set_hw d (upd_hdr a (\<lambda>h. h\<lparr>tx_flags := tx_flags h OR TXU_CNTRL_AMSDU\<rparr>) (dev_hw d));
           h \<leftarrow> hdrs (dev_hw d) a;
           Some (True, if uint (am_nb h) < M
                       then set_hw d (upd_txq i (\<lambda>t. t\<lparr>txq_amsdu := Some a\<rparr>) (dev_hw d)) else d) } })"
    unfolding aml_amsdu_add_subframe_def Let_def maxnb d1_def [symmetric] sel1 t_def [symmetric]
    using on None ne h by (simp add: a_def [symmetric] d2_def len1_def L_def sel1 cong: if_cong)
  show ?thesis
  proof (cases ?refuse)
    case True
    with same run show ?thesis
      by auto
  next
    case False
    have none: "am_hdrs h = []"
      using hk False by (auto simp: hdr_ok_def)
    have h1ok: "hdr_ok h1"
      using hk none by (simp add: hdr_ok_def h1_def)
    have hw2: "dev_hw d2 = view ((hdrs (dev_hw d))(a \<mapsto> h1)) (subframes (dev_hw d)) (amsdus (dev_hw d)) (dev_hw d)"
      using h by (simp add: d2_def upd_hdr_def h1_def view_records(1) [symmetric])
    have inv2: "tx_inv pl 0 [] (dev_hw d2)"
      unfolding hw2
    proof (rule tx_inv_view [OF inv])
      show "route (((hdrs (dev_hw d))(a \<mapsto> h1)) b) = route (hdrs (dev_hw d) b)" for b
        using h by (simp add: route_def h1_def)
      show "subs_ok ((hdrs (dev_hw d))(a \<mapsto> h1)) (subframes (dev_hw d))"
        using inv h none h1ok
        by (intro subs_ok_upd [where H = "hdrs (dev_hw d)" and h = h]) (simp_all add: tx_inv_def subframes_ok_def h1_def)
      show "b \<in> set (sk_list (txq (dev_hw d) j)) \<and> (\<exists>k. ((hdrs (dev_hw d))(a \<mapsto> h1)) b = Some k \<and> am_hdrs k \<noteq> []
          \<and> length (am_hdrs k) + 1 < NX_TX_PAYLOAD_MAX)" if "j < NX_NB_TXQ" "amsdus (dev_hw d) j = Some b" for j b
        using amsdu_frame [OF inv that] none h by auto
    qed
    have h2: "hdrs (dev_hw d2) a = Some h1"
      by (simp add: hw2)
    have nb: "am_nb h1 = packet_cnt h1" "unat (am_nb h1) < NX_TX_PAYLOAD_MAX"
      using hk none by (simp_all add: h1_def hdr_ok_def NX_TX_PAYLOAD_MAX_def)
    have l: "ETH_HLEN \<le> length (skb_data d2 s)"
      using len by (simp add: d2_def sel1)
    have sa: "s \<noteq> a"
      using s h by auto
    show ?thesis
    proof (cases rule: add_header_ok [OF h2 nb bus l, case_names failed added])
      case failed
      have "aggregated pl s d False d2"
        using inv2 s sa by (simp add: aggregated_def hw2)
      moreover have "aml_amsdu_add_subframe pl s i sp d = Some (False, d2)"
        unfolding run using False failed by simp
      ultimately show ?thesis
        by blast
    next
      case (added d' pad th)
      have lens: "unat (am_len h1) = len1" "unat (am_pad h1) = AMSDU_PADDING len1"
      proof -
        have "len1 < 2 ^ 16"
          using False lim by linarith
        then show "unat (am_len h1) = len1"
          by (simp add: h1_def unat_of_nat)
        have "AMSDU_PADDING len1 < 4"
          by (simp add: AMSDU_PADDING_def)
        then show "unat (am_pad h1) = AMSDU_PADDING len1"
          by (simp add: h1_def unat_of_nat)
      qed
      define k where "k = (grown s (L + unat (am_pad h1)) pad h1)\<lparr>tx_flags := tx_flags h OR TXU_CNTRL_AMSDU\<rparr>"
      have f6: "bit (tx_flags h OR TXU_CNTRL_AMSDU) 6"
        by (simp add: bit_or_iff)
      have K: "hdr_ok k" "am_hdrs k = am_hdrs h1 @ [s]" "hdr_txq k = hdr_txq h1" "hw_queue k = hw_queue h1"
          "uint (am_nb k) = int (length (am_hdrs h1)) + 2"
        using L False lim by (auto intro!: grown_ok [OF h1ok _ _ _ _ f6 k_def] simp: lens, auto simp: h1_def NX_TX_PAYLOAD_MAX_def)
      define d3 where "d3 = set_hw d' (upd_hdr a (\<lambda>h. h\<lparr>tx_flags := tx_flags h OR TXU_CNTRL_AMSDU\<rparr>) (dev_hw d'))"
      have Ld: "aml_amsdu_subframe_length (skb_data d2 s) (length (skb_data d2 s)) = L"
        by (simp add: L_def d2_def sel1)
      have hw3: "dev_hw d3 = view ((hdrs (dev_hw d))(a \<mapsto> k)) ((subframes (dev_hw d))(s \<mapsto> th)) (amsdus (dev_hw d)) (dev_hw d)"
        unfolding d3_def set_hw_sel added(2) Ld hw2
        by (rule tx_hw.equality) (auto simp: upd_hdr_def k_def grown_def h1_def)
      then have h3: "hdrs (dev_hw d3) a = Some k"
        by simp
      have h3': "map_option (\<lambda>h. h\<lparr>tx_flags := tx_flags h OR TXU_CNTRL_AMSDU\<rparr>) (hdrs (dev_hw d') a) = Some k"
        using h3 by (simp add: d3_def)
      define e where "e = (if uint (am_nb k) < M then set_hw d3 (upd_txq i (\<lambda>t. t\<lparr>txq_amsdu := Some a\<rparr>) (dev_hw d3)) else d3)"
      have "\<exists>x. dev_hw e = view ((hdrs (dev_hw d))(a \<mapsto> k)) ((subframes (dev_hw d))(s \<mapsto> th)) ((amsdus (dev_hw d))(i := x)) (dev_hw d) \<and>
          (x = None \<or> x = Some a \<and> length (am_hdrs k) + 1 < NX_TX_PAYLOAD_MAX)"
      proof (cases "uint (am_nb k) < M")
        case True
        then have "length (am_hdrs k) + 1 < NX_TX_PAYLOAD_MAX"
          using M by (simp add: K)
        with True show ?thesis
          by (intro exI [of _ "Some a"]) (simp add: e_def hw3 view_records)
      next
        case False
        moreover have "(amsdus (dev_hw d))(i := None) = amsdus (dev_hw d)"
          using None by (auto simp: amsdus_def t_def)
        ultimately show ?thesis
          by (intro exI [of _ None]) (simp add: e_def hw3)
      qed
      then have "aggregated pl s d True e"
        using aggregated_grow [OF inv i a h _ _ K(1) _ s] K none by (auto simp: h1_def)
      moreover have "aml_amsdu_add_subframe pl s i sp d = Some (True, e)"
        unfolding run e_def using False added(1) h3' by (auto simp: d3_def [symmetric])
      ultimately show ?thesis
        by blast
    qed
  qed
qed

lemma add_subframe_ok:
  assumes inv: "tx_inv pl 0 [] (dev_hw d)" and i: "i < NX_NB_TXQ"
    and s: "hdrs (dev_hw d) s = None" "subframes (dev_hw d) s = None" and len: "ETH_HLEN \<le> length (skb_data d s)"
  shows "\<exists>ok d'. aml_amsdu_add_subframe pl s i sp d = Some (ok, d') \<and> aggregated pl s d ok d'"
proof (cases "amsdu_len (txq (dev_hw d) i) = 0 \<or> maxnb_of pl d < 2 \<or> txq_amsdu (txq (dev_hw d) i) = None \<and> sk_list (txq (dev_hw d) i) = []")
  case True
  then have "aml_amsdu_add_subframe pl s i sp d = Some (False, d\<lparr>amsdu_maxnb := maxnb_of pl d\<rparr>)"
    by (auto simp: aml_amsdu_add_subframe_def maxnb_of_def Let_def)
  moreover have "aggregated pl s d False (d\<lparr>amsdu_maxnb := maxnb_of pl d\<rparr>)"
    using inv s by (simp add: aggregated_def)
  ultimately show ?thesis
    by blast
next
  case False
  then show ?thesis
    using add_to_open [OF assms] open_amsdu [OF assms] by (cases "txq_amsdu (txq (dev_hw d) i)") auto
qed

section \<open>Data and management frames\<close>

lemma new_hdr_ok:
  assumes "\<not> bit flags 6"
  shows "hdr_ok (new_sw_txhdr s v i n now flags)" "am_hdrs (new_sw_txhdr s v i n now flags) = []" "hdr_txq (new_sw_txhdr s v i n now flags) = i"
  using assms by (simp_all add: new_sw_txhdr_def hdr_ok_def NX_TX_PAYLOAD_MAX_def)

text \<open>A new frame is queued.\<close>

lemma queue_new_ok:
  assumes inv: "tx_inv pl 0 [] hw" and a: "hdrs hw a = None" "subframes hw a = None"
    and h: "hdr_ok h" "am_hdrs h = []" "hdr_txq h = i" and i: "i < NX_NB_TXQ" and act: "idx (txq hw i) \<noteq> TXQ_INACTIVE"
  shows "\<exists>hw'. aml_txq_queue_skb pl i a False None (hw\<lparr>hdrs := (hdrs hw)(a \<mapsto> h)\<rparr>) = Some hw' \<and> tx_inv pl 0 [] hw' \<and>
     tables hw' = tables hw"
proof -
  have "tx_inv_with pl a (hw\<lparr>hdrs := (hdrs hw)(a \<mapsto> h)\<rparr>)"
    using h i by (intro tx_inv_with_new [OF inv a]) simp_all
  from queue_ok [OF this, of h i False] h(3) act obtain hw'
    where "aml_txq_queue_skb pl i a False None (hw\<lparr>hdrs := (hdrs hw)(a \<mapsto> h)\<rparr>) = Some hw'" "tx_inv pl 0 [] hw'"
    by auto
  with tables_queue [OF this(1)] show ?thesis
    by simp
qed

definition fresh :: "tx_hw \<Rightarrow> addr \<Rightarrow> bool" where
  "fresh hw a \<longleftrightarrow> hdrs hw a = None \<and> subframes hw a = None"

lemma start_xmit_ok:
  assumes inv: "tx_inv pl 0 [] (dev_hw d)" and st: "stas_ok (dev_hw d)"
    and x: "fresh (dev_hw d) (x_addr x)" "ETH_HLEN \<le> length (x_data x)"
  shows "\<exists>d'. aml_start_xmit pl x d = Some d' \<and> tx_inv pl 0 [] (dev_hw d') \<and> tables (dev_hw d') = tables (dev_hw d)"
proof -
  have bus: "aml_bus_type pl \<noteq> PCIE_MODE"
    using inv by (simp add: tx_inv_def)
  define copy where "copy \<longleftrightarrow> x_shared x \<or> x_headroom x < tx_max_headroom pl"
  show ?thesis
  proof (cases "x_recovery x \<or> copy \<and> \<not> x_expand_ok x \<or> x_ack_kept x \<or>
      aml_get_tx_info (dev_hw d) (x_vif x) (x_priority x) (x_mapping x) = None")
    case True
    then have "aml_start_xmit pl x d = Some d"
      by (auto simp: aml_start_xmit_def copy_def [symmetric] Let_def split: option.splits)
    with inv show ?thesis
      by simp
  next
    case False
    then obtain p where p: "aml_get_tx_info (dev_hw d) (x_vif x) (x_priority x) (x_mapping x) = Some p"
      by auto
    obtain i where i: "aml_txq_sta_get (dev_hw d) (Some p) (x_priority x) = Some i" "i < NX_NB_TXQ"
      using sta_get_ok [of "dev_hw d" p] st by (auto simp: stas_ok_def)
    define a where "a = x_addr x"
    define d1 where "d1 = d\<lparr>skb_data := (skb_data d)(a := x_data x),
        skb_headroom := (skb_headroom d)(a := if copy then tx_max_headroom pl else x_headroom x)\<rparr>"
    have d1: "dev_hw d1 = dev_hw d" "skb_data d1 a = x_data x"
      by (simp_all add: d1_def)
    have "tx_inv pl 0 [] (dev_hw d1)" "hdrs (dev_hw d1) a = None" "subframes (dev_hw d1) a = None"
        "ETH_HLEN \<le> length (skb_data d1 a)"
      unfolding d1 using inv x by (simp_all add: a_def fresh_def)
    from add_subframe_ok [OF this(1) i(2) this(2-4), of "sp_frame_of (dev_hw d) x"] obtain ok d2
      where d2: "aml_amsdu_add_subframe pl a i (sp_frame_of (dev_hw d) x) d1 = Some (ok, d2)" "aggregated pl a d1 ok d2"
      by blast
    have inv2: "tx_inv pl 0 [] (dev_hw d2)" and t2: "tables (dev_hw d2) = tables (dev_hw d)"
      and idx: "\<And>j. idx (txq (dev_hw d2) j) = idx (txq (dev_hw d) j)"
      and fr: "\<not> ok \<Longrightarrow> hdrs (dev_hw d2) a = None" "\<not> ok \<Longrightarrow> subframes (dev_hw d2) a = None"
      using d2(2) by (simp_all add: aggregated_def d1)
    define fl where "fl = (let flags = (if x_use_4addr x \<and> sta_idx (sta_table (dev_hw d2) p) < NX_REMOTE_STA_MAX then TXU_CNTRL_USE_4ADDR else 0);
                      flags = (if x_tdls_peer x then flags OR TXU_CNTRL_TDLS else flags);
                      flags = (if iftype (vif_table (dev_hw d2) (x_vif x)) = NL80211_IFTYPE_MESH_POINT \<and> x_resending x
                               then flags OR TXU_CNTRL_MESH_FWD else flags)
                  in if sp_frame_of (dev_hw d) x then flags OR TXU_CNTRL_SP_FRAME else flags)"
    define h where "h = new_sw_txhdr (Some p) (x_vif x) i (of_nat (length (x_data x) - ETH_HLEN)) (jiffies (dev_hw d2)) fl"
    have "\<not> bit fl 6"
      by (simp add: fl_def Let_def bit_or_iff)
    note H = new_hdr_ok [OF this, of "Some p" "x_vif x" i "of_nat (length (x_data x) - ETH_HLEN)" "jiffies (dev_hw d2)", folded h_def]
    have run: "aml_start_xmit pl x d =
       (if idx (txq (dev_hw d) i) = TXQ_INACTIVE then Some d
        else if ok \<or> \<not> x_hdr_ok x then Some d2
        else do { hw \<leftarrow> aml_txq_queue_skb pl i a False None ((dev_hw d2)\<lparr>hdrs := (hdrs (dev_hw d2))(a \<mapsto> h)\<rparr>); Some (set_hw d2 hw) })"
    proof -
      have go: "(copy \<and> \<not> x_expand_ok x) = False" "x_recovery x = False" "x_ack_kept x = False"
        using False by simp_all
      show ?thesis
        unfolding aml_start_xmit_def copy_def [symmetric] a_def [symmetric] Let_def go p option.case if_False i(1)
          Option.bind.bind_lunit d1_def [symmetric]
        using d2(1) bus by (auto simp: aml_prep_dma_tx_def h_def fl_def Let_def)
    qed
    show ?thesis
    proof (cases "idx (txq (dev_hw d) i) = TXQ_INACTIVE \<or> ok \<or> \<not> x_hdr_ok x")
      case True
      with inv inv2 t2 show ?thesis
        by (auto simp: run)
    next
      case False
      then have "\<exists>hw'. aml_txq_queue_skb pl i a False None ((dev_hw d2)\<lparr>hdrs := (hdrs (dev_hw d2))(a \<mapsto> h)\<rparr>) = Some hw' \<and>
          tx_inv pl 0 [] hw' \<and> tables hw' = tables (dev_hw d2)"
        using H i(2) fr by (intro queue_new_ok [OF inv2]) (simp_all add: idx)
      with False t2 show ?thesis
        by (auto simp: run)
    qed
  qed
qed

lemma start_mgmt_xmit_ok:
  assumes inv: "tx_inv pl 0 [] (dev_hw d)" and st: "stas_ok (dev_hw d)" and v: "vif_ok (dev_hw d) v"
    and m: "fresh (dev_hw d) (m_addr m)"
  shows "\<exists>r d'. aml_start_mgmt_xmit pl v s m offchan d = Some (r, d') \<and> tx_inv pl 0 [] (dev_hw d') \<and> tables (dev_hw d') = tables (dev_hw d)"
proof (cases "m_recovery m \<or> hw_state pl \<noteq> WIFI_SUSPEND_STATE_NONE")
  case True
  with inv show ?thesis
    by (auto simp: aml_start_mgmt_xmit_def)
next
  case on: False
  have bus: "aml_bus_type pl \<noteq> PCIE_MODE"
    using inv by (simp add: tx_inv_def)
  have off: "txq_at NX_OFF_CHAN_TXQ_IDX = Some NX_OFF_CHAN_TXQ_IDX" "NX_OFF_CHAN_TXQ_IDX < NX_NB_TXQ"
    by (simp_all add: txq_at_def txq_layout_defs)
  have "\<exists>i. (case s of Some p \<Rightarrow> aml_txq_sta_get (dev_hw d) (Some p) 8
       | None \<Rightarrow> if offchan then txq_at NX_OFF_CHAN_TXQ_IDX else aml_txq_vif_get (dev_hw d) v NX_UNK_TXQ_TYPE) = Some i \<and> i < NX_NB_TXQ"
    using sta_get_ok [of "dev_hw d" "the s" 8] st off vif_idx_parts(4,6) [OF v] by (auto simp: stas_ok_def split: option.split)
  then obtain j where j: "(case s of Some p \<Rightarrow> aml_txq_sta_get (dev_hw d) (Some p) 8
       | None \<Rightarrow> if offchan then txq_at NX_OFF_CHAN_TXQ_IDX else aml_txq_vif_get (dev_hw d) v NX_UNK_TXQ_TYPE) = Some j" "j < NX_NB_TXQ"
    by blast
  define i where "i = (if m_sp_ret m AND AML_DPP_ACTION_FRAME \<noteq> 0 \<and> offchan then NX_OFF_CHAN_TXQ_IDX else j)"
  have i: "i < NX_NB_TXQ"
    using j(2) off(2) by (simp add: i_def)
  define a where "a = m_addr m"
  define fl where "fl = (TXU_CNTRL_MGMT OR (if m_sp_ret m AND AML_SP_FRAME \<noteq> 0 then TXU_CNTRL_SP_FRAME else 0)
                OR (if m_robust m then TXU_CNTRL_MGMT_ROBUST else 0) OR (if m_no_cck m then TXU_CNTRL_MGMT_NO_CCK else 0))"
  define h where "h = new_sw_txhdr s v i (ucast (of_nat (length (m_buf m)) - m_len_diff m)) (jiffies (dev_hw d)) fl"
  have "\<not> bit fl 6"
    by (simp add: fl_def bit_or_iff)
  note H = new_hdr_ok [OF this, of s v i "ucast (of_nat (length (m_buf m)) - m_len_diff m)" "jiffies (dev_hw d)", folded h_def]
  have run: "aml_start_mgmt_xmit pl v s m offchan d =
     (if \<not> m_alloc_ok m then Some (Inl ENOMEM, d)
      else if idx (txq (dev_hw d) i) = TXQ_INACTIVE
      then Some (if m_action m then (Inr (), set_hw d (report (Mgmt_tx_status a False) (dev_hw d))) else (Inl EBUSY, d))
      else do {
        hw \<leftarrow> aml_txq_queue_skb pl i a False None ((dev_hw d)\<lparr>hdrs := (hdrs (dev_hw d))(a \<mapsto> h)\<rparr>);
        Some (Inr (), (set_hw d hw)\<lparr>skb_data := (skb_data d)(a := m_buf m), skb_headroom := (skb_headroom d)(a := tx_headroom pl)\<rparr>) })"
    using on bus unfolding aml_start_mgmt_xmit_def j(1)
    by (simp add: aml_prep_dma_tx_def i_def [symmetric] a_def [symmetric] h_def fl_def Let_def cong: if_cong)
  show ?thesis
  proof (cases "\<not> m_alloc_ok m \<or> idx (txq (dev_hw d) i) = TXQ_INACTIVE")
    case True
    with inv show ?thesis
      by (auto simp: run)
  next
    case False
    then have "\<exists>hw'. aml_txq_queue_skb pl i a False None ((dev_hw d)\<lparr>hdrs := (hdrs (dev_hw d))(a \<mapsto> h)\<rparr>) = Some hw' \<and>
        tx_inv pl 0 [] hw' \<and> tables hw' = tables (dev_hw d)"
      using H i m by (intro queue_new_ok [OF inv]) (simp_all add: fresh_def a_def)
    with False show ?thesis
      by (auto simp: run)
  qed
qed

section \<open>The TX task\<close>

lemma tx_packet_hw [simp]: "dev_hw (snd (tx_packet pl h d)) = dev_hw d"
  by (auto simp: tx_packet_def Let_def)

lemma desc_save_inv:
  assumes "tx_inv pl k p hw" and "distinct xs" and "set xs \<subseteq> set (tx_desc_save hw)"
  shows "tx_inv pl k p (hw\<lparr>tx_desc_save := xs\<rparr>)"
proof -
  have "desc_ok (hw\<lparr>tx_desc_save := xs\<rparr>)"
    using assms by (auto simp: tx_inv_def desc_ok_def)
  moreover have "waiting k p (hw\<lparr>tx_desc_save := xs\<rparr>) = waiting k p hw" "fw_of_txq (hw\<lparr>tx_desc_save := xs\<rparr>) = fw_of_txq hw"
      "fw_of_hwq (hw\<lparr>tx_desc_save := xs\<rparr>) = fw_of_hwq hw"
    by (rule ext, simp add: waiting_def fw_of_txq_def fw_of_hwq_def)+
  ultimately show ?thesis
    using assms(1) by (simp add: tx_inv_def frames_ok_def fw_ok_def subframes_ok_def amsdu_ok_def hwq_ok_def all_waiting_def)
qed

lemma tx_gather_ok:
  assumes "tx_inv pl 0 [] (dev_hw d)" and "set as \<subseteq> set (tx_desc_save (dev_hw d))" and "distinct as"
  shows "\<exists>r d'. tx_gather pl as sent d = Some (sent @ r, d') \<and> tx_inv pl 0 [] (dev_hw d') \<and> tables (dev_hw d') = tables (dev_hw d) \<and>
     (\<exists>zs. as = r @ zs) \<and> set (tx_desc_save (dev_hw d')) = set (tx_desc_save (dev_hw d)) - set r \<and>
     ipc_env (dev_hw d') = ipc_env (dev_hw d)"
  using assms
proof (induction "as" arbitrary: sent d)
  case Nil
  then show ?case
    by simp
next
  case (Cons a "as")
  have de: "distinct (tx_desc_save (dev_hw d))" and "a \<in> set (fw_frames (ipc_env (dev_hw d)))" and fw: "fw_ok (dev_hw d)"
    using Cons.prems(1,2) by (auto simp: tx_inv_def desc_ok_def frames_ok_def)
  then obtain h where h: "hdrs (dev_hw d) a = Some h"
    using fw_okD by blast
  define n where "n = (ucast (page_num pl h) :: u32)"
  define d1 where "d1 = d\<lparr>tx_page_free_num := tx_page_free_num d - n, tot_page_num := tot_page_num d + n\<rparr>"
  define d2 where "d2 = snd (tx_packet pl h d1)"
  define d3 where "d3 = set_hw d2 ((dev_hw d2)\<lparr>tx_desc_save := remove1 a (tx_desc_save (dev_hw d2))\<rparr>)"
  have hw2: "dev_hw d2 = dev_hw d"
    by (simp add: d2_def d1_def)
  have pair: "tx_packet pl h d1 = (fst (tx_packet pl h d1), d2)"
    by (simp add: d2_def)
  have run: "tx_gather pl (a # as) sent d =
     (if n + 1 \<le> tx_page_free_num d \<and> (tot_page_num d + n \<le> ucast (tx_page_once d) \<or> tot_page_num d = 0)
      then if fst (tx_packet pl h d1) then tx_gather pl as (sent @ [a]) d3 else Some (sent, d2) else Some (sent, d))"
    unfolding tx_gather.simps h Option.bind.bind_lunit Let_def n_def [symmetric] d1_def [symmetric]
    by (subst pair) (auto simp: d3_def)
  have inv3: "tx_inv pl 0 [] (dev_hw d3)"
    unfolding d3_def set_hw_sel hw2 using Cons.prems(1) de by (intro desc_save_inv) (auto dest: notin_set_remove1)
  have s3: "set (tx_desc_save (dev_hw d3)) = set (tx_desc_save (dev_hw d)) - {a}"
    using de by (simp add: d3_def hw2 set_remove1_eq)
  have "set as \<subseteq> set (tx_desc_save (dev_hw d3))"
    using Cons.prems(2,3) by (auto simp: s3)
  from Cons.IH [OF inv3 this, of "sent @ [a]"] Cons.prems(3) obtain r d'
    where ih: "tx_gather pl as (sent @ [a]) d3 = Some ((sent @ [a]) @ r, d')" "tx_inv pl 0 [] (dev_hw d')"
      "tables (dev_hw d') = tables (dev_hw d3)" "\<exists>zs. as = r @ zs"
      "set (tx_desc_save (dev_hw d')) = set (tx_desc_save (dev_hw d3)) - set r" "ipc_env (dev_hw d') = ipc_env (dev_hw d3)"
    by auto
  have same3: "tables (dev_hw d3) = tables (dev_hw d)" "ipc_env (dev_hw d3) = ipc_env (dev_hw d)"
    by (simp_all add: d3_def hw2)
  define C where "C \<longleftrightarrow> n + 1 \<le> tx_page_free_num d \<and> (tot_page_num d + n \<le> ucast (tx_page_once d) \<or> tot_page_num d = 0)"
  note run = run [folded C_def]
  have "(\<exists>e. tx_gather pl (a # as) sent d = Some (sent, e) \<and> dev_hw e = dev_hw d) \<or> C \<and> fst (tx_packet pl h d1)"
    unfolding run using hw2 by auto
  then consider (go) "C" "fst (tx_packet pl h d1)"
    | (stay) e where "tx_gather pl (a # as) sent d = Some (sent, e)" "dev_hw e = dev_hw d"
    by blast
  then show ?case
  proof cases
    case go
    then have "tx_gather pl (a # as) sent d = Some (sent @ (a # r), d')"
      unfolding run by (simp add: ih(1))
    moreover have "set (tx_desc_save (dev_hw d')) = set (tx_desc_save (dev_hw d)) - set (a # r)"
      by (auto simp: ih(5) s3)
    ultimately show ?thesis
      using ih(2-4,6) same3 by (intro exI [of _ "a # r"] exI [of _ d']) auto
  next
    case stay
    with Cons.prems(1) show ?thesis
      by (intro exI [of _ "[]"] exI [of _ e]) auto
  qed
qed

lemma tx_task_ok:
  assumes inv: "tx_inv pl 0 [] (dev_hw d)"
  shows "\<exists>d'. aml_tx_task_round pl d = Some d' \<and> tx_inv pl 0 [] (dev_hw d') \<and> tables (dev_hw d') = tables (dev_hw d)"
proof -
  define d1 where "d1 = set_hw d ((dev_hw d)\<lparr>aml_tx_sem := aml_tx_sem (dev_hw d) - 1\<rparr>)"
  have inv1: "tx_inv pl 0 [] (dev_hw d1)" and t1: "tables (dev_hw d1) = tables (dev_hw d)"
    using inv by (simp_all add: d1_def)
  show ?thesis
  proof (cases "dynabuf_stop_tx d1")
    case True
    then show ?thesis
      unfolding aml_tx_task_round_def Let_def d1_def [symmetric] using inv1 t1 by auto
  next
    case False
    from process_all_ok [OF inv1] obtain hw where hw: "aml_hwq_process_all pl (dev_hw d1) = Some hw" "tx_inv pl 0 [] hw"
      by blast
    have "distinct (tx_desc_save hw)"
      using hw(2) by (simp add: tx_inv_def desc_ok_def)
    from tx_gather_ok [of pl "set_hw d1 hw" "tx_desc_save hw" "[]"] this hw(2) obtain r d2
      where d2: "tx_gather pl (tx_desc_save hw) [] (set_hw d1 hw) = Some (r, d2)" "tx_inv pl 0 [] (dev_hw d2)" "tables (dev_hw d2) = tables hw"
      by auto
    have "dev_hw (tx_send r d2) = dev_hw d2"
      by (simp add: tx_send_def)
    with d2 hw(1) False tables_process_all [OF hw(1)] t1 show ?thesis
      unfolding aml_tx_task_round_def Let_def d1_def [symmetric] by auto
  qed
qed

end
