(* ===== verification/Tx_Machine.thy ===== *)
theory Tx_Machine
  imports Tx_Xmit
begin

text \<open>
  The transmission path as a machine driven by the network stack, cfg80211, the firmware
  and the timers: from the state the driver boots with, no sequence of events makes it
  fault, and no frame, subframe or credit is lost or counted twice.
\<close>

section \<open>Events\<close>

text \<open>A data frame, a management frame, a wake-up of the TX task, a wake-up of the confirmation
  task with the ring as the firmware left it, the answer to a management frame, the messages
  of the firmware about credits and power save, the clean-up timer at a time, and what the
  control path does with stations and interfaces.\<close>

datatype tx_event =
    Xmit tx_skb
  | Mgmt_xmit nat "nat option" mgmt_tx_params bool
  | Tx_task
  | Cfm_task "nat \<Rightarrow> compact_tx_cfm_tag" "addr \<Rightarrow> mgmt_info" u32
  | Cfm_rsp "nat option" bool
  | Credit_update nat nat int
  | Traffic_req "nat option" u16 nat
  | Ps_enable nat bool
  | Cleanup_timer u64
  | Sta_init nat u8
  | Sta_deinit nat
  | Sta_start nat u16
  | Sta_stop nat u16
  | Vif_init nat u8
  | Vif_deinit nat

definition on_hw :: "(tx_hw \<Rightarrow> tx_hw option) \<Rightarrow> tx_dev \<Rightarrow> tx_dev option" where
  "on_hw f d = map_option (set_hw d) (f (dev_hw d))"

fun tx_handle :: "plat \<Rightarrow> tx_event \<Rightarrow> tx_dev \<Rightarrow> tx_dev option" where
  "tx_handle pl (Xmit x) d = aml_start_xmit pl x d"
| "tx_handle pl (Mgmt_xmit v s m offchan) d = map_option snd (aml_start_mgmt_xmit pl v s m offchan d)"
| "tx_handle pl Tx_task d = aml_tx_task_round pl d"
| "tx_handle pl (Cfm_task ring m sp) d = map_option snd (aml_tx_cfm_task_round pl m sp (d\<lparr>read_cfm := ring\<rparr>))"
| "tx_handle pl (Cfm_rsp roc ack) d = Some (aml_tx_cfm_wait_rsp roc ack d)"
| "tx_handle pl (Credit_update p t n) d = on_hw (aml_txq_credit_update pl p t n) d"
| "tx_handle pl (Traffic_req s n ps) d = on_hw (aml_ps_bh_traffic_req pl s n ps) d"
| "tx_handle pl (Ps_enable p b) d = on_hw (aml_ps_bh_enable pl p b) d"
| "tx_handle pl (Cleanup_timer t) d = on_hw (\<lambda>hw. aml_txq_cleanup_timer_cb pl (hw\<lparr>jiffies := t\<rparr>)) d"
| "tx_handle pl (Sta_init s st) d = on_hw (aml_txq_sta_init s st) d"
| "tx_handle pl (Sta_deinit s) d = on_hw (aml_txq_sta_deinit (Some s)) d"
| "tx_handle pl (Sta_start s r) d = on_hw (aml_txq_sta_start pl (Some s) r) d"
| "tx_handle pl (Sta_stop s r) d = on_hw (aml_txq_sta_stop (Some s) r) d"
| "tx_handle pl (Vif_init v st) d = on_hw (aml_txq_vif_init v st) d"
| "tx_handle pl (Vif_deinit v) d = on_hw (aml_txq_vif_deinit v) d"

text \<open>What the surroundings guarantee: a buffer is handed over once and has an Ethernet header,
  the firmware confirms what it was given, queues are set up when they are free, and nobody
  claims a queue is linked by hand.\<close>

fun tx_ready :: "tx_event \<Rightarrow> tx_dev \<Rightarrow> bool" where
  "tx_ready (Xmit x) d \<longleftrightarrow> fresh (dev_hw d) (x_addr x) \<and> ETH_HLEN \<le> length (x_data x)"
| "tx_ready (Mgmt_xmit v s m offchan) d \<longleftrightarrow> fresh (dev_hw d) (m_addr m)"
| "tx_ready (Cfm_task ring m sp) d \<longleftrightarrow> cfm_ring_ok ring (dev_hw d)"
| "tx_ready (Sta_init s st) d \<longleftrightarrow> \<not> bit st 0 \<and>
     (\<forall>is. foreach_sta_txq (dev_hw d) (Some s) = Some is \<longrightarrow> (\<forall>i\<in>set is. init_ready (dev_hw d) i))"
| "tx_ready (Sta_start s r) d \<longleftrightarrow> \<not> bit r 0"
| "tx_ready (Sta_stop s r) d \<longleftrightarrow> \<not> bit r 0"
| "tx_ready (Vif_init v st) d \<longleftrightarrow> \<not> bit st 0 \<and>
     init_ready (dev_hw d) (aml_txq_vif_idx (dev_hw d) v NX_BCMC_TXQ_TYPE) \<and>
     init_ready (dev_hw d) (aml_txq_vif_idx (dev_hw d) v NX_UNK_TXQ_TYPE)"
| "tx_ready _ d \<longleftrightarrow> True"

text \<open>An event the surroundings do not produce is skipped.\<close>

definition tx_step :: "plat \<Rightarrow> tx_event \<Rightarrow> tx_dev \<Rightarrow> tx_dev option" where
  "tx_step pl e d = (if tx_ready e d then tx_handle pl e d else Some d)"

definition tables_ok :: "tx_hw \<Rightarrow> bool" where
  "tables_ok hw \<longleftrightarrow> (\<forall>p. sta_ok hw p) \<and> (\<forall>v. vif_ok hw v)"

definition tx_dev_inv :: "plat \<Rightarrow> tx_dev \<Rightarrow> bool" where
  "tx_dev_inv pl d \<longleftrightarrow> tx_inv pl 0 [] (dev_hw d) \<and> tables_ok (dev_hw d)"

lemma tables_ok_keep: "tables hw' = tables hw \<Longrightarrow> tables_ok hw' = tables_ok hw"
  by (auto simp: tables_ok_def tables_def sta_ok_def vif_ok_def fun_eq_iff)

lemma dev_inv_keep:
  "tx_dev_inv pl d \<Longrightarrow> tx_inv pl 0 [] (dev_hw d') \<Longrightarrow> tables (dev_hw d') = tables (dev_hw d) \<Longrightarrow> tx_dev_inv pl d'"
  using tables_ok_keep [of "dev_hw d'" "dev_hw d"] by (simp add: tx_dev_inv_def)

lemma tables_okD: "tables_ok hw \<Longrightarrow> sta_ok hw p" "tables_ok hw \<Longrightarrow> vif_ok hw v" "tables_ok hw \<Longrightarrow> stas_ok hw"
    "tables_ok hw \<Longrightarrow> vif_tables_ok hw v"
  by (simp_all add: tables_ok_def stas_ok_def vif_tables_ok_def)

text \<open>A handler on the queues that keeps their invariant and the tables.\<close>

lemma on_hw_ok:
  assumes "tx_dev_inv pl d" and "\<exists>hw'. f (dev_hw d) = Some hw' \<and> tx_inv pl 0 [] hw'"
    and "\<And>hw'. f (dev_hw d) = Some hw' \<Longrightarrow> tables hw' = tables (dev_hw d)"
  shows "\<exists>d'. on_hw f d = Some d' \<and> tx_dev_inv pl d'"
proof -
  obtain hw' where "f (dev_hw d) = Some hw'" "tx_inv pl 0 [] hw'"
    using assms(2) by blast
  with assms(3) dev_inv_keep [OF assms(1), of "set_hw d hw'"] show ?thesis
    by (simp add: on_hw_def)
qed

lemma tables_cleanup:
  assumes "tx_inv pl 0 [] hw" and "tables_ok hw"
  shows "\<exists>hw'. aml_txq_cleanup_timer_cb pl hw = Some hw' \<and> tx_inv pl 0 [] hw' \<and> tables hw' = tables hw"
proof (cases "hw_state pl = WIFI_SUSPEND_STATE_NONE")
  case True
  define hw1 where "hw1 = hw\<lparr>txq_cleanup := None\<rparr>"
  have "tables_ok hw1"
    using assms(2) tables_ok_keep [of hw1 hw] by (simp add: hw1_def)
  then obtain q hw2 where "cleanup_vifs (vifs hw1) (False, hw1) = Some (q, hw2)" "tx_inv pl 0 [] hw2" "same_tables hw1 hw2"
    using cleanup_vifs_ok [of pl hw1 "vifs hw1" False] assms(1) tables_okD(4) by (auto simp: hw1_def)
  with True show ?thesis
    by (simp add: aml_txq_cleanup_timer_cb_def hw1_def [symmetric] Let_def tables_same) (simp add: hw1_def)
qed (use assms(1) in \<open>simp add: aml_txq_cleanup_timer_cb_def Let_def\<close>)

lemma cfm_rsp_inv:
  assumes "tx_dev_inv pl d"
  shows "tx_dev_inv pl (aml_tx_cfm_wait_rsp roc ack d)"
  by (rule dev_inv_keep [OF assms])
    (use assms in \<open>auto simp: aml_tx_cfm_wait_rsp_def tx_dev_inv_def split: option.split\<close>)

lemma cfm_task_ok:
  assumes "tx_dev_inv pl d" and "cfm_ring_ok ring (dev_hw d)"
  shows "\<exists>sp' d'. aml_tx_cfm_task_round pl m sp (d\<lparr>read_cfm := ring\<rparr>) = Some (sp', d') \<and> tx_dev_inv pl d'"
proof -
  let ?d = "d\<lparr>read_cfm := ring\<rparr>"
  have "tx_inv pl 0 [] (dev_hw ?d)" "stas_ok (dev_hw ?d)" "cfm_ring_ok (read_cfm ?d) (dev_hw ?d)"
    using assms tables_okD(3) by (simp_all add: tx_dev_inv_def)
  from cfm_loop_ok [OF this, of "length (tx_hostid_pushed (ipc_env (dev_hw ?d))) + 1" m 0 sp]
  obtain sp' d' where d': "aml_tx_cfm_task_round pl m sp (d\<lparr>read_cfm := ring\<rparr>) = Some (sp', d')" "tx_inv pl 0 [] (dev_hw d')"
      "stas_ok (dev_hw d')" "vif_table (dev_hw d') = vif_table (dev_hw d)"
    unfolding aml_tx_cfm_task_round_def by auto
  then show ?thesis
    using assms(1) by (auto simp: tx_dev_inv_def tables_ok_def stas_ok_def vif_ok_def)
qed

lemma tx_step_ok:
  assumes inv: "tx_dev_inv pl d"
  shows "\<exists>d'. tx_step pl e d = Some d' \<and> tx_dev_inv pl d'"
proof (cases "tx_ready e d")
  case False
  with inv show ?thesis
    by (simp add: tx_step_def)
next
  case True
  have i: "tx_inv pl 0 [] (dev_hw d)" and t: "tables_ok (dev_hw d)"
    using inv by (simp_all add: tx_dev_inv_def)
  note T = tables_okD [OF t]
  have "\<exists>d'. tx_handle pl e d = Some d' \<and> tx_dev_inv pl d'"
  proof (cases e)
    case (Xmit x)
    with start_xmit_ok [OF i T(3)] True show ?thesis
      by (auto intro: dev_inv_keep [OF inv])
  next
    case (Mgmt_xmit v s m b)
    with start_mgmt_xmit_ok [OF i T(3) T(2), of m v s b] True obtain r d'
      where "aml_start_mgmt_xmit pl v s m b d = Some (r, d')" "tx_inv pl 0 [] (dev_hw d')" "tables (dev_hw d') = tables (dev_hw d)"
      by auto
    with Mgmt_xmit show ?thesis
      by (auto intro: dev_inv_keep [OF inv])
  next
    case Tx_task
    with tx_task_ok [OF i] show ?thesis
      by (auto intro: dev_inv_keep [OF inv])
  next
    case (Cfm_task ring m sp)
    with cfm_task_ok [OF inv, of ring m sp] True show ?thesis
      by auto
  next
    case (Cleanup_timer u)
    have "tables_ok ((dev_hw d)\<lparr>jiffies := u\<rparr>)"
      using t tables_ok_keep [of "(dev_hw d)\<lparr>jiffies := u\<rparr>" "dev_hw d"] by simp
    with tables_cleanup [of pl "(dev_hw d)\<lparr>jiffies := u\<rparr>"] i obtain hw'
      where "aml_txq_cleanup_timer_cb pl ((dev_hw d)\<lparr>jiffies := u\<rparr>) = Some hw'" "tx_inv pl 0 [] hw'" "tables hw' = tables (dev_hw d)"
      by auto
    with Cleanup_timer show ?thesis
      by (simp, intro on_hw_ok [OF inv]) auto
  next
    case (Sta_init s st)
    with True sta_init_ok [OF i T(1)] show ?thesis
      by (simp, intro on_hw_ok [OF inv]) (auto dest: tables_sta)
  next
    case (Vif_init v st)
    with True vif_init_ok [OF i T(2)] show ?thesis
      by (simp, intro on_hw_ok [OF inv]) (auto dest: tables_vif)
  next
    case (Sta_start s r)
    with True sta_start_ok [OF i T(1)] show ?thesis
      by (simp, intro on_hw_ok [OF inv]) (auto dest: tables_sta)
  next
    case (Sta_stop s r)
    with True sta_stop_ok [OF i T(1)] show ?thesis
      by (simp, intro on_hw_ok [OF inv]) (auto dest: tables_sta)
  next
    case (Traffic_req s n ps)
    with traffic_req_ok [OF i] T(1) show ?thesis
      by (simp, intro on_hw_ok [OF inv]) (auto dest: tables_traffic_req)
  next
    case (Credit_update p k n)
    with credit_update_ok [OF i T(1)] show ?thesis
      by (simp, intro on_hw_ok [OF inv]) (auto dest: tables_credit_update)
  next
    case (Ps_enable p b)
    with ps_enable_ok [OF i T(1)] show ?thesis
      by (simp, intro on_hw_ok [OF inv]) (auto dest: tables_ps_enable)
  next
    case (Sta_deinit s)
    with sta_deinit_ok [OF i T(1)] show ?thesis
      by (simp, intro on_hw_ok [OF inv]) (auto dest: tables_sta)
  next
    case (Vif_deinit v)
    with vif_deinit_ok [OF i T(2)] show ?thesis
      by (simp, intro on_hw_ok [OF inv]) (auto dest: tables_vif)
  next
    case (Cfm_rsp roc ack)
    with cfm_rsp_inv [OF inv] show ?thesis
      by simp
  qed
  with True show ?thesis
    by (simp add: tx_step_def)
qed

interpretation txm: total_machine "tx_step pl" "tx_dev_inv pl" for pl
proof unfold_locales
  show "tx_dev_inv pl d'" if "tx_dev_inv pl d" "tx_step pl e d = Some d'" for d e d'
    using tx_step_ok [OF that(1), of e] that(2) by simp
  show "\<exists>d'. tx_step pl e d = Some d'" if "tx_dev_inv pl d" for d e
    using tx_step_ok [OF that, of e] by blast
qed

section \<open>The state after start-up\<close>

text \<open>The queues as \<open>wiphy_new\<close> zeroes them.\<close>

definition zero_txq :: aml_txq where
  "zero_txq = \<lparr>idx = 0, status = 0, txq_credits = 0, pkt_sent = 0, push_limit = 0, pkt_pushed = 0, sk_list = [],
     last_retry_skb = None, txq_hwq = 0, nb_retry = 0, txq_tid = 0, txq_sta = None, ps_id = 0, ndev_idx = 0, ndev = 0,
     txq_amsdu = None, amsdu_len = 0\<rparr>"

definition tx_boot :: "plat \<Rightarrow> ipc_shared_env \<Rightarrow> tx_hw \<Rightarrow> tx_hw" where
  "tx_boot pl sh hw = aml_txq_prepare (aml_hwq_init pl (hw\<lparr>txq := (\<lambda>_. zero_txq), hdrs := Map.empty, subframes := Map.empty,
     ipc_env := ipc_host_init (aml_bus_type pl) sh True True (ipc_env hw), tx_desc_save := [], retry_warned := False\<rparr>))"

lemma tx_boot_sel [simp]:
  "txq (tx_boot pl sh hw) = (\<lambda>i. if i < NX_NB_TXQ then zero_txq\<lparr>idx := TXQ_INACTIVE\<rparr> else zero_txq)"
  "hdrs (tx_boot pl sh hw) = Map.empty" "subframes (tx_boot pl sh hw) = Map.empty" "tx_desc_save (tx_boot pl sh hw) = []"
  "ipc_env (tx_boot pl sh hw) = ipc_host_init (aml_bus_type pl) sh True True (ipc_env hw)" "retry_warned (tx_boot pl sh hw) = False"
  "tables (tx_boot pl sh hw) = tables hw"
  by (auto simp: tx_boot_def aml_txq_prepare_def aml_hwq_init_def tables_def Let_def fun_eq_iff cong: if_cong)

lemma tx_boot_hwq: "q < NX_TXQ_CNT \<Longrightarrow> aml_bus_type pl \<noteq> PCIE_MODE \<Longrightarrow>
    hwq_credits (hwq (tx_boot pl sh hw) q) = nx_txdesc_cnt_ext ! q \<and> hwq_size (hwq (tx_boot pl sh hw) q) = nx_txdesc_cnt_ext ! q \<and>
    hwq_list (hwq (tx_boot pl sh hw) q) = []"
  by (simp add: tx_boot_def aml_txq_prepare_def aml_hwq_init_def Let_def)

lemma tx_boot_inv:
  assumes bus: "aml_bus_type pl \<noteq> PCIE_MODE"
  shows "tx_inv pl 0 [] (tx_boot pl sh hw)" (is "tx_inv pl 0 [] ?hw")
proof -
  have w: "waiting 0 [] ?hw j = []" for j
    by (simp add: waiting_def zero_txq_def)
  have fw: "fw_frames (ipc_env ?hw) = []"
    by (simp add: fw_frames_def ipc_host_init_def)
  have "all_waiting 0 [] ?hw = []"
    by (simp only: all_waiting_def concat_eq_Nil_conv) (simp add: w)
  then have "frames_ok 0 [] ?hw"
    unfolding frames_ok_def fw_ok_def fw by (simp add: w)
  moreover have "subframes_ok ?hw"
    by (simp add: subframes_ok_def subs_ok_def)
  moreover have "txq_ok j (txq ?hw j) (waiting 0 [] ?hw j) \<and> amsdu_ok ?hw (txq ?hw j) (waiting 0 [] ?hw j) \<and>
      pkt_pushed (txq ?hw j) = int (fw_of_txq ?hw j)" if "j < NX_NB_TXQ" for j
    using that unfolding w
    by (simp add: txq_ok_def retry_ok_def amsdu_ok_def fw_of_txq_def fw zero_txq_def aml_txq_is_scheduled_def NX_TXQ_CNT_def)
  moreover have "hwq_ok ?hw q" if "q < NX_TXQ_CNT" for q
  proof -
    have "0 \<le> nx_txdesc_cnt_ext ! q"
      using that by (auto simp: nx_txdesc_cnt_ext_def TX_MAX_CNT_def NX_TXQ_CNT_def less_Suc_eq numeral_eq_Suc)
    then show ?thesis
      using tx_boot_hwq [OF that bus] by (simp add: hwq_ok_def fw_of_hwq_def fw zero_txq_def aml_txq_is_scheduled_def)
  qed
  ultimately show ?thesis
    using bus hostid_inv_init by (simp add: tx_inv_def desc_ok_def)
qed

lemma tx_boot_dev_inv:
  "aml_bus_type pl \<noteq> PCIE_MODE \<Longrightarrow> tables_ok hw \<Longrightarrow> tx_dev_inv pl (set_hw d (tx_boot pl sh hw))"
  using tx_boot_inv tables_ok_keep [of "tx_boot pl sh hw" hw] by (simp add: tx_dev_inv_def)

end

