(* ===== verification/Tx_Props.thy ===== *)
theory Tx_Props
  imports Tx_Machine
begin

text \<open>
  What the transmission path promises, over every sequence of events from the state the
  driver boots with: no fault, every frame and subframe owned once, credits conserved, host
  ids never short of credits; and what one operation promises: a hardware queue is served in
  order until credits or frames run out, the queue chosen for a frame is the queue of its
  station. The last section shows how a frame is
  left behind.
\<close>

section \<open>A device to evaluate on\<close>

text \<open>A USB device with one access point whose only station is station 0.\<close>

definition usb_plat :: plat where
  "usb_plat = \<lparr>aml_bus_type = USB_MODE, bus_suspend_cnt = 0, g_pci_shutdown = False, g_pci_msg_suspend = False,
     hw_state = WIFI_SUSPEND_STATE_NONE, recy_state_ongoing = False\<rparr>"

definition demo_sta :: aml_sta where
  "demo_sta = \<lparr>sta_idx = 0, sta_vif_idx = 0, ps_active = False, pkt_ready = (\<lambda>_. 0), sp_cnt = (\<lambda>_. 0), uapsd_tids = 0,
     tdls_active = False, tdls_chsw_en = False, listen_interval = 5\<rparr>"

definition demo_vif :: aml_vif where
  "demo_vif = \<lparr>iftype = NL80211_IFTYPE_AP, vif_index = 0, vlan_master = 0, bcmc_index = 10, sta_ap = None, tdls_sta = None,
     tdls_link_active = False, roc_tdls = False, ap_sta_list = Some [0], bcn_interval = 100\<rparr>"

definition demo_hw :: tx_hw where
  "demo_hw = \<lparr>txq = (\<lambda>_. zero_txq), hwq = (\<lambda>_. \<lparr>hwq_list = [], hwq_credits = 0, hwq_size = 0, need_processing = False\<rparr>),
     sta_table = (\<lambda>_. demo_sta), vif_table = (\<lambda>_. demo_vif), vifs = [0], hdrs = Map.empty, subframes = Map.empty,
     ipc_env = ipc_env_usb, txdesc_trigger = \<lparr>txdesc_cnt = 0, ths_enable = 0, dynamic_cnt = 0, tx_pcie_ths = 0\<rparr>,
     dma_map_ok = [], tx_desc_save = [], aml_tx_sem = 0, cfm_balance = (\<lambda>_. 0), ndev_stopped = {}, reports = [], jiffies = 0,
     hz = 250, txq_cleanup = None, retry_warned = False\<rparr>"

definition demo_dev :: tx_dev where
  "demo_dev = \<lparr>dev_hw = demo_hw, skb_data = (\<lambda>_. []), skb_headroom = (\<lambda>_. 0), amsdu_maxnb = 6, alloc_ok = [],
     tx_page_free_num = 200, tx_page_tot_num = 200, tot_page_num = 0, tx_page_once = 64, txcfm_trigger_tx_thr = 32,
     amsdu_buf_free = 2, amsdu_buf_used = 0, dynabuf_stop_tx = False, send_tx_stop_to_fw = False, tx_stop_notified = 0,
     frames_sent = [], read_cfm = (\<lambda>_. \<lparr>c_status = 0, c_amsdu_size = 0, c_hostid = 0\<rparr>), cfm_cur = 0, dev_txcfm_idx = 0,
     is_disconnect = (\<lambda>_. False), tx_cfm_wait = (\<lambda>_. None)\<rparr>"

definition demo_skb :: "addr \<Rightarrow> tx_skb" where
  "demo_skb a = \<lparr>x_addr = a, x_vif = 0, x_data = replicate 60 1, x_headroom = 128, x_priority = 0, x_mapping = 0,
     x_recovery = False, x_shared = False, x_expand_ok = True, x_ack_kept = False, x_sp_frame = 0, x_hdr_ok = True,
     x_use_4addr = False, x_resending = False, x_tdls_peer = False\<rparr>"

text \<open>The station is set up, three frames are sent (the second and third are aggregated once
  the firmware allows it), and the tasks run.\<close>

definition demo_events :: "tx_event list" where
  "demo_events = [Vif_init 0 0, Sta_init 0 0, Xmit (demo_skb 1), Tx_task, Xmit (demo_skb 2), Xmit (demo_skb 3), Tx_task,
     Cfm_task (\<lambda>_. \<lparr>c_status = 8, c_amsdu_size = 4000, c_hostid = 0x10001\<rparr>)
       (\<lambda>_. \<lparr>is_deauth = False, is_action = False, filter_ret = 0, filter_len = 0, in_roc = False, copy_ok = True\<rparr>) 0,
     Credit_update 0 0 4, Traffic_req (Some 0) 0 0, Sta_deinit 0, Vif_deinit 0]"

abbreviation demo_boot :: tx_dev where
  "demo_boot \<equiv> set_hw demo_dev (tx_boot usb_plat zero_shared_env demo_hw)"

lemma demo_ok: "aml_bus_type usb_plat \<noteq> PCIE_MODE" "tables_ok demo_hw"
  by (simp_all add: usb_plat_def tables_ok_def sta_ok_def vif_ok_def demo_hw_def demo_sta_def demo_vif_def
      master_vif_idx_def NX_VIRT_DEV_MAX_def)

section \<open>Every run from boot\<close>

lemma boot_run:
  assumes "aml_bus_type pl \<noteq> PCIE_MODE" and "tables_ok hw"
  obtains d' where "run (tx_step pl) es (set_hw d (tx_boot pl sh hw)) = Some d'" "tx_inv pl 0 [] (dev_hw d')"
  using txm.run_defined [OF tx_boot_dev_inv [OF assms, of d sh], of es] by (auto simp: tx_dev_inv_def)

lemma boot_run_inv:
  assumes "aml_bus_type pl \<noteq> PCIE_MODE" and "tables_ok hw" and "run (tx_step pl) es (set_hw d (tx_boot pl sh hw)) = Some d'"
  shows "tx_inv pl 0 [] (dev_hw d')"
  using boot_run [OF assms(1,2), of es d sh] assms(3) by auto





text \<open>Property C5. In every such state a subframe buffer belongs to exactly one frame and is not a
  frame itself, a frame has at most six payloads, and its A-MSDU flag and its payload count
  tell exactly which subframes it has.\<close>

theorem tx_subframes_owned_once:
  assumes "aml_bus_type pl \<noteq> PCIE_MODE" and "tables_ok hw"
    and "run (tx_step pl) es (set_hw d (tx_boot pl sh hw)) = Some d'"
    and "hdrs (dev_hw d') a = Some h"
  shows "(\<forall>s\<in>set (am_hdrs h). subframes (dev_hw d') s \<noteq> None \<and> hdrs (dev_hw d') s = None \<and>
        (\<forall>b k. hdrs (dev_hw d') b = Some k \<and> s \<in> set (am_hdrs k) \<longrightarrow> b = a)) \<and>
    distinct (am_hdrs h) \<and> packet_cnt h = 1 + of_nat (length (am_hdrs h)) \<and> length (am_hdrs h) < NX_TX_PAYLOAD_MAX \<and>
    (tx_flags h AND TXU_CNTRL_AMSDU \<noteq> 0 \<longleftrightarrow> am_hdrs h \<noteq> []) \<and>
    (\<forall>s\<in>dom (subframes (dev_hw d')). \<exists>b k. hdrs (dev_hw d') b = Some k \<and> s \<in> set (am_hdrs k))"
proof -
  have ok: "subs_ok (hdrs (dev_hw d')) (subframes (dev_hw d'))"
    using boot_run_inv [OF assms(1-3)] by (simp add: tx_inv_def subframes_ok_def)
  note D = subs_okD [OF ok assms(4)]
  have "subframes (dev_hw d') s \<noteq> None \<and> hdrs (dev_hw d') s = None \<and>
        (\<forall>b k. hdrs (dev_hw d') b = Some k \<and> s \<in> set (am_hdrs k) \<longrightarrow> b = a)" if "s \<in> set (am_hdrs h)" for s
    using that D(3,4,6) by blast
  moreover have "\<exists>b k. hdrs (dev_hw d') b = Some k \<and> s \<in> set (am_hdrs k)" if s: "s \<in> dom (subframes (dev_hw d'))" for s
  proof -
    obtain b where "s \<in> set (subs_of (hdrs (dev_hw d')) b)"
      using subs_ok_parts(4) [OF ok] s by blast
    then show ?thesis
      by (cases "hdrs (dev_hw d') b") (auto simp: subs_of_def)
  qed
  ultimately show ?thesis
    using D(1,2) by (simp add: hdr_ok_def)
qed

definition demo_mgmt :: mgmt_tx_params where
  "demo_mgmt = \<lparr>m_addr = 2, m_buf = replicate 40 0, m_recovery = False, m_alloc_ok = True, m_sp_ret = 0, m_len_diff = 0,
     m_action = False, m_robust = False, m_no_cck = False\<rparr>"

lemma demo_vif_up:
  "\<exists>d'. tx_step usb_plat (Vif_init 0 0) demo_boot = Some d' \<and> hdrs (dev_hw d') = Map.empty \<and> subframes (dev_hw d') = Map.empty \<and>
     vif_table (dev_hw d') = (\<lambda>_. demo_vif) \<and> jiffies (dev_hw d') = 0 \<and> 
     txq (dev_hw d') NX_FIRST_UNK_TXQ_IDX = zero_txq\<lparr>idx := NX_FIRST_UNK_TXQ_IDX, txq_credits := 4, txq_hwq := 3, txq_tid := 8,
       ndev_idx := NDEV_NO_TXQ\<rparr>"
  unfolding tx_step_def
  by (simp add: set_hw_def on_hw_def init_ready_def aml_txq_vif_init_def aml_txq_vif_idx_def aml_txq_vif_get_def txq_at_def tx_boot_sel
     aml_txq_init_def txq_layout_defs upd_txq_def tx_boot_def aml_txq_prepare_def aml_hwq_init_def demo_hw_def demo_vif_def master_vif_idx_def zero_txq_def
     NX_TXQ_INITIAL_CREDITS_def hwq_id_defs TID_MGT_def LEGACY_PS_ID_def)


lemma demo_mgmt_sent:
  "\<exists>d' h. run (tx_step usb_plat) [Vif_init 0 0, Mgmt_xmit 0 None demo_mgmt False] demo_boot = Some d' \<and> hdrs (dev_hw d') 2 = Some h"
proof -
  obtain d1 where d1: "tx_step usb_plat (Vif_init 0 0) demo_boot = Some d1" "hdrs (dev_hw d1) = Map.empty" "subframes (dev_hw d1) = Map.empty"
     "vif_table (dev_hw d1) = (\<lambda>_. demo_vif)" "jiffies (dev_hw d1) = 0" 
     "txq (dev_hw d1) NX_FIRST_UNK_TXQ_IDX = zero_txq\<lparr>idx := NX_FIRST_UNK_TXQ_IDX, txq_credits := 4, txq_hwq := 3, txq_tid := 8,
       ndev_idx := NDEV_NO_TXQ\<rparr>"
    using demo_vif_up by blast
  have "\<exists>d' h. tx_step usb_plat (Mgmt_xmit 0 None demo_mgmt False) d1 = Some d' \<and> hdrs (dev_hw d') 2 = Some h"
    using d1(2-) 
    by (simp add: tx_step_def fresh_def demo_mgmt_def aml_start_mgmt_xmit_def usb_plat_def aml_txq_vif_get_def aml_txq_vif_idx_def
       master_vif_idx_def demo_vif_def txq_at_def aml_prep_dma_tx_def txq_layout_defs Let_def aml_txq_queue_skb_def insert_skb_def
       ps_frame_queued_def new_sw_txhdr_def
       zero_txq_def aml_txq_start_cleanup_timer_def aml_netif_txq_flow_control_def aml_txq_add_to_hw_list_def)
  with d1(1) show ?thesis
    by auto
qed

theorem tx_subframes_owned_once_witness:
  "case run (tx_step usb_plat) [Vif_init 0 0, Mgmt_xmit 0 None demo_mgmt False] demo_boot of
     None \<Rightarrow> False
   | Some d' \<Rightarrow> (case hdrs (dev_hw d') 2 of None \<Rightarrow> False
     | Some h \<Rightarrow> distinct (am_hdrs h) \<and> packet_cnt h = 1 + of_nat (length (am_hdrs h)))"
proof -
  obtain d' h where run: "run (tx_step usb_plat) [Vif_init 0 0, Mgmt_xmit 0 None demo_mgmt False] demo_boot = Some d'"
      and h: "hdrs (dev_hw d') 2 = Some h"
    using demo_mgmt_sent by blast
  from tx_subframes_owned_once [OF demo_ok run h] show ?thesis
    unfolding run by (simp add: h)
qed




text \<open>Property C15. In every such state a frame that a queue hands over gets a host id: the ids outnumber
  the credits of all hardware queues together, so the push never loses a frame for want of one.\<close>

theorem host_id_for_every_credit:
  assumes "aml_bus_type pl \<noteq> PCIE_MODE" and "tables_ok hw"
    and "run (tx_step pl) es (set_hw d (tx_boot pl sh hw)) = Some d'"
  shows "snd (ipc_host_tx_host_ptr_to_id (ipc_env (dev_hw d')) a) \<noteq> 0"
proof -
  have inv: "tx_inv pl 0 [] (dev_hw d')"
    using boot_run_inv [OF assms] .
  then have "hostid_inv pl (ipc_env (dev_hw d'))"
    by (simp add: tx_inv_def)
  then show ?thesis
    using hostid_available [OF inv] by (rule fw_frames_push(2))
qed

theorem host_id_for_every_credit_witness:
  "case run (tx_step usb_plat) demo_events demo_boot of
     None \<Rightarrow> False
   | Some d' \<Rightarrow> snd (ipc_host_tx_host_ptr_to_id (ipc_env (dev_hw d')) 9) \<noteq> 0"
proof -
  obtain d' where run: "run (tx_step usb_plat) demo_events demo_boot = Some d'"
    using boot_run [OF demo_ok] .
  with host_id_for_every_credit [OF demo_ok run, of 9] show ?thesis
    by simp
qed

section \<open>The queue of a data frame\<close>

text \<open>The network queues of a station as \<open>aml_txq_sta_init\<close> numbers them.\<close>

definition ndevs_ok :: "tx_hw \<Rightarrow> nat \<Rightarrow> nat \<Rightarrow> bool" where
  "ndevs_ok hw v p \<longleftrightarrow> sta_idx (sta_table hw p) = p \<and>
     (if p < NX_REMOTE_STA_MAX
      then (\<forall>t<NX_NB_TXQ_PER_STA. ndev_idx (txq hw (p * NX_NB_TXQ_PER_STA + t)) =
              (if t < NX_NB_TID_PER_STA then NX_STA_NDEV_IDX t p else NDEV_NO_TXQ))
      else NX_REMOTE_STA_MAX + master_vif_idx (vif_table hw v) (vif_index (vif_table hw (vlan_master (vif_table hw v)))) = p \<and>
           ndev_idx (txq hw (NX_FIRST_VIF_TXQ_IDX + sta_vif_idx (sta_table hw p))) = NX_BCMC_TXQ_NDEV_IDX)"

lemma downgrade_lt: "priority < 8 \<Longrightarrow> ac \<le> 3 \<Longrightarrow> downgrade_loop m ac priority < 8"
proof (induction ac arbitrary: priority)
  case (Suc ac)
  have "aml_down_hwq2tid ! ac < 8"
    using Suc.prems(2) by (auto simp: aml_down_hwq2tid_def less_Suc_eq numeral_eq_Suc nth_Cons')
  with Suc show ?case
    by simp
qed simp

lemma downgrade_ac_lt: "aml_downgrade_ac m priority = Some t \<Longrightarrow> priority < 8 \<Longrightarrow> t < 8"
  by (auto simp: aml_downgrade_ac_def hwq_id_defs intro!: downgrade_lt split: if_splits)

lemma select_queue:
  assumes "ndevs_ok hw v p" and "aml_txq_sta_get hw (Some p) t = Some i" and "ndev_idx (txq hw i) < NX_NB_NDEV_TXQ" and "t \<noteq> PRIO_STA_NULL"
  shows "aml_get_tx_info hw v t (ndev_idx (txq hw i)) = Some p"
proof (cases "p < NX_REMOTE_STA_MAX")
  case True
  define u where "u = (if NX_NB_TXQ_PER_STA \<le> t then 0 else t)"
  have u: "u < NX_NB_TXQ_PER_STA"
    by (simp add: u_def txq_layout_defs)
  have "i = p * NX_NB_TXQ_PER_STA + u"
    using assms(1,2) True by (auto simp: aml_txq_sta_get_def aml_txq_sta_idx_def txq_at_def ndevs_ok_def is_multicast_sta_def u_def split: if_splits)
  with assms(1) True u have n: "ndev_idx (txq hw i) = (if u < NX_NB_TID_PER_STA then NX_STA_NDEV_IDX u p else NDEV_NO_TXQ)"
    by (simp add: ndevs_ok_def)
  with assms(3) have u8: "u < NX_NB_TID_PER_STA"
    by (auto simp: txq_layout_defs NX_NB_NDEV_TXQ_def split: if_splits)
  have "NX_STA_NDEV_IDX u p \<noteq> NX_BCMC_TXQ_NDEV_IDX" "NX_STA_NDEV_IDX u p div NX_NB_TID_PER_STA = p"
    using True u8 by (auto simp: txq_layout_defs)
  with n u8 assms(4) show ?thesis
    by (simp add: aml_get_tx_info_def)
next
  case False
  then have "i = NX_FIRST_VIF_TXQ_IDX + sta_vif_idx (sta_table hw p)"
    using assms(1,2) by (auto simp: aml_txq_sta_get_def aml_txq_sta_idx_def txq_at_def ndevs_ok_def is_multicast_sta_def split: if_splits)
  with False assms(1) have "ndev_idx (txq hw i) = NX_BCMC_TXQ_NDEV_IDX"
      "NX_REMOTE_STA_MAX + master_vif_idx (vif_table hw v) (vif_index (vif_table hw (vlan_master (vif_table hw v)))) = p"
    by (simp_all add: ndevs_ok_def)
  with assms(4) show ?thesis
    by (simp add: aml_get_tx_info_def)
qed

text \<open>Property C13. The priority and the network queue that the choice of a queue stores in a frame lead
  the transmission back to the very station it chose (or to none, which drops the frame), and
  to the TX queue whose network queue it named.\<close>

theorem select_txq_finds_station:
  assumes "aml_select_txq hw pe v data pr = Some (prio, mapping)" and "select_sta hw pe v data = Some s" and "pr < 8"
    and "\<forall>p. s = Some p \<longrightarrow> ndevs_ok hw v p"
  shows "aml_get_tx_info hw v prio mapping = s \<and>
    (\<forall>p. s = Some p \<longrightarrow> map_option (\<lambda>i. ndev_idx (txq hw i)) (aml_txq_sta_get hw s prio) = Some mapping)"
proof (cases s)
  case None
  with assms(1,2) show ?thesis
    by (auto simp: aml_select_txq_def aml_get_tx_info_def split: if_splits)
next
  case (Some p)
  have ok: "ndevs_ok hw v p"
    using Some assms(4) by simp
  have prio: "prio \<noteq> PRIO_STA_NULL \<and> (\<exists>i. aml_txq_sta_get hw (Some p) prio = Some i \<and> ndev_idx (txq hw i) = mapping) \<and> mapping < NX_NB_NDEV_TXQ"
  proof (cases "qos pe p")
    case True
    define t0 where "t0 = (if ((iftype (vif_table hw v) = NL80211_IFTYPE_STATION \<or> iftype (vif_table hw v) = NL80211_IFTYPE_P2P_CLIENT)
      \<and> h_proto data = ETH_P_TDLS) then pr else class8021d pe mod 8)"
    have t0: "t0 < 8"
      using assms(3) by (simp add: t0_def)
    obtain t1 where t1: "(if acm pe p \<noteq> 0 then aml_downgrade_ac (acm pe p) t0 else Some t0) = Some t1"
        and t: "prio = (if h_proto data = ETH_P_PAE then 7 else t1)"
        and i: "\<exists>i. aml_txq_sta_get hw (Some p) prio = Some i \<and> ndev_idx (txq hw i) = mapping" "mapping < NX_NB_NDEV_TXQ"
      using assms(1,2) Some True unfolding aml_select_txq_def Let_def t0_def
      by (auto split: if_splits simp: bind_eq_Some_conv)
    have "t1 < 8"
      using t1 t0 by (auto dest: downgrade_ac_lt split: if_splits)
    with t i show ?thesis
      by (auto simp: PRIO_STA_NULL_def)
  next
    case False
    have same: "aml_txq_sta_get hw (Some p) 0xFF = aml_txq_sta_get hw (Some p) 0"
      by (simp add: aml_txq_sta_get_def txq_layout_defs)
    show ?thesis
      using assms(1,2) Some False unfolding aml_select_txq_def
      by (auto split: if_splits simp: bind_eq_Some_conv PRIO_STA_NULL_def same)
  qed
  then show ?thesis
    using select_queue [OF ok] Some by auto
qed


definition select_hw :: tx_hw where
  "select_hw = demo_hw\<lparr>txq := (\<lambda>i. zero_txq\<lparr>ndev_idx := (if i < 8 then i else NDEV_NO_TXQ)\<rparr>)\<rparr>"

definition demo_peers :: tx_peers where
  "demo_peers = \<lparr>mac_addr = (\<lambda>_. [2,0,0,0,0,5]), qos = (\<lambda>_. True), acm = (\<lambda>_. 8), sta_4a = (\<lambda>_. None), mesh_nhop = None, class8021d = 6\<rparr>"

abbreviation demo_frame :: "u8 list" where
  "demo_frame \<equiv> [2,0,0,0,0,5, 2,0,0,0,0,1, 8,0, 69]"

theorem select_txq_finds_station_witness:
  "aml_select_txq select_hw demo_peers 0 demo_frame 0 = Some (5, 5) \<and> aml_get_tx_info select_hw 0 5 5 = Some 0"
proof -
  have sel: "select_sta select_hw demo_peers 0 demo_frame = Some (Some 0)"
    by (simp add: select_sta_def select_hw_def demo_hw_def demo_vif_def select_ap_sta_def is_multicast_ether_addr_def demo_peers_def)
  have ok: "ndevs_ok select_hw 0 0"
    by (simp add: ndevs_ok_def select_hw_def demo_hw_def demo_sta_def txq_layout_defs)
  have "downgrade_loop 8 (Suc (Suc (Suc 0))) 6 = 5"
    by (simp add: aml_down_hwq2tid_def)
  then have down: "aml_downgrade_ac 8 6 = Some 5"
    by (simp add: aml_downgrade_ac_def aml_tid2hwq_def hwq_id_defs numeral_3_eq_3)
  have proto: "h_proto demo_frame = 0x800"
    by (simp add: h_proto_def)
  have get: "aml_txq_sta_get select_hw (Some 0) 5 = Some 5"
    by (simp add: aml_txq_sta_get_def aml_txq_sta_idx_def txq_at_def is_multicast_sta_def txq_layout_defs select_hw_def demo_hw_def demo_sta_def)
  have peers: "qos demo_peers 0" "acm demo_peers 0 = 8" "class8021d demo_peers = 6"
    by (simp_all add: demo_peers_def)
  have nd: "ndev_idx (txq select_hw 5) = 5"
    by (simp add: select_hw_def)
  have "iftype (vif_table select_hw 0) = NL80211_IFTYPE_AP"
    by (simp add: select_hw_def demo_hw_def demo_vif_def)
  then have txq: "aml_select_txq select_hw demo_peers 0 demo_frame 0 = Some (5, 5)"
    unfolding aml_select_txq_def sel proto
    by (simp add: peers down get nd ETH_P_PAE_def txq_layout_defs NX_NB_NDEV_TXQ_def)
  with select_txq_finds_station [OF txq sel] ok show ?thesis
    by simp
qed

section \<open>Frames left behind\<close>

text \<open>The loop of a credit update that drops the retries of a queue compares a growing
  counter with the shrinking count: of \<open>n\<close> retries it drops the first \<open>(n + 1) div 2\<close>.\<close>

theorem credit_update_drops_half:
  assumes "aml_bus_type pl \<noteq> PCIE_MODE" and "tables_ok hw0"
    and "run (tx_step pl) es (set_hw d (tx_boot pl sh hw0)) = Some d'" and "i < NX_NB_TXQ" and "hw = dev_hw d'"
    and "k = nat (nb_retry (txq hw i) + 1) div 2"
  shows "\<exists>hw'. drop_retries (Suc (nat (nb_retry (txq hw i)))) 0 i hw = Some hw' \<and>
    sk_list (txq hw' i) = drop k (sk_list (txq hw i)) \<and> nb_retry (txq hw' i) = nb_retry (txq hw i) - int k"
proof -
  have inv: "tx_inv pl 0 [] hw"
    using boot_run_inv [OF assms(1-3)] assms(5) by simp
  then have "0 \<le> nb_retry (txq hw i)"
    using assms(4) by (simp add: tx_inv_def txq_ok_def retry_ok_def)
  then have "k = nat ((max 0 (nb_retry (txq hw i) - 0) + 1) div 2)"
    by (simp add: assms(6) nat_div_distrib)
  then show ?thesis
    using drop_retries_ok [OF inv assms(4), of 0 "Suc (nat (nb_retry (txq hw i)))" k] by (auto simp: dropped_fields(2))
qed

theorem credit_update_drops_half_witness:
  "case run (tx_step usb_plat) demo_events demo_boot of
     None \<Rightarrow> False
   | Some d' \<Rightarrow> drop_retries (Suc (nat (nb_retry (txq (dev_hw d') 0)))) 0 0 (dev_hw d') \<noteq> None"
proof -
  obtain d' where run: "run (tx_step usb_plat) demo_events demo_boot = Some d'"
    using boot_run [OF demo_ok] .
  with credit_update_drops_half [OF demo_ok run, of 0 "dev_hw d'"] show ?thesis
    by (auto simp: NX_NB_TXQ_def)
qed

lemma flow_status_bits:
  "n < 16 \<Longrightarrow> n \<noteq> 7 \<Longrightarrow> bit (status (txq (aml_netif_txq_flow_control i hw) j)) n = bit (status (txq hw j)) n"
  by (simp add: aml_netif_txq_flow_control_def Let_def upd_txq_def bit_simps)

lemma flow_scheduled [simp]:
  "aml_txq_is_scheduled (txq (aml_netif_txq_flow_control i hw) j) = aml_txq_is_scheduled (txq hw j)"
  "aml_txq_is_stopped (txq (aml_netif_txq_flow_control i hw) j) = aml_txq_is_stopped (txq hw j)"
  by (simp_all add: aml_txq_is_scheduled_def aml_txq_is_stopped_def AML_TXQ_STOP_def flow_status_bits)

lemma ps_queued_awake: "\<forall>p. txq_sta (txq hw i) = Some p \<longrightarrow> \<not> ps_active (sta_table hw p) \<Longrightarrow> ps_frame_queued i hw = hw"
  by (simp add: ps_frame_queued_def split: option.split)

text \<open>A frame for a queue that is linked and awake: the queue is not linked again, so nobody
  asks for the hardware queue to be served.\<close>

lemma queue_linked:
  assumes "aml_bus_type pl \<noteq> PCIE_MODE" and "\<forall>p. txq_sta (txq hw i) = Some p \<longrightarrow> \<not> ps_active (sta_table hw p)"
    and "aml_txq_is_scheduled (txq hw i)" "\<not> aml_txq_is_stopped (txq hw i)"
  shows "\<exists>hw'. aml_txq_queue_skb pl i a False None hw = Some hw' \<and> hwq hw' = hwq hw \<and> tx_desc_save hw' = tx_desc_save hw \<and>
    sk_list (txq hw' i) = sk_list (txq hw i) @ [a] \<and> txq_credits (txq hw' i) = txq_credits (txq hw i)"
proof -
  define hw1 where "hw1 = aml_netif_txq_flow_control i (aml_txq_start_cleanup_timer (txq_sta (txq hw i))
    (upd_txq i (\<lambda>t. t\<lparr>sk_list := sk_list t @ [a]\<rparr>) hw))"
  have ins: "aml_txq_queue_skb pl i a False None hw = aml_txq_add_to_hw_list pl i hw1"
    using ps_queued_awake [OF assms(2)] by (simp add: aml_txq_queue_skb_def insert_skb_def hw1_def Let_def upd_txq_def)
  have t: "aml_txq_is_scheduled (txq hw1 i)" "\<not> aml_txq_is_stopped (txq hw1 i)"
    using assms(3,4) by (simp_all add: hw1_def aml_txq_is_scheduled_def aml_txq_is_stopped_def AML_TXQ_STOP_def flow_status_bits upd_txq_def)
  then have "aml_txq_add_to_hw_list pl i hw1 = Some (hw1\<lparr>aml_tx_sem := aml_tx_sem hw1 + 1\<rparr>)"
    using assms(1) by (simp add: aml_txq_add_to_hw_list_def Let_def)
  with ins show ?thesis
    by (simp add: hw1_def upd_txq_def aml_txq_start_cleanup_timer_def split: option.split)
qed

lemma process_down_idle: "\<forall>p\<in>set qs. \<not> need_processing (hwq hw p) \<Longrightarrow> process_down pl qs hw = Some hw"
  by (induction qs) auto

lemma process_down_one:
  assumes "\<forall>p\<in>set qs. p \<noteq> q \<longrightarrow> \<not> need_processing (hwq hw p)" and "aml_hwq_process pl q hw = Some hw'"
    and "\<forall>p. need_processing (hwq hw' p) = (p \<noteq> q \<and> need_processing (hwq hw p))" and "need_processing (hwq hw q)"
  shows "q \<in> set qs \<Longrightarrow> process_down pl qs hw = Some hw'"
  using assms
proof (induction qs)
  case (Cons p qs)
  then show ?case
    by (cases "p = q") (auto intro!: process_down_idle)
qed simp

text \<open>Serving a hardware queue whose only linked queue is empty does nothing but forget that it
  was to be served.\<close>

lemma process_empty:
  assumes "hwq_list (hwq hw q) = [i]" and "sk_list (txq hw i) = []"
  shows "aml_hwq_process pl q hw = Some (upd_hwq q (\<lambda>h. h\<lparr>need_processing := False\<rparr>) hw)"
  using assms by (simp add: aml_hwq_process_def hwq_visit_def aml_txq_skb_ready_def Let_def numeral_3_eq_3)

text \<open>Property C14. A queue whose last frame, a retry, is dropped by a credit update stays linked. After the
  next pass over the hardware queues a new frame in it finds the queue linked and does not ask
  for another pass: the TX task runs and leaves the frame waiting, with credits to spare.\<close>

theorem dropped_retry_strands_next_frame:
  assumes bus: "aml_bus_type pl \<noteq> PCIE_MODE" and q: "q < NX_TXQ_CNT"
    and queue: "sk_list (txq hw0 i) = [r]" "nb_retry (txq hw0 i) = 1" "last_retry_skb (txq hw0 i) = Some r"
      "aml_txq_is_scheduled (txq hw0 i)" "\<not> aml_txq_is_stopped (txq hw0 i)"
      "\<forall>p. txq_sta (txq hw0 i) = Some p \<longrightarrow> \<not> ps_active (sta_table hw0 p)"
    and frame: "hdrs hw0 r = Some h" "packet_cnt h = 1" "tx_flags h AND TXU_CNTRL_MGMT = 0"
    and hwqs: "hwq_list (hwq hw0 q) = [i]" "\<forall>p<NX_TXQ_CNT. need_processing (hwq hw0 p) = (p = q)"
  shows "\<exists>hw'. do { hw \<leftarrow> aml_txq_drop_skb i r True hw0; hw \<leftarrow> aml_hwq_process_all pl hw;
      hw \<leftarrow> aml_txq_queue_skb pl i a False None hw; aml_hwq_process_all pl hw } = Some hw' \<and>
    sk_list (txq hw' i) = [a] \<and> tx_desc_save hw' = tx_desc_save hw0 \<and>
    hwq_credits (hwq hw' q) = hwq_credits (hwq hw0 q) \<and> txq_credits (txq hw' i) = txq_credits (txq hw0 i)"
proof -
  define hw1 where "hw1 = (upd_txq i (\<lambda>t. t\<lparr>sk_list := [], nb_retry := 0, last_retry_skb := None\<rparr>) hw0)\<lparr>hdrs := (hdrs hw0)(r := None)\<rparr>"
  define hw2 where "hw2 = upd_hwq q (\<lambda>h. h\<lparr>need_processing := False\<rparr>) hw1"
  have one: "aml_txq_drop_skb i r True hw0 = Some hw1"
    using queue frame by (auto simp: aml_txq_drop_skb_def retry_taken_def Let_def upd_txq_def hw1_def intro!: tx_hw.equality)
  have "aml_hwq_process pl q hw1 = Some hw2"
    unfolding hw2_def using hwqs(1) by (intro process_empty) (auto simp: hw1_def upd_txq_def)
  then have two: "aml_hwq_process_all pl hw1 = Some hw2"
    unfolding aml_hwq_process_all_def using q hwqs(2)
    by (intro process_down_one [where q = q]) (simp_all add: hw2_def hw1_def upd_txq_def upd_hwq_def)
  obtain hw3 where three: "aml_txq_queue_skb pl i a False None hw2 = Some hw3" "hwq hw3 = hwq hw2" "tx_desc_save hw3 = tx_desc_save hw2"
      "sk_list (txq hw3 i) = [a]" "txq_credits (txq hw3 i) = txq_credits (txq hw2 i)"
    using queue_linked [OF bus, of hw2 i a] queue
    by (auto simp: hw2_def hw1_def upd_txq_def upd_hwq_def aml_txq_is_scheduled_def aml_txq_is_stopped_def)
  have four: "aml_hwq_process_all pl hw3 = Some hw3"
    unfolding aml_hwq_process_all_def using hwqs(2) three(2)
    by (intro process_down_idle) (auto simp: hw2_def hw1_def upd_txq_def upd_hwq_def)
  have "do { hw \<leftarrow> aml_txq_drop_skb i r True hw0; hw \<leftarrow> aml_hwq_process_all pl hw;
      hw \<leftarrow> aml_txq_queue_skb pl i a False None hw; aml_hwq_process_all pl hw } = Some hw3"
    by (simp add: one two three(1) four)
  with three show ?thesis
    by (auto simp: hw2_def hw1_def upd_txq_def upd_hwq_def)
qed

definition retry_hw :: tx_hw where
  "retry_hw = demo_hw\<lparr>txq := (\<lambda>_. zero_txq\<lparr>status := AML_TXQ_IN_HWQ_LIST, txq_credits := 4, sk_list := [7], nb_retry := 1,
       last_retry_skb := Some 7, txq_hwq := 1, txq_sta := Some 0\<rparr>),
     hwq := (\<lambda>q. \<lparr>hwq_list = (if q = 1 then [0] else []), hwq_credits = 124, hwq_size = 124, need_processing = (q = 1)\<rparr>),
     hdrs := [7 \<mapsto> new_sw_txhdr (Some 0) 0 0 100 0 0]\<rparr>"

theorem dropped_retry_strands_next_frame_witness:
  "map_option (\<lambda>hw. (sk_list (txq hw 0), tx_desc_save hw, hwq_credits (hwq hw 1), txq_credits (txq hw 0)))
     (do { hw \<leftarrow> aml_txq_drop_skb 0 7 True retry_hw; hw \<leftarrow> aml_hwq_process_all usb_plat hw;
       hw \<leftarrow> aml_txq_queue_skb usb_plat 0 8 False None hw; aml_hwq_process_all usb_plat hw }) = Some ([8], [], 124, 4)"
proof -
  have set_bit: "AML_TXQ_IN_HWQ_LIST \<noteq> 0"
    by (simp add: BIT_exp)
  have "\<exists>hw'. do { hw \<leftarrow> aml_txq_drop_skb 0 7 True retry_hw; hw \<leftarrow> aml_hwq_process_all usb_plat hw;
      hw \<leftarrow> aml_txq_queue_skb usb_plat 0 8 False None hw; aml_hwq_process_all usb_plat hw } = Some hw' \<and>
    sk_list (txq hw' 0) = [8] \<and> tx_desc_save hw' = tx_desc_save retry_hw \<and>
    hwq_credits (hwq hw' 1) = hwq_credits (hwq retry_hw 1) \<and> txq_credits (txq hw' 0) = txq_credits (txq retry_hw 0)"
    by (rule dropped_retry_strands_next_frame [where h = "new_sw_txhdr (Some 0) 0 0 100 0 0"])
      (simp_all add: set_bit usb_plat_def retry_hw_def demo_hw_def zero_txq_def demo_sta_def new_sw_txhdr_def NX_TXQ_CNT_def
        aml_txq_is_scheduled_def aml_txq_is_stopped_def AML_TXQ_STOP_def)
  then obtain hw' where "do { hw \<leftarrow> aml_txq_drop_skb 0 7 True retry_hw; hw \<leftarrow> aml_hwq_process_all usb_plat hw;
      hw \<leftarrow> aml_txq_queue_skb usb_plat 0 8 False None hw; aml_hwq_process_all usb_plat hw } = Some hw'"
      "sk_list (txq hw' 0) = [8]" "tx_desc_save hw' = []" "hwq_credits (hwq hw' 1) = 124" "txq_credits (txq hw' 0) = 4"
    by (auto simp: retry_hw_def demo_hw_def zero_txq_def)
  then show ?thesis
    by (simp only: option.map prod.inject)
qed

end
