(* ===== verification/Rx_Msdu.thy ===== *)
theory Rx_Msdu
  imports Tx_Path
begin

text \<open>
  What SDIO and USB do with a received MPDU before and after the reorder buffer
  (aml_drv/aml_sdio_usb_rx.c): A-MSDUs are taken apart, 802.11 fragments are put together,
  and MSDUs are handed to the stack or sent back to another station of the BSS.

  An MPDU lies in the receive buffer in one piece, or in two when it wraps; the pieces are
  \<open>struct aml_frag\<close>, a pointer (the bytes from there to the end of the buffer) and a length.
  A \<open>memcpy\<close> outside of the buffer is a fault. Outcomes of allocations are a list.
\<close>

section \<open>Pieces of an MPDU\<close>

record aml_frag =
  frag_data :: "u8 list option"
  frag_len :: int

definition mem_read :: "u8 list option \<Rightarrow> int \<Rightarrow> int \<Rightarrow> u8 list option" where
  "mem_read m off n =
     (if n = 0 then Some []
      else do { m \<leftarrow> m; if 0 \<le> off \<and> 0 < n \<and> off + n \<le> int (length m) then Some (take (nat n) (drop (nat off) m)) else None })"

text \<open>\<open>aml_frags_copy\<close>: the new contents of the destination, which the error branch leaves alone.\<close>

definition aml_frags_copy :: "aml_frag \<Rightarrow> aml_frag \<Rightarrow> int \<Rightarrow> u8 list \<Rightarrow> int \<Rightarrow> u8 list option" where
  "aml_frags_copy f0 f1 offset dest len =
     (let stop = offset + len in
      if stop \<le> frag_len f0 then mem_read (frag_data f0) offset len
      else if frag_data f1 = None \<or> frag_len f0 + frag_len f1 < stop then Some dest
      else
        let frag0 = frag_len f0 - offset in
        if 0 < frag0 then do {
          a \<leftarrow> mem_read (frag_data f0) offset frag0;
          b \<leftarrow> mem_read (frag_data f1) 0 (len - frag0);
          Some (a @ b)
        } else mem_read (frag_data f1) (offset - frag_len f0) len)"

section \<open>Taking an A-MSDU apart\<close>

definition ETH_P_AARP :: nat where "ETH_P_AARP = 0x80F3"
definition ETH_P_IPX :: nat where "ETH_P_IPX = 0x8137"
definition bridge_tunnel_header :: "u8 list" where "bridge_tunnel_header = [0xaa, 0xaa, 0x03, 0x00, 0x00, 0xf8]"

text \<open>The frame for the stack: a known LLC/SNAP header in front of the payload is replaced by
  the Ethernet type it carries.\<close>

definition snap_type :: "u8 list \<Rightarrow> nat" where
  "snap_type body = unat (body ! 6) * 256 + unat (body ! 7)"

definition has_snap :: "u8 list \<Rightarrow> bool" where
  "has_snap body \<longleftrightarrow> 8 \<le> length body \<and>
     (take 6 body = rfc1042_header \<and> snap_type body \<noteq> ETH_P_AARP \<and> snap_type body \<noteq> ETH_P_IPX \<or>
      take 6 body = bridge_tunnel_header)"

definition msdu_frame :: "u8 list \<Rightarrow> u8 list \<Rightarrow> u8 list" where
  "msdu_frame eth body =
     (if has_snap body then take 12 eth @ htons (snap_type body) @ drop 8 body else eth @ body)"

definition next_alloc :: "bool list \<Rightarrow> bool \<times> bool list" where
  "next_alloc al = (case al of [] \<Rightarrow> (True, []) | b # bs \<Rightarrow> (b, bs))"

text \<open>The address checks; a null address is not checked.\<close>

definition skip_subframe :: "u8 list option \<Rightarrow> u8 list option \<Rightarrow> u8 list \<Rightarrow> bool" where
  "skip_subframe da sa eth \<longleftrightarrow>
     (case da of None \<Rightarrow> False | Some a \<Rightarrow> \<not> is_multicast_ether_addr eth \<and> a \<noteq> take 6 eth) \<or>
     (case sa of None \<Rightarrow> False | Some a \<Rightarrow> a \<noteq> take 6 (drop 6 eth))"

text \<open>The loop of \<open>aml_amsdu_to_msdu\<close> from an offset, with the MSDUs found so far; \<open>junk\<close> is
  what the stack variable \<open>eth\<close> holds before it is written. A malformed subframe drops
  all of them.\<close>

function amsdu_loop :: "aml_frag \<Rightarrow> aml_frag \<Rightarrow> u8 list option \<Rightarrow> u8 list option \<Rightarrow> u8 list \<Rightarrow> int \<Rightarrow> bool list \<Rightarrow>
    u8 list list \<Rightarrow> (u8 list list \<times> bool list) option" where
  "amsdu_loop f0 f1 da sa junk offset al msdus =
     (if frag_len f0 + frag_len f1 \<le> offset then Some (msdus, al)
      else do {
        eth \<leftarrow> aml_frags_copy f0 f1 offset junk (int ETH_HLEN);
        let body_off = offset + int ETH_HLEN;
        let len = h_proto eth;
        let next = body_off + int len + int (AMSDU_PADDING (ETH_HLEN + len));
        if ETH_P_802_3_MIN \<le> len then Some ([], al)
        else if frag_len f0 + frag_len f1 < body_off + int len then Some ([], al)
        else if take 6 eth = rfc1042_header then Some ([], al)
        else if skip_subframe da sa eth then amsdu_loop f0 f1 da sa junk next al msdus
        else if \<not> fst (next_alloc al) then Some ([], snd (next_alloc al))
        else do {
          body \<leftarrow> aml_frags_copy f0 f1 body_off (replicate len 0) (int len);
          amsdu_loop f0 f1 da sa junk next (snd (next_alloc al)) (msdus @ [msdu_frame eth body])
        }
      })"
  by pat_completeness auto
termination
  by (relation "measure (\<lambda>(f0, f1, da, sa, junk, offset, al, msdus). nat (frag_len f0 + frag_len f1 - offset))")
    (auto simp: ETH_HLEN_def)

declare amsdu_loop.simps [simp del]

definition aml_amsdu_to_msdu :: "aml_frag \<Rightarrow> aml_frag \<Rightarrow> u8 list option \<Rightarrow> u8 list option \<Rightarrow> u8 list \<Rightarrow> bool list \<Rightarrow>
    (u8 list list \<times> bool list) option" where
  "aml_amsdu_to_msdu f0 f1 da sa junk al = amsdu_loop f0 f1 da sa junk 0 al []"

section \<open>Putting fragments together\<close>

definition DEFRAG_MAX_WAIT :: nat where "DEFRAG_MAX_WAIT = 100000"
definition DEFRAG_MAX_PAYLOAD_SIZE :: nat where "DEFRAG_MAX_PAYLOAD_SIZE = 1600"

text \<open>\<open>struct aml_rhd_ext\<close>, and the buffer of a fragmented MPDU with the control block
  \<open>struct aml_skb_rxcb_frag\<close> (the fragment counter has four bits). The control block means
  nothing while the buffer is empty.\<close>

record aml_rhd_ext =
  ext_sn :: nat
  ext_fn :: nat
  morefrag :: bool
  ext_qos :: bool
  ext_pn :: "u64 option"

record frag_skb =
  fs_data :: "u8 list"
  fs_sn :: nat
  fs_fn :: nat
  fs_deadline :: u64

text \<open>\<open>aml_frag_skb_append\<close>: the flag is the return value 0. The sum of the lengths is
  computed without a sign; a buffer that is extended by a negative length is a fault.\<close>

definition aml_frag_skb_append :: "frag_skb \<Rightarrow> aml_frag \<Rightarrow> aml_frag \<Rightarrow> (bool \<times> frag_skb) option" where
  "aml_frag_skb_append s f0 f1 =
     (let offset = (if fs_data s = [] then 0 else int ETH_HLEN);
          len = frag_len f0 + frag_len f1 - offset
      in if of_nat DEFRAG_MAX_PAYLOAD_SIZE < (of_nat (length (fs_data s)) + of_int len :: u32) then Some (False, s)
         else if len < 0 then None
         else do {
           d \<leftarrow> aml_frags_copy f0 f1 offset (replicate (nat len) 0) len;
           Some (True, s\<lparr>fs_data := fs_data s @ d\<rparr>)
         })"

text \<open>\<open>aml_defrag_handle\<close> with the buffer of its class; the first component is a completed
  MPDU. \<open>wait\<close> is \<open>DEFRAG_MAX_WAIT\<close> in jiffies.\<close>

definition aml_defrag_handle :: "u64 \<Rightarrow> u64 \<Rightarrow> bool \<Rightarrow> frag_skb option \<Rightarrow> aml_rhd_ext \<Rightarrow> aml_frag \<Rightarrow> aml_frag \<Rightarrow>
    (u8 list option \<times> frag_skb option) option" where
  "aml_defrag_handle now wait got pfrag ext f0 f1 =
     (let live = (case pfrag of None \<Rightarrow> False | Some s \<Rightarrow> fs_data s \<noteq> []);
          stale = (case pfrag of None \<Rightarrow> False
                   | Some s \<Rightarrow> live \<and> (fs_sn s \<noteq> ext_sn ext \<or> time_after now (fs_deadline s)));
          pfrag = (if stale then map_option (\<lambda>s. s\<lparr>fs_data := []\<rparr>) pfrag else pfrag);
          live = (live \<and> \<not> stale);
          start = (if ext_fn ext = 0 then
                     (case pfrag of
                        None \<Rightarrow> if got then Some \<lparr>fs_data = [], fs_sn = ext_sn ext, fs_fn = 0, fs_deadline = now + wait\<rparr> else None
                      | Some s \<Rightarrow> Some (s\<lparr>fs_sn := ext_sn ext, fs_fn := 0, fs_deadline := now + wait\<rparr>))
                   else (case pfrag of None \<Rightarrow> None | Some s \<Rightarrow> if live \<and> fs_fn s = ext_fn ext then Some s else None))
      in case start of
        None \<Rightarrow> Some (None, pfrag)
      | Some s \<Rightarrow> do {
          (ok, s) \<leftarrow> aml_frag_skb_append s f0 f1;
          if \<not> ok then Some (None, Some (s\<lparr>fs_data := []\<rparr>))
          else if morefrag ext then Some (None, Some (s\<lparr>fs_fn := (fs_fn s + 1) mod 16\<rparr>))
          else Some (Some (fs_data s), None)
        })"


section \<open>Pieces do not matter\<close>

text \<open>Two pieces show the bytes \<open>bs\<close>: a copy inside of them gets the bytes, and a copy that
  starts inside of them does not fault.\<close>

definition shows_bytes :: "aml_frag \<Rightarrow> aml_frag \<Rightarrow> u8 list \<Rightarrow> bool" where
  "shows_bytes f0 f1 bs \<longleftrightarrow> frag_len f0 + frag_len f1 = int (length bs) \<and>
     (\<forall>off n dest. off + n \<le> length bs \<longrightarrow> aml_frags_copy f0 f1 (int off) dest (int n) = Some (take n (drop off bs))) \<and>
     (\<forall>off n dest. off \<le> length bs \<longrightarrow> n \<le> ETH_HLEN \<longrightarrow> aml_frags_copy f0 f1 (int off) dest (int n) \<noteq> None)"

text \<open>One piece, with at least fourteen bytes of the buffer behind it or none of them read.\<close>

lemma mem_read_take: "off + n \<le> length m \<Longrightarrow> mem_read (Some m) (int off) (int n) = Some (take n (drop off m))"
  by (auto simp: mem_read_def)

lemma shows_one:
  assumes "length bs \<le> length m" and "take (length bs) m = bs"
  shows "shows_bytes \<lparr>frag_data = Some m, frag_len = int (length bs)\<rparr> \<lparr>frag_data = None, frag_len = 0\<rparr> bs"
  unfolding shows_bytes_def
proof (intro conjI allI impI)
  show "aml_frags_copy \<lparr>frag_data = Some m, frag_len = int (length bs)\<rparr> \<lparr>frag_data = None, frag_len = 0\<rparr> (int off) dest (int n) =
      Some (take n (drop off bs))" if "off + n \<le> length bs" for off n dest
  proof -
    obtain y where m: "m = bs @ y"
      using assms(2) append_take_drop_id by metis
    with that show ?thesis
      by (simp add: aml_frags_copy_def mem_read_take)
  qed
  show "aml_frags_copy \<lparr>frag_data = Some m, frag_len = int (length bs)\<rparr> \<lparr>frag_data = None, frag_len = 0\<rparr> (int off) dest (int n) \<noteq> None"
    if "off \<le> length bs" "n \<le> ETH_HLEN" for off n dest
    using assms(1) by (cases "off + n \<le> length bs") (simp_all add: aml_frags_copy_def mem_read_take)
qed simp

text \<open>Two pieces of the receive buffer; the first one reaches the end of the buffer.\<close>

lemma shows_two:
  assumes "bs = a @ take n b" and "n \<le> length b"
  shows "shows_bytes \<lparr>frag_data = Some (a @ x), frag_len = int (length a)\<rparr> \<lparr>frag_data = Some b, frag_len = int n\<rparr> bs"
  unfolding shows_bytes_def
proof (intro conjI allI impI)
  show "frag_len \<lparr>frag_data = Some (a @ x), frag_len = int (length a)\<rparr> + frag_len \<lparr>frag_data = Some b, frag_len = int n\<rparr> = int (length bs)"
    using assms by simp
  have copy: "aml_frags_copy \<lparr>frag_data = Some (a @ x), frag_len = int (length a)\<rparr> \<lparr>frag_data = Some b, frag_len = int n\<rparr> (int off) dest (int k) =
      Some (take k (drop off bs))" if "off + k \<le> length bs" for off k dest
  proof (cases "off + k \<le> length a")
    case True
    then show ?thesis
      using assms(1) by (simp add: aml_frags_copy_def mem_read_take flip: of_nat_add)
  next
    case False
    have k: "off + k \<le> length a + n"
      using that assms by simp
    show ?thesis
    proof (cases "off < length a")
      case True
      have A: "mem_read (Some (a @ x)) (int off) (int (length a) - int off) = Some (drop off a)"
        using True mem_read_take [of off "length a - off" "a @ x"] by (simp add: of_nat_diff)
      have B: "mem_read (Some b) 0 (int k - (int (length a) - int off)) = Some (take (k - (length a - off)) b)"
        using True False k assms mem_read_take [of 0 "k - (length a - off)" b] by (simp add: of_nat_diff algebra_simps)
      have n: "k + off - length a \<le> n" "k - (length a - off) = k + off - length a"
        using k True by simp_all
      have "take k (drop off bs) = drop off a @ take (k - (length a - off)) b"
        using True False n assms(1) by (simp add: min_def)
      with True False k n show ?thesis
        by (simp add: aml_frags_copy_def A B)
    next
      case F: False
      have "int off - int (length a) = int (off - length a)" "k \<le> n + length a - off"
        using F k by simp_all
      then show ?thesis
        using F False k assms mem_read_take [of "off - length a" k b]
        by (simp add: aml_frags_copy_def Let_def min_def drop_take)
    qed
  qed
  then show "aml_frags_copy \<lparr>frag_data = Some (a @ x), frag_len = int (length a)\<rparr> \<lparr>frag_data = Some b, frag_len = int n\<rparr> (int off) dest (int k) =
      Some (take k (drop off bs))" if "off + k \<le> length bs" for off k dest
    using that .
  show "aml_frags_copy \<lparr>frag_data = Some (a @ x), frag_len = int (length a)\<rparr> \<lparr>frag_data = Some b, frag_len = int n\<rparr> (int off) dest (int k) \<noteq> None"
    if "off \<le> length bs" "k \<le> ETH_HLEN" for off k dest
  proof (cases "off + k \<le> length bs")
    case True
    then show ?thesis
      by (simp add: copy)
  next
    case False
    then have "\<not> int off + int k \<le> int (length a)" "int (length a) + int n < int off + int k"
      using assms by simp_all
    then show ?thesis
      by (simp add: aml_frags_copy_def)
  qed
qed


section \<open>A reference parser\<close>

text \<open>The subframes of contiguous bytes, as header and body; \<open>None\<close> when they are malformed.\<close>

function subframes_of :: "u8 list \<Rightarrow> (u8 list \<times> u8 list) list option" where
  "subframes_of bs =
     (if bs = [] then Some []
      else if length bs < ETH_HLEN then None
      else
        let len = h_proto bs in
        if ETH_P_802_3_MIN \<le> len \<or> length bs < ETH_HLEN + len \<or> take 6 bs = rfc1042_header then None
        else map_option ((#) (take 14 bs, take len (drop 14 bs)))
               (subframes_of (drop (ETH_HLEN + len + AMSDU_PADDING (ETH_HLEN + len)) bs)))"
  by pat_completeness auto
termination
  by (relation "measure length") (auto simp: ETH_HLEN_def)

declare subframes_of.simps [simp del]

fun msdus_of :: "(u8 list \<times> u8 list) list \<Rightarrow> u8 list list" where
  "msdus_of xs = map (\<lambda>(eth, body). msdu_frame eth body) xs"

lemma shows_bytesD:
  assumes "shows_bytes f0 f1 bs"
  shows "frag_len f0 + frag_len f1 = int (length bs)"
    and "off + n \<le> length bs \<Longrightarrow> aml_frags_copy f0 f1 (int off) dest (int n) = Some (take n (drop off bs))"
    and "off \<le> length bs \<Longrightarrow> n \<le> ETH_HLEN \<Longrightarrow> aml_frags_copy f0 f1 (int off) dest (int n) \<noteq> None"
  using assms by (simp_all add: shows_bytes_def)

text \<open>With enough memory and no address to check, the loop finds what the reference finds; the
  contents of \<open>eth\<close> before the first copy do not matter.\<close>

lemma amsdu_loop_spec:
  assumes "shows_bytes f0 f1 bs"
  shows "off \<le> length bs \<Longrightarrow> amsdu_loop f0 f1 None None junk (int off) [] ms =
    Some (case subframes_of (drop off bs) of None \<Rightarrow> [] | Some xs \<Rightarrow> ms @ msdus_of xs, [])"
proof (induction "length bs - off" arbitrary: off ms rule: less_induct)
  case less
  note S = shows_bytesD [OF assms]
  show ?case
  proof (cases "off = length bs")
    case True
    then show ?thesis
      by (simp add: amsdu_loop.simps subframes_of.simps S(1))
  next
    case False
    with less.prems have off: "off < length bs"
      by simp
    obtain eth where eth: "aml_frags_copy f0 f1 (int off) junk (int ETH_HLEN) = Some eth"
      using S(3) [of off ETH_HLEN junk] less.prems by auto
    show ?thesis
    proof (cases "off + ETH_HLEN \<le> length bs")
      case False
      have "amsdu_loop f0 f1 None None junk (int off) [] ms = Some ([], [])"
        using off False by (subst amsdu_loop.simps) (simp add: S(1) eth Let_def)
      with off False show ?thesis
        by (simp add: subframes_of.simps [of "drop off bs"])
    next
      case True
      have e: "eth = take 14 (drop off bs)"
        using S(2) [OF True, of junk] eth by (simp add: ETH_HLEN_def)
      define len where "len = h_proto (drop off bs)"
      have len: "h_proto eth = len"
        using True by (simp add: e len_def ETH_HLEN_def h_proto_def)
      have t6: "take 6 eth = take 6 (drop off bs)"
        by (simp add: e min_def)
      define next_off where "next_off = off + ETH_HLEN + len + AMSDU_PADDING (ETH_HLEN + len)"
      show ?thesis
      proof (cases "ETH_P_802_3_MIN \<le> len \<or> length bs < off + ETH_HLEN + len \<or> take 6 eth = rfc1042_header")
        case True': True
        have "amsdu_loop f0 f1 None None junk (int off) [] ms = Some ([], [])"
          using off True' by (subst amsdu_loop.simps) (auto simp: S(1) eth Let_def len)
        moreover have "subframes_of (drop off bs) = None"
          using off True True' by (subst subframes_of.simps) (auto simp: Let_def t6 simp flip: len_def)
        ultimately show ?thesis
          by simp
      next
        case ok: False
        have body: "aml_frags_copy f0 f1 (int (off + ETH_HLEN)) (replicate len 0) (int len) = Some (take len (drop 14 (drop off bs)))"
          using S(2) [of "off + ETH_HLEN" len] ok by (simp add: ETH_HLEN_def add.commute)
        have step: "amsdu_loop f0 f1 None None junk (int off) [] ms =
            amsdu_loop f0 f1 None None junk (int next_off) [] (ms @ [msdu_frame eth (take len (drop 14 (drop off bs)))])"
          using off ok body
          by (subst amsdu_loop.simps) (simp add: S(1) eth Let_def len skip_subframe_def next_alloc_def next_off_def add.assoc)
        have ref: "subframes_of (drop off bs) = map_option ((#) (eth, take len (drop 14 (drop off bs)))) (subframes_of (drop next_off bs))"
        proof -
          have rest: "drop (ETH_HLEN + len + AMSDU_PADDING (ETH_HLEN + len)) (drop off bs) = drop next_off bs"
            by (simp add: next_off_def ac_simps)
          have "\<not> length (drop off bs) < ETH_HLEN + len" "drop off bs \<noteq> []"
            using ok off by auto
          with True ok t6 show ?thesis
            by (subst subframes_of.simps) (simp add: Let_def e rest del: drop_drop flip: len_def)
        qed
        show ?thesis
        proof (cases "next_off \<le> length bs")
          case True'': True
          have "length bs - next_off < length bs - off"
            using off by (simp add: next_off_def ETH_HLEN_def)
          then show ?thesis
            unfolding step ref using less.hyps [OF _ True''] by (simp split: option.split)
        next
          case end_padding: False
          then have "drop next_off bs = []"
            by simp
          then show ?thesis
            unfolding step ref using end_padding by (simp add: amsdu_loop.simps subframes_of.simps S(1))
        qed
      qed
    qed
  qed
qed

section \<open>Fragments in order\<close>

text \<open>A fragment as it arrives: the time, the header extension and the pieces.\<close>

fun defrag_run :: "u64 \<Rightarrow> (u64 \<times> aml_rhd_ext \<times> aml_frag \<times> aml_frag) list \<Rightarrow> frag_skb option \<Rightarrow> (u8 list list \<times> frag_skb option) option" where
  "defrag_run wait [] pf = Some ([], pf)"
| "defrag_run wait ((now, ext, f0, f1) # fs) pf = do {
     (done, pf) \<leftarrow> aml_defrag_handle now wait True pf ext f0 f1;
     (more, pf) \<leftarrow> defrag_run wait fs pf;
     Some ((case done of None \<Rightarrow> more | Some d \<Rightarrow> d # more), pf)
   }"

lemma append_ok:
  assumes "shows_bytes f0 f1 b" and "fs_data s = [] \<or> ETH_HLEN \<le> length b" and "length (fs_data s) + length b \<le> DEFRAG_MAX_PAYLOAD_SIZE"
  shows "aml_frag_skb_append s f0 f1 = Some (True, s\<lparr>fs_data := fs_data s @ (if fs_data s = [] then b else drop ETH_HLEN b)\<rparr>)"
proof -
  define off where "off = (if fs_data s = [] then 0 else ETH_HLEN)"
  have off: "off \<le> length b" "(if fs_data s = [] then 0 else int ETH_HLEN) = int off"
    using assms(2) by (auto simp: off_def)
  have len: "frag_len f0 + frag_len f1 - int off = int (length b - off)"
    using shows_bytesD(1) [OF assms(1)] off(1) by simp
  have u: "unat (of_nat m :: u32) = m" if "m \<le> 1600" for m
    using that by (simp add: unat_of_nat)
  have sum: "of_nat (length (fs_data s)) + of_int (int (length b - off)) = (of_nat (length (fs_data s) + (length b - off)) :: u32)"
    by simp
  have "length (fs_data s) + (length b - off) \<le> 1600"
    using assms(3) by (simp add: DEFRAG_MAX_PAYLOAD_SIZE_def)
  then have "\<not> of_nat DEFRAG_MAX_PAYLOAD_SIZE < of_nat (length (fs_data s)) + (of_int (int (length b - off)) :: u32)"
    unfolding sum DEFRAG_MAX_PAYLOAD_SIZE_def word_less_nat_alt using u [of 1600] by (simp only: u)
  moreover have "aml_frags_copy f0 f1 (int off) (replicate (length b - off) 0) (int (length b - off)) = Some (drop off b)"
    using shows_bytesD(2) [OF assms(1), of off "length b - off"] off(1) by simp
  ultimately show ?thesis
    unfolding aml_frag_skb_append_def off(2) Let_def len by (simp add: off_def)
qed

text \<open>Fragment \<open>n\<close> and the following ones, of sequence number \<open>sn\<close>.\<close>

fun in_order :: "nat \<Rightarrow> nat \<Rightarrow> u64 \<Rightarrow> (u64 \<times> aml_rhd_ext \<times> aml_frag \<times> aml_frag) list \<Rightarrow> u8 list list \<Rightarrow> bool" where
  "in_order sn n dl [] bs \<longleftrightarrow> False"
| "in_order sn n dl ((now, ext, f0, f1) # fs) bs \<longleftrightarrow>
     ext_sn ext = sn \<and> ext_fn ext = n \<and> n < 16 \<and> \<not> time_after now dl \<and>
     (\<exists>b cs. bs = b # cs \<and> shows_bytes f0 f1 b \<and> ETH_HLEN \<le> length b \<and>
        (if morefrag ext then in_order sn (n + 1) dl fs cs else fs = [] \<and> cs = []))"


lemma defrag_rest:
  assumes "in_order sn n dl fs bs" and "d \<noteq> []" and "n \<noteq> 0" and "length d + sum_list (map length bs) \<le> DEFRAG_MAX_PAYLOAD_SIZE"
  shows "defrag_run wait fs (Some \<lparr>fs_data = d, fs_sn = sn, fs_fn = n, fs_deadline = dl\<rparr>) =
    Some ([d @ concat (map (drop ETH_HLEN) bs)], None)"
  using assms
proof (induction fs arbitrary: n d bs)
  case (Cons f fs)
  obtain now ext f0 f1 where f: "f = (now, ext, f0, f1)"
    by (cases f) auto
  with Cons.prems(1) obtain b cs where b: "bs = b # cs" "shows_bytes f0 f1 b" "ETH_HLEN \<le> length b"
      and e: "ext_sn ext = sn" "ext_fn ext = n" "n < 16" "\<not> time_after now dl"
      and rest: "if morefrag ext then in_order sn (n + 1) dl fs cs else fs = [] \<and> cs = []"
    by auto
  let ?s = "\<lparr>fs_data = d, fs_sn = sn, fs_fn = n, fs_deadline = dl\<rparr>"
  have app: "aml_frag_skb_append ?s f0 f1 = Some (True, ?s\<lparr>fs_data := d @ drop ETH_HLEN b\<rparr>)"
    using append_ok [OF b(2), of ?s] b(1,3) Cons.prems(2,4) by simp
  show ?case
  proof (cases "morefrag ext")
    case True
    with rest have io: "in_order sn (n + 1) dl fs cs"
      by simp
    then have "fs \<noteq> []" "n + 1 < 16"
      by (cases fs; auto)+
    have len: "length (d @ drop ETH_HLEN b) + sum_list (map length cs) \<le> DEFRAG_MAX_PAYLOAD_SIZE"
      using Cons.prems(4) b(1) by simp
    have "aml_defrag_handle now wait True (Some ?s) ext f0 f1 =
        Some (None, Some \<lparr>fs_data = d @ drop ETH_HLEN b, fs_sn = sn, fs_fn = n + 1, fs_deadline = dl\<rparr>)"
      using e Cons.prems(2,3) app True \<open>n + 1 < 16\<close> by (simp add: aml_defrag_handle_def Let_def)
    then show ?thesis
      using Cons.IH [OF io _ _ len] Cons.prems(2) b(1) by (simp add: f)
  next
    case False
    then have "aml_defrag_handle now wait True (Some ?s) ext f0 f1 = Some (Some (d @ drop ETH_HLEN b), None)"
      using e Cons.prems(2,3) app by (simp add: aml_defrag_handle_def Let_def)
    with False rest b(1) show ?thesis
      by (simp add: f)
  qed
qed simp

lemma defrag_first:
  assumes "ext_fn ext = 0" and "morefrag ext" and "shows_bytes f0 f1 b" and "length b \<le> DEFRAG_MAX_PAYLOAD_SIZE"
    and "pf = None \<or> (\<exists>s. pf = Some s \<and> (fs_data s = [] \<or> fs_sn s \<noteq> ext_sn ext \<or> time_after now (fs_deadline s)))"
  shows "aml_defrag_handle now wait True pf ext f0 f1 =
    Some (None, Some \<lparr>fs_data = b, fs_sn = ext_sn ext, fs_fn = 1, fs_deadline = now + wait\<rparr>)"
proof -
  let ?s = "\<lparr>fs_data = [], fs_sn = ext_sn ext, fs_fn = 0, fs_deadline = now + wait\<rparr>"
  have app: "aml_frag_skb_append ?s f0 f1 = Some (True, ?s\<lparr>fs_data := b\<rparr>)"
    using append_ok [OF assms(3), of ?s] assms(4) by simp
  from assms(5) consider "pf = None" | s where "pf = Some s" "fs_data s = []"
    | s where "pf = Some s" "fs_data s \<noteq> []" "fs_sn s \<noteq> ext_sn ext \<or> time_after now (fs_deadline s)"
    by blast
  then show ?thesis
  proof cases
    case 1
    with assms(1,2) app show ?thesis
      by (simp add: aml_defrag_handle_def Let_def)
  next
    case 2
    with assms(1,2) app show ?thesis
      by (cases s) (simp add: aml_defrag_handle_def Let_def)
  next
    case 3
    with assms(1,2) app show ?thesis
      by (cases s) (auto simp: aml_defrag_handle_def Let_def)
  qed
qed

text \<open>Property C16. The fragments of an MPDU that arrive in order, within the deadline, each with an
  Ethernet header, and not longer than the buffer in all, become one MPDU with the last of them:
  the first fragment and the payloads of the others, and no buffer stays behind.\<close>

theorem defrag_reassembles:
  assumes "fs = (now, ext, f0, f1) # rest" and "ext_fn ext = 0" and "morefrag ext" and "shows_bytes f0 f1 b"
    and "b \<noteq> []" and "in_order (ext_sn ext) 1 (now + wait) rest bs"
    and "length b + sum_list (map length bs) \<le> DEFRAG_MAX_PAYLOAD_SIZE"
  shows "defrag_run wait fs None = Some ([b @ concat (map (drop ETH_HLEN) bs)], None)"
proof -
  have "aml_defrag_handle now wait True None ext f0 f1 =
      Some (None, Some \<lparr>fs_data = b, fs_sn = ext_sn ext, fs_fn = 1, fs_deadline = now + wait\<rparr>)"
    using defrag_first [OF assms(2,3,4)] assms(7) by simp
  then show ?thesis
    unfolding assms(1) using defrag_rest [OF assms(6) assms(5) _ assms(7), of wait] by simp
qed

abbreviation one_piece :: "u8 list \<Rightarrow> aml_frag" where
  "one_piece d \<equiv> \<lparr>frag_data = Some d, frag_len = int (length d)\<rparr>"

abbreviation no_piece :: aml_frag where
  "no_piece \<equiv> \<lparr>frag_data = None, frag_len = 0\<rparr>"

lemma shows_whole: "shows_bytes (one_piece d) no_piece d"
  by (rule shows_one) simp_all

definition demo_ext :: "nat \<Rightarrow> bool \<Rightarrow> aml_rhd_ext" where
  "demo_ext n mf = \<lparr>ext_sn = 7, ext_fn = n, morefrag = mf, ext_qos = True, ext_pn = None\<rparr>"

theorem defrag_reassembles_witness:
  "defrag_run 25 [(100, demo_ext 0 True, one_piece (replicate 20 1), no_piece), (101, demo_ext 1 True, one_piece (replicate 16 2), no_piece),
      (102, demo_ext 2 False, one_piece (replicate 15 3), no_piece)] None = Some ([replicate 20 1 @ [2, 2, 3]], None)"
proof -
  have "defrag_run 25 [(100, demo_ext 0 True, one_piece (replicate 20 1), no_piece), (101, demo_ext 1 True, one_piece (replicate 16 2), no_piece),
      (102, demo_ext 2 False, one_piece (replicate 15 3), no_piece)] None =
    Some ([replicate 20 1 @ concat (map (drop ETH_HLEN) [replicate 16 2, replicate 15 3])], None)"
    by (rule defrag_reassembles [OF refl])
      (use shows_whole [of "replicate 20 1"] shows_whole [of "replicate 16 2"] shows_whole [of "replicate 15 3"] in \<open>auto simp: demo_ext_def time_after_def ETH_HLEN_def DEFRAG_MAX_PAYLOAD_SIZE_def\<close>)
  then show ?thesis
    by (simp add: ETH_HLEN_def numeral_2_eq_2)
qed

text \<open>Property C39. A first fragment that is received a second time, with the sequence number of the MPDU
  being put together, does not replace what was collected: its payload is appended.\<close>

theorem repeated_first_fragment_appended:
  assumes "fs_data s \<noteq> []" and "fs_sn s = ext_sn ext" and "\<not> time_after now (fs_deadline s)" and "ext_fn ext = 0" and "morefrag ext"
    and "shows_bytes f0 f1 b" and "ETH_HLEN \<le> length b" and "length (fs_data s) + length b \<le> DEFRAG_MAX_PAYLOAD_SIZE"
  shows "aml_defrag_handle now wait True (Some s) ext f0 f1 =
    Some (None, Some \<lparr>fs_data = fs_data s @ drop ETH_HLEN b, fs_sn = ext_sn ext, fs_fn = 1, fs_deadline = now + wait\<rparr>)"
  using assms append_ok [OF assms(6), of "s\<lparr>fs_fn := 0, fs_deadline := now + wait\<rparr>"]
  by (cases s) (simp add: aml_defrag_handle_def Let_def)

theorem repeated_first_fragment_appended_witness:
  "aml_defrag_handle 3 25 True (Some \<lparr>fs_data = replicate 20 1, fs_sn = 7, fs_fn = 1, fs_deadline = 25\<rparr>) (demo_ext 0 True)
     (one_piece (replicate 20 1)) no_piece =
   Some (None, Some \<lparr>fs_data = replicate 26 1, fs_sn = 7, fs_fn = 1, fs_deadline = 28\<rparr>)"
proof -
  have "aml_defrag_handle 3 25 True (Some \<lparr>fs_data = replicate 20 1, fs_sn = 7, fs_fn = 1, fs_deadline = 25\<rparr>) (demo_ext 0 True)
     (one_piece (replicate 20 1)) no_piece =
    Some (None, Some \<lparr>fs_data = fs_data \<lparr>fs_data = replicate 20 1, fs_sn = 7, fs_fn = 1, fs_deadline = 25\<rparr> @ drop ETH_HLEN (replicate 20 1),
       fs_sn = ext_sn (demo_ext 0 True), fs_fn = 1, fs_deadline = 3 + 25\<rparr>)"
    by (rule repeated_first_fragment_appended)
      (use shows_whole [of "replicate 20 1"] in \<open>simp_all add: demo_ext_def time_after_def ETH_HLEN_def DEFRAG_MAX_PAYLOAD_SIZE_def\<close>)
  then show ?thesis
    by (simp add: demo_ext_def ETH_HLEN_def flip: replicate_add)
qed

text \<open>Property C40. A later fragment that is shorter than an Ethernet header makes the length to append
  negative: the unsigned comparison lets it pass and the copy runs over memory.\<close>

theorem short_fragment_faults:
  assumes "fs_data s \<noteq> []" and "frag_len f0 + frag_len f1 < int ETH_HLEN"
    and "int ETH_HLEN - (frag_len f0 + frag_len f1) \<le> int (length (fs_data s))" and "length (fs_data s) \<le> DEFRAG_MAX_PAYLOAD_SIZE"
  shows "aml_frag_skb_append s f0 f1 = None"
proof -
  define len where "len = frag_len f0 + frag_len f1 - int ETH_HLEN"
  define m where "m = nat (int (length (fs_data s)) + len)"
  have u: "unat (of_nat k :: u32) = k" if "k \<le> 1600" for k
    using that by (simp add: unat_of_nat)
  have m: "int m = int (length (fs_data s)) + len" "m \<le> 1600"
    using assms(2-4) by (simp_all add: m_def len_def DEFRAG_MAX_PAYLOAD_SIZE_def)
  have "of_nat (length (fs_data s)) + (of_int len :: u32) = of_int (int m)"
    by (simp add: m(1))
  then have "of_nat (length (fs_data s)) + (of_int len :: u32) = of_nat m"
    by simp
  then have "\<not> of_nat DEFRAG_MAX_PAYLOAD_SIZE < of_nat (length (fs_data s)) + (of_int len :: u32)"
    unfolding DEFRAG_MAX_PAYLOAD_SIZE_def word_less_nat_alt using u [of 1600] m(2) by (simp only: u)
  moreover have "len < 0"
    using assms(2) by (simp add: len_def)
  moreover have "(if fs_data s = [] then 0 else int ETH_HLEN) = int ETH_HLEN"
    using assms(1) by simp
  ultimately show ?thesis
    unfolding aml_frag_skb_append_def Let_def by (simp only: len_def [symmetric] if_False if_True simp_thms)
qed

theorem short_fragment_faults_witness:
  "aml_frag_skb_append \<lparr>fs_data = replicate 20 1, fs_sn = 7, fs_fn = 1, fs_deadline = 25\<rparr> (one_piece (replicate 10 2)) no_piece = None"
  by (rule short_fragment_faults) (simp_all add: ETH_HLEN_def DEFRAG_MAX_PAYLOAD_SIZE_def)

end
