(* ===== verification/Amsdu_Bytes.thy ===== *)
theory Amsdu_Bytes
  imports Rx_Msdu
begin

text \<open>
  The bytes of A-MSDUs in both directions: what the transmission writes in front of a subframe
  and takes off again (aml_drv/fullmac/aml_tx.c), and what the reception makes of the
  subframes (aml_drv/aml_sdio_usb_rx.c).
\<close>

section \<open>The bytes of a subframe\<close>

lemma write_at_append: "length xs = n \<Longrightarrow> write_at n bs (xs @ ys) = xs @ bs @ drop (length bs) ys"
  by (simp add: write_at_def)

lemma h_proto_append: "14 \<le> length xs \<Longrightarrow> h_proto (xs @ ys) = h_proto xs"
  by (simp add: h_proto_def nth_append)

lemma h_proto_take: "14 \<le> length xs \<Longrightarrow> h_proto (take 14 xs) = h_proto xs"
  by (simp add: h_proto_def)

definition msdu_bytes :: "u8 list \<Rightarrow> u8 list" where
  "msdu_bytes d = take 12 d @ htons (length d - ETH_HLEN + llc_len d) @
     (if ETH_P_802_3_MIN \<le> h_proto d then rfc1042_header @ drop 12 d else drop 14 d)"

lemma write_header_layout:
  assumes "length room = amsdu_headroom_need pad d" and "ETH_HLEN \<le> length d"
  shows "amsdu_write_header pad room d = take 56 room @ take 14 d @ replicate pad 0 @ msdu_bytes d"
proof -
  define x where "x = take 56 room"
  define y where "y = drop 56 room"
  have room: "room = x @ y" and x: "length x = 56" and y: "length y = pad + 14 + llc_len d"
    using assms(1) by (simp_all add: x_def y_def amsdu_headroom_need_def amsdu_size_defs)
  have d: "14 \<le> length d"
    using assms(2) by (simp add: ETH_HLEN_def)
  let ?e = "take 14 d" and ?z = "replicate pad 0 :: u8 list" and ?l = "htons (length d - 14 + llc_len d)"
  have e: "length ?e = 14" and l: "length ?l = 2"
    using d by (simp_all add: htons_def)
  have one: "write_at 56 (take 14 (drop (length room) (room @ d))) (room @ d) = (x @ ?e) @ drop 14 (y @ d)"
    using e by (simp add: room write_at_append [OF x])
  have two: "write_at 70 ?z ((x @ ?e) @ drop 14 (y @ d)) = (x @ ?e @ ?z) @ drop (14 + pad) (y @ d)"
    using e by (subst write_at_append) (simp_all add: x y add.commute)
  have hd12: "take 12 (drop 56 ((x @ ?e @ ?z) @ w)) = take 12 d" for w
    using d by (simp add: x)
  have three: "write_at (70 + pad) (take 12 d @ ?l) ((x @ ?e @ ?z) @ drop (14 + pad) (y @ d)) =
      (x @ ?e @ ?z @ take 12 d @ ?l) @ drop (28 + pad) (y @ d)"
    using e l d by (subst write_at_append) (simp_all add: x add.commute del: drop_append)
  have proto: "h_proto (drop 56 ((x @ ?e @ ?z @ take 12 d @ ?l) @ w)) = h_proto d" for w
    using d e by (simp add: x h_proto_append h_proto_take)
  have four: "write_at (84 + pad) rfc1042_header ((x @ ?e @ ?z @ take 12 d @ ?l) @ drop (28 + pad) (y @ d)) =
      x @ ?e @ ?z @ take 12 d @ ?l @ rfc1042_header @ drop (34 + pad) (y @ d)"
    using e l d by (subst write_at_append) (simp_all add: x rfc1042_header_def add.commute del: drop_append)
  have pos: "70 + pad + 14 = 84 + pad"
    by simp
  have "amsdu_write_header pad room d =
      (if ETH_P_802_3_MIN \<le> h_proto d then x @ ?e @ ?z @ take 12 d @ ?l @ rfc1042_header @ drop (34 + pad) (y @ d)
       else (x @ ?e @ ?z @ take 12 d @ ?l) @ drop (28 + pad) (y @ d))"
    unfolding amsdu_write_header_def Let_def AMSDU_TXHDR_SIZE_def ETH_HLEN_def one
    by (simp only: numeral_plus_numeral add_num_simps semiring_norm two hd12 three proto pos four)
  also have "\<dots> = x @ ?e @ ?z @ msdu_bytes d"
    using y by (simp add: msdu_bytes_def ETH_HLEN_def llc_len_def rfc1042_header_def)
  finally show ?thesis
    by (simp add: x_def)
qed


text \<open>Property C9. Aggregating a frame writes in front of its payload, after the padding of the subframe
  before, the A-MSDU header (destination, source, length of what follows) and, for an Ethernet II
  frame, the LLC/SNAP header; taking the header off again gives back the frame byte for byte.\<close>

theorem amsdu_header_roundtrip:
  assumes "length room = amsdu_headroom_need pad d" and "ETH_HLEN \<le> length d"
  shows "drop (AMSDU_TXHDR_SIZE + ETH_HLEN) (amsdu_write_header pad room d) =
      replicate pad 0 @ take 12 d @ htons (length d - ETH_HLEN + llc_len d) @
      (if ETH_P_802_3_MIN \<le> h_proto d then rfc1042_header @ drop 12 d else drop 14 d) \<and>
    amsdu_del_header pad (amsdu_write_header pad room d) = d"
proof
  have room: "length (take 56 room) = 56" and d: "14 \<le> length d" "length (take 14 d) = 14"
    using assms by (simp_all add: amsdu_headroom_need_def amsdu_size_defs)
  show "drop (AMSDU_TXHDR_SIZE + ETH_HLEN) (amsdu_write_header pad room d) = replicate pad 0 @ take 12 d @
      htons (length d - ETH_HLEN + llc_len d) @ (if ETH_P_802_3_MIN \<le> h_proto d then rfc1042_header @ drop 12 d else drop 14 d)"
    unfolding write_header_layout [OF assms] using room d by (simp add: msdu_bytes_def AMSDU_TXHDR_SIZE_def ETH_HLEN_def)
  have proto: "h_proto (take 14 d @ w) = h_proto d" for w
    using d by (simp add: h_proto_append h_proto_take)
  have ends: "drop (n + length bs) (write_at n bs buf) = drop (n + length bs) buf" if "n + length bs \<le> length buf" for n bs and buf :: "u8 list"
    using that by (simp add: write_at_def)
  have del: "drop n (write_at n bs buf) = bs @ drop (n + length bs) buf" if "n \<le> length buf" for n bs and buf :: "u8 list"
    using that by (simp add: write_at_def)
  show "amsdu_del_header pad (amsdu_write_header pad room d) = d"
    unfolding write_header_layout [OF assms] amsdu_del_header_def Let_def AMSDU_TXHDR_SIZE_def ETH_HLEN_def
    using room d by (simp add: proto del msdu_bytes_def rfc1042_header_def htons_def)
qed

theorem amsdu_header_roundtrip_witness:
  "amsdu_del_header 2 (amsdu_write_header 2 (replicate 80 7) ([1,2,3,4,5,6,7,8,9,10,11,12,8,0] @ [42, 43])) =
     [1,2,3,4,5,6,7,8,9,10,11,12,8,0] @ [42, 43]"
  by (rule amsdu_header_roundtrip [THEN conjunct2])
    (simp_all add: amsdu_headroom_need_def amsdu_size_defs llc_len_def h_proto_def)

section \<open>From the sender's frames to the receiver's\<close>

text \<open>The subframes of an A-MSDU on the air; each but the last is padded to four bytes.\<close>

fun amsdu_air :: "u8 list list \<Rightarrow> u8 list" where
  "amsdu_air [] = []"
| "amsdu_air (d # ds) = msdu_bytes d @
     (if ds = [] then [] else replicate (AMSDU_PADDING (length (msdu_bytes d))) 0 @ amsdu_air ds)"













definition demo_msdu :: "u8 \<Rightarrow> u8 list" where
  "demo_msdu k = [2,0,0,0,0,k, 2,0,0,0,0,1, 8,0] @ replicate (unat k) k"


text \<open>Property C18. Taking an A-MSDU apart does not depend on where the receive buffer wraps, nor on what
  the stack held: in one piece or in two the result is that of a parser of contiguous bytes, which
  drops everything when a subframe is cut short, too long or carries an LLC header as address.\<close>

theorem amsdu_to_msdu_equiv:
  assumes "bs = a @ take n b" and "n \<le> length b"
  shows "aml_amsdu_to_msdu \<lparr>frag_data = Some (a @ x), frag_len = int (length a)\<rparr> \<lparr>frag_data = Some b, frag_len = int n\<rparr> None None junk [] =
      aml_amsdu_to_msdu \<lparr>frag_data = Some (bs @ y), frag_len = int (length bs)\<rparr> \<lparr>frag_data = None, frag_len = 0\<rparr> None None junk' [] \<and>
    aml_amsdu_to_msdu \<lparr>frag_data = Some (bs @ y), frag_len = int (length bs)\<rparr> \<lparr>frag_data = None, frag_len = 0\<rparr> None None junk' [] =
      Some (case subframes_of bs of None \<Rightarrow> [] | Some xs \<Rightarrow> msdus_of xs, [])"
proof -
  have one: "shows_bytes \<lparr>frag_data = Some (bs @ y), frag_len = int (length bs)\<rparr> \<lparr>frag_data = None, frag_len = 0\<rparr> bs"
    by (rule shows_one) simp_all
  show ?thesis
    using amsdu_loop_spec [OF shows_two [OF assms], where off = 0 and junk = junk and ms = "[]"]
      amsdu_loop_spec [OF one, where off = 0 and junk = junk' and ms = "[]"]
    by (simp add: aml_amsdu_to_msdu_def split: option.split)
qed

theorem amsdu_to_msdu_equiv_witness:
  "aml_amsdu_to_msdu \<lparr>frag_data = Some (take 21 (amsdu_air [demo_msdu 9]) @ []), frag_len = int (length (take 21 (amsdu_air [demo_msdu 9])))\<rparr>
     \<lparr>frag_data = Some (drop 21 (amsdu_air [demo_msdu 9])), frag_len = int (length (drop 21 (amsdu_air [demo_msdu 9])))\<rparr> None None [] [] =
   aml_amsdu_to_msdu \<lparr>frag_data = Some (amsdu_air [demo_msdu 9] @ [1, 2]), frag_len = int (length (amsdu_air [demo_msdu 9]))\<rparr>
     \<lparr>frag_data = None, frag_len = 0\<rparr> None None [5] []"
  by (rule amsdu_to_msdu_equiv [THEN conjunct1]) (simp_all del: amsdu_air.simps)

end
