(* ===== verification/Rx_Ring.thy ===== *)
theory Rx_Ring
  imports Rx_Msdu
begin

text \<open>
  The receive buffer of SDIO and USB (aml_drv/aml_sdio_usb_rx.c, aml_sdio_usb_rx.h,
  common/wifi_w2_shared_mem_cfg.h): the interrupt task copies what the firmware has written in its
  ring to a ring in host memory and links the descriptors it finds; the receive task follows the
  links. A descriptor that the firmware has not finished stays at the head and is completed by the
  next copy; near the end of either ring it may be cut in two.

  Host positions are integers (\<open>int\<close> in the code), device addresses are 32-bit words whose bit 31
  tells how often the ring wrapped. A descriptor has 128 bytes (\<open>struct rxdesc\<close>): the fields the
  driver reads lie at fixed places behind the offset 48, the link at 76. An access outside of the
  buffer and a \<open>BUG_ON\<close> are faults. What the bus delivers is an argument.
\<close>

section \<open>The layout of the shared memory\<close>

definition RXBUF_START_ADDR :: u32 where "RXBUF_START_ADDR = 0x6001B400"
definition SHARED_MEM_BASE_ADDR :: u32 where "SHARED_MEM_BASE_ADDR = 0x60000000"
definition RXBUF_END_ADDR_SMALL :: u32 where "RXBUF_END_ADDR_SMALL = 0x60040000"
definition RXBUF_END_ADDR_LARGE :: u32 where "RXBUF_END_ADDR_LARGE = 0x60069800"
definition RXBUF_END_ADDR_LA_LARGE :: u32 where "RXBUF_END_ADDR_LA_LARGE = 0x60059400"
definition USB_RXBUF_END_ADDR_SMALL :: u32 where "USB_RXBUF_END_ADDR_SMALL = 0x60029130"
definition USB_RXBUF_END_ADDR_LARGE :: u32 where "USB_RXBUF_END_ADDR_LARGE = 0x600684b0"
definition USB_RXBUF_END_ADDR_LA_LARGE :: u32 where "USB_RXBUF_END_ADDR_LA_LARGE = 0x600575c0"
definition SDIO_TX_PAGE_NUM_SMALL :: u32 where "SDIO_TX_PAGE_NUM_SMALL = 90"
definition SDIO_TX_PAGE_NUM_LARGE :: u32 where "SDIO_TX_PAGE_NUM_LARGE = 255"
definition USB_TX_PAGE_NUM_SMALL :: u32 where "USB_TX_PAGE_NUM_SMALL = 21"
definition USB_TX_PAGE_NUM_LARGE :: u32 where "USB_TX_PAGE_NUM_LARGE = 77"
definition USB_LA_PAGE_NUM :: u32 where "USB_LA_PAGE_NUM = 15"
definition SDIO_LA_PAGE_NUM :: u32 where "SDIO_LA_PAGE_NUM = 64"
definition USB_PAGE_LEN :: u32 where "USB_PAGE_LEN = 4624"

lemmas layout_defs = RXBUF_START_ADDR_def RXBUF_END_ADDR_SMALL_def RXBUF_END_ADDR_LARGE_def RXBUF_END_ADDR_LA_LARGE_def
  USB_RXBUF_END_ADDR_SMALL_def USB_RXBUF_END_ADDR_LARGE_def USB_RXBUF_END_ADDR_LA_LARGE_def SDIO_TX_PAGE_NUM_SMALL_def
  SDIO_TX_PAGE_NUM_LARGE_def USB_TX_PAGE_NUM_SMALL_def USB_TX_PAGE_NUM_LARGE_def USB_LA_PAGE_NUM_def SDIO_LA_PAGE_NUM_def
  USB_PAGE_LEN_def SDIO_PAGE_LEN_def

abbreviation "RX_WRAP_TEMP_FLAG \<equiv> (BIT 19 :: u32)"
abbreviation "FW_BUFFER_NARROW \<equiv> (BIT 20 :: u32)"
abbreviation "FW_BUFFER_EXPAND \<equiv> (BIT 21 :: u32)"
abbreviation "RX_ENLARGE_READ_RX_DATA_FINISH \<equiv> (BIT 25 :: u32)"
abbreviation "HOST_RXBUF_ENLARGE_FINISH \<equiv> (BIT 26 :: u32)"
abbreviation "RX_REDUCE_READ_RX_DATA_FINISH \<equiv> (BIT 27 :: u32)"
abbreviation "HOST_RXBUF_REDUCE_FINISH \<equiv> (BIT 28 :: u32)"
abbreviation "AML_RX_WRAP_FLAG \<equiv> (BIT 31 :: u32)"

datatype aml_rx_buf_layout = AML_RX_BUF_NARROW | AML_RX_BUF_EXPAND

record aml_sharedmem_layout =
  tx_page :: u32
  rx_end :: u32

text \<open>\<open>struct aml_rx\<close>; \<open>rx_cfm_writes\<close> are the confirmations written to the device, \<open>rx_cfm_carried\<close>
  the one that waits to go out with the next USB command, \<open>rx_reg_resets\<close> counts the resets of the
  SDIO head register, \<open>rx_sem\<close> the wake-ups of the receive task.\<close>

record aml_rx =
  layouts :: "aml_rx_buf_layout \<Rightarrow> aml_sharedmem_layout"
  rx_started :: bool
  rx_in_reset :: bool
  rx_reading :: bool
  rx_no_buf :: bool
  irq_pending :: bool
  rx_buf :: "u8 list"
  rx_head :: int
  rx_tail :: int
  rx_last :: int
  rx_frag0 :: int
  fw_state :: u32
  fw_head :: u32
  fw_tail :: u32
  confirm_flags :: u32
  confirm_last :: u32
  fw_end :: u32
  fw_frag0 :: u16
  fw_skip :: u16
  rx_cfm_writes :: "u32 list"
  rx_cfm_carried :: "u32 option"
  rx_reg_resets :: nat
  rx_sem :: nat

definition buf_sz :: "aml_rx \<Rightarrow> int" where
  "buf_sz rx = int (length (rx_buf rx))"

text \<open>\<open>aml_shared_mem_layout_update\<close>; \<open>la\<close> is \<open>la_enable\<close>. PCIe is a \<open>BUG\<close>.\<close>

definition aml_shared_mem_layout_update :: "plat \<Rightarrow> bool \<Rightarrow> aml_rx \<Rightarrow> aml_rx option" where
  "aml_shared_mem_layout_update pl la rx =
     (let set = (\<lambda>narrow expand. Some (rx\<lparr>layouts := (\<lambda>l. case l of AML_RX_BUF_NARROW \<Rightarrow> narrow | AML_RX_BUF_EXPAND \<Rightarrow> expand)\<rparr>))
      in case aml_bus_type pl of
        SDIO_MODE \<Rightarrow> set
          \<lparr>tx_page = (if la then SDIO_TX_PAGE_NUM_LARGE - SDIO_LA_PAGE_NUM else SDIO_TX_PAGE_NUM_LARGE), rx_end = RXBUF_END_ADDR_SMALL\<rparr>
          \<lparr>tx_page = SDIO_TX_PAGE_NUM_SMALL, rx_end = (if la then RXBUF_END_ADDR_LA_LARGE else RXBUF_END_ADDR_LARGE)\<rparr>
      | USB_MODE \<Rightarrow> set
          \<lparr>tx_page = (if la then USB_TX_PAGE_NUM_LARGE - USB_LA_PAGE_NUM else USB_TX_PAGE_NUM_LARGE), rx_end = USB_RXBUF_END_ADDR_SMALL\<rparr>
          \<lparr>tx_page = USB_TX_PAGE_NUM_SMALL, rx_end = (if la then USB_RXBUF_END_ADDR_LA_LARGE else USB_RXBUF_END_ADDR_LARGE)\<rparr>
      | PCIE_MODE \<Rightarrow> None)"

definition aml_shared_mem_layout_get :: "aml_rx \<Rightarrow> aml_rx_buf_layout" where
  "aml_shared_mem_layout_get rx = (if fw_end rx = rx_end (layouts rx AML_RX_BUF_EXPAND) then AML_RX_BUF_EXPAND else AML_RX_BUF_NARROW)"

definition aml_sdio_usb_tx_page_apply :: "u32 \<Rightarrow> tx_dev \<Rightarrow> tx_dev" where
  "aml_sdio_usb_tx_page_apply n d = d\<lparr>tx_page_tot_num := n, tx_page_free_num := n\<rparr>"

definition aml_shared_mem_layout_appy :: "aml_rx_buf_layout \<Rightarrow> aml_rx \<times> tx_dev \<Rightarrow> aml_rx \<times> tx_dev" where
  "aml_shared_mem_layout_appy l = (\<lambda>(rx, d). (rx\<lparr>fw_end := rx_end (layouts rx l)\<rparr>, aml_sdio_usb_tx_page_apply (tx_page (layouts rx l)) d))"

section \<open>What the firmware says\<close>

text \<open>\<open>aml_sdio_usb_rx_pos_in_range\<close>, in 32-bit arithmetic.\<close>

definition aml_sdio_usb_rx_pos_in_range :: "aml_rx \<Rightarrow> u32 \<Rightarrow> u32 \<Rightarrow> bool" where
  "aml_sdio_usb_rx_pos_in_range rx pos len \<longleftrightarrow> RXBUF_START_ADDR \<le> pos \<and> pos + len \<le> fw_end rx"

text \<open>\<open>aml_sdio_usb_fw_rx_head_ind\<close>: the flag is the return value 0.\<close>

definition aml_sdio_usb_fw_rx_head_ind :: "u32 \<Rightarrow> aml_rx \<Rightarrow> bool \<times> aml_rx" where
  "aml_sdio_usb_fw_rx_head_ind fw_rx_head rx =
     (if fw_rx_head = 0 then (True, rx)
      else
        let head = SHARED_MEM_BASE_ADDR OR (fw_rx_head AND NOT (RX_WRAP_TEMP_FLAG OR (FW_BUFFER_NARROW OR FW_BUFFER_EXPAND))) in
        if \<not> aml_sdio_usb_rx_pos_in_range rx head 0 then (False, rx)
        else (True, rx\<lparr>fw_head := (if fw_rx_head AND RX_WRAP_TEMP_FLAG \<noteq> 0 then head OR AML_RX_WRAP_FLAG else head),
                       fw_state := fw_rx_head AND (FW_BUFFER_NARROW OR FW_BUFFER_EXPAND)\<rparr>))"

section \<open>Confirmations and the change of the layout\<close>

text \<open>The \<open>switch\<close> of \<open>aml_sdio_usb_rx_confirm\<close>: the new flags. An unexpected state keeps them.\<close>

definition confirm_switch :: "plat \<Rightarrow> aml_rx \<times> tx_dev \<Rightarrow> u32 \<times> aml_rx \<times> tx_dev" where
  "confirm_switch pl = (\<lambda>(rx, d).
     let flags = confirm_flags rx; state = fw_state rx OR flags in
     if state = FW_BUFFER_NARROW then
       let rx = (if rx_end (layouts rx AML_RX_BUF_NARROW) \<le> fw_head rx AND NOT AML_RX_WRAP_FLAG
                 then rx\<lparr>fw_head := RXBUF_START_ADDR, fw_tail := RXBUF_START_ADDR,
                         rx_reg_resets := rx_reg_resets rx + (if aml_bus_type pl = SDIO_MODE then 1 else 0)\<rparr>
                 else rx)
       in (RX_REDUCE_READ_RX_DATA_FINISH, aml_shared_mem_layout_appy AML_RX_BUF_NARROW (rx, d))
     else if state = FW_BUFFER_NARROW OR RX_REDUCE_READ_RX_DATA_FINISH then (flags, rx, d)
     else if state = RX_REDUCE_READ_RX_DATA_FINISH then (HOST_RXBUF_REDUCE_FINISH, rx, d)
     else if state = FW_BUFFER_EXPAND then (RX_ENLARGE_READ_RX_DATA_FINISH, aml_shared_mem_layout_appy AML_RX_BUF_EXPAND (rx, d))
     else if state = FW_BUFFER_EXPAND OR RX_ENLARGE_READ_RX_DATA_FINISH then (flags, rx, d)
     else if state = RX_ENLARGE_READ_RX_DATA_FINISH then (HOST_RXBUF_ENLARGE_FINISH, rx, d)
     else if state = 0 then (0, rx, d)
     else (flags, rx, d))"

text \<open>What follows the switch: the flags are kept unless the change is complete, and a confirmation
  that differs from the last one is written, or on USB left to the next command. \<open>state\<close> is
  the one before the switch.\<close>

definition confirm_send :: "plat \<Rightarrow> int \<Rightarrow> u32 \<Rightarrow> u32 \<Rightarrow> aml_rx \<Rightarrow> aml_rx" where
  "confirm_send pl received state flags rx0 =
     (let rx = rx0\<lparr>confirm_flags := (if flags = HOST_RXBUF_REDUCE_FINISH \<or> flags = HOST_RXBUF_ENLARGE_FINISH then 0 else flags)\<rparr>;
          confirm = flags OR fw_tail rx0
      in if confirm_last rx0 = confirm then rx
         else
           let rx = rx\<lparr>confirm_last := confirm\<rparr>; write = rx\<lparr>rx_cfm_writes := rx_cfm_writes rx0 @ [confirm]\<rparr> in
           (case aml_bus_type pl of
              USB_MODE \<Rightarrow>
                if state \<noteq> 0 \<or> flags \<noteq> 0 \<or> (fw_end rx0 - RXBUF_START_ADDR) div 4 \<le> of_int received \<or> rx_cfm_carried rx0 \<noteq> None
                then write else rx\<lparr>rx_cfm_carried := Some confirm\<rparr>
            | SDIO_MODE \<Rightarrow> if hw_state pl = WIFI_SUSPEND_STATE_NONE then write else rx
            | PCIE_MODE \<Rightarrow> rx))"

definition aml_sdio_usb_rx_confirm :: "plat \<Rightarrow> int \<Rightarrow> aml_rx \<times> tx_dev \<Rightarrow> aml_rx \<times> tx_dev" where
  "aml_sdio_usb_rx_confirm pl received s =
     (let (flags, rx, d) = confirm_switch pl s
      in (confirm_send pl received (fw_state (fst s) OR confirm_flags (fst s)) flags rx, d))"

section \<open>Descriptors in the buffer\<close>

definition RX_DESC_SIZE :: int where "RX_DESC_SIZE = 128"
definition RX_HEADER_OFFSET :: int where "RX_HEADER_OFFSET = 48"
definition RX_PD_LEN :: int where "RX_PD_LEN = 36"
definition UNWRAP_SIZE :: int where "UNWRAP_SIZE = 56"
definition AML_RX_FRAG0_MINI_SIZE :: int where "AML_RX_FRAG0_MINI_SIZE = RX_DESC_SIZE + RX_PD_LEN + UNWRAP_SIZE"
definition SDIO_BLKSIZE :: int where "SDIO_BLKSIZE = 512"
definition SDIO_READ_MAX :: int where "SDIO_READ_MAX = 131072"

lemmas rx_size_defs = RX_DESC_SIZE_def RX_HEADER_OFFSET_def RX_PD_LEN_def UNWRAP_SIZE_def AML_RX_FRAG0_MINI_SIZE_def
  SDIO_BLKSIZE_def SDIO_READ_MAX_def

definition align_up :: "int \<Rightarrow> int \<Rightarrow> int" where
  "align_up x a = (x + (a - 1)) div a * a"

definition bytes_at :: "u8 list \<Rightarrow> int \<Rightarrow> nat \<Rightarrow> u8 list option" where
  "bytes_at buf p n = (if 0 \<le> p \<and> p + int n \<le> int (length buf) then Some (take n (drop (nat p) buf)) else None)"

definition put_at :: "u8 list \<Rightarrow> int \<Rightarrow> u8 list \<Rightarrow> u8 list option" where
  "put_at buf p bs = (if 0 \<le> p \<and> p + int (length bs) \<le> int (length buf) then Some (write_at (nat p) bs buf) else None)"

definition le32 :: "u32 \<Rightarrow> u8 list" where
  "le32 w = [ucast w, ucast (drop_bit 8 w), ucast (drop_bit 16 w), ucast (drop_bit 24 w)]"

text \<open>The fields of the descriptor at a position: frame length, payload offset and status of
  \<open>struct hw_vect\<close>, the link, and the flags of \<open>struct hw_rxhdr\<close>.\<close>

definition aml_rhd_frm_len :: "u8 list \<Rightarrow> int \<Rightarrow> nat option" where
  "aml_rhd_frm_len buf p = do { bs \<leftarrow> bytes_at buf (p + RX_HEADER_OFFSET) 2; w \<leftarrow> rd_le16 bs 0; Some (unat w) }"

definition rhd_payl_offset :: "u8 list \<Rightarrow> int \<Rightarrow> nat option" where
  "rhd_payl_offset buf p = do { bs \<leftarrow> bytes_at buf (p + RX_HEADER_OFFSET + 4) 1; Some (unat (hd bs)) }"

definition rhd_status :: "u8 list \<Rightarrow> int \<Rightarrow> u8 option" where
  "rhd_status buf p = do { bs \<leftarrow> bytes_at buf (p + RX_HEADER_OFFSET + 5) 1; Some (hd bs) }"

definition aml_rx_desc_next_ptr :: "int \<Rightarrow> int" where
  "aml_rx_desc_next_ptr p = p + RX_HEADER_OFFSET + 28"

definition next_at :: "u8 list \<Rightarrow> int \<Rightarrow> u32 option" where
  "next_at buf p = do { bs \<leftarrow> bytes_at buf (aml_rx_desc_next_ptr p) 4; rd_le32 bs }"

definition set_next :: "u8 list \<Rightarrow> int \<Rightarrow> u32 \<Rightarrow> u8 list option" where
  "set_next buf p w = put_at buf (aml_rx_desc_next_ptr p) (le32 w)"

definition rhd_flags :: "u8 list \<Rightarrow> int \<Rightarrow> u32 option" where
  "rhd_flags buf p = do { bs \<leftarrow> bytes_at buf (p + RX_HEADER_OFFSET + 48) 4; rd_le32 bs }"

definition flags_is_amsdu :: "u32 \<Rightarrow> bool" where "flags_is_amsdu w \<longleftrightarrow> bit w 0"
definition flags_is_80211_mpdu :: "u32 \<Rightarrow> bool" where "flags_is_80211_mpdu w \<longleftrightarrow> bit w 1"
definition flags_is_4addr :: "u32 \<Rightarrow> bool" where "flags_is_4addr w \<longleftrightarrow> bit w 2"
definition flags_user_prio :: "u32 \<Rightarrow> nat" where "flags_user_prio w = unat (take_bit 3 (drop_bit 4 w))"
definition flags_vif_idx :: "u32 \<Rightarrow> nat" where "flags_vif_idx w = unat (take_bit 8 (drop_bit 8 w))"
definition flags_sta_idx :: "u32 \<Rightarrow> nat" where "flags_sta_idx w = unat (take_bit 8 (drop_bit 16 w))"
definition flags_dst_idx :: "u32 \<Rightarrow> nat" where "flags_dst_idx w = unat (drop_bit 24 w)"

section \<open>Copying from the device\<close>

text \<open>\<open>aml_sdio_usb_rx_buf_get\<close>: the place for \<open>len\<close> more bytes, or -1.\<close>

definition aml_sdio_usb_rx_buf_get :: "int \<Rightarrow> int \<Rightarrow> int \<Rightarrow> int \<Rightarrow> int \<Rightarrow> int" where
  "aml_sdio_usb_rx_buf_get head tail sz len frag0 =
     (let head = head + frag0;
          free = tail - head;
          len = (if SDIO_BLKSIZE < len then align_up len SDIO_BLKSIZE else len)
      in if 0 < free then (if len < free then head else -1)
         else if head + len < sz then head
         else if (if frag0 < AML_RX_FRAG0_MINI_SIZE then len + frag0 else len) < tail then 0
         else -1)"

definition aml_sdio_usb_rx_error :: "aml_rx \<Rightarrow> aml_rx" where
  "aml_sdio_usb_rx_error rx = (if rx_in_reset rx then rx else rx\<lparr>rx_in_reset := True, rx_started := False\<rparr>)"

text \<open>Before a copy to the beginning of the buffer: the short first piece of an unfinished MPDU is
  moved there, a long one stays at the end.\<close>

definition place_frag0 :: "int \<Rightarrow> aml_rx \<Rightarrow> (int \<times> aml_rx) option" where
  "place_frag0 frag0 rx =
     (if frag0 < AML_RX_FRAG0_MINI_SIZE then do {
        buf \<leftarrow> (if frag0 \<noteq> 0 then do { bs \<leftarrow> bytes_at (rx_buf rx) (rx_head rx) (nat frag0); put_at (rx_buf rx) 0 bs }
               else Some (rx_buf rx));
        Some (frag0, rx\<lparr>rx_buf := buf, rx_frag0 := 0\<rparr>)
      } else if rx_frag0 rx = 0 then Some (0, rx\<lparr>rx_frag0 := frag0\<rparr>)
      else if frag0 < rx_frag0 rx then None
      else Some (frag0 - rx_frag0 rx, rx))"

text \<open>One round of the loop over the new descriptors: either it ends with a rest of \<open>len\<close> bytes, or
  a complete descriptor of some length was found. \<open>dpos\<close> is where it lies in the buffer, \<open>fw_pos\<close>
  where it came from.\<close>

datatype fetch_res = Stop int u16 | Next int

text \<open>The length of a descriptor with its payload, from payload offset plus frame length.\<close>

definition rx_pkt_len :: "nat \<Rightarrow> int" where
  "rx_pkt_len n = RX_DESC_SIZE + (if n \<noteq> 0 then RX_PD_LEN else 0) + align_up (int n) 4"

definition fetch_verdict :: "aml_rx \<Rightarrow> bool \<Rightarrow> u32 \<Rightarrow> int \<Rightarrow> u16 \<Rightarrow> int \<Rightarrow> u32 \<Rightarrow> bool \<Rightarrow> fetch_res option" where
  "fetch_verdict rx reach_end fw_pos len skip pkt_len next_pos is_mpdu =
     (let tot_len = sint (next_pos - fw_pos);
          tot_len = (if tot_len < 0 \<and> next_pos = RXBUF_START_ADDR then sint (fw_end rx - fw_pos) else tot_len)
      in if \<not> aml_sdio_usb_rx_pos_in_range rx next_pos 0 then None
         else if tot_len < 0 then
           (if \<not> reach_end then Some (Stop len skip)
            else if len < RX_DESC_SIZE + RX_PD_LEN then Some (Stop RX_DESC_SIZE skip)
            else if is_mpdu then Some (Stop (RX_DESC_SIZE + RX_PD_LEN) skip)
            else if len < RX_DESC_SIZE + RX_PD_LEN + UNWRAP_SIZE then Some (Stop (RX_DESC_SIZE + RX_PD_LEN) skip)
            else if pkt_len + 12 < len then None
            else Some (Stop len (of_int RX_PD_LEN)))
         else if tot_len < pkt_len then None
         else if len < tot_len then Some (Stop len skip)
         else Some (Next tot_len))"

definition fetch_one :: "aml_rx \<Rightarrow> bool \<Rightarrow> u8 list \<Rightarrow> int \<Rightarrow> u32 \<Rightarrow> int \<Rightarrow> u16 \<Rightarrow> fetch_res option" where
  "fetch_one rx reach_end buf dpos fw_pos len skip = do {
     frmlen \<leftarrow> aml_rhd_frm_len buf dpos;
     off \<leftarrow> rhd_payl_offset buf dpos;
     if len < RX_DESC_SIZE then Some (Stop (if reach_end then 0 else len) skip)
     else do {
       next_pos \<leftarrow> next_at buf dpos;
       flags \<leftarrow> rhd_flags buf dpos;
       fetch_verdict rx reach_end fw_pos len skip (rx_pkt_len (off + frmlen)) next_pos (flags_is_80211_mpdu flags)
     }
   }"

lemma align_up_nonneg: "0 \<le> x \<Longrightarrow> 0 < a \<Longrightarrow> x \<le> align_up x a"
proof -
  assume a: "0 < a"
  have "(x + (a - 1)) mod a < a"
    using a by simp
  moreover have "(x + (a - 1)) div a * a = x + (a - 1) - (x + (a - 1)) mod a"
    by (simp add: minus_mod_eq_div_mult)
  ultimately show "x \<le> align_up x a"
    by (simp add: align_up_def)
qed

lemma rx_pkt_len_ge: "RX_DESC_SIZE \<le> rx_pkt_len n"
  using align_up_nonneg [of "int n" 4] by (simp add: rx_pkt_len_def RX_PD_LEN_def)

lemma verdict_Next: "fetch_verdict rx re fw_pos len skip pl n m = Some (Next t) \<Longrightarrow> pl \<le> t \<and> t \<le> len"
  unfolding fetch_verdict_def Let_def by (simp only: split: if_splits) auto

lemma fetch_one_Next:
  assumes "fetch_one rx re buf dpos fw_pos len skip = Some (Next t)"
  shows "RX_DESC_SIZE \<le> t \<and> t \<le> len"
proof -
  obtain k n m where "fetch_verdict rx re fw_pos len skip (rx_pkt_len k) n m = Some (Next t)"
    using assms unfolding fetch_one_def by (auto simp: bind_eq_Some_conv split: if_splits)
  then show ?thesis
    using verdict_Next rx_pkt_len_ge order_trans by blast
qed

text \<open>The loop: \<open>pos\<close> is the position of the descriptor, negative as long as its first piece is at the
  end of the buffer; \<open>pnext\<close> is the descriptor before, which is linked to this one. The result
  is the buffer, the rest, the position behind, the last descriptor, and what to skip.\<close>

function fetch_loop :: "aml_rx \<Rightarrow> bool \<Rightarrow> u8 list \<Rightarrow> int \<Rightarrow> int \<Rightarrow> int \<Rightarrow> u32 \<Rightarrow> int option \<Rightarrow> int \<Rightarrow> u16 \<Rightarrow>
    (u8 list \<times> int \<times> int \<times> int \<times> u16) option" where
  "fetch_loop rx re buf len pos dpos fw_pos pnext lst skip =
     (if len \<le> 0 then Some (buf, len, pos, lst, skip)
      else case fetch_one rx re buf dpos fw_pos len skip of
        None \<Rightarrow> None
      | Some (Stop l sk) \<Rightarrow> Some (buf, l, pos, lst, sk)
      | Some (Next t) \<Rightarrow> do {
          buf \<leftarrow> (case pnext of None \<Rightarrow> Some buf | Some p \<Rightarrow> set_next buf p (of_int pos));
          if pos + t < 0 \<or> int (length buf) \<le> pos + t \<or> \<not> aml_sdio_usb_rx_pos_in_range rx (fw_pos + of_int t) 0 then None
          else fetch_loop rx re buf (len - t) (pos + t) (pos + t) (fw_pos + of_int t) (Some dpos) (if pos < 0 then dpos else pos) skip
        })"
  by pat_completeness auto
termination
  by (relation "measure (\<lambda>(rx, re, buf, len, pos, dpos, fw_pos, pnext, lst, skip). nat len)")
    (auto dest!: fetch_one_Next simp: RX_DESC_SIZE_def)

declare fetch_loop.simps [simp del]

text \<open>The link that publishes the new descriptors, written last.\<close>

definition link_new :: "aml_rx \<Rightarrow> int \<Rightarrow> int \<Rightarrow> int \<Rightarrow> u8 list \<Rightarrow> u8 list option" where
  "link_new rx lst pos pos0 buf =
     (if rx_last rx \<noteq> lst then set_next buf (rx_last rx) (if pos < pos0 then of_int pos0 OR AML_RX_WRAP_FLAG else of_int pos0)
      else Some buf)"

text \<open>What is done with the bytes \<open>bs\<close> received, to be stored at \<open>pos\<close>.\<close>

definition fetch_new :: "aml_rx \<Rightarrow> bool \<Rightarrow> int \<Rightarrow> int \<Rightarrow> u32 \<Rightarrow> u8 list \<Rightarrow> (int \<times> aml_rx) option" where
  "fetch_new rx reach_end frag0 pos fw_pos bs = do {
     buf \<leftarrow> put_at (rx_buf rx) pos bs;
     let pos0 = (if pos - frag0 < 0 then rx_head rx else pos - frag0);
     (buf, len, pos, lst, skip) \<leftarrow> fetch_loop rx reach_end buf (int (length bs) + frag0) (pos - frag0) pos0
        (fw_pos - of_int frag0) None (rx_last rx) (fw_skip rx);
     buf \<leftarrow> link_new rx lst pos pos0 buf;
     Some (int (length bs), rx\<lparr>rx_buf := buf, rx_last := lst, fw_frag0 := of_int len, fw_skip := skip,
        rx_head := (if 0 \<le> pos then pos else rx_head rx)\<rparr>)
   }"

text \<open>\<open>aml_sdio_usb_rx_desc_fetch\<close>: the bytes received. \<open>bus\<close> is the answer of \<open>hi_rx_buffer_read\<close>.\<close>

definition aml_sdio_usb_rx_desc_fetch :: "(u32 \<Rightarrow> int \<Rightarrow> u8 list option) \<Rightarrow> u32 \<Rightarrow> int \<Rightarrow> aml_rx \<Rightarrow> (int \<times> aml_rx) option" where
  "aml_sdio_usb_rx_desc_fetch bus fw_pos len rx =
     (let frag0 = uint (fw_frag0 rx);
          pos = aml_sdio_usb_rx_buf_get (rx_head rx) (rx_tail rx) (buf_sz rx) len frag0
      in if pos < 0 then Some (0, rx)
         else if \<not> aml_sdio_usb_rx_pos_in_range rx fw_pos (of_int len) then None
         else do {
           (pos, rx1) \<leftarrow> (if pos = 0 then place_frag0 frag0 rx else Some (pos, rx));
           case bus fw_pos len of
             None \<Rightarrow> Some (0, aml_sdio_usb_rx_error rx1)
           | Some bs \<Rightarrow> fetch_new rx1 (fw_end rx = fw_pos + of_int len) frag0 pos fw_pos bs
         })"

section \<open>Draining the device\<close>

text \<open>\<open>aml_sdio_usb_fw_tail_restart\<close>: the next place to read from.\<close>

definition aml_sdio_usb_fw_tail_restart :: "u32 \<Rightarrow> aml_rx \<Rightarrow> (u32 \<times> aml_rx) option" where
  "aml_sdio_usb_fw_tail_restart rx_tl rx =
     (if fw_tail rx = fw_head rx then None
      else if rx_tl = fw_end rx \<or> fw_end rx < rx_tl - ucast (fw_frag0 rx) + of_int RX_DESC_SIZE then
        Some (RXBUF_START_ADDR, (if rx_tl \<noteq> fw_end rx then rx\<lparr>fw_frag0 := 0\<rparr> else rx)
          \<lparr>fw_tail := RXBUF_START_ADDR OR (fw_head rx AND AML_RX_WRAP_FLAG)\<rparr>)
      else Some (rx_tl, rx))"

text \<open>The loop of \<open>aml_sdio_usb_rxdataind\<close> with the bytes received so far. Every round that goes
  on receives something; the number of rounds is bounded by the argument, as the code's is by the
  device.\<close>

fun rx_read_loop :: "nat \<Rightarrow> (u32 \<Rightarrow> int \<Rightarrow> u8 list option) \<Rightarrow> u32 \<Rightarrow> u32 \<Rightarrow> int \<Rightarrow> aml_rx \<Rightarrow> (int \<times> aml_rx) option" where
  "rx_read_loop n bus rx_hd rx_tl received rx =
     (if fw_tail rx = fw_head rx then Some (received, rx)
      else case n of
        0 \<Rightarrow> None
      | Suc n \<Rightarrow> do {
          let len = sint (rx_hd - rx_tl);
          let len = (if len \<le> 0 then sint (fw_end rx - rx_tl) else len);
          (len, rx_tl, rx) \<leftarrow>
            (if fw_skip rx \<noteq> 0 \<and> rx_tl = RXBUF_START_ADDR then
               if len \<le> uint (fw_skip rx) then None
               else Some (len - uint (fw_skip rx), rx_tl + ucast (fw_skip rx),
                          rx\<lparr>fw_tail := fw_tail rx + ucast (fw_skip rx), fw_skip := 0\<rparr>)
             else Some (len, rx_tl, rx));
          if len = 0 then Some (received, rx)
          else do {
            (len, rx) \<leftarrow> aml_sdio_usb_rx_desc_fetch bus rx_tl (min len SDIO_READ_MAX) rx;
            if len \<le> 0 then Some (received, rx)
            else do {
              let rx_tl = rx_tl + of_int len;
              let rx = rx\<lparr>fw_tail := fw_tail rx + of_int len\<rparr>;
              if fw_end rx < rx_tl then None
              else do {
                (rx_tl, rx) \<leftarrow> (if fw_tail rx \<noteq> fw_head rx then aml_sdio_usb_fw_tail_restart rx_tl rx else Some (rx_tl, rx));
                rx_read_loop n bus rx_hd rx_tl (received + len) (rx\<lparr>rx_sem := rx_sem rx + 1\<rparr>)
              }
            }
          }
        })"

declare rx_read_loop.simps [simp del]

text \<open>\<open>aml_sdio_usb_rxdataind\<close>: -1 or the number of bytes. \<open>bus_err\<close>: the bus is broken or the
  recovery runs; \<open>new_tail\<close> is the register read after a reset.\<close>

definition aml_sdio_usb_rxdataind :: "nat \<Rightarrow> plat \<Rightarrow> (u32 \<Rightarrow> int \<Rightarrow> u8 list option) \<Rightarrow> bool \<Rightarrow> u32 \<Rightarrow> aml_rx \<times> tx_dev \<Rightarrow>
    (int \<times> aml_rx \<times> tx_dev) option" where
  "aml_sdio_usb_rxdataind n pl bus bus_err new_tail = (\<lambda>(rx, d).
     let rx_hd = fw_head rx AND NOT AML_RX_WRAP_FLAG; rx = rx\<lparr>irq_pending := False\<rparr> in
     if bus_err then Some (-1, aml_sdio_usb_rx_error rx, d)
     else if \<not> rx_started rx then Some (-1, rx, d)
     else if rx_in_reset rx \<and> \<not> aml_sdio_usb_rx_pos_in_range rx (new_tail AND NOT AML_RX_WRAP_FLAG) 0 then Some (-1, rx, d)
     else
       let rx = (if rx_in_reset rx then rx\<lparr>rx_in_reset := False, rx_frag0 := 0, fw_frag0 := 0, fw_skip := 0, fw_tail := new_tail\<rparr> else rx);
           rx_tl = fw_tail rx AND NOT AML_RX_WRAP_FLAG
       in if fw_tail rx = fw_head rx then
            (let (rx, d) = (if fw_state rx \<noteq> 0 \<or> confirm_flags rx \<noteq> 0 then aml_sdio_usb_rx_confirm pl 0 (rx, d) else (rx, d))
             in Some (0, rx\<lparr>rx_sem := rx_sem rx + 1\<rparr>, d))
          else do {
            (rx_tl, rx) \<leftarrow> aml_sdio_usb_fw_tail_restart rx_tl (rx\<lparr>rx_reading := True\<rparr>);
            (received, rx) \<leftarrow> rx_read_loop n bus rx_hd rx_tl 0 rx;
            let (rx, d) = (if received \<noteq> 0 then aml_sdio_usb_rx_confirm pl received (rx, d) else (rx, d));
            Some (received, rx\<lparr>rx_reading := False\<rparr>, d)
          })"

section \<open>Following the links\<close>

text \<open>\<open>aml_sdio_usb_rx_desc_next\<close>: the next descriptor with the length of its first piece, if the
  link of \<open>p\<close> is a position of the buffer and not a device address.\<close>

definition aml_sdio_usb_rx_desc_next :: "int \<Rightarrow> aml_rx \<Rightarrow> ((int \<times> int) option \<times> aml_rx) option" where
  "aml_sdio_usb_rx_desc_next p rx = do {
     w \<leftarrow> next_at (rx_buf rx) p;
     let pos = uint (w AND NOT AML_RX_WRAP_FLAG);
     if pos < buf_sz rx then
       Some (if w AND AML_RX_WRAP_FLAG = 0 then (Some (pos, 0), rx) else (Some (pos, rx_frag0 rx), rx\<lparr>rx_frag0 := 0\<rparr>))
     else Some (None, rx)
   }"

text \<open>The loop of \<open>aml_sdio_usb_rx_buf_put\<close>, with what handles a descriptor and its state. The fuel
  bounds the number of descriptors.\<close>

fun buf_put_loop :: "nat \<Rightarrow> (u8 list \<Rightarrow> int \<Rightarrow> int \<Rightarrow> 's \<Rightarrow> (nat \<times> 's) option) \<Rightarrow> int \<Rightarrow> nat \<Rightarrow> aml_rx \<times> 's \<Rightarrow> (nat \<times> aml_rx \<times> 's) option" where
  "buf_put_loop n handle p cnt (rx, s) = do {
     (nx, rx) \<leftarrow> aml_sdio_usb_rx_desc_next p rx;
     case nx of
       None \<Rightarrow> Some (cnt, rx, s)
     | Some (q, frag0) \<Rightarrow> (case n of
         0 \<Rightarrow> None
       | Suc n \<Rightarrow> do {
           frmlen \<leftarrow> aml_rhd_frm_len (rx_buf rx) q;
           off \<leftarrow> rhd_payl_offset (rx_buf rx) q;
           st \<leftarrow> rhd_status (rx_buf rx) q;
           let stop = (if frag0 \<noteq> 0 then q + frag0
                       else q + RX_DESC_SIZE + (if frmlen \<noteq> 0 then RX_PD_LEN else 0) + int (off + frmlen));
           if buf_sz rx \<le> stop then None
           else do {
             (k, s) \<leftarrow> (if st \<noteq> 0 \<and> frmlen \<noteq> 0 then handle (rx_buf rx) q frag0 s else Some (0, s));
             buf_put_loop n handle q (cnt + k) (rx\<lparr>rx_tail := q\<rparr>, s)
           }
         })
   }"

declare buf_put_loop.simps [simp del]

definition aml_sdio_usb_rx_buf_put :: "nat \<Rightarrow> (u8 list \<Rightarrow> int \<Rightarrow> int \<Rightarrow> 's \<Rightarrow> (nat \<times> 's) option) \<Rightarrow> aml_rx \<times> 's \<Rightarrow> (nat \<times> aml_rx \<times> 's) option" where
  "aml_sdio_usb_rx_buf_put n handle = (\<lambda>(rx, s). do {
     (cnt, rx, s) \<leftarrow> buf_put_loop n handle (rx_tail rx) 0 (rx, s);
     Some (cnt, if rx_no_buf rx then rx\<lparr>rx_no_buf := False, irq_pending := True\<rparr> else rx, s)
   })"

section \<open>Starting and stopping\<close>

text \<open>What \<open>aml_sdio_usb_rx_stop\<close> waits for: the interrupt task is not reading and no descriptor is
  left; it then resets the reorder sessions and waits for the stack.\<close>

definition aml_sdio_usb_rx_desc_has_pending :: "aml_rx \<Rightarrow> bool option" where
  "aml_sdio_usb_rx_desc_has_pending rx =
     map_option (\<lambda>w. uint (w AND NOT AML_RX_WRAP_FLAG) < buf_sz rx) (next_at (rx_buf rx) (rx_tail rx))"

definition aml_sdio_usb_rx_restart :: "aml_rx \<times> tx_dev \<Rightarrow> aml_rx \<times> tx_dev" where
  "aml_sdio_usb_rx_restart = (\<lambda>(rx, d).
     let rx = rx\<lparr>rx_in_reset := True\<rparr> in
     if rx_started rx then (rx, d) else aml_shared_mem_layout_appy AML_RX_BUF_EXPAND (rx\<lparr>rx_started := True\<rparr>, d))"

definition PREALLOC_BUF_TYPE_RXBUF_SIZE :: nat where "PREALLOC_BUF_TYPE_RXBUF_SIZE = 5 * 324 * 1024"

text \<open>\<open>aml_sdio_usb_rx_init\<close> with the allocated buffer, if there is one; the rest of the structure was
  zeroed. The flag is the return value 0.\<close>

definition zero_rx :: aml_rx where
  "zero_rx = \<lparr>layouts = (\<lambda>_. \<lparr>tx_page = 0, rx_end = 0\<rparr>), rx_started = False, rx_in_reset = False, rx_reading = False,
     rx_no_buf = False, irq_pending = False, rx_buf = [], rx_head = 0, rx_tail = 0, rx_last = 0, rx_frag0 = 0, fw_state = 0,
     fw_head = 0, fw_tail = 0, confirm_flags = 0, confirm_last = 0, fw_end = 0, fw_frag0 = 0, fw_skip = 0, rx_cfm_writes = [],
     rx_cfm_carried = None, rx_reg_resets = 0, rx_sem = 0\<rparr>"

definition aml_sdio_usb_rx_init :: "plat \<Rightarrow> bool \<Rightarrow> u8 list option \<Rightarrow> tx_dev \<Rightarrow> (bool \<times> aml_rx \<times> tx_dev) option" where
  "aml_sdio_usb_rx_init pl la mem d = do {
     rx \<leftarrow> aml_shared_mem_layout_update pl la zero_rx;
     case mem of
       None \<Rightarrow> Some (False, rx, d)
     | Some m \<Rightarrow> do {
         let (rx, d) = aml_shared_mem_layout_appy AML_RX_BUF_EXPAND (rx\<lparr>rx_buf := m, fw_head := RXBUF_START_ADDR, fw_tail := RXBUF_START_ADDR\<rparr>, d);
         let p = int (length m) - RX_DESC_SIZE;
         buf \<leftarrow> set_next m p RXBUF_START_ADDR;
         Some (True, rx\<lparr>rx_buf := buf, rx_last := p, rx_tail := p\<rparr>, d)
       }
   }"

end
