(* ===== verification/Rx_Layout.thy ===== *)
theory Rx_Layout
  imports Rx_Ring Tx_Props
begin

text \<open>
  What the division of the shared memory and the handshake that changes it guarantee: in every layout
  the receive ring and the transmit pages lie side by side in the memory; a change asked for by the
  firmware is applied once and confirmed in two steps; a confirmation that meets a suspended SDIO bus
  is lost.
\<close>

section \<open>Layouts\<close>

text \<open>The transmit pages lie behind the receive ring; the memory has 512 KiB, of which the logic
  analyser takes the last 64.\<close>

definition page_len :: "plat \<Rightarrow> u32" where
  "page_len pl = (if aml_bus_type pl = USB_MODE then USB_PAGE_LEN else SDIO_PAGE_LEN)"

definition shared_mem_end :: "bool \<Rightarrow> nat" where
  "shared_mem_end la = (if la then 0x60070000 else 0x60080000)"

text \<open>Property C20. In both layouts, on SDIO and USB, with and without the logic analyser, the receive
  ring is not empty and the transmit pages behind it end inside of the shared memory.\<close>

theorem layouts_fit:
  assumes "aml_shared_mem_layout_update pl la rx = Some rx'"
  shows "\<forall>l. let y = layouts rx' l in unat RXBUF_START_ADDR < unat (rx_end y) \<and>
    unat (rx_end y) + unat (tx_page y) * unat (page_len pl) \<le> shared_mem_end la"
  using assms
  by (auto simp: aml_shared_mem_layout_update_def layout_defs page_len_def shared_mem_end_def Let_def
    split: interface_type.splits aml_rx_buf_layout.split)

definition demo_bus :: "interface_type \<Rightarrow> plat" where
  "demo_bus b = \<lparr>aml_bus_type = b, bus_suspend_cnt = 0, g_pci_shutdown = False, g_pci_msg_suspend = False,
     hw_state = WIFI_SUSPEND_STATE_NONE, recy_state_ongoing = False\<rparr>"

lemma demo_bus_simps [simp]: "aml_bus_type (demo_bus b) = b" "hw_state (demo_bus b) = WIFI_SUSPEND_STATE_NONE"
  by (simp_all add: demo_bus_def)

definition demo_layouts :: "aml_rx_buf_layout \<Rightarrow> aml_sharedmem_layout" where
  "demo_layouts l = (case l of
     AML_RX_BUF_NARROW \<Rightarrow> \<lparr>tx_page = USB_TX_PAGE_NUM_LARGE, rx_end = USB_RXBUF_END_ADDR_SMALL\<rparr>
   | AML_RX_BUF_EXPAND \<Rightarrow> \<lparr>tx_page = USB_TX_PAGE_NUM_SMALL, rx_end = USB_RXBUF_END_ADDR_LARGE\<rparr>)"

lemma usb_layouts: "aml_shared_mem_layout_update (demo_bus USB_MODE) False rx = Some (rx\<lparr>layouts := demo_layouts\<rparr>)"
  by (simp add: aml_shared_mem_layout_update_def demo_layouts_def fun_eq_iff cong: aml_rx_buf_layout.case_cong)

theorem layouts_fit_witness:
  "unat (rx_end (demo_layouts AML_RX_BUF_EXPAND)) + unat (tx_page (demo_layouts AML_RX_BUF_EXPAND)) * unat (page_len (demo_bus USB_MODE))
    \<le> shared_mem_end False"
  using layouts_fit [OF usb_layouts [of zero_rx], unfolded Let_def, THEN spec, of AML_RX_BUF_EXPAND] by simp

section \<open>The handshake\<close>

text \<open>Interrupts without new data: the firmware shows a state, the host confirms.\<close>

definition confirm_round :: "plat \<Rightarrow> u32 \<Rightarrow> aml_rx \<times> tx_dev \<Rightarrow> aml_rx \<times> tx_dev" where
  "confirm_round pl st = (\<lambda>(rx, d). aml_sdio_usb_rx_confirm pl 0 (rx\<lparr>fw_state := st\<rparr>, d))"

definition confirm_rounds :: "plat \<Rightarrow> u32 list \<Rightarrow> aml_rx \<times> tx_dev \<Rightarrow> aml_rx \<times> tx_dev" where
  "confirm_rounds pl sts = fold (confirm_round pl) sts"

lemma rounds_same: "confirm_round pl st s = s \<Longrightarrow> confirm_rounds pl (replicate n st) s = s"
  by (induction n) (simp_all add: confirm_rounds_def)

lemma rounds_append: "confirm_rounds pl (xs @ ys) s = confirm_rounds pl ys (confirm_rounds pl xs s)"
  by (simp add: confirm_rounds_def)

lemma rounds_Cons: "confirm_rounds pl (x # xs) s = confirm_rounds pl xs (confirm_round pl x s)"
  by (simp add: confirm_rounds_def)

lemma rounds_Nil: "confirm_rounds pl [] s = s"
  by (simp add: confirm_rounds_def)

text \<open>The flags are different bits, so no two states of the handshake are confused.\<close>

definition asked :: "aml_rx_buf_layout \<Rightarrow> u32" where
  "asked l = (case l of AML_RX_BUF_NARROW \<Rightarrow> FW_BUFFER_NARROW | AML_RX_BUF_EXPAND \<Rightarrow> FW_BUFFER_EXPAND)"

definition drained :: "aml_rx_buf_layout \<Rightarrow> u32" where
  "drained l = (case l of AML_RX_BUF_NARROW \<Rightarrow> RX_REDUCE_READ_RX_DATA_FINISH | AML_RX_BUF_EXPAND \<Rightarrow> RX_ENLARGE_READ_RX_DATA_FINISH)"

definition finished :: "aml_rx_buf_layout \<Rightarrow> u32" where
  "finished l = (case l of AML_RX_BUF_NARROW \<Rightarrow> HOST_RXBUF_REDUCE_FINISH | AML_RX_BUF_EXPAND \<Rightarrow> HOST_RXBUF_ENLARGE_FINISH)"

lemmas phase_defs = asked_def drained_def finished_def

text \<open>Where the read pointer stands after the layout was applied: a pointer behind the end of the narrow
  ring was moved to the start.\<close>

definition moved_tail :: "aml_rx_buf_layout \<Rightarrow> aml_rx \<Rightarrow> u32" where
  "moved_tail l rx = (if l = AML_RX_BUF_NARROW \<and> rx_end (layouts rx AML_RX_BUF_NARROW) \<le> fw_head rx AND NOT AML_RX_WRAP_FLAG
     then RXBUF_START_ADDR else fw_tail rx)"

definition bus_up :: "plat \<Rightarrow> bool" where
  "bus_up pl \<longleftrightarrow> aml_bus_type pl = USB_MODE \<or> aml_bus_type pl = SDIO_MODE \<and> hw_state pl = WIFI_SUSPEND_STATE_NONE"

text \<open>The three switches of a change; \<open>s'\<close> is the state up to the confirmations written.\<close>

lemma switch_asked:
  assumes "confirm_flags rx = 0" and "fw_state rx = asked l"
  obtains rx' where "confirm_switch pl (rx, d) = (drained l, rx', aml_sdio_usb_tx_page_apply (tx_page (layouts rx l)) d)"
    and "fw_end rx' = rx_end (layouts rx l)" and "fw_tail rx' = moved_tail l rx" and "fw_state rx' = fw_state rx"
    and "confirm_last rx' = confirm_last rx" and "rx_cfm_writes rx' = rx_cfm_writes rx" and "layouts rx' = layouts rx"
  using assms
  by (cases l) (auto simp: confirm_switch_def phase_defs BIT_def aml_shared_mem_layout_appy_def moved_tail_def Let_def)

lemma switch_drained:
  assumes "confirm_flags rx = drained l" and "fw_state rx = asked l"
  shows "confirm_switch pl (rx, d) = (drained l, rx, d)"
  using assms by (cases l) (simp_all add: confirm_switch_def phase_defs BIT_def Let_def)

lemma switch_finished:
  assumes "confirm_flags rx = drained l" and "fw_state rx = 0"
  shows "confirm_switch pl (rx, d) = (finished l, rx, d)"
  using assms by (cases l) (simp_all add: confirm_switch_def phase_defs BIT_def Let_def)

text \<open>Sending a confirmation.\<close>

lemma send_same:
  "confirm_last rx = flags OR fw_tail rx \<Longrightarrow> confirm_send pl received state flags rx =
     rx\<lparr>confirm_flags := (if flags = HOST_RXBUF_REDUCE_FINISH \<or> flags = HOST_RXBUF_ENLARGE_FINISH then 0 else flags)\<rparr>"
  by (simp add: confirm_send_def)

lemma send_other:
  assumes "confirm_last rx \<noteq> flags OR fw_tail rx" and "flags \<noteq> 0" and "r = confirm_send pl received state flags rx"
  shows "fw_end r = fw_end rx" and "fw_tail r = fw_tail rx" and "fw_state r = fw_state rx"
    and "confirm_last r = flags OR fw_tail rx"
    and "confirm_flags r = (if flags = HOST_RXBUF_REDUCE_FINISH \<or> flags = HOST_RXBUF_ENLARGE_FINISH then 0 else flags)"
    and "rx_cfm_writes r = rx_cfm_writes rx @ (if bus_up pl then [flags OR fw_tail rx] else [])"
proof -
  define F where "F = (if flags = HOST_RXBUF_REDUCE_FINISH \<or> flags = HOST_RXBUF_ENLARGE_FINISH then 0 else flags)"
  define C where "C = flags OR fw_tail rx"
  have C: "(confirm_last rx = C) = False" "(flags \<noteq> 0) = True"
    using assms(1,2) by (simp_all add: C_def)
  have r: "r = rx\<lparr>confirm_flags := F, confirm_last := C, rx_cfm_writes := rx_cfm_writes rx @ (if bus_up pl then [C] else [])\<rparr>"
    unfolding assms(3) confirm_send_def F_def [symmetric] C_def [symmetric] Let_def C bus_up_def
    by (cases "aml_bus_type pl") simp_all
  show "fw_end r = fw_end rx" "fw_tail r = fw_tail rx" "fw_state r = fw_state rx" "confirm_last r = C" "confirm_flags r = F"
    "rx_cfm_writes r = rx_cfm_writes rx @ (if bus_up pl then [C] else [])"
    unfolding r by simp_all
qed

lemma drained_unfinished: "drained l \<noteq> HOST_RXBUF_REDUCE_FINISH" "drained l \<noteq> HOST_RXBUF_ENLARGE_FINISH" "drained l \<noteq> 0"
  by (cases l; simp add: phase_defs BIT_def)+

lemma finished_ends: "finished l = HOST_RXBUF_REDUCE_FINISH \<or> finished l = HOST_RXBUF_ENLARGE_FINISH" "finished l \<noteq> 0"
  by (cases l; simp add: phase_defs BIT_def)+

lemmas confirm_defs = confirm_round_def aml_sdio_usb_rx_confirm_def

text \<open>A round in each phase.\<close>

lemma round_asked:
  assumes "confirm_flags rx = 0" and "confirm_last rx \<noteq> drained l OR moved_tail l rx"
  obtains rx' where "confirm_round pl (asked l) (rx, d) = (rx', aml_sdio_usb_tx_page_apply (tx_page (layouts rx l)) d)"
    and "fw_end rx' = rx_end (layouts rx l)" and "fw_tail rx' = moved_tail l rx" and "fw_state rx' = asked l"
    and "confirm_flags rx' = drained l" and "confirm_last rx' = drained l OR moved_tail l rx"
    and "rx_cfm_writes rx' = rx_cfm_writes rx @ (if bus_up pl then [drained l OR moved_tail l rx] else [])"
proof -
  let ?rx = "rx\<lparr>fw_state := asked l\<rparr>" and ?d = "aml_sdio_usb_tx_page_apply (tx_page (layouts rx l)) d"
  have ask: "confirm_flags ?rx = 0" "fw_state ?rx = asked l"
    using assms(1) by simp_all
  obtain r where sw: "confirm_switch pl (?rx, d) = (drained l, r, aml_sdio_usb_tx_page_apply (tx_page (layouts ?rx l)) d)"
    and r0: "fw_end r = rx_end (layouts ?rx l)" "fw_tail r = moved_tail l ?rx" "fw_state r = fw_state ?rx"
    "confirm_last r = confirm_last ?rx" "rx_cfm_writes r = rx_cfm_writes ?rx"
    using switch_asked [OF ask, of pl d] .
  have r: "fw_end r = rx_end (layouts rx l)" "fw_tail r = moved_tail l rx" "fw_state r = asked l"
    "confirm_last r = confirm_last rx" "rx_cfm_writes r = rx_cfm_writes rx"
    by (simp_all add: r0 moved_tail_def)
  let ?r = "confirm_send pl 0 (asked l OR 0) (drained l) r"
  have round: "confirm_round pl (asked l) (rx, d) = (?r, ?d)"
    by (simp add: confirm_defs sw assms(1))
  have last: "confirm_last r \<noteq> drained l OR fw_tail r"
    using assms(2) by (simp add: r)
  note s = send_other [OF last drained_unfinished(3) refl, of pl 0 "asked l OR 0", unfolded r if_not_P [OF drained_unfinished(1)]]
  show thesis
    by (rule that [OF round]) (simp_all only: s drained_unfinished simp_thms if_False)
qed

lemma round_waiting:
  assumes "confirm_flags rx = drained l" and "fw_state rx = asked l" and "confirm_last rx = drained l OR fw_tail rx"
  shows "confirm_round pl (asked l) (rx, d) = (rx, d)"
proof -
  have "rx\<lparr>fw_state := asked l\<rparr> = rx" "rx\<lparr>confirm_flags := drained l\<rparr> = rx"
    using assms(1,2) by (cases rx; simp)+
  then show ?thesis
    using drained_unfinished [of l]
    by (simp add: confirm_defs switch_drained [OF assms(1,2)] send_same [OF assms(3)])
qed

lemma round_finished:
  assumes "confirm_flags rx = drained l" and "confirm_last rx \<noteq> finished l OR fw_tail rx"
  obtains rx' where "confirm_round pl 0 (rx, d) = (rx', d)" and "fw_end rx' = fw_end rx" and "fw_tail rx' = fw_tail rx"
    and "confirm_flags rx' = 0" and "rx_cfm_writes rx' = rx_cfm_writes rx @ (if bus_up pl then [finished l OR fw_tail rx] else [])"
proof -
  let ?rx = "rx\<lparr>fw_state := 0\<rparr>"
  have sw: "confirm_switch pl (?rx, d) = (finished l, ?rx, d)"
    by (rule switch_finished) (simp_all add: assms(1))
  have round: "confirm_round pl 0 (rx, d) = (confirm_send pl 0 (0 OR drained l) (finished l) ?rx, d)"
    by (simp add: confirm_defs sw assms(1))
  have last: "confirm_last ?rx \<noteq> finished l OR fw_tail ?rx"
    using assms(2) by simp
  note s = send_other [OF last finished_ends(2) refl, of pl 0 "0 OR drained l", unfolded if_P [OF finished_ends(1)]]
  show thesis
    by (rule that [OF round]) (use s in simp_all)
qed

text \<open>Property C17. When the firmware asks for another layout, for as long as it likes, and then takes the
  request back, the layout and the transmit pages are applied, the two confirmations of the change
  are written once each and in order, and the handshake is over.\<close>

theorem layout_switch_completes:
  assumes "bus_up pl" and "confirm_flags rx = 0" and "confirm_last rx \<noteq> drained l OR moved_tail l rx"
    and "moved_tail l rx AND finished l = 0"
    and "confirm_rounds pl (replicate (Suc n) (asked l) @ [0]) (rx, d) = (rx', d')"
  shows "fw_end rx' = rx_end (layouts rx l) \<and> fw_tail rx' = moved_tail l rx \<and> confirm_flags rx' = 0 \<and>
    d' = aml_sdio_usb_tx_page_apply (tx_page (layouts rx l)) d \<and>
    rx_cfm_writes rx' = rx_cfm_writes rx @ [drained l OR moved_tail l rx, finished l OR moved_tail l rx]"
proof -
  obtain r where r: "confirm_round pl (asked l) (rx, d) = (r, aml_sdio_usb_tx_page_apply (tx_page (layouts rx l)) d)"
    "fw_end r = rx_end (layouts rx l)" "fw_tail r = moved_tail l rx" "fw_state r = asked l" "confirm_flags r = drained l"
    "confirm_last r = drained l OR moved_tail l rx" "rx_cfm_writes r = rx_cfm_writes rx @ [drained l OR moved_tail l rx]"
    using round_asked [OF assms(2,3), of pl d] assms(1) by auto
  let ?d = "aml_sdio_usb_tx_page_apply (tx_page (layouts rx l)) d"
  have wait: "confirm_rounds pl (replicate n (asked l)) (r, ?d) = (r, ?d)"
    by (rule rounds_same) (rule round_waiting; simp add: r)
  have "\<not> drained l OR moved_tail l rx = finished l OR moved_tail l rx"
  proof
    assume "drained l OR moved_tail l rx = finished l OR moved_tail l rx"
    then have "(drained l OR moved_tail l rx) AND finished l = (finished l OR moved_tail l rx) AND finished l"
      by simp
    then have "drained l AND finished l = finished l"
      using assms(4) by (simp add: bit.conj_disj_distrib2)
    then show False
      by (cases l) (simp_all add: phase_defs BIT_def)
  qed
  then have "confirm_last r \<noteq> finished l OR fw_tail r"
    by (simp add: r)
  from round_finished [OF r(5) this, of pl ?d] obtain r' where r': "confirm_round pl 0 (r, ?d) = (r', ?d)" "fw_end r' = fw_end r"
    "fw_tail r' = fw_tail r" "confirm_flags r' = 0" "rx_cfm_writes r' = rx_cfm_writes r @ [finished l OR fw_tail r]"
    using assms(1) by auto
  have "confirm_rounds pl (replicate (Suc n) (asked l) @ [0]) (rx, d) = (r', ?d)"
    by (simp add: rounds_Cons rounds_append rounds_Nil r(1) wait r'(1))
  with assms(5) r r' show ?thesis
    by simp
qed

text \<open>A USB device with the wide layout whose read pointer is behind the end of the narrow ring.\<close>

definition demo_rx :: aml_rx where
  "demo_rx = zero_rx\<lparr>layouts := demo_layouts, fw_end := USB_RXBUF_END_ADDR_LARGE, fw_head := 0x60030000, fw_tail := 0x60030000\<rparr>"

lemma demo_moved: "moved_tail AML_RX_BUF_NARROW demo_rx = RXBUF_START_ADDR"
  by (simp add: moved_tail_def demo_rx_def demo_layouts_def layout_defs BIT_def)

lemma demo_rx_simps: "confirm_flags demo_rx = 0" "confirm_last demo_rx = 0" "layouts demo_rx = demo_layouts" "rx_cfm_writes demo_rx = []"
  by (simp_all add: demo_rx_def zero_rx_def)

lemma demo_phase:
  "(0 :: u32) \<noteq> drained AML_RX_BUF_NARROW OR RXBUF_START_ADDR" "RXBUF_START_ADDR AND finished AML_RX_BUF_NARROW = 0"
  by (simp_all add: phase_defs layout_defs BIT_def)

lemma demo_bus_up: "bus_up (demo_bus USB_MODE)" "bus_up (demo_bus SDIO_MODE)"
  by (simp_all add: bus_up_def)

definition demo_switch :: "aml_rx \<times> tx_dev" where
  "demo_switch = confirm_rounds (demo_bus USB_MODE) (replicate (Suc 1) (asked AML_RX_BUF_NARROW) @ [0]) (demo_rx, demo_dev)"

lemma demo_switch_eq:
  "confirm_rounds (demo_bus USB_MODE) (replicate (Suc 1) (asked AML_RX_BUF_NARROW) @ [0]) (demo_rx, demo_dev) = (fst demo_switch, snd demo_switch)"
  by (simp only: demo_switch_def prod.collapse)

theorem layout_switch_completes_witness:
  "fw_end (fst demo_switch) = USB_RXBUF_END_ADDR_SMALL \<and> fw_tail (fst demo_switch) = RXBUF_START_ADDR \<and> length (rx_cfm_writes (fst demo_switch)) = 2"
  using layout_switch_completes [OF demo_bus_up(1) _ _ _ demo_switch_eq]
  by (simp add: demo_moved demo_rx_simps demo_phase demo_layouts_def)

text \<open>Property C19. A confirmation that is due while the SDIO bus is suspended is not written, but it is
  remembered as the last one: after the bus came back it is not written for as long as the
  firmware waits for it, and the change of the layout does not go on.\<close>

theorem suspended_confirm_lost:
  assumes "aml_bus_type pl = SDIO_MODE" and "hw_state pl \<noteq> WIFI_SUSPEND_STATE_NONE" and "confirm_flags rx = 0"
    and "confirm_last rx \<noteq> drained l OR moved_tail l rx"
    and "confirm_rounds pl' (replicate n (asked l)) (confirm_round pl (asked l) (rx, d)) = (rx', d')"
  shows "rx_cfm_writes rx' = rx_cfm_writes rx \<and> confirm_flags rx' = drained l"
proof -
  obtain r where r: "confirm_round pl (asked l) (rx, d) = (r, aml_sdio_usb_tx_page_apply (tx_page (layouts rx l)) d)"
    "fw_tail r = moved_tail l rx" "fw_state r = asked l" "confirm_flags r = drained l"
    "confirm_last r = drained l OR moved_tail l rx" "rx_cfm_writes r = rx_cfm_writes rx"
    using round_asked [OF assms(3,4), of pl d] assms(1,2) by (auto simp: bus_up_def)
  have "confirm_rounds pl' (replicate n (asked l)) (confirm_round pl (asked l) (rx, d)) = confirm_round pl (asked l) (rx, d)"
    unfolding r(1) by (rule rounds_same) (rule round_waiting; simp add: r)
  with assms(5) r show ?thesis
    by simp
qed

definition asleep_bus :: plat where
  "asleep_bus = (demo_bus SDIO_MODE)\<lparr>hw_state := WIFI_SUSPEND_STATE_WOW\<rparr>"

definition demo_lost :: "aml_rx \<times> tx_dev" where
  "demo_lost = confirm_rounds (demo_bus SDIO_MODE) (replicate 3 (asked AML_RX_BUF_NARROW))
     (confirm_round asleep_bus (asked AML_RX_BUF_NARROW) (demo_rx, demo_dev))"

lemma asleep_simps: "aml_bus_type asleep_bus = SDIO_MODE" "hw_state asleep_bus \<noteq> WIFI_SUSPEND_STATE_NONE"
  by (simp_all add: asleep_bus_def)

theorem suspended_confirm_lost_witness:
  "rx_cfm_writes (fst demo_lost) = [] \<and> confirm_flags (fst demo_lost) = drained AML_RX_BUF_NARROW"
  using suspended_confirm_lost [of asleep_bus demo_rx AML_RX_BUF_NARROW "demo_bus SDIO_MODE" 3 demo_dev "fst demo_lost" "snd demo_lost"]
  by (simp add: asleep_simps demo_moved demo_rx_simps demo_phase flip: demo_lost_def)

end
