(* ===== verification/Spec2Isabelle.thy ===== *)
theory Spec2Isabelle
  imports Prelude Ipc_Host Cmds Reorder Reorder_Sta Tcp_Ack Radar_Pde Radar_Burst Radar Radar_Mem
    Txq Txq_Inv Txq_Drop Tx_Path Txq_Events Tx_View Tx_Amsdu Tx_Confirm Tx_Tables Tx_Xmit Tx_Machine Tx_Props
    Rx_Msdu Amsdu_Bytes Rx_Ring Rx_Layout
begin

text \<open>
  Verification library for the Amlogic W2 Wi-Fi driver, the Linux full-MAC driver under
  src/aml_drv with the firmware interface under src/common/fw. The build is the one of the
  repository's Makefile: \<open>CONFIG_AML_FULLMAC\<close>, one user position (\<open>CONFIG_USER_MAX\<close> 1, no
  MU-MIMO), five hardware queues (\<open>NX_TXQ_CNT\<close>), A-MSDU transmission, split TX buffers and
  large USB pages, recovery and radar detection enabled, \<open>CONFIG_CREDIT124\<close> undefined.

  \<^bold>\<open>The program and how its parts interact.\<close> The driver sits between cfg80211 and the
  network stack above and the firmware below, which it reaches over PCIe, USB or SDIO.
  A data frame enters at \<open>aml_start_xmit\<close>, may be suppressed by the TCP acknowledgement filter,
  may be glued to the frame before it as a subframe of an A-MSDU, and is queued in the TX queue
  of its station and traffic class. A queue with frames, credits and no reason to be stopped is
  linked to its hardware queue; the TX task (on PCIe the caller itself) serves the hardware
  queues, gives each frame a host id from the IPC layer's table, and packs the frames in
  transfers under the page credits of the firmware. The firmware confirms frames by host id; the
  confirmation task releases them or puts them back as retries and returns the credits.
  On SDIO and USB received descriptors are copied from the firmware's ring to a ring of the host,
  followed there by the receive task, taken apart or put together, and
  frames of a block-ack session pass through the reorder buffer before the stack gets
  them. The control path sends commands through the command manager, which keeps one in flight
  through the single message slot of the IPC layer. Radar pulses reach the DFS detectors
  through an IPC descriptor and a ring; a detection is reported to cfg80211.

  \<^bold>\<open>Conventions.\<close> An operation that the C code can make fault (a freed or null object, an index
  outside of its array, a \<open>BUG\<close>, an overrun of a buffer) returns \<open>None\<close> there; an error the
  code reports is a value. State is passed explicitly in records with the fields of the C
  structures; machine integers are words where their width matters; intrusive lists are lists
  of addresses. What the kernel or the firmware decides (allocation and mapping outcomes, the
  clock, the answers of cfg80211, the contents of rings the firmware writes) is an argument, a
  list of outcomes in the state, or a field of an event.

  \<^bold>\<open>The theories.\<close>
  \<^item> Prelude: words, flags, bytes, intrusive lists, sequence numbers and jiffies, and the
    interfaces: \<open>circular_index\<close> (ring cursors), \<open>guarded_machine\<close> and \<open>total_machine\<close> (an invariant
    kept by every event, and no event faults), which every component instantiates with its own steps.
  \<^item> Ipc_Host: aml_drv/ipc_host.c, ipc_host.h, ipc_shared.h, common/fw/dp_tx.h. Host ids, shared
    rings, TX doorbell, message slot and acknowledgement (interface \<open>msg_channel\<close>), interrupt dispatch.
    Properties: the id table is a finite map of outstanding frames; a stale confirmation finds
    nothing; the message slot overruns exactly for messages that do not fit.
  \<^item> Cmds: aml_drv/aml_cmds.c and the acknowledgement entry of aml_utils.c. The queue of commands
    with the points where the lock is dropped as separate steps. Properties: one command in
    flight, none freed while listed; acknowledgement and confirmation commute; draining leaves no
    waiter; two orders of events that lose or reuse a command.
  \<^item> Reorder, Reorder_Sta: aml_drv/aml_reorder.c, aml_reorder.h. The window, its slots, timers,
    packet-number check, block-ack requests; creation, growth and release of sessions.
    Properties: frames conserved and handed up in order, no replay, ageing flushes what is
    overdue, how the window is sized, bounds of the parser, and the cases where it fails.
  \<^item> Tcp_Ack: aml_drv/aml_tcp_ack.c, aml_tcp_ack.h and its settings in aml_iwpriv_cmds.c. Packet
    parsing on bytes, the session table, replacement and timers, checksum of rewritten options.
  \<^item> Radar_Pde, Radar_Burst, Radar, Radar_Mem: aml_drv/aml_radar.c, aml_radar.h with the handlers of
    aml_utils.c, ipc_host.c and fullmac/aml_main.c that call it. Waveform tables, short and long
    detectors, element pools, pulse ring, channel availability checks. Properties: a regular
    burst is detected in time, a detection is backed by pulses, memory is accounted for.
  \<^item> Txq: aml_drv/aml_txq.c, aml_txq.h, the push of fullmac/aml_tx.c. Every operation on TX queues
    and hardware queues: start, stop, queue, serve, drop, flush, age, set up, tear down.
  \<^item> Tx_Path: fullmac/aml_tx.c, aml_tx.h and the tasks in aml_utils.c. Choice of the queue, A-MSDU
    building and dismantling on bytes, data and management entry, power save, confirmations,
    credit updates, transfers under page credits.
  \<^item> Txq_Inv, Txq_Drop, Txq_Events, Tx_View, Tx_Amsdu, Tx_Confirm, Tx_Tables, Tx_Xmit: the invariant
    \<open>tx_inv\<close> of the transmission on USB and SDIO and its preservation by each operation, from the
    push of one frame up to whole task rounds. It says who owns each frame and subframe, what the
    credits count, which queues are linked, where the retries are. Tx_View and \<open>over\<close> (Tx_Amsdu)
    let an operation be used while a frame is in the hands of its caller.
  \<^item> Tx_Machine: the transmission as a machine over sixteen kinds of events, from the state after
    start-up; an interpretation of \<open>total_machine\<close>. Tx_Props: the properties of the transmission,
    and the frames it leaves behind.

  \<^item> Rx_Ring: aml_drv/aml_sdio_usb_rx.c, aml_sdio_usb_rx.h, common/wifi_w2_shared_mem_cfg.h,
    common/fw/dp_rx.h. The receive buffer of SDIO and USB: the copy from the ring of the firmware to
    the ring in host memory, the links between descriptors, draining, start and restart, and the
    layouts of the memory shared with the transmit pages. Rx_Layout: the layouts fit, the
    handshake that changes them completes, and how a suspended bus breaks it.
  \<^item> Rx_Msdu: the same file. A-MSDUs are taken apart and 802.11 fragments put together, from MPDUs in
    one or two pieces. Amsdu_Bytes: the bytes of a subframe on the way out and in; what
    aggregation lays out, deaggregation restores.

  \<^bold>\<open>Bounds and fuel.\<close> Loops whose recursion is not structural carry fuel, and it is proved to be
  enough on every state the claims are about: the window shift of the reorder buffer (4097, more
  than the sequence numbers), a hardware queue's loop (twice the linked queues and one, as a
  queue is visited at most twice), flushing (the frames of the queue), the confirmation task (the
  frames with the firmware and one), the retries of a credit update (their number and one).

  \<^bold>\<open>Not modelled, and why.\<close> The control path of cfg80211 (fullmac/aml_main.c, aml_msg_tx.c,
  aml_msg_rx.c) fills message structures and forwards to cfg80211, which is not in the repository;
  what it does to the modelled state is an event of the machines. The PCIe receive path
  (fullmac/aml_rx.c) works on hardware descriptors and DMA memory; of the SDIO and USB receive path
  the conversion of receive vectors, the delivery by NAPI and the forwarding between
  stations are left out. The bus drivers, platform code, firmware download, power and
  recovery, debugfs, private ioctls, rate tables, regulatory data, P2P and mesh glue are I/O,
  configuration or calls of kernel services; the register headers under src/common are data.
  Within the modelled parts, statistics, traces and log output are left out, MU-MIMO code is
  not built, and the PCIe variants of the TX queues are defined (Txq, Tx_Path) but the
  invariant of the transmission is stated for USB and SDIO only: on PCIe a frame that meets a
  suspended bus or a failed mapping is lost with its credit, so the invariant does not hold there.
\<close>

end
